(* ===== verification/Prelude.thy ===== *)
theory Prelude
  imports Main "HOL-Library.Word"
begin

text \<open>
  Shared vocabulary of the development: the C integer types at their width, the error
  numbers of kernel/kernel.h, bytes in big-endian memory (the 68000 stores the most
  significant byte first), the bounded search "for (i = 0; i < n; i++) if (P(i))" that the
  kernel uses on all of its fixed tables, and the generic lemmas the components share.

  Fixed-size C arrays are total functions from an index; every access of the source is
  inside the array's bounds, which is part of what the component theories show where it is
  not evident. Physical memory is a function from 32-bit addresses to bytes.
\<close>

unbundle bit_operations_syntax

section \<open>Integer types and constants\<close>

type_synonym u8 = "8 word"
type_synonym u16 = "16 word"
type_synonym u32 = "32 word"
type_synonym bytes = "u8 list"
type_synonym memory = "u32 \<Rightarrow> u8"

text \<open>Results of kernel calls are C \<open>int\<close>s: a count or 0, or a negated error number.\<close>

abbreviation (input) ENOENT :: int where "ENOENT \<equiv> 2"
abbreviation (input) ESRCH :: int where "ESRCH \<equiv> 3"
abbreviation (input) EINTR :: int where "EINTR \<equiv> 4"
abbreviation (input) EIO :: int where "EIO \<equiv> 5"
abbreviation (input) ENOEXEC :: int where "ENOEXEC \<equiv> 8"
abbreviation (input) EBADF :: int where "EBADF \<equiv> 9"
abbreviation (input) ECHILD :: int where "ECHILD \<equiv> 10"
abbreviation (input) EAGAIN :: int where "EAGAIN \<equiv> 11"
abbreviation (input) ENOMEM :: int where "ENOMEM \<equiv> 12"
abbreviation (input) EEXIST :: int where "EEXIST \<equiv> 17"
abbreviation (input) ENODEV :: int where "ENODEV \<equiv> 19"
abbreviation (input) ENOTDIR :: int where "ENOTDIR \<equiv> 20"
abbreviation (input) EISDIR :: int where "EISDIR \<equiv> 21"
abbreviation (input) EINVAL :: int where "EINVAL \<equiv> 22"
abbreviation (input) ENFILE :: int where "ENFILE \<equiv> 23"
abbreviation (input) EMFILE :: int where "EMFILE \<equiv> 24"
abbreviation (input) ENOTTY :: int where "ENOTTY \<equiv> 25"
abbreviation (input) ENOSPC :: int where "ENOSPC \<equiv> 28"
abbreviation (input) EPIPE :: int where "EPIPE \<equiv> 32"
abbreviation (input) ERANGE :: int where "ERANGE \<equiv> 34"
abbreviation (input) ENOSYS :: int where "ENOSYS \<equiv> 38"
abbreviation (input) ENOTEMPTY :: int where "ENOTEMPTY \<equiv> 39"

abbreviation (input) MAXPROC :: nat where "MAXPROC \<equiv> 16"
abbreviation (input) MAXFD :: nat where "MAXFD \<equiv> 16"
abbreviation (input) MAXOPEN :: nat where "MAXOPEN \<equiv> 64"
abbreviation (input) MAXINODE :: nat where "MAXINODE \<equiv> 128"
abbreviation (input) NAME_MAX :: nat where "NAME_MAX \<equiv> 30"
abbreviation (input) PATH_MAX :: nat where "PATH_MAX \<equiv> 256"
abbreviation (input) BLOCK_SIZE :: nat where "BLOCK_SIZE \<equiv> 1024"
abbreviation (input) NBUFS :: nat where "NBUFS \<equiv> 16"
abbreviation (input) MAXPIPE :: nat where "MAXPIPE \<equiv> 4"
abbreviation (input) PIPE_SIZE :: nat where "PIPE_SIZE \<equiv> 512"

section \<open>Bounded search over a table\<close>

text \<open>The least index below \<open>n\<close> that satisfies \<open>P\<close>.\<close>

definition first_idx :: "(nat \<Rightarrow> bool) \<Rightarrow> nat \<Rightarrow> nat option" where
  "first_idx P n = find P [0..<n]"

lemma first_idx_None_iff: "first_idx P n = None \<longleftrightarrow> (\<forall>i < n. \<not> P i)"
  by (auto simp: first_idx_def find_None_iff)

lemma first_idx_Some_iff:
  "first_idx P n = Some i \<longleftrightarrow> i < n \<and> P i \<and> (\<forall>j < i. \<not> P j)"
proof
  assume "first_idx P n = Some i"
  then show "i < n \<and> P i \<and> (\<forall>j < i. \<not> P j)"
    by (auto simp: first_idx_def find_Some_iff)
next
  assume "i < n \<and> P i \<and> (\<forall>j < i. \<not> P j)"
  then show "first_idx P n = Some i"
    by (auto simp: first_idx_def find_Some_iff intro!: exI [where x = i])
qed

lemma first_idx_SomeD:
  assumes "first_idx P n = Some i"
  shows "i < n" and "P i" and "\<And>j. j < i \<Longrightarrow> \<not> P j"
  using assms by (auto simp: first_idx_Some_iff)

lemma first_idx_NoneD: "first_idx P n = None \<Longrightarrow> i < n \<Longrightarrow> \<not> P i"
  by (simp add: first_idx_None_iff)

lemma first_idx_exists: "i < n \<Longrightarrow> P i \<Longrightarrow> \<exists>j. first_idx P n = Some j \<and> j \<le> i"
proof -
  assume "i < n" "P i"
  then obtain j where j: "first_idx P n = Some j"
    by (cases "first_idx P n") (auto simp: first_idx_None_iff)
  with \<open>P i\<close> have "j \<le> i"
    by (meson first_idx_SomeD(3) not_le)
  with j show ?thesis by blast
qed

section \<open>Big-endian words in byte memory\<close>

text \<open>
  The index type is left open so that one pair of accessors serves block buffers (indexed by
  \<open>nat\<close>) and physical memory (indexed by 32-bit addresses).
\<close>

definition get16 :: "('i::semiring_1 \<Rightarrow> u8) \<Rightarrow> 'i \<Rightarrow> u16" where
  "get16 m a = push_bit 8 (ucast (m a)) OR ucast (m (a + 1))"

definition put16 :: "('i::semiring_1 \<Rightarrow> u8) \<Rightarrow> 'i \<Rightarrow> u16 \<Rightarrow> ('i \<Rightarrow> u8)" where
  "put16 m a v = m(a := ucast (drop_bit 8 v), a + 1 := ucast v)"

definition get32 :: "('i::semiring_1 \<Rightarrow> u8) \<Rightarrow> 'i \<Rightarrow> u32" where
  "get32 m a = push_bit 16 (ucast (get16 m a)) OR ucast (get16 m (a + 2))"

definition put32 :: "('i::semiring_1 \<Rightarrow> u8) \<Rightarrow> 'i \<Rightarrow> u32 \<Rightarrow> ('i \<Rightarrow> u8)" where
  "put32 m a v = put16 (put16 m a (ucast (drop_bit 16 v))) (a + 2) (ucast v)"

lemma join16: "push_bit 8 (ucast (ucast (drop_bit 8 v) :: u8)) OR ucast (ucast v :: u8) = (v :: u16)"
  by (rule bit_word_eqI) (auto simp: bit_simps)

lemma join32: "push_bit 16 (ucast (ucast (drop_bit 16 v) :: u16)) OR ucast (ucast v :: u16) = (v :: u32)"
  by (rule bit_word_eqI) (auto simp: bit_simps)

text \<open>Block numbers are widened on their way to the disk.\<close>

lemma unat_ucast16 [simp]: "unat (ucast (x :: u16) :: u32) = unat x"
  by transfer (simp add: take_bit_eq_mod)

lemma ucast16_eq: "(ucast x :: u32) = ucast y \<longleftrightarrow> x = (y :: u16)"
  by (metis unat_ucast16 word_unat_eq_iff)

lemma get16_put16_nat [simp]: "get16 (put16 m a v) (a :: nat) = v"
  by (simp add: get16_def put16_def join16)

lemma get16_put16_u32 [simp]: "get16 (put16 m a v) (a :: u32) = v"
  by (simp add: get16_def put16_def join16)

lemma put16_other: "i \<noteq> a \<Longrightarrow> i \<noteq> a + 1 \<Longrightarrow> put16 m a v i = m i"
  by (simp add: put16_def)

lemma get16_put16_other_nat:
  "b + 2 \<le> a \<or> a + 2 \<le> (b :: nat) \<Longrightarrow> get16 (put16 m a v) b = get16 m b"
  by (auto simp: get16_def put16_def)

lemma get32_put32_nat [simp]: "get32 (put32 m a v) (a :: nat) = v"
  by (simp add: get32_def put32_def get16_put16_other_nat join32)

lemma put32_other: "i \<noteq> a \<Longrightarrow> i \<noteq> a + 1 \<Longrightarrow> i \<noteq> a + 2 \<Longrightarrow> i \<noteq> a + 2 + 1 \<Longrightarrow> put32 m a v i = m i"
  by (simp add: put32_def put16_other)

lemma put32_other_nat: "i < a \<or> a + 4 \<le> (i :: nat) \<Longrightarrow> put32 m a v i = m i"
  by (auto simp: put32_def put16_def)

lemma get16_cong: "m a = n a \<Longrightarrow> m (a + 1) = n (a + 1) \<Longrightarrow> get16 m a = get16 n a"
  by (simp add: get16_def)

section \<open>Modular arithmetic and lists\<close>

lemma u8_bound: "unat (w :: u8) < 256"
proof -
  have "unat w < 2 ^ LENGTH(8)" by (rule unsigned_less)
  then show ?thesis by simp
qed

lemma u16_bound: "unat (w :: u16) < 65536"
proof -
  have "unat w < 2 ^ LENGTH(16)" by (rule unsigned_less)
  then show ?thesis by simp
qed

lemma u32_bound: "unat (w :: u32) < 4294967296"
proof -
  have "unat w < 2 ^ LENGTH(32)" by (rule unsigned_less)
  then show ?thesis by simp
qed

lemma if_less_min: "(if a < b then a else b) = min a (b :: nat)"
  by simp

lemma mod_shift: "((r + c) mod m + i - c) mod m = (r + i) mod (m :: nat)" if "c \<le> i"
proof -
  have "((r + c) mod m + (i - c)) mod m = (r + c + (i - c)) mod m" by (simp add: mod_add_left_eq)
  with that show ?thesis by simp
qed

lemma ring_slot_inj:
  assumes "(r + i) mod m = (r + k) mod (m :: nat)" and "i < m" and "k < m"
  shows "i = k"
proof -
  obtain a b where "r + i + m * a = r + k + m * b" using assms(1) by (auto simp: nat_mod_eq_iff)
  then have "i + m * a = k + m * b" by simp
  then have "i mod m = k mod m" by (metis nat_mod_eq_iff)
  with assms show ?thesis by simp
qed

lemma map_upt_shift: "map f [n..<n + c] = map (\<lambda>i. f (n + i)) [0..<c]"
  by (rule nth_equalityI) auto

end
