(* ===== verification/Byte_Queue.thy ===== *)
theory Byte_Queue
  imports Prelude
begin

text \<open>
  The interface shared by the kernel's two ring buffers, the pipe of kernel/proc.c and the
  terminal input queue of kernel/tty.c: a bounded first-in first-out queue of bytes. A
  provider promises what one transfer does to the contents; the client lemmas, proved once
  here, say what every sequence of transfers does. Each provider interprets the locale on
  its own definitions.
\<close>

text \<open>A transfer a client asks for: bytes to store, or a number of bytes to fetch.\<close>

datatype transfer = Push bytes | Pull nat

locale bounded_queue =
  fixes contents :: "'q \<Rightarrow> bytes"
    and wf :: "'q \<Rightarrow> bool"
    and cap :: nat
    and push :: "bytes \<Rightarrow> 'q \<Rightarrow> nat \<times> 'q"
    and pull :: "nat \<Rightarrow> 'q \<Rightarrow> bytes \<times> 'q"
  assumes contents_cap: "wf q \<Longrightarrow> length (contents q) \<le> cap"
    and push_count: "wf q \<Longrightarrow> fst (push bs q) = min (length bs) (cap - length (contents q))"
    and push_contents: "wf q \<Longrightarrow> contents (snd (push bs q)) = contents q @ take (fst (push bs q)) bs"
    and push_wf: "wf q \<Longrightarrow> wf (snd (push bs q))"
    and pull_out: "wf q \<Longrightarrow> fst (pull n q) = take n (contents q)"
    and pull_contents: "wf q \<Longrightarrow> contents (snd (pull n q)) = drop n (contents q)"
    and pull_wf: "wf q \<Longrightarrow> wf (snd (pull n q))"
begin

text \<open>A run of transfers: the bytes accepted, the bytes delivered and the final queue.\<close>

fun run :: "transfer list \<Rightarrow> 'q \<Rightarrow> bytes \<times> bytes \<times> 'q" where
  "run [] q = ([], [], q)"
| "run (Push bs # ts) q =
     (case push bs q of (k, q') \<Rightarrow>
        case run ts q' of (ins, outs, q'') \<Rightarrow> (take k bs @ ins, outs, q''))"
| "run (Pull n # ts) q =
     (case pull n q of (out, q') \<Rightarrow>
        case run ts q' of (ins, outs, q'') \<Rightarrow> (ins, out @ outs, q''))"

lemma run_fifo:
  "wf q \<Longrightarrow> run ts q = (ins, outs, q') \<Longrightarrow>
     wf q' \<and> contents q @ ins = outs @ contents q'"
proof (induction ts q arbitrary: ins outs rule: run.induct)
  case (1 q)
  then show ?case by simp
next
  case (2 bs ts q)
  obtain k q1 where p: "push bs q = (k, q1)" by (cases "push bs q")
  obtain i1 o1 q2 where r: "run ts q1 = (i1, o1, q2)" by (cases "run ts q1") auto
  have w: "wf q1" and c: "contents q1 = contents q @ take k bs"
    using push_wf [OF 2(2), of bs] push_contents [OF 2(2), of bs] p by simp_all
  from 2(1) [OF p [symmetric] w] r c 2(3) p show ?case by auto
next
  case (3 n ts q)
  obtain out q1 where p: "pull n q = (out, q1)" by (cases "pull n q")
  obtain i1 o1 q2 where r: "run ts q1 = (i1, o1, q2)" by (cases "run ts q1") auto
  have w: "wf q1" and o: "contents q = out @ contents q1"
    using pull_wf [OF 3(2), of n] pull_out [OF 3(2), of n] pull_contents [OF 3(2), of n] p
    by simp_all
  from 3(1) [OF p [symmetric] w] r o 3(3) p show ?case by auto
qed

lemma run_bounded:
  "wf q \<Longrightarrow> run ts q = (ins, outs, q') \<Longrightarrow>
     length outs + length (contents q') = length (contents q) + length ins"
  using run_fifo [of q ts ins outs q'] by (metis length_append add.commute)

text \<open>A push into a queue with room stores all of its bytes, and a pull gets them back.\<close>

lemma push_pull:
  assumes "wf q" and "contents q = []" and "length bs \<le> cap"
  shows "fst (pull (length bs) (snd (push bs q))) = bs"
  using assms by (simp add: pull_out push_wf push_contents push_count)

end

end
