(* ===== verification/Proc_Table.thy ===== *)
theory Proc_Table
  imports Prelude
begin

text \<open>
  The process table, the open-file table and the pipe table of kernel/proc.c, with the
  structures of kernel/kernel.h, their initialisation, the allocators of open files and
  descriptors, and the round-robin scheduler. A \<open>struct proc *\<close> is an index of the table,
  a \<open>struct ofile *\<close> an index of \<open>ofile_table\<close>; NULL is \<open>None\<close>. The kernel sets
  \<open>curproc\<close> in \<open>proc_init\<close> and never clears it, so it is an index from the start.
\<close>

section \<open>Structures\<close>

datatype proc_state =
  P_FREE | P_RUNNING | P_READY | P_SLEEPING | P_ZOMBIE | P_VFORK | P_STOPPED

abbreviation (input) NSIG :: nat where "NSIG \<equiv> 21"
abbreviation (input) KSTACK_SIZE :: nat where "KSTACK_SIZE \<equiv> 512"
abbreviation (input) KSTACK_CANARY :: u32 where "KSTACK_CANARY \<equiv> 0xDEADBEEF"
abbreviation (input) SIG_DFL :: u32 where "SIG_DFL \<equiv> 0"
abbreviation (input) SIG_IGN :: u32 where "SIG_IGN \<equiv> 1"

text \<open>
  \<open>kstack\<close> holds the bytes of the per-process kernel stack and \<open>ksp\<close> the saved stack
  pointer as an offset into it; \<open>vfork_ctx\<close> the thirteen words that \<open>vfork_save\<close>
  stores (registers, stack pointer, return address).
\<close>

record proc =
  pstate :: proc_state
  pid :: nat
  ppid :: nat
  exitcode :: int
  ksp :: nat
  mem_base :: u32
  mem_size :: u32
  brk :: u32
  data_a5 :: u32
  text_size :: u32
  data_bss :: u32
  cwd :: u16
  vfork_ctx :: "nat \<Rightarrow> u32"
  pgrp :: nat
  sig_pending :: u32
  sig_handler :: "nat \<Rightarrow> u32"
  fd :: "nat \<Rightarrow> nat option"
  fd_flags :: "nat \<Rightarrow> u8"
  kstack :: "nat \<Rightarrow> u8"

text \<open>
  The \<open>inode\<close> field of an open file is a pointer into the inode cache, NULL, or, for a
  pipe end, the pipe's index plus one cast to a pointer.
\<close>

datatype iptr = INull | IPtr nat | IPipe nat

record ofile =
  of_inode :: iptr
  of_offset :: u32
  of_flags :: u16
  of_refcount :: u8

record pipe =
  pbuf :: "nat \<Rightarrow> u8"
  read_pos :: nat
  write_pos :: nat
  pcount :: nat
  readers :: nat
  writers :: nat
  read_waiting :: nat
  write_waiting :: nat

record ptab =
  proctab :: "nat \<Rightarrow> proc"
  curproc :: nat
  nproc :: int
  next_pid :: nat
  ofile_table :: "nat \<Rightarrow> ofile"
  pipe_table :: "nat \<Rightarrow> pipe"

section \<open>Access and update\<close>

abbreviation cur :: "ptab \<Rightarrow> proc" where
  "cur s \<equiv> proctab s (curproc s)"

definition upd_proc :: "nat \<Rightarrow> (proc \<Rightarrow> proc) \<Rightarrow> ptab \<Rightarrow> ptab" where
  "upd_proc i f s = s\<lparr>proctab := (proctab s)(i := f (proctab s i))\<rparr>"

definition upd_ofile :: "nat \<Rightarrow> (ofile \<Rightarrow> ofile) \<Rightarrow> ptab \<Rightarrow> ptab" where
  "upd_ofile i f s = s\<lparr>ofile_table := (ofile_table s)(i := f (ofile_table s i))\<rparr>"

definition upd_pipe :: "nat \<Rightarrow> (pipe \<Rightarrow> pipe) \<Rightarrow> ptab \<Rightarrow> ptab" where
  "upd_pipe i f s = s\<lparr>pipe_table := (pipe_table s)(i := f (pipe_table s i))\<rparr>"

lemma upd_proc_sel [simp]:
  "proctab (upd_proc i f s) j = (if j = i then f (proctab s i) else proctab s j)"
  "curproc (upd_proc i f s) = curproc s"
  "nproc (upd_proc i f s) = nproc s"
  "next_pid (upd_proc i f s) = next_pid s"
  "ofile_table (upd_proc i f s) = ofile_table s"
  "pipe_table (upd_proc i f s) = pipe_table s"
  by (simp_all add: upd_proc_def)

lemma upd_ofile_sel [simp]:
  "ofile_table (upd_ofile i f s) j = (if j = i then f (ofile_table s i) else ofile_table s j)"
  "proctab (upd_ofile i f s) = proctab s"
  "curproc (upd_ofile i f s) = curproc s"
  "nproc (upd_ofile i f s) = nproc s"
  "next_pid (upd_ofile i f s) = next_pid s"
  "pipe_table (upd_ofile i f s) = pipe_table s"
  by (simp_all add: upd_ofile_def)

lemma upd_pipe_sel [simp]:
  "pipe_table (upd_pipe i f s) j = (if j = i then f (pipe_table s i) else pipe_table s j)"
  "proctab (upd_pipe i f s) = proctab s"
  "curproc (upd_pipe i f s) = curproc s"
  "nproc (upd_pipe i f s) = nproc s"
  "next_pid (upd_pipe i f s) = next_pid s"
  "ofile_table (upd_pipe i f s) = ofile_table s"
  by (simp_all add: upd_pipe_def)

section \<open>Initialisation\<close>

text \<open>The descriptor loop of \<open>proc_init\<close>: the first free open file becomes the console.\<close>

definition init_fd :: "nat \<Rightarrow> ptab \<Rightarrow> ptab" where
  "init_fd f s =
     (case first_idx (\<lambda>i. of_refcount (ofile_table s i) = 0) MAXOPEN of
        None \<Rightarrow> s
      | Some k \<Rightarrow>
          upd_proc (curproc s) (\<lambda>p. p\<lparr>fd := (fd p)(f := Some k)\<rparr>)
            (upd_ofile k (\<lambda>_. \<lparr>of_inode = INull, of_offset = 0,
               of_flags = (if f = 0 then 0 else 1), of_refcount = 1\<rparr>) s))"

text \<open>The first word of the kernel stack is \<open>KSTACK_CANARY\<close>.\<close>

definition proc_init :: "ptab \<Rightarrow> ptab" where
  "proc_init s =
     (let s1 = s\<lparr>
        proctab := (\<lambda>i. if i < MAXPROC then (proctab s i)\<lparr>pstate := P_FREE, pid := i\<rparr> else proctab s i),
        ofile_table := (\<lambda>i. if i < MAXOPEN then (ofile_table s i)\<lparr>of_refcount := 0\<rparr> else ofile_table s i),
        curproc := 0\<rparr>;
      s2 = upd_proc 0 (\<lambda>p. p\<lparr>pstate := P_RUNNING, pid := 0, ppid := 0, cwd := 1, pgrp := 0,
             mem_base := 0, data_a5 := 0, kstack := put32 (kstack p) 0 KSTACK_CANARY\<rparr>) s1;
      s3 = s2\<lparr>nproc := 1\<rparr>
      in init_fd 2 (init_fd 1 (init_fd 0 s3)))"

section \<open>Open files and descriptors\<close>

definition ofile_alloc :: "ptab \<Rightarrow> nat option \<times> ptab" where
  "ofile_alloc s =
     (case first_idx (\<lambda>i. of_refcount (ofile_table s i) = 0) MAXOPEN of
        None \<Rightarrow> (None, s)
      | Some i \<Rightarrow> (Some i, upd_ofile i (\<lambda>f. f\<lparr>of_refcount := 1\<rparr>) s))"

definition fd_alloc_from :: "nat \<Rightarrow> nat \<Rightarrow> ptab \<Rightarrow> int \<times> ptab" where
  "fd_alloc_from ofi minfd s =
     (case find (\<lambda>i. fd (cur s) i = None) [minfd..<MAXFD] of
        None \<Rightarrow> (- EMFILE, s)
      | Some i \<Rightarrow> (int i, upd_proc (curproc s) (\<lambda>p. p\<lparr>fd := (fd p)(i := Some ofi)\<rparr>) s))"

definition fd_alloc :: "nat \<Rightarrow> ptab \<Rightarrow> int \<times> ptab" where
  "fd_alloc ofi s = fd_alloc_from ofi 0 s"

section \<open>Scheduler\<close>

text \<open>The process the round-robin scan of \<open>schedule\<close> finds, starting after \<open>curproc\<close>.\<close>

definition pick_next :: "ptab \<Rightarrow> nat option" where
  "pick_next s =
     map_option (\<lambda>i. (pid (cur s) + i) mod MAXPROC)
       (find (\<lambda>i. pstate (proctab s ((pid (cur s) + i) mod MAXPROC)) = P_READY) [1..<MAXPROC])"

text \<open>
  \<open>schedule\<close> up to the context switch: the caller's kernel code continues when the
  scheduler picks it again. The canary check after \<open>swtch\<close> is \<open>canary_ok\<close>.
\<close>

definition schedule :: "ptab \<Rightarrow> ptab" where
  "schedule s =
     (case pick_next s of
        None \<Rightarrow> s
      | Some n \<Rightarrow>
          (let s1 = (if pstate (cur s) = P_RUNNING
                     then upd_proc (curproc s) (\<lambda>p. p\<lparr>pstate := P_READY\<rparr>) s else s)
           in (upd_proc n (\<lambda>p. p\<lparr>pstate := P_RUNNING\<rparr>) s1)\<lparr>curproc := n\<rparr>))"

definition canary_ok :: "proc \<Rightarrow> bool" where
  "canary_ok p \<longleftrightarrow> get32 (kstack p) 0 = KSTACK_CANARY"

section \<open>Boot state and well-formedness\<close>

text \<open>The tables are static objects, so they start out all zero.\<close>

definition zero_proc :: proc where
  "zero_proc = \<lparr>pstate = P_FREE, pid = 0, ppid = 0, exitcode = 0, ksp = 0, mem_base = 0,
     mem_size = 0, brk = 0, data_a5 = 0, text_size = 0, data_bss = 0, cwd = 0,
     vfork_ctx = (\<lambda>_. 0), pgrp = 0, sig_pending = 0, sig_handler = (\<lambda>_. 0),
     fd = (\<lambda>_. None), fd_flags = (\<lambda>_. 0), kstack = (\<lambda>_. 0)\<rparr>"

definition zero_ofile :: ofile where
  "zero_ofile = \<lparr>of_inode = INull, of_offset = 0, of_flags = 0, of_refcount = 0\<rparr>"

definition zero_pipe :: pipe where
  "zero_pipe = \<lparr>pbuf = (\<lambda>_. 0), read_pos = 0, write_pos = 0, pcount = 0, readers = 0,
     writers = 0, read_waiting = 0, write_waiting = 0\<rparr>"

definition boot_ptab :: ptab where
  "boot_ptab = \<lparr>proctab = (\<lambda>_. zero_proc), curproc = 0, nproc = 0, next_pid = 1,
     ofile_table = (\<lambda>_. zero_ofile), pipe_table = (\<lambda>_. zero_pipe)\<rparr>"

text \<open>Every slot's \<open>pid\<close> is its index, and \<open>curproc\<close> is a slot.\<close>

definition pids_ok :: "ptab \<Rightarrow> bool" where
  "pids_ok s \<longleftrightarrow> (\<forall>i < MAXPROC. pid (proctab s i) = i) \<and> curproc s < MAXPROC"

lemma pick_next_SomeD:
  assumes "pick_next s = Some n"
  shows "n < MAXPROC" and "pstate (proctab s n) = P_READY"
  using assms by (auto simp: pick_next_def find_Some_iff)

lemma schedule_cases:
  obtains (stay) "pick_next s = None" and "schedule s = s"
  | (switch) n where "pick_next s = Some n" and "n < MAXPROC" and "pstate (proctab s n) = P_READY"
      and "curproc (schedule s) = n"
  using pick_next_SomeD [of s]
  by (cases "pick_next s") (auto simp: schedule_def Let_def)

lemma schedule_sel [simp]:
  "ofile_table (schedule s) = ofile_table s"
  "pipe_table (schedule s) = pipe_table s"
  "nproc (schedule s) = nproc s"
  "next_pid (schedule s) = next_pid s"
  by (auto simp: schedule_def Let_def split: option.split)

lemma schedule_proc [simp]:
  "pid (proctab (schedule s) i) = pid (proctab s i)"
  "ppid (proctab (schedule s) i) = ppid (proctab s i)"
  "fd (proctab (schedule s) i) = fd (proctab s i)"
  "mem_base (proctab (schedule s) i) = mem_base (proctab s i)"
  "mem_size (proctab (schedule s) i) = mem_size (proctab s i)"
  by (auto simp: schedule_def Let_def split: option.split)

lemma schedule_pids_ok [intro]: "pids_ok s \<Longrightarrow> pids_ok (schedule s)"
  by (cases s rule: schedule_cases) (simp_all add: pids_ok_def)

text \<open>Scheduling changes no state but that of the process it leaves and the one it picks.\<close>

lemma schedule_state:
  "pstate (proctab (schedule s) i) =
     (case pick_next s of None \<Rightarrow> pstate (proctab s i)
      | Some n \<Rightarrow> if i = n then P_RUNNING
                 else if i = curproc s \<and> pstate (proctab s i) = P_RUNNING then P_READY
                 else pstate (proctab s i))"
  by (auto simp: schedule_def Let_def split: option.split)

end
