(* ===== verification/Pipe.thy ===== *)
theory Pipe
  imports Byte_Queue Proc_Table
begin

text \<open>
  The pipes of kernel/proc.c: a 512-byte ring buffer with the two registrations
  \<open>read_waiting\<close> and \<open>write_waiting\<close> of a blocked process. \<open>pipe_read\<close> and
  \<open>pipe_write\<close> call \<open>schedule\<close> inside their waiting loop, so each is modelled in two parts:
  an attempt, from the loop's condition up to the point where the process sleeps or the call
  returns, and a resumption, from the return of \<open>schedule\<close> to the next attempt.
\<close>

abbreviation (input) SIGPIPE :: nat where "SIGPIPE \<equiv> 13"

section \<open>The ring buffer\<close>

text \<open>
  The copy loops of \<open>pipe_read\<close> and \<open>pipe_write\<close>, one contiguous chunk per round. Every
  round moves at least one byte while the positions are inside the buffer, so \<open>Suc len\<close>
  units of fuel are enough (\<open>copy_out_contents\<close>, \<open>copy_in_contents\<close>).
\<close>

primrec copy_out :: "nat \<Rightarrow> nat \<Rightarrow> pipe \<Rightarrow> bytes \<Rightarrow> bytes \<times> pipe" where
  "copy_out 0 len p dst = (dst, p)"
| "copy_out (Suc fuel) len p dst =
     (if length dst < len \<and> pcount p > 0
      then (let avail = pcount p;
                want = len - length dst;
                contig = PIPE_SIZE - read_pos p;
                chunk = min (if avail < want then avail else want) contig
            in copy_out fuel len
                 (p\<lparr>read_pos := (read_pos p + chunk) mod PIPE_SIZE, pcount := pcount p - chunk\<rparr>)
                 (dst @ map (\<lambda>i. pbuf p (read_pos p + i)) [0..<chunk]))
      else (dst, p))"

text \<open>
  The write loop also stops, before every chunk, when no reader is left: the flag of the
  result says so.
\<close>

primrec copy_in :: "nat \<Rightarrow> nat \<Rightarrow> (nat \<Rightarrow> u8) \<Rightarrow> pipe \<Rightarrow> nat \<Rightarrow> nat \<times> bool \<times> pipe" where
  "copy_in 0 len src p n = (n, False, p)"
| "copy_in (Suc fuel) len src p n =
     (if n < len \<and> pcount p < PIPE_SIZE
      then (if readers p = 0 then (n, True, p)
            else (let space = PIPE_SIZE - pcount p;
                      want = len - n;
                      contig = PIPE_SIZE - write_pos p;
                      chunk = min (if space < want then space else want) contig
                  in copy_in fuel len src
                       (p\<lparr>pbuf := (\<lambda>i. if write_pos p \<le> i \<and> i < write_pos p + chunk
                                      then src (n + (i - write_pos p)) else pbuf p i),
                          write_pos := (write_pos p + chunk) mod PIPE_SIZE,
                          pcount := pcount p + chunk\<rparr>)
                       (n + chunk)))
      else (n, False, p))"

section \<open>Waking and blocking\<close>

definition wake_proc :: "nat \<Rightarrow> ptab \<Rightarrow> ptab" where
  "wake_proc i s =
     (if pstate (proctab s i) = P_SLEEPING then upd_proc i (\<lambda>p. p\<lparr>pstate := P_READY\<rparr>) s else s)"

definition wake_writer :: "nat \<Rightarrow> ptab \<Rightarrow> ptab" where
  "wake_writer pi s =
     (let w = write_waiting (pipe_table s pi)
      in if 0 < w \<and> w \<le> MAXPROC
         then upd_pipe pi (\<lambda>p. p\<lparr>write_waiting := 0\<rparr>) (wake_proc (w - 1) s) else s)"

definition wake_reader :: "nat \<Rightarrow> ptab \<Rightarrow> ptab" where
  "wake_reader pi s =
     (let w = read_waiting (pipe_table s pi)
      in if 0 < w \<and> w \<le> MAXPROC
         then upd_pipe pi (\<lambda>p. p\<lparr>read_waiting := 0\<rparr>) (wake_proc (w - 1) s) else s)"

definition sleep_cur :: "ptab \<Rightarrow> ptab" where
  "sleep_cur s = upd_proc (curproc s) (\<lambda>p. p\<lparr>pstate := P_SLEEPING\<rparr>) s"

definition raise_sig :: "nat \<Rightarrow> nat \<Rightarrow> ptab \<Rightarrow> ptab" where
  "raise_sig i sig s = upd_proc i (\<lambda>p. p\<lparr>sig_pending := sig_pending p OR push_bit sig 1\<rparr>) s"

text \<open>\<open>None\<close>: the process went to sleep and calls \<open>schedule\<close>.\<close>

definition pipe_read :: "nat \<Rightarrow> int \<Rightarrow> ptab \<Rightarrow> bytes option \<times> ptab" where
  "pipe_read pi len s =
     (let p = pipe_table s pi
      in if pcount p = 0 \<and> writers p > 0
         then (None, sleep_cur (upd_pipe pi (\<lambda>p. p\<lparr>read_waiting := pid (cur s) + 1\<rparr>)
                 (wake_writer pi s)))
         else (case copy_out (Suc (nat len)) (nat len) p [] of
                 (out, p') \<Rightarrow> (Some out, wake_writer pi (upd_pipe pi (\<lambda>_. p') s))))"

definition pipe_read_resume :: "nat \<Rightarrow> int \<Rightarrow> ptab \<Rightarrow> bytes option \<times> ptab" where
  "pipe_read_resume pi len s = pipe_read pi len (upd_pipe pi (\<lambda>p. p\<lparr>read_waiting := 0\<rparr>) s)"

text \<open>
  The write: the test for readers on entry is not repeated when the process resumes, so the
  waiting loop and the rest of the call are a definition of their own.
\<close>

definition pipe_write_wait :: "nat \<Rightarrow> (nat \<Rightarrow> u8) \<Rightarrow> int \<Rightarrow> ptab \<Rightarrow> int option \<times> ptab" where
  "pipe_write_wait pi src len s =
     (let p = pipe_table s pi
      in if pcount p \<ge> PIPE_SIZE \<and> readers p > 0
         then (None, sleep_cur (upd_pipe pi (\<lambda>p. p\<lparr>write_waiting := pid (cur s) + 1\<rparr>)
                 (wake_reader pi s)))
         else (case copy_in (Suc (nat len)) (nat len) src p 0 of
                 (n, broken, p') \<Rightarrow>
                   (let s' = upd_pipe pi (\<lambda>_. p') s
                    in if broken
                       then (Some (if n > 0 then int n else - EPIPE), raise_sig (curproc s) SIGPIPE s')
                       else (Some (if n > 0 then int n else - EPIPE), wake_reader pi s'))))"

definition pipe_write :: "nat \<Rightarrow> (nat \<Rightarrow> u8) \<Rightarrow> int \<Rightarrow> ptab \<Rightarrow> int option \<times> ptab" where
  "pipe_write pi src len s =
     (if readers (pipe_table s pi) = 0
      then (Some (- EPIPE), raise_sig (curproc s) SIGPIPE s)
      else pipe_write_wait pi src len s)"

definition pipe_write_resume :: "nat \<Rightarrow> (nat \<Rightarrow> u8) \<Rightarrow> int \<Rightarrow> ptab \<Rightarrow> int option \<times> ptab" where
  "pipe_write_resume pi src len s =
     pipe_write_wait pi src len (upd_pipe pi (\<lambda>p. p\<lparr>write_waiting := 0\<rparr>) s)"

definition pipe_close_read :: "nat \<Rightarrow> ptab \<Rightarrow> ptab" where
  "pipe_close_read pi s =
     (let s1 = (if readers (pipe_table s pi) > 0
                then upd_pipe pi (\<lambda>p. p\<lparr>readers := readers p - 1\<rparr>) s else s)
      in if readers (pipe_table s1 pi) = 0 then wake_writer pi s1 else s1)"

definition pipe_close_write :: "nat \<Rightarrow> ptab \<Rightarrow> ptab" where
  "pipe_close_write pi s =
     (let s1 = (if writers (pipe_table s pi) > 0
                then upd_pipe pi (\<lambda>p. p\<lparr>writers := writers p - 1\<rparr>) s else s)
      in if writers (pipe_table s1 pi) = 0 then wake_reader pi s1 else s1)"

section \<open>Creating a pipe, and recognising its ends\<close>

abbreviation (input) OFILE_PIPE_READ :: u16 where "OFILE_PIPE_READ \<equiv> 0x1000"
abbreviation (input) OFILE_PIPE_WRITE :: u16 where "OFILE_PIPE_WRITE \<equiv> 0x2000"
abbreviation (input) OFILE_PIPE_MASK :: u16 where "OFILE_PIPE_MASK \<equiv> 0x3000"

definition new_pipe :: "pipe \<Rightarrow> pipe" where
  "new_pipe p = p\<lparr>read_pos := 0, write_pos := 0, pcount := 0, readers := 1, writers := 1,
                 read_waiting := 0, write_waiting := 0\<rparr>"

definition shut_pipe :: "nat \<Rightarrow> ptab \<Rightarrow> ptab" where
  "shut_pipe pi s = upd_pipe pi (\<lambda>p. p\<lparr>readers := 0, writers := 0\<rparr>) s"

text \<open>The result is the error, or the two descriptors the call stores through \<open>fds\<close>.\<close>

definition do_pipe :: "ptab \<Rightarrow> (int + int \<times> int) \<times> ptab" where
  "do_pipe s =
     (case first_idx (\<lambda>i. readers (pipe_table s i) = 0 \<and> writers (pipe_table s i) = 0) MAXPIPE of
        None \<Rightarrow> (Inl (- ENFILE), s)
      | Some pi \<Rightarrow>
          (let s1 = upd_pipe pi new_pipe s
           in case ofile_alloc s1 of
                (None, s2) \<Rightarrow> (Inl (- ENFILE), shut_pipe pi s2)
              | (Some r, s2) \<Rightarrow>
                  (let s3 = upd_ofile r (\<lambda>f. f\<lparr>of_inode := IPipe (pi + 1), of_offset := 0,
                              of_flags := OFILE_PIPE_READ\<rparr>) s2
                   in case fd_alloc r s3 of (rfd, s4) \<Rightarrow>
                        if rfd < 0
                        then (Inl rfd, shut_pipe pi (upd_ofile r (\<lambda>f. f\<lparr>of_refcount := 0\<rparr>) s4))
                        else (case ofile_alloc s4 of
                          (None, s5) \<Rightarrow>
                            (Inl (- ENFILE), shut_pipe pi (upd_ofile r (\<lambda>f. f\<lparr>of_refcount := 0\<rparr>)
                               (upd_proc (curproc s5) (\<lambda>p. p\<lparr>fd := (fd p)(nat rfd := None)\<rparr>) s5)))
                        | (Some w, s5) \<Rightarrow>
                            (let s6 = upd_ofile w (\<lambda>f. f\<lparr>of_inode := IPipe (pi + 1), of_offset := 0,
                                        of_flags := OFILE_PIPE_WRITE OR 1\<rparr>) s5
                             in case fd_alloc w s6 of (wfd, s7) \<Rightarrow>
                                  if wfd < 0
                                  then (Inl wfd, shut_pipe pi (upd_ofile w (\<lambda>f. f\<lparr>of_refcount := 0\<rparr>)
                                         (upd_ofile r (\<lambda>f. f\<lparr>of_refcount := 0\<rparr>)
                                         (upd_proc (curproc s7) (\<lambda>p. p\<lparr>fd := (fd p)(nat rfd := None)\<rparr>) s7))))
                                  else (Inr (rfd, wfd), s7))))))"

text \<open>
  \<open>ofile_pipe\<close>: the pipe of an open file whose flags mark a pipe end. The index is the
  pointer's value minus one; NULL gives -1, and a genuine inode address is far above the
  number of pipes, so both fail the range test.
\<close>

definition ofile_pipe :: "ofile \<Rightarrow> nat option" where
  "ofile_pipe f =
     (if of_flags f AND OFILE_PIPE_MASK = 0 then None
      else (case of_inode f of
              IPipe k \<Rightarrow> if 1 \<le> k \<and> k - 1 < MAXPIPE then Some (k - 1) else None
            | _ \<Rightarrow> None))"

section \<open>Correctness of the ring\<close>

text \<open>The bytes in transit, oldest first, and the ring's representation invariant.\<close>

definition pipe_contents :: "pipe \<Rightarrow> bytes" where
  "pipe_contents p = map (\<lambda>i. pbuf p ((read_pos p + i) mod PIPE_SIZE)) [0..<pcount p]"

definition pipe_wf :: "pipe \<Rightarrow> bool" where
  "pipe_wf p \<longleftrightarrow> read_pos p < PIPE_SIZE \<and> pcount p \<le> PIPE_SIZE \<and>
     write_pos p = (read_pos p + pcount p) mod PIPE_SIZE"

lemma length_pipe_contents [simp]: "length (pipe_contents p) = pcount p"
  by (simp add: pipe_contents_def)

lemma pipe_contents_Nil: "pcount p = 0 \<Longrightarrow> pipe_contents p = []"
  by (simp add: pipe_contents_def)

lemma contents_chunk_out:
  assumes "pipe_wf p" and "c \<le> pcount p" and "c \<le> PIPE_SIZE - read_pos p"
  shows "pipe_contents p = map (\<lambda>i. pbuf p (read_pos p + i)) [0..<c] @
     pipe_contents (p\<lparr>read_pos := (read_pos p + c) mod PIPE_SIZE, pcount := pcount p - c\<rparr>)"
    (is "?l = ?a @ ?b")
proof (rule nth_equalityI)
  show "length ?l = length (?a @ ?b)" using assms by simp
  fix i assume "i < length ?l"
  then have i: "i < pcount p" by simp
  show "?l ! i = (?a @ ?b) ! i"
  proof (cases "i < c")
    case True
    with assms i show ?thesis by (simp add: pipe_contents_def nth_append)
  next
    case False
    with assms i show ?thesis by (simp add: pipe_contents_def nth_append mod_shift)
  qed
qed

lemma wf_chunk_out:
  assumes "pipe_wf p" and "c \<le> pcount p"
  shows "pipe_wf (p\<lparr>read_pos := (read_pos p + c) mod PIPE_SIZE, pcount := pcount p - c\<rparr>)"
  using assms by (auto simp: pipe_wf_def mod_shift)

lemma copy_out_contents:
  "pipe_wf p \<Longrightarrow> len - length dst < fuel \<Longrightarrow> copy_out fuel len p dst = (out, p') \<Longrightarrow>
     out = dst @ take (len - length dst) (pipe_contents p) \<and>
     pipe_contents p' = drop (len - length dst) (pipe_contents p) \<and> pipe_wf p' \<and>
     readers p' = readers p \<and> writers p' = writers p \<and>
     read_waiting p' = read_waiting p \<and> write_waiting p' = write_waiting p"
proof (induction fuel arbitrary: p dst)
  case 0
  then show ?case by simp
next
  case (Suc fuel)
  show ?case
  proof (cases "length dst < len \<and> pcount p > 0")
    case False
    with Suc.prems show ?thesis by (auto simp: pipe_contents_Nil)
  next
    case True
    define c where "c = min (min (pcount p) (len - length dst)) (PIPE_SIZE - read_pos p)"
    define q where "q = p\<lparr>read_pos := (read_pos p + c) mod PIPE_SIZE, pcount := pcount p - c\<rparr>"
    define bs where "bs = map (\<lambda>i. pbuf p (read_pos p + i)) [0..<c]"
    have c: "0 < c" "c \<le> pcount p" "c \<le> PIPE_SIZE - read_pos p" "c \<le> len - length dst"
      using True Suc.prems(1) by (auto simp: c_def pipe_wf_def)
    have step: "copy_out fuel len q (dst @ bs) = (out, p')"
      using Suc.prems(3) True
      by (simp add: Let_def q_def bs_def c_def if_less_min)
    have cont: "pipe_contents p = bs @ pipe_contents q" and w: "pipe_wf q"
      using contents_chunk_out [OF Suc.prems(1) c(2,3)] wf_chunk_out [OF Suc.prems(1) c(2)]
      by (simp_all add: bs_def q_def)
    have l: "length bs = c" by (simp add: bs_def)
    from Suc.IH [OF w _ step] Suc.prems(2) c l cont
    show ?thesis by (simp add: q_def)
  qed
qed
lemma contents_chunk_in:
  assumes "pipe_wf p" and "c \<le> PIPE_SIZE - pcount p" and "c \<le> PIPE_SIZE - write_pos p"
  shows "pipe_contents (p\<lparr>pbuf := (\<lambda>i. if write_pos p \<le> i \<and> i < write_pos p + c
             then f (i - write_pos p) else pbuf p i),
           write_pos := (write_pos p + c) mod PIPE_SIZE, pcount := pcount p + c\<rparr>)
         = pipe_contents p @ map f [0..<c]" (is "pipe_contents ?q = ?l @ ?b")
proof (rule nth_equalityI)
  show "length (pipe_contents ?q) = length (?l @ ?b)" by simp
  fix i assume "i < length (pipe_contents ?q)"
  then have i: "i < pcount p + c" by simp
  have w: "write_pos p = (read_pos p + pcount p) mod 512" "pcount p \<le> 512"
    using assms(1) by (auto simp: pipe_wf_def)
  show "pipe_contents ?q ! i = (?l @ ?b) ! i"
  proof (cases "i < pcount p")
    case True
    have "\<not> (write_pos p \<le> (read_pos p + i) mod 512 \<and> (read_pos p + i) mod 512 < write_pos p + c)"
    proof
      assume a: "write_pos p \<le> (read_pos p + i) mod 512 \<and> (read_pos p + i) mod 512 < write_pos p + c"
      define j where "j = (read_pos p + i) mod 512 - write_pos p"
      have j: "(read_pos p + i) mod 512 = write_pos p + j" "j < c" using a by (auto simp: j_def)
      then have "(read_pos p + i) mod 512 = (write_pos p + j) mod 512" by (metis mod_mod_trivial)
      then have "(read_pos p + i) mod 512 = (read_pos p + (pcount p + j)) mod 512"
        by (simp add: w mod_add_left_eq add.assoc)
      moreover have "i < 512" "pcount p + j < 512" using True j(2) assms(2) w(2) by simp_all
      ultimately have "i = pcount p + j" by (rule ring_slot_inj)
      with True show False by simp
    qed
    with True i show ?thesis by (auto simp: pipe_contents_def nth_append)
  next
    case False
    have "(read_pos p + i) mod 512 = (write_pos p + (i - pcount p)) mod 512"
      using False by (simp add: w mod_shift)
    also have "\<dots> = write_pos p + (i - pcount p)" using assms(3) i False by simp
    finally have x: "(read_pos p + i) mod 512 = write_pos p + (i - pcount p)" .
    have y: "i - pcount p < c" using i False by simp
    have "pipe_contents ?q ! i = f (i - pcount p)" using i x y by (simp add: pipe_contents_def)
    then show ?thesis using False i y by (simp add: nth_append)
  qed
qed

lemma wf_chunk_in:
  assumes "pipe_wf p" and "c \<le> PIPE_SIZE - pcount p"
  shows "pipe_wf (p\<lparr>pbuf := b, write_pos := (write_pos p + c) mod PIPE_SIZE, pcount := pcount p + c\<rparr>)"
  using assms by (auto simp: pipe_wf_def mod_add_left_eq add.assoc)

lemma copy_in_contents:
  "pipe_wf p \<Longrightarrow> len - n < fuel \<Longrightarrow> readers p > 0 \<Longrightarrow> copy_in fuel len src p n = (k, b, p') \<Longrightarrow>
     \<not> b \<and> k = n + min (len - n) (PIPE_SIZE - pcount p) \<and>
     pipe_contents p' = pipe_contents p @ map src [n..<k] \<and> pipe_wf p' \<and>
     readers p' = readers p \<and> writers p' = writers p \<and>
     read_waiting p' = read_waiting p \<and> write_waiting p' = write_waiting p"
proof (induction fuel arbitrary: p n)
  case 0
  then show ?case by simp
next
  case (Suc fuel)
  show ?case
  proof (cases "n < len \<and> pcount p < PIPE_SIZE")
    case False
    with Suc.prems show ?thesis by auto
  next
    case True
    define c where "c = min (min (PIPE_SIZE - pcount p) (len - n)) (PIPE_SIZE - write_pos p)"
    define q where "q = p\<lparr>pbuf := (\<lambda>i. if write_pos p \<le> i \<and> i < write_pos p + c
                                      then src (n + (i - write_pos p)) else pbuf p i),
                          write_pos := (write_pos p + c) mod PIPE_SIZE,
                          pcount := pcount p + c\<rparr>"
    have "write_pos p < PIPE_SIZE" using Suc.prems(1) by (simp add: pipe_wf_def)
    then have c: "0 < c" "c \<le> PIPE_SIZE - pcount p" "c \<le> PIPE_SIZE - write_pos p" "c \<le> len - n"
      using True by (auto simp: c_def)
    have step: "copy_in fuel len src q (n + c) = (k, b, p')"
      using Suc.prems(3,4) True by (simp add: Let_def q_def c_def if_less_min)
    have cont: "pipe_contents q = pipe_contents p @ map src [n..<n + c]" and w: "pipe_wf q"
      using contents_chunk_in [OF Suc.prems(1) c(2,3), of "\<lambda>i. src (n + i)"] wf_chunk_in [OF Suc.prems(1) c(2)]
      by (simp_all add: q_def map_upt_shift)
    have f: "readers q = readers p" "writers q = writers p" "read_waiting q = read_waiting p"
      "write_waiting q = write_waiting p" "pcount q = pcount p + c" by (simp_all add: q_def)
    have IH: "\<not> b \<and> k = n + c + min (len - (n + c)) (PIPE_SIZE - pcount q) \<and>
     pipe_contents p' = pipe_contents q @ map src [n + c..<k] \<and> pipe_wf p' \<and>
     readers p' = readers q \<and> writers p' = writers q \<and>
     read_waiting p' = read_waiting q \<and> write_waiting p' = write_waiting q"
      by (rule Suc.IH [OF w _ _ step]) (use Suc.prems(2,3) c f in auto)
    then have "n + c \<le> k" by simp
    then have "[n..<n + c] @ [n + c..<k] = [n..<k]" using upt_add_eq_append [of n "n + c" "k - (n + c)"] by simp
    then have "pipe_contents p' = pipe_contents p @ map src [n..<k]"
      using IH cont by (metis append.assoc map_append)
    moreover have "k = n + min (len - n) (PIPE_SIZE - pcount p)" using IH f c by auto
    moreover have "\<not> b \<and> pipe_wf p' \<and> readers p' = readers p \<and> writers p' = writers p \<and>
       read_waiting p' = read_waiting p \<and> write_waiting p' = write_waiting p"
      using IH f by simp
    ultimately show ?thesis by blast
  qed
qed
section \<open>The ring is a bounded byte queue\<close>

definition pipe_push :: "bytes \<Rightarrow> pipe \<Rightarrow> nat \<times> pipe" where
  "pipe_push bs p =
     (case copy_in (Suc (length bs)) (length bs) (\<lambda>i. bs ! i) p 0 of (n, _, p') \<Rightarrow> (n, p'))"

definition pipe_pull :: "nat \<Rightarrow> pipe \<Rightarrow> bytes \<times> pipe" where
  "pipe_pull n p = copy_out (Suc n) n p []"

definition pipe_open_wf :: "pipe \<Rightarrow> bool" where
  "pipe_open_wf p \<longleftrightarrow> pipe_wf p \<and> readers p > 0"

lemma pipe_push_spec:
  assumes "pipe_open_wf p"
  shows "fst (pipe_push bs p) = min (length bs) (PIPE_SIZE - pcount p)"
    and "pipe_contents (snd (pipe_push bs p)) = pipe_contents p @ take (fst (pipe_push bs p)) bs"
    and "pipe_open_wf (snd (pipe_push bs p))"
proof -
  obtain k b q where c: "copy_in (Suc (length bs)) (length bs) (\<lambda>i. bs ! i) p 0 = (k, b, q)"
    by (metis prod_cases3)
  have s: "k = min (length bs) (PIPE_SIZE - pcount p)"
    "pipe_contents q = pipe_contents p @ map (\<lambda>i. bs ! i) [0..<k]" "pipe_wf q" "readers q = readers p"
    using copy_in_contents [OF _ _ _ c] assms by (simp_all add: pipe_open_wf_def)
  moreover have "map (\<lambda>i. bs ! i) [0..<k] = take k bs" using s(1)
    by (intro nth_equalityI) auto
  ultimately show "fst (pipe_push bs p) = min (length bs) (PIPE_SIZE - pcount p)"
    "pipe_contents (snd (pipe_push bs p)) = pipe_contents p @ take (fst (pipe_push bs p)) bs"
    "pipe_open_wf (snd (pipe_push bs p))"
    using c assms by (simp_all add: pipe_push_def pipe_open_wf_def)
qed

lemma pipe_pull_spec:
  assumes "pipe_open_wf p"
  shows "fst (pipe_pull n p) = take n (pipe_contents p)"
    and "pipe_contents (snd (pipe_pull n p)) = drop n (pipe_contents p)"
    and "pipe_open_wf (snd (pipe_pull n p))"
proof -
  obtain out q where c: "copy_out (Suc n) n p [] = (out, q)" by (cases "copy_out (Suc n) n p []")
  from copy_out_contents [OF _ _ c] assms c
  show "fst (pipe_pull n p) = take n (pipe_contents p)"
    "pipe_contents (snd (pipe_pull n p)) = drop n (pipe_contents p)"
    "pipe_open_wf (snd (pipe_pull n p))"
    by (simp_all add: pipe_pull_def pipe_open_wf_def)
qed

lemma pipe_open_cap: "pipe_open_wf p \<Longrightarrow> pcount p \<le> PIPE_SIZE"
  by (simp add: pipe_open_wf_def pipe_wf_def)

interpretation pipe_q: bounded_queue pipe_contents pipe_open_wf PIPE_SIZE pipe_push pipe_pull
  by unfold_locales (simp_all add: pipe_push_spec pipe_pull_spec pipe_open_cap)

section \<open>The calls on an open pipe\<close>

lemma wake_proc_sel [simp]:
  "pipe_table (wake_proc i s) = pipe_table s" "curproc (wake_proc i s) = curproc s"
  "ofile_table (wake_proc i s) = ofile_table s" "nproc (wake_proc i s) = nproc s"
  "pid (proctab (wake_proc i s) j) = pid (proctab s j)"
  by (auto simp: wake_proc_def)

lemma wake_proc_state:
  "pstate (proctab (wake_proc i s) j) =
     (if j = i \<and> pstate (proctab s i) = P_SLEEPING then P_READY else pstate (proctab s j))"
  by (auto simp: wake_proc_def)

lemma wake_pipe_contents [simp]:
  "pipe_contents (pipe_table (wake_writer pi s) k) = pipe_contents (pipe_table s k)"
  "pipe_contents (pipe_table (wake_reader pi s) k) = pipe_contents (pipe_table s k)"
  "pipe_wf (pipe_table (wake_writer pi s) k) = pipe_wf (pipe_table s k)"
  "pipe_wf (pipe_table (wake_reader pi s) k) = pipe_wf (pipe_table s k)"
  by (auto simp: wake_writer_def wake_reader_def Let_def pipe_contents_def pipe_wf_def)

lemma wake_pipe_ends [simp]:
  "readers (pipe_table (wake_writer pi s) k) = readers (pipe_table s k)"
  "writers (pipe_table (wake_writer pi s) k) = writers (pipe_table s k)"
  "pcount (pipe_table (wake_writer pi s) k) = pcount (pipe_table s k)"
  "readers (pipe_table (wake_reader pi s) k) = readers (pipe_table s k)"
  "writers (pipe_table (wake_reader pi s) k) = writers (pipe_table s k)"
  "pcount (pipe_table (wake_reader pi s) k) = pcount (pipe_table s k)"
  "curproc (wake_writer pi s) = curproc s"
  "curproc (wake_reader pi s) = curproc s"
  by (auto simp: wake_writer_def wake_reader_def Let_def)

text \<open>A read that need not wait returns what is there, up to \<open>len\<close> bytes, oldest first.\<close>

lemma pipe_read_spec:
  assumes "pipe_wf (pipe_table s pi)" and "pcount (pipe_table s pi) > 0 \<or> writers (pipe_table s pi) = 0"
  obtains s' where "pipe_read pi len s = (Some (take (nat len) (pipe_contents (pipe_table s pi))), s')"
    and "pipe_contents (pipe_table s' pi) = drop (nat len) (pipe_contents (pipe_table s pi))"
    and "pipe_wf (pipe_table s' pi)"
    and "readers (pipe_table s' pi) = readers (pipe_table s pi)"
    and "writers (pipe_table s' pi) = writers (pipe_table s pi)"
proof -
  obtain out q where c: "copy_out (Suc (nat len)) (nat len) (pipe_table s pi) [] = (out, q)"
    by (cases "copy_out (Suc (nat len)) (nat len) (pipe_table s pi) []")
  from copy_out_contents [OF assms(1) _ c] c assms(2) that show ?thesis
    by (auto simp: pipe_read_def Let_def)
qed

text \<open>A write that need not wait stores as many bytes as there is room for.\<close>

lemma pipe_write_spec:
  assumes "pipe_wf (pipe_table s pi)" and "readers (pipe_table s pi) > 0"
    and "pcount (pipe_table s pi) < PIPE_SIZE" and "0 < len"
    and k: "k = min (nat len) (PIPE_SIZE - pcount (pipe_table s pi))"
  obtains s' where "pipe_write pi src len s = (Some (int k), s')"
    and "pipe_contents (pipe_table s' pi) = pipe_contents (pipe_table s pi) @ map src [0..<k]"
    and "pipe_wf (pipe_table s' pi)"
    and "readers (pipe_table s' pi) = readers (pipe_table s pi)"
    and "writers (pipe_table s' pi) = writers (pipe_table s pi)"
proof -
  obtain n b q where c: "copy_in (Suc (nat len)) (nat len) src (pipe_table s pi) 0 = (n, b, q)"
    by (metis prod_cases3)
  have "n = k" "\<not> b" "0 < k" using copy_in_contents [OF assms(1) _ assms(2) c] assms(3,4) k by auto
  with copy_in_contents [OF assms(1) _ assms(2) c] c assms(2,3) that show ?thesis
    by (auto simp: pipe_write_def pipe_write_wait_def Let_def)
qed

end
