(* ===== verification/Pipe_System.thy ===== *)
theory Pipe_System
  imports Pipe
begin

text \<open>
  Processes around one pipe as a step relation: every system call on the pipe, the two
  points where a call sleeps inside its loop and resumes after \<open>schedule\<close>, the closing of
  its ends and preemption by the timer. Which process moves is decided by \<open>curproc\<close>; which
  call it makes is free. The ghost fields record the bytes accepted from writers and
  delivered to readers.
\<close>

text \<open>Where a process is: in user mode, or inside the waiting loop of a call.\<close>

datatype kcall = KUser | KRead int | KWrite "nat \<Rightarrow> u8" int

record pipe_sys =
  tab :: ptab
  at :: "nat \<Rightarrow> kcall"
  sent :: bytes
  received :: bytes

definition accepted :: "(nat \<Rightarrow> u8) \<Rightarrow> int \<Rightarrow> bytes" where
  "accepted src r = map src [0..<nat r]"

inductive pipe_step :: "nat \<Rightarrow> pipe_sys \<Rightarrow> pipe_sys \<Rightarrow> bool" for pi where
  read_done: "at s (curproc (tab s)) = KUser \<Longrightarrow> pipe_read pi len (tab s) = (Some out, t) \<Longrightarrow>
     pipe_step pi s (s\<lparr>tab := t, received := received s @ out\<rparr>)"
| read_sleep: "at s (curproc (tab s)) = KUser \<Longrightarrow> pipe_read pi len (tab s) = (None, t) \<Longrightarrow>
     pipe_step pi s (s\<lparr>tab := schedule t, at := (at s)(curproc (tab s) := KRead len)\<rparr>)"
| read_resumed: "at s (curproc (tab s)) = KRead len \<Longrightarrow>
     pipe_read_resume pi len (tab s) = (Some out, t) \<Longrightarrow>
     pipe_step pi s (s\<lparr>tab := t, at := (at s)(curproc (tab s) := KUser), received := received s @ out\<rparr>)"
| read_again: "at s (curproc (tab s)) = KRead len \<Longrightarrow>
     pipe_read_resume pi len (tab s) = (None, t) \<Longrightarrow> pipe_step pi s (s\<lparr>tab := schedule t\<rparr>)"
| write_done: "at s (curproc (tab s)) = KUser \<Longrightarrow> pipe_write pi src len (tab s) = (Some r, t) \<Longrightarrow>
     pipe_step pi s (s\<lparr>tab := t, sent := sent s @ accepted src r\<rparr>)"
| write_sleep: "at s (curproc (tab s)) = KUser \<Longrightarrow> pipe_write pi src len (tab s) = (None, t) \<Longrightarrow>
     pipe_step pi s (s\<lparr>tab := schedule t, at := (at s)(curproc (tab s) := KWrite src len)\<rparr>)"
| write_resumed: "at s (curproc (tab s)) = KWrite src len \<Longrightarrow>
     pipe_write_resume pi src len (tab s) = (Some r, t) \<Longrightarrow>
     pipe_step pi s (s\<lparr>tab := t, at := (at s)(curproc (tab s) := KUser), sent := sent s @ accepted src r\<rparr>)"
| write_again: "at s (curproc (tab s)) = KWrite src len \<Longrightarrow>
     pipe_write_resume pi src len (tab s) = (None, t) \<Longrightarrow> pipe_step pi s (s\<lparr>tab := schedule t\<rparr>)"
| close_read: "at s (curproc (tab s)) = KUser \<Longrightarrow>
     pipe_step pi s (s\<lparr>tab := pipe_close_read pi (tab s)\<rparr>)"
| close_write: "at s (curproc (tab s)) = KUser \<Longrightarrow>
     pipe_step pi s (s\<lparr>tab := pipe_close_write pi (tab s)\<rparr>)"
| preempt: "at s (curproc (tab s)) = KUser \<Longrightarrow> pipe_step pi s (s\<lparr>tab := schedule (tab s)\<rparr>)"

text \<open>The states reachable from a fresh pipe, whatever the processes are doing.\<close>

definition pipe_start :: "nat \<Rightarrow> pipe_sys \<Rightarrow> bool" where
  "pipe_start pi s \<longleftrightarrow>
     (\<exists>p. pipe_table (tab s) pi = new_pipe p) \<and> sent s = [] \<and> received s = [] \<and>
     at s = (\<lambda>_. KUser)"

inductive pipe_reach :: "nat \<Rightarrow> pipe_sys \<Rightarrow> bool" for pi where
  start: "pipe_start pi s \<Longrightarrow> pipe_reach pi s"
| step: "pipe_reach pi s \<Longrightarrow> pipe_step pi s t \<Longrightarrow> pipe_reach pi t"

section \<open>The stream invariant\<close>

definition stream_inv :: "nat \<Rightarrow> pipe_sys \<Rightarrow> bool" where
  "stream_inv pi s \<longleftrightarrow>
     pipe_wf (pipe_table (tab s) pi) \<and>
     sent s = received s @ pipe_contents (pipe_table (tab s) pi)"

lemma sleep_cur_pipe [simp]: "pipe_table (sleep_cur s) = pipe_table s"
  by (simp add: sleep_cur_def)

lemma raise_sig_pipe [simp]: "pipe_table (raise_sig i sig s) = pipe_table s"
  by (simp add: raise_sig_def)

lemma pipe_contents_waiting [simp]:
  "pipe_contents (p\<lparr>read_waiting := x\<rparr>) = pipe_contents p"
  "pipe_contents (p\<lparr>write_waiting := x\<rparr>) = pipe_contents p"
  "pipe_contents (p\<lparr>readers := x\<rparr>) = pipe_contents p"
  "pipe_contents (p\<lparr>writers := x\<rparr>) = pipe_contents p"
  "pipe_wf (p\<lparr>read_waiting := x\<rparr>) = pipe_wf p"
  "pipe_wf (p\<lparr>write_waiting := x\<rparr>) = pipe_wf p"
  "pipe_wf (p\<lparr>readers := x\<rparr>) = pipe_wf p"
  "pipe_wf (p\<lparr>writers := x\<rparr>) = pipe_wf p"
  by (simp_all add: pipe_contents_def pipe_wf_def)

lemma pipe_read_stream:
  assumes "pipe_wf (pipe_table s pi)" and "pipe_read pi len s = (r, t)"
  shows "pipe_wf (pipe_table t pi) \<and>
    pipe_contents (pipe_table s pi) = (case r of None \<Rightarrow> [] | Some out \<Rightarrow> out) @ pipe_contents (pipe_table t pi)"
proof (cases "pcount (pipe_table s pi) = 0 \<and> writers (pipe_table s pi) > 0")
  case True
  with assms show ?thesis by (auto simp: pipe_read_def Let_def)
next
  case False
  then have "pcount (pipe_table s pi) > 0 \<or> writers (pipe_table s pi) = 0" by auto
  from pipe_read_spec [OF assms(1) this, of len] assms(2) show ?thesis
    by (metis Pair_inject append_take_drop_id option.simps(5))
qed

lemma copy_in_stuck:
  "readers p = 0 \<or> pcount p \<ge> PIPE_SIZE \<Longrightarrow>
     copy_in (Suc fuel) len src p n = (n, n < len \<and> pcount p < PIPE_SIZE, p)"
  by auto

lemma copy_in_accepts:
  assumes "pipe_wf p" and "copy_in (Suc len) len src p 0 = (n, b, q)"
  shows "pipe_contents q = pipe_contents p @ map src [0..<n] \<and> pipe_wf q"
proof (cases "readers p = 0 \<or> pcount p \<ge> PIPE_SIZE")
  case True
  with assms show ?thesis by (simp add: copy_in_stuck del: copy_in.simps)
next
  case False
  with copy_in_contents [OF assms(1) _ _ assms(2)] show ?thesis by simp
qed

lemma pipe_write_wait_stream:
  assumes wf: "pipe_wf (pipe_table s pi)" and r: "pipe_write_wait pi src len s = (r, t)"
  shows "pipe_wf (pipe_table t pi) \<and>
    pipe_contents (pipe_table t pi) =
      pipe_contents (pipe_table s pi) @ (case r of None \<Rightarrow> [] | Some n \<Rightarrow> accepted src n)"
proof -
  obtain n b q where c: "copy_in (Suc (nat len)) (nat len) src (pipe_table s pi) 0 = (n, b, q)"
    by (metis prod_cases3)
  from copy_in_accepts [OF wf c] r c wf show ?thesis
    by (auto simp: pipe_write_wait_def Let_def accepted_def simp del: copy_in.simps split: if_splits)
qed

lemma pipe_write_stream:
  assumes "pipe_wf (pipe_table s pi)" and "pipe_write pi src len s = (r, t)"
  shows "pipe_wf (pipe_table t pi) \<and>
    pipe_contents (pipe_table t pi) =
      pipe_contents (pipe_table s pi) @ (case r of None \<Rightarrow> [] | Some n \<Rightarrow> accepted src n)"
  using assms pipe_write_wait_stream [OF assms(1), of src len r t]
  by (auto simp: pipe_write_def accepted_def split: if_splits)

lemma pipe_close_stream [simp]:
  "pipe_wf (pipe_table (pipe_close_read pi s) pi) = pipe_wf (pipe_table s pi)"
  "pipe_wf (pipe_table (pipe_close_write pi s) pi) = pipe_wf (pipe_table s pi)"
  "pipe_contents (pipe_table (pipe_close_read pi s) pi) = pipe_contents (pipe_table s pi)"
  "pipe_contents (pipe_table (pipe_close_write pi s) pi) = pipe_contents (pipe_table s pi)"
  by (simp_all add: pipe_close_read_def pipe_close_write_def Let_def)

lemma pipe_step_stream: "pipe_step pi s t \<Longrightarrow> stream_inv pi s \<Longrightarrow> stream_inv pi t"
proof (induction rule: pipe_step.induct)
  case (read_done s len out t)
  then show ?case by (auto simp: stream_inv_def dest: pipe_read_stream [rotated])
next
  case (read_sleep s len t)
  then show ?case by (auto simp: stream_inv_def dest: pipe_read_stream [rotated])
next
  case (read_resumed s len out t)
  then show ?case
    by (auto simp: stream_inv_def pipe_read_resume_def dest!: pipe_read_stream [rotated])
next
  case (read_again s len t)
  then show ?case
    by (auto simp: stream_inv_def pipe_read_resume_def dest!: pipe_read_stream [rotated])
next
  case (write_done s src len r t)
  then show ?case by (auto simp: stream_inv_def dest: pipe_write_stream [rotated])
next
  case (write_sleep s src len t)
  then show ?case by (auto simp: stream_inv_def dest: pipe_write_stream [rotated])
next
  case (write_resumed s src len r t)
  then show ?case
    by (auto simp: stream_inv_def pipe_write_resume_def dest!: pipe_write_wait_stream [rotated])
next
  case (write_again s src len t)
  then show ?case
    by (auto simp: stream_inv_def pipe_write_resume_def dest!: pipe_write_wait_stream [rotated])
qed (simp_all add: stream_inv_def)

lemma pipe_reach_stream: "pipe_reach pi s \<Longrightarrow> stream_inv pi s"
proof (induction rule: pipe_reach.induct)
  case (start s)
  then show ?case
    by (auto simp: pipe_start_def stream_inv_def new_pipe_def pipe_wf_def pipe_contents_def)
next
  case (step s t)
  then show ?case by (blast intro: pipe_step_stream)
qed

section \<open>Wake-ups with one blocked reader\<close>

text \<open>
  A process that sleeps in \<open>pipe_read\<close> while another one runs is registered, and the pipe
  gives it nothing to do: it is empty and still has a writer. That is an invariant as long as
  only one process ever blocks in a read, because the pipe has one registration.
\<close>

definition asleep_ok :: "nat \<Rightarrow> nat \<Rightarrow> ptab \<Rightarrow> bool" where
  "asleep_ok pi a s \<longleftrightarrow>
     (pstate (proctab s a) = P_SLEEPING \<longrightarrow>
        read_waiting (pipe_table s pi) = a + 1 \<and> pcount (pipe_table s pi) = 0 \<and>
        writers (pipe_table s pi) > 0)"

text \<open>Runs in which no process but \<open>a\<close> ever blocks in \<open>pipe_read\<close>.\<close>

definition only_reader :: "nat \<Rightarrow> pipe_sys \<Rightarrow> bool" where
  "only_reader a s \<longleftrightarrow> (\<forall>i len. at s i = KRead len \<longrightarrow> i = a)"

lemma wake_reader_state:
  "pstate (proctab (wake_reader pi s) j) =
     (if read_waiting (pipe_table s pi) = j + 1 \<and> j < MAXPROC \<and> pstate (proctab s j) = P_SLEEPING
      then P_READY else pstate (proctab s j))"
  by (cases "read_waiting (pipe_table s pi)") (simp_all add: wake_reader_def Let_def wake_proc_state)

lemma wake_writer_state:
  "pstate (proctab (wake_writer pi s) j) =
     (if write_waiting (pipe_table s pi) = j + 1 \<and> j < MAXPROC \<and> pstate (proctab s j) = P_SLEEPING
      then P_READY else pstate (proctab s j))"
  by (cases "write_waiting (pipe_table s pi)") (simp_all add: wake_writer_def Let_def wake_proc_state)

lemma wake_waiting [simp]:
  "read_waiting (pipe_table (wake_writer pi s) k) = read_waiting (pipe_table s k)"
  "write_waiting (pipe_table (wake_reader pi s) k) = write_waiting (pipe_table s k)"
  by (simp_all add: wake_writer_def wake_reader_def Let_def)

lemma copy_in_frame:
  "copy_in fuel len src p n = (k, b, q) \<Longrightarrow>
     readers q = readers p \<and> writers q = writers p \<and> read_waiting q = read_waiting p \<and>
     write_waiting q = write_waiting p \<and> (readers p = 0 \<longrightarrow> q = p) \<and> (b \<longrightarrow> readers p = 0)"
proof (induction fuel arbitrary: p n)
  case 0
  then show ?case by simp
next
  case (Suc fuel)
  show ?case
  proof (cases "n < len \<and> pcount p < PIPE_SIZE \<and> readers p > 0")
    case False
    with Suc.prems show ?thesis by (auto split: if_splits)
  next
    case True
    from Suc.prems True obtain p' n' where "copy_in fuel len src p' n' = (k, b, q)"
      and "readers p' = readers p" "writers p' = writers p" "read_waiting p' = read_waiting p"
        "write_waiting p' = write_waiting p"
      by (simp add: Let_def)
    with Suc.IH [of p' n'] True show ?thesis by auto
  qed
qed

lemma wake_writer_asleep: "asleep_ok pi a s \<Longrightarrow> asleep_ok pi a (wake_writer pi s)"
  by (simp add: asleep_ok_def wake_writer_state)

lemma wake_reader_wakes:
  assumes "pstate (proctab s a) = P_SLEEPING \<longrightarrow> read_waiting (pipe_table s pi) = a + 1" and "a < MAXPROC"
  shows "pstate (proctab (wake_reader pi s) a) \<noteq> P_SLEEPING"
  using assms by (auto simp: wake_reader_state)

lemma wake_reader_asleep:
  "asleep_ok pi a s \<Longrightarrow> a < MAXPROC \<Longrightarrow> pstate (proctab (wake_reader pi s) a) \<noteq> P_SLEEPING"
  by (rule wake_reader_wakes) (auto simp: asleep_ok_def)

lemma awake_asleep_ok: "pstate (proctab s a) \<noteq> P_SLEEPING \<Longrightarrow> asleep_ok pi a s"
  by (simp add: asleep_ok_def)

lemma schedule_asleep: "asleep_ok pi a s \<Longrightarrow> asleep_ok pi a (schedule s)"
  by (auto simp: asleep_ok_def schedule_state split: option.splits if_splits)

lemma wake_writer_awake:
  "pstate (proctab s a) \<noteq> P_SLEEPING \<Longrightarrow> pstate (proctab (wake_writer pi s) a) \<noteq> P_SLEEPING"
  by (simp add: wake_writer_state)

lemma wake_reader_awake:
  "pstate (proctab s a) \<noteq> P_SLEEPING \<Longrightarrow> pstate (proctab (wake_reader pi s) a) \<noteq> P_SLEEPING"
  by (simp add: wake_reader_state)

lemma pipe_read_asleep:
  assumes "asleep_ok pi a s" and "curproc s \<noteq> a" and "pipe_read pi len s = (Some out, t)"
  shows "asleep_ok pi a t"
proof -
  obtain o2 q where c: "copy_out (Suc (nat len)) (nat len) (pipe_table s pi) [] = (o2, q)"
    by (cases "copy_out (Suc (nat len)) (nat len) (pipe_table s pi) []")
  from assms(3) have "\<not> (pcount (pipe_table s pi) = 0 \<and> writers (pipe_table s pi) > 0)"
    by (auto simp: pipe_read_def Let_def simp del: copy_out.simps split: if_splits)
  with assms(1) have "pstate (proctab s a) \<noteq> P_SLEEPING" by (auto simp: asleep_ok_def)
  with assms(3) c show ?thesis
    by (auto simp: pipe_read_def Let_def intro!: awake_asleep_ok wake_writer_awake simp del: copy_out.simps split: if_splits)
qed

lemma pipe_read_sleeps:
  assumes "pipe_read pi len s = (None, t)" and "pids_ok s"
  shows "asleep_ok pi (curproc s) t"
  using assms by (auto simp: pipe_read_def Let_def asleep_ok_def sleep_cur_def pids_ok_def
     split: if_splits prod.splits)

lemma pipe_write_wait_asleep:
  assumes ok: "asleep_ok pi a s" and "curproc s \<noteq> a" and a: "a < MAXPROC"
    and r: "pipe_write_wait pi src len s = (r, t)"
  shows "asleep_ok pi a t"
proof (cases "pcount (pipe_table s pi) \<ge> PIPE_SIZE \<and> readers (pipe_table s pi) > 0")
  case True
  with r assms(2) wake_reader_asleep [OF ok a] show ?thesis
    by (auto simp: pipe_write_wait_def Let_def sleep_cur_def asleep_ok_def)
next
  case False
  obtain n b q where c: "copy_in (Suc (nat len)) (nat len) src (pipe_table s pi) 0 = (n, b, q)"
    by (metis prod_cases3)
  show ?thesis
  proof (cases b)
    case True
    then have "q = pipe_table s pi" using copy_in_frame [OF c] by simp
    with True r c False ok assms(2) show ?thesis
      by (auto simp: pipe_write_wait_def Let_def asleep_ok_def raise_sig_def simp del: copy_in.simps)
  next
    case nb: False
    have "read_waiting q = read_waiting (pipe_table s pi)" using copy_in_frame [OF c] by simp
    moreover have "t = wake_reader pi (upd_pipe pi (\<lambda>_. q) s)"
      using nb r c False by (auto simp: pipe_write_wait_def Let_def simp del: copy_in.simps)
    moreover have "pstate (proctab (wake_reader pi (upd_pipe pi (\<lambda>_. q) s)) a) \<noteq> P_SLEEPING"
      using ok a calculation by (intro wake_reader_wakes) (auto simp: asleep_ok_def)
    ultimately show ?thesis by (simp add: awake_asleep_ok)
  qed
qed

lemma pipe_write_asleep:
  assumes "asleep_ok pi a s" and "curproc s \<noteq> a" and "a < MAXPROC"
    and "pipe_write pi src len s = (r, t)"
  shows "asleep_ok pi a t"
  using assms pipe_write_wait_asleep [OF assms(1,2,3), of src len r t]
  by (auto simp: pipe_write_def raise_sig_def asleep_ok_def split: if_splits)

lemma upd_waiting_asleep:
  "asleep_ok pi a s \<Longrightarrow> asleep_ok pi a (upd_pipe pi (\<lambda>p. p\<lparr>write_waiting := x\<rparr>) s)"
  by (simp add: asleep_ok_def)

lemma pipe_close_asleep:
  assumes "asleep_ok pi a s" and "a < MAXPROC"
  shows "asleep_ok pi a (pipe_close_read pi s)" and "asleep_ok pi a (pipe_close_write pi s)"
proof -
  show "asleep_ok pi a (pipe_close_read pi s)" using assms(1)
    by (auto simp: pipe_close_read_def Let_def intro!: wake_writer_asleep) (auto simp: asleep_ok_def)
  define s1 where "s1 = (if writers (pipe_table s pi) > 0
     then upd_pipe pi (\<lambda>p. p\<lparr>writers := writers p - 1\<rparr>) s else s)"
  have rw: "pstate (proctab s1 a) = P_SLEEPING \<longrightarrow> read_waiting (pipe_table s1 pi) = a + 1"
    and pc: "pstate (proctab s1 a) = P_SLEEPING \<longrightarrow> pcount (pipe_table s1 pi) = 0"
    using assms(1) by (auto simp: s1_def asleep_ok_def)
  have "pipe_close_write pi s = (if writers (pipe_table s1 pi) = 0 then wake_reader pi s1 else s1)"
    by (simp add: pipe_close_write_def s1_def Let_def)
  then show "asleep_ok pi a (pipe_close_write pi s)"
    using wake_reader_wakes [OF rw assms(2)] rw pc by (auto simp: asleep_ok_def)
qed

lemma sleep_cur_sel [simp]:
  "pid (proctab (sleep_cur s) i) = pid (proctab s i)" "curproc (sleep_cur s) = curproc s"
  by (simp_all add: sleep_cur_def)

lemma raise_sig_sel [simp]:
  "pid (proctab (raise_sig j sig s) i) = pid (proctab s i)" "curproc (raise_sig j sig s) = curproc s"
  "pstate (proctab (raise_sig j sig s) i) = pstate (proctab s i)"
  by (simp_all add: raise_sig_def)

lemma pipe_op_cur:
  "pipe_read pi len s = (r, t) \<Longrightarrow> curproc t = curproc s"
  "pipe_write pi src len s = (w, t) \<Longrightarrow> curproc t = curproc s"
  "pipe_write_wait pi src len s = (w, t) \<Longrightarrow> curproc t = curproc s"
  "curproc (pipe_close_read pi s) = curproc s"
  "curproc (pipe_close_write pi s) = curproc s"
  by (auto simp: pipe_read_def pipe_write_def pipe_write_wait_def pipe_close_read_def pipe_close_write_def
      Let_def simp del: copy_in.simps copy_out.simps split: if_splits prod.splits)

lemma wake_pid [simp]:
  "pid (proctab (wake_reader pi s) i) = pid (proctab s i)"
  "pid (proctab (wake_writer pi s) i) = pid (proctab s i)"
  by (simp_all add: wake_reader_def wake_writer_def Let_def)

lemma pipe_read_pid: "pipe_read pi len s = (r, t) \<Longrightarrow> pid (proctab t i) = pid (proctab s i)"
  by (cases "copy_out (Suc (nat len)) (nat len) (pipe_table s pi) []")
    (auto simp: pipe_read_def Let_def simp del: copy_out.simps split: if_splits)

lemma pipe_write_wait_pid: "pipe_write_wait pi src len s = (w, t) \<Longrightarrow> pid (proctab t i) = pid (proctab s i)"
  by (cases "copy_in (Suc (nat len)) (nat len) src (pipe_table s pi) 0")
    (auto simp: pipe_write_wait_def Let_def simp del: copy_in.simps split: if_splits)

lemma pipe_write_pid: "pipe_write pi src len s = (w, t) \<Longrightarrow> pid (proctab t i) = pid (proctab s i)"
  using pipe_write_wait_pid [of pi src len s w t i] by (auto simp: pipe_write_def split: if_splits)

lemma pipe_close_pid:
  "pid (proctab (pipe_close_read pi s) i) = pid (proctab s i)"
  "pid (proctab (pipe_close_write pi s) i) = pid (proctab s i)"
  by (simp_all add: pipe_close_read_def pipe_close_write_def Let_def)

lemma pids_ok_cong:
  "pids_ok s \<Longrightarrow> (\<And>i. pid (proctab t i) = pid (proctab s i)) \<Longrightarrow> curproc t = curproc s \<Longrightarrow> pids_ok t"
  by (simp add: pids_ok_def)

lemma pipe_op_pids_ok:
  "pids_ok s \<Longrightarrow> pipe_read pi len s = (r, t) \<Longrightarrow> pids_ok t"
  "pids_ok s \<Longrightarrow> pipe_write pi src len s = (w, t) \<Longrightarrow> pids_ok t"
  "pids_ok s \<Longrightarrow> pipe_write_wait pi src len s = (w, t) \<Longrightarrow> pids_ok t"
  "pids_ok s \<Longrightarrow> pids_ok (pipe_close_read pi s)"
  "pids_ok s \<Longrightarrow> pids_ok (pipe_close_write pi s)"
  by (simp_all add: pids_ok_def pipe_op_cur pipe_read_pid pipe_write_pid pipe_write_wait_pid pipe_close_pid)

lemma upd_pipe_pids_ok [simp]: "pids_ok (upd_pipe k f s) = pids_ok s"
  by (simp add: pids_ok_def)

definition reader_inv :: "nat \<Rightarrow> nat \<Rightarrow> pipe_sys \<Rightarrow> bool" where
  "reader_inv pi a s \<longleftrightarrow> a < MAXPROC \<and> pids_ok (tab s) \<and> only_reader a s \<and>
     (\<forall>len. at s a = KRead len \<longrightarrow> curproc (tab s) \<noteq> a \<longrightarrow> asleep_ok pi a (tab s))"

lemma pipe_step_reader:
  assumes "pipe_step pi s t" and "reader_inv pi a s" and "only_reader a t"
  shows "reader_inv pi a t"
  using assms
proof (induction rule: pipe_step.induct)
  case (read_done s len out t)
  then show ?case
    by (auto simp: reader_inv_def pipe_op_cur intro: pipe_op_pids_ok pipe_read_asleep)
next
  case (read_sleep s len t)
  have a: "curproc (tab s) = a" using read_sleep(4) by (auto simp: only_reader_def split: if_splits)
  have p: "pids_ok (tab s)" using read_sleep(3) by (simp add: reader_inv_def)
  have "asleep_ok pi a t" using pipe_read_sleeps [OF read_sleep(2) p] a by simp
  moreover have "pids_ok t" by (rule pipe_op_pids_ok(1) [OF p read_sleep(2)])
  ultimately show ?case using read_sleep(3,4)
    by (simp add: reader_inv_def schedule_asleep schedule_pids_ok)
next
  case (read_resumed s len out t)
  have a: "curproc (tab s) = a" using read_resumed(1,3) by (simp add: reader_inv_def only_reader_def)
  have "pids_ok t" by (rule pipe_op_pids_ok(1) [OF _ read_resumed(2) [unfolded pipe_read_resume_def]])
      (use read_resumed(3) in \<open>simp add: reader_inv_def\<close>)
  with read_resumed(3,4) a show ?case by (simp add: reader_inv_def)
next
  case (read_again s len t)
  then have "a = curproc (tab s)" by (auto simp: reader_inv_def only_reader_def)
  let ?u = "upd_pipe pi (\<lambda>p. p\<lparr>read_waiting := 0\<rparr>) (tab s)"
  have r: "pipe_read pi len ?u = (None, t)" and p: "pids_ok ?u"
    using read_again by (simp_all add: pipe_read_resume_def reader_inv_def)
  have "asleep_ok pi a t" using pipe_read_sleeps [OF r p] \<open>a = curproc (tab s)\<close> by simp
  moreover have "pids_ok t" by (rule pipe_op_pids_ok(1) [OF p r])
  ultimately show ?case using read_again(3,4)
    by (simp add: reader_inv_def schedule_asleep schedule_pids_ok)
next
  case (write_done s src len r t)
  then show ?case
    by (auto simp: reader_inv_def pipe_op_cur intro: pipe_op_pids_ok pipe_write_asleep)
next
  case (write_sleep s src len t)
  then show ?case
    by (auto simp: reader_inv_def intro: pipe_op_pids_ok schedule_asleep pipe_write_asleep split: if_splits)
next
  case (write_resumed s src len r t)
  let ?u = "upd_pipe pi (\<lambda>p. p\<lparr>write_waiting := 0\<rparr>) (tab s)"
  have w: "pipe_write_wait pi src len ?u = (Some r, t)" and p: "pids_ok ?u" and a: "a < MAXPROC"
    using write_resumed by (simp_all add: pipe_write_resume_def reader_inv_def)
  have "asleep_ok pi a t" if "curproc (tab s) \<noteq> a" "at s a = KRead l" for l
    by (rule pipe_write_wait_asleep [OF upd_waiting_asleep _ a w])
      (use write_resumed(3) that in \<open>simp_all add: reader_inv_def\<close>)
  moreover have "pids_ok t" by (rule pipe_op_pids_ok(3) [OF p w])
  ultimately show ?case using write_resumed(3,4) pipe_op_cur(3) [OF w]
    by (auto simp: reader_inv_def)
next
  case (write_again s src len t)
  let ?u = "upd_pipe pi (\<lambda>p. p\<lparr>write_waiting := 0\<rparr>) (tab s)"
  have w: "pipe_write_wait pi src len ?u = (None, t)" and p: "pids_ok ?u" and a: "a < MAXPROC"
    using write_again by (simp_all add: pipe_write_resume_def reader_inv_def)
  have "asleep_ok pi a t" if "at s a = KRead l" for l
    by (rule pipe_write_wait_asleep [OF upd_waiting_asleep _ a w])
      (use write_again(1,3) that in \<open>auto simp: reader_inv_def\<close>)
  moreover have "pids_ok t" by (rule pipe_op_pids_ok(3) [OF p w])
  ultimately show ?case using write_again(3,4)
    by (simp add: reader_inv_def schedule_asleep schedule_pids_ok)
qed (auto simp: reader_inv_def pipe_op_cur intro: pipe_op_pids_ok pipe_close_asleep schedule_asleep)

inductive reader_reach :: "nat \<Rightarrow> nat \<Rightarrow> pipe_sys \<Rightarrow> bool" for pi a where
  start: "pipe_start pi s \<Longrightarrow> pids_ok (tab s) \<Longrightarrow> reader_reach pi a s"
| step: "reader_reach pi a s \<Longrightarrow> pipe_step pi s t \<Longrightarrow> only_reader a t \<Longrightarrow> reader_reach pi a t"


lemma reader_reach_inv: "reader_reach pi a s \<Longrightarrow> a < MAXPROC \<Longrightarrow> reader_inv pi a s"
proof (induction rule: reader_reach.induct)
  case (start s)
  then show ?case by (simp add: reader_inv_def only_reader_def pipe_start_def)
next
  case (step s t)
  then show ?case by (blast intro: pipe_step_reader)
qed

section \<open>Properties\<close>

text \<open>A concrete system for the witnesses: processes 0 and 1, the second one running.\<close>

definition demo_tab :: ptab where
  "demo_tab = boot_ptab\<lparr>
     proctab := (\<lambda>i. zero_proc\<lparr>pid := i,
        pstate := (if i = 0 then P_READY else if i = 1 then P_RUNNING else P_FREE)\<rparr>),
     curproc := 1, pipe_table := (\<lambda>_. new_pipe zero_pipe)\<rparr>"

definition demo_sys :: pipe_sys where
  "demo_sys = \<lparr>tab = demo_tab, at = (\<lambda>_. KUser), sent = [], received = []\<rparr>"

lemma demo_start: "pipe_start k demo_sys" "pids_ok (tab demo_sys)"
  by (auto simp: pipe_start_def demo_sys_def demo_tab_def pids_ok_def)

lemmas demo_eval = demo_sys_def demo_tab_def boot_ptab_def zero_proc_def new_pipe_def zero_pipe_def
  pipe_read_def sleep_cur_def wake_writer_def Let_def

text \<open>
  C1. First in, first out, without loss or duplication: in every state that processes can
  reach from a fresh pipe by any interleaving of reads, writes, sleeps, wake-ups, closes and
  preemptions, the bytes accepted from writers are the bytes delivered to readers followed by
  the bytes in the buffer, and the buffer never holds more than 512.
\<close>

theorem pipe_fifo:
  assumes "pipe_reach pi s"
  shows "sent s = received s @ pipe_contents (pipe_table (tab s) pi) \<and>
     pcount (pipe_table (tab s) pi) \<le> PIPE_SIZE"
  using pipe_reach_stream [OF assms] by (simp add: stream_inv_def pipe_wf_def)

theorem pipe_fifo_witness:
  "\<exists>s :: pipe_sys. sent s = [7, 8] \<and> sent s = received s @ pipe_contents (pipe_table (tab s) 0)"
proof -
  let ?src = "\<lambda>i. of_nat (i + 7)"
  obtain t where w: "pipe_write 0 ?src 2 (tab demo_sys) = (Some 2, t)"
    by (rule pipe_write_spec [of "tab demo_sys" 0 2 2 ?src])
      (simp_all add: demo_sys_def demo_tab_def new_pipe_def zero_pipe_def pipe_wf_def)
  let ?s = "demo_sys\<lparr>tab := t, sent := sent demo_sys @ accepted ?src 2\<rparr>"
  have "pipe_step 0 demo_sys ?s" by (rule write_done [OF _ w]) (simp add: demo_sys_def)
  then have "pipe_reach 0 ?s" by (blast intro: pipe_reach.intros demo_start)
  note f = conjunct1 [OF pipe_fifo [OF this]]
  have "sent ?s = [7, 8]" by (simp add: accepted_def demo_sys_def upt_rec)
  with f show ?thesis by (intro exI [where x = ?s]) (rule conjI)
qed

text \<open>
  C2. No lost wake-up: when only one process ever blocks in \<open>pipe_read\<close>, it is never left
  asleep while the pipe has something for it: whenever it sleeps in the call and another
  process runs, the pipe is empty, a writer is still open, and the pipe's registration names
  the sleeper, so the next write or the last close wakes it.
\<close>

theorem blocked_reader_registered:
  assumes "reader_reach pi a s" and "a < MAXPROC" and "at s a = KRead len"
    and "pstate (proctab (tab s) a) = P_SLEEPING" and "curproc (tab s) \<noteq> a"
  shows "read_waiting (pipe_table (tab s) pi) = a + 1 \<and> pcount (pipe_table (tab s) pi) = 0 \<and>
     writers (pipe_table (tab s) pi) > 0"
  using reader_reach_inv [OF assms(1,2)] assms(3-5) by (auto simp: reader_inv_def asleep_ok_def)

theorem blocked_reader_registered_witness:
  "\<exists>s. reader_reach 0 1 s \<and> pstate (proctab (tab s) 1) = P_SLEEPING \<and>
     read_waiting (pipe_table (tab s) 0) = 2"
proof -
  define t where "t = snd (pipe_read 0 4 (tab demo_sys))"
  let ?s = "demo_sys\<lparr>tab := schedule t, at := (at demo_sys)(curproc (tab demo_sys) := KRead 4)\<rparr>"
  have r: "pipe_read 0 4 (tab demo_sys) = (None, t)" by (simp add: t_def demo_eval)
  have "pipe_step 0 demo_sys ?s" by (rule read_sleep [OF _ r]) (simp add: demo_sys_def)
  moreover have o: "only_reader 1 ?s" by (simp add: only_reader_def demo_sys_def demo_tab_def)
  ultimately have reach: "reader_reach 0 1 ?s" using demo_start by (blast intro: reader_reach.intros)
  have st: "at ?s 1 = KRead 4" "pstate (proctab (tab ?s) 1) = P_SLEEPING" "curproc (tab ?s) \<noteq> 1"
    by (simp_all add: t_def demo_eval schedule_def pick_next_def upt_rec)
  from blocked_reader_registered [OF reach _ st] reach st(2) show ?thesis by auto
qed

text \<open>
  End of file wakes one process only: with two processes asleep in \<open>pipe_read\<close>, the close
  of the last write end wakes the one that registered last; the other one stays asleep on a
  pipe with no writer and no registration left that names it.
\<close>

theorem eof_strands_second_reader:
  assumes "writers (pipe_table s pi) = 1" and "read_waiting (pipe_table s pi) = b + 1"
    and "b < MAXPROC" and "a \<noteq> b"
    and "pstate (proctab s a) = P_SLEEPING" and "pstate (proctab s b) = P_SLEEPING"
  shows "pstate (proctab (pipe_close_write pi s) b) = P_READY \<and>
     pstate (proctab (pipe_close_write pi s) a) = P_SLEEPING \<and>
     writers (pipe_table (pipe_close_write pi s) pi) = 0 \<and>
     read_waiting (pipe_table (pipe_close_write pi s) pi) = 0"
  using assms by (simp add: pipe_close_write_def Let_def wake_reader_def wake_proc_def)

definition two_readers :: ptab where
  "two_readers = demo_tab\<lparr>proctab := (\<lambda>i. zero_proc\<lparr>pid := i, pstate := P_SLEEPING\<rparr>),
     pipe_table := (\<lambda>_. (new_pipe zero_pipe)\<lparr>read_waiting := 3\<rparr>)\<rparr>"

theorem eof_strands_second_reader_witness:
  "pstate (proctab (pipe_close_write 0 two_readers) 1) = P_SLEEPING \<and>
   writers (pipe_table (pipe_close_write 0 two_readers) 0) = 0"
  using eof_strands_second_reader [of two_readers 0 2 1]
  by (simp add: two_readers_def demo_tab_def new_pipe_def zero_pipe_def)

text \<open>
  A write of no bytes to an open pipe reports a broken pipe, for every reader count and
  buffer state that does not make it wait.
\<close>

theorem pipe_write_zero_epipe:
  assumes "pcount (pipe_table s pi) < PIPE_SIZE \<or> readers (pipe_table s pi) = 0"
  shows "fst (pipe_write pi src 0 s) = Some (- EPIPE)"
  using assms by (auto simp: pipe_write_def pipe_write_wait_def Let_def)

theorem pipe_write_zero_epipe_witness:
  "readers (pipe_table demo_tab 0) = 1 \<and> fst (pipe_write 0 (\<lambda>_. 0) 0 demo_tab) = Some (- EPIPE)"
  using pipe_write_zero_epipe [of demo_tab 0 "\<lambda>_. 0"]
  by (simp add: demo_tab_def new_pipe_def zero_pipe_def)

end
