(* ===== verification/Disk.thy ===== *)
theory Disk
  imports Prelude
begin

text \<open>
  The disks behind the buffer cache: \<open>pal_disk_read\<close> and \<open>pal_disk_write\<close> of the two
  platforms (pal/workbench/platform.c, pal/megadrive/platform.c) and the address test for
  execute-in-place files. A block is a function from offsets, of which 0 to 1023 are stored.
  The emulator's disk device is an array of blocks; on the Mega Drive device 0 is the
  cartridge ROM and every other device the battery-backed SRAM, one byte per odd address.
\<close>

type_synonym block = "nat \<Rightarrow> u8"

datatype disk =
  Workbench "u32 \<Rightarrow> block"
| MegaDrive "u32 \<Rightarrow> u8" "u32 \<Rightarrow> u8"

abbreviation (input) SRAM_SIZE :: u32 where "SRAM_SIZE \<equiv> 0x10000"

text \<open>The Mega Drive SRAM accesses: \<open>sram[offset + i * 2 + 1]\<close> for byte \<open>i\<close> of the block.\<close>

definition sram_read :: "(u32 \<Rightarrow> u8) \<Rightarrow> u32 \<Rightarrow> block" where
  "sram_read sram blk =
     (let offset = blk * 1024
      in if offset + 1024 > SRAM_SIZE then (\<lambda>_. 0)
         else (\<lambda>i. sram (offset + of_nat i * 2 + 1)))"

definition sram_write :: "(u32 \<Rightarrow> u8) \<Rightarrow> u32 \<Rightarrow> block \<Rightarrow> (u32 \<Rightarrow> u8)" where
  "sram_write sram blk v =
     (let offset = blk * 1024
      in if offset + 1024 > SRAM_SIZE then sram
         else (\<lambda>a. let k = unat (a - offset - 1)
                   in if k < 2 * BLOCK_SIZE \<and> even k then v (k div 2) else sram a))"

definition pal_disk_read :: "disk \<Rightarrow> u8 \<Rightarrow> u32 \<Rightarrow> block" where
  "pal_disk_read d dev blk =
     (case d of
        Workbench img \<Rightarrow> img blk
      | MegaDrive rom sram \<Rightarrow>
          if dev = 0 then (\<lambda>i. rom (blk * 1024 + of_nat i)) else sram_read sram blk)"

definition pal_disk_write :: "disk \<Rightarrow> u8 \<Rightarrow> u32 \<Rightarrow> block \<Rightarrow> disk" where
  "pal_disk_write d dev blk v =
     (case d of
        Workbench img \<Rightarrow> Workbench (img(blk := v))
      | MegaDrive rom sram \<Rightarrow>
          if dev = 0 then d else MegaDrive rom (sram_write sram blk v))"

section \<open>What a file system needs of its disk\<close>

text \<open>A write is read back from its block and leaves every other block alone.\<close>

locale block_device =
  fixes rd :: "'d \<Rightarrow> u32 \<Rightarrow> block"
    and wr :: "'d \<Rightarrow> u32 \<Rightarrow> block \<Rightarrow> 'd"
    and ok :: "'d \<Rightarrow> bool"
  assumes rd_wr: "ok d \<Longrightarrow> rd (wr d b v) = (rd d)(b := v)"
    and ok_wr: "ok d \<Longrightarrow> ok (wr d b v)"
begin

lemma rd_wr_same: "ok d \<Longrightarrow> rd (wr d b v) b = v"
  by (simp add: rd_wr)

lemma rd_wr_other: "ok d \<Longrightarrow> c \<noteq> b \<Longrightarrow> rd (wr d b v) c = rd d c"
  by (simp add: rd_wr)

lemma rd_writes:
  "ok d \<Longrightarrow> rd (fold (\<lambda>(b, v) d. wr d b v) bs d) = fold (\<lambda>(b, v) f. f(b := v)) bs (rd d)"
  by (induction bs arbitrary: d) (auto simp: rd_wr ok_wr)

end

definition on_workbench :: "disk \<Rightarrow> bool" where
  "on_workbench d \<longleftrightarrow> (case d of Workbench _ \<Rightarrow> True | MegaDrive _ _ \<Rightarrow> False)"

interpretation wb: block_device "\<lambda>d. pal_disk_read d dev" "\<lambda>d. pal_disk_write d dev" on_workbench
  by unfold_locales
    (auto simp: on_workbench_def pal_disk_read_def pal_disk_write_def split: disk.splits)

text \<open>
  The Mega Drive meets the contract on neither device: writes to the ROM disk are dropped,
  and neighbouring SRAM blocks share bytes, because a block of 1024 bytes takes 2048 addresses
  and the blocks are only 1024 addresses apart.
\<close>

lemma sram_write_at:
  assumes "blk * 1024 + 1024 \<le> SRAM_SIZE" and "i < BLOCK_SIZE"
  shows "sram_write sram blk v (blk * 1024 + of_nat i * 2 + 1) = v i"
proof -
  have "unat (of_nat i * 2 :: u32) = i * 2"
    using assms(2) by (simp add: unat_word_ariths unat_of_nat)
  moreover have "\<not> blk * 1024 + 1024 > SRAM_SIZE" using assms(1) by (simp add: linorder_not_less)
  ultimately show ?thesis using assms(2) by (simp add: sram_write_def Let_def)
qed

text \<open>So the second half of a block is what the first half of the next block was written to be.\<close>

lemma sram_blocks_share:
  assumes "n < 63" and "i < 512"
  shows "sram_read (sram_write sram (of_nat n + 1) v) (of_nat n) (512 + i) = v i"
proof -
  have u: "unat (of_nat n * 1024 + 1024 :: u32) = n * 1024 + 1024" "unat ((of_nat n + 1) * 1024 + 1024 :: u32) = n * 1024 + 2048"
    using assms(1) by (simp_all add: unat_word_ariths unat_of_nat)
  then have b: "\<not> of_nat n * 1024 + 1024 > SRAM_SIZE" "(of_nat n + 1) * 1024 + 1024 \<le> SRAM_SIZE"
    using assms(1) by (simp_all add: word_less_nat_alt word_le_nat_alt)
  have "sram_read (sram_write sram (of_nat n + 1) v) (of_nat n) (512 + i) =
      sram_write sram (of_nat n + 1) v ((of_nat n + 1) * 1024 + of_nat i * 2 + 1)"
    using b(1) by (simp add: sram_read_def Let_def algebra_simps)
  then show ?thesis using sram_write_at [OF b(2), of i sram v] assms(2) by simp
qed

end
