(* ===== verification/Buf_Cache.thy ===== *)
theory Buf_Cache
  imports Disk
begin

text \<open>
  The block buffer cache of kernel/buf.c: sixteen slots over a disk. \<open>bread\<close> returns a slot
  index, as the C function returns a pointer into \<open>bufs\<close>: the slot is not locked, so what it
  holds can change under its user when another block is read. That is modelled as it is.
\<close>

record buf =
  blockno :: u16
  bdev :: u8
  bdirty :: bool
  bvalid :: bool
  bdata :: block

record cache =
  bufs :: "nat \<Rightarrow> buf"
  disk :: disk

definition upd_buf :: "nat \<Rightarrow> (buf \<Rightarrow> buf) \<Rightarrow> cache \<Rightarrow> cache" where
  "upd_buf i f c = c\<lparr>bufs := (bufs c)(i := f (bufs c i))\<rparr>"

lemma upd_buf_sel [simp]:
  "bufs (upd_buf i f c) j = (if j = i then f (bufs c i) else bufs c j)"
  "disk (upd_buf i f c) = disk c"
  by (simp_all add: upd_buf_def)

definition buf_init :: "cache \<Rightarrow> cache" where
  "buf_init c = c\<lparr>bufs := (\<lambda>i. if i < NBUFS
     then (bufs c i)\<lparr>blockno := 0xFFFF, bdev := 0xFF, bdirty := False, bvalid := False\<rparr>
     else bufs c i)\<rparr>"

definition bwrite :: "nat \<Rightarrow> cache \<Rightarrow> cache" where
  "bwrite i c =
     (if bdirty (bufs c i)
      then upd_buf i (\<lambda>b. b\<lparr>bdirty := False\<rparr>)
             (c\<lparr>disk := pal_disk_write (disk c) (bdev (bufs c i)) (ucast (blockno (bufs c i)))
                         (bdata (bufs c i))\<rparr>)
      else c)"

text \<open>The slot a miss takes: the first invalid one, the first clean one, or slot 0 flushed.\<close>

definition victim :: "cache \<Rightarrow> nat \<times> cache" where
  "victim c =
     (case first_idx (\<lambda>i. \<not> bvalid (bufs c i)) NBUFS of
        Some i \<Rightarrow> (i, c)
      | None \<Rightarrow> (case first_idx (\<lambda>i. \<not> bdirty (bufs c i)) NBUFS of
          Some i \<Rightarrow> (i, c)
        | None \<Rightarrow> (0, bwrite 0 c)))"

definition bread :: "u8 \<Rightarrow> u16 \<Rightarrow> cache \<Rightarrow> nat \<times> cache" where
  "bread dev blk c =
     (case first_idx (\<lambda>i. bvalid (bufs c i) \<and> bdev (bufs c i) = dev \<and> blockno (bufs c i) = blk) NBUFS of
        Some i \<Rightarrow> (i, c)
      | None \<Rightarrow> (case victim c of (i, c1) \<Rightarrow>
          (i, upd_buf i (\<lambda>_. \<lparr>blockno = blk, bdev = dev, bdirty = False, bvalid = True,
                              bdata = pal_disk_read (disk c1) dev (ucast blk)\<rparr>) c1)))"

definition brelse :: "nat \<Rightarrow> cache \<Rightarrow> cache" where
  "brelse i c = (if bdirty (bufs c i) then bwrite i c else c)"

text \<open>
  The two uses the file system makes of a block without holding on to it: read the slot and
  release it, or change its data, mark it dirty, write it and release it.
\<close>

definition bget :: "u16 \<Rightarrow> cache \<Rightarrow> block \<times> cache" where
  "bget blk c = (case bread 0 blk c of (i, c1) \<Rightarrow> (bdata (bufs c1 i), brelse i c1))"

definition poke :: "nat \<Rightarrow> (block \<Rightarrow> block) \<Rightarrow> cache \<Rightarrow> cache" where
  "poke i f c = bwrite i (upd_buf i (\<lambda>b. b\<lparr>bdata := f (bdata b), bdirty := True\<rparr>) c)"

definition bput :: "u16 \<Rightarrow> (block \<Rightarrow> block) \<Rightarrow> cache \<Rightarrow> cache" where
  "bput blk f c = (case bread 0 blk c of (i, c1) \<Rightarrow> brelse i (poke i f c1))"

section \<open>Coherence\<close>

text \<open>
  Between operations the cache is clean and agrees with the disk, and no block is held twice.
  The file system uses device 0 only, and the emulator's disk ignores the device number. The
  disk is the one of the workbench: on the Mega Drive device 0 is the ROM, whose writes are
  dropped, so after a write the cache no longer agrees with it (\<open>rom_write_lost\<close>).
\<close>

definition cache_ok :: "cache \<Rightarrow> bool" where
  "cache_ok c \<longleftrightarrow> on_workbench (disk c) \<and>
     (\<forall>i < NBUFS. bvalid (bufs c i) \<longrightarrow> bdev (bufs c i) = 0 \<and> \<not> bdirty (bufs c i) \<and>
        bdata (bufs c i) = pal_disk_read (disk c) 0 (ucast (blockno (bufs c i)))) \<and>
     (\<forall>i < NBUFS. \<forall>j < NBUFS. bvalid (bufs c i) \<longrightarrow> bvalid (bufs c j) \<longrightarrow>
        blockno (bufs c i) = blockno (bufs c j) \<longrightarrow> i = j) \<and>
     (\<forall>i < NBUFS. \<not> bvalid (bufs c i) \<longrightarrow> \<not> bdirty (bufs c i))"

definition view :: "cache \<Rightarrow> u16 \<Rightarrow> block" where
  "view c blk = pal_disk_read (disk c) 0 (ucast blk)"

lemma rom_write_lost:
  "disk c = MegaDrive rom sram \<Longrightarrow> bdev (bufs c i) = 0 \<Longrightarrow> disk (bwrite i c) = disk c"
  by (simp add: bwrite_def upd_buf_def pal_disk_write_def)

lemma cache_okD:
  assumes "cache_ok c" and "i < NBUFS"
  shows "\<not> bdirty (bufs c i)" and "bvalid (bufs c i) \<Longrightarrow> bdev (bufs c i) = 0"
    and "bvalid (bufs c i) \<Longrightarrow> bdata (bufs c i) = view c (blockno (bufs c i))"
    and "bvalid (bufs c i) \<Longrightarrow> j < NBUFS \<Longrightarrow> bvalid (bufs c j) \<Longrightarrow>
           blockno (bufs c i) = blockno (bufs c j) \<Longrightarrow> i = j"
  using assms by (auto simp: cache_ok_def view_def)

lemma victim_ok:
  assumes "cache_ok c"
  obtains i where "victim c = (i, c)" and "i < NBUFS"
proof (cases "first_idx (\<lambda>i. \<not> bvalid (bufs c i)) NBUFS")
  case (Some i)
  with that show thesis by (simp add: victim_def first_idx_Some_iff)
next
  case None
  have "\<not> bdirty (bufs c 0)" using assms by (simp add: cache_okD)
  then obtain i where "first_idx (\<lambda>i. \<not> bdirty (bufs c i)) NBUFS = Some i"
    using first_idx_exists [of 0 NBUFS "\<lambda>i. \<not> bdirty (bufs c i)"] by auto
  with None that show thesis by (simp add: victim_def first_idx_Some_iff)
qed

lemma bread_ok:
  assumes ok: "cache_ok c" and r: "bread 0 blk c = (i, c')"
  shows "i < NBUFS" and "cache_ok c'" and "disk c' = disk c" and "bvalid (bufs c' i)"
    and "blockno (bufs c' i) = blk" and "bdev (bufs c' i) = 0" and "\<not> bdirty (bufs c' i)"
    and "bdata (bufs c' i) = view c blk"
proof -
  let ?P = "\<lambda>i. bvalid (bufs c i) \<and> bdev (bufs c i) = 0 \<and> blockno (bufs c i) = blk"
  have "i < NBUFS \<and> cache_ok c' \<and> disk c' = disk c \<and> bvalid (bufs c' i) \<and> blockno (bufs c' i) = blk \<and>
    bdev (bufs c' i) = 0 \<and> \<not> bdirty (bufs c' i) \<and> bdata (bufs c' i) = view c blk"
  proof (cases "first_idx ?P NBUFS")
    case (Some k)
    with r have [simp]: "i = k" "c' = c" by (simp_all add: bread_def)
    from first_idx_SomeD [OF Some] ok show ?thesis by (auto dest: cache_okD)
  next
    case None
    obtain k where k: "victim c = (k, c)" "k < NBUFS" using victim_ok [OF ok] .
    let ?b = "\<lparr>blockno = blk, bdev = 0, bdirty = False, bvalid = True,
              bdata = pal_disk_read (disk c) 0 (ucast blk)\<rparr>"
    from r None k have c': "i = k" "c' = upd_buf k (\<lambda>_. ?b) c" by (auto simp: bread_def)
    have miss: "\<not> (bvalid (bufs c j) \<and> blockno (bufs c j) = blk)" if "j < NBUFS" for j
      using first_idx_NoneD [OF None that] ok that by (auto dest: cache_okD)
    have "cache_ok c'" using ok miss unfolding c' cache_ok_def by auto
    with k c' show ?thesis by (simp add: view_def)
  qed
  then show "i < NBUFS" and "cache_ok c'" and "disk c' = disk c" and "bvalid (bufs c' i)"
    and "blockno (bufs c' i) = blk" and "bdev (bufs c' i) = 0" and "\<not> bdirty (bufs c' i)"
    and "bdata (bufs c' i) = view c blk" by simp_all
qed

lemma brelse_clean: "\<not> bdirty (bufs c i) \<Longrightarrow> brelse i c = c"
  by (simp add: brelse_def)

text \<open>Changing a valid slot and writing it back changes the block the slot holds now.\<close>

lemma poke_ok:
  assumes ok: "cache_ok c" and i: "i < NBUFS" "bvalid (bufs c i)"
  shows "cache_ok (poke i f c)"
    and "view (poke i f c) = (view c)(blockno (bufs c i) := f (bdata (bufs c i)))"
    and "\<not> bdirty (bufs (poke i f c) i)"
proof -
  let ?b = "blockno (bufs c i)" and ?v = "f (bdata (bufs c i))"
  have wb: "on_workbench (disk c)" using ok by (simp add: cache_ok_def)
  have d0: "bdev (bufs c i) = 0" using cache_okD(2) [OF ok i] .
  have d: "disk (poke i f c) = pal_disk_write (disk c) 0 (ucast ?b) ?v"
    by (simp add: poke_def bwrite_def d0)
  have b: "bufs (poke i f c) = (bufs c)(i := (bufs c i)\<lparr>bdata := ?v, bdirty := False\<rparr>)"
    by (auto simp: poke_def bwrite_def upd_buf_def fun_eq_iff)
  have rd: "pal_disk_read (disk (poke i f c)) 0 = (pal_disk_read (disk c) 0)(ucast ?b := ?v)"
    by (simp add: d wb.rd_wr [OF wb])
  show "view (poke i f c) = (view c)(?b := ?v)"
    by (auto simp: fun_eq_iff view_def rd ucast16_eq)
  have "on_workbench (disk (poke i f c))" by (simp add: d wb.ok_wr [OF wb])
  then show "cache_ok (poke i f c)"
    using ok i unfolding cache_ok_def rd b by (auto simp: ucast16_eq)
  show "\<not> bdirty (bufs (poke i f c) i)" by (simp add: b)
qed

lemma bget_ok:
  assumes "cache_ok c"
  shows "fst (bget blk c) = view c blk" and "cache_ok (snd (bget blk c))"
    and "view (snd (bget blk c)) = view c" and "disk (snd (bget blk c)) = disk c"
proof -
  obtain i c1 where b: "bread 0 blk c = (i, c1)" by (cases "bread 0 blk c")
  note f = bread_ok [OF assms b]
  from f b show "fst (bget blk c) = view c blk" "cache_ok (snd (bget blk c))"
    "view (snd (bget blk c)) = view c" "disk (snd (bget blk c)) = disk c"
    by (simp_all add: bget_def brelse_clean view_def fun_eq_iff)
qed

lemma bput_ok:
  assumes "cache_ok c"
  shows "cache_ok (bput blk f c)" and "view (bput blk f c) = (view c)(blk := f (view c blk))"
proof -
  obtain i c1 where b: "bread 0 blk c = (i, c1)" by (cases "bread 0 blk c")
  note r = bread_ok [OF assms b]
  note p = poke_ok [OF r(2,1,4), of f]
  have v: "view c1 = view c" by (simp add: view_def fun_eq_iff r(3))
  have e: "bput blk f c = poke i f c1" by (simp add: bput_def b brelse_clean p(3))
  show "cache_ok (bput blk f c)" by (simp add: e p(1))
  show "view (bput blk f c) = (view c)(blk := f (view c blk))" by (simp add: e p(2) r(5,8) v)
qed

section \<open>The interface the file system relies on\<close>

locale block_store =
  fixes contents :: "'s \<Rightarrow> u16 \<Rightarrow> block"
    and inv :: "'s \<Rightarrow> bool"
    and fetch :: "u16 \<Rightarrow> 's \<Rightarrow> block \<times> 's"
    and store :: "u16 \<Rightarrow> (block \<Rightarrow> block) \<Rightarrow> 's \<Rightarrow> 's"
  assumes fetch_data: "inv s \<Longrightarrow> fst (fetch b s) = contents s b"
    and fetch_contents: "inv s \<Longrightarrow> contents (snd (fetch b s)) = contents s"
    and fetch_inv: "inv s \<Longrightarrow> inv (snd (fetch b s))"
    and store_contents: "inv s \<Longrightarrow> contents (store b f s) = (contents s)(b := f (contents s b))"
    and store_inv: "inv s \<Longrightarrow> inv (store b f s)"
begin

lemma store_fetch: "inv s \<Longrightarrow> fst (fetch b (store b f s)) = f (contents s b)"
  by (simp add: fetch_data store_inv store_contents)

lemma store_fetch_other: "inv s \<Longrightarrow> c \<noteq> b \<Longrightarrow> fst (fetch c (store b f s)) = contents s c"
  by (simp add: fetch_data store_inv store_contents)

lemma store_store: "inv s \<Longrightarrow> contents (store b g (store b f s)) = contents (store b (g \<circ> f) s)"
  by (simp add: store_contents store_inv fun_eq_iff)

text \<open>A sequence of stores followed by any number of fetches reads what was stored last.\<close>

lemma fold_fetch:
  "inv s \<Longrightarrow> inv (fold (\<lambda>b s. snd (fetch b s)) bs s) \<and>
     contents (fold (\<lambda>b s. snd (fetch b s)) bs s) = contents s"
  by (induction bs arbitrary: s) (simp_all add: fetch_inv fetch_contents)

lemma store_survives_fetches:
  "inv s \<Longrightarrow> fst (fetch b (fold (\<lambda>b s. snd (fetch b s)) bs (store b f s))) = f (contents s b)"
  using fold_fetch [of "store b f s" bs] by (simp add: fetch_data store_contents store_inv)

end

interpretation bc: block_store view cache_ok bget bput
  by unfold_locales (simp_all add: bget_ok bput_ok)

end
