(* ===== verification/KString.thy ===== *)
theory KString
  imports Prelude
begin

text \<open>
  The string and memory routines of kernel/string.c over physical memory. \<open>memset\<close>,
  \<open>memcpy\<close>, \<open>memcmp\<close> and the counted string routines stop by their count; the others
  scan for a terminating NUL and return only if there is one, which their option result
  says. The last sections give the comparisons on byte lists (the strings the file system
  handles), and show that the routines compute them on memory that holds those strings.
\<close>

section \<open>Counted routines\<close>

primrec memset :: "nat \<Rightarrow> memory \<Rightarrow> u32 \<Rightarrow> u8 \<Rightarrow> memory" where
  "memset 0 m p c = m"
| "memset (Suc n) m p c = memset n (m(p := c)) (p + 1) c"

primrec memcpy :: "nat \<Rightarrow> memory \<Rightarrow> u32 \<Rightarrow> u32 \<Rightarrow> memory" where
  "memcpy 0 m d s = m"
| "memcpy (Suc n) m d s = memcpy n (m(d := m s)) (d + 1) (s + 1)"

primrec memcmp :: "nat \<Rightarrow> memory \<Rightarrow> u32 \<Rightarrow> u32 \<Rightarrow> int" where
  "memcmp 0 m a b = 0"
| "memcmp (Suc n) m a b =
     (if m a \<noteq> m b then uint (m a) - uint (m b) else memcmp n m (a + 1) (b + 1))"

primrec strncmp :: "nat \<Rightarrow> memory \<Rightarrow> u32 \<Rightarrow> u32 \<Rightarrow> int" where
  "strncmp 0 m a b = 0"
| "strncmp (Suc n) m a b =
     (if m a \<noteq> 0 \<and> m a = m b then strncmp n m (a + 1) (b + 1) else uint (m a) - uint (m b))"

text \<open>
  \<open>strncpy\<close>: the copying loop stops after it has stored a NUL without counting it, and the
  padding loop then stores one NUL for every unit of the count that is left.
\<close>

primrec strncpy :: "nat \<Rightarrow> memory \<Rightarrow> u32 \<Rightarrow> u32 \<Rightarrow> memory" where
  "strncpy 0 m d s = m"
| "strncpy (Suc n) m d s =
     (if m s \<noteq> 0 then strncpy n (m(d := m s)) (d + 1) (s + 1)
      else memset (Suc n) (m(d := 0)) (d + 1) 0)"

section \<open>Routines that scan for a NUL\<close>

partial_function (option) strlen_from :: "memory \<Rightarrow> u32 \<Rightarrow> u32 \<Rightarrow> u32 option" where
  "strlen_from m s p = (if m p = 0 then Some (p - s) else strlen_from m s (p + 1))"

definition strlen :: "memory \<Rightarrow> u32 \<Rightarrow> u32 option" where
  "strlen m s = strlen_from m s s"

partial_function (option) strcmp :: "memory \<Rightarrow> u32 \<Rightarrow> u32 \<Rightarrow> int option" where
  "strcmp m a b =
     (if m a \<noteq> 0 \<and> m a = m b then strcmp m (a + 1) (b + 1)
      else Some (uint (m a) - uint (m b)))"

partial_function (option) strcpy :: "memory \<Rightarrow> u32 \<Rightarrow> u32 \<Rightarrow> memory option" where
  "strcpy m d s =
     (let m' = m(d := m s) in if m s = 0 then Some m' else strcpy m' (d + 1) (s + 1))"

text \<open>\<open>strchr\<close> and \<open>strrchr\<close> return the address found, or NULL as \<open>Some None\<close>.\<close>

partial_function (option) strchr :: "memory \<Rightarrow> u32 \<Rightarrow> u8 \<Rightarrow> u32 option option" where
  "strchr m s c =
     (if m s \<noteq> 0 then (if m s = c then Some (Some s) else strchr m (s + 1) c)
      else Some (if c = 0 then Some s else None))"

partial_function (option) strrchr_from :: "memory \<Rightarrow> u32 \<Rightarrow> u8 \<Rightarrow> u32 option \<Rightarrow> u32 option option" where
  "strrchr_from m s c found =
     (if m s \<noteq> 0 then strrchr_from m (s + 1) c (if m s = c then Some s else found)
      else Some (if c = 0 then Some s else found))"

definition strrchr :: "memory \<Rightarrow> u32 \<Rightarrow> u8 \<Rightarrow> u32 option option" where
  "strrchr m s c = strrchr_from m s c None"

section \<open>Strings in memory\<close>

text \<open>\<open>holds m p bs\<close>: the bytes \<open>bs\<close> stand at \<open>p\<close>; \<open>cstr\<close> adds the terminator.\<close>

primrec holds :: "memory \<Rightarrow> u32 \<Rightarrow> bytes \<Rightarrow> bool" where
  "holds m p [] = True"
| "holds m p (b # bs) = (m p = b \<and> holds m (p + 1) bs)"

definition cstr :: "memory \<Rightarrow> u32 \<Rightarrow> bytes \<Rightarrow> bool" where
  "cstr m p s \<longleftrightarrow> holds m p (s @ [0]) \<and> 0 \<notin> set s"

lemma cstr_Nil [simp]: "cstr m p [] \<longleftrightarrow> m p = 0"
  by (simp add: cstr_def)

lemma cstr_Cons [simp]: "cstr m p (b # s) \<longleftrightarrow> b \<noteq> 0 \<and> m p = b \<and> cstr m (p + 1) s"
  by (auto simp: cstr_def)

lemma holds_append: "holds m p (xs @ ys) \<longleftrightarrow> holds m p xs \<and> holds m (p + of_nat (length xs)) ys"
  by (induction xs arbitrary: p) (auto simp: add.assoc)

lemma holds_nth: "holds m p bs \<Longrightarrow> i < length bs \<Longrightarrow> m (p + of_nat i) = bs ! i"
proof (induction bs arbitrary: p i)
  case (Cons b bs)
  then show ?case by (cases i) (auto simp: add.assoc [symmetric])
qed simp

section \<open>Comparisons on byte lists\<close>

text \<open>A list stands for a string: past its end the terminator is read.\<close>

fun lstrcmp :: "bytes \<Rightarrow> bytes \<Rightarrow> int" where
  "lstrcmp [] [] = 0"
| "lstrcmp [] (y # ys) = - uint y"
| "lstrcmp (x # xs) [] = uint x"
| "lstrcmp (x # xs) (y # ys) = (if x = y \<and> x \<noteq> 0 then lstrcmp xs ys else uint x - uint y)"

definition char_at :: "bytes \<Rightarrow> nat \<Rightarrow> u8" where
  "char_at bs i = (if i < length bs then bs ! i else 0)"

primrec lstrncmp :: "nat \<Rightarrow> nat \<Rightarrow> bytes \<Rightarrow> bytes \<Rightarrow> int" where
  "lstrncmp 0 i xs ys = 0"
| "lstrncmp (Suc n) i xs ys =
     (if char_at xs i \<noteq> 0 \<and> char_at xs i = char_at ys i then lstrncmp n (Suc i) xs ys
      else uint (char_at xs i) - uint (char_at ys i))"

text \<open>The C string in a character array: the bytes before the first NUL.\<close>

definition cstring :: "bytes \<Rightarrow> bytes" where
  "cstring bs = takeWhile (\<lambda>b. b \<noteq> 0) bs"

text \<open>
  A name buffer after \<open>strncpy(buf, name, NAME_MAX - 1); buf[NAME_MAX - 1] = 0\<close>: at most 29
  bytes of the name, and zeros up to the buffer's 30 bytes.
\<close>

definition name_buf :: "bytes \<Rightarrow> bytes" where
  "name_buf name = take (NAME_MAX - 1) name @ replicate (NAME_MAX - length (take (NAME_MAX - 1) name)) 0"

lemma length_name_buf [simp]: "length (name_buf name) = NAME_MAX"
  by (simp add: name_buf_def)

lemma cstring_name_buf: "0 \<notin> set name \<Longrightarrow> cstring (name_buf name) = take (NAME_MAX - 1) name"
proof -
  assume "0 \<notin> set name"
  then have "\<forall>b \<in> set (take (NAME_MAX - 1) name). b \<noteq> 0" by (auto dest: in_set_takeD)
  then have "takeWhile (\<lambda>b. b \<noteq> 0) (take (NAME_MAX - 1) name @ replicate (NAME_MAX - length (take (NAME_MAX - 1) name)) 0)
    = take (NAME_MAX - 1) name @ takeWhile (\<lambda>b. b \<noteq> 0) (replicate (NAME_MAX - length (take (NAME_MAX - 1) name)) 0)"
    by (simp add: takeWhile_append2)
  then show ?thesis by (simp add: cstring_def name_buf_def takeWhile_replicate)
qed

lemma uint_eq8: "uint x = uint y \<longleftrightarrow> x = (y :: u8)"
  by (simp add: word_uint_eq_iff)

lemma lstrcmp_0_iff: "0 \<notin> set xs \<Longrightarrow> 0 \<notin> set ys \<Longrightarrow> lstrcmp xs ys = 0 \<longleftrightarrow> xs = ys"
  by (induction xs ys rule: lstrcmp.induct) (auto simp: uint_0_iff uint_eq8)

lemma lstrncmp_0_iff:
  "0 \<notin> set ys \<Longrightarrow> i + n \<le> length ys \<Longrightarrow>
     lstrncmp n i xs ys = 0 \<longleftrightarrow> (\<forall>k < n. char_at xs (i + k) = char_at ys (i + k))"
proof (induction n arbitrary: i)
  case (Suc n)
  have nz: "char_at ys i \<noteq> 0" using Suc.prems by (auto simp: char_at_def in_set_conv_nth)
  have IH: "lstrncmp n (Suc i) xs ys = 0 \<longleftrightarrow> (\<forall>k < n. char_at xs (Suc i + k) = char_at ys (Suc i + k))"
    using Suc by simp
  show ?case unfolding All_less_Suc2 using nz by (simp add: IH uint_eq8)
qed simp

lemma strcmp_lstrcmp:
  "cstr m a xs \<Longrightarrow> cstr m b ys \<Longrightarrow> strcmp m a b = Some (lstrcmp xs ys)"
proof (induction xs ys arbitrary: a b rule: lstrcmp.induct)
  case (4 x xs y ys)
  then show ?case by (subst strcmp.simps) auto
qed (subst strcmp.simps, auto)+

lemma strlen_from_cstr:
  "cstr m p xs \<Longrightarrow> strlen_from m s p = Some (p - s + of_nat (length xs))"
proof (induction xs arbitrary: p)
  case Nil
  then show ?case by (subst strlen_from.simps) simp
next
  case (Cons x xs)
  then have "strlen_from m s (p + 1) = Some (p + 1 - s + of_nat (length xs))" by simp
  with Cons.prems show ?case by (subst strlen_from.simps) (simp add: algebra_simps)
qed

lemma strlen_cstr: "cstr m s xs \<Longrightarrow> strlen m s = Some (of_nat (length xs))"
  by (simp add: strlen_def strlen_from_cstr)

end
