(* ===== verification/Fs.thy ===== *)
theory Fs
  imports Buf_Cache KString
begin

text \<open>
  minifs, kernel/fs.c: the superblock, the on-disk and in-memory inodes, block and inode
  allocation, the block map, reading and writing, directories, path resolution and the
  operations behind the file system calls. A \<open>struct inode *\<close> is an index of
  \<open>icache\<close>, with \<open>None\<close> for NULL; \<open>curproc\<close>'s working directory is an argument
  (\<open>None\<close> before \<open>proc_init\<close>). Offsets and lengths are natural numbers: every sum the code
  forms is bounded by a file size, which fits 32 bits, or guarded by the code. Console
  messages are left out. The clock is a field that the environment sets.
\<close>

section \<open>Structures and their layout on disk\<close>

abbreviation (input) FT_FREE :: u8 where "FT_FREE \<equiv> 0"
abbreviation (input) FT_FILE :: u8 where "FT_FILE \<equiv> 1"
abbreviation (input) FT_DIR :: u8 where "FT_DIR \<equiv> 2"
abbreviation (input) FT_DEV :: u8 where "FT_DEV \<equiv> 3"
abbreviation (input) MINIFS_MAGIC :: u32 where "MINIFS_MAGIC \<equiv> 0x4D494E49"
abbreviation (input) INODES_PER_BLK :: nat where "INODES_PER_BLK \<equiv> 21"
abbreviation (input) PTRS_PER_BLK :: nat where "PTRS_PER_BLK \<equiv> 512"

record superblock =
  sb_magic :: u32
  sb_block_size :: u16
  sb_nblocks :: u16
  sb_ninodes :: u16
  sb_free_list :: u16
  sb_free_inodes :: u16
  sb_pad :: u16
  sb_mtime :: u32

record disk_inode =
  d_type :: u8
  d_nlink :: u8
  d_major :: u8
  d_minor :: u8
  d_size :: u32
  d_mtime :: u32
  d_direct :: "nat \<Rightarrow> u16"
  d_indirect :: u16

record dirent =
  de_inode :: u16
  de_name :: bytes

record inode =
  inum :: u16
  itype :: u8
  nlink :: u8
  dev_major :: u8
  dev_minor :: u8
  isize :: u32
  imtime :: u32
  direct :: "nat \<Rightarrow> u16"
  indirect :: u16
  irefcount :: u8
  idirty :: bool

record fsys =
  sb :: superblock
  icache :: "nat \<Rightarrow> inode"
  fs_ready :: bool
  bc :: cache
  ticks :: u32

definition get_sb :: "block \<Rightarrow> superblock" where
  "get_sb b = \<lparr>sb_magic = get32 b 0, sb_block_size = get16 b 4, sb_nblocks = get16 b 6,
     sb_ninodes = get16 b 8, sb_free_list = get16 b 10, sb_free_inodes = get16 b 12,
     sb_pad = get16 b 14, sb_mtime = get32 b 16\<rparr>"

definition put_sb :: "superblock \<Rightarrow> block \<Rightarrow> block" where
  "put_sb s b = put32 (put16 (put16 (put16 (put16 (put16 (put16 (put32 b 0 (sb_magic s))
     4 (sb_block_size s)) 6 (sb_nblocks s)) 8 (sb_ninodes s)) 10 (sb_free_list s))
     12 (sb_free_inodes s)) 14 (sb_pad s)) 16 (sb_mtime s)"

definition get_dinode :: "block \<Rightarrow> nat \<Rightarrow> disk_inode" where
  "get_dinode b off = \<lparr>d_type = b off, d_nlink = b (off + 1), d_major = b (off + 2),
     d_minor = b (off + 3), d_size = get32 b (off + 4), d_mtime = get32 b (off + 8),
     d_direct = (\<lambda>i. get16 b (off + 12 + 2 * i)), d_indirect = get16 b (off + 36)\<rparr>"

definition put_direct :: "(nat \<Rightarrow> u16) \<Rightarrow> nat \<Rightarrow> block \<Rightarrow> block" where
  "put_direct d off b = fold (\<lambda>i b. put16 b (off + 12 + 2 * i) (d i)) [0..<12] b"

definition put_dinode :: "disk_inode \<Rightarrow> nat \<Rightarrow> block \<Rightarrow> block" where
  "put_dinode di off b =
     put16 (put_direct (d_direct di) off
       (put32 (put32 (b(off := d_type di, off + 1 := d_nlink di, off + 2 := d_major di,
          off + 3 := d_minor di)) (off + 4) (d_size di)) (off + 8) (d_mtime di)))
       (off + 36) (d_indirect di)"

definition dirent_of :: "bytes \<Rightarrow> dirent" where
  "dirent_of bs = \<lparr>de_inode = push_bit 8 (ucast (bs ! 0)) OR ucast (bs ! 1), de_name = drop 2 bs\<rparr>"

definition dirent_bytes :: "dirent \<Rightarrow> bytes" where
  "dirent_bytes de = [ucast (drop_bit 8 (de_inode de)), ucast (de_inode de)] @ de_name de"

definition upd_inode :: "nat \<Rightarrow> (inode \<Rightarrow> inode) \<Rightarrow> fsys \<Rightarrow> fsys" where
  "upd_inode i f s = s\<lparr>icache := (icache s)(i := f (icache s i))\<rparr>"

lemma upd_inode_sel [simp]:
  "icache (upd_inode i f s) j = (if j = i then f (icache s i) else icache s j)"
  "sb (upd_inode i f s) = sb s" "fs_ready (upd_inode i f s) = fs_ready s"
  "bc (upd_inode i f s) = bc s" "ticks (upd_inode i f s) = ticks s"
  by (simp_all add: upd_inode_def)

definition fget :: "u16 \<Rightarrow> fsys \<Rightarrow> block \<times> fsys" where
  "fget blk s = (case bget blk (bc s) of (d, c) \<Rightarrow> (d, s\<lparr>bc := c\<rparr>))"

definition fput :: "u16 \<Rightarrow> (block \<Rightarrow> block) \<Rightarrow> fsys \<Rightarrow> fsys" where
  "fput blk f s = s\<lparr>bc := bput blk f (bc s)\<rparr>"

section \<open>Mounting\<close>

definition inode_blocks :: "fsys \<Rightarrow> nat" where
  "inode_blocks s = (unat (sb_ninodes (sb s)) + INODES_PER_BLK - 1) div INODES_PER_BLK"

definition data_start :: "fsys \<Rightarrow> nat" where
  "data_start s = 1 + inode_blocks s"

definition fs_init :: "fsys \<Rightarrow> fsys" where
  "fs_init s =
     (case fget 0 s of (d, s1) \<Rightarrow>
        let s2 = s1\<lparr>sb := get_sb d\<rparr>
        in if sb_magic (sb s2) \<noteq> MINIFS_MAGIC then s2\<lparr>fs_ready := False\<rparr>
           else s2\<lparr>fs_ready := True,
                   icache := (\<lambda>i. if i < MAXINODE then (icache s2 i)\<lparr>inum := 0, irefcount := 0\<rparr>
                                  else icache s2 i)\<rparr>)"

section \<open>Inodes\<close>

definition inode_blk :: "u16 \<Rightarrow> u16" where
  "inode_blk n = of_nat (1 + (unat n - 1) div INODES_PER_BLK)"

definition inode_off :: "u16 \<Rightarrow> nat" where
  "inode_off n = ((unat n - 1) mod INODES_PER_BLK) * 48"

definition fs_iget :: "u16 \<Rightarrow> fsys \<Rightarrow> nat option \<times> fsys" where
  "fs_iget n s =
     (if \<not> fs_ready s \<or> n = 0 \<or> n > sb_ninodes (sb s) then (None, s)
      else case first_idx (\<lambda>i. irefcount (icache s i) > 0 \<and> inum (icache s i) = n) MAXINODE of
        Some i \<Rightarrow> (Some i, upd_inode i (\<lambda>ip. ip\<lparr>irefcount := irefcount ip + 1\<rparr>) s)
      | None \<Rightarrow> (case first_idx (\<lambda>i. irefcount (icache s i) = 0) MAXINODE of
          None \<Rightarrow> (None, s)
        | Some i \<Rightarrow> (case fget (inode_blk n) s of (d, s1) \<Rightarrow>
            let di = get_dinode d (inode_off n)
            in (Some i, upd_inode i (\<lambda>_. \<lparr>inum = n, itype = d_type di, nlink = d_nlink di,
                  dev_major = d_major di, dev_minor = d_minor di, isize = d_size di,
                  imtime = d_mtime di, direct = d_direct di, indirect = d_indirect di,
                  irefcount = 1, idirty = False\<rparr>) s1))))"

definition inode_image :: "inode \<Rightarrow> disk_inode" where
  "inode_image ip = \<lparr>d_type = itype ip, d_nlink = nlink ip, d_major = dev_major ip,
     d_minor = dev_minor ip, d_size = isize ip, d_mtime = imtime ip, d_direct = direct ip,
     d_indirect = indirect ip\<rparr>"

definition fs_iupdate :: "nat \<Rightarrow> fsys \<Rightarrow> fsys" where
  "fs_iupdate i s =
     (if \<not> fs_ready s then s
      else let ip = icache s i
           in upd_inode i (\<lambda>ip. ip\<lparr>idirty := False\<rparr>)
                (fput (inode_blk (inum ip)) (put_dinode (inode_image ip) (inode_off (inum ip))) s))"

section \<open>Block allocation\<close>

definition write_sb :: "fsys \<Rightarrow> fsys" where
  "write_sb s = fput 0 (put_sb (sb s)) s"

definition balloc :: "fsys \<Rightarrow> u16 \<times> fsys" where
  "balloc s =
     (let blk = sb_free_list (sb s)
      in if blk = 0 then (0, s)
         else (case fget blk s of (d, s1) \<Rightarrow>
           (blk, write_sb (s1\<lparr>sb := (sb s1)\<lparr>sb_free_list := get16 d 0\<rparr>\<rparr>))))"

definition bfree :: "u16 \<Rightarrow> fsys \<Rightarrow> fsys" where
  "bfree blk s =
     (let s1 = fput blk (\<lambda>_. put16 (\<lambda>_. 0) 0 (sb_free_list (sb s))) s
      in write_sb (s1\<lparr>sb := (sb s1)\<lparr>sb_free_list := blk\<rparr>\<rparr>))"

text \<open>
  \<open>ialloc\<close>'s loop over the inode numbers. (With 65535 inodes the C loop counter could not pass
  the bound; the list of numbers below ends.)
\<close>

primrec ialloc_scan :: "nat list \<Rightarrow> u8 \<Rightarrow> fsys \<Rightarrow> u16 \<times> fsys" where
  "ialloc_scan [] ty s = (0, s)"
| "ialloc_scan (i # is) ty s =
     (let n = of_nat i :: u16
      in case bread 0 (inode_blk n) (bc s) of (k, c) \<Rightarrow>
           if bdata (bufs c k) (inode_off n) = FT_FREE
           then (n, s\<lparr>bc := brelse k (poke k (\<lambda>b j.
                   if j = inode_off n then ty
                   else if j = inode_off n + 1 then 1
                   else if inode_off n \<le> j \<and> j < inode_off n + 48 then 0 else b j) c)\<rparr>)
           else ialloc_scan is ty (s\<lparr>bc := brelse k c\<rparr>))"

definition ialloc :: "u8 \<Rightarrow> fsys \<Rightarrow> u16 \<times> fsys" where
  "ialloc ty s = ialloc_scan [1..<Suc (unat (sb_ninodes (sb s)))] ty s"

text \<open>
  \<open>bmap\<close>: the block of file offset \<open>off\<close>, 0 if there is none; with \<open>alloc\<close> a missing block
  is allocated. The indirect path has two parts: make sure that the inode has an indirect block
  (false if it has none), and look up its entry at byte \<open>p\<close>. For the latter the indirect
  block is read into slot \<open>k\<close>, and \<open>balloc\<close> reads two more blocks before the new pointer is
  stored through slot \<open>k\<close>.
\<close>

definition need_indirect :: "nat \<Rightarrow> bool \<Rightarrow> fsys \<Rightarrow> bool \<times> fsys" where
  "need_indirect i alloc s =
     (if indirect (icache s i) \<noteq> 0 then (True, s)
      else if \<not> alloc then (False, s)
      else case balloc s of (blk, s1) \<Rightarrow>
        (if blk = 0 then (False, upd_inode i (\<lambda>ip. ip\<lparr>indirect := 0\<rparr>) s1)
         else (True, upd_inode i (\<lambda>ip. ip\<lparr>idirty := True\<rparr>)
                 (fput blk (\<lambda>_ _. 0) (upd_inode i (\<lambda>ip. ip\<lparr>indirect := blk\<rparr>) s1)))))"

definition indirect_entry :: "u16 \<Rightarrow> nat \<Rightarrow> bool \<Rightarrow> fsys \<Rightarrow> u16 \<times> fsys" where
  "indirect_entry ind p alloc s =
     (case bread 0 ind (bc s) of (k, c) \<Rightarrow>
        let blk = get16 (bdata (bufs c k)) p; s1 = s\<lparr>bc := c\<rparr>
        in if blk = 0 \<and> alloc
           then (case balloc s1 of (nb, s2) \<Rightarrow>
                  (nb, s2\<lparr>bc := brelse k (poke k (\<lambda>b. put16 b p nb) (bc s2))\<rparr>))
           else (blk, s1\<lparr>bc := brelse k (bc s1)\<rparr>))"

definition bmap :: "nat \<Rightarrow> nat \<Rightarrow> bool \<Rightarrow> fsys \<Rightarrow> u16 \<times> fsys" where
  "bmap i off alloc s =
     (let bn = off div BLOCK_SIZE
      in if bn < 12
         then (if direct (icache s i) bn = 0 \<and> alloc
               then (case balloc s of (blk, s1) \<Rightarrow>
                      (blk, upd_inode i (\<lambda>ip. ip\<lparr>direct := (direct ip)(bn := blk), idirty := True\<rparr>) s1))
               else (direct (icache s i) bn, s))
         else if bn - 12 < PTRS_PER_BLK
         then (case need_indirect i alloc s of (ok, s1) \<Rightarrow>
               if ok then indirect_entry (indirect (icache s1 i)) (2 * (bn - 12)) alloc s1 else (0, s1))
         else (0, s))"

section \<open>Releasing an inode\<close>

text \<open>The loops of \<open>fs_iput\<close> that free the blocks of an unlinked inode.\<close>

definition free_direct :: "nat \<Rightarrow> fsys \<Rightarrow> fsys" where
  "free_direct i s =
     fold (\<lambda>n s. if direct (icache s i) n \<noteq> 0
                 then upd_inode i (\<lambda>ip. ip\<lparr>direct := (direct ip)(n := 0)\<rparr>)
                        (bfree (direct (icache s i) n) s)
                 else s) [0..<12] s"

text \<open>The pointers are read through slot \<open>k\<close> while \<open>bfree\<close> reads and writes other blocks.\<close>

definition free_indirect :: "nat \<Rightarrow> fsys \<Rightarrow> fsys" where
  "free_indirect i s =
     (if indirect (icache s i) = 0 then s
      else case bread 0 (indirect (icache s i)) (bc s) of (k, c) \<Rightarrow>
        let s1 = fold (\<lambda>n s. let p = get16 (bdata (bufs (bc s) k)) (2 * n)
                            in if p \<noteq> 0 then bfree p s else s) [0..<PTRS_PER_BLK] (s\<lparr>bc := c\<rparr>);
            s2 = bfree (indirect (icache s1 i)) (s1\<lparr>bc := brelse k (bc s1)\<rparr>)
        in upd_inode i (\<lambda>ip. ip\<lparr>indirect := 0\<rparr>) s2)"

definition fs_iput :: "nat \<Rightarrow> fsys \<Rightarrow> fsys" where
  "fs_iput i s =
     (let s1 = (if irefcount (icache s i) > 0
                then upd_inode i (\<lambda>ip. ip\<lparr>irefcount := irefcount ip - 1\<rparr>) s else s);
          s2 = (if irefcount (icache s1 i) = 0 \<and> idirty (icache s1 i) then fs_iupdate i s1 else s1)
      in if irefcount (icache s2 i) = 0 \<and> nlink (icache s2 i) = 0 \<and> itype (icache s2 i) \<noteq> FT_FREE
         then fs_iupdate i (upd_inode i (\<lambda>ip. ip\<lparr>isize := 0, itype := FT_FREE, idirty := True\<rparr>)
                (free_indirect i (free_direct i s2)))
         else s2)"

definition iput_opt :: "nat option \<Rightarrow> fsys \<Rightarrow> fsys" where
  "iput_opt ip s = (case ip of None \<Rightarrow> s | Some i \<Rightarrow> fs_iput i s)"

end
