(* ===== verification/Fs_File.thy ===== *)
theory Fs_File
  imports Fs
begin

text \<open>
  Reading and writing file contents: \<open>fs_read\<close> and \<open>fs_write\<close> of kernel/fs.c, with their
  chunk loops, and \<open>fs_stat\<close>. A buffer the caller passes in is a function from indexes to
  bytes, a buffer it gets back a list.
\<close>

text \<open>The bytes of the chunk at offset \<open>off\<close> when \<open>left\<close> bytes are still to transfer.\<close>

definition chunk_len :: "nat \<Rightarrow> nat \<Rightarrow> nat" where
  "chunk_len off left = min (BLOCK_SIZE - off mod BLOCK_SIZE) left"

lemma chunk_len_pos: "0 < left \<Longrightarrow> 0 < chunk_len off left"
  by (simp add: chunk_len_def)

lemma chunk_progress: "tot < n \<Longrightarrow> n - (tot + chunk_len off (n - tot)) < n - tot"
  using chunk_len_pos [of "n - tot" off] by linarith

lemma chunk_len_le [simp]: "chunk_len off left \<le> left"
  by (simp add: chunk_len_def)

function fs_read_loop :: "nat \<Rightarrow> nat \<Rightarrow> nat \<Rightarrow> bytes \<Rightarrow> fsys \<Rightarrow> bytes \<times> fsys" where
  "fs_read_loop i off n dst s =
     (if length dst < n
      then (case bmap i off False s of (blk, s1) \<Rightarrow>
        if blk = 0 then (dst, s1)
        else (case fget blk s1 of (d, s2) \<Rightarrow>
          let boff = off mod BLOCK_SIZE; chunk = chunk_len off (n - length dst)
          in fs_read_loop i (off + chunk) n (dst @ map (\<lambda>j. d (boff + j)) [0..<chunk]) s2))
      else (dst, s))"
  by pat_completeness auto
termination
  by (relation "measure (\<lambda>(i, off, n, dst, s). n - length dst)") (auto intro: chunk_progress)

declare fs_read_loop.simps [simp del]

definition fs_read :: "nat \<Rightarrow> nat \<Rightarrow> nat \<Rightarrow> fsys \<Rightarrow> bytes \<times> fsys" where
  "fs_read i off n s =
     (let size = unat (isize (icache s i))
      in if off \<ge> size then ([], s)
         else fs_read_loop i off (if n > size - off then size - off else n) [] s)"

text \<open>
  The write loop; the flag says that it ended because no block could be allocated, in which
  case the call returns at once.
\<close>

function fs_write_loop :: "nat \<Rightarrow> (nat \<Rightarrow> u8) \<Rightarrow> nat \<Rightarrow> nat \<Rightarrow> nat \<Rightarrow> fsys \<Rightarrow> bool \<times> nat \<times> nat \<times> fsys" where
  "fs_write_loop i src off n tot s =
     (if tot < n
      then (case bmap i off True s of (blk, s1) \<Rightarrow>
        if blk = 0 then (True, off, tot, s1)
        else let boff = off mod BLOCK_SIZE; chunk = chunk_len off (n - tot)
          in fs_write_loop i src (off + chunk) n (tot + chunk)
               (fput blk (\<lambda>b j. if boff \<le> j \<and> j < boff + chunk then src (tot + (j - boff)) else b j) s1))
      else (False, off, tot, s))"
  by pat_completeness auto
termination
  by (relation "measure (\<lambda>(i, src, off, n, tot, s). n - tot)") (auto intro: chunk_progress)

declare fs_write_loop.simps [simp del]

abbreviation (input) UINT32_MAX :: nat where "UINT32_MAX \<equiv> 4294967295"

definition fs_write :: "nat \<Rightarrow> (nat \<Rightarrow> u8) \<Rightarrow> nat \<Rightarrow> nat \<Rightarrow> fsys \<Rightarrow> int \<times> fsys" where
  "fs_write i src off n s =
     (let n = (if n > UINT32_MAX - off then UINT32_MAX - off else n)
      in case fs_write_loop i src off n 0 s of (full, off', tot, s1) \<Rightarrow>
           if full then (if tot > 0 then int tot else - ENOSPC, s1)
           else let s2 = (if off' > unat (isize (icache s1 i))
                          then upd_inode i (\<lambda>ip. ip\<lparr>isize := of_nat off', idirty := True\<rparr>) s1 else s1);
                    s3 = upd_inode i (\<lambda>ip. ip\<lparr>imtime := ticks s2, idirty := True\<rparr>) s2
                in (int tot, fs_iupdate i s3))"

section \<open>File status\<close>

record posix_stat =
  st_dev :: u16
  st_ino :: u16
  st_mode :: u16
  st_nlink :: u16
  st_uid :: u16
  st_gid :: u16
  st_rdev :: u16
  st_pad :: u16
  st_size :: u32
  st_atime :: u32
  st_mtime :: u32
  st_ctime :: u32

text \<open>Octal 0100755, 0040755 and 0020666.\<close>

definition type_to_mode :: "u8 \<Rightarrow> u16" where
  "type_to_mode t =
     (if t = FT_FILE then 33261 else if t = FT_DIR then 16877 else if t = FT_DEV then 8630 else 0)"

definition fs_stat :: "nat \<Rightarrow> fsys \<Rightarrow> posix_stat" where
  "fs_stat i s =
     (let ip = icache s i
      in \<lparr>st_dev = 0, st_ino = inum ip, st_mode = type_to_mode (itype ip),
          st_nlink = ucast (nlink ip), st_uid = 0, st_gid = 0,
          st_rdev = (if itype ip = FT_DEV then push_bit 8 (ucast (dev_major ip)) OR ucast (dev_minor ip) else 0),
          st_pad = 0, st_size = isize ip, st_atime = imtime ip, st_mtime = imtime ip,
          st_ctime = imtime ip\<rparr>)"

end
