(* ===== verification/Fs_Dir.thy ===== *)
theory Fs_Dir
  imports Fs_File
begin

text \<open>
  Directories and paths of minifs (kernel/fs.c): entry lookup, insertion and removal, path
  resolution, and the operations the file system calls are made of. A path is the list of its
  bytes before the NUL. Every operation returns C's result and the new state; an inode
  pointer that may be NULL is an option.
\<close>

section \<open>Scanning a directory\<close>

text \<open>
  The loop \<open>for (off = 0; off < dp->size; off += sizeof(de))\<close> that five functions of the
  file share: the first entry that satisfies \<open>P\<close>, with its offset; a short read ends it.
\<close>

function dir_scan :: "(dirent \<Rightarrow> bool) \<Rightarrow> nat \<Rightarrow> nat \<Rightarrow> fsys \<Rightarrow> (nat \<times> dirent) option \<times> fsys" where
  "dir_scan P dp off s =
     (if off < unat (isize (icache s dp))
      then (case fs_read dp off 32 s of (bs, s1) \<Rightarrow>
        if length bs \<noteq> 32 then (None, s1)
        else if P (dirent_of bs) then (Some (off, dirent_of bs), s1)
        else dir_scan P dp (off + 32) s1)
      else (None, s))"
  by pat_completeness auto

lemma isize_bound: "off < unat (isize ip) \<Longrightarrow> off < 4294967296"
  using u32_bound [of "isize ip"] by simp

termination dir_scan
  by (relation "measure (\<lambda>(P, dp, off, s). 4294967296 - off)") (auto dest: isize_bound)

declare dir_scan.simps [simp del]

text \<open>\<open>fs_rmdir\<close>'s loop, which counts the entries that satisfy \<open>P\<close>.\<close>

function dir_count :: "(dirent \<Rightarrow> bool) \<Rightarrow> nat \<Rightarrow> nat \<Rightarrow> nat \<Rightarrow> fsys \<Rightarrow> nat \<times> fsys" where
  "dir_count P dp off k s =
     (if off < unat (isize (icache s dp))
      then (case fs_read dp off 32 s of (bs, s1) \<Rightarrow>
        if length bs \<noteq> 32 then (k, s1)
        else dir_count P dp (off + 32) (if P (dirent_of bs) then Suc k else k) s1)
      else (k, s))"
  by pat_completeness auto
termination
  by (relation "measure (\<lambda>(P, dp, off, k, s). 4294967296 - off)") (auto dest: isize_bound)

declare dir_count.simps [simp del]

text \<open>The test of \<open>dir_lookup\<close>: the entry is in use and its name is exactly \<open>name\<close>.\<close>

definition name_matches :: "bytes \<Rightarrow> dirent \<Rightarrow> bool" where
  "name_matches name de \<longleftrightarrow> de_inode de \<noteq> 0 \<and>
     lstrncmp (length name) 0 (de_name de) name = 0 \<and> char_at (de_name de) (length name) = 0"

definition dir_lookup :: "nat \<Rightarrow> bytes \<Rightarrow> fsys \<Rightarrow> nat option \<times> fsys" where
  "dir_lookup dp name s =
     (if itype (icache s dp) \<noteq> FT_DIR then (None, s)
      else case dir_scan (name_matches name) dp 0 s of
        (Some (_, de), s1) \<Rightarrow> fs_iget (de_inode de) s1
      | (None, s1) \<Rightarrow> (None, s1))"

definition new_dirent :: "bytes \<Rightarrow> u16 \<Rightarrow> dirent" where
  "new_dirent name n = \<lparr>de_inode = n, de_name = name_buf name\<rparr>"

definition dir_link :: "nat \<Rightarrow> bytes \<Rightarrow> u16 \<Rightarrow> fsys \<Rightarrow> int \<times> fsys" where
  "dir_link dp name n s =
     (case dir_lookup dp name s of
        (Some c, s1) \<Rightarrow> (- EEXIST, fs_iput c s1)
      | (None, s1) \<Rightarrow>
          (case dir_scan (\<lambda>de. de_inode de = 0) dp 0 s1 of (slot, s2) \<Rightarrow>
             let off = (case slot of Some (o1, _) \<Rightarrow> o1 | None \<Rightarrow> unat (isize (icache s2 dp)))
             in case fs_write dp (\<lambda>j. dirent_bytes (new_dirent name n) ! j) off 32 s2 of (r, s3) \<Rightarrow>
                  (if r \<noteq> 32 then - EIO else 0, s3)))"

definition dir_unlink :: "nat \<Rightarrow> bytes \<Rightarrow> fsys \<Rightarrow> int \<times> fsys" where
  "dir_unlink dp name s =
     (case dir_scan (\<lambda>de. de_inode de \<noteq> 0 \<and> lstrcmp (cstring (de_name de)) name = 0) dp 0 s of
        (Some (off, _), s1) \<Rightarrow> (case fs_write dp (\<lambda>_. 0) off 32 s1 of (_, s2) \<Rightarrow> (0, s2))
      | (None, s1) \<Rightarrow> (- ENOENT, s1))"

section \<open>Paths\<close>

abbreviation (input) SLASH :: u8 where "SLASH \<equiv> 47"

text \<open>The walk of \<open>fs_namei\<close> from inode \<open>ip\<close> along the rest of the path.\<close>

function namei_walk :: "bytes \<Rightarrow> nat \<Rightarrow> fsys \<Rightarrow> nat option \<times> fsys" where
  "namei_walk path ip s =
     (let p = dropWhile (\<lambda>c. c = SLASH) path
      in if p = [] then (Some ip, s)
         else if itype (icache s ip) \<noteq> FT_DIR then (None, fs_iput ip s)
         else (case dir_lookup ip (takeWhile (\<lambda>c. c \<noteq> SLASH) p) s of (nx, s1) \<Rightarrow>
           case nx of
             None \<Rightarrow> (None, fs_iput ip s1)
           | Some j \<Rightarrow> namei_walk (dropWhile (\<lambda>c. c \<noteq> SLASH) p) j (fs_iput ip s1)))"
  by pat_completeness auto

lemma component_shorter:
  "dropWhile (\<lambda>c. c = a) path \<noteq> [] \<Longrightarrow>
     length (dropWhile (\<lambda>c. c \<noteq> a) (dropWhile (\<lambda>c. c = a) path)) < length path"
proof (induction path)
  case (Cons x path)
  have "length (dropWhile (\<lambda>c. c \<noteq> a) path) \<le> length path" by (rule length_dropWhile_le)
  with Cons show ?case by auto
qed simp

termination namei_walk
  by (relation "measure (\<lambda>(path, ip, s). length path)") (auto dest: component_shorter simp del: dropWhile_eq_Nil_conv)

declare namei_walk.simps [simp del]

definition fs_namei :: "u16 option \<Rightarrow> bytes \<Rightarrow> fsys \<Rightarrow> nat option \<times> fsys" where
  "fs_namei cwd path s =
     (if \<not> fs_ready s then (None, s)
      else case fs_iget (if take 1 path = [SLASH] then 1 else case cwd of Some n \<Rightarrow> n | None \<Rightarrow> 1) s of
        (None, s1) \<Rightarrow> (None, s1)
      | (Some ip, s1) \<Rightarrow> namei_walk path ip s1)"

text \<open>
  \<open>fs_namei_parent\<close>: the directory of the path's last component, and that component as the
  caller's name buffer holds it. \<open>last_name\<close> is what follows the last slash.
\<close>

definition last_name :: "bytes \<Rightarrow> bytes" where
  "last_name path = rev (takeWhile (\<lambda>c. c \<noteq> SLASH) (rev path))"

definition fs_namei_parent :: "u16 option \<Rightarrow> bytes \<Rightarrow> fsys \<Rightarrow> (nat option \<times> bytes) \<times> fsys" where
  "fs_namei_parent cwd path s =
     (if \<not> fs_ready s then ((None, []), s)
      else let name = last_name path;
               plen = length path - length name - 1;
               too_long = SLASH \<in> set path \<and> plen \<ge> PATH_MAX;
               (dp, s1) =
                 (if SLASH \<notin> set path then fs_iget (case cwd of Some n \<Rightarrow> n | None \<Rightarrow> 1) s
                  else if plen = 0 then fs_iget 1 s
                  else if too_long then (None, s)
                  else fs_namei cwd (take plen path) s)
           in case dp of
                None \<Rightarrow> ((None, if too_long then [] else cstring (name_buf name)), s1)
              | Some d \<Rightarrow>
                  if itype (icache s1 d) \<noteq> FT_DIR
                  then ((None, cstring (name_buf name)), fs_iput d s1)
                  else ((Some d, cstring (name_buf name)), s1))"

section \<open>Operations\<close>

definition fs_create :: "u16 option \<Rightarrow> bytes \<Rightarrow> u8 \<Rightarrow> fsys \<Rightarrow> nat option \<times> fsys" where
  "fs_create cwd path ty s =
     (case fs_namei_parent cwd path s of
        ((None, _), s1) \<Rightarrow> (None, s1)
      | ((Some dp, name), s1) \<Rightarrow>
          (case dir_lookup dp name s1 of
             (Some e, s2) \<Rightarrow> (Some e, fs_iput dp s2)
           | (None, s2) \<Rightarrow>
               (case ialloc ty s2 of (n, s3) \<Rightarrow>
                  if n = 0 then (None, fs_iput dp s3)
                  else (case fs_iget n s3 of
                    (None, s4) \<Rightarrow> (None, fs_iput dp s4)
                  | (Some ip, s4) \<Rightarrow>
                      (case dir_link dp name n s4 of (r, s5) \<Rightarrow>
                         if r < 0 then (None, fs_iput dp (fs_iput ip s5))
                         else (Some ip, fs_iput dp s5))))))"

definition fs_unlink :: "u16 option \<Rightarrow> bytes \<Rightarrow> fsys \<Rightarrow> int \<times> fsys" where
  "fs_unlink cwd path s =
     (case fs_namei_parent cwd path s of
        ((None, _), s1) \<Rightarrow> (- ENOENT, s1)
      | ((Some dp, name), s1) \<Rightarrow>
          (case dir_lookup dp name s1 of
             (None, s2) \<Rightarrow> (- ENOENT, fs_iput dp s2)
           | (Some ip, s2) \<Rightarrow>
               if itype (icache s2 ip) = FT_DIR then (- EISDIR, fs_iput dp (fs_iput ip s2))
               else (case dir_unlink dp name s2 of (_, s3) \<Rightarrow>
                 (0, fs_iput dp (fs_iput ip
                       (upd_inode ip (\<lambda>ip. ip\<lparr>nlink := nlink ip - 1, idirty := True\<rparr>) s3))))))"

definition fs_rename :: "u16 option \<Rightarrow> bytes \<Rightarrow> bytes \<Rightarrow> fsys \<Rightarrow> int \<times> fsys" where
  "fs_rename cwd oldpath newpath s =
     (case fs_namei cwd oldpath s of
        (None, s1) \<Rightarrow> (- ENOENT, s1)
      | (Some ip, s1) \<Rightarrow>
          (case fs_namei_parent cwd oldpath s1 of ((odp, oldname), s2) \<Rightarrow>
           case fs_namei_parent cwd newpath s2 of ((ndp, newname), s3) \<Rightarrow>
           case (odp, ndp) of
             (Some od, Some nd) \<Rightarrow>
               (case dir_unlink od oldname s3 of (_, s4) \<Rightarrow>
                case dir_link nd newname (inum (icache s4 ip)) s4 of (_, s5) \<Rightarrow>
                  (0, fs_iput ip (fs_iput nd (fs_iput od s5))))
           | _ \<Rightarrow> (- ENOENT, fs_iput ip (iput_opt ndp (iput_opt odp s3)))))"

definition fs_mkdir :: "u16 option \<Rightarrow> bytes \<Rightarrow> fsys \<Rightarrow> int \<times> fsys" where
  "fs_mkdir cwd path s =
     (case fs_create cwd path FT_DIR s of
        (None, s1) \<Rightarrow> (- EIO, s1)
      | (Some ip, s1) \<Rightarrow>
          (case fs_namei_parent cwd path s1 of ((dp, _), s2) \<Rightarrow>
             let parent = (case dp of Some d \<Rightarrow> inum (icache s2 d) | None \<Rightarrow> 1)
             in case dir_link ip [46] (inum (icache (iput_opt dp s2) ip)) (iput_opt dp s2) of (_, s3) \<Rightarrow>
                case dir_link ip [46, 46] parent s3 of (_, s4) \<Rightarrow> (0, fs_iput ip s4)))"

text \<open>The entries other than \<open>.\<close> and \<open>..\<close>.\<close>

definition real_entry :: "dirent \<Rightarrow> bool" where
  "real_entry de \<longleftrightarrow> de_inode de \<noteq> 0 \<and> lstrcmp (cstring (de_name de)) [46] \<noteq> 0 \<and>
     lstrcmp (cstring (de_name de)) [46, 46] \<noteq> 0"

definition fs_rmdir :: "u16 option \<Rightarrow> bytes \<Rightarrow> fsys \<Rightarrow> int \<times> fsys" where
  "fs_rmdir cwd path s =
     (case fs_namei cwd path s of
        (None, s1) \<Rightarrow> (- ENOENT, s1)
      | (Some ip, s1) \<Rightarrow>
          if itype (icache s1 ip) \<noteq> FT_DIR then (- ENOTDIR, fs_iput ip s1)
          else (case dir_count real_entry ip 0 0 s1 of (k, s2) \<Rightarrow>
            if k > 0 then (- ENOTEMPTY, fs_iput ip s2)
            else fs_unlink cwd path (fs_iput ip s2)))"

definition fs_getdents :: "nat \<Rightarrow> nat \<Rightarrow> nat \<Rightarrow> fsys \<Rightarrow> (int + bytes) \<times> fsys" where
  "fs_getdents i off n s =
     (if itype (icache s i) \<noteq> FT_DIR then (Inl (- ENOTDIR), s)
      else case fs_read i off n s of (bs, s1) \<Rightarrow> (Inr bs, s1))"

end
