(* ===== verification/Fs_Coherence.thy ===== *)
theory Fs_Coherence
  imports Fs_Dir
begin

text \<open>
  The buffer cache under the file system (kernel/fs.c over kernel/buf.c). Every block change
  is written to the disk before the call returns, so the cache agrees with the disk between
  calls, whatever calls were made and however they ended, and losing the cache loses nothing.
\<close>

section \<open>Every operation keeps the cache coherent\<close>

text \<open>
  \<open>coh s t\<close>: if the cache is coherent in \<open>s\<close> it is in \<open>t\<close>, and no slot in use became
  unused (the file system keeps slot numbers across other operations). It is a preorder, so
  an operation has it when its steps have it.
\<close>

definition coh :: "fsys \<Rightarrow> fsys \<Rightarrow> bool" where
  "coh s t \<longleftrightarrow> (cache_ok (bc s) \<longrightarrow> cache_ok (bc t) \<and>
     (\<forall>i. bvalid (bufs (bc s) i) \<longrightarrow> bvalid (bufs (bc t) i)))"

lemma coh_refl [simp]: "coh s s"
  by (simp add: coh_def)

lemma coh_trans [trans]: "coh s t \<Longrightarrow> coh t u \<Longrightarrow> coh s u"
  by (auto simp: coh_def)

lemma coh_same [intro]: "bc t = bc s \<Longrightarrow> coh s t"
  by (simp add: coh_def)

lemma coh_upd [simp]: "coh s (upd_inode i f t) = coh s t" "coh (upd_inode i f s) t = coh s t"
  "coh s (t\<lparr>sb := x\<rparr>) = coh s t"
  by (simp_all add: coh_def)

named_theorems coh_intros \<open>one rule per operation that returns a result\<close>

lemma bread_valid:
  assumes "cache_ok c" and "bread 0 blk c = (k, d)"
  shows "bvalid (bufs c i) \<Longrightarrow> bvalid (bufs d i)"
proof -
  obtain j where "victim c = (j, c)" using victim_ok [OF assms(1)] .
  with assms(2) show "bvalid (bufs c i) \<Longrightarrow> bvalid (bufs d i)"
    by (auto simp: bread_def split: option.splits)
qed

lemma brelse_coh: "cache_ok c \<Longrightarrow> k < NBUFS \<Longrightarrow> brelse k c = c"
  by (simp add: brelse_clean cache_okD)

lemma poke_valid: "bvalid (bufs (poke k f c) i) = bvalid (bufs c i)"
  by (simp add: poke_def bwrite_def)

lemma fget_coh [coh_intros]: "fget blk s = (d, t) \<Longrightarrow> coh s t"
proof -
  obtain k c where b: "bread 0 blk (bc s) = (k, c)" by (cases "bread 0 blk (bc s)")
  assume "fget blk s = (d, t)"
  with b have t: "t = s\<lparr>bc := brelse k c\<rparr>" by (auto simp: fget_def bget_def)
  show "coh s t"
    unfolding coh_def t using bread_ok [OF _ b] bread_valid [OF _ b]
    by (simp add: brelse_coh)
qed

lemma brelse_valid: "bvalid (bufs (brelse k c) i) = bvalid (bufs c i)"
  by (simp add: brelse_def bwrite_def)

lemma fput_coh: "coh s (fput blk f s)"
proof -
  obtain k c where b: "bread 0 blk (bc s) = (k, c)" by (cases "bread 0 blk (bc s)")
  have v: "cache_ok (bc s) \<Longrightarrow> bvalid (bufs (bc s) i) \<Longrightarrow> bvalid (bufs (bput blk f (bc s)) i)" for i
    unfolding bput_def b using bread_valid [OF _ b] by (simp add: brelse_valid poke_valid)
  then show ?thesis by (simp add: coh_def fput_def bput_ok(1))
qed

lemma coh_fput: "coh s t \<Longrightarrow> coh s (fput blk f t)"
  by (rule coh_trans [OF _ fput_coh])

text \<open>Reading a block into a slot, and using the slot after other operations ran.\<close>

definition slot_ok :: "nat \<Rightarrow> fsys \<Rightarrow> bool" where
  "slot_ok k s \<longleftrightarrow> (cache_ok (bc s) \<longrightarrow> k < NBUFS \<and> bvalid (bufs (bc s) k))"

lemma bread_coh:
  assumes "bread 0 blk (bc s) = (k, c)"
  shows "coh s (s\<lparr>bc := c\<rparr>)" and "cache_ok (bc s) \<Longrightarrow> slot_ok k (s\<lparr>bc := c\<rparr>)"
  using bread_ok [OF _ assms] bread_valid [OF _ assms] by (auto simp: coh_def slot_ok_def)

lemma slot_later: "slot_ok k s \<Longrightarrow> cache_ok (bc s) \<Longrightarrow> coh s t \<Longrightarrow> slot_ok k t"
  by (auto simp: coh_def slot_ok_def)

lemma slot_release: "slot_ok k s \<Longrightarrow> coh s (s\<lparr>bc := brelse k (bc s)\<rparr>)"
  by (auto simp: coh_def slot_ok_def brelse_coh)

lemma slot_store: "slot_ok k s \<Longrightarrow> coh s (s\<lparr>bc := brelse k (poke k f (bc s))\<rparr>)"
  by (simp add: coh_def slot_ok_def brelse_valid poke_valid brelse_clean poke_ok(1,3))

lemma cohI: "(cache_ok (bc s) \<Longrightarrow> coh s t) \<Longrightarrow> coh s t"
  by (auto simp: coh_def)

lemma write_sb_coh: "coh s (write_sb s)"
  by (simp add: write_sb_def fput_coh)

lemma balloc_coh [coh_intros]: "balloc s = (b, t) \<Longrightarrow> coh s t"
proof -
  obtain d s1 where g: "fget (sb_free_list (sb s)) s = (d, s1)" by (cases "fget (sb_free_list (sb s)) s")
  have "coh s (write_sb (s1\<lparr>sb := x\<rparr>))" for x
  proof (rule coh_trans [OF _ write_sb_coh])
    show "coh s (s1\<lparr>sb := x\<rparr>)" using fget_coh [OF g] by simp
  qed
  then show "balloc s = (b, t) \<Longrightarrow> coh s t" by (auto simp: balloc_def g Let_def split: if_splits)
qed

lemma bfree_coh: "coh s (bfree b s)"
proof -
  let ?s1 = "fput b (\<lambda>_. put16 (\<lambda>_. 0) 0 (sb_free_list (sb s))) s"
  have "coh s (?s1\<lparr>sb := x\<rparr>)" for x using fput_coh by simp
  then show ?thesis unfolding bfree_def Let_def using coh_trans write_sb_coh by blast
qed

lemma ialloc_scan_coh: "ialloc_scan is ty s = (n, t) \<Longrightarrow> coh s t"
proof (induction "is" arbitrary: s)
  case (Cons i "is")
  obtain k c where b: "bread 0 (inode_blk (of_nat i)) (bc s) = (k, c)"
    by (cases "bread 0 (inode_blk (of_nat i)) (bc s)")
  note r = bread_coh [OF b]
  show ?case
  proof (rule cohI)
    assume ok: "cache_ok (bc s)"
    note st = slot_store [OF r(2) [OF ok], THEN coh_trans [OF r(1)]]
      and rl = slot_release [OF r(2) [OF ok], THEN coh_trans [OF r(1)]]
    from Cons.prems st rl show "coh s t"
      by (auto simp: b Let_def split: if_splits intro: coh_trans [OF _ Cons.IH])
  qed
qed simp

lemma ialloc_coh [coh_intros]: "ialloc ty s = (n, t) \<Longrightarrow> coh s t"
  unfolding ialloc_def by (rule ialloc_scan_coh)

lemma fold_coh: "(\<And>x s. coh s (f x s)) \<Longrightarrow> coh s (fold f xs s)"
  by (induction xs arbitrary: s) (auto intro: coh_trans)

lemma fs_iupdate_coh: "coh s (fs_iupdate i s)"
  by (simp add: fs_iupdate_def Let_def fput_coh)

lemma fs_iget_coh [coh_intros]: "fs_iget n s = (i, t) \<Longrightarrow> coh s t"
  by (auto simp: fs_iget_def Let_def split: if_splits option.splits prod.splits dest: fget_coh)

lemma free_direct_coh: "coh s (free_direct i s)"
  unfolding free_direct_def by (rule fold_coh) (simp add: bfree_coh)

lemma free_indirect_coh: "coh s (free_indirect i s)"
proof -
  obtain k c where b: "bread 0 (indirect (icache s i)) (bc s) = (k, c)"
    by (cases "bread 0 (indirect (icache s i)) (bc s)")
  define s1 where "s1 = fold (\<lambda>n s. let p = get16 (bdata (bufs (bc s) k)) (2 * n)
      in if p \<noteq> 0 then bfree p s else s) [0..<PTRS_PER_BLK] (s\<lparr>bc := c\<rparr>)"
  have s1: "coh (s\<lparr>bc := c\<rparr>) s1"
    unfolding s1_def by (rule fold_coh) (simp add: bfree_coh Let_def)
  show ?thesis
  proof (rule cohI)
    assume ok: "cache_ok (bc s)"
    have ok1: "cache_ok (bc (s\<lparr>bc := c\<rparr>))" using bread_ok(2) [OF ok b] by simp
    have sl: "slot_ok k s1" by (rule slot_later [OF bread_coh(2) [OF b ok] ok1 s1])
    have "coh s (s1\<lparr>bc := brelse k (bc s1)\<rparr>)"
      using coh_trans [OF coh_trans [OF bread_coh(1) [OF b] s1] slot_release [OF sl]] .
    then have "coh s (bfree (indirect (icache s1 i)) (s1\<lparr>bc := brelse k (bc s1)\<rparr>))"
      by (rule coh_trans) (rule bfree_coh)
    then show "coh s (free_indirect i s)"
      by (simp add: free_indirect_def b Let_def s1_def [unfolded Let_def, symmetric])
  qed
qed

lemma fs_iput_coh: "coh s (fs_iput i s)"
proof -
  define s1 where "s1 = (if irefcount (icache s i) > 0
    then upd_inode i (\<lambda>ip. ip\<lparr>irefcount := irefcount ip - 1\<rparr>) s else s)"
  define s2 where "s2 = (if irefcount (icache s1 i) = 0 \<and> idirty (icache s1 i) then fs_iupdate i s1 else s1)"
  have c2: "coh s s2" by (simp add: s2_def s1_def fs_iupdate_coh coh_trans [OF _ fs_iupdate_coh])
  have "coh s2 (free_indirect i (free_direct i s2))"
    by (rule coh_trans [OF free_direct_coh free_indirect_coh])
  then have "coh s (upd_inode i f (free_indirect i (free_direct i s2)))" for f
    using coh_trans [OF c2] by simp
  then have "coh s (fs_iupdate i (upd_inode i f (free_indirect i (free_direct i s2))))" for f
    by (rule coh_trans) (rule fs_iupdate_coh)
  with c2 show ?thesis
    unfolding fs_iput_def Let_def s1_def [symmetric] s2_def [symmetric] by simp
qed

lemma iput_opt_coh: "coh s (iput_opt ip s)"
  by (simp add: iput_opt_def fs_iput_coh split: option.split)

lemma need_indirect_coh: "need_indirect i al s = (ok, t) \<Longrightarrow> coh s t"
  by (auto simp: need_indirect_def split: if_splits prod.splits dest!: balloc_coh
      intro!: coh_fput)

lemma indirect_entry_coh: "indirect_entry ind p al s = (blk, t) \<Longrightarrow> coh s t"
proof (rule cohI)
  assume r: "indirect_entry ind p al s = (blk, t)" and ok: "cache_ok (bc s)"
  obtain k c where b: "bread 0 ind (bc s) = (k, c)" by (cases "bread 0 ind (bc s)")
  define s1 where "s1 = s\<lparr>bc := c\<rparr>"
  have s1: "coh s s1" "slot_ok k s1" using bread_coh [OF b] ok by (simp_all add: s1_def)
  have ok1: "cache_ok (bc s1)" using s1(1) ok by (simp add: coh_def)
  show "coh s t"
  proof (cases "get16 (bdata (bufs c k)) p = 0 \<and> al")
    case True
    obtain nb s2 where n: "balloc s1 = (nb, s2)" by (cases "balloc s1")
    have "slot_ok k s2" by (rule slot_later [OF s1(2) ok1 balloc_coh [OF n]])
    then have "coh s2 (s2\<lparr>bc := brelse k (poke k (\<lambda>b. put16 b p nb) (bc s2))\<rparr>)" by (rule slot_store)
    with coh_trans [OF s1(1) balloc_coh [OF n]] r True n show ?thesis
      by (auto simp: indirect_entry_def b s1_def [symmetric] Let_def intro: coh_trans)
  next
    case False
    with r s1 slot_release [OF s1(2)] show ?thesis
      by (auto simp: indirect_entry_def b s1_def [symmetric] Let_def intro: coh_trans)
  qed
qed

lemma bmap_coh [coh_intros]: "bmap i off al s = (blk, t) \<Longrightarrow> coh s t"
  unfolding bmap_def Let_def
  by (auto split: if_splits prod.splits dest: need_indirect_coh indirect_entry_coh balloc_coh
      intro: coh_trans)

lemma fs_read_loop_coh: "fs_read_loop i off n dst s = (bs, t) \<Longrightarrow> coh s t"
proof (induction i off n dst s rule: fs_read_loop.induct)
  case (1 i off n dst s)
  obtain blk s1 where b: "bmap i off False s = (blk, s1)" by (cases "bmap i off False s")
  obtain d s2 where g: "fget blk s1 = (d, s2)" by (cases "fget blk s1")
  have c: "coh s s1" "coh s s2" using bmap_coh [OF b] fget_coh [OF g] by (blast intro: coh_trans)+
  from "1.prems" c(1) show ?case
    by (subst (asm) fs_read_loop.simps)
       (auto simp: b g Let_def split: if_splits dest!: "1.IH" [OF _ b [symmetric] _ g [symmetric] refl refl, rotated -1]
          intro: coh_trans [OF c(2)])
qed

lemma fs_read_coh [coh_intros]: "fs_read i off n s = (bs, t) \<Longrightarrow> coh s t"
  by (auto simp: fs_read_def Let_def split: if_splits dest: fs_read_loop_coh)

lemma fs_write_loop_coh: "fs_write_loop i src off n tot s = (x, o1, k, t) \<Longrightarrow> coh s t"
proof (induction i src off n tot s rule: fs_write_loop.induct)
  case (1 i src off n tot s)
  obtain blk s1 where b: "bmap i off True s = (blk, s1)" by (cases "bmap i off True s")
  have c: "coh s s1" "\<And>f. coh s (fput blk f s1)" using bmap_coh [OF b] by (auto intro: coh_fput)
  from "1.prems" c(1) show ?case
    by (subst (asm) fs_write_loop.simps)
       (auto simp: b Let_def split: if_splits dest!: "1.IH" [OF _ b [symmetric] _ refl refl, rotated -1]
          intro: coh_trans [OF c(2)])
qed

lemma fs_write_coh [coh_intros]: "fs_write i src off n s = (r, t) \<Longrightarrow> coh s t"
  by (auto simp: fs_write_def Let_def split: if_splits prod.splits dest!: fs_write_loop_coh
      intro: coh_trans [OF _ fs_iupdate_coh])

lemma dir_scan_coh: "dir_scan P dp off s = (e, t) \<Longrightarrow> coh s t"
proof (induction P dp off s rule: dir_scan.induct)
  case (1 P dp off s)
  obtain bs s1 where b: "fs_read dp off 32 s = (bs, s1)" by (cases "fs_read dp off 32 s")
  from "1.prems" show ?case
    by (subst (asm) dir_scan.simps)
       (auto simp: b split: if_splits dest!: "1.IH" [OF _ b [symmetric], rotated -1]
          intro: coh_trans [OF fs_read_coh [OF b]] fs_read_coh [OF b])
qed

lemma dir_count_coh: "dir_count P dp off k s = (e, t) \<Longrightarrow> coh s t"
proof (induction P dp off k s rule: dir_count.induct)
  case (1 P dp off k s)
  obtain bs s1 where b: "fs_read dp off 32 s = (bs, s1)" by (cases "fs_read dp off 32 s")
  note IH = "1.IH" [OF _ b [symmetric]] and r = coh_trans [OF fs_read_coh [OF b]] fs_read_coh [OF b]
  from "1.prems" show ?case
    by (cases "P (dirent_of bs)"; subst (asm) dir_count.simps) (auto simp: b r IH split: if_splits)
qed

lemma dir_lookup_coh [coh_intros]: "dir_lookup dp name s = (i, t) \<Longrightarrow> coh s t"
  by (auto simp: dir_lookup_def split: if_splits option.splits prod.splits
      dest!: dir_scan_coh fs_iget_coh intro: coh_trans)

lemma dir_link_coh [coh_intros]: "dir_link dp name n s = (i, t) \<Longrightarrow> coh s t"
  by (auto simp: dir_link_def Let_def split: if_splits option.splits prod.splits
      dest!: dir_scan_coh dir_lookup_coh fs_write_coh intro: coh_trans [OF _ fs_iput_coh] coh_trans)

lemma dir_unlink_coh [coh_intros]: "dir_unlink dp name s = (i, t) \<Longrightarrow> coh s t"
  by (auto simp: dir_unlink_def split: option.splits prod.splits
      dest!: dir_scan_coh fs_write_coh intro: coh_trans)

lemma coh_iput: "coh s t \<Longrightarrow> coh s (fs_iput i t)" "coh s t \<Longrightarrow> coh s (iput_opt ip t)"
  by (blast intro: coh_trans fs_iput_coh iput_opt_coh)+

lemma namei_walk_coh: "namei_walk path ip s = (i, t) \<Longrightarrow> coh s t"
proof (induction path ip s rule: namei_walk.induct)
  case (1 path ip s)
  obtain nx s1 where l: "dir_lookup ip (takeWhile (\<lambda>c. c \<noteq> SLASH) (dropWhile (\<lambda>c. c = SLASH) path)) s = (nx, s1)"
    by fastforce
  have c: "coh s (fs_iput ip s1)" using dir_lookup_coh [OF l] by (rule coh_iput)
  from "1.prems" c show ?case
    by (subst (asm) namei_walk.simps)
       (auto simp: l fs_iput_coh Let_def simp del: dropWhile_eq_Nil_conv split: if_splits option.splits
          dest!: "1.IH" [OF refl _ _ l [symmetric], rotated -1] intro: coh_trans [OF c])
qed

lemma fs_namei_coh [coh_intros]: "fs_namei cwd path s = (i, t) \<Longrightarrow> coh s t"
  by (auto simp: fs_namei_def split: if_splits option.splits prod.splits
      dest!: fs_iget_coh namei_walk_coh intro: coh_trans)

lemma fs_namei_parent_coh [coh_intros]: "fs_namei_parent cwd path s = (r, t) \<Longrightarrow> coh s t"
  by (auto simp: fs_namei_parent_def Let_def split: if_splits option.splits prod.splits
      dest!: fs_iget_coh fs_namei_coh intro!: coh_iput)

lemma fs_create_coh [coh_intros]: "fs_create cwd path ty s = (r, t) \<Longrightarrow> coh s t"
  by (auto simp: fs_create_def split: if_splits option.splits prod.splits
      dest!: fs_namei_parent_coh dir_lookup_coh ialloc_coh fs_iget_coh dir_link_coh
      intro!: coh_iput) (meson coh_trans)+

lemma fs_unlink_coh [coh_intros]: "fs_unlink cwd path s = (r, t) \<Longrightarrow> coh s t"
  by (auto simp: fs_unlink_def split: if_splits option.splits prod.splits
      dest!: fs_namei_parent_coh dir_lookup_coh dir_unlink_coh intro!: coh_iput)
     (meson coh_trans)+

lemma fs_rename_coh [coh_intros]: "fs_rename cwd old new s = (r, t) \<Longrightarrow> coh s t"
  by (auto simp: fs_rename_def split: if_splits option.splits prod.splits
      dest!: fs_namei_coh fs_namei_parent_coh dir_link_coh dir_unlink_coh intro!: coh_iput)
     (meson coh_trans)+

lemma fs_mkdir_coh [coh_intros]: "fs_mkdir cwd path s = (r, t) \<Longrightarrow> coh s t"
  by (auto simp: fs_mkdir_def Let_def split: if_splits option.splits prod.splits
      dest!: fs_create_coh fs_namei_parent_coh dir_link_coh intro!: coh_iput)
     (meson coh_trans coh_iput)+

lemma fs_rmdir_coh [coh_intros]: "fs_rmdir cwd path s = (r, t) \<Longrightarrow> coh s t"
  by (auto simp: fs_rmdir_def Let_def split: if_splits option.splits prod.splits
      dest!: fs_namei_coh fs_unlink_coh dir_count_coh intro!: coh_iput)
     (meson coh_trans coh_iput)+

lemma fs_getdents_coh [coh_intros]: "fs_getdents i off n s = (r, t) \<Longrightarrow> coh s t"
  by (auto simp: fs_getdents_def split: if_splits prod.splits dest: fs_read_coh)

text \<open>The calls other parts of the kernel make.\<close>

datatype fs_call =
  Namei "u16 option" bytes
| Iget u16
| Iput nat
| Read nat nat nat
| Write nat "nat \<Rightarrow> u8" nat nat
| Create "u16 option" bytes u8
| Unlink "u16 option" bytes
| Rename "u16 option" bytes bytes
| Mkdir "u16 option" bytes
| Rmdir "u16 option" bytes
| Getdents nat nat nat

primrec fs_do :: "fs_call \<Rightarrow> fsys \<Rightarrow> fsys" where
  "fs_do (Namei cwd p) s = snd (fs_namei cwd p s)"
| "fs_do (Iget n) s = snd (fs_iget n s)"
| "fs_do (Iput i) s = fs_iput i s"
| "fs_do (Read i off n) s = snd (fs_read i off n s)"
| "fs_do (Write i src off n) s = snd (fs_write i src off n s)"
| "fs_do (Create cwd p ty) s = snd (fs_create cwd p ty s)"
| "fs_do (Unlink cwd p) s = snd (fs_unlink cwd p s)"
| "fs_do (Rename cwd p q) s = snd (fs_rename cwd p q s)"
| "fs_do (Mkdir cwd p) s = snd (fs_mkdir cwd p s)"
| "fs_do (Rmdir cwd p) s = snd (fs_rmdir cwd p s)"
| "fs_do (Getdents i off n) s = snd (fs_getdents i off n s)"

lemma fs_do_coh: "coh s (fs_do c s)"
  by (cases c) (auto intro: coh_intros [OF prod.collapse [symmetric]] fs_iput_coh)

lemma fs_run_coh: "coh s (fold fs_do cs s)"
  by (rule fold_coh) (rule fs_do_coh)

section \<open>Losing the cache loses nothing\<close>

lemma buf_init_ok: "on_workbench (disk c) \<Longrightarrow> cache_ok (buf_init c)"
  by (simp add: cache_ok_def buf_init_def)

lemma buf_init_view: "view (buf_init c) = view c"
  by (simp add: view_def buf_init_def fun_eq_iff)

lemma fget_view: "cache_ok (bc s) \<Longrightarrow> fst (fget blk s) = view (bc s) blk"
  by (simp add: fget_def bc.fetch_data split: prod.split) (metis bc.fetch_data fst_conv)

text \<open>
  C3. On the workbench disk: after any sequence of file system calls from a coherent cache,
  successful or not, the cache is still coherent, and a restart that empties it (as \<open>buf_init\<close>
  does at boot) reads every block exactly as the running system did. On the Mega Drive nothing
  written is durable, since the file system is in ROM.
\<close>

theorem fs_calls_durable:
  "on_workbench (disk (bc s)) \<Longrightarrow> cache_ok (bc s) \<Longrightarrow> cache_ok (bc (fold fs_do cs s)) \<and>
     fst (fget blk ((fold fs_do cs s)\<lparr>bc := buf_init (bc (fold fs_do cs s))\<rparr>)) = fst (fget blk (fold fs_do cs s))"
proof -
  assume "cache_ok (bc s)"
  then have ok: "cache_ok (bc (fold fs_do cs s))" using fs_run_coh [of s cs] by (simp add: coh_def)
  then have "on_workbench (disk (bc (fold fs_do cs s)))" by (simp add: cache_ok_def)
  with ok show ?thesis by (simp add: fget_view buf_init_ok buf_init_view)
qed

text \<open>A small formatted disk: 21 inodes, the root directory empty, blocks 2 to 7 free.\<close>

definition tiny_image :: "u32 \<Rightarrow> block" where
  "tiny_image b =
     (if b = 0 then put_sb \<lparr>sb_magic = MINIFS_MAGIC, sb_block_size = 1024, sb_nblocks = 8,
        sb_ninodes = 21, sb_free_list = 2, sb_free_inodes = 20, sb_pad = 0, sb_mtime = 0\<rparr> (\<lambda>_. 0)
      else if b = 1 then put_dinode \<lparr>d_type = FT_DIR, d_nlink = 2, d_major = 0, d_minor = 0,
        d_size = 0, d_mtime = 0, d_direct = (\<lambda>_. 0), d_indirect = 0\<rparr> 0 (\<lambda>_. 0)
      else if b < 7 then put16 (\<lambda>_. 0) 0 (ucast b + 1) else (\<lambda>_. 0))"

definition blank_cache :: "disk \<Rightarrow> cache" where
  "blank_cache d = buf_init \<lparr>bufs = (\<lambda>_. \<lparr>blockno = 0, bdev = 0, bdirty = False, bvalid = False,
     bdata = (\<lambda>_. 0)\<rparr>), disk = d\<rparr>"

definition booted :: "disk \<Rightarrow> fsys" where
  "booted d = fs_init \<lparr>sb = get_sb (\<lambda>_. 0), icache = (\<lambda>_. \<lparr>inum = 0, itype = 0, nlink = 0, dev_major = 0,
     dev_minor = 0, isize = 0, imtime = 0, direct = (\<lambda>_. 0), indirect = 0, irefcount = 0, idirty = False\<rparr>),
     fs_ready = False, bc = blank_cache d, ticks = 0\<rparr>"

lemma fs_init_coh: "coh s (fs_init s)"
  by (auto simp: fs_init_def Let_def coh_def split: prod.splits dest!: fget_coh)

lemma booted_ok: "cache_ok (bc (booted (Workbench img)))"
proof -
  have "cache_ok (blank_cache (Workbench img))"
    unfolding blank_cache_def by (rule buf_init_ok) (simp add: on_workbench_def)
  then show ?thesis unfolding booted_def using fs_init_coh by (simp add: coh_def)
qed

theorem fs_calls_durable_witness:
  "cache_ok (bc (fold fs_do [Create None [47, 97] 1, Unlink None [47, 97]] (booted (Workbench tiny_image)))) \<and>
     fst (fget 1 ((fold fs_do [Create None [47, 97] 1, Unlink None [47, 97]] (booted (Workbench tiny_image)))
       \<lparr>bc := buf_init (bc (fold fs_do [Create None [47, 97] 1, Unlink None [47, 97]] (booted (Workbench tiny_image))))\<rparr>)) =
     fst (fget 1 (fold fs_do [Create None [47, 97] 1, Unlink None [47, 97]] (booted (Workbench tiny_image))))"
proof (rule fs_calls_durable)
  show ok: "cache_ok (bc (booted (Workbench tiny_image)))" by (rule booted_ok)
  then show "on_workbench (disk (bc (booted (Workbench tiny_image))))" by (simp add: cache_ok_def)
qed

end
