(* ===== verification/Fs_Layout.thy ===== *)
theory Fs_Layout
  imports Fs_Coherence "HOL-Library.Multiset"
begin

text \<open>
  What kernel/fs.c keeps on the disk: the byte layout of the superblock and of the inodes,
  inodes that survive a restart, and the chain of free blocks.
\<close>

section \<open>The on-disk layout\<close>

lemma get_put_sb: "get_sb (put_sb s b) = s"
  by (simp add: get_sb_def put_sb_def get32_def put32_def get16_put16_other_nat join32)

lemma fold_put16_other:
  "(\<And>i. i \<in> set is \<Longrightarrow> a < base + 2 * i \<or> base + 2 * i + 2 \<le> a) \<Longrightarrow>
     fold (\<lambda>i b. put16 b (base + 2 * i) (d i)) is b a = b (a :: nat)"
proof (induction "is" arbitrary: b)
  case (Cons i "is")
  have "put16 b (base + 2 * i) (d i) a = b a" using Cons.prems [of i] by (auto intro!: put16_other)
  with Cons show ?case by simp
qed simp

lemma fold_put16_get:
  "distinct is \<Longrightarrow> i \<in> set is \<Longrightarrow>
     get16 (fold (\<lambda>i b. put16 b (base + 2 * i) (d i)) is b) (base + 2 * i) = d (i :: nat)"
proof (induction "is" arbitrary: b)
  case (Cons j "is")
  show ?case
  proof (cases "i = j")
    case True
    with Cons.prems have "i \<notin> set is" by simp
    have "fold (\<lambda>i b. put16 b (base + 2 * i) (d i)) is b' a = b' a"
      if "a = base + 2 * i \<or> a = base + 2 * i + 1" for a b'
    proof (rule fold_put16_other)
      fix j assume "j \<in> set is"
      with \<open>i \<notin> set is\<close> have "j < i \<or> i < j" by (metis nat_neq_iff)
      with that show "a < base + 2 * j \<or> base + 2 * j + 2 \<le> a" by auto
    qed
    then have "get16 (fold (\<lambda>i b. put16 b (base + 2 * i) (d i)) is (put16 b (base + 2 * i) (d i))) (base + 2 * i) =
        get16 (put16 b (base + 2 * i) (d i)) (base + 2 * i)"
      by (intro get16_cong) auto
    then show ?thesis using True by simp
  next
    case False
    with Cons show ?thesis by simp
  qed
qed simp

text \<open>What an inode slot at byte \<open>off\<close> holds after a write of this slot or of another one.\<close>

definition same_dinode :: "disk_inode \<Rightarrow> disk_inode \<Rightarrow> bool" where
  "same_dinode x y \<longleftrightarrow> d_type x = d_type y \<and> d_nlink x = d_nlink y \<and> d_major x = d_major y \<and>
     d_minor x = d_minor y \<and> d_size x = d_size y \<and> d_mtime x = d_mtime y \<and>
     d_indirect x = d_indirect y \<and> (\<forall>n < 12. d_direct x n = d_direct y n)"

lemma put_direct_other: "a < off + 12 \<or> off + 36 \<le> a \<Longrightarrow> put_direct d off b a = b a"
  unfolding put_direct_def by (rule fold_put16_other) auto

lemma put_dinode_other: "a < off \<or> off + 48 \<le> a \<Longrightarrow> put_dinode di off b a = b a"
  by (auto simp: put_dinode_def put16_other put_direct_other put32_other_nat)

lemma get_dinode_cong: "(\<And>a. off \<le> a \<Longrightarrow> a < off + 48 \<Longrightarrow> b a = b' a) \<Longrightarrow>
    same_dinode (get_dinode b off) (get_dinode b' off)"
  by (simp add: same_dinode_def get_dinode_def get16_def get32_def)

lemma get_put_dinode_other:
  "off' + 48 \<le> off \<or> off + 48 \<le> off' \<Longrightarrow>
     same_dinode (get_dinode (put_dinode di off b) off') (get_dinode b off')"
  by (rule get_dinode_cong) (auto intro!: put_dinode_other)

lemma get32_put16_other_nat: "a + 2 \<le> c \<or> c + 4 \<le> a \<Longrightarrow> get32 (put16 b a v) (c :: nat) = get32 b c"
  by (auto simp: get32_def get16_put16_other_nat)

lemma get32_put32_other_nat: "a + 4 \<le> c \<or> c + 4 \<le> a \<Longrightarrow> get32 (put32 b a v) (c :: nat) = get32 b c"
  by (auto simp: put32_def get32_put16_other_nat)

lemma get32_put_direct: "c + 4 \<le> off + 12 \<Longrightarrow> get32 (put_direct d off b) c = get32 b c"
  by (simp add: get32_def get16_def put_direct_other)

lemma get16_put_direct: "n < 12 \<Longrightarrow> get16 (put_direct d off b) (off + 12 + 2 * n) = d n"
  unfolding put_direct_def by (rule fold_put16_get) auto

lemma get_put_dinode: "same_dinode (get_dinode (put_dinode di off b) off) di"
  by (simp add: same_dinode_def get_dinode_def put_dinode_def put16_other put_direct_other
      put32_other_nat get32_put16_other_nat get32_put_direct get32_put32_other_nat
      get16_put16_other_nat get16_put_direct)

lemma same_dinode_trans: "same_dinode x y \<Longrightarrow> same_dinode y z \<Longrightarrow> same_dinode x z"
  by (simp add: same_dinode_def)

lemma same_dinode_refl [simp]: "same_dinode x x"
  by (simp add: same_dinode_def)

section \<open>Inodes persist\<close>

definition dinode_at :: "(u16 \<Rightarrow> block) \<Rightarrow> u16 \<Rightarrow> disk_inode" where
  "dinode_at v n = get_dinode (v (inode_blk n)) (inode_off n)"

lemma fget_contents: "cache_ok (bc s) \<Longrightarrow> fget b s = (d, t) \<Longrightarrow>
    d = view (bc s) b \<and> cache_ok (bc t) \<and> view (bc t) = view (bc s) \<and> sb t = sb s \<and>
    icache t = icache s \<and> fs_ready t = fs_ready s \<and> ticks t = ticks s"
  using bget_ok [of "bc s" b] by (auto simp: fget_def split: prod.splits)

lemma fput_contents: "cache_ok (bc s) \<Longrightarrow> cache_ok (bc (fput b f s)) \<and>
    view (bc (fput b f s)) = (view (bc s))(b := f (view (bc s) b))"
  by (simp add: fput_def bput_ok)

lemma fput_sel [simp]: "sb (fput b f s) = sb s" "icache (fput b f s) = icache s"
  "fs_ready (fput b f s) = fs_ready s" "ticks (fput b f s) = ticks s"
  by (simp_all add: fput_def)

lemma inode_blk_nat: "unat (inode_blk n) = 1 + (unat n - 1) div 21"
proof -
  have "1 + (unat n - 1) div 21 < 65536" using u16_bound [of n] by linarith
  then show ?thesis unfolding inode_blk_def unat_of_nat by simp
qed

lemma inode_place:
  assumes "n \<noteq> m" and "n \<noteq> 0" and "m \<noteq> 0" and "inode_blk n = inode_blk m"
  shows "inode_off n + 48 \<le> inode_off m \<or> inode_off m + 48 \<le> inode_off n"
proof -
  let ?a = "unat n - 1" and ?b = "unat m - 1"
  have "?a div 21 = ?b div 21" using inode_blk_nat [of n] inode_blk_nat [of m] assms(4) by simp
  moreover have "?a \<noteq> ?b"
  proof
    assume "?a = ?b"
    moreover have "unat n \<noteq> 0" "unat m \<noteq> 0" using assms(2,3) by (simp_all add: unat_eq_0)
    ultimately have "unat n = unat m" by linarith
    with assms(1) show False by (simp add: word_unat_eq_iff)
  qed
  ultimately have "?a mod 21 \<noteq> ?b mod 21" by (metis div_mult_mod_eq)
  then show ?thesis by (simp add: inode_off_def) linarith
qed

lemma iupdate_dinodes:
  assumes "cache_ok (bc s)" and "fs_ready s" and "inum (icache s i) \<noteq> 0"
  shows "same_dinode (dinode_at (view (bc (fs_iupdate i s))) (inum (icache s i))) (inode_image (icache s i))"
    and "m \<noteq> 0 \<Longrightarrow> m \<noteq> inum (icache s i) \<Longrightarrow>
      same_dinode (dinode_at (view (bc (fs_iupdate i s))) m) (dinode_at (view (bc s)) m)"
proof -
  let ?n = "inum (icache s i)"
  have v: "view (bc (fs_iupdate i s)) = (view (bc s))(inode_blk ?n :=
      put_dinode (inode_image (icache s i)) (inode_off ?n) (view (bc s) (inode_blk ?n)))"
    using assms fput_contents by (simp add: fs_iupdate_def Let_def)
  show "same_dinode (dinode_at (view (bc (fs_iupdate i s))) ?n) (inode_image (icache s i))"
    by (simp add: dinode_at_def v get_put_dinode)
  show "m \<noteq> 0 \<Longrightarrow> m \<noteq> ?n \<Longrightarrow>
      same_dinode (dinode_at (view (bc (fs_iupdate i s))) m) (dinode_at (view (bc s)) m)"
    using inode_place [of m ?n] assms(3) by (auto simp: dinode_at_def v intro!: get_put_dinode_other)
qed


definition cached :: "u16 \<Rightarrow> fsys \<Rightarrow> bool" where
  "cached n s \<longleftrightarrow> (\<exists>i < MAXINODE. irefcount (icache s i) > 0 \<and> inum (icache s i) = n)"

lemma iget_miss:
  assumes "cache_ok (bc s)" and "fs_ready s" and "n \<noteq> 0" and "n \<le> sb_ninodes (sb s)"
    and "\<not> cached n s" and "j < MAXINODE" and "irefcount (icache s j) = 0"
  obtains i t where "fs_iget n s = (Some i, t)" and "i < MAXINODE" and "irefcount (icache s i) = 0"
    and "inode_image (icache t i) = dinode_at (view (bc s)) n" and "inum (icache t i) = n"
    and "irefcount (icache t i) = 1" and "\<not> idirty (icache t i)"
    and "view (bc t) = view (bc s)" and "\<And>k. k \<noteq> i \<Longrightarrow> icache t k = icache s k" and "cache_ok (bc t)"
proof -
  have m: "first_idx (\<lambda>i. irefcount (icache s i) > 0 \<and> inum (icache s i) = n) MAXINODE = None"
    using assms(5) by (auto simp: first_idx_None_iff cached_def)
  obtain i where i: "first_idx (\<lambda>i. irefcount (icache s i) = 0) MAXINODE = Some i"
    using first_idx_exists [OF assms(6), where P = "\<lambda>i. irefcount (icache s i) = 0"] assms(7) by auto
  obtain d s1 where g: "fget (inode_blk n) s = (d, s1)" by (cases "fget (inode_blk n) s")
  note c = fget_contents [OF assms(1) g]
  have ini: "fs_ready s \<and> n \<noteq> 0 \<and> \<not> n > sb_ninodes (sb s)" using assms(2-4) by auto
  define t where "t = snd (fs_iget n s)"
  have r: "fs_iget n s = (Some i, t)"
    unfolding t_def fs_iget_def m by (simp add: i g ini Let_def)
  have t: "t = upd_inode i (\<lambda>_. let di = get_dinode d (inode_off n) in
      \<lparr>inum = n, itype = d_type di, nlink = d_nlink di, dev_major = d_major di, dev_minor = d_minor di,
       isize = d_size di, imtime = d_mtime di, direct = d_direct di, indirect = d_indirect di,
       irefcount = 1, idirty = False\<rparr>) s1"
    unfolding t_def fs_iget_def m by (simp add: i g ini Let_def)
  show thesis
  proof (rule that [OF r])
    show "inode_image (icache t i) = dinode_at (view (bc s)) n"
      using c by (simp add: t Let_def inode_image_def dinode_at_def get_dinode_def)
  qed (use c first_idx_SomeD(1,2) [OF i] in \<open>simp_all add: t Let_def\<close>)
qed

text \<open>A restart: the block cache is emptied and no inode is in memory.\<close>

definition restarted :: "fsys \<Rightarrow> fsys" where
  "restarted s = s\<lparr>bc := buf_init (bc s), icache := (\<lambda>i. (icache s i)\<lparr>inum := 0, irefcount := 0\<rparr>)\<rparr>"

lemma restarted_sel [simp]: "sb (restarted s) = sb s" "fs_ready (restarted s) = fs_ready s"
  "view (bc (restarted s)) = view (bc s)" "\<not> cached n (restarted s)"
  "irefcount (icache (restarted s) i) = 0"
  by (simp_all add: restarted_def buf_init_view cached_def)

lemma restarted_ok: "cache_ok (bc s) \<Longrightarrow> cache_ok (bc (restarted s))"
  by (simp add: restarted_def buf_init_ok cache_ok_def [of "bc s"])

lemma iupdate_sel [simp]: "sb (fs_iupdate i s) = sb s" "fs_ready (fs_iupdate i s) = fs_ready s"
  by (simp_all add: fs_iupdate_def Let_def)

text \<open>
  C7. An inode written back by \<open>fs_iupdate\<close> to the workbench disk survives a restart: the next \<open>fs_iget\<close> of its number
  finds every field as it was in memory (type, link count, device numbers, size, time, the
  twelve direct pointers and the indirect pointer), and the image of every other inode on the
  disk, in the same block or elsewhere, is what it was before the write.
\<close>

theorem inode_persists:
  assumes "cache_ok (bc s)" and "fs_ready s" and "inum (icache s i) \<noteq> 0"
    and "inum (icache s i) \<le> sb_ninodes (sb s)"
  shows "\<exists>j u. fs_iget (inum (icache s i)) (restarted (fs_iupdate i s)) = (Some j, u) \<and>
      same_dinode (inode_image (icache u j)) (inode_image (icache s i)) \<and>
      (\<forall>m. m \<noteq> 0 \<longrightarrow> m \<noteq> inum (icache s i) \<longrightarrow>
         same_dinode (dinode_at (view (bc u)) m) (dinode_at (view (bc s)) m))"
proof -
  let ?t = "restarted (fs_iupdate i s)"
  have ok: "cache_ok (bc (fs_iupdate i s))" using fs_iupdate_coh [of s i] assms(1) by (simp add: coh_def)
  obtain j u where "fs_iget (inum (icache s i)) ?t = (Some j, u)"
    "inode_image (icache u j) = dinode_at (view (bc ?t)) (inum (icache s i))" "view (bc u) = view (bc ?t)"
    by (rule iget_miss [of ?t "inum (icache s i)" 0]) (use restarted_ok [OF ok] assms(2-4) in simp_all)
  with iupdate_dinodes [OF assms(1-3)] show ?thesis by auto
qed

theorem inode_persists_witness:
  "\<exists>j u. fs_iget 1 (restarted (fs_iupdate 0 (snd (fs_iget 1 (booted (Workbench tiny_image)))))) = (Some j, u) \<and>
      same_dinode (inode_image (icache u j)) (inode_image (icache (snd (fs_iget 1 (booted (Workbench tiny_image)))) 0)) \<and>
      (\<forall>m. m \<noteq> 0 \<longrightarrow> m \<noteq> 1 \<longrightarrow> same_dinode (dinode_at (view (bc u)) m)
         (dinode_at (view (bc (snd (fs_iget 1 (booted (Workbench tiny_image)))))) m))"
proof -
  have i: "inum (icache (snd (fs_iget 1 (booted (Workbench tiny_image)))) 0) = 1 \<and>
      1 \<le> sb_ninodes (sb (snd (fs_iget 1 (booted (Workbench tiny_image))))) \<and>
      fs_ready (snd (fs_iget 1 (booted (Workbench tiny_image))))" by code_simp
  have "cache_ok (bc (snd (fs_iget 1 (booted (Workbench tiny_image)))))"
    using fs_iget_coh [OF prod.collapse [symmetric]] booted_ok by (simp add: coh_def)
  from inode_persists [of _ 0, OF this] i show ?thesis by simp
qed

section \<open>The free list\<close>

text \<open>
  The free blocks form a chain: the superblock names the first, the first two bytes of each
  name the next, 0 ends it. \<open>free_blocks s bs\<close> says that \<open>bs\<close> is that chain.
\<close>

primrec free_chain :: "(u16 \<Rightarrow> block) \<Rightarrow> u16 \<Rightarrow> u16 list \<Rightarrow> bool" where
  "free_chain v h [] \<longleftrightarrow> h = 0"
| "free_chain v h (b # bs) \<longleftrightarrow> h = b \<and> b \<noteq> 0 \<and> free_chain v (get16 (v b) 0) bs"

definition free_blocks :: "fsys \<Rightarrow> u16 list \<Rightarrow> bool" where
  "free_blocks s bs \<longleftrightarrow> cache_ok (bc s) \<and> distinct bs \<and> free_chain (view (bc s)) (sb_free_list (sb s)) bs"

lemma free_chain_nonzero: "free_chain v h bs \<Longrightarrow> 0 \<notin> set bs"
  by (induction bs arbitrary: h) auto

lemma free_chain_upd: "b \<notin> set bs \<Longrightarrow> free_chain (v(b := x)) h bs = free_chain v h bs"
  by (induction bs arbitrary: h) auto

lemma free_chain_head: "free_chain v h bs \<Longrightarrow> h = (case bs of [] \<Rightarrow> 0 | b # _ \<Rightarrow> b)"
  by (cases bs) auto

lemma write_sb_contents:
  "cache_ok (bc s) \<Longrightarrow> cache_ok (bc (write_sb s)) \<and> view (bc (write_sb s)) = (view (bc s))(0 := put_sb (sb s) (view (bc s) 0))"
  by (simp add: write_sb_def fput_contents)

lemma write_sb_sel [simp]: "sb (write_sb s) = sb s" "icache (write_sb s) = icache s"
  "fs_ready (write_sb s) = fs_ready s" "ticks (write_sb s) = ticks s"
  by (simp_all add: write_sb_def)

lemma balloc_cons:
  assumes "free_blocks s (b # bs)"
  obtains t where "balloc s = (b, t)" and "free_blocks t bs" and "icache t = icache s"
    and "view (bc t) = (view (bc s))(0 := put_sb (sb t) (view (bc s) 0))" and "fs_ready t = fs_ready s"
    and "ticks t = ticks s" and "sb t = (sb s)\<lparr>sb_free_list := sb_free_list (sb t)\<rparr>"
proof -
  have ok: "cache_ok (bc s)" and h: "sb_free_list (sb s) = b" "b \<noteq> 0" and d: "distinct bs"
    and ch: "free_chain (view (bc s)) (get16 (view (bc s) b) 0) bs"
    using assms by (auto simp: free_blocks_def)
  obtain x s1 where g: "fget b s = (x, s1)" by (cases "fget b s")
  note c = fget_contents [OF ok g]
  define s2 where "s2 = s1\<lparr>sb := (sb s1)\<lparr>sb_free_list := get16 x 0\<rparr>\<rparr>"
  have s2: "sb s2 = (sb s)\<lparr>sb_free_list := get16 (view (bc s) b) 0\<rparr>" "bc s2 = bc s1"
    "icache s2 = icache s" "fs_ready s2 = fs_ready s" "ticks s2 = ticks s"
    using c by (simp_all add: s2_def)
  have w: "cache_ok (bc (write_sb s2)) \<and> view (bc (write_sb s2)) = (view (bc s))(0 := put_sb (sb s2) (view (bc s) 0))"
    using write_sb_contents [of s2] c s2(2) by simp
  have r: "balloc s = (b, write_sb s2)" by (simp add: balloc_def h g Let_def s2_def)
  have "free_blocks (write_sb s2) bs"
    using w ch d free_chain_upd [OF free_chain_nonzero [OF ch]] by (simp add: free_blocks_def s2)
  with r w s2 show thesis by (intro that [of "write_sb s2"]) auto
qed

lemma balloc_nil: "free_blocks s [] \<Longrightarrow> balloc s = (0, s)"
  by (simp add: free_blocks_def balloc_def)

lemma bfree_cons:
  assumes "free_blocks s bs" and "b \<noteq> 0" and "b \<notin> set bs"
  shows "free_blocks (bfree b s) (b # bs)"
    and "x \<noteq> 0 \<Longrightarrow> x \<noteq> b \<Longrightarrow> view (bc (bfree b s)) x = view (bc s) x"
proof -
  have ok: "cache_ok (bc s)" and d: "distinct bs" and ch: "free_chain (view (bc s)) (sb_free_list (sb s)) bs"
    using assms by (auto simp: free_blocks_def)
  define s1 where "s1 = fput b (\<lambda>_. put16 (\<lambda>_. 0) 0 (sb_free_list (sb s))) s"
  define s2 where "s2 = s1\<lparr>sb := (sb s1)\<lparr>sb_free_list := b\<rparr>\<rparr>"
  have r: "bfree b s = write_sb s2" by (simp add: bfree_def s1_def s2_def Let_def)
  have s2: "bc s2 = bc s1" "sb s2 = (sb s)\<lparr>sb_free_list := b\<rparr>" by (simp_all add: s2_def s1_def)
  have v1: "view (bc s1) = (view (bc s))(b := put16 (\<lambda>_. 0) 0 (sb_free_list (sb s)))" "cache_ok (bc s1)"
    using fput_contents [OF ok] by (simp_all add: s1_def)
  have w: "cache_ok (bc (write_sb s2))" "view (bc (write_sb s2)) = (view (bc s1))(0 := put_sb (sb s2) (view (bc s1) 0))"
    using write_sb_contents [of s2] v1(2) s2(1) by auto
  have "free_chain ((view (bc s))(b := y, 0 := z)) (sb_free_list (sb s)) bs" for y z
    using ch assms(3) free_chain_nonzero [OF ch] by (simp add: free_chain_upd)
  then show "free_blocks (bfree b s) (b # bs)"
    using w d assms(2,3) by (simp add: r free_blocks_def s2 v1)
  show "x \<noteq> 0 \<Longrightarrow> x \<noteq> b \<Longrightarrow> view (bc (bfree b s)) x = view (bc s) x"
    by (simp add: r w v1)
qed

datatype alloc_op = Alloc | Free nat

text \<open>A client that holds the blocks it was given and may give back any of them.\<close>

fun alloc_step :: "alloc_op \<Rightarrow> u16 list \<times> fsys \<Rightarrow> u16 list \<times> fsys" where
  "alloc_step Alloc (held, s) = (case balloc s of (b, t) \<Rightarrow> (if b = 0 then held else b # held, t))"
| "alloc_step (Free k) (held, s) =
     (if k < length held then (take k held @ drop (Suc k) held, bfree (held ! k) s) else (held, s))"

lemma mset_remove_nth: "k < length xs \<Longrightarrow> mset xs = add_mset (xs ! k) (mset (take k xs @ drop (Suc k) xs))"
  by (metis id_take_nth_drop mset_append mset.simps(2) union_mset_add_mset_right)

lemma alloc_step_inv:
  assumes "free_blocks s bs" and "distinct (held @ bs)" and "0 \<notin> set held"
    and r: "alloc_step op (held, s) = (held', t)"
  shows "\<exists>bs'. free_blocks t bs' \<and> mset held' + mset bs' = mset held + mset bs \<and> 0 \<notin> set held'"
proof (cases op)
  case Alloc
  show ?thesis
  proof (cases bs)
    case Nil
    with assms Alloc show ?thesis by (auto simp: balloc_nil intro!: exI [of _ "[]"])
  next
    case (Cons b bs')
    obtain t' where "balloc s = (b, t')" "free_blocks t' bs'" using balloc_cons assms(1) Cons by blast
    moreover have "b \<noteq> 0" using assms(1) Cons by (auto simp: free_blocks_def)
    ultimately show ?thesis using Alloc r assms(3) Cons by (auto intro!: exI [of _ bs'])
  qed
next
  case (Free k)
  show ?thesis
  proof (cases "k < length held")
    case True
    have "held ! k \<in> set held" using True by simp
    then have "held ! k \<noteq> 0" "held ! k \<notin> set bs" using assms(2,3) by auto
    from bfree_cons(1) [OF assms(1) this] show ?thesis
      using r Free True assms(3) mset_remove_nth [OF True]
      by (auto intro!: exI [of _ "held ! k # bs"] dest: in_set_takeD in_set_dropD)
  next
    case False
    with assms Free show ?thesis by auto
  qed
qed

lemma alloc_run_inv:
  assumes "free_blocks s bs" and "distinct (held @ bs)" and "0 \<notin> set held"
    and "fold alloc_step ops (held, s) = (held', t)"
  shows "\<exists>bs'. free_blocks t bs' \<and> mset held' + mset bs' = mset held + mset bs"
  using assms
proof (induction ops arbitrary: s bs held)
  case (Cons op ops)
  obtain held1 s1 where st: "alloc_step op (held, s) = (held1, s1)" by (cases "alloc_step op (held, s)")
  obtain bs1 where i: "free_blocks s1 bs1" "mset held1 + mset bs1 = mset held + mset bs" "0 \<notin> set held1"
    using alloc_step_inv [OF Cons.prems(1-3) st] by blast
  have "mset (held1 @ bs1) = mset (held @ bs)" using i(2) by simp
  then have "distinct (held1 @ bs1)" using Cons.prems(2) by (metis mset_eq_imp_distinct_iff)
  with Cons.IH [OF i(1) this i(3)] Cons.prems(4) st i(2) show ?case by simp
qed auto

text \<open>
  C8. On the workbench disk, block allocation neither duplicates nor loses a block: after any sequence of \<open>balloc\<close>s
  and \<open>bfree\<close>s of blocks the client holds, the held blocks and the chain of free blocks
  together are the blocks there were at the start, each exactly once.
\<close>

theorem blocks_conserved:
  assumes "free_blocks s bs"
  shows "\<exists>free. free_blocks (snd (fold alloc_step ops ([], s))) free \<and>
    mset (fst (fold alloc_step ops ([], s))) + mset free = mset bs \<and>
    distinct (fst (fold alloc_step ops ([], s)) @ free)"
proof -
  obtain held t where r: "fold alloc_step ops ([], s) = (held, t)" by (cases "fold alloc_step ops ([], s)")
  have "distinct ([] @ bs)" using assms by (simp add: free_blocks_def)
  from alloc_run_inv [OF assms this _ r] obtain free where
    f: "free_blocks t free" "mset held + mset free = mset bs" by auto
  have "mset (held @ free) = mset bs" using f(2) by simp
  then have "distinct (held @ free)" using assms by (metis free_blocks_def mset_eq_imp_distinct_iff)
  with r f show ?thesis by auto
qed

lemma booted_free: "free_blocks (booted (Workbench tiny_image)) [2, 3, 4, 5, 6, 7]"
proof -
  have "free_chain (view (bc (booted (Workbench tiny_image)))) (sb_free_list (sb (booted (Workbench tiny_image)))) [2, 3, 4, 5, 6, 7]"
    by code_simp
  then show ?thesis by (simp add: free_blocks_def booted_ok)
qed

theorem blocks_conserved_witness:
  "\<exists>free. free_blocks (snd (fold alloc_step [Alloc, Alloc, Free 1] ([], booted (Workbench tiny_image)))) free \<and>
    mset (fst (fold alloc_step [Alloc, Alloc, Free 1] ([], booted (Workbench tiny_image)))) + mset free =
      mset [2, 3, 4, 5, 6, 7] \<and>
    distinct (fst (fold alloc_step [Alloc, Alloc, Free 1] ([], booted (Workbench tiny_image))) @ free)"
  by (rule blocks_conserved) (rule booted_free)

end
