(* ===== verification/Fs_Content.thy ===== *)
theory Fs_Content
  imports Fs_Layout
begin

text \<open>
  What \<open>fs_read\<close> and \<open>fs_write\<close> of kernel/fs.c do to the contents of a file, as bytes of the
  file: the block map, reads, and writes over allocated blocks.
\<close>

section \<open>The contents of a file\<close>

text \<open>The block of block number \<open>bn\<close> of inode \<open>ip\<close> over the disk \<open>v\<close>, and byte \<open>k\<close> of the file.\<close>

definition blk_of :: "(u16 \<Rightarrow> block) \<Rightarrow> inode \<Rightarrow> nat \<Rightarrow> u16" where
  "blk_of v ip bn =
     (if bn < 12 then direct ip bn
      else if bn - 12 < PTRS_PER_BLK \<and> indirect ip \<noteq> 0 then get16 (v (indirect ip)) (2 * (bn - 12))
      else 0)"

definition file_byte :: "(u16 \<Rightarrow> block) \<Rightarrow> inode \<Rightarrow> nat \<Rightarrow> u8" where
  "file_byte v ip k = v (blk_of v ip (k div BLOCK_SIZE)) (k mod BLOCK_SIZE)"

definition mapped :: "(u16 \<Rightarrow> block) \<Rightarrow> inode \<Rightarrow> nat \<Rightarrow> nat \<Rightarrow> bool" where
  "mapped v ip a b \<longleftrightarrow> (\<forall>k. a \<le> k \<longrightarrow> k < b \<longrightarrow> blk_of v ip (k div BLOCK_SIZE) \<noteq> 0)"

text \<open>The state after an operation that only read.\<close>

definition quiet :: "fsys \<Rightarrow> fsys \<Rightarrow> bool" where
  "quiet s t \<longleftrightarrow> cache_ok (bc s) \<and> cache_ok (bc t) \<and> view (bc t) = view (bc s) \<and> icache t = icache s \<and>
     sb t = sb s \<and> fs_ready t = fs_ready s \<and> ticks t = ticks s"

lemma quiet_refl: "cache_ok (bc s) \<Longrightarrow> quiet s s"
  by (simp add: quiet_def)

lemma quiet_trans: "quiet s t \<Longrightarrow> quiet t u \<Longrightarrow> quiet s u"
  by (simp add: quiet_def)

lemma fget_quiet: "cache_ok (bc s) \<Longrightarrow> fget b s = (d, t) \<Longrightarrow> quiet s t \<and> d = view (bc s) b"
  using fget_contents [of s b d t] by (simp add: quiet_def)

lemma bread_quiet:
  assumes "cache_ok (bc s)" and "bread 0 b (bc s) = (k, c)"
  shows "quiet s (s\<lparr>bc := brelse k c\<rparr>)" and "bdata (bufs c k) = view (bc s) b"
  using bread_ok [OF assms] assms(1) by (simp_all add: quiet_def brelse_clean view_def fun_eq_iff)

lemma bmap_quiet:
  assumes ok: "cache_ok (bc s)" and n: "blk_of (view (bc s)) (icache s i) (off div BLOCK_SIZE) \<noteq> 0 \<or> \<not> al"
  obtains t where "bmap i off al s = (blk_of (view (bc s)) (icache s i) (off div BLOCK_SIZE), t)" and "quiet s t"
proof -
  let ?bn = "off div BLOCK_SIZE"
  consider "?bn < 12" | "\<not> ?bn < 12" "?bn - 12 < PTRS_PER_BLK" "indirect (icache s i) \<noteq> 0"
    | "\<not> ?bn < 12" "?bn - 12 < PTRS_PER_BLK" "indirect (icache s i) = 0" | "\<not> ?bn < 12" "\<not> ?bn - 12 < PTRS_PER_BLK"
    by blast
  then show thesis
  proof cases
    case 1
    with n that [of s] quiet_refl [OF ok] show thesis by (auto simp: bmap_def blk_of_def Let_def)
  next
    case 2
    obtain k c where b: "bread 0 (indirect (icache s i)) (bc s) = (k, c)"
      by (cases "bread 0 (indirect (icache s i)) (bc s)")
    note q = bread_quiet [OF ok b]
    from 2 n q that [of "s\<lparr>bc := brelse k c\<rparr>"] show thesis
      by (auto simp: bmap_def need_indirect_def indirect_entry_def blk_of_def b Let_def)
  next
    case 3
    with n that [of s] quiet_refl [OF ok] show thesis
      by (auto simp: bmap_def blk_of_def Let_def need_indirect_def)
  next
    case 4
    with n that [of s] quiet_refl [OF ok] show thesis by (auto simp: bmap_def blk_of_def Let_def)
  qed
qed

lemma chunk_block:
  assumes "j < chunk_len off left"
  shows "(off + j) div BLOCK_SIZE = off div BLOCK_SIZE" and "(off + j) mod BLOCK_SIZE = off mod BLOCK_SIZE + j"
proof -
  have r: "off mod 1024 + j < 1024" using assms unfolding chunk_len_def by linarith
  define q o1 where "q = off div 1024" and "o1 = off mod 1024"
  have "off = q * 1024 + o1" by (simp add: q_def o1_def)
  then have "off + j = q * 1024 + (o1 + j)" by simp
  moreover have "(q * 1024 + (o1 + j)) div 1024 = q" "(q * 1024 + (o1 + j)) mod 1024 = o1 + j"
    using r by (simp_all add: o1_def [symmetric])
  ultimately show "(off + j) div BLOCK_SIZE = off div BLOCK_SIZE" "(off + j) mod BLOCK_SIZE = off mod BLOCK_SIZE + j"
    by (simp_all add: q_def o1_def)
qed

lemma mapped_split: "a \<le> b \<Longrightarrow> b \<le> c \<Longrightarrow> mapped v ip a c \<longleftrightarrow> mapped v ip a b \<and> mapped v ip b c"
  unfolding mapped_def by (meson le_less_trans less_le_trans linorder_not_less order_less_imp_le)

text \<open>
  The read loop delivers the bytes of the file, in order, until it has \<open>n\<close> of them or meets a
  block that was never allocated.
\<close>

lemma fs_read_loop_spec:
  assumes "cache_ok (bc s)" and "length dst \<le> n"
  shows "\<exists>m t. fs_read_loop i off n dst s =
      (dst @ map (file_byte (view (bc s)) (icache s i)) [off..<off + m], t) \<and> quiet s t \<and>
    length dst + m \<le> n \<and> mapped (view (bc s)) (icache s i) off (off + m) \<and>
    (length dst + m = n \<or> blk_of (view (bc s)) (icache s i) ((off + m) div BLOCK_SIZE) = 0)"
  using assms
proof (induction i off n dst s rule: fs_read_loop.induct)
  case (1 i off n dst s)
  let ?v = "view (bc s)" and ?ip = "icache s i"
  let ?blk = "blk_of ?v ?ip (off div BLOCK_SIZE)" and ?c = "chunk_len off (n - length dst)"
  obtain s1 where b: "bmap i off False s = (?blk, s1)" and q1: "quiet s s1"
    using bmap_quiet [OF "1.prems"(1)] by blast
  consider "\<not> length dst < n" | "length dst < n" "?blk = 0" | "length dst < n" "?blk \<noteq> 0" by blast
  then show ?case
  proof cases
    case 1
    with "1.prems" show ?thesis
      by (intro exI [of _ 0] exI [of _ s]) (simp add: fs_read_loop.simps mapped_def quiet_refl)
  next
    case 2
    with q1 b show ?thesis
      by (intro exI [of _ 0] exI [of _ s1]) (simp add: fs_read_loop.simps mapped_def)
  next
    case 3
    obtain d s2 where g: "fget ?blk s1 = (d, s2)" by (cases "fget ?blk s1")
    have q2: "quiet s1 s2" and d: "d = ?v ?blk" using fget_quiet [OF _ g] q1 by (auto simp: quiet_def)
    define ys where "ys = map (\<lambda>j. d (off mod BLOCK_SIZE + j)) [0..<?c]"
    have ys: "ys = map (file_byte ?v ?ip) [off..<off + ?c]"
      unfolding ys_def map_upt_shift by (rule map_cong) (simp_all add: file_byte_def d chunk_block)
    have r: "fs_read_loop i off n dst s = fs_read_loop i (off + ?c) n (dst @ ys) s2"
      by (subst fs_read_loop.simps) (simp add: 3 b g Let_def ys_def)
    have same: "icache s2 = icache s" "view (bc s2) = ?v" "cache_ok (bc s2)"
      using q1 q2 by (auto simp: quiet_def)
    have len: "length (dst @ ys) \<le> n" using 3(1) chunk_len_le [of off "n - length dst"]
      unfolding ys_def length_append length_map length_upt by linarith
    obtain m t where IH: "fs_read_loop i (off + ?c) n (dst @ ys) s2 =
          ((dst @ ys) @ map (file_byte ?v ?ip) [off + ?c..<off + ?c + m], t)" "quiet s2 t"
        "length (dst @ ys) + m \<le> n" "mapped ?v ?ip (off + ?c) (off + ?c + m)"
        "length (dst @ ys) + m = n \<or> blk_of ?v ?ip ((off + ?c + m) div BLOCK_SIZE) = 0"
      using "1.IH" [OF 3(1) b [symmetric] 3(2) g [symmetric] refl refl, folded ys_def, OF same(3) len]
      unfolding same by blast
    have "mapped ?v ?ip off (off + ?c)"
      using 3(2) unfolding mapped_def by (metis chunk_block(1) le_add_diff_inverse nat_add_left_cancel_less)
    then have "mapped ?v ?ip off (off + (?c + m))"
      using IH(4) mapped_split [of off "off + ?c" "off + (?c + m)" ?v ?ip] by (simp add: add.assoc)
    moreover have "ys @ map (file_byte ?v ?ip) [off + ?c..<off + ?c + m] = map (file_byte ?v ?ip) [off..<off + (?c + m)]"
      using upt_add_eq_append [of off "off + ?c" m] unfolding ys by (simp flip: map_append add: add.assoc)
    moreover have "length ys = ?c" by (simp add: ys_def)
    ultimately show ?thesis
      using IH quiet_trans [OF quiet_trans [OF q1 q2] IH(2)]
      by (intro exI [of _ "?c + m"] exI [of _ t]) (simp add: r add.assoc)
  qed
qed

lemma fs_read_spec:
  assumes "cache_ok (bc s)"
  shows "\<exists>m t. fs_read i off n s = (map (file_byte (view (bc s)) (icache s i)) [off..<off + m], t) \<and>
    quiet s t \<and> m \<le> min n (unat (isize (icache s i)) - off) \<and>
    (m = min n (unat (isize (icache s i)) - off) \<or>
     blk_of (view (bc s)) (icache s i) ((off + m) div BLOCK_SIZE) = 0)"
proof (cases "off \<ge> unat (isize (icache s i))")
  case True
  then show ?thesis
    using quiet_refl [OF assms] by (intro exI [of _ 0] exI [of _ s]) (simp add: fs_read_def Let_def)
next
  case False
  from fs_read_loop_spec [OF assms, of "[]" "min n (unat (isize (icache s i)) - off)" i off] False
  show ?thesis by (auto simp: fs_read_def Let_def min_def split: if_splits)
qed

text \<open>
  C6. Reading a file (on the workbench disk): \<open>fs_read\<close> returns the bytes of the file from the
  offset on, in order, cut at the requested length and at the end of the file, and stops short of that only at a
  block that was never allocated; no block, inode or free list entry changes.
\<close>

theorem fs_read_contents:
  assumes "cache_ok (bc s)"
  shows "\<exists>m t. fs_read i off n s = (map (file_byte (view (bc s)) (icache s i)) [off..<off + m], t) \<and>
    quiet s t \<and> m \<le> min n (unat (isize (icache s i)) - off) \<and>
    (m = min n (unat (isize (icache s i)) - off) \<or>
     blk_of (view (bc s)) (icache s i) ((off + m) div BLOCK_SIZE) = 0)"
  by (rule fs_read_spec [OF assms])

theorem fs_read_contents_witness:
  "\<exists>m t. fs_read 0 0 64 (booted (Workbench tiny_image)) =
      (map (file_byte (view (bc (booted (Workbench tiny_image)))) (icache (booted (Workbench tiny_image)) 0)) [0..<0 + m], t) \<and>
    quiet (booted (Workbench tiny_image)) t \<and>
    m \<le> min 64 (unat (isize (icache (booted (Workbench tiny_image)) 0)) - 0) \<and>
    (m = min 64 (unat (isize (icache (booted (Workbench tiny_image)) 0)) - 0) \<or>
     blk_of (view (bc (booted (Workbench tiny_image)))) (icache (booted (Workbench tiny_image)) 0) ((0 + m) div BLOCK_SIZE) = 0)"
  by (rule fs_read_contents) (rule booted_ok)

section \<open>Overwriting\<close>

text \<open>
  The blocks of inode \<open>i\<close> are its own: different block numbers have different blocks, and none
  is the indirect block or the block that stores the inode.
\<close>

definition own_blocks :: "(u16 \<Rightarrow> block) \<Rightarrow> inode \<Rightarrow> bool" where
  "own_blocks v ip \<longleftrightarrow>
     (\<forall>m < 12 + PTRS_PER_BLK. \<forall>n < 12 + PTRS_PER_BLK. blk_of v ip m \<noteq> 0 \<longrightarrow> blk_of v ip m = blk_of v ip n \<longrightarrow> m = n) \<and>
     (\<forall>n < 12 + PTRS_PER_BLK. blk_of v ip n \<noteq> 0 \<longrightarrow>
        blk_of v ip n \<noteq> indirect ip \<and> blk_of v ip n \<noteq> inode_blk (inum ip)) \<and>
     (indirect ip \<noteq> 0 \<longrightarrow> indirect ip \<noteq> inode_blk (inum ip))"

lemma blk_of_range: "blk_of v ip n \<noteq> 0 \<Longrightarrow> n < 12 + PTRS_PER_BLK"
  by (auto simp: blk_of_def split: if_splits)

lemma own_blocks_inj:
  "own_blocks v ip \<Longrightarrow> blk_of v ip m \<noteq> 0 \<Longrightarrow> blk_of v ip n = blk_of v ip m \<Longrightarrow> m = n"
  using blk_of_range [of v ip m] blk_of_range [of v ip n] unfolding own_blocks_def by metis

lemma blk_of_cong:
  "direct ip = direct ip' \<Longrightarrow> indirect ip = indirect ip' \<Longrightarrow>
     (indirect ip \<noteq> 0 \<Longrightarrow> v (indirect ip) = v' (indirect ip)) \<Longrightarrow> blk_of v ip n = blk_of v' ip' n"
  by (simp add: blk_of_def)

text \<open>The file after \<open>c\<close> bytes of \<open>src\<close> went to offset \<open>a\<close>.\<close>

definition overwritten :: "(nat \<Rightarrow> u8) \<Rightarrow> nat \<Rightarrow> (nat \<Rightarrow> u8) \<Rightarrow> nat \<Rightarrow> nat \<Rightarrow> (nat \<Rightarrow> u8)" where
  "overwritten f a src from c = (\<lambda>k. if a \<le> k \<and> k < a + c then src (from + (k - a)) else f k)"

lemma overwritten_0 [simp]: "overwritten f a src from 0 = f"
  by (rule ext) (auto simp: overwritten_def)

lemma overwritten_append:
  "overwritten (overwritten f a src x c) (a + c) src (x + c) d = overwritten f a src x (c + d)"
  by (auto simp: overwritten_def fun_eq_iff)

lemma chunk_written:
  fixes off n src x v ip
  defines "b \<equiv> blk_of v ip (off div BLOCK_SIZE)" and "o1 \<equiv> off mod BLOCK_SIZE" and "c \<equiv> chunk_len off n"
  defines "v' \<equiv> v(b := (\<lambda>j. if o1 \<le> j \<and> j < o1 + c then src (x + (j - o1)) else v b j))"
  assumes "own_blocks v ip" and "b \<noteq> 0"
  shows "own_blocks v' ip" and "blk_of v' ip = blk_of v ip"
    and "file_byte v' ip = overwritten (file_byte v ip) off src x c"
proof -
  have "b \<noteq> indirect ip" using assms(5,6) blk_of_range [of v ip "off div BLOCK_SIZE"]
    unfolding own_blocks_def b_def by blast
  then show e: "blk_of v' ip = blk_of v ip" by (auto simp: blk_of_def v'_def fun_eq_iff)
  then show "own_blocks v' ip" using assms(5) by (simp add: own_blocks_def)
  have "o1 + c \<le> 1024" unfolding o1_def c_def chunk_len_def by (auto simp: min_def)
  show "file_byte v' ip = overwritten (file_byte v ip) off src x c"
  proof
    fix k
    show "file_byte v' ip k = overwritten (file_byte v ip) off src x c k"
    proof (cases "k div BLOCK_SIZE = off div BLOCK_SIZE")
      case True
      have k: "k = off div 1024 * 1024 + k mod 1024" "off = off div 1024 * 1024 + o1"
        unfolding o1_def using True by (metis div_mult_mod_eq)+
      then have "off \<le> k \<and> k < off + c \<longleftrightarrow> o1 \<le> k mod 1024 \<and> k mod 1024 < o1 + c" "k - off = k mod 1024 - o1"
        by linarith+
      moreover have "file_byte v' ip k = v' b (k mod 1024)" "file_byte v ip k = v b (k mod 1024)"
        by (simp_all add: file_byte_def e True b_def)
      ultimately show ?thesis by (simp add: overwritten_def v'_def)
    next
      case False
      then have "blk_of v ip (k div BLOCK_SIZE) \<noteq> b" using own_blocks_inj assms(5,6) unfolding b_def by metis
      moreover have "\<not> (off \<le> k \<and> k < off + c)"
        using False chunk_block(1) [of "k - off" off n] unfolding c_def by fastforce
      moreover have "file_byte v' ip k = v' (blk_of v ip (k div 1024)) (k mod 1024)"
        by (simp add: file_byte_def e)
      ultimately show ?thesis by (auto simp: file_byte_def overwritten_def v'_def)
    qed
  qed
qed

text \<open>The state after data blocks were written: inodes, superblock and clock are as before.\<close>

definition data_only :: "fsys \<Rightarrow> fsys \<Rightarrow> bool" where
  "data_only s t \<longleftrightarrow> cache_ok (bc t) \<and> icache t = icache s \<and> sb t = sb s \<and> fs_ready t = fs_ready s \<and> ticks t = ticks s"

lemma fs_write_loop_spec:
  assumes "cache_ok (bc s)" and "tot \<le> n" and "own_blocks (view (bc s)) (icache s i)"
    and "mapped (view (bc s)) (icache s i) off (off + (n - tot))"
  shows "\<exists>t. fs_write_loop i src off n tot s = (False, off + (n - tot), n, t) \<and> data_only s t \<and>
    own_blocks (view (bc t)) (icache s i) \<and>
    blk_of (view (bc t)) (icache s i) = blk_of (view (bc s)) (icache s i) \<and>
    file_byte (view (bc t)) (icache s i) =
      overwritten (file_byte (view (bc s)) (icache s i)) off src tot (n - tot)"
  using assms
proof (induction i src off n tot s rule: fs_write_loop.induct)
  case (1 i src off n tot s)
  let ?v = "view (bc s)" and ?ip = "icache s i"
  let ?blk = "blk_of ?v ?ip (off div BLOCK_SIZE)" and ?c = "chunk_len off (n - tot)"
  show ?case
  proof (cases "tot < n")
    case False
    with "1.prems" show ?thesis
      by (subst fs_write_loop.simps) (simp add: data_only_def)
  next
    case True
    have nz: "?blk \<noteq> 0" using "1.prems"(4) True by (simp add: mapped_def)
    obtain s1 where b: "bmap i off True s = (?blk, s1)" and q: "quiet s s1"
      using bmap_quiet [OF "1.prems"(1)] nz by blast
    define f where "f = (\<lambda>b j. if off mod BLOCK_SIZE \<le> j \<and> j < off mod BLOCK_SIZE + ?c
      then src (tot + (j - off mod BLOCK_SIZE)) else (b :: block) j)"
    define s2 where "s2 = fput ?blk f s1"
    have r: "fs_write_loop i src off n tot s = fs_write_loop i src (off + ?c) n (tot + ?c) s2"
      by (subst fs_write_loop.simps) (simp add: True b nz Let_def s2_def f_def)
    have v2: "view (bc s2) = ?v(?blk := f (?v ?blk))" and ok2: "cache_ok (bc s2)"
      using fput_contents [of s1 ?blk f] q by (simp_all add: s2_def quiet_def)
    have d2: "data_only s s2" using q ok2 by (simp add: data_only_def quiet_def s2_def)
    have ic: "icache s2 = icache s" using d2 by (simp add: data_only_def)
    note w = chunk_written [where off = off and n = "n - tot" and src = src and x = tot, OF "1.prems"(3) nz]
    have w': "own_blocks (view (bc s2)) ?ip" "blk_of (view (bc s2)) ?ip = blk_of ?v ?ip"
      "file_byte (view (bc s2)) ?ip = overwritten (file_byte ?v ?ip) off src tot ?c"
      using w unfolding v2 f_def by simp_all
    have le: "tot + ?c \<le> n" using True chunk_len_le [of off "n - tot"] by linarith
    then have sum: "off + ?c + (n - (tot + ?c)) = off + (n - tot)" "?c + (n - (tot + ?c)) = n - tot" by simp_all
    have "mapped ?v ?ip (off + ?c) (off + (n - tot))" using "1.prems"(4) by (simp add: mapped_def)
    then have m2: "mapped (view (bc s2)) (icache s2 i) (off + ?c) (off + ?c + (n - (tot + ?c)))"
      unfolding sum ic by (simp add: mapped_def w'(2))
    note IH = "1.IH" [OF True b [symmetric] nz refl refl, folded f_def, folded s2_def, OF ok2 le _ m2, unfolded ic sum w'(2,3), OF w'(1)]
    then obtain t where t: "fs_write_loop i src (off + ?c) n (tot + ?c) s2 = (False, off + (n - tot), n, t)"
      "data_only s2 t" "own_blocks (view (bc t)) ?ip" "blk_of (view (bc t)) ?ip = blk_of ?v ?ip"
      "file_byte (view (bc t)) ?ip = overwritten (overwritten (file_byte ?v ?ip) off src tot ?c) (off + ?c) src (tot + ?c) (n - (tot + ?c))"
      by blast
    have "data_only s t" using d2 t(2) by (simp add: data_only_def)
    with t show ?thesis unfolding overwritten_append sum r by blast
  qed
qed

lemma inode_blk_nz [simp]: "inode_blk n \<noteq> 0"
proof
  assume "inode_blk n = 0"
  then show False using inode_blk_nat [of n] by simp
qed

lemma file_byte_cong:
  assumes "own_blocks v ip" and "blk_of v' ip' = blk_of v ip" and "\<And>b. b \<noteq> inode_blk (inum ip) \<Longrightarrow> v' b = v b"
  shows "file_byte v' ip' = file_byte v ip"
proof
  fix k
  let ?b = "blk_of v ip (k div BLOCK_SIZE)"
  have "?b \<noteq> inode_blk (inum ip)"
    using assms(1) blk_of_range [of v ip "k div BLOCK_SIZE"] inode_blk_nz [of "inum ip"]
    unfolding own_blocks_def by metis
  then show "file_byte v' ip' k = file_byte v ip k" by (simp add: file_byte_def assms(2,3))
qed

lemma fs_write_spec:
  assumes "cache_ok (bc s)" and "fs_ready s" and own: "own_blocks (view (bc s)) (icache s i)"
    and "mapped (view (bc s)) (icache s i) off (off + n)" and len: "off + n \<le> UINT32_MAX"
  shows "\<exists>t. fs_write i src off n s = (int n, t) \<and> cache_ok (bc t) \<and>
    blk_of (view (bc t)) (icache t i) = blk_of (view (bc s)) (icache s i) \<and>
    unat (isize (icache t i)) = max (unat (isize (icache s i))) (off + n) \<and>
    file_byte (view (bc t)) (icache t i) = overwritten (file_byte (view (bc s)) (icache s i)) off src 0 n"
proof -
  let ?ip = "icache s i" and ?v = "view (bc s)"
  obtain s1 where l: "fs_write_loop i src off n 0 s = (False, off + n, n, s1)" "data_only s s1"
      "own_blocks (view (bc s1)) ?ip" "blk_of (view (bc s1)) ?ip = blk_of ?v ?ip"
      "file_byte (view (bc s1)) ?ip = overwritten (file_byte ?v ?ip) off src 0 n"
    using fs_write_loop_spec [OF assms(1) _ own, of 0 n off src] assms(4) by auto
  have ic: "icache s1 = icache s" "cache_ok (bc s1)" "fs_ready s1" using l(2) assms(2) by (simp_all add: data_only_def)
  define ip1 where "ip1 = (if off + n > unat (isize ?ip) then ?ip\<lparr>isize := of_nat (off + n)\<rparr> else ?ip)\<lparr>imtime := ticks s1, idirty := True\<rparr>"
  define s3 where "s3 = upd_inode i (\<lambda>_. ip1) s1"
  have "fs_write i src off n s = (int n, fs_iupdate i s3)"
  proof -
    let ?s2 = "if off + n > unat (isize (icache s1 i)) then upd_inode i (\<lambda>ip. ip\<lparr>isize := of_nat (off + n), idirty := True\<rparr>) s1 else s1"
    have "upd_inode i (\<lambda>ip. ip\<lparr>imtime := ticks ?s2, idirty := True\<rparr>) ?s2 = s3"
      by (simp add: s3_def ip1_def ic upd_inode_def)
    moreover have "(if n > UINT32_MAX - off then UINT32_MAX - off else n) = n" using len by auto
    ultimately show ?thesis unfolding fs_write_def Let_def l(1) by (simp add: l(1))
  qed
  moreover have s3: "icache s3 i = ip1" "bc s3 = bc s1" "fs_ready s3" "sb s3 = sb s1" by (simp_all add: s3_def ic)
  have t: "icache (fs_iupdate i s3) i = ip1\<lparr>idirty := False\<rparr>" "cache_ok (bc (fs_iupdate i s3))"
     "\<And>b. b \<noteq> inode_blk (inum ip1) \<Longrightarrow> view (bc (fs_iupdate i s3)) b = view (bc s1) b"
    using fput_contents [of s3] ic s3 by (simp_all add: fs_iupdate_def Let_def)
  have ip1: "inum ip1 = inum ?ip" "direct ip1 = direct ?ip" "indirect ip1 = indirect ?ip" by (simp_all add: ip1_def)
  have blk: "blk_of (view (bc (fs_iupdate i s3))) (icache (fs_iupdate i s3) i) = blk_of (view (bc s1)) ?ip"
    using l(3) t ip1 by (intro ext blk_of_cong) (auto simp: own_blocks_def)
  have "file_byte (view (bc (fs_iupdate i s3))) (icache (fs_iupdate i s3) i) = file_byte (view (bc s1)) ?ip"
    by (rule file_byte_cong [OF l(3) blk]) (simp add: t(3) ip1)
  moreover have "unat (isize ip1) = max (unat (isize ?ip)) (off + n)"
  proof -
    have "unat (of_nat (off + n) :: u32) = off + n" unfolding unat_of_nat using len by simp
    then show ?thesis by (simp add: ip1_def)
  qed
  ultimately show ?thesis using t l blk by (intro exI [of _ "fs_iupdate i s3"]) simp
qed

text \<open>
  C5. Write, then read (on the workbench disk): overwriting \<open>n\<close> bytes of a file whose blocks are allocated and its
  own reports \<open>n\<close>, and reading them back gives what was written, every other byte of the file
  is as before, and the size is the larger of the old size and the end of the write.
\<close>

theorem fs_write_read_back:
  assumes "cache_ok (bc s)" and "fs_ready s" and "own_blocks (view (bc s)) (icache s i)"
    and "mapped (view (bc s)) (icache s i) off (off + n)" and "off + n \<le> UINT32_MAX"
  shows "\<exists>t. fs_write i src off n s = (int n, t) \<and> fst (fs_read i off n t) = map src [0..<n] \<and>
    unat (isize (icache t i)) = max (unat (isize (icache s i))) (off + n) \<and>
    (\<forall>k. k < off \<or> off + n \<le> k \<longrightarrow>
       file_byte (view (bc t)) (icache t i) k = file_byte (view (bc s)) (icache s i) k)"
proof -
  obtain t where t: "fs_write i src off n s = (int n, t)" "cache_ok (bc t)"
    "blk_of (view (bc t)) (icache t i) = blk_of (view (bc s)) (icache s i)"
    "unat (isize (icache t i)) = max (unat (isize (icache s i))) (off + n)"
    "file_byte (view (bc t)) (icache t i) = overwritten (file_byte (view (bc s)) (icache s i)) off src 0 n"
    using fs_write_spec [OF assms] by blast
  obtain m u where m: "fs_read i off n t = (map (file_byte (view (bc t)) (icache t i)) [off..<off + m], u)"
    "m \<le> n" "m = n \<or> blk_of (view (bc t)) (icache t i) ((off + m) div BLOCK_SIZE) = 0"
    using fs_read_spec [OF t(2), of i off n] t(4) by auto
  have "m = n"
    using m(2,3) assms(4) unfolding t(3) mapped_def by (metis le_add1 le_neq_implies_less nat_add_left_cancel_less)
  with m have "fst (fs_read i off n t) = map (file_byte (view (bc t)) (icache t i)) [off..<off + n]" by simp
  also have "\<dots> = map src [0..<n]" unfolding map_upt_shift by (simp add: t(5) overwritten_def)
  finally show ?thesis using t by (intro exI [of _ t]) (auto simp: overwritten_def)
qed

text \<open>A disk with one file: inode 2 has 10 bytes in block 7.\<close>

definition file_image :: "u32 \<Rightarrow> block" where
  "file_image b =
     (if b = 0 then put_sb \<lparr>sb_magic = MINIFS_MAGIC, sb_block_size = 1024, sb_nblocks = 8,
        sb_ninodes = 21, sb_free_list = 2, sb_free_inodes = 19, sb_pad = 0, sb_mtime = 0\<rparr> (\<lambda>_. 0)
      else if b = 1 then put_dinode \<lparr>d_type = FT_FILE, d_nlink = 1, d_major = 0, d_minor = 0,
          d_size = 10, d_mtime = 0, d_direct = (\<lambda>n. if n = 0 then 7 else 0), d_indirect = 0\<rparr> 48
        (put_dinode \<lparr>d_type = FT_DIR, d_nlink = 2, d_major = 0, d_minor = 0,
          d_size = 0, d_mtime = 0, d_direct = (\<lambda>_. 0), d_indirect = 0\<rparr> 0 (\<lambda>_. 0))
      else if b < 6 then put16 (\<lambda>_. 0) 0 (ucast b + 1) else (\<lambda>_. 0))"

definition file_open :: fsys where
  "file_open = snd (fs_iget 2 (booted (Workbench file_image)))"

lemma file_open_ok: "cache_ok (bc file_open)"
  using fs_iget_coh [OF prod.collapse [symmetric]] booted_ok by (simp add: coh_def file_open_def)

lemma file_open_inode:
  "fs_ready file_open \<and> inum (icache file_open 0) = 2 \<and> indirect (icache file_open 0) = 0 \<and>
   list_all (\<lambda>n. direct (icache file_open 0) n = (if n = 0 then 7 else 0)) [0..<12] \<and> isize (icache file_open 0) = 10"
  unfolding file_open_def by code_simp

lemma file_open_blocks: "blk_of v (icache file_open 0) n = (if n = 0 then 7 else 0)"
  using file_open_inode by (auto simp: blk_of_def list_all_iff)

theorem fs_write_read_back_witness:
  "\<exists>t. fs_write 0 (\<lambda>j. of_nat j + 65) 4 5 file_open = (int 5, t) \<and>
    fst (fs_read 0 4 5 t) = map (\<lambda>j. of_nat j + 65) [0..<5] \<and>
    unat (isize (icache t 0)) = max (unat (isize (icache file_open 0))) (4 + 5) \<and>
    (\<forall>k. k < 4 \<or> 4 + 5 \<le> k \<longrightarrow>
       file_byte (view (bc t)) (icache t 0) k = file_byte (view (bc file_open)) (icache file_open 0) k)"
proof (rule fs_write_read_back)
  have "inode_blk (inum (icache file_open 0)) = 1" using file_open_inode by (simp add: inode_blk_def)
  then show "own_blocks (view (bc file_open)) (icache file_open 0)"
    using file_open_inode by (simp add: own_blocks_def file_open_blocks)
  show "mapped (view (bc file_open)) (icache file_open 0) 4 (4 + 5)" by (simp add: mapped_def file_open_blocks)
qed (use file_open_inode file_open_ok in simp_all)

end
