(* ===== verification/Fs_Names.thy ===== *)
theory Fs_Names
  imports Fs_Content
begin

text \<open>
  Directories of kernel/fs.c as lists of entries: what the scan loop, the lookup of a name,
  the insertion and the removal of an entry compute.
\<close>

section \<open>Directories as lists of entries\<close>

text \<open>Entry \<open>j\<close> of the directory inode \<open>ip\<close> over the disk \<open>v\<close>, and how many it has.\<close>

definition entry :: "(u16 \<Rightarrow> block) \<Rightarrow> inode \<Rightarrow> nat \<Rightarrow> dirent" where
  "entry v ip j = dirent_of (map (file_byte v ip) [32 * j..<32 * j + 32])"

definition entries :: "inode \<Rightarrow> nat" where
  "entries ip = unat (isize ip) div 32"

text \<open>A directory whose size is whole entries, all of them stored.\<close>

definition whole_dir :: "(u16 \<Rightarrow> block) \<Rightarrow> inode \<Rightarrow> bool" where
  "whole_dir v ip \<longleftrightarrow> unat (isize ip) mod 32 = 0 \<and> mapped v ip 0 (unat (isize ip))"

lemma fs_read_entry:
  assumes "cache_ok (bc s)" and "whole_dir (view (bc s)) (icache s dp)" and "j < entries (icache s dp)"
  obtains t where "fs_read dp (32 * j) 32 s = (map (file_byte (view (bc s)) (icache s dp)) [32 * j..<32 * j + 32], t)"
    and "quiet s t"
proof -
  let ?v = "view (bc s)" and ?ip = "icache s dp"
  have size: "unat (isize ?ip) = 32 * entries ?ip" using assms(2) by (auto simp: whole_dir_def entries_def)
  then have "min 32 (unat (isize ?ip) - 32 * j) = 32" using assms(3) by auto
  then obtain m t where m: "fs_read dp (32 * j) 32 s = (map (file_byte ?v ?ip) [32 * j..<32 * j + m], t)" "quiet s t"
    "m \<le> 32" "m = 32 \<or> blk_of ?v ?ip ((32 * j + m) div BLOCK_SIZE) = 0"
    using fs_read_spec [OF assms(1), of dp "32 * j" 32] by auto
  have "m = 32"
  proof (rule ccontr)
    assume "m \<noteq> 32"
    with m(3) have "32 * j + m < unat (isize ?ip)" using size assms(3) by linarith
    with m(4) \<open>m \<noteq> 32\<close> assms(2) show False by (simp add: whole_dir_def mapped_def)
  qed
  with m that show thesis by simp
qed

text \<open>The scan loop finds the first entry with the property, as \<open>find\<close> does on lists.\<close>

lemma dir_scan_spec:
  assumes "cache_ok (bc s)" and "whole_dir (view (bc s)) (icache s dp)" and "off = 32 * j"
  shows "\<exists>t. quiet s t \<and> dir_scan P dp off s =
    (map_option (\<lambda>k. (32 * k, entry (view (bc s)) (icache s dp) k))
       (find (\<lambda>k. P (entry (view (bc s)) (icache s dp) k)) [j..<entries (icache s dp)]), t)"
  using assms
proof (induction P dp off s arbitrary: j rule: dir_scan.induct)
  case (1 P dp off s)
  let ?v = "view (bc s)" and ?ip = "icache s dp"
  have size: "unat (isize ?ip) = 32 * entries ?ip" using "1.prems"(2) by (auto simp: whole_dir_def entries_def)
  show ?case
  proof (cases "j < entries ?ip")
    case False
    with "1.prems" size show ?thesis by (subst dir_scan.simps) (simp add: quiet_refl)
  next
    case True
    obtain s1 where r: "fs_read dp off 32 s = (map (file_byte ?v ?ip) [off..<off + 32], s1)" and q: "quiet s s1"
      using fs_read_entry [OF "1.prems"(1,2) True] "1.prems"(3) by blast
    have e: "dirent_of (map (file_byte ?v ?ip) [off..<off + 32]) = entry ?v ?ip j"
      by (simp add: entry_def "1.prems"(3))
    have l: "off < unat (isize ?ip)" using True size "1.prems"(3) by simp
    have u: "[j..<entries ?ip] = j # [Suc j..<entries ?ip]" using True by (simp add: upt_rec)
    show ?thesis
    proof (cases "P (entry ?v ?ip j)")
      case True
      with q show ?thesis by (subst dir_scan.simps) (simp add: l r e u "1.prems"(3) [symmetric])
    next
      case False
      have same: "icache s1 = icache s" "view (bc s1) = ?v" "cache_ok (bc s1)" using q by (simp_all add: quiet_def)
      obtain t where t: "quiet s1 t" "dir_scan P dp (off + 32) s1 =
          (map_option (\<lambda>k. (32 * k, entry ?v ?ip k)) (find (\<lambda>k. P (entry ?v ?ip k)) [Suc j..<entries ?ip]), t)"
        using "1.IH" [OF l r [symmetric], of "Suc j", unfolded e] False "1.prems"(2,3) same by auto
      have "dir_scan P dp off s = dir_scan P dp (off + 32) s1"
        by (subst dir_scan.simps) (simp add: l r e False)
      with t quiet_trans [OF q t(1)] False show ?thesis by (auto simp: u)
    qed
  qed
qed

section \<open>Names\<close>

text \<open>An entry matches exactly the names that its character array spells.\<close>

lemma name_matches_iff:
  assumes "0 \<notin> set name" and "length name < length (de_name de)"
  shows "name_matches name de \<longleftrightarrow> de_inode de \<noteq> 0 \<and> cstring (de_name de) = name"
proof -
  let ?b = "de_name de" and ?n = "length name"
  have "lstrncmp ?n 0 ?b name = 0 \<and> char_at ?b ?n = 0 \<longleftrightarrow> (\<forall>k < ?n. ?b ! k = name ! k) \<and> ?b ! ?n = 0"
    using assms by (simp add: lstrncmp_0_iff char_at_def)
  also have "\<dots> \<longleftrightarrow> cstring ?b = name"
  proof
    assume a: "(\<forall>k < ?n. ?b ! k = name ! k) \<and> ?b ! ?n = 0"
    have "take ?n ?b = name" using a assms(2) by (intro nth_equalityI) auto
    moreover have "\<forall>k < ?n. ?b ! k \<noteq> 0" using a assms(1) by (metis nth_mem)
    moreover from this have "takeWhile (\<lambda>b. b \<noteq> 0) ?b = take ?n ?b"
      using a by (intro takeWhile_eq_take_P_nth) auto
    ultimately show "cstring ?b = name" by (simp add: cstring_def)
  next
    assume c: "cstring ?b = name"
    then have tw: "takeWhile (\<lambda>b. b \<noteq> 0) ?b = name" by (simp add: cstring_def)
    have "?b ! k = name ! k" if "k < ?n" for k
      using takeWhile_nth [of k "\<lambda>b. b \<noteq> 0" ?b] that unfolding tw by simp
    moreover have "?b ! ?n = 0"
      using nth_length_takeWhile [of "\<lambda>b. b \<noteq> 0" ?b] assms(2) unfolding tw by simp
    ultimately show "(\<forall>k < ?n. ?b ! k = name ! k) \<and> ?b ! ?n = 0" by blast
  qed
  finally show ?thesis by (auto simp: name_matches_def)
qed

lemma entry_name_length [simp]: "length (de_name (entry v ip j)) = 30"
  by (simp add: entry_def dirent_of_def)

definition lookup_name :: "(u16 \<Rightarrow> block) \<Rightarrow> inode \<Rightarrow> bytes \<Rightarrow> u16 option" where
  "lookup_name v ip name =
     map_option (\<lambda>j. de_inode (entry v ip j))
       (find (\<lambda>j. de_inode (entry v ip j) \<noteq> 0 \<and> cstring (de_name (entry v ip j)) = name) [0..<entries ip])"

lemma dir_lookup_spec:
  assumes "cache_ok (bc s)" and "whole_dir (view (bc s)) (icache s dp)" and "itype (icache s dp) = FT_DIR"
    and "0 \<notin> set name" and "length name < NAME_MAX"
  shows "\<exists>t. quiet s t \<and> dir_lookup dp name s =
    (case lookup_name (view (bc s)) (icache s dp) name of None \<Rightarrow> (None, t) | Some n \<Rightarrow> fs_iget n t)"
proof -
  have m: "name_matches name (entry v ip k) \<longleftrightarrow> de_inode (entry v ip k) \<noteq> 0 \<and> cstring (de_name (entry v ip k)) = name" for v ip k
    using name_matches_iff [OF assms(4)] assms(5) by simp
  obtain t where "quiet s t" "dir_scan (name_matches name) dp 0 s =
     (map_option (\<lambda>k. (32 * k, entry (view (bc s)) (icache s dp) k))
       (find (\<lambda>k. name_matches name (entry (view (bc s)) (icache s dp) k)) [0..<entries (icache s dp)]), t)"
    using dir_scan_spec [OF assms(1,2), of 0 0 "name_matches name"] by auto
  then show ?thesis
    by (intro exI [of _ t]) (auto simp: dir_lookup_def assms(3) m lookup_name_def split: option.split)
qed

section \<open>Adding and removing entries\<close>

lemma dirent_of_bytes: "dirent_of (dirent_bytes de) = de"
  by (cases de) (simp add: dirent_of_def dirent_bytes_def join16)

text \<open>Writing 32 bytes over entry \<open>j\<close> of a directory, or right behind its last entry.\<close>

lemma write_entry:
  assumes "cache_ok (bc s)" and "fs_ready s" and own: "own_blocks (view (bc s)) (icache s dp)"
    and wd: "whole_dir (view (bc s)) (icache s dp)" and j: "j \<le> entries (icache s dp)"
    and m: "mapped (view (bc s)) (icache s dp) (32 * j) (32 * j + 32)" and len: "32 * j + 32 \<le> UINT32_MAX"
  obtains t where "fs_write dp src (32 * j) 32 s = (32, t)" and "cache_ok (bc t)"
    and "entries (icache t dp) = max (entries (icache s dp)) (Suc j)" and "whole_dir (view (bc t)) (icache t dp)"
    and "entry (view (bc t)) (icache t dp) j = dirent_of (map src [0..<32])"
    and "\<And>k. k \<noteq> j \<Longrightarrow> entry (view (bc t)) (icache t dp) k = entry (view (bc s)) (icache s dp) k"
proof -
  let ?v = "view (bc s)" and ?ip = "icache s dp"
  obtain t where t: "fs_write dp src (32 * j) 32 s = (int 32, t)" "cache_ok (bc t)"
    "blk_of (view (bc t)) (icache t dp) = blk_of ?v ?ip"
    "unat (isize (icache t dp)) = max (unat (isize ?ip)) (32 * j + 32)"
    "file_byte (view (bc t)) (icache t dp) = overwritten (file_byte ?v ?ip) (32 * j) src 0 32"
    using fs_write_spec [OF assms(1,2) own m len] by blast
  have size: "unat (isize ?ip) = 32 * entries ?ip" using wd by (auto simp: whole_dir_def entries_def)
  have "unat (isize (icache t dp)) = 32 * max (entries ?ip) (Suc j)" using t(4) size by (simp add: max_def)
  then have e: "entries (icache t dp) = max (entries ?ip) (Suc j)" by (simp add: entries_def)
  have "unat (isize (icache t dp)) mod 32 = 0" using \<open>unat (isize (icache t dp)) = 32 * _\<close> by simp
  moreover have "mapped (view (bc t)) (icache t dp) 0 (max (unat (isize ?ip)) (32 * j + 32))"
    unfolding mapped_def t(3)
  proof (intro allI impI)
    fix k assume "k < max (unat (isize ?ip)) (32 * j + 32)"
    then have "k < unat (isize ?ip) \<or> 32 * j \<le> k \<and> k < 32 * j + 32" using j size by linarith
    with wd m show "blk_of ?v ?ip (k div BLOCK_SIZE) \<noteq> 0" by (auto simp: whole_dir_def mapped_def)
  qed
  ultimately have w: "whole_dir (view (bc t)) (icache t dp)" unfolding whole_dir_def t(4) by simp
  have "entry (view (bc t)) (icache t dp) j = dirent_of (map src [0..<32])"
    unfolding entry_def t(5) map_upt_shift
    by (intro arg_cong [where f = dirent_of] map_cong) (simp_all add: overwritten_def)
  moreover have "entry (view (bc t)) (icache t dp) k = entry ?v ?ip k" if "k \<noteq> j" for k
    unfolding entry_def t(5) using that
    by (intro arg_cong [where f = dirent_of] map_cong) (auto simp: overwritten_def)
  ultimately show thesis using that [of t] t(1,2) e w by simp
qed

lemma find_cong_at:
  assumes "\<And>k. k \<noteq> j \<Longrightarrow> P k = Q k" and "\<not> P j" and "\<not> Q j"
  shows "find P xs = find Q xs"
  using assms by (induction xs) (auto, metis+)

lemma find_upt_Suc: "\<not> P e \<Longrightarrow> find P [0..<Suc e] = find P [0..<e]"
proof -
  have "find P (xs @ [e]) = find P xs" if "\<not> P e" for xs using that by (induction xs) auto
  then show "\<not> P e \<Longrightarrow> find P [0..<Suc e] = find P [0..<e]" by simp
qed

lemma lookup_unchanged:
  assumes "\<And>k. k \<noteq> j \<Longrightarrow> entry v' ip' k = entry v ip k"
    and "entries ip' = max (entries ip) (Suc j)" and "j \<le> entries ip"
    and "j < entries ip \<Longrightarrow> de_inode (entry v ip j) = 0 \<or> cstring (de_name (entry v ip j)) \<noteq> name"
    and "de_inode (entry v' ip' j) = 0 \<or> cstring (de_name (entry v' ip' j)) \<noteq> name"
  shows "lookup_name v' ip' name = lookup_name v ip name"
proof -
  let ?P = "\<lambda>v ip j. de_inode (entry v ip j) \<noteq> 0 \<and> cstring (de_name (entry v ip j)) = name"
  have f: "find (?P v' ip') [0..<entries ip'] = find (?P v ip) [0..<entries ip]"
  proof (cases "j < entries ip")
    case True
    then have "entries ip' = entries ip" using assms(2) by simp
    then show ?thesis using find_cong_at [of j "?P v' ip'" "?P v ip"] assms True by auto
  next
    case False
    then have j: "j = entries ip" "entries ip' = Suc j" using assms(2,3) by simp_all
    have "find (?P v' ip') [0..<Suc j] = find (?P v' ip') [0..<j]" using assms(5) by (intro find_upt_Suc) auto
    also have "\<dots> = find (?P v ip) [0..<j]"
      using assms(1) by (intro find_cong) auto
    finally show ?thesis unfolding j by (simp add: j(1) [symmetric])
  qed
  have "entry v' ip' k = entry v ip k" if "find (?P v ip) [0..<entries ip] = Some k" for k
  proof -
    have "?P v ip k" "k < entries ip" using that by (auto simp: find_Some_iff)
    with assms(4) have "k \<noteq> j" by auto
    then show ?thesis by (rule assms(1))
  qed
  then show ?thesis unfolding lookup_name_def f by (cases "find (?P v ip) [0..<entries ip]") auto
qed

lemma find_unique:
  assumes "i \<in> set xs" and "P i" and "\<And>k. k \<in> set xs \<Longrightarrow> P k \<Longrightarrow> k = i"
  shows "find P xs = Some i"
proof (cases "find P xs")
  case None
  with assms(1,2) show ?thesis by (auto simp: find_None_iff)
next
  case (Some k)
  then have "k \<in> set xs" "P k" by (auto simp: find_Some_iff)
  with Some assms(3) show ?thesis by simp
qed

text \<open>Where \<open>dir_link\<close> puts a new entry: the first unused one, or the end.\<close>

definition free_slot :: "(u16 \<Rightarrow> block) \<Rightarrow> inode \<Rightarrow> nat" where
  "free_slot v ip = (case find (\<lambda>j. de_inode (entry v ip j) = 0) [0..<entries ip] of Some j \<Rightarrow> j | None \<Rightarrow> entries ip)"

lemma free_slot_le: "free_slot v ip \<le> entries ip"
  by (auto simp: free_slot_def find_Some_iff split: option.split)

lemma free_slot_free: "free_slot v ip < entries ip \<Longrightarrow> de_inode (entry v ip (free_slot v ip)) = 0"
proof (cases "find (\<lambda>j. de_inode (entry v ip j) = 0) [0..<entries ip]")
  case (Some j)
  then have "de_inode (entry v ip j) = 0" by (auto simp: find_Some_iff)
  with Some show ?thesis by (simp add: free_slot_def)
qed (simp add: free_slot_def)

lemma dirent_bytes_length: "length (de_name de) = 30 \<Longrightarrow> length (dirent_bytes de) = 32"
  by (simp add: dirent_bytes_def)

lemma new_dirent_read: "dirent_of (map (\<lambda>j. dirent_bytes (new_dirent name n) ! j) [0..<32]) = new_dirent name n"
proof -
  have "map (\<lambda>j. dirent_bytes (new_dirent name n) ! j) [0..<32] = dirent_bytes (new_dirent name n)"
    by (rule nth_equalityI) (simp_all add: dirent_bytes_def new_dirent_def)
  then show ?thesis by (simp add: dirent_of_bytes)
qed

lemma dir_link_spec:
  assumes ok: "cache_ok (bc s)" "fs_ready s" and own: "own_blocks (view (bc s)) (icache s dp)"
    and wd: "whole_dir (view (bc s)) (icache s dp)" and dir: "itype (icache s dp) = FT_DIR"
    and name: "0 \<notin> set name" "length name < NAME_MAX" and n: "n \<noteq> 0"
    and new: "lookup_name (view (bc s)) (icache s dp) name = None"
    and room: "mapped (view (bc s)) (icache s dp) (32 * free_slot (view (bc s)) (icache s dp)) (32 * free_slot (view (bc s)) (icache s dp) + 32)"
      "32 * free_slot (view (bc s)) (icache s dp) + 32 \<le> UINT32_MAX"
  shows "\<exists>t. dir_link dp name n s = (0, t) \<and> cache_ok (bc t) \<and>
    lookup_name (view (bc t)) (icache t dp) name = Some n \<and>
    (\<forall>other. other \<noteq> name \<longrightarrow> lookup_name (view (bc t)) (icache t dp) other = lookup_name (view (bc s)) (icache s dp) other)"
proof -
  let ?v = "view (bc s)" and ?ip = "icache s dp" and ?j = "free_slot (view (bc s)) (icache s dp)"
  obtain s1 where l: "dir_lookup dp name s = (None, s1)" and q1: "quiet s s1"
    using dir_lookup_spec [OF ok(1) wd dir name] new by auto
  obtain s2 where sc: "quiet s1 s2" "dir_scan (\<lambda>de. de_inode de = 0) dp 0 s1 =
      (map_option (\<lambda>k. (32 * k, entry ?v ?ip k)) (find (\<lambda>k. de_inode (entry ?v ?ip k) = 0) [0..<entries ?ip]), s2)"
    using dir_scan_spec [of s1 dp 0 0 "\<lambda>de. de_inode de = 0"] q1 wd by (auto simp: quiet_def)
  have q: "quiet s s2" using quiet_trans [OF q1 sc(1)] .
  then have same: "icache s2 = icache s" "view (bc s2) = ?v" "cache_ok (bc s2)" "fs_ready s2"
    using ok(2) by (simp_all add: quiet_def)
  have size: "unat (isize ?ip) = 32 * entries ?ip" using wd by (auto simp: whole_dir_def entries_def)
  obtain t where w: "fs_write dp (\<lambda>j. dirent_bytes (new_dirent name n) ! j) (32 * ?j) 32 s2 = (32, t)" "cache_ok (bc t)"
    "entries (icache t dp) = max (entries ?ip) (Suc ?j)"
    "entry (view (bc t)) (icache t dp) ?j = new_dirent name n"
    "\<And>k. k \<noteq> ?j \<Longrightarrow> entry (view (bc t)) (icache t dp) k = entry ?v ?ip k"
    using write_entry [OF same(3,4), unfolded same, OF own wd free_slot_le room, of "\<lambda>j. dirent_bytes (new_dirent name n) ! j"]
    unfolding new_dirent_read by blast
  define slot where "slot = map_option (\<lambda>k. (32 * k, entry ?v ?ip k)) (find (\<lambda>k. de_inode (entry ?v ?ip k) = 0) [0..<entries ?ip])"
  have "(case slot of Some (o1, _) \<Rightarrow> o1 | None \<Rightarrow> unat (isize (icache s2 dp))) = 32 * ?j"
    by (simp add: slot_def free_slot_def size same(1) split: option.split)
  then have r: "dir_link dp name n s = (0, t)"
    unfolding dir_link_def l using sc(2) [folded slot_def] w(1) by (simp add: Let_def)
  have nm: "cstring (de_name (new_dirent name n)) = name"
    using name by (simp add: new_dirent_def cstring_name_buf)
  have "lookup_name (view (bc t)) (icache t dp) name = Some n"
  proof -
    have "k = ?j" if "k \<in> set [0..<entries (icache t dp)]" "de_inode (entry (view (bc t)) (icache t dp) k) \<noteq> 0 \<and>
        cstring (de_name (entry (view (bc t)) (icache t dp) k)) = name" for k
    proof (rule ccontr)
      assume "k \<noteq> ?j"
      then have "k < entries ?ip" using that(1) w(3) free_slot_le [of ?v ?ip] by auto
      with that(2) w(5) [OF \<open>k \<noteq> ?j\<close>] new show False by (auto simp: lookup_name_def find_None_iff)
    qed
    then have "find (\<lambda>j. de_inode (entry (view (bc t)) (icache t dp) j) \<noteq> 0 \<and>
        cstring (de_name (entry (view (bc t)) (icache t dp) j)) = name) [0..<entries (icache t dp)] = Some ?j"
      using n nm w(3) by (intro find_unique) (auto simp: w(4) new_dirent_def)
    then show ?thesis by (simp add: lookup_name_def w(4) new_dirent_def)
  qed
  moreover have "lookup_name (view (bc t)) (icache t dp) other = lookup_name ?v ?ip other" if "other \<noteq> name" for other
    using that nm free_slot_free [of ?v ?ip]
    by (intro lookup_unchanged [OF w(5) w(3) free_slot_le]) (auto simp: w(4))
  ultimately show ?thesis using r w(2) by blast
qed

lemma dir_unlink_spec:
  assumes ok: "cache_ok (bc s)" "fs_ready s" and own: "own_blocks (view (bc s)) (icache s dp)"
    and wd: "whole_dir (view (bc s)) (icache s dp)" and name: "0 \<notin> set name"
    and found: "lookup_name (view (bc s)) (icache s dp) name \<noteq> None"
    and once: "\<And>j k. j < entries (icache s dp) \<Longrightarrow> k < entries (icache s dp) \<Longrightarrow>
      de_inode (entry (view (bc s)) (icache s dp) j) \<noteq> 0 \<Longrightarrow> de_inode (entry (view (bc s)) (icache s dp) k) \<noteq> 0 \<Longrightarrow>
      cstring (de_name (entry (view (bc s)) (icache s dp) j)) = name \<Longrightarrow>
      cstring (de_name (entry (view (bc s)) (icache s dp) k)) = name \<Longrightarrow> j = k"
  shows "\<exists>t. dir_unlink dp name s = (0, t) \<and> cache_ok (bc t) \<and>
    lookup_name (view (bc t)) (icache t dp) name = None \<and>
    (\<forall>other. other \<noteq> name \<longrightarrow> lookup_name (view (bc t)) (icache t dp) other = lookup_name (view (bc s)) (icache s dp) other)"
proof -
  let ?v = "view (bc s)" and ?ip = "icache s dp"
  let ?P = "\<lambda>j. de_inode (entry ?v ?ip j) \<noteq> 0 \<and> cstring (de_name (entry ?v ?ip j)) = name"
  have nz: "0 \<notin> set (cstring bs)" for bs by (auto simp: cstring_def dest: set_takeWhileD)
  obtain j where j: "find ?P [0..<entries ?ip] = Some j" using found by (auto simp: lookup_name_def)
  then have jP: "?P j" "j < entries ?ip" by (auto simp: find_Some_iff)
  obtain s1 where sc: "quiet s s1" "dir_scan (\<lambda>de. de_inode de \<noteq> 0 \<and> lstrcmp (cstring (de_name de)) name = 0) dp 0 s =
      (Some (32 * j, entry ?v ?ip j), s1)"
    using dir_scan_spec [OF ok(1) wd, of 0 0 "\<lambda>de. de_inode de \<noteq> 0 \<and> lstrcmp (cstring (de_name de)) name = 0"] j
    by (auto simp: lstrcmp_0_iff nz name)
  have same: "icache s1 = icache s" "view (bc s1) = ?v" "cache_ok (bc s1)" "fs_ready s1"
    using sc(1) ok(2) by (simp_all add: quiet_def)
  have size: "unat (isize ?ip) = 32 * entries ?ip" using wd by (auto simp: whole_dir_def entries_def)
  have le: "32 * j + 32 \<le> unat (isize ?ip)" using jP(2) size by linarith
  have m: "mapped ?v ?ip (32 * j) (32 * j + 32)" using wd le by (auto simp: whole_dir_def mapped_def)
  have len: "32 * j + 32 \<le> UINT32_MAX" using le u32_bound [of "isize ?ip"] by linarith
  obtain t where w: "fs_write dp (\<lambda>_. 0) (32 * j) 32 s1 = (32, t)" "cache_ok (bc t)"
    "entries (icache t dp) = max (entries ?ip) (Suc j)"
    "entry (view (bc t)) (icache t dp) j = dirent_of (map (\<lambda>_. 0) [0..<32])"
    "\<And>k. k \<noteq> j \<Longrightarrow> entry (view (bc t)) (icache t dp) k = entry ?v ?ip k"
    using write_entry [OF same(3,4), unfolded same, OF own wd less_imp_le [OF jP(2)] m len, of "\<lambda>_. 0"] by blast
  have z: "de_inode (entry (view (bc t)) (icache t dp) j) = 0" by (simp add: w(4) dirent_of_def)
  have r: "dir_unlink dp name s = (0, t)" by (simp add: dir_unlink_def sc(2) w(1))
  have "lookup_name (view (bc t)) (icache t dp) name = None"
  proof -
    have "\<not> (de_inode (entry (view (bc t)) (icache t dp) k) \<noteq> 0 \<and> cstring (de_name (entry (view (bc t)) (icache t dp) k)) = name)"
      if "k < entries (icache t dp)" for k
    proof (cases "k = j")
      case False
      have "k < entries ?ip" using that w(3) jP(2) by simp
      then have "\<not> ?P k" using False once [OF _ jP(2), of k] jP(1) by blast
      then show ?thesis by (simp add: w(5) [OF False])
    qed (simp add: z)
    then show ?thesis by (simp add: lookup_name_def find_None_iff)
  qed
  moreover have "lookup_name (view (bc t)) (icache t dp) other = lookup_name ?v ?ip other" if "other \<noteq> name" for other
    using that jP z by (intro lookup_unchanged [OF w(5) w(3) less_imp_le [OF jP(2)]]) auto
  ultimately show ?thesis using r w(2) by blast
qed

text \<open>
  C9. Looking up a name in a directory (on the workbench disk): \<open>dir_lookup\<close> opens the inode of the first entry in use
  whose name is exactly the one asked for, as it is on the disk, and returns NULL when the
  directory has no such entry; the search changes no block and no inode.
\<close>

theorem dir_lookup_finds:
  assumes "cache_ok (bc s)" and "whole_dir (view (bc s)) (icache s dp)" and "itype (icache s dp) = FT_DIR"
    and "0 \<notin> set name" and "length name < NAME_MAX"
  shows "\<exists>t. quiet s t \<and> dir_lookup dp name s =
    (case lookup_name (view (bc s)) (icache s dp) name of None \<Rightarrow> (None, t) | Some n \<Rightarrow> fs_iget n t)"
  by (rule dir_lookup_spec [OF assms])

text \<open>A disk whose root directory has the entries \<open>.\<close> and \<open>a\<close>, in block 7.\<close>

definition dir_image :: "u32 \<Rightarrow> block" where
  "dir_image b =
     (if b = 0 then put_sb \<lparr>sb_magic = MINIFS_MAGIC, sb_block_size = 1024, sb_nblocks = 8,
        sb_ninodes = 21, sb_free_list = 2, sb_free_inodes = 19, sb_pad = 0, sb_mtime = 0\<rparr> (\<lambda>_. 0)
      else if b = 1 then put_dinode \<lparr>d_type = FT_FILE, d_nlink = 1, d_major = 0, d_minor = 0,
          d_size = 0, d_mtime = 0, d_direct = (\<lambda>n. 0), d_indirect = 0\<rparr> 48
        (put_dinode \<lparr>d_type = FT_DIR, d_nlink = 2, d_major = 0, d_minor = 0,
          d_size = 64, d_mtime = 0, d_direct = (\<lambda>n. if n = 0 then 7 else 0), d_indirect = 0\<rparr> 0 (\<lambda>_. 0))
      else if b = 7 then (\<lambda>j. if j < 64 then (dirent_bytes (new_dirent [46] 1) @ dirent_bytes (new_dirent [97] 2)) ! j else 0)
      else if b < 6 then put16 (\<lambda>_. 0) 0 (ucast b + 1) else (\<lambda>_. 0))"

definition root_open :: fsys where
  "root_open = snd (fs_iget 1 (booted (Workbench dir_image)))"

lemma root_open_ok: "cache_ok (bc root_open)"
  using fs_iget_coh [OF prod.collapse [symmetric]] booted_ok by (simp add: coh_def root_open_def)

lemma root_open_inode:
  "fs_ready root_open \<and> inum (icache root_open 0) = 1 \<and> itype (icache root_open 0) = FT_DIR \<and>
   indirect (icache root_open 0) = 0 \<and>
   list_all (\<lambda>n. direct (icache root_open 0) n = (if n = 0 then 7 else 0)) [0..<12] \<and> isize (icache root_open 0) = 64"
  unfolding root_open_def by code_simp

lemma booted_view: "view (bc (booted (Workbench img))) b = img (ucast b)"
proof -
  have "view (bc (fs_init s)) = view (bc s)" if "cache_ok (bc s)" for s
  proof -
    obtain d s1 where g: "fget 0 s = (d, s1)" by (cases "fget 0 s")
    have "view (bc s1) = view (bc s)" using fget_contents [OF that g] by blast
    then show ?thesis by (simp add: fs_init_def g Let_def)
  qed
  moreover have "cache_ok (blank_cache (Workbench img))"
    unfolding blank_cache_def by (rule buf_init_ok) (simp add: on_workbench_def)
  ultimately show ?thesis
    by (simp add: booted_def blank_cache_def buf_init_view view_def pal_disk_read_def)
qed

lemma iget_view: "cache_ok (bc s) \<Longrightarrow> view (bc (snd (fs_iget n s))) = view (bc s)"
proof -
  obtain d s1 where g: "fget (inode_blk n) s = (d, s1)" by (cases "fget (inode_blk n) s")
  assume "cache_ok (bc s)"
  then have "view (bc s1) = view (bc s)" using fget_contents [OF _ g] by blast
  then show ?thesis by (simp add: fs_iget_def g Let_def split: option.split)
qed

lemma root_open_blocks: "blk_of v (icache root_open 0) n = (if n = 0 then 7 else 0)"
  using root_open_inode by (auto simp: blk_of_def list_all_iff)

lemma root_open_own: "own_blocks v (icache root_open 0)"
  using root_open_inode by (simp add: own_blocks_def root_open_blocks inode_blk_def)

lemma root_open_whole: "whole_dir v (icache root_open 0)"
  using root_open_inode by (auto simp: whole_dir_def mapped_def root_open_blocks)

lemma root_open_bytes: "k < 1024 \<Longrightarrow> file_byte (view (bc root_open)) (icache root_open 0) k = dir_image 7 k"
proof -
  have "view (bc root_open) 7 = dir_image 7" by (simp add: root_open_def iget_view booted_ok booted_view)
  then show "k < 1024 \<Longrightarrow> ?thesis" by (simp add: file_byte_def root_open_blocks)
qed

lemma root_open_entries:
  "entries (icache root_open 0) = 2" "entry (view (bc root_open)) (icache root_open 0) 0 = new_dirent [46] 1"
  "entry (view (bc root_open)) (icache root_open 0) (Suc 0) = new_dirent [97] 2"
proof -
  have e: "map (file_byte (view (bc root_open)) (icache root_open 0)) [a..<b] = map (dir_image 7) [a..<b]"
    if "b \<le> 1024" for a b using that by (intro map_cong) (auto simp: root_open_bytes)
  have i: "map (dir_image 7) [0..<32] = dirent_bytes (new_dirent [46] 1)"
    "map (dir_image 7) [32..<64] = dirent_bytes (new_dirent [97] 2)" by code_simp+
  have u: "[32 * 0..<32 * 0 + 32] = [0..<32::nat]" "[32 * Suc 0..<32 * Suc 0 + 32] = [32..<64::nat]"
    and le: "(32::nat) \<le> 1024" "(64::nat) \<le> 1024" by simp_all
  show "entry (view (bc root_open)) (icache root_open 0) 0 = new_dirent [46] 1"
    by (simp only: entry_def u e [OF le(1)] i dirent_of_bytes)
  show "entry (view (bc root_open)) (icache root_open 0) (Suc 0) = new_dirent [97] 2"
    by (simp only: entry_def u e [OF le(2)] i dirent_of_bytes)
  show "entries (icache root_open 0) = 2" using root_open_inode by (simp add: entries_def)
qed

lemma root_open_names:
  "lookup_name (view (bc root_open)) (icache root_open 0) name =
     (if name = [46] then Some 1 else if name = [97] then Some 2 else None)"
  "free_slot (view (bc root_open)) (icache root_open 0) = 2"
proof -
  have c: "cstring (name_buf [46]) = [46]" "cstring (name_buf [97]) = [97]" by (simp_all add: cstring_name_buf)
  have u: "[0..<2] = [0, Suc 0]" by (simp add: numeral_2_eq_2)
  show "lookup_name (view (bc root_open)) (icache root_open 0) name =
     (if name = [46] then Some 1 else if name = [97] then Some 2 else None)"
    by (auto simp: lookup_name_def root_open_entries u new_dirent_def c)
  show "free_slot (view (bc root_open)) (icache root_open 0) = 2"
    by (simp add: free_slot_def root_open_entries u new_dirent_def)
qed

theorem dir_lookup_finds_witness:
  "\<exists>t. quiet root_open t \<and> dir_lookup 0 [97] root_open =
    (case lookup_name (view (bc root_open)) (icache root_open 0) [97] of None \<Rightarrow> (None, t) | Some n \<Rightarrow> fs_iget n t)"
  by (rule dir_lookup_finds) (use root_open_inode root_open_ok root_open_whole in simp_all)

text \<open>
  C10. Adding a name (on the workbench disk): in a directory that does not have it, with the block of the first unused
  slot allocated, \<open>dir_link\<close> returns 0, afterwards the name leads to the inode, and every other
  name leads where it did.
\<close>

theorem dir_link_adds:
  assumes "cache_ok (bc s)" "fs_ready s" and "own_blocks (view (bc s)) (icache s dp)"
    and "whole_dir (view (bc s)) (icache s dp)" and "itype (icache s dp) = FT_DIR"
    and "0 \<notin> set name" "length name < NAME_MAX" and "n \<noteq> 0"
    and "lookup_name (view (bc s)) (icache s dp) name = None"
    and "mapped (view (bc s)) (icache s dp) (32 * free_slot (view (bc s)) (icache s dp)) (32 * free_slot (view (bc s)) (icache s dp) + 32)"
    and "32 * free_slot (view (bc s)) (icache s dp) + 32 \<le> UINT32_MAX"
  shows "\<exists>t. dir_link dp name n s = (0, t) \<and> cache_ok (bc t) \<and>
    lookup_name (view (bc t)) (icache t dp) name = Some n \<and>
    (\<forall>other. other \<noteq> name \<longrightarrow> lookup_name (view (bc t)) (icache t dp) other = lookup_name (view (bc s)) (icache s dp) other)"
  by (rule dir_link_spec [OF assms])

theorem dir_link_adds_witness:
  "\<exists>t. dir_link 0 [98] 3 root_open = (0, t) \<and> cache_ok (bc t) \<and>
    lookup_name (view (bc t)) (icache t 0) [98] = Some 3 \<and>
    (\<forall>other. other \<noteq> [98] \<longrightarrow> lookup_name (view (bc t)) (icache t 0) other = lookup_name (view (bc root_open)) (icache root_open 0) other)"
  by (rule dir_link_adds)
     (use root_open_inode root_open_ok root_open_whole root_open_own in
       \<open>simp_all add: root_open_names mapped_def root_open_blocks\<close>)

text \<open>
  C11. Removing a name (on the workbench disk): when one entry of the directory has it, \<open>dir_unlink\<close> returns 0,
  afterwards the name leads nowhere, and every other name leads where it did.
\<close>

theorem dir_unlink_removes:
  assumes "cache_ok (bc s)" "fs_ready s" and "own_blocks (view (bc s)) (icache s dp)"
    and "whole_dir (view (bc s)) (icache s dp)" and "0 \<notin> set name"
    and "lookup_name (view (bc s)) (icache s dp) name \<noteq> None"
    and "\<And>j k. j < entries (icache s dp) \<Longrightarrow> k < entries (icache s dp) \<Longrightarrow>
      de_inode (entry (view (bc s)) (icache s dp) j) \<noteq> 0 \<Longrightarrow> de_inode (entry (view (bc s)) (icache s dp) k) \<noteq> 0 \<Longrightarrow>
      cstring (de_name (entry (view (bc s)) (icache s dp) j)) = name \<Longrightarrow>
      cstring (de_name (entry (view (bc s)) (icache s dp) k)) = name \<Longrightarrow> j = k"
  shows "\<exists>t. dir_unlink dp name s = (0, t) \<and> cache_ok (bc t) \<and>
    lookup_name (view (bc t)) (icache t dp) name = None \<and>
    (\<forall>other. other \<noteq> name \<longrightarrow> lookup_name (view (bc t)) (icache t dp) other = lookup_name (view (bc s)) (icache s dp) other)"
  by (rule dir_unlink_spec [OF assms])

theorem dir_unlink_removes_witness:
  "\<exists>t. dir_unlink 0 [97] root_open = (0, t) \<and> cache_ok (bc t) \<and>
    lookup_name (view (bc t)) (icache t 0) [97] = None \<and>
    (\<forall>other. other \<noteq> [97] \<longrightarrow> lookup_name (view (bc t)) (icache t 0) other = lookup_name (view (bc root_open)) (icache root_open 0) other)"
proof (rule dir_unlink_removes)
  fix j k
  assume "j < entries (icache root_open 0)" "k < entries (icache root_open 0)"
    "cstring (de_name (entry (view (bc root_open)) (icache root_open 0) j)) = [97]"
    "cstring (de_name (entry (view (bc root_open)) (icache root_open 0) k)) = [97]"
  then show "j = k"
    by (auto simp: root_open_entries less_2_cases_iff new_dirent_def cstring_name_buf)
qed (use root_open_inode root_open_ok root_open_whole root_open_own in \<open>simp_all add: root_open_names\<close>)

end
