(* ===== verification/Regions.thy ===== *)
theory Regions
  imports Prelude
begin

text \<open>
  Regions of memory, as pairs of a 32-bit base and a 32-bit size, which both allocators of
  kernel/mem.c deal in; the rounding to a multiple of four they share; and bytes of memory
  that a store to one word leaves alone.
\<close>

type_synonym region = "u32 \<times> u32"

text \<open>The interval of natural numbers that a region covers.\<close>

definition rlo :: "region \<Rightarrow> nat" where "rlo r = unat (fst r)"
definition rhi :: "region \<Rightarrow> nat" where "rhi r = unat (fst r) + unat (snd r)"

definition apart :: "region \<Rightarrow> region \<Rightarrow> bool" where
  "apart a b \<longleftrightarrow> rhi a \<le> rlo b \<or> rhi b \<le> rlo a"

text \<open>A sorted run of regions from \<open>g\<close> to the top, one after the other.\<close>

primrec laid_out :: "nat \<Rightarrow> u32 \<Rightarrow> region list \<Rightarrow> bool" where
  "laid_out g hi [] \<longleftrightarrow> g \<le> unat hi"
| "laid_out g hi (r # rs) \<longleftrightarrow> g \<le> rlo r \<and> rlo r < rhi r \<and> laid_out (rhi r) hi rs"

lemma laid_out_le: "laid_out g hi rs \<Longrightarrow> g \<le> unat hi"
  by (induction rs arbitrary: g) (auto, meson less_or_eq_imp_le order_trans)

lemma laid_outI:
  "sorted_wrt (\<lambda>a b. fst a \<le> fst b) rs \<Longrightarrow> \<forall>r \<in> set rs. g \<le> rlo r \<and> rlo r < rhi r \<and> rhi r \<le> unat hi \<Longrightarrow>
     pairwise apart (set rs) \<Longrightarrow> distinct rs \<Longrightarrow> g \<le> unat hi \<Longrightarrow> laid_out g hi rs"
proof (induction rs arbitrary: g)
  case (Cons r rs)
  have "rhi r \<le> rlo q" if "q \<in> set rs" for q
  proof -
    have "r \<noteq> q" using Cons.prems(4) that by auto
    then have "apart r q" using Cons.prems(3) that by (simp add: pairwise_def)
    moreover have "rlo r \<le> rlo q" using Cons.prems(1) that by (simp add: rlo_def word_le_nat_alt)
    ultimately show ?thesis using Cons.prems(2) that by (auto simp: apart_def)
  qed
  with Cons show ?case by (auto simp: pairwise_insert)
qed simp

lemma rhi_nat:
  assumes "rhi r \<le> unat (hi :: u32)"
  shows "unat (fst r + snd r) = rhi r"
proof -
  have "rhi r < 4294967296" using assms u32_bound [of hi] by simp
  then show ?thesis by (simp add: rhi_def unat_word_ariths)
qed

section \<open>Alignment\<close>

text \<open>The macro \<open>ALIGN(x)\<close>, and the same expression in \<open>umem_alloc\<close>.\<close>

definition align4 :: "u32 \<Rightarrow> u32" where
  "align4 n = (n + 3) AND NOT 3"

lemma and_not_3: "x AND NOT 3 = push_bit 2 (drop_bit 2 (x :: u32))"
proof -
  have m: "(3 :: u32) = mask 2" by (simp add: mask_eq_exp_minus_1)
  show ?thesis unfolding m
    by (intro bit_word_eqI) (auto simp: bit_simps not_less, (metis add_2_eq_Suc le_add_diff_inverse)+)
qed

lemma unat_and_not_3: "unat (x AND NOT 3 :: u32) = unat x div 4 * 4"
proof -
  have d: "unat (drop_bit 2 x) = unat x div 4" by (simp add: drop_bit_eq_div unat_div)
  have "unat x div 4 * 4 < 4294967296" using u32_bound [of x] by linarith
  then have "unat (drop_bit 2 x * 4) = unat x div 4 * 4" unfolding unat_word_ariths d by simp
  then show ?thesis unfolding and_not_3 by (simp add: push_bit_eq_mult)
qed

lemma unat_align4:
  assumes "n \<le> 0xFFFFFFFC"
  shows "unat (align4 n) = (unat n + 3) div 4 * 4"
proof -
  have "unat (n + 3) = unat n + 3" using assms by (simp add: unat_word_ariths word_le_nat_alt)
  then show ?thesis unfolding align4_def unat_and_not_3 by simp
qed


section \<open>Words in memory\<close>

lemma get32_put32_u32 [simp]: "get32 (put32 m a v) (a :: u32) = v"
proof -
  have "get16 (put16 m' (a + 2) w) a = get16 m' a" for m' w
    by (simp add: get16_def put16_def)
  then show ?thesis by (simp add: get32_def put32_def join32)
qed

lemma unat_plus_small: "unat (a :: u32) + k < 4294967296 \<Longrightarrow> unat (a + of_nat k) = unat a + k"
  by (simp add: unat_word_ariths unat_of_nat)

lemma get32_put32_apart:
  assumes "apart (a, 4) (b, 4)" and "unat a + 4 \<le> 4294967296" and "unat b + 4 \<le> 4294967296"
  shows "get32 (put32 m a v) b = get32 m (b :: u32)"
proof -
  have k: "unat (c + 1) = unat c + 1" "unat (c + 2) = unat c + 2" "unat (c + 3) = unat c + 3"
    if "unat c + 4 \<le> 4294967296" for c :: u32
    using that unat_plus_small [of c 1] unat_plus_small [of c 2] unat_plus_small [of c 3] by simp_all
  note a = k [OF assms(2)] and b = k [OF assms(3)]
  have ne: "x \<noteq> y" if "unat x \<noteq> unat y" for x y :: u32 using that by auto
  have d: "unat a + 4 \<le> unat b \<or> unat b + 4 \<le> unat a" using assms(1) by (auto simp: apart_def rlo_def rhi_def)
  have p: "put32 m a v x = m x" if "x \<noteq> a" "x \<noteq> a + 1" "x \<noteq> a + 2" "x \<noteq> a + 3" for x
    using that by (simp add: put32_other add.assoc)
  have "put32 m a v b = m b" "put32 m a v (b + 1) = m (b + 1)" "put32 m a v (b + 2) = m (b + 2)"
    "put32 m a v (b + 3) = m (b + 3)"
    by (rule p; rule ne; use a b d in auto)+
  then show ?thesis by (simp add: get32_def get16_def add.assoc)
qed

section \<open>Blocks of bytes in memory\<close>

text \<open>The bytes at \<open>a\<close>, and memory with \<open>bs\<close> stored there.\<close>

definition load_bytes :: "memory \<Rightarrow> u32 \<Rightarrow> nat \<Rightarrow> bytes" where
  "load_bytes m a n = map (\<lambda>i. m (a + of_nat i)) [0..<n]"

definition store_bytes :: "u32 \<Rightarrow> bytes \<Rightarrow> memory \<Rightarrow> memory" where
  "store_bytes a bs m = (\<lambda>x. if unat (x - a) < length bs then bs ! unat (x - a) else m x)"

lemma length_load_bytes [simp]: "length (load_bytes m a n) = n"
  by (simp add: load_bytes_def)

lemma store_bytes_nth:
  "i < length bs \<Longrightarrow> i < 4294967296 \<Longrightarrow> store_bytes a bs m (a + of_nat i) = bs ! i"
  by (simp add: store_bytes_def unat_of_nat)

lemma load_store_bytes [simp]:
  assumes "length bs \<le> 4294967296"
  shows "load_bytes (store_bytes a bs m) a (length bs) = bs"
  by (rule nth_equalityI) (use assms in \<open>simp_all add: load_bytes_def store_bytes_nth\<close>)

lemma store_bytes_other: "length bs \<le> unat (x - a) \<Longrightarrow> store_bytes a bs m x = m x"
  by (simp add: store_bytes_def)

end
