(* ===== verification/Umem.thy ===== *)
theory Umem
  imports Proc_Table Regions "HOL-Library.Multiset"
begin

text \<open>
  User memory, kernel/mem.c: the first-fit allocator that finds its used regions in the
  process table (\<open>umem_alloc\<close>, \<open>umem_stats\<close>), and \<open>sbrk_proc\<close>. All addresses and sizes are
  32-bit and wrap as the code's do; the theorems say when they do not.
\<close>

record upool =
  umem_base :: u32
  umem_top :: u32

definition umem_init :: "u32 \<Rightarrow> u32 \<Rightarrow> upool" where
  "umem_init ubase utop = \<lparr>umem_base = ubase, umem_top = utop\<rparr>"

section \<open>The scan\<close>

definition in_use :: "ptab \<Rightarrow> nat \<Rightarrow> bool" where
  "in_use s i \<longleftrightarrow> pstate (proctab s i) \<noteq> P_FREE \<and> mem_base (proctab s i) \<noteq> 0"

definition used_regions :: "ptab \<Rightarrow> region list" where
  "used_regions s =
     map (\<lambda>i. (mem_base (proctab s i), mem_size (proctab s i))) (filter (in_use s) [0..<MAXPROC])"

text \<open>
  The inner loop of the insertion sort moves entry \<open>x\<close> down the sorted part from its end, past
  the entries with a greater base; the sorted part is kept end first.
\<close>

primrec shift_down :: "region \<Rightarrow> region list \<Rightarrow> region list" where
  "shift_down x [] = [x]"
| "shift_down x (y # ys) = (if fst y > fst x then y # shift_down x ys else x # y # ys)"

definition sort_regions :: "region list \<Rightarrow> region list" where
  "sort_regions rs = rev (fold shift_down rs [])"

primrec scan_gaps :: "u32 \<Rightarrow> u32 \<Rightarrow> u32 \<Rightarrow> region list \<Rightarrow> u32" where
  "scan_gaps hi need g [] = (if hi - g \<ge> need then g else 0)"
| "scan_gaps hi need g (r # rs) = (if fst r - g \<ge> need then g else scan_gaps hi need (fst r + snd r) rs)"

definition umem_alloc :: "upool \<Rightarrow> ptab \<Rightarrow> u32 \<Rightarrow> u32" where
  "umem_alloc p s need = scan_gaps (umem_top p) (align4 need) (umem_base p) (sort_regions (used_regions s))"

primrec gap_stats :: "u32 \<Rightarrow> u32 \<Rightarrow> u32 \<times> u32 \<Rightarrow> region list \<Rightarrow> u32 \<times> u32" where
  "gap_stats hi g acc [] =
     (let gap = hi - g in (fst acc + gap, if gap > snd acc then gap else snd acc))"
| "gap_stats hi g acc (r # rs) =
     (let gap = fst r - g
      in gap_stats hi (fst r + snd r) (fst acc + gap, if gap > snd acc then gap else snd acc) rs)"

text \<open>The free bytes and the largest gap.\<close>

definition umem_stats :: "upool \<Rightarrow> ptab \<Rightarrow> u32 \<times> u32" where
  "umem_stats p s = gap_stats (umem_top p) (umem_base p) (0, 0) (sort_regions (used_regions s))"

section \<open>The sort\<close>

lemma set_shift_down [simp]: "set (shift_down x ys) = insert x (set ys)"
  by (induction ys) auto

lemma shift_down_sorted:
  "sorted_wrt (\<lambda>a b. fst b \<le> fst a) ys \<Longrightarrow> sorted_wrt (\<lambda>a b. fst b \<le> fst a) (shift_down x ys)"
  by (induction ys) (auto simp: not_less intro: order_less_imp_le)

lemma length_shift_down [simp]: "length (shift_down x ys) = Suc (length ys)"
  by (induction ys) auto

lemma fold_shift_down:
  "sorted_wrt (\<lambda>a b. fst b \<le> fst a) ys \<Longrightarrow>
     sorted_wrt (\<lambda>a b. fst b \<le> fst a) (fold shift_down xs ys) \<and> set (fold shift_down xs ys) = set xs \<union> set ys"
  by (induction xs arbitrary: ys) (auto simp: shift_down_sorted)

lemma mset_shift_down [simp]: "mset (shift_down x ys) = add_mset x (mset ys)"
  by (induction ys) auto

lemma mset_fold_shift_down: "mset (fold shift_down xs ys) = mset xs + mset ys"
  by (induction xs arbitrary: ys) auto

lemma mset_sort_regions: "mset (sort_regions rs) = mset rs"
  by (simp add: sort_regions_def mset_fold_shift_down)

lemma sort_regions_sorted: "sorted_wrt (\<lambda>a b. fst a \<le> fst b) (sort_regions rs)"
  using fold_shift_down [of "[]" rs] by (simp add: sort_regions_def sorted_wrt_rev)

lemma set_sort_regions [simp]: "set (sort_regions rs) = set rs"
  using fold_shift_down [of "[]" rs] by (simp add: sort_regions_def)

section \<open>Regions in the pool\<close>

text \<open>
  Regions as intervals of natural numbers. The process table is well laid out if every used
  region is non-empty, lies in the pool without passing the end of the address space, and
  no two processes overlap.
\<close>

definition in_pool :: "upool \<Rightarrow> region \<Rightarrow> bool" where
  "in_pool p r \<longleftrightarrow> unat (umem_base p) \<le> rlo r \<and> rlo r < rhi r \<and> rhi r \<le> unat (umem_top p)"

definition mem_ok :: "upool \<Rightarrow> ptab \<Rightarrow> bool" where
  "mem_ok p s \<longleftrightarrow> umem_base p \<noteq> 0 \<and> umem_base p \<le> umem_top p \<and>
     (\<forall>i < MAXPROC. in_use s i \<longrightarrow> in_pool p (mem_base (proctab s i), mem_size (proctab s i))) \<and>
     (\<forall>i < MAXPROC. \<forall>j < MAXPROC. in_use s i \<longrightarrow> in_use s j \<longrightarrow> i \<noteq> j \<longrightarrow>
        apart (mem_base (proctab s i), mem_size (proctab s i)) (mem_base (proctab s j), mem_size (proctab s j)))"

lemma laid_out_regions:
  assumes "mem_ok p s"
  shows "laid_out (unat (umem_base p)) (umem_top p) (sort_regions (used_regions s))"
proof (rule laid_outI [OF sort_regions_sorted])
  let ?f = "\<lambda>i. (mem_base (proctab s i), mem_size (proctab s i))"
  have a: "apart (?f i) (?f j)" if "i < MAXPROC" "j < MAXPROC" "in_use s i" "in_use s j" "i \<noteq> j" for i j
    using assms that by (simp add: mem_ok_def)
  have p: "in_pool p (?f i)" if "i < MAXPROC" "in_use s i" for i using assms that by (simp add: mem_ok_def)
  show "\<forall>r \<in> set (sort_regions (used_regions s)). unat (umem_base p) \<le> rlo r \<and> rlo r < rhi r \<and> rhi r \<le> unat (umem_top p)"
    using p by (auto simp: used_regions_def in_pool_def)
  show "pairwise apart (set (sort_regions (used_regions s)))"
    using a by (auto simp: used_regions_def pairwise_def)
  have "inj_on ?f (set (filter (in_use s) [0..<MAXPROC]))"
  proof (rule inj_onI)
    fix i j assume ij: "i \<in> set (filter (in_use s) [0..<MAXPROC])" "j \<in> set (filter (in_use s) [0..<MAXPROC])" "?f i = ?f j"
    show "i = j"
    proof (rule ccontr)
      assume "i \<noteq> j"
      then have "apart (?f i) (?f j)" using a ij(1,2) by auto
      moreover have "rlo (?f i) < rhi (?f i)" using p [of i] ij(1) by (auto simp: in_pool_def)
      ultimately show False using ij(3) by (auto simp: apart_def)
    qed
  qed
  then have "distinct (used_regions s)" by (simp add: used_regions_def distinct_map)
  then show "distinct (sort_regions (used_regions s))" by (metis mset_sort_regions mset_eq_imp_distinct_iff)
  show "unat (umem_base p) \<le> unat (umem_top p)" using assms by (simp add: mem_ok_def word_le_nat_alt)
qed

text \<open>Under the layout no subtraction or addition of the scan wraps.\<close>

lemma gap_nat: "unat g \<le> unat b \<Longrightarrow> unat (b - g :: u32) = unat b - unat g"
  by (simp add: unat_sub word_le_nat_alt)

primrec gaps :: "nat \<Rightarrow> nat \<Rightarrow> region list \<Rightarrow> (nat \<times> nat) list" where
  "gaps hi g [] = [(g, hi - g)]"
| "gaps hi g (r # rs) = (g, rlo r - g) # gaps hi (rhi r) rs"

lemma scan_gaps_spec:
  "laid_out (unat g) hi rs \<Longrightarrow> scan_gaps hi need g rs =
     (case find (\<lambda>(a, n). unat need \<le> n) (gaps (unat hi) (unat g) rs) of Some (a, _) \<Rightarrow> of_nat a | None \<Rightarrow> 0)"
proof (induction rs arbitrary: g)
  case Nil
  then show ?case by (simp add: word_le_nat_alt gap_nat)
next
  case (Cons r rs)
  have h: "unat (fst r + snd r) = rhi r" using rhi_nat laid_out_le Cons.prems by (metis laid_out.simps(2))
  have g: "unat (fst r - g) = rlo r - unat g" using Cons.prems by (simp add: gap_nat rlo_def)
  from Cons.prems have "laid_out (unat (fst r + snd r)) hi rs" by (simp add: h)
  from Cons.IH [OF this] show ?case by (simp add: word_le_nat_alt g h)
qed

lemma gap_stats_spec:
  "laid_out (unat g) hi rs \<Longrightarrow> unat f + sum_list (map snd (gaps (unat hi) (unat g) rs)) < 4294967296 \<Longrightarrow>
     gap_stats hi g (f, m) rs = (f', m') \<Longrightarrow>
     unat f' = unat f + sum_list (map snd (gaps (unat hi) (unat g) rs)) \<and>
     unat m' = foldl max (unat m) (map snd (gaps (unat hi) (unat g) rs))"
proof (induction rs arbitrary: g f m)
  case Nil
  then show ?case
    by (auto simp add: Let_def gap_nat unat_word_ariths word_less_nat_alt max_def not_less split: if_splits)
next
  case (Cons r rs)
  have h: "unat (fst r + snd r) = rhi r" using rhi_nat laid_out_le Cons.prems by (metis laid_out.simps(2))
  have g: "unat (fst r - g) = rlo r - unat g" using Cons.prems by (simp add: gap_nat rlo_def)
  have l: "laid_out (unat (fst r + snd r)) hi rs" using Cons.prems by (simp add: h)
  have f: "unat (f + (fst r - g)) = unat f + (rlo r - unat g)"
    using Cons.prems(2) by (simp add: unat_word_ariths g)
  define m1 where "m1 = (if fst r - g > m then fst r - g else m)"
  have m: "unat m1 = max (unat m) (rlo r - unat g)"
    by (simp add: m1_def word_less_nat_alt g max_def not_less)
  have r: "gap_stats hi (fst r + snd r) (f + (fst r - g), m1) rs = (f', m')"
    using Cons.prems(3) by (simp add: Let_def m1_def cong: if_cong)
  from Cons.IH [OF l _ r] Cons.prems(2) show ?case unfolding f m h by (simp add: add.assoc)
qed

lemma gaps_free:
  "laid_out g hi rs \<Longrightarrow> (a, n) \<in> set (gaps (unat hi) g rs) \<Longrightarrow>
     g \<le> a \<and> a + n \<le> unat hi \<and> (\<forall>r \<in> set rs. rhi r \<le> a \<or> a + n \<le> rlo r)"
proof (induction rs arbitrary: g)
  case (Cons r rs)
  have le: "rhi r \<le> unat hi" using Cons.prems laid_out_le by auto
  have later: "rhi r \<le> rlo q" if "q \<in> set rs" for q
  proof -
    have "laid_out g' hi rs \<Longrightarrow> q \<in> set rs \<Longrightarrow> g' \<le> rlo q" for g'
    proof (induction rs arbitrary: g')
      case (Cons x xs)
      from Cons.prems show ?case using Cons.IH [of "rhi x"] by auto
    qed simp
    with that Cons.prems(1) show ?thesis by simp
  qed
  show ?case
  proof (cases "(a, n) = (g, rlo r - g)")
    case True
    with Cons.prems(1) later le show ?thesis by (force simp: not_less)
  next
    case False
    then have "(a, n) \<in> set (gaps (unat hi) (rhi r) rs)" using Cons.prems(2) by auto
    with Cons.IH [of "rhi r"] Cons.prems(1) show ?thesis by auto
  qed
qed simp

section \<open>Allocation\<close>

definition umem_gaps :: "upool \<Rightarrow> ptab \<Rightarrow> (nat \<times> nat) list" where
  "umem_gaps p s = gaps (unat (umem_top p)) (unat (umem_base p)) (sort_regions (used_regions s))"

lemma umem_alloc_gaps:
  assumes "mem_ok p s"
  shows "umem_alloc p s need =
    (case find (\<lambda>(a, n). unat (align4 need) \<le> n) (umem_gaps p s) of Some (a, _) \<Rightarrow> of_nat a | None \<Rightarrow> 0)"
  unfolding umem_alloc_def umem_gaps_def by (rule scan_gaps_spec [OF laid_out_regions [OF assms]])

lemma umem_gaps_free:
  assumes "mem_ok p s" and "(a, n) \<in> set (umem_gaps p s)"
  shows "unat (umem_base p) \<le> a" and "a + n \<le> unat (umem_top p)"
    and "i < MAXPROC \<Longrightarrow> in_use s i \<Longrightarrow> rhi (mem_base (proctab s i), mem_size (proctab s i)) \<le> a \<or>
      a + n \<le> rlo (mem_base (proctab s i), mem_size (proctab s i))"
  using gaps_free [OF laid_out_regions [OF assms(1)]] assms(2)
  by (auto simp: umem_gaps_def used_regions_def)

lemma umem_alloc_found:
  assumes "mem_ok p s" and "umem_alloc p s need = r" and "r \<noteq> 0"
  obtains a n where "(a, n) \<in> set (umem_gaps p s)" and "unat r = a" and "unat (align4 need) \<le> n"
proof -
  obtain a n where f: "find (\<lambda>(a, n). unat (align4 need) \<le> n) (umem_gaps p s) = Some (a, n)" and r: "r = of_nat a"
    using umem_alloc_gaps [OF assms(1), of need] assms(2,3) by (auto split: option.splits)
  have mem: "(a, n) \<in> set (umem_gaps p s)" and le: "unat (align4 need) \<le> n"
    using f by (auto simp: find_Some_iff) (metis nth_mem)
  have "a < 4294967296" using umem_gaps_free(2) [OF assms(1) mem] u32_bound [of "umem_top p"] by linarith
  then have "unat r = a" unfolding r unat_of_nat by simp
  with mem le that show thesis by blast
qed

text \<open>
  C12. A region that \<open>umem_alloc\<close> hands out lies in the user pool and overlaps the region of no
  process, so giving it to a process without one keeps the layout: regions never overlap. (The
  bound on the size keeps the rounding from wrapping.)
\<close>

theorem umem_alloc_keeps_layout:
  assumes "mem_ok p s" and "umem_alloc p s need = r" and "r \<noteq> 0"
    and "0 < need" and "need \<le> 0xFFFFFFFC" and "i < MAXPROC" and "\<not> in_use s i"
  shows "mem_ok p (upd_proc i (\<lambda>q. q\<lparr>pstate := st, mem_base := r, mem_size := need\<rparr>) s)"
proof -
  obtain a n where g: "(a, n) \<in> set (umem_gaps p s)" "unat r = a" "unat (align4 need) \<le> n"
    using umem_alloc_found [OF assms(1-3)] .
  have len: "0 < unat need" "unat need \<le> unat (align4 need)"
    using assms(4) unat_align4 [OF assms(5)] by (auto simp: word_less_nat_alt) 
  have new: "in_pool p (r, need)"
    using umem_gaps_free(1,2) [OF assms(1) g(1)] g len by (simp add: in_pool_def rlo_def rhi_def)
  have "apart (r, need) (mem_base (proctab s j), mem_size (proctab s j))" if "j < MAXPROC" "in_use s j" for j
    using umem_gaps_free(3) [OF assms(1) g(1) that] g len by (auto simp: apart_def rlo_def rhi_def)
  then show ?thesis
    using assms(1,7) new unfolding mem_ok_def by (auto simp: in_use_def apart_def)
qed

lemma sum_gaps: "laid_out g hi rs \<Longrightarrow> g + sum_list (map snd (gaps (unat hi) g rs)) \<le> unat hi"
proof (induction rs arbitrary: g)
  case (Cons r rs)
  from Cons.IH [of "rhi r"] Cons.prems show ?case by simp
qed simp

lemma foldl_max_ge: "k \<le> foldl max m xs \<longleftrightarrow> k \<le> m \<or> (\<exists>x \<in> set xs. k \<le> (x :: nat))"
  by (induction xs arbitrary: m) (auto simp: le_max_iff_disj)

lemma umem_gaps_nonempty: "umem_gaps p s \<noteq> []"
  by (cases "sort_regions (used_regions s)") (simp_all add: umem_gaps_def)

lemma umem_stats_sum:
  assumes "mem_ok p s"
  shows "unat (fst (umem_stats p s)) = sum_list (map snd (umem_gaps p s))"
    and "unat (snd (umem_stats p s)) = foldl max 0 (map snd (umem_gaps p s))"
proof -
  let ?rs = "sort_regions (used_regions s)"
  note l = laid_out_regions [OF assms]
  obtain f m where g: "gap_stats (umem_top p) (umem_base p) (0, 0) ?rs = (f, m)" by fastforce
  have "unat (0 :: u32) + sum_list (map snd (gaps (unat (umem_top p)) (unat (umem_base p)) ?rs)) < 4294967296"
    using sum_gaps [OF l] u32_bound [of "umem_top p"] by simp
  from gap_stats_spec [OF l this g]
  show "unat (fst (umem_stats p s)) = sum_list (map snd (umem_gaps p s))"
    and "unat (snd (umem_stats p s)) = foldl max 0 (map snd (umem_gaps p s))"
    by (simp_all add: umem_stats_def umem_gaps_def g)
qed

lemmas umem_stats_largest = umem_stats_sum(2)

text \<open>
  C13. The allocator and the statistics agree: a request (of any size that rounds without
  wrapping) fails exactly when it is larger than the largest gap that \<open>umem_stats\<close> reports.
\<close>

theorem umem_alloc_iff_largest:
  assumes "mem_ok p s"
  shows "umem_alloc p s need \<noteq> 0 \<longleftrightarrow> align4 need \<le> snd (umem_stats p s)"
proof -
  let ?gs = "umem_gaps p s" and ?k = "unat (align4 need)"
  have pos: "(of_nat a :: u32) \<noteq> 0" if "(a, n) \<in> set ?gs" for a n
  proof
    assume z: "(of_nat a :: u32) = 0"
    have "0 < unat (umem_base p)" using assms by (simp add: mem_ok_def unat_gt_0)
    then have "0 < a" "a < 4294967296"
      using umem_gaps_free(1,2) [OF assms that] u32_bound [of "umem_top p"] by linarith+
    moreover have "a mod 2 ^ LENGTH(32) = 0" using arg_cong [OF z, of unat] unfolding unat_of_nat by simp
    ultimately show False by simp
  qed
  have "umem_alloc p s need \<noteq> 0 \<longleftrightarrow> (\<exists>(a, n) \<in> set ?gs. ?k \<le> n)"
  proof (cases "find (\<lambda>(a, n). ?k \<le> n) ?gs")
    case None
    then have "\<forall>(a, n) \<in> set ?gs. \<not> ?k \<le> n" by (auto simp: find_None_iff)
    then show ?thesis unfolding umem_alloc_gaps [OF assms] None by auto
  next
    case (Some an)
    obtain a n where an: "an = (a, n)" by (cases an)
    have "(a, n) \<in> set ?gs" "?k \<le> n" using Some an by (auto simp: find_Some_iff) (metis nth_mem)
    with Some an pos show ?thesis by (auto simp: umem_alloc_gaps [OF assms])
  qed
  also have "\<dots> \<longleftrightarrow> (\<exists>n \<in> set (map snd ?gs). ?k \<le> n)" by force
  also have "\<dots> \<longleftrightarrow> ?k \<le> unat (snd (umem_stats p s))"
    using umem_stats_largest [OF assms] foldl_max_ge [of ?k 0 "map snd ?gs"] umem_gaps_nonempty [of p s]
    by (cases "map snd ?gs") auto
  finally show ?thesis by (simp add: word_le_nat_alt)
qed

text \<open>A process table with two regions at 0x1000 and 0x3000 in a pool from 0x1000 to 0x8000.\<close>

definition two_procs :: ptab where
  "two_procs = upd_proc 1 (\<lambda>q. q\<lparr>pstate := P_READY, mem_base := 0x1000, mem_size := 0x800\<rparr>)
     (upd_proc 2 (\<lambda>q. q\<lparr>pstate := P_READY, mem_base := 0x3000, mem_size := 0x1000\<rparr>) boot_ptab)"

definition small_pool :: upool where
  "small_pool = umem_init 0x1000 0x8000"

lemma two_procs_ok: "mem_ok small_pool two_procs"
  by (auto simp: mem_ok_def two_procs_def small_pool_def umem_init_def in_use_def boot_ptab_def
      zero_proc_def in_pool_def apart_def rlo_def rhi_def word_le_nat_alt)

theorem umem_alloc_keeps_layout_witness:
  "mem_ok small_pool (upd_proc 3 (\<lambda>q. q\<lparr>pstate := P_READY, mem_base := 0x1800, mem_size := 0x1500\<rparr>) two_procs)"
proof (rule umem_alloc_keeps_layout [OF two_procs_ok])
  show "umem_alloc small_pool two_procs 0x1500 = 0x1800"
    unfolding two_procs_def small_pool_def by code_simp
qed (simp_all add: two_procs_def in_use_def boot_ptab_def zero_proc_def)

theorem umem_alloc_iff_largest_witness:
  "umem_alloc small_pool two_procs 0x5000 \<noteq> 0 \<longleftrightarrow> align4 0x5000 \<le> snd (umem_stats small_pool two_procs)"
  by (rule umem_alloc_iff_largest [OF two_procs_ok])

section \<open>The program break\<close>

abbreviation (input) USER_STACK_DEFAULT :: u32 where "USER_STACK_DEFAULT \<equiv> 4096"

text \<open>The process whose break is moved: a child of \<open>vfork\<close> uses its parent's memory.\<close>

definition sbrk_target :: "ptab \<Rightarrow> nat" where
  "sbrk_target s =
     (if mem_base (cur s) = 0 \<and> ppid (cur s) < MAXPROC \<and> pstate (proctab s (ppid (cur s))) = P_VFORK
      then ppid (cur s) else curproc s)"

definition sbrk_proc :: "u32 \<Rightarrow> ptab \<Rightarrow> u32 \<times> ptab" where
  "sbrk_proc incr s =
     (let i = sbrk_target s; p = proctab s i
      in if mem_base p = 0 then (0xFFFFFFFF, s)
         else let old_brk = brk p; new_brk = old_brk + incr; mem_top = mem_base p + mem_size p
              in if new_brk > mem_top - USER_STACK_DEFAULT \<or> new_brk < mem_base p then (0xFFFFFFFF, s)
                 else (old_brk, upd_proc i (\<lambda>q. q\<lparr>brk := new_brk\<rparr>) s))"

text \<open>The break lies in its region, below the room kept for the stack.\<close>

definition brk_ok :: "proc \<Rightarrow> bool" where
  "brk_ok p \<longleftrightarrow> rhi (mem_base p, mem_size p) < 4294967296 \<and> USER_STACK_DEFAULT \<le> mem_size p \<and>
     mem_size p < 0x80000000 \<and>
     mem_base p \<le> brk p \<and> unat (brk p) + 4096 \<le> rhi (mem_base p, mem_size p)"

lemma uint_add_sint: "uint (x + y) = (uint x + sint y) mod 4294967296" for x y :: u32
proof -
  have "uint y = sint y mod 4294967296" by (simp add: uint_sint take_bit_eq_mod)
  then show ?thesis by (simp add: uint_word_ariths mod_add_right_eq)
qed

lemma sint32_range: "- 2147483648 \<le> sint y \<and> sint y < 2147483648" for y :: u32
  using sint_greater_eq [of y] sint_less [of y] by simp

text \<open>A wrapped sum lands in a window narrower than half the range only if it did not wrap.\<close>

lemma wrap_window:
  fixes b z k d :: int
  assumes "0 \<le> b" "4096 \<le> z" "z < 2147483648" "b + z < 4294967296" "b \<le> k" "k + 4096 \<le> b + z"
    "- 2147483648 \<le> d \<and> d < 2147483648" and w_def: "w = (k + d) mod 4294967296"
  shows "(b \<le> w \<and> w + 4096 \<le> b + z \<longleftrightarrow> b \<le> k + d \<and> k + d + 4096 \<le> b + z) \<and>
    (b \<le> k + d \<and> k + d + 4096 \<le> b + z \<longrightarrow> w = k + d)"
proof -
  consider "k + d < 0" | "0 \<le> k + d" "k + d < 4294967296" | "4294967296 \<le> k + d" by linarith
  then show ?thesis
  proof cases
    case 1
    have "w = (k + d + 4294967296) mod 4294967296" by (simp add: w_def)
    also have "\<dots> = k + d + 4294967296" using 1 assms(1-7) by (intro mod_pos_pos_trivial) auto
    finally have "w = k + d + 4294967296" .
    with 1 assms(1-7) show ?thesis by auto
  next
    case 2
    then have "w = k + d" by (simp add: w_def)
    then show ?thesis by simp
  next
    case 3
    have "w = (k + d - 4294967296 + 4294967296) mod 4294967296" by (simp add: w_def)
    also have "\<dots> = (k + d - 4294967296) mod 4294967296" by (rule mod_add_self2)
    also have "\<dots> = k + d - 4294967296" using 3 assms(1-7) by (intro mod_pos_pos_trivial) auto
    finally have "w = k + d - 4294967296" .
    with 3 assms(1-7) show ?thesis by auto
  qed
qed

lemma brk_ok_uint:
  "brk_ok p \<longleftrightarrow> uint (mem_base p) + uint (mem_size p) < 4294967296 \<and> 4096 \<le> uint (mem_size p) \<and>
     uint (mem_size p) < 2147483648 \<and> uint (mem_base p) \<le> uint (brk p) \<and>
     uint (brk p) + 4096 \<le> uint (mem_base p) + uint (mem_size p)"
proof -
  have "unat (4096 :: u32) = 4096" "unat (0x80000000 :: u32) = 2147483648" by simp_all
  then show ?thesis
    unfolding brk_ok_def rhi_def fst_conv snd_conv word_le_nat_alt word_less_nat_alt uint_nat by linarith
qed

text \<open>
  \<open>sbrk\<close> moves the break by exactly the signed increment when the result stays between the
  start of the region and 4096 bytes below its end, returning the old break, and otherwise
  returns -1 and changes nothing; the 32-bit sums never mislead it.
\<close>

theorem sbrk_exact:
  assumes "brk_ok (proctab s (sbrk_target s))" and "mem_base (proctab s (sbrk_target s)) \<noteq> 0"
  shows "let p = proctab s (sbrk_target s); new = int (unat (brk p)) + sint incr
    in if int (unat (mem_base p)) \<le> new \<and> new + 4096 \<le> int (rhi (mem_base p, mem_size p))
       then sbrk_proc incr s = (brk p, upd_proc (sbrk_target s) (\<lambda>q. q\<lparr>brk := of_int new\<rparr>) s) \<and>
            brk_ok (proctab (snd (sbrk_proc incr s)) (sbrk_target s))
       else sbrk_proc incr s = (0xFFFFFFFF, s)"
proof -
  define p where "p = proctab s (sbrk_target s)"
  define b z k d where "b = uint (mem_base p)" and "z = uint (mem_size p)" and "k = uint (brk p)" and "d = sint incr"
  define w where "w = uint (brk p + incr)"
  note ok = assms(1) [folded p_def]
  have z: "4096 \<le> z" "z < 2147483648" and bz: "b + z < 4294967296" and k: "b \<le> k" "k + 4096 \<le> b + z"
    using ok unfolding brk_ok_uint b_def z_def k_def by simp_all
  have nn: "0 \<le> b" by (simp add: b_def)
  have w: "w = (k + d) mod 4294967296" unfolding w_def k_def d_def by (rule uint_add_sint)
  have r: "b \<le> w \<and> w + 4096 \<le> b + z \<longleftrightarrow> b \<le> k + d \<and> k + d + 4096 \<le> b + z"
    and eq: "b \<le> k + d \<and> k + d + 4096 \<le> b + z \<Longrightarrow> w = k + d"
    using wrap_window [OF nn z bz k sint32_range [of incr], of w] w unfolding d_def by auto
  have lim: "uint (mem_base p + mem_size p - USER_STACK_DEFAULT) = b + z - 4096"
  proof -
    have "(b + z - 4096) mod 4294967296 = b + z - 4096" using z bz nn by (intro mod_pos_pos_trivial) auto
    moreover have "(b + z) mod 4294967296 = b + z" using z bz nn by (intro mod_pos_pos_trivial) auto
    ultimately show ?thesis by (simp add: uint_word_ariths b_def z_def)
  qed
  have acc: "brk p + incr > mem_base p + mem_size p - USER_STACK_DEFAULT \<or> brk p + incr < mem_base p \<longleftrightarrow>
      \<not> (b \<le> k + d \<and> k + d + 4096 \<le> b + z)"
    using r unfolding word_less_def lim w_def [symmetric] b_def [symmetric] by linarith
  have m: "mem_base p \<noteq> 0" using assms(2) by (simp add: p_def)
  have step: "sbrk_proc incr s = (if b \<le> k + d \<and> k + d + 4096 \<le> b + z
      then (brk p, upd_proc (sbrk_target s) (\<lambda>q. q\<lparr>brk := brk p + incr\<rparr>) s) else (0xFFFFFFFF, s))"
    unfolding sbrk_proc_def Let_def p_def [symmetric] if_not_P [OF m] acc by simp
  have new: "of_int (k + d) = brk p + incr" by (simp add: k_def d_def)
  have keep: "brk_ok (p\<lparr>brk := brk p + incr\<rparr>)" if "b \<le> k + d \<and> k + d + 4096 \<le> b + z"
    using z bz eq [OF that] that unfolding brk_ok_uint by (simp add: w_def b_def z_def)
  have nat: "int (unat (brk p)) = k" "int (unat (mem_base p)) = b" "int (rhi (mem_base p, mem_size p)) = b + z"
    by (simp_all add: k_def b_def z_def rhi_def)
  show ?thesis
    unfolding Let_def p_def [symmetric] nat d_def [symmetric] step using keep new by (simp add: p_def)
qed

theorem sbrk_exact_witness:
  "let s = upd_proc 0 (\<lambda>q. q\<lparr>mem_base := 0x1000, mem_size := 0x4000, brk := 0x1800\<rparr>) boot_ptab;
     p = proctab s (sbrk_target s); new = int (unat (brk p)) + sint (- 256 :: u32)
    in if int (unat (mem_base p)) \<le> new \<and> new + 4096 \<le> int (rhi (mem_base p, mem_size p))
       then sbrk_proc (- 256) s = (brk p, upd_proc (sbrk_target s) (\<lambda>q. q\<lparr>brk := of_int new\<rparr>) s) \<and>
            brk_ok (proctab (snd (sbrk_proc (- 256) s)) (sbrk_target s))
       else sbrk_proc (- 256) s = (0xFFFFFFFF, s)"
proof -
  let ?s = "upd_proc 0 (\<lambda>q. q\<lparr>mem_base := 0x1000, mem_size := 0x4000, brk := 0x1800\<rparr>) boot_ptab"
  have t: "sbrk_target ?s = 0" by (simp add: sbrk_target_def boot_ptab_def)
  have "brk_ok (proctab ?s (sbrk_target ?s))" "mem_base (proctab ?s (sbrk_target ?s)) \<noteq> 0"
    by (simp_all add: t brk_ok_def rhi_def)
  from sbrk_exact [OF this, of "- 256"] show ?thesis unfolding Let_def .
qed

end
