(* ===== verification/KHeap.thy ===== *)
theory KHeap
  imports Regions
begin

text \<open>
  The kernel heap, kernel/mem.c: \<open>kmalloc\<close>, \<open>kfree\<close>, \<open>mem_init\<close> and \<open>kmem_stats\<close> on
  the bytes of physical memory. A block header is two big-endian words at the block's address,
  its size (header included) and the address of the next free block, 0 for none. The loops of
  the code follow a pointer to a pointer, which is the head variable or a header's next field.
  A loop over a cyclic list does not end, so the operations are partial; on the lists the
  allocator builds they return, and they compute what the list operations of the second part do.
\<close>

record kheap =
  hmem :: memory
  free_head :: u32
  heap_start :: u32
  heap_end :: u32

abbreviation (input) BLOCK_HDR_SIZE :: u32 where "BLOCK_HDR_SIZE \<equiv> 8"

definition blk_size :: "memory \<Rightarrow> u32 \<Rightarrow> u32" where "blk_size m p = get32 m p"
definition blk_next :: "memory \<Rightarrow> u32 \<Rightarrow> u32" where "blk_next m p = get32 m (p + 4)"
definition set_size :: "u32 \<Rightarrow> u32 \<Rightarrow> memory \<Rightarrow> memory" where "set_size p v m = put32 m p v"
definition set_next :: "u32 \<Rightarrow> u32 \<Rightarrow> memory \<Rightarrow> memory" where "set_next p v m = put32 m (p + 4) v"

definition mem_init :: "u32 \<Rightarrow> u32 \<Rightarrow> kheap \<Rightarrow> kheap" where
  "mem_init start fin h =
     (let hs = align4 start; he = fin AND NOT 3
      in h\<lparr>heap_start := hs, heap_end := he, free_head := hs,
           hmem := set_next hs 0 (set_size hs (he - hs) (hmem h))\<rparr>)"

text \<open>The pointer \<open>pp\<close>: \<open>&free_list\<close>, or \<open>&p->next\<close> of a block.\<close>

datatype link = Head | Next u32

definition load :: "link \<Rightarrow> kheap \<Rightarrow> u32" where
  "load l h = (case l of Head \<Rightarrow> free_head h | Next p \<Rightarrow> blk_next (hmem h) p)"

definition store :: "link \<Rightarrow> u32 \<Rightarrow> kheap \<Rightarrow> kheap" where
  "store l v h = (case l of Head \<Rightarrow> h\<lparr>free_head := v\<rparr> | Next p \<Rightarrow> h\<lparr>hmem := set_next p v (hmem h)\<rparr>)"

abbreviation upd_mem :: "(memory \<Rightarrow> memory) \<Rightarrow> kheap \<Rightarrow> kheap" where
  "upd_mem f h \<equiv> h\<lparr>hmem := f (hmem h)\<rparr>"

text \<open>The body of the loop once a block \<open>p\<close> of at least \<open>size\<close> bytes is found at \<open>pp\<close>.\<close>

definition take_block :: "link \<Rightarrow> u32 \<Rightarrow> u32 \<Rightarrow> kheap \<Rightarrow> kheap" where
  "take_block pp p sz h =
     (let h1 =
        (if blk_size (hmem h) p \<ge> sz + BLOCK_HDR_SIZE + 16
         then let newblk = p + sz;
                  h2 = upd_mem (set_size newblk (blk_size (hmem h) p - sz)) h;
                  h3 = upd_mem (set_next newblk (blk_next (hmem h2) p)) h2
              in upd_mem (set_size p sz) (store pp newblk h3)
         else store pp (blk_next (hmem h) p) h)
      in upd_mem (set_next p 0) h1)"

partial_function (option) kmalloc_from :: "link \<Rightarrow> u32 \<Rightarrow> kheap \<Rightarrow> (u32 \<times> kheap) option" where
  "kmalloc_from pp sz h =
     (let p = load pp h
      in if p = 0 then Some (0, h)
         else if blk_size (hmem h) p \<ge> sz then Some (p + BLOCK_HDR_SIZE, take_block pp p sz h)
         else kmalloc_from (Next p) sz h)"

definition kmalloc :: "u32 \<Rightarrow> kheap \<Rightarrow> (u32 \<times> kheap) option" where
  "kmalloc n h = kmalloc_from Head (align4 (n + BLOCK_HDR_SIZE)) h"

partial_function (option) insert_point :: "link \<Rightarrow> u32 \<Rightarrow> kheap \<Rightarrow> link option" where
  "insert_point pp blk h =
     (let p = load pp h
      in if p \<noteq> 0 \<and> p < blk then insert_point (Next p) blk h else Some pp)"

partial_function (option) find_prev :: "u32 \<Rightarrow> u32 \<Rightarrow> kheap \<Rightarrow> u32 option" where
  "find_prev prev blk h =
     (if prev \<noteq> 0 \<and> blk_next (hmem h) prev \<noteq> blk then find_prev (blk_next (hmem h) prev) blk h
      else Some prev)"

text \<open>Both joins of \<open>kfree\<close>: block \<open>p\<close> takes in the block \<open>q\<close> right behind it.\<close>

definition merge_blocks :: "u32 \<Rightarrow> u32 \<Rightarrow> kheap \<Rightarrow> kheap" where
  "merge_blocks p q h =
     (let h1 = upd_mem (set_size p (blk_size (hmem h) p + blk_size (hmem h) q)) h
      in upd_mem (set_next p (blk_next (hmem h1) q)) h1)"

definition join_next :: "u32 \<Rightarrow> kheap \<Rightarrow> kheap" where
  "join_next blk h =
     (let nx = blk_next (hmem h) blk
      in if nx \<noteq> 0 \<and> blk + blk_size (hmem h) blk = nx then merge_blocks blk nx h else h)"

definition kfree :: "u32 \<Rightarrow> kheap \<Rightarrow> kheap option" where
  "kfree ptr h =
     (if ptr = 0 then Some h
      else let blk = ptr - BLOCK_HDR_SIZE
           in case insert_point Head blk h of
                None \<Rightarrow> None
              | Some pp \<Rightarrow>
                  (let h1 = upd_mem (set_next blk (load pp h)) h;
                       h2 = join_next blk (store pp blk h1)
                   in if pp = Head then Some h2
                      else case find_prev (free_head h2) blk h2 of
                             None \<Rightarrow> None
                           | Some prev \<Rightarrow>
                               if prev \<noteq> 0 \<and> prev + blk_size (hmem h2) prev = blk
                               then Some (merge_blocks prev blk h2) else Some h2))"

partial_function (option) kmem_walk :: "u32 \<Rightarrow> u32 \<Rightarrow> u32 \<Rightarrow> kheap \<Rightarrow> (u32 \<times> u32) option" where
  "kmem_walk p free largest h =
     (if p = 0 then Some (free, largest)
      else let sz = blk_size (hmem h) p
           in kmem_walk (blk_next (hmem h) p) (free + sz) (if sz > largest then sz else largest) h)"

text \<open>Total size, free bytes, largest free block.\<close>

definition kmem_stats :: "kheap \<Rightarrow> (u32 \<times> u32 \<times> u32) option" where
  "kmem_stats h = map_option (\<lambda>(f, l). (heap_end h - heap_start h, f, l)) (kmem_walk (free_head h) 0 0 h)"

section \<open>The free list as a list of regions\<close>

primrec chain :: "memory \<Rightarrow> u32 \<Rightarrow> region list \<Rightarrow> u32 \<Rightarrow> bool" where
  "chain m p [] q \<longleftrightarrow> p = q"
| "chain m p (r # rs) q \<longleftrightarrow> p = fst r \<and> p \<noteq> 0 \<and> blk_size m p = snd r \<and> chain m (blk_next m p) rs q"

definition link_of :: "region list \<Rightarrow> link" where
  "link_of rs = (if rs = [] then Head else Next (fst (last rs)))"

text \<open>Blocks in address order, each with room for its header, all below the end of memory.\<close>

definition blocks_ok :: "u32 \<Rightarrow> u32 \<Rightarrow> region list \<Rightarrow> bool" where
  "blocks_ok lo hi rs \<longleftrightarrow> lo \<noteq> 0 \<and> laid_out (unat lo) hi rs \<and> (\<forall>r \<in> set rs. 8 \<le> unat (snd r))"

lemma chain_append: "chain m p (xs @ ys) q \<longleftrightarrow> (\<exists>r. chain m p xs r \<and> chain m r ys q)"
  by (induction xs arbitrary: p) auto

lemma load_link_of: "chain (hmem h) (free_head h) rs q \<Longrightarrow> load (link_of rs) h = q"
  by (cases rs rule: rev_cases) (auto simp: link_of_def load_def chain_append)

text \<open>The header at \<open>p\<close> reads the same in both memories.\<close>

definition hdr_eq :: "memory \<Rightarrow> memory \<Rightarrow> u32 \<Rightarrow> bool" where
  "hdr_eq m m' p \<longleftrightarrow> blk_size m' p = blk_size m p \<and> blk_next m' p = blk_next m p"

lemma hdr_eq_refl [simp]: "hdr_eq m m p"
  by (simp add: hdr_eq_def)

lemma hdr_eq_trans: "hdr_eq m m' p \<Longrightarrow> hdr_eq m' m'' p \<Longrightarrow> hdr_eq m m'' p"
  by (simp add: hdr_eq_def)

lemma chain_cong: "\<forall>r \<in> set rs. hdr_eq m m' (fst r) \<Longrightarrow> chain m' p rs q = chain m p rs q"
proof (induction rs arbitrary: p)
  case (Cons r rs)
  have "p = fst r \<Longrightarrow> blk_size m' p = blk_size m p \<and> blk_next m' p = blk_next m p"
    using Cons.prems by (simp add: hdr_eq_def)
  with Cons show ?case by auto
qed simp

lemma chain_keep: "chain m p rs q \<Longrightarrow> \<forall>r \<in> set rs. hdr_eq m m' (fst r) \<Longrightarrow> chain m' p rs q"
  by (simp add: chain_cong)

text \<open>Two headers that do not overlap.\<close>

definition hdr_apart :: "u32 \<Rightarrow> u32 \<Rightarrow> bool" where
  "hdr_apart p q \<longleftrightarrow> apart (p, 8) (q, 8) \<and> unat p + 8 \<le> 4294967296 \<and> unat q + 8 \<le> 4294967296"

lemma hdr_apart_sym: "hdr_apart p q \<Longrightarrow> hdr_apart q p"
  by (auto simp: hdr_apart_def apart_def)

lemma hdr_apart_neq: "hdr_apart p q \<Longrightarrow> p \<noteq> q"
  by (auto simp: hdr_apart_def apart_def rlo_def rhi_def)

lemma hdr_fields:
  "blk_size (set_size p v m) p = v" "blk_next (set_next p v m) p = v"
  by (simp_all add: blk_size_def blk_next_def set_size_def set_next_def)

lemma hdr_same:
  assumes "unat p + 8 \<le> 4294967296"
  shows "blk_next (set_size p v m) p = blk_next m p" "blk_size (set_next p v m) p = blk_size m p"
proof -
  have u: "unat (p + 4) = unat p + 4" using assms unat_plus_small [of p 4] by simp
  show "blk_next (set_size p v m) p = blk_next m p" "blk_size (set_next p v m) p = blk_size m p"
    using assms u by (auto simp: blk_size_def blk_next_def set_size_def set_next_def apart_def rlo_def rhi_def
        intro!: get32_put32_apart)
qed

lemma hdr_other:
  assumes "hdr_apart p q"
  shows "hdr_eq m (set_size p v m) q" "hdr_eq m (set_next p v m) q"
proof -
  have b: "unat p + 8 \<le> 4294967296" "unat q + 8 \<le> 4294967296" using assms by (simp_all add: hdr_apart_def)
  then have u: "unat (p + 4) = unat p + 4" "unat (q + 4) = unat q + 4"
    using unat_plus_small [of p 4] unat_plus_small [of q 4] by simp_all
  have d: "unat p + 8 \<le> unat q \<or> unat q + 8 \<le> unat p"
    using assms by (auto simp: hdr_apart_def apart_def rlo_def rhi_def)
  have "blk_size (set_size p v m) q = blk_size m q" "blk_next (set_size p v m) q = blk_next m q"
    "blk_size (set_next p v m) q = blk_size m q" "blk_next (set_next p v m) q = blk_next m q"
    unfolding blk_size_def blk_next_def set_size_def set_next_def
    by (rule get32_put32_apart; use b u d in \<open>auto simp: apart_def rlo_def rhi_def\<close>)+
  then show "hdr_eq m (set_size p v m) q" "hdr_eq m (set_next p v m) q" by (simp_all add: hdr_eq_def)
qed

lemma laid_out_pairs:
  "laid_out g hi rs \<Longrightarrow> (\<forall>r \<in> set rs. g \<le> rlo r \<and> rlo r < rhi r \<and> rhi r \<le> unat hi) \<and> sorted_wrt (\<lambda>a b. rhi a \<le> rlo b) rs"
proof (induction rs arbitrary: g)
  case (Cons r rs)
  have "rhi r \<le> unat hi" using Cons.prems laid_out_le by auto
  with Cons.IH [of "rhi r"] Cons.prems show ?case by force
qed simp

lemma laid_out_pairsI:
  "(\<forall>r \<in> set rs. g \<le> rlo r \<and> rlo r < rhi r \<and> rhi r \<le> unat hi) \<Longrightarrow> sorted_wrt (\<lambda>a b. rhi a \<le> rlo b) rs \<Longrightarrow>
     g \<le> unat hi \<Longrightarrow> laid_out g hi rs"
proof (induction rs arbitrary: g)
  case (Cons r rs)
  have "laid_out (rhi r) hi rs" using Cons.prems by (intro Cons.IH) auto
  with Cons.prems show ?case by simp
qed simp

lemma laid_out_iff:
  "laid_out g hi rs \<longleftrightarrow> g \<le> unat hi \<and> (\<forall>r \<in> set rs. g \<le> rlo r \<and> rlo r < rhi r \<and> rhi r \<le> unat hi) \<and>
     sorted_wrt (\<lambda>a b. rhi a \<le> rlo b) rs"
  using laid_out_pairs laid_out_pairsI laid_out_le by metis

lemma blocks_ok_iff:
  "blocks_ok lo hi rs \<longleftrightarrow> lo \<noteq> 0 \<and> unat lo \<le> unat hi \<and>
     (\<forall>r \<in> set rs. unat lo \<le> rlo r \<and> rhi r \<le> unat hi \<and> 8 \<le> unat (snd r)) \<and> sorted_wrt (\<lambda>a b. rhi a \<le> rlo b) rs"
  unfolding blocks_ok_def laid_out_iff by (auto simp: rhi_def rlo_def)

text \<open>What holds of a heap whose free list is \<open>rs\<close>.\<close>

definition heap_list :: "kheap \<Rightarrow> region list \<Rightarrow> bool" where
  "heap_list h rs \<longleftrightarrow> chain (hmem h) (free_head h) rs 0 \<and> blocks_ok (heap_start h) (heap_end h) rs"

lemma hdr_apart_rs:
  assumes "rhi a \<le> rlo b" and "8 \<le> unat (snd a)" and "8 \<le> unat (snd b)" and "rhi b \<le> unat (hi :: u32)"
  shows "hdr_apart (fst a) (fst b)" and "hdr_apart (fst b) (fst a)"
  using assms u32_bound [of hi] by (auto simp: hdr_apart_def apart_def rlo_def rhi_def)

text \<open>A block \<open>c\<close> that shares no byte with any block of \<open>rs\<close>.\<close>

definition outside :: "u32 \<Rightarrow> region list \<Rightarrow> region \<Rightarrow> bool" where
  "outside hi rs c \<longleftrightarrow> 8 \<le> unat (snd c) \<and> rhi c \<le> unat hi \<and> (\<forall>x \<in> set rs. apart x c)"

lemma outside_apart:
  assumes "outside hi rs c" and "x \<in> set rs" and "rlo x \<le> rlo y" and "rhi y \<le> rhi x" and "rhi x \<le> unat hi"
    and "8 \<le> unat (snd y)"
  shows "hdr_apart (fst y) (fst c)"
proof -
  have "rhi y \<le> rlo c \<or> rhi c \<le> rlo y" using assms by (fastforce simp: outside_def apart_def)
  then show ?thesis
    using assms hdr_apart_rs [of y c hi] hdr_apart_rs [of c y hi] by (auto simp: outside_def)
qed

lemma blocks_ok_outside:
  assumes "blocks_ok lo hi rs" and "outside hi rs c" and "x \<in> set rs"
  shows "hdr_apart (fst x) (fst c)"
  using assms by (intro outside_apart [OF assms(2,3)]) (auto simp: blocks_ok_iff)

lemma blocks_ok_parts:
  assumes "blocks_ok lo hi (xs @ r # ys)"
  shows "x \<in> set xs \<Longrightarrow> hdr_apart (fst x) (fst r)" and "x \<in> set xs \<Longrightarrow> hdr_apart (fst r) (fst x)"
    and "y \<in> set ys \<Longrightarrow> hdr_apart (fst r) (fst y)" and "y \<in> set ys \<Longrightarrow> hdr_apart (fst y) (fst r)"
    and "unat (fst r) + 8 \<le> 4294967296" and "8 \<le> unat (snd r)" and "rhi r \<le> unat hi" and "unat lo \<le> rlo r"
    and "fst r \<noteq> 0"
proof -
  have ok: "\<forall>r \<in> set (xs @ r # ys). unat lo \<le> rlo r \<and> rhi r \<le> unat hi \<and> 8 \<le> unat (snd r)"
    and srt: "sorted_wrt (\<lambda>a b. rhi a \<le> rlo b) (xs @ r # ys)" and lo: "lo \<noteq> 0"
    using assms by (simp_all add: blocks_ok_iff)
  show "x \<in> set xs \<Longrightarrow> hdr_apart (fst x) (fst r)" and "x \<in> set xs \<Longrightarrow> hdr_apart (fst r) (fst x)"
    and "y \<in> set ys \<Longrightarrow> hdr_apart (fst r) (fst y)" and "y \<in> set ys \<Longrightarrow> hdr_apart (fst y) (fst r)"
    using ok srt by (auto simp: sorted_wrt_append intro: hdr_apart_rs [of _ _ hi])
  show "8 \<le> unat (snd r)" "rhi r \<le> unat hi" "unat lo \<le> rlo r" using ok by simp_all
  then show "unat (fst r) + 8 \<le> 4294967296" using u32_bound [of hi] by (simp add: rhi_def)
  show "fst r \<noteq> 0" using \<open>unat lo \<le> rlo r\<close> lo by (auto simp: rlo_def unat_eq_0)
qed

lemma blocks_ok_cross:
  assumes "blocks_ok lo hi (xs @ ys)" and "x \<in> set xs" and "y \<in> set ys"
  shows "hdr_apart (fst x) (fst y)" and "hdr_apart (fst y) (fst x)"
  using assms by (auto simp: blocks_ok_iff sorted_wrt_append intro: hdr_apart_rs [of _ _ hi])

lemma blocks_ok_prefix: "blocks_ok lo hi (xs @ ys) \<Longrightarrow> blocks_ok lo hi xs"
  by (simp add: blocks_ok_iff sorted_wrt_append)

lemma store_link_of:
  assumes "chain (hmem h) (free_head h) rs q" and ok: "blocks_ok lo hi rs"
  shows "chain (hmem (store (link_of rs) v h)) (free_head (store (link_of rs) v h)) rs v"
    and "\<forall>r \<in> set rs. hdr_apart (fst r) p \<Longrightarrow> hdr_eq (hmem h) (hmem (store (link_of rs) v h)) p"
proof -
  show "chain (hmem (store (link_of rs) v h)) (free_head (store (link_of rs) v h)) rs v"
  proof (cases rs rule: rev_cases)
    case Nil
    then show ?thesis by (simp add: link_of_def store_def)
  next
    case (snoc xs x)
    have c: "chain (hmem h) (free_head h) xs (fst x)" "fst x \<noteq> 0" "blk_size (hmem h) (fst x) = snd x"
      using assms(1) snoc by (auto simp: chain_append)
    have st: "store (link_of (xs @ [x])) v h = h\<lparr>hmem := set_next (fst x) v (hmem h)\<rparr>"
      by (simp add: link_of_def store_def)
    note x = blocks_ok_parts [OF ok [unfolded snoc]]
    have "chain (set_next (fst x) v (hmem h)) (free_head h) xs (fst x)"
      using c(1) x(2) by (subst chain_cong [of _ "hmem h"]) (auto simp: hdr_other)
    then show ?thesis using c x(5) unfolding snoc st by (auto simp: chain_append hdr_same hdr_fields intro!: exI [of _ "fst x"])
  qed
next
  assume "\<forall>r \<in> set rs. hdr_apart (fst r) p"
  then show "hdr_eq (hmem h) (hmem (store (link_of rs) v h)) p"
    by (cases rs rule: rev_cases) (auto simp: link_of_def store_def hdr_other)
qed

lemma store_sel [simp]: "heap_start (store l v h) = heap_start h" "heap_end (store l v h) = heap_end h"
  by (simp_all add: store_def split: link.split)

text \<open>The first-fit step on the list: the block given out, and the blocks left.\<close>

primrec alloc_list :: "u32 \<Rightarrow> region list \<Rightarrow> (region \<times> region list) option" where
  "alloc_list sz [] = None"
| "alloc_list sz (r # rs) =
     (if snd r \<ge> sz
      then (if snd r \<ge> sz + BLOCK_HDR_SIZE + 16
            then Some ((fst r, sz), (fst r + sz, snd r - sz) # rs) else Some (r, rs))
      else map_option (\<lambda>(x, rs'). (x, r # rs')) (alloc_list sz rs))"

text \<open>Cutting a block in two.\<close>

lemma split_parts:
  assumes "unat (sz :: u32) + 24 < 4294967296" and "sz + BLOCK_HDR_SIZE + 16 \<le> snd r" and "rhi r \<le> unat (hi :: u32)"
  shows "unat (fst r + sz) = rlo r + unat sz" "unat (snd r - sz) = unat (snd r) - unat sz" "unat sz + 24 \<le> unat (snd r)"
    "rlo (fst r + sz, snd r - sz) = rlo r + unat sz" "rhi (fst r + sz, snd r - sz) = rhi r"
    "rlo (fst r, sz) = rlo r" "rhi (fst r, sz) = rlo r + unat sz"
proof -
  have "unat (sz + BLOCK_HDR_SIZE + 16) = unat sz + 24" using assms(1) by (simp add: unat_word_ariths)
  then show s: "unat sz + 24 \<le> unat (snd r)" using assms(2) by (simp add: word_le_nat_alt)
  have "rlo r + unat sz < 4294967296" using s assms(3) u32_bound [of hi] by (simp add: rlo_def rhi_def)
  then show n: "unat (fst r + sz) = rlo r + unat sz" by (simp add: unat_word_ariths rlo_def)
  show z: "unat (snd r - sz) = unat (snd r) - unat sz" using s by (simp add: unat_sub word_le_nat_alt)
  show "rlo (fst r + sz, snd r - sz) = rlo r + unat sz" "rhi (fst r + sz, snd r - sz) = rhi r"
    "rlo (fst r, sz) = rlo r" "rhi (fst r, sz) = rlo r + unat sz"
    using n z s by (simp_all add: rlo_def rhi_def)
qed

lemma blocks_ok_split:
  assumes "blocks_ok lo hi (pre @ r # rs)" and "8 \<le> unat sz"
    and "unat sz + 24 < 4294967296" "sz + BLOCK_HDR_SIZE + 16 \<le> snd r"
  shows "blocks_ok lo hi (pre @ (fst r, sz) # (fst r + sz, snd r - sz) # rs)"
proof -
  have "rhi r \<le> unat hi" using blocks_ok_parts(7) [OF assms(1)] .
  note sp = split_parts [OF assms(3,4) this]
  have lr: "rhi r = rlo r + unat (snd r)" by (simp add: rlo_def rhi_def)
  have "\<forall>x \<in> set rs. rlo r + unat sz \<le> rlo x"
    using assms(1) sp(3) by (fastforce simp: blocks_ok_iff sorted_wrt_append lr)
  then show ?thesis
    using assms(1,2) sp(3) unfolding blocks_ok_iff by (auto simp: sorted_wrt_append lr sp(1,2,4-7))
qed

lemma take_block_spec:
  assumes c: "chain (hmem h) (free_head h) (pre @ r # rs) 0"
    and ok: "blocks_ok lo hi (pre @ r # rs)" and sz: "8 \<le> unat sz" "unat sz + 24 < 4294967296"
  shows "chain (hmem (take_block (link_of pre) (fst r) sz h)) (free_head (take_block (link_of pre) (fst r) sz h))
      (pre @ (if sz + BLOCK_HDR_SIZE + 16 \<le> snd r then (fst r + sz, snd r - sz) # rs else rs)) 0 \<and>
    blk_size (hmem (take_block (link_of pre) (fst r) sz h)) (fst r) = (if sz + BLOCK_HDR_SIZE + 16 \<le> snd r then sz else snd r) \<and>
    (\<forall>c. outside hi (pre @ r # rs) c \<longrightarrow> hdr_eq (hmem h) (hmem (take_block (link_of pre) (fst r) sz h)) (fst c))"
proof -
  let ?p = "fst r" and ?l = "link_of pre" and ?m = "hmem h" and ?n = "fst r + sz"
  have c': "chain ?m (free_head h) pre ?p" "?p \<noteq> 0" "blk_size ?m ?p = snd r" "chain ?m (blk_next ?m ?p) rs 0"
    using c by (auto simp: chain_append)
  note b = blocks_ok_parts [OF ok]
  have okp: "blocks_ok lo hi pre" using ok by (rule blocks_ok_prefix)
  show ?thesis
  proof (cases "sz + BLOCK_HDR_SIZE + 16 \<le> snd r")
    case False
    define h1 where "h1 = store ?l (blk_next ?m ?p) h"
    have t: "take_block ?l ?p sz h = upd_mem (set_next ?p 0) h1"
      using False by (simp add: take_block_def c' h1_def Let_def)
    note st = store_link_of [OF c'(1) okp, where v = "blk_next ?m ?p", folded h1_def]
    have e1: "hdr_eq ?m (hmem h1) (fst x)" if "x \<in> set (r # rs)" for x
      by (rule st(2)) (use blocks_ok_cross(1) [OF ok _ that] in blast)
    have "chain (hmem h1) (blk_next ?m ?p) rs 0" using c'(4) e1 by (subst chain_cong [of _ ?m]) auto
    with st(1) have "chain (hmem h1) (free_head h1) (pre @ rs) 0" by (auto simp: chain_append)
    then have "chain (set_next ?p 0 (hmem h1)) (free_head h1) (pre @ rs) 0"
      using b by (subst chain_cong [of _ "hmem h1"]) (auto intro: hdr_other)
    moreover have "blk_size (set_next ?p 0 (hmem h1)) ?p = snd r"
      using e1 [of r] c'(3) b(5) by (simp add: hdr_same hdr_eq_def)
    moreover have "hdr_eq ?m (set_next ?p 0 (hmem h1)) (fst c)" if "outside hi (pre @ r # rs) c" for c
    proof (rule hdr_eq_trans)
      show "hdr_eq ?m (hmem h1) (fst c)" by (rule st(2)) (use blocks_ok_outside [OF ok that] in simp)
      show "hdr_eq (hmem h1) (set_next ?p 0 (hmem h1)) (fst c)"
        by (rule hdr_other(2)) (use blocks_ok_outside [OF ok that] in simp)
    qed
    ultimately show ?thesis using False by (simp add: t)
  next
    case True
    note bs = blocks_ok_split [OF ok sz(1,2) True]
    have "blocks_ok lo hi ((pre @ [(?p, sz)]) @ (?n, snd r - sz) # rs)" using bs by simp
    note parts = blocks_ok_parts [OF this]
    have bn: "\<And>x. x \<in> set pre \<Longrightarrow> hdr_apart (fst x) ?n" "\<And>x. x \<in> set pre \<Longrightarrow> hdr_apart ?n (fst x)"
      "hdr_apart ?p ?n" "hdr_apart ?n ?p" "\<And>x. x \<in> set rs \<Longrightarrow> hdr_apart ?n (fst x)"
      "unat ?n + 8 \<le> 4294967296" "?n \<noteq> 0"
      using parts(1) parts(2) parts(1) [of "(?p, sz)"] parts(2) [of "(?p, sz)"] parts(3,5,9) by simp_all
    define h3 where "h3 = upd_mem (set_next ?n (blk_next (set_size ?n (snd r - sz) ?m) ?p)) (upd_mem (set_size ?n (snd r - sz)) h)"
    define h4 where "h4 = store ?l ?n h3"
    have t: "take_block ?l ?p sz h = upd_mem (set_next ?p 0) (upd_mem (set_size ?p sz) h4)"
      using True by (simp add: take_block_def c' h3_def h4_def Let_def)
    have n3: "blk_size (hmem h3) ?n = snd r - sz" "blk_next (hmem h3) ?n = blk_next ?m ?p"
      using hdr_other(1) [OF bn(4)] bn(6) by (simp_all add: h3_def hdr_same hdr_fields hdr_eq_def)
    have e3: "hdr_eq ?m (hmem h3) q" if "hdr_apart ?n q" for q
      unfolding h3_def using hdr_eq_trans [OF hdr_other(1) [OF that] hdr_other(2) [OF that]] by simp
    have pre3: "\<forall>x \<in> set pre. hdr_eq ?m (hmem h3) (fst x)" using e3 bn(2) by blast
    have "chain (hmem h3) (free_head h3) pre ?p" using c'(1) pre3 by (simp add: h3_def chain_cong)
    note st = store_link_of [OF this okp, where v = ?n, folded h4_def]
    have e4: "hdr_eq (hmem h3) (hmem h4) q" if "\<And>x. x \<in> set pre \<Longrightarrow> hdr_apart (fst x) q" for q using that by (intro st(2)) simp
    have n4: "hdr_eq (hmem h3) (hmem h4) ?n" using bn(1) by (rule e4)
    have rs4: "hdr_eq ?m (hmem h4) (fst x)" if "x \<in> set rs" for x
    proof (rule hdr_eq_trans)
      show "hdr_eq ?m (hmem h3) (fst x)" using bn(5) that by (intro e3) auto
      show "hdr_eq (hmem h3) (hmem h4) (fst x)" using blocks_ok_cross(1) [OF ok] that by (intro e4) auto
    qed
    have "chain (hmem h4) (blk_next ?m ?p) rs 0" using c'(4) rs4 by (subst chain_cong [of _ ?m]) auto
    with st(1) n3 n4 bn(7) have c4: "chain (hmem h4) (free_head h4) (pre @ (?n, snd r - sz) # rs) 0"
      by (auto simp: chain_append hdr_eq_def)
    let ?h5 = "upd_mem (set_next ?p 0) (upd_mem (set_size ?p sz) h4)"
    have e5: "hdr_eq (hmem h4) (set_next ?p 0 (set_size ?p sz (hmem h4))) q" if "hdr_apart ?p q" for q
      by (rule hdr_eq_trans [OF hdr_other(1) [OF that] hdr_other(2) [OF that]])
    have "\<forall>x \<in> set (pre @ (?n, snd r - sz) # rs). hdr_eq (hmem h4) (hmem ?h5) (fst x)"
      using b bn(3) by (auto intro!: e5)
    then have "chain (hmem ?h5) (free_head ?h5) (pre @ (?n, snd r - sz) # rs) 0"
      using c4 by (subst chain_cong) auto
    moreover have "hdr_eq ?m (hmem ?h5) (fst c)" if out: "outside hi (pre @ r # rs) c" for c
    proof (rule hdr_eq_trans [OF hdr_eq_trans])
      note sp = split_parts [OF sz(2) True b(7)]
      have "hdr_apart (fst (?n, snd r - sz)) (fst c)"
        by (rule outside_apart [OF out, of r]) (use sp b(7) in \<open>simp_all add: rlo_def\<close>)
      then show "hdr_eq ?m (hmem h3) (fst c)" by (intro e3) simp
      show "hdr_eq (hmem h3) (hmem h4) (fst c)" by (rule e4) (use blocks_ok_outside [OF ok out] in simp)
      show "hdr_eq (hmem h4) (hmem ?h5) (fst c)"
        using e5 [of "fst c"] blocks_ok_outside [OF ok out, of r] by simp
    qed
    ultimately show ?thesis using True b(5) by (simp add: t hdr_same hdr_fields)
  qed
qed

lemma take_block_sel [simp]:
  "heap_start (take_block l p sz h) = heap_start h" "heap_end (take_block l p sz h) = heap_end h"
  by (simp_all add: take_block_def Let_def)

lemma kmalloc_from_spec:
  assumes "chain (hmem h) (free_head h) (pre @ rs) 0" and "blocks_ok lo hi (pre @ rs)"
    and "8 \<le> unat sz" "unat sz + 24 < 4294967296"
  shows "\<exists>p h'. kmalloc_from (link_of pre) sz h = Some (p, h') \<and>
    (case alloc_list sz rs of
       None \<Rightarrow> p = 0 \<and> h' = h
     | Some (r, rs') \<Rightarrow> p = fst r + 8 \<and> chain (hmem h') (free_head h') (pre @ rs') 0 \<and>
         blk_size (hmem h') (fst r) = snd r \<and> heap_start h' = heap_start h \<and> heap_end h' = heap_end h \<and>
         (\<forall>c. outside hi (pre @ rs) c \<longrightarrow> hdr_eq (hmem h) (hmem h') (fst c)))"
  using assms(1,2)
proof (induction rs arbitrary: pre)
  case Nil
  then show ?case using load_link_of [of h pre 0] by (subst kmalloc_from.simps) simp
next
  case (Cons r rs)
  obtain q where c: "chain (hmem h) (free_head h) pre q" "chain (hmem h) q (r # rs) 0"
    using Cons.prems(1) by (auto simp: chain_append)
  then have l: "load (link_of pre) h = fst r" "fst r \<noteq> 0" "blk_size (hmem h) (fst r) = snd r"
    using load_link_of by auto
  show ?case
  proof (cases "sz \<le> snd r")
    case True
    show ?thesis
      using take_block_spec [OF Cons.prems assms(3,4)] True
      by (subst kmalloc_from.simps) (auto simp: l Let_def split: if_splits)
  next
    case False
    have "link_of (pre @ [r]) = Next (fst r)" by (simp add: link_of_def)
    then have step: "kmalloc_from (link_of pre) sz h = kmalloc_from (link_of (pre @ [r])) sz h"
      by (subst kmalloc_from.simps) (simp add: l False Let_def)
    show ?thesis unfolding step using Cons.IH [of "pre @ [r]"] Cons.prems False
      by (cases "alloc_list sz rs") auto
  qed
qed

section \<open>Freeing\<close>

text \<open>
  The free list after \<open>kfree\<close> of block \<open>b\<close>: inserted in address order and joined with the
  blocks it touches on either side.
\<close>

fun join_list :: "region \<Rightarrow> region list \<Rightarrow> region list" where
  "join_list b [] = [b]"
| "join_list b (r # rs) = (if fst b + snd b = fst r then (fst b, snd b + snd r) # rs else b # r # rs)"

definition join_prev :: "region list \<Rightarrow> region list \<Rightarrow> region list" where
  "join_prev pre js =
     (if pre \<noteq> [] \<and> fst (last pre) + snd (last pre) = fst (hd js)
      then butlast pre @ (fst (last pre), snd (last pre) + snd (hd js)) # tl js else pre @ js)"

definition free_into :: "region \<Rightarrow> region list \<Rightarrow> region list" where
  "free_into b rs =
     join_prev (takeWhile (\<lambda>r. fst r < fst b) rs) (join_list b (dropWhile (\<lambda>r. fst r < fst b) rs))"

lemma insert_point_spec:
  assumes "chain (hmem h) (free_head h) (pre @ rs) 0"
  shows "insert_point (link_of pre) blk h = Some (link_of (pre @ takeWhile (\<lambda>r. fst r < blk) rs))"
  using assms
proof (induction rs arbitrary: pre)
  case Nil
  then show ?case using load_link_of [of h pre 0] by (subst insert_point.simps) simp
next
  case (Cons r rs)
  obtain q where c: "chain (hmem h) (free_head h) pre q" "chain (hmem h) q (r # rs) 0"
    using Cons.prems(1) by (auto simp: chain_append)
  then have l: "load (link_of pre) h = fst r" "fst r \<noteq> 0" using load_link_of by auto
  have "link_of (pre @ [r]) = Next (fst r)" by (simp add: link_of_def)
  with Cons.IH [of "pre @ [r]"] Cons.prems show ?case
    by (subst insert_point.simps) (auto simp: l Let_def)
qed

lemma find_prev_spec:
  assumes "chain m p (pre @ [r]) blk" and "hmem h = m"
    and "\<forall>x \<in> set pre. blk_next m (fst x) \<noteq> blk"
  shows "find_prev p blk h = Some (fst r)"
  using assms
proof (induction pre arbitrary: p)
  case Nil
  then show ?case by (subst find_prev.simps) auto
next
  case (Cons x pre)
  then have "p \<noteq> 0 \<and> blk_next (hmem h) p \<noteq> blk" by auto
  then have "find_prev p blk h = find_prev (blk_next (hmem h) p) blk h" by (subst find_prev.simps) simp
  with Cons show ?case by auto
qed

lemma merge_spec:
  assumes c: "chain (hmem h) (free_head h) (xs @ a # b # ys) 0" and ok: "blocks_ok lo hi (xs @ a # b # ys)"
  shows "chain (hmem (merge_blocks (fst a) (fst b) h)) (free_head (merge_blocks (fst a) (fst b) h))
    (xs @ (fst a, snd a + snd b) # ys) 0"
proof -
  let ?m = "hmem h" and ?a = "fst a" and ?b = "fst b"
  have p: "chain ?m (free_head h) xs ?a" "?a \<noteq> 0" "blk_size ?m ?a = snd a" "blk_next ?m ?a = ?b"
    "?b \<noteq> 0" "blk_size ?m ?b = snd b" "chain ?m (blk_next ?m ?b) ys 0"
    using c by (auto simp: chain_append)
  note parts = blocks_ok_parts [OF ok]
  let ?m1 = "set_size ?a (snd a + snd b) ?m" and ?nx = "blk_next ?m ?b"
  have nb: "blk_next ?m1 ?b = ?nx" using hdr_other(1) [OF parts(3) [of b]] by (simp add: hdr_eq_def)
  have m': "hmem (merge_blocks ?a ?b h) = set_next ?a ?nx ?m1" "free_head (merge_blocks ?a ?b h) = free_head h"
    by (simp_all add: merge_blocks_def Let_def p nb)
  have e: "hdr_eq ?m (set_next ?a ?nx ?m1) q" if "hdr_apart ?a q" for q
    by (rule hdr_eq_trans [OF hdr_other(1) [OF that] hdr_other(2) [OF that]])
  have "chain (set_next ?a ?nx ?m1) (free_head h) xs ?a" "chain (set_next ?a ?nx ?m1) ?nx ys 0"
    by (intro chain_keep [OF p(1)] ballI e parts(2), assumption)
       (intro chain_keep [OF p(7)] ballI e parts(3), simp)
  then show ?thesis using p(2) parts(5) by (auto simp: m' chain_append hdr_same hdr_fields)
qed

lemma merge_frame: "hdr_apart p c \<Longrightarrow> hdr_eq (hmem h) (hmem (merge_blocks p q h)) c"
  unfolding merge_blocks_def Let_def by (simp add: hdr_eq_trans [OF hdr_other(1) hdr_other(2)])

lemma join_next_frame: "hdr_apart p c \<Longrightarrow> hdr_eq (hmem h) (hmem (join_next p h)) c"
  by (simp add: join_next_def Let_def merge_frame)

lemma merge_sel [simp]:
  "heap_start (merge_blocks p q h) = heap_start h" "heap_end (merge_blocks p q h) = heap_end h"
  by (simp_all add: merge_blocks_def Let_def)

lemma touching:
  assumes "blocks_ok lo hi (xs @ a # b # ys)" and "fst a + snd a = fst b"
  shows "rhi a = rlo b" and "rlo (fst a, snd a + snd b) = rlo a" and "rhi (fst a, snd a + snd b) = rhi b"
    and "unat (snd a + snd b) = unat (snd a) + unat (snd b)"
proof -
  have "rhi a \<le> unat hi" "rhi b \<le> unat hi" using assms(1) by (simp_all add: blocks_ok_iff)
  then show t: "rhi a = rlo b" using rhi_nat [of a hi] assms(2) by (simp add: rlo_def)
  show "rlo (fst a, snd a + snd b) = rlo a" by (simp add: rlo_def)
  have "unat (snd a) + unat (snd b) < 4294967296"
    using t \<open>rhi b \<le> unat hi\<close> u32_bound [of hi] by (simp add: rlo_def rhi_def)
  then show u: "unat (snd a + snd b) = unat (snd a) + unat (snd b)" by (simp add: unat_word_ariths)
  show "rhi (fst a, snd a + snd b) = rhi b" using t u by (simp add: rlo_def rhi_def)
qed

lemma blocks_ok_merge:
  assumes "blocks_ok lo hi (xs @ a # b # ys)" and "fst a + snd a = fst b"
  shows "blocks_ok lo hi (xs @ (fst a, snd a + snd b) # ys)"
  using assms(1) unfolding blocks_ok_iff by (auto simp: sorted_wrt_append touching [OF assms])

lemma join_next_spec:
  assumes c: "chain (hmem h) (free_head h) (xs @ b # ys) 0" and ok: "blocks_ok lo hi (xs @ b # ys)"
  shows "chain (hmem (join_next (fst b) h)) (free_head (join_next (fst b) h)) (xs @ join_list b ys) 0"
    and "blocks_ok lo hi (xs @ join_list b ys)"
proof -
  have p: "blk_size (hmem h) (fst b) = snd b" "chain (hmem h) (blk_next (hmem h) (fst b)) ys 0"
    using c by (auto simp: chain_append)
  show "chain (hmem (join_next (fst b) h)) (free_head (join_next (fst b) h)) (xs @ join_list b ys) 0"
    using p c merge_spec ok by (cases ys) (auto simp: join_next_def Let_def)
  show "blocks_ok lo hi (xs @ join_list b ys)"
    using ok blocks_ok_merge by (cases ys) auto
qed

lemma join_next_sel [simp]:
  "heap_start (join_next p h) = heap_start h" "heap_end (join_next p h) = heap_end h"
  by (simp_all add: join_next_def Let_def)

lemma join_list_hd: "\<exists>n rs. join_list b ys = (fst b, n) # rs"
  by (cases ys) (auto intro: prod.collapse [symmetric])

lemma next_in_chain:
  "chain m p (pre @ [r]) blk \<Longrightarrow> \<forall>x \<in> set (pre @ [r]). fst x \<noteq> blk \<Longrightarrow> x \<in> set pre \<Longrightarrow> blk_next m (fst x) \<noteq> blk"
proof (induction pre arbitrary: p)
  case (Cons y pre)
  have "chain m (blk_next m (fst y)) (pre @ [r]) blk" using Cons.prems(1) by auto
  then have "blk_next m (fst y) = fst (hd (pre @ [r]))" by (cases pre) auto
  moreover have "hd (pre @ [r]) \<in> set (pre @ [r])" by (cases pre) auto
  ultimately show ?case using Cons by auto
qed simp

lemma kfree_spec:
  fixes b :: region
  assumes c: "chain (hmem h) (free_head h) rs 0" and b: "blk_size (hmem h) (fst b) = snd b"
    and ok: "blocks_ok lo hi (takeWhile (\<lambda>r. fst r < fst b) rs @ b # dropWhile (\<lambda>r. fst r < fst b) rs)"
  shows "\<exists>h'. kfree (fst b + 8) h = Some h' \<and> chain (hmem h') (free_head h') (free_into b rs) 0 \<and>
    blocks_ok lo hi (free_into b rs) \<and> heap_start h' = heap_start h \<and> heap_end h' = heap_end h \<and>
    (\<forall>c. outside hi (b # rs) c \<longrightarrow> hdr_eq (hmem h) (hmem h') (fst c))"
proof -
  define pre post where "pre = takeWhile (\<lambda>r. fst r < fst b) rs" and "post = dropWhile (\<lambda>r. fst r < fst b) rs"
  let ?b = "fst b" and ?m = "hmem h"
  have rs: "rs = pre @ post" by (simp add: pre_def post_def)
  note ok = ok [folded pre_def post_def]
  note parts = blocks_ok_parts [OF ok]
  have okp: "blocks_ok lo hi pre" using ok by (rule blocks_ok_prefix)
  have ins: "insert_point Head ?b h = Some (link_of pre)"
    using insert_point_spec [of h "[]" rs ?b] c by (simp add: link_of_def pre_def)
  obtain q where q: "chain ?m (free_head h) pre q" "chain ?m q post 0" using c rs by (auto simp: chain_append)
  then have l: "load (link_of pre) h = q" by (simp add: load_link_of)
  define h1 where "h1 = upd_mem (set_next ?b q) h"
  have e1: "hdr_eq ?m (hmem h1) p" if "hdr_apart ?b p" for p using hdr_other(2) [OF that] by (simp add: h1_def)
  have f1: "free_head h1 = free_head h" by (simp add: h1_def)
  have c1: "chain (hmem h1) (free_head h1) pre q" "chain (hmem h1) q post 0"
    unfolding f1 using e1 parts(2,3) by (auto intro!: chain_keep [OF q(1)] chain_keep [OF q(2)])
  have b1: "blk_size (hmem h1) ?b = snd b" "blk_next (hmem h1) ?b = q"
    using b parts(5) by (simp_all add: h1_def hdr_same hdr_fields)
  define h3 where "h3 = store (link_of pre) ?b h1"
  note st = store_link_of [OF c1(1) okp, where v = ?b, folded h3_def]
  have e3: "hdr_eq (hmem h1) (hmem h3) (fst y)" if "y \<in> set (b # post)" for y
    by (rule st(2)) (use blocks_ok_cross(1) [OF ok _ that] in blast)
  have "chain (hmem h3) q post 0" using e3 by (auto intro!: chain_keep [OF c1(2)])
  then have c3: "chain (hmem h3) (free_head h3) (pre @ b # post) 0"
    using st(1) b1 e3 [of b] parts(9) by (auto simp: chain_append hdr_eq_def)
  define h4 where "h4 = join_next ?b h3"
  note jn = join_next_spec [OF c3 ok, folded h4_def]
  have sel: "heap_start h4 = heap_start h" "heap_end h4 = heap_end h" by (simp_all add: h4_def h3_def h1_def)
  have k: "kfree (?b + 8) h = (if link_of pre = Head then Some h4
      else case find_prev (free_head h4) ?b h4 of None \<Rightarrow> None
        | Some prev \<Rightarrow> if prev \<noteq> 0 \<and> prev + blk_size (hmem h4) prev = ?b then Some (merge_blocks prev ?b h4) else Some h4)"
    if "?b + 8 \<noteq> 0" using that unfolding h4_def h3_def h1_def by (simp add: kfree_def Let_def ins l)
  have "?b + 8 \<noteq> 0"
  proof
    assume "?b + 8 = 0"
    then have "unat (?b + of_nat 8) = 0" by simp
    moreover have "unat ?b + 8 < 4294967296" 
      using parts(6,7) u32_bound [of hi] by (simp add: rhi_def)
    ultimately show False using unat_plus_small [of ?b 8] by simp
  qed
  note k = k [OF this]
  have out: "hdr_apart (fst x) (fst c)" if "outside hi (b # rs) c" "x \<in> set (pre @ b # post)" for c x
    using blocks_ok_outside [OF ok, of c] that by (auto simp: outside_def rs)
  have e4: "hdr_eq ?m (hmem h4) (fst c)" if "outside hi (b # rs) c" for c
  proof (rule hdr_eq_trans [OF hdr_eq_trans])
    show "hdr_eq ?m (hmem h1) (fst c)" by (rule e1) (use out [OF that] in simp)
    show "hdr_eq (hmem h1) (hmem h3) (fst c)" by (rule st(2)) (use out [OF that] in simp)
    show "hdr_eq (hmem h3) (hmem h4) (fst c)"
      unfolding h4_def by (rule join_next_frame) (use out [OF that] in simp)
  qed
  have e4': "\<forall>c. outside hi (b # rs) c \<longrightarrow> hdr_eq ?m (hmem h4) (fst c)" using e4 by blast
  show ?thesis
  proof (cases pre rule: rev_cases)
    case Nil
    with k jn sel e4' show ?thesis by (simp add: link_of_def free_into_def pre_def post_def join_prev_def)
  next
    case (snoc pre' x)
    obtain n js where js: "join_list b post = (?b, n) # js" using join_list_hd by blast
    have c4: "chain (hmem h4) (free_head h4) (pre' @ x # (?b, n) # js) 0" "blocks_ok lo hi (pre' @ x # (?b, n) # js)"
      using jn by (simp_all add: snoc js)
    have "chain (hmem h4) (free_head h4) (pre' @ [x]) ?b" using c4(1) by (auto simp: chain_append)
    moreover have "\<forall>y \<in> set pre'. blk_next (hmem h4) (fst y) \<noteq> ?b"
    proof
      fix y assume y: "y \<in> set pre'"
      have "\<forall>y \<in> set (pre' @ [x]). fst y \<noteq> ?b"
      proof
        fix y assume "y \<in> set (pre' @ [x])"
        then show "fst y \<noteq> ?b" using hdr_apart_neq [OF parts(1) [of y]] snoc by simp
      qed
      from next_in_chain [OF calculation this y] show "blk_next (hmem h4) (fst y) \<noteq> ?b" .
    qed
    ultimately have fp: "find_prev (free_head h4) ?b h4 = Some (fst x)" by (intro find_prev_spec) auto
    have x: "fst x \<noteq> 0" "blk_size (hmem h4) (fst x) = snd x" using c4(1) by (auto simp: chain_append)
    have "link_of pre \<noteq> Head" by (simp add: link_of_def snoc)
    with k fp x have k': "kfree (?b + 8) h = Some (if fst x + snd x = ?b then merge_blocks (fst x) ?b h4 else h4)"
      by simp
    have fi: "free_into b rs = (if fst x + snd x = ?b then pre' @ (fst x, snd x + n) # js else pre' @ x # (?b, n) # js)"
      by (simp add: free_into_def pre_def [symmetric] post_def [symmetric] js snoc join_prev_def)
    have e5: "hdr_eq ?m (hmem (merge_blocks (fst x) ?b h4)) (fst c)" if "outside hi (b # rs) c" for c
      using out [OF that, of x] snoc by (intro hdr_eq_trans [OF e4 [OF that] merge_frame]) simp
    then have e5': "\<forall>c. outside hi (b # rs) c \<longrightarrow> hdr_eq ?m (hmem (merge_blocks (fst x) ?b h4)) (fst c)" by blast
    show ?thesis
      using merge_spec [OF c4] blocks_ok_merge [OF c4(2)] c4 sel e4' e5' by (simp add: k' fi)
  qed
qed

section \<open>The heap keeps its blocks apart\<close>

abbreviation total_size :: "region list \<Rightarrow> nat" where
  "total_size rs \<equiv> sum_list (map (\<lambda>r. unat (snd r)) rs)"

lemma kmalloc_size:
  assumes "n \<le> 0xFFFFFF00"
  shows "8 \<le> unat (align4 (n + 8))" and "unat (align4 (n + 8)) + 24 < 4294967296"
    and "unat n + 8 \<le> unat (align4 (n + 8))"
proof -
  have n: "unat n \<le> 4294967040" using assms by (simp add: word_le_nat_alt)
  then have u: "unat (n + 8) = unat n + 8" by (simp add: unat_word_ariths)
  then have "n + 8 \<le> 0xFFFFFFFC" using n by (simp add: word_le_nat_alt)
  from unat_align4 [OF this] u n show "8 \<le> unat (align4 (n + 8))"
    and "unat (align4 (n + 8)) + 24 < 4294967296" and "unat n + 8 \<le> unat (align4 (n + 8))"
    by linarith+
qed

lemma kmalloc_spec:
  assumes "chain (hmem h) (free_head h) rs 0" and "blocks_ok lo hi rs" and "n \<le> 0xFFFFFF00"
  shows "\<exists>p h'. kmalloc n h = Some (p, h') \<and>
    (case alloc_list (align4 (n + 8)) rs of
       None \<Rightarrow> p = 0 \<and> h' = h
     | Some (r, rs') \<Rightarrow> p = fst r + 8 \<and> chain (hmem h') (free_head h') rs' 0 \<and>
         blk_size (hmem h') (fst r) = snd r \<and> heap_start h' = heap_start h \<and> heap_end h' = heap_end h \<and>
         (\<forall>c. outside hi rs c \<longrightarrow> hdr_eq (hmem h) (hmem h') (fst c)))"
  using kmalloc_from_spec [of h "[]" rs lo hi "align4 (n + 8)", unfolded append_Nil] assms kmalloc_size
  by (simp add: kmalloc_def link_of_def)

text \<open>
  What first fit does to the blocks: the free blocks before it (\<open>rs\<close>) are the block given out
  and the free blocks after it.
\<close>

lemma alloc_list_parts:
  assumes "alloc_list sz rs = Some (r, rs')" and "blocks_ok lo hi (pre @ rs)" and "8 \<le> unat sz" and "unat sz + 24 < 4294967296"
  shows "blocks_ok lo hi (pre @ rs')" and "\<exists>us vs. blocks_ok lo hi (us @ r # vs) \<and> pre @ rs' = us @ vs"
    and "total_size rs = unat (snd r) + total_size rs'" and "sz \<le> snd r"
    and "\<forall>c. outside hi rs c \<longrightarrow> apart r c \<and> outside hi rs' c"
proof -
  have "blocks_ok lo hi (pre @ rs') \<and> (\<exists>us vs. blocks_ok lo hi (us @ r # vs) \<and> pre @ rs' = us @ vs) \<and>
    total_size rs = unat (snd r) + total_size rs' \<and> sz \<le> snd r \<and>
    (\<forall>c. outside hi rs c \<longrightarrow> apart r c \<and> outside hi rs' c)"
    using assms
  proof (induction rs arbitrary: pre rs')
    case (Cons a rs)
    show ?case
    proof (cases "sz \<le> snd a")
      case False
      with Cons.prems(1) obtain rs2 where r: "alloc_list sz rs = Some (r, rs2)" "rs' = a # rs2" by auto
      with Cons.IH [of rs2 "pre @ [a]"] Cons.prems show ?thesis by (auto simp: outside_def)
    next
      case True
      show ?thesis
      proof (cases "sz + 8 + 16 \<le> snd a")
        case False
        with True Cons.prems(1) have r: "r = a" "rs' = rs" by (auto split: if_splits)
        have "blocks_ok lo hi (pre @ rs)" using Cons.prems(2) by (simp add: blocks_ok_iff sorted_wrt_append)
        with r True Cons.prems show ?thesis by (auto simp: outside_def)
      next
        case fits: True
        with True Cons.prems have r: "r = (fst a, sz)" "rs' = (fst a + sz, snd a - sz) # rs" by simp_all
        have hi: "rhi a \<le> unat hi" using Cons.prems(2) by (simp add: blocks_ok_iff)
        note sp = split_parts [OF Cons.prems(4) fits hi]
        have b: "blocks_ok lo hi (pre @ r # rs')"
          using blocks_ok_split [OF Cons.prems(2,3,4) fits] r by simp
        then have "blocks_ok lo hi (pre @ rs')" by (simp add: blocks_ok_iff sorted_wrt_append)
        moreover have "apart r c \<and> outside hi rs' c" if "outside hi (a # rs) c" for c
          using that sp(3) by (auto simp: outside_def apart_def r sp(4-7) rhi_def [of a] rlo_def [of a])
        ultimately show ?thesis using b r sp(2,3) by auto
      qed
    qed
  qed simp
  then show "blocks_ok lo hi (pre @ rs')" and "\<exists>us vs. blocks_ok lo hi (us @ r # vs) \<and> pre @ rs' = us @ vs"
    and "total_size rs = unat (snd r) + total_size rs'" and "sz \<le> snd r"
    and "\<forall>c. outside hi rs c \<longrightarrow> apart r c \<and> outside hi rs' c" by blast+
qed

lemma insert_ok:
  assumes ok: "blocks_ok lo hi rs" and out: "outside hi rs b" and lo: "unat lo \<le> rlo b"
  shows "blocks_ok lo hi (takeWhile (\<lambda>r. fst r < fst b) rs @ b # dropWhile (\<lambda>r. fst r < fst b) rs)"
proof -
  let ?P = "\<lambda>r. fst r < fst b"
  have rs: "set (takeWhile ?P rs) \<union> set (dropWhile ?P rs) = set rs"
    by (metis set_append takeWhile_dropWhile_id)
  have sz: "8 \<le> unat (snd x)" if "x \<in> set rs" for x using ok that by (simp add: blocks_ok_iff)
  have b8: "8 \<le> unat (snd b)" using out by (simp add: outside_def)
  have ap: "apart x b" if "x \<in> set rs" for x using out that by (simp add: outside_def)
  have "sorted_wrt (\<lambda>a b. rhi a \<le> rlo b) (takeWhile ?P rs @ dropWhile ?P rs)" using ok by (simp add: blocks_ok_iff)
  note srt = this [unfolded sorted_wrt_append]
  have 1: "rhi x \<le> rlo b" if "x \<in> set (takeWhile ?P rs)" for x
  proof -
    have "fst x < fst b" "x \<in> set rs" using that rs by (auto dest: set_takeWhileD)
    with ap [of x] show ?thesis by (auto simp: apart_def rlo_def rhi_def word_less_nat_alt)
  qed
  have 2: "rhi b \<le> rlo y" if y: "y \<in> set (dropWhile ?P rs)" for y
  proof -
    have "\<not> fst y < fst b"
    proof (cases "dropWhile ?P rs")
      case (Cons z zs)
      then have z: "\<not> fst z < fst b" by (metis dropWhile_eq_Cons_conv)
      have "z = y \<or> rhi z \<le> rlo y" using srt y Cons by auto
      then show ?thesis using z by (auto simp: rlo_def rhi_def word_less_nat_alt)
    next
      case Nil
      with y show ?thesis by simp
    qed
    moreover have "y \<in> set rs" using y rs by auto
    ultimately show ?thesis using ap [of y] sz [of y] b8 by (auto simp: apart_def rlo_def rhi_def word_less_nat_alt)
  qed
  show ?thesis
    using ok srt 1 2 out lo rs unfolding blocks_ok_iff
    by (auto simp: sorted_wrt_append outside_def)
qed

lemma outside_merge:
  assumes "outside hi (a # b # rs) c" and "rhi a = rlo b" and "rlo m = rlo a" and "rhi m = rhi b"
  shows "outside hi (m # rs) c"
proof -
  have "rlo c < rhi c" using assms(1) by (simp add: outside_def rlo_def rhi_def)
  with assms show ?thesis by (auto simp: outside_def apart_def)
qed

lemma free_into_parts:
  assumes ok: "blocks_ok lo hi (takeWhile (\<lambda>r. fst r < fst b) rs @ b # dropWhile (\<lambda>r. fst r < fst b) rs)"
  shows "total_size (free_into b rs) = unat (snd b) + total_size rs"
    and "outside hi (b # rs) c \<Longrightarrow> outside hi (free_into b rs) c"
proof -
  define pre post where "pre = takeWhile (\<lambda>r. fst r < fst b) rs" and "post = dropWhile (\<lambda>r. fst r < fst b) rs"
  have rs: "rs = pre @ post" by (simp add: pre_def post_def)
  note ok = ok [folded pre_def post_def]
  have fi: "free_into b rs = join_prev pre (join_list b post)" by (simp add: free_into_def pre_def post_def)
  obtain n js where js: "join_list b post = (fst b, n) # js" using join_list_hd by blast
  have j: "blocks_ok lo hi (pre @ (fst b, n) # js) \<and> total_size ((fst b, n) # js) = unat (snd b) + total_size post \<and>
      (outside hi (b # post) c \<longrightarrow> outside hi ((fst b, n) # js) c)"
  proof (cases post)
    case Nil
    with js ok show ?thesis by auto
  next
    case (Cons x xs)
    show ?thesis
    proof (cases "fst b + snd b = fst x")
      case True
      note t = touching [OF ok [unfolded Cons] True]
      have "n = snd b + snd x" "js = xs" using js Cons True by simp_all
      with blocks_ok_merge [OF ok [unfolded Cons] True] t Cons outside_merge [OF _ t(1,2,3), of hi xs c]
      show ?thesis by auto
    next
      case False
      with js Cons ok show ?thesis by auto
    qed
  qed
  show "total_size (free_into b rs) = unat (snd b) + total_size rs"
    and "outside hi (b # rs) c \<Longrightarrow> outside hi (free_into b rs) c"
  proof -
    have "total_size (free_into b rs) = unat (snd b) + total_size rs \<and> (outside hi (b # rs) c \<longrightarrow> outside hi (free_into b rs) c)"
    proof (cases pre rule: rev_cases)
      case Nil
      then have "free_into b rs = (fst b, n) # js" unfolding fi js by (simp add: join_prev_def)
      moreover have "rs = post" using Nil by (simp add: rs)
      ultimately show ?thesis using j Nil by simp
    next
      case (snoc pre' x)
      show ?thesis
      proof (cases "fst x + snd x = fst b")
        case True
        have ok': "blocks_ok lo hi (pre' @ x # (fst b, n) # js)" using j snoc by simp
        have "fst x + snd x = fst (fst b, n)" using True by simp
        note t = touching [OF ok' this]
        have "free_into b rs = pre' @ (fst x, snd x + n) # js"
          using True by (simp add: fi js snoc join_prev_def)
        moreover have "outside hi (pre' @ (fst x, snd x + n) # js) c" if "outside hi (b # rs) c"
        proof -
          have "outside hi ((fst b, n) # js) c" using that j by (simp add: outside_def rs)
          then have "outside hi (x # (fst b, n) # js) c" using that by (simp add: outside_def rs snoc)
          from outside_merge [OF this t(1,2,3)] show ?thesis using that by (auto simp: outside_def rs snoc)
        qed
        moreover have "total_size rs + unat (snd b) = total_size pre' + unat (snd x + n) + total_size js"
          using j t(4) by (simp add: rs snoc)
        ultimately show ?thesis by simp
      next
        case False
        then have f: "free_into b rs = pre @ (fst b, n) # js"
          by (simp add: fi js snoc join_prev_def)
        have "total_size pre + total_size ((fst b, n) # js) = unat (snd b) + total_size rs"
          using j by (simp add: rs)
        moreover have "outside hi (pre @ (fst b, n) # js) c" if "outside hi (b # rs) c"
          using that j by (auto simp: outside_def rs)
        ultimately show ?thesis unfolding f by simp
      qed
    qed
    then show "total_size (free_into b rs) = unat (snd b) + total_size rs"
      and "outside hi (b # rs) c \<Longrightarrow> outside hi (free_into b rs) c" by blast+
  qed
qed

text \<open>A client that keeps the blocks it was given and frees any of them.\<close>

datatype heap_op = Malloc u32 | Release nat

fun heap_step :: "heap_op \<Rightarrow> region list \<times> kheap \<Rightarrow> (region list \<times> kheap) option" where
  "heap_step (Malloc n) (held, h) =
     map_option (\<lambda>(p, h'). (if p = 0 then held else (p - 8, blk_size (hmem h') (p - 8)) # held, h')) (kmalloc n h)"
| "heap_step (Release k) (held, h) =
     (if k < length held
      then map_option (\<lambda>h'. (take k held @ drop (Suc k) held, h')) (kfree (fst (held ! k) + 8) h)
      else Some (held, h))"

primrec heap_run :: "heap_op list \<Rightarrow> region list \<times> kheap \<Rightarrow> (region list \<times> kheap) option" where
  "heap_run [] x = Some x"
| "heap_run (op # ops) x = Option.bind (heap_step op x) (heap_run ops)"

definition held_ok :: "u32 \<Rightarrow> u32 \<Rightarrow> region list \<Rightarrow> region list \<Rightarrow> memory \<Rightarrow> bool" where
  "held_ok lo hi held rs m \<longleftrightarrow> sorted_wrt apart held \<and>
     (\<forall>b \<in> set held. outside hi rs b \<and> unat lo \<le> rlo b \<and> blk_size m (fst b) = snd b)"

definition heap_inv :: "nat \<Rightarrow> u32 \<Rightarrow> u32 \<Rightarrow> region list \<Rightarrow> kheap \<Rightarrow> bool" where
  "heap_inv tot lo hi held h \<longleftrightarrow> (\<exists>rs. chain (hmem h) (free_head h) rs 0 \<and> blocks_ok lo hi rs \<and>
     held_ok lo hi held rs (hmem h) \<and> total_size held + total_size rs = tot)"

lemma heap_step_inv:
  assumes inv: "heap_inv tot lo hi held h" and op: "\<And>n. op = Malloc n \<Longrightarrow> n \<le> 0xFFFFFF00"
  shows "\<exists>held' h'. heap_step op (held, h) = Some (held', h') \<and> heap_inv tot lo hi held' h'"
proof -
  obtain rs where c: "chain (hmem h) (free_head h) rs 0" and ok: "blocks_ok lo hi rs"
    and hd: "held_ok lo hi held rs (hmem h)" and sum: "total_size held + total_size rs = tot"
    using inv by (auto simp: heap_inv_def)
  show ?thesis
  proof (cases op)
    case (Malloc n)
    then have n: "n \<le> 0xFFFFFF00" using op by simp
    obtain p h' where k: "kmalloc n h = Some (p, h')" and r: "case alloc_list (align4 (n + 8)) rs of
       None \<Rightarrow> p = 0 \<and> h' = h
     | Some (r, rs') \<Rightarrow> p = fst r + 8 \<and> chain (hmem h') (free_head h') rs' 0 \<and>
         blk_size (hmem h') (fst r) = snd r \<and> heap_start h' = heap_start h \<and> heap_end h' = heap_end h \<and>
         (\<forall>c. outside hi rs c \<longrightarrow> hdr_eq (hmem h) (hmem h') (fst c))"
      using kmalloc_spec [OF c ok n] by blast
    show ?thesis
    proof (cases "alloc_list (align4 (n + 8)) rs")
      case None
      with r k inv Malloc show ?thesis by simp
    next
      case (Some x)
      obtain b rs' where x: "x = (b, rs')" by (cases x)
      note parts = alloc_list_parts [OF Some [unfolded x] _ kmalloc_size(1,2) [OF n], of lo hi "[]", simplified, OF ok]
      obtain us vs where uv: "blocks_ok lo hi (us @ b # vs)" "rs' = us @ vs" using parts(2) by auto
      note bp = blocks_ok_parts [OF uv(1)]
      have bout: "outside hi rs' b"
        using uv bp(6,7) by (auto simp: outside_def blocks_ok_iff sorted_wrt_append apart_def)
      have nz: "fst b + 8 \<noteq> 0"
      proof
        assume "fst b + 8 = 0"
        then have "unat (fst b + of_nat 8) = 0" by simp
        moreover have "unat (fst b) + 8 < 4294967296" using bp(6,7) u32_bound [of hi] by (simp add: rhi_def)
        ultimately show False using unat_plus_small [of "fst b" 8] by simp
      qed
      have rr: "p = fst b + 8" "chain (hmem h') (free_head h') rs' 0" "blk_size (hmem h') (fst b) = snd b"
        "\<forall>c. outside hi rs c \<longrightarrow> hdr_eq (hmem h) (hmem h') (fst c)" using r Some x by simp_all
      have "blk_size (hmem h') (fst x) = snd x" if "x \<in> set held" for x
      proof -
        have x: "outside hi rs x" "blk_size (hmem h) (fst x) = snd x" using hd that by (auto simp: held_ok_def)
        with rr(4) have "hdr_eq (hmem h) (hmem h') (fst x)" by blast
        with x(2) show ?thesis by (simp add: hdr_eq_def)
      qed
      then have "held_ok lo hi (b # held) rs' (hmem h')"
        using hd parts(5) rr(3) bout bp(8) by (auto simp: held_ok_def)
      then have "heap_inv tot lo hi (b # held) h'"
        using rr(2) parts(1,3) sum by (auto simp: heap_inv_def intro!: exI [of _ rs'])
      then show ?thesis using Malloc k rr(1,3) nz by simp
    qed
  next
    case (Release k)
    show ?thesis
    proof (cases "k < length held")
      case False
      with Release inv show ?thesis by simp
    next
      case True
      define b where "b = held ! k"
      have split: "held = take k held @ b # drop (Suc k) held" using True by (simp add: b_def id_take_nth_drop)
      define rest where "rest = take k held @ drop (Suc k) held"
      have b: "outside hi rs b" "unat lo \<le> rlo b" "blk_size (hmem h) (fst b) = snd b"
        using hd True by (auto simp: held_ok_def b_def)
      note io = insert_ok [OF ok b(1,2)]
      obtain h' where f: "kfree (fst b + 8) h = Some h'" "chain (hmem h') (free_head h') (free_into b rs) 0"
        "blocks_ok lo hi (free_into b rs)" "\<forall>c. outside hi (b # rs) c \<longrightarrow> hdr_eq (hmem h) (hmem h') (fst c)"
        using kfree_spec [OF c b(3) io] by blast
      have srt: "sorted_wrt apart (take k held @ b # drop (Suc k) held)" using hd split by (simp add: held_ok_def)
      have sub: "set rest \<subseteq> set held" unfolding rest_def by (auto dest: in_set_takeD in_set_dropD)
      have ap: "apart b x" if "x \<in> set rest" for x
        using srt that by (auto simp: sorted_wrt_append rest_def apart_def)
      have out: "outside hi (b # rs) x" if "x \<in> set rest" for x
        using hd sub that ap [OF that] by (auto simp: held_ok_def outside_def)
      have sz: "blk_size (hmem h') (fst x) = snd x" if "x \<in> set rest" for x
      proof -
        have "blk_size (hmem h) (fst x) = snd x" using hd sub that by (auto simp: held_ok_def)
        moreover have "hdr_eq (hmem h) (hmem h') (fst x)" using out [OF that] f(4) by blast
        ultimately show ?thesis by (simp add: hdr_eq_def)
      qed
      have "sorted_wrt apart rest" using srt by (simp add: rest_def sorted_wrt_append)
      then have "held_ok lo hi rest (free_into b rs) (hmem h')"
        using hd sub sz free_into_parts(2) [OF io out] by (auto simp: held_ok_def)
      moreover have "total_size held = unat (snd b) + total_size rest"
        by (subst split) (simp add: rest_def)
      then have "total_size rest + total_size (free_into b rs) = tot"
        using sum free_into_parts(1) [OF io] by simp
      ultimately have "heap_inv tot lo hi rest h'" using f(2,3) by (auto simp: heap_inv_def)
      then show ?thesis using Release True f(1) by (simp add: b_def rest_def)
    qed
  qed
qed

lemma heap_run_inv:
  "heap_inv tot lo hi held h \<Longrightarrow> \<forall>n. Malloc n \<in> set ops \<longrightarrow> n \<le> 0xFFFFFF00 \<Longrightarrow>
     \<exists>held' h'. heap_run ops (held, h) = Some (held', h') \<and> heap_inv tot lo hi held' h'"
proof (induction ops arbitrary: held h)
  case (Cons op ops)
  obtain held1 h1 where s: "heap_step op (held, h) = Some (held1, h1)" "heap_inv tot lo hi held1 h1"
    using heap_step_inv [OF Cons.prems(1), of op] Cons.prems(2) by auto
  from Cons.IH [OF s(2)] Cons.prems(2) s(1) show ?case by simp
qed simp

lemma mem_init_inv:
  assumes "align4 a \<noteq> 0" and "unat (align4 a) + 8 \<le> unat (b AND NOT 3)"
  shows "heap_inv (unat ((b AND NOT 3) - align4 a)) (align4 a) (b AND NOT 3) [] (mem_init a b h)"
proof -
  define lo hi where "lo = align4 a" and "hi = b AND NOT 3"
  have u: "unat (hi - lo) = unat hi - unat lo" using assms(2) by (simp add: lo_def hi_def unat_sub word_le_nat_alt)
  have lim: "unat lo + 8 \<le> 4294967296" using assms(2) u32_bound [of hi] by (simp add: lo_def hi_def)
  have m: "mem_init a b h = h\<lparr>heap_start := lo, heap_end := hi, free_head := lo,
      hmem := set_next lo 0 (set_size lo (hi - lo) (hmem h))\<rparr>"
    by (simp add: mem_init_def lo_def hi_def Let_def)
  have "chain (hmem (mem_init a b h)) (free_head (mem_init a b h)) [(lo, hi - lo)] 0"
    using assms(1) lim by (simp add: m hdr_same hdr_fields) (simp add: lo_def)
  moreover have "blocks_ok lo hi [(lo, hi - lo)]"
    using assms u by (simp add: blocks_ok_iff rlo_def rhi_def lo_def hi_def)
  ultimately show ?thesis
    unfolding heap_inv_def lo_def [symmetric] hi_def [symmetric]
    by (intro exI [of _ "[(lo, hi - lo)]"]) (simp add: held_ok_def del: chain.simps)
qed

lemma kmem_walk_spec:
  assumes "chain (hmem h) p rs 0" and "unat f + total_size rs < 4294967296"
  shows "\<exists>f' l'. kmem_walk p f l h = Some (f', l') \<and> unat f' = unat f + total_size rs"
  using assms
proof (induction rs arbitrary: p f l)
  case Nil
  then show ?case by (subst kmem_walk.simps) simp
next
  case (Cons r rs)
  have "unat (f + snd r) = unat f + unat (snd r)" using Cons.prems(2) by (simp add: unat_word_ariths)
  with Cons.prems(2) have le: "unat (f + snd r) + total_size rs < 4294967296" by simp
  define l1 where "l1 = (if snd r > l then snd r else l)"
  have "p \<noteq> 0" "blk_size (hmem h) p = snd r" using Cons.prems(1) by auto
  then have "kmem_walk p f l h = kmem_walk (blk_next (hmem h) p) (f + snd r) l1 h"
    by (subst kmem_walk.simps) (simp add: Let_def l1_def)
  with Cons.IH [of "blk_next (hmem h) p" "f + snd r" l1] Cons.prems(1) le
    \<open>unat (f + snd r) = unat f + unat (snd r)\<close> show ?case by auto
qed

lemma total_size_le:
  "laid_out g hi rs \<Longrightarrow> g + total_size rs \<le> unat hi"
proof (induction rs arbitrary: g)
  case (Cons r rs)
  from Cons.IH [of "rhi r"] Cons.prems show ?case by (simp add: rlo_def rhi_def)
qed simp

text \<open>
  C4. Starting from \<open>mem_init\<close>, every sequence of \<open>kmalloc\<close>s (of at most 0xFFFFFF00 bytes, so that
  rounding does not wrap) and \<open>kfree\<close>s of blocks the client holds returns: no list is ever
  cyclic. Afterwards the blocks the client holds lie inside the heap and do not overlap, each
  header still tells its size, and together with what \<open>kmem_stats\<close> counts as free they are
  exactly the heap, so no byte is lost or given out twice.
\<close>

theorem heap_conserved:
  assumes "align4 a \<noteq> 0" and "unat (align4 a) + 8 \<le> unat (b AND NOT 3)"
    and "\<forall>n. Malloc n \<in> set ops \<longrightarrow> n \<le> 0xFFFFFF00"
  shows "\<exists>held h' t f l. heap_run ops ([], mem_init a b h) = Some (held, h') \<and>
    sorted_wrt apart held \<and>
    (\<forall>x \<in> set held. unat (align4 a) \<le> rlo x \<and> rhi x \<le> unat (b AND NOT 3) \<and> blk_size (hmem h') (fst x) = snd x) \<and>
    kmem_stats h' = Some (t, f, l) \<and>
    total_size held + unat f = unat ((b AND NOT 3) - align4 a)"
proof -
  obtain held h' where r: "heap_run ops ([], mem_init a b h) = Some (held, h')"
    and inv: "heap_inv (unat ((b AND NOT 3) - align4 a)) (align4 a) (b AND NOT 3) held h'"
    using heap_run_inv [OF mem_init_inv [OF assms(1,2)] assms(3)] by blast
  then obtain rs where rs: "chain (hmem h') (free_head h') rs 0" "blocks_ok (align4 a) (b AND NOT 3) rs"
    "held_ok (align4 a) (b AND NOT 3) held rs (hmem h')"
    "total_size held + total_size rs = unat ((b AND NOT 3) - align4 a)" by (auto simp: heap_inv_def)
  have "total_size rs < 4294967296"
    using total_size_le [of "unat (align4 a)" "b AND NOT 3" rs] rs(2) u32_bound [of "b AND NOT 3"]
    by (simp add: blocks_ok_def)
  then obtain f l where w: "kmem_walk (free_head h') 0 0 h' = Some (f, l)" "unat f = total_size rs"
    using kmem_walk_spec [OF rs(1), of 0 0] by auto
  with r rs(3,4) show ?thesis by (auto simp: kmem_stats_def held_ok_def outside_def)
qed

theorem heap_conserved_witness:
  "\<exists>held h' t f l. heap_run [Malloc 100, Malloc 8, Release 1] ([], mem_init 0x1002 0x2000
      \<lparr>hmem = (\<lambda>_. 0), free_head = 0, heap_start = 0, heap_end = 0\<rparr>) = Some (held, h') \<and>
    sorted_wrt apart held \<and>
    (\<forall>x \<in> set held. unat (align4 0x1002) \<le> rlo x \<and> rhi x \<le> unat ((0x2000 :: u32) AND NOT 3) \<and> blk_size (hmem h') (fst x) = snd x) \<and>
    kmem_stats h' = Some (t, f, l) \<and>
    total_size held + unat f = unat (((0x2000 :: u32) AND NOT 3) - align4 0x1002)"
  by (rule heap_conserved) (auto simp: align4_def)

end
