(* ===== verification/Tty.thy ===== *)
theory Tty
  imports Pipe Regions
begin

text \<open>
  The terminals of kernel/tty.c and kernel/tty.h: input processing (the line discipline),
  reading, writing and the terminal ioctls. The console of the platform is the list of
  bytes it has received and not yet handed over (\<open>rx\<close>) and the list of bytes sent to it
  (\<open>tx\<close>). \<open>tty_read\<close> waits in a loop that calls \<open>schedule\<close>, so, as in theory Pipe, it
  is an attempt up to the point where it sleeps and a resumption.
\<close>

section \<open>Structures\<close>

abbreviation (input) ICRNL :: u16 where "ICRNL \<equiv> 0x0100"
abbreviation (input) INLCR :: u16 where "INLCR \<equiv> 0x0040"
abbreviation (input) IGNCR :: u16 where "IGNCR \<equiv> 0x0080"
abbreviation (input) OPOST :: u16 where "OPOST \<equiv> 0x0001"
abbreviation (input) ONLCR :: u16 where "ONLCR \<equiv> 0x0004"
abbreviation (input) ISIG :: u16 where "ISIG \<equiv> 0x0001"
abbreviation (input) ICANON :: u16 where "ICANON \<equiv> 0x0002"
abbreviation (input) ECHO :: u16 where "ECHO \<equiv> 0x0008"
abbreviation (input) ECHOE :: u16 where "ECHOE \<equiv> 0x0010"
abbreviation (input) ECHOK :: u16 where "ECHOK \<equiv> 0x0020"
abbreviation (input) ECHONL :: u16 where "ECHONL \<equiv> 0x0040"
abbreviation (input) NOFLSH :: u16 where "NOFLSH \<equiv> 0x0080"

abbreviation (input) VINTR :: nat where "VINTR \<equiv> 0"
abbreviation (input) VQUIT :: nat where "VQUIT \<equiv> 1"
abbreviation (input) VERASE :: nat where "VERASE \<equiv> 2"
abbreviation (input) VKILL :: nat where "VKILL \<equiv> 3"
abbreviation (input) VEOF :: nat where "VEOF \<equiv> 4"
abbreviation (input) VSTART :: nat where "VSTART \<equiv> 5"
abbreviation (input) VMIN :: nat where "VMIN \<equiv> 6"
abbreviation (input) VSUSP :: nat where "VSUSP \<equiv> 8"
abbreviation (input) NCCS :: nat where "NCCS \<equiv> 12"
abbreviation (input) NTTY :: nat where "NTTY \<equiv> 4"
abbreviation (input) TTY_BUFSZ :: nat where "TTY_BUFSZ \<equiv> 256"

abbreviation (input) SIGINT :: nat where "SIGINT \<equiv> 2"
abbreviation (input) SIGQUIT :: nat where "SIGQUIT \<equiv> 3"
abbreviation (input) SIGTSTP :: nat where "SIGTSTP \<equiv> 20"

abbreviation (input) TCGETS :: u32 where "TCGETS \<equiv> 0x5401"
abbreviation (input) TCSETS :: u32 where "TCSETS \<equiv> 0x5402"
abbreviation (input) TCSETSW :: u32 where "TCSETSW \<equiv> 0x5403"
abbreviation (input) TCSETSF :: u32 where "TCSETSF \<equiv> 0x5404"
abbreviation (input) TIOCGWINSZ :: u32 where "TIOCGWINSZ \<equiv> 0x5413"
abbreviation (input) TIOCSWINSZ :: u32 where "TIOCSWINSZ \<equiv> 0x5414"
abbreviation (input) TIOCGPGRP :: u32 where "TIOCGPGRP \<equiv> 0x540F"
abbreviation (input) TIOCSPGRP :: u32 where "TIOCSPGRP \<equiv> 0x5410"

record kernel_termios =
  c_iflag :: u16
  c_oflag :: u16
  c_cflag :: u16
  c_lflag :: u16
  c_cc :: "nat \<Rightarrow> u8"

record winsize =
  ws_row :: u16
  ws_col :: u16
  ws_xpixel :: u16
  ws_ypixel :: u16

record tty =
  termios :: kernel_termios
  winsz :: winsize
  inq :: "u8 \<Rightarrow> u8"
  inq_head :: u8
  inq_tail :: u8
  canon_buf :: "nat \<Rightarrow> u8"
  canon_len :: u8
  canon_ready :: bool
  fg_pgrp :: u8
  tminor :: u8
  tflags :: u8
  waiting :: u8

text \<open>What the terminals work on: the processes, the terminals and the platform's console.\<close>

record tsys =
  pt :: ptab
  ttys :: "nat \<Rightarrow> tty"
  rx :: bytes
  tx :: bytes

definition upd_tty :: "nat \<Rightarrow> (tty \<Rightarrow> tty) \<Rightarrow> tsys \<Rightarrow> tsys" where
  "upd_tty i f s = s\<lparr>ttys := (ttys s)(i := f (ttys s i))\<rparr>"

lemma upd_tty_sel [simp]:
  "ttys (upd_tty i f s) j = (if j = i then f (ttys s i) else ttys s j)"
  "pt (upd_tty i f s) = pt s" "rx (upd_tty i f s) = rx s" "tx (upd_tty i f s) = tx s"
  by (simp_all add: upd_tty_def)

section \<open>Initial state\<close>

text \<open>The designated initialisers of \<open>default_cc\<close> and \<open>default_termios\<close>; the rest is zero.\<close>

definition default_cc :: "nat \<Rightarrow> u8" where
  "default_cc = (\<lambda>_. 0)(VINTR := 3, VQUIT := 28, VERASE := 8, VKILL := 21, VEOF := 4, VSTART := 17,
     VMIN := 1, VSUSP := 26)"

definition default_termios :: kernel_termios where
  "default_termios = \<lparr>c_iflag = ICRNL, c_oflag = OPOST OR ONLCR, c_cflag = 0,
     c_lflag = ICANON OR ECHO OR ECHOE OR ISIG, c_cc = (\<lambda>_. 0)\<rparr>"

definition tty_init :: "u16 \<Rightarrow> u16 \<Rightarrow> tsys \<Rightarrow> tsys" where
  "tty_init rows cols s =
     fold (\<lambda>i. upd_tty i (\<lambda>t. t\<lparr>termios := default_termios\<lparr>c_cc := default_cc\<rparr>,
       winsz := \<lparr>ws_row = rows, ws_col = cols, ws_xpixel = 0, ws_ypixel = 0\<rparr>,
       inq_head := 0, inq_tail := 0, canon_len := 0, canon_ready := False, fg_pgrp := 0,
       tminor := of_nat i, tflags := 0, waiting := 0\<rparr>)) [0..<NTTY] s"

section \<open>The input queue\<close>

definition inq_count :: "tty \<Rightarrow> u8" where
  "inq_count t = inq_head t - inq_tail t"

definition inq_full :: "tty \<Rightarrow> bool" where
  "inq_full t \<longleftrightarrow> inq_count t = 255"

definition inq_put :: "u8 \<Rightarrow> tty \<Rightarrow> tty" where
  "inq_put c t = t\<lparr>inq := (inq t)(inq_head t := c), inq_head := inq_head t + 1\<rparr>"

definition inq_get :: "tty \<Rightarrow> u8 \<times> tty" where
  "inq_get t = (inq t (inq_tail t), t\<lparr>inq_tail := inq_tail t + 1\<rparr>)"

definition inq_flush :: "tty \<Rightarrow> tty" where
  "inq_flush t = t\<lparr>inq_head := 0, inq_tail := 0, canon_len := 0, canon_ready := False\<rparr>"

text \<open>The loop that moves the canonical buffer to the queue, from index \<open>i\<close>, \<open>k\<close> bytes left.\<close>

primrec move_line :: "nat \<Rightarrow> nat \<Rightarrow> tty \<Rightarrow> tty" where
  "move_line 0 i t = t"
| "move_line (Suc k) i t = (if inq_full t then t else move_line k (Suc i) (inq_put (canon_buf t i) t))"

definition end_line :: "tty \<Rightarrow> tty" where
  "end_line t = (move_line (unat (canon_len t)) 0 t)\<lparr>canon_len := 0, canon_ready := True\<rparr>"

section \<open>Echo\<close>

text \<open>\<open>kputc\<close> of kernel/kprintf.c sends a carriage return before a newline.\<close>

definition kputc :: "u8 \<Rightarrow> tsys \<Rightarrow> tsys" where
  "kputc c s = s\<lparr>tx := tx s @ (if c = 10 then [13, 10] else [c])\<rparr>"

definition tty_echo :: "u8 \<Rightarrow> tsys \<Rightarrow> tsys" where
  "tty_echo c s =
     (if c < 0x20 \<and> c \<noteq> 10 \<and> c \<noteq> 9 \<and> c \<noteq> 8 then kputc (c + 64) (kputc 94 s) else kputc c s)"

definition tty_echo_erase :: "tsys \<Rightarrow> tsys" where
  "tty_echo_erase s = kputc 8 (kputc 32 (kputc 8 s))"

definition tty_echo_erase_ctrl :: "tsys \<Rightarrow> tsys" where
  "tty_echo_erase_ctrl s = tty_echo_erase (tty_echo_erase s)"

definition echo_erased :: "u8 \<Rightarrow> tsys \<Rightarrow> tsys" where
  "echo_erased c s = (if c < 0x20 \<and> c \<noteq> 9 then tty_echo_erase_ctrl s else tty_echo_erase s)"

section \<open>Input\<close>

definition tty_wake_reader :: "nat \<Rightarrow> tsys \<Rightarrow> tsys" where
  "tty_wake_reader i s =
     (let w = unat (waiting (ttys s i))
      in if 0 < w \<and> w \<le> MAXPROC
         then upd_tty i (\<lambda>t. t\<lparr>waiting := 0\<rparr>) (s\<lparr>pt := wake_proc (w - 1) (pt s)\<rparr>) else s)"

definition tty_signal :: "nat \<Rightarrow> tsys \<Rightarrow> tsys" where
  "tty_signal sig s = s\<lparr>pt := raise_sig (curproc (pt s)) sig (pt s)\<rparr>"

text \<open>The three branches for ^C, ^\ and ^Z differ in the signal and in the character shown.\<close>

definition sig_input :: "nat \<Rightarrow> nat \<Rightarrow> u8 \<Rightarrow> u16 \<Rightarrow> tsys \<Rightarrow> tsys" where
  "sig_input i sig shown lflag s =
     (let s1 = tty_signal sig s;
          s2 = (if lflag AND ECHO \<noteq> 0 then kputc 10 (kputc shown (kputc 94 s1)) else s1);
          s3 = (if lflag AND NOFLSH = 0 then upd_tty i inq_flush s2 else s2)
      in tty_wake_reader i s3)"

text \<open>The loop that erases the line on the screen, for \<open>k\<close> characters.\<close>

primrec kill_line :: "nat \<Rightarrow> nat \<Rightarrow> u16 \<Rightarrow> tsys \<Rightarrow> tsys" where
  "kill_line 0 i lflag s = s"
| "kill_line (Suc k) i lflag s =
     (let erased = canon_buf (ttys s i) k;
          s1 = upd_tty i (\<lambda>t. t\<lparr>canon_len := canon_len t - 1\<rparr>) s
      in kill_line k i lflag (if lflag AND ECHOE \<noteq> 0 then echo_erased erased s1 else s1))"

definition canon_input :: "nat \<Rightarrow> u8 \<Rightarrow> u16 \<Rightarrow> tsys \<Rightarrow> tsys" where
  "canon_input i c lflag s =
     (let t = ttys s i; cc = c_cc (termios t)
      in if c = cc VERASE \<or> c = 0x7F
         then (if canon_len t > 0
               then let erased = canon_buf t (unat (canon_len t) - 1);
                        s1 = upd_tty i (\<lambda>t. t\<lparr>canon_len := canon_len t - 1\<rparr>) s
                    in if lflag AND ECHO \<noteq> 0 \<and> lflag AND ECHOE \<noteq> 0 then echo_erased erased s1 else s1
               else s)
         else if c = cc VKILL
         then let s1 = (if lflag AND ECHO \<noteq> 0
                        then let s' = kill_line (unat (canon_len t)) i lflag s
                             in if lflag AND ECHOK \<noteq> 0 then kputc 10 s' else s'
                        else s)
              in upd_tty i (\<lambda>t. t\<lparr>canon_len := 0\<rparr>) s1
         else if c = cc VEOF
         then tty_wake_reader i (upd_tty i end_line s)
         else let s1 = (if unat (canon_len t) < TTY_BUFSZ - 1
                        then upd_tty i (\<lambda>t. t\<lparr>canon_buf := (canon_buf t)(unat (canon_len t) := c),
                               canon_len := canon_len t + 1\<rparr>) s
                        else s);
                  s2 = (if lflag AND ECHO \<noteq> 0 then tty_echo c s1
                        else if lflag AND ECHONL \<noteq> 0 \<and> c = 10 then kputc 10 s1 else s1)
              in if c = 10 then tty_wake_reader i (upd_tty i end_line s2) else s2)"

text \<open>The mapping of carriage return and newline; \<open>None\<close> when the character is ignored.\<close>

definition map_input :: "u16 \<Rightarrow> u8 \<Rightarrow> u8 option" where
  "map_input iflag c =
     (if c = 13 then (if iflag AND IGNCR \<noteq> 0 then None else if iflag AND ICRNL \<noteq> 0 then Some 10 else Some c)
      else if c = 10 then (if iflag AND INLCR \<noteq> 0 then Some 13 else Some c)
      else Some c)"

definition tty_inproc :: "nat \<Rightarrow> u8 \<Rightarrow> tsys \<Rightarrow> tsys" where
  "tty_inproc i c0 s =
     (if i \<ge> NTTY then s
      else let t = ttys s i; cc = c_cc (termios t); lflag = c_lflag (termios t)
      in case map_input (c_iflag (termios t)) c0 of
        None \<Rightarrow> s
      | Some c \<Rightarrow>
         if lflag AND ISIG \<noteq> 0 \<and> c = cc VINTR then sig_input i SIGINT 67 lflag s
         else if lflag AND ISIG \<noteq> 0 \<and> c = cc VQUIT then sig_input i SIGQUIT 92 lflag s
         else if lflag AND ISIG \<noteq> 0 \<and> c = cc VSUSP then sig_input i SIGTSTP 90 lflag s
         else if lflag AND ICANON \<noteq> 0 then canon_input i c lflag s
         else if \<not> inq_full t
         then (let s1 = upd_tty i (inq_put c) s;
                   s2 = (if lflag AND ECHO \<noteq> 0 then tty_echo c s1 else s1)
               in tty_wake_reader i s2)
         else s)"

definition tty_data_ready :: "nat \<Rightarrow> tsys \<Rightarrow> bool" where
  "tty_data_ready i s =
     (if i \<ge> NTTY then False
      else let t = ttys s i
           in if c_lflag (termios t) AND ICANON \<noteq> 0 then canon_ready t \<and> inq_count t > 0
              else inq_count t > 0)"

section \<open>Reading\<close>

text \<open>
  The outcome of an attempt to read: the bytes, an error number, asleep in \<open>schedule\<close>, or, when
  no other process exists, polling a console that has nothing.
\<close>

datatype tread = Got bytes | Failed int | Asleep | Polling

primrec take_inq :: "nat \<Rightarrow> bytes \<Rightarrow> tty \<Rightarrow> bytes \<times> tty" where
  "take_inq 0 dst t = (dst, t)"
| "take_inq (Suc k) dst t =
     (if inq_count t > 0 then (case inq_get t of (c, t') \<Rightarrow> take_inq k (dst @ [c]) t') else (dst, t))"

text \<open>Whether the wait of the canonical or the raw branch is over.\<close>

definition read_ready :: "bool \<Rightarrow> tty \<Rightarrow> bool" where
  "read_ready canon t \<longleftrightarrow> (canon \<longrightarrow> canon_ready t) \<and> inq_count t \<noteq> 0"

definition finish_read :: "bool \<Rightarrow> nat \<Rightarrow> int \<Rightarrow> tsys \<Rightarrow> tread \<times> tsys" where
  "finish_read canon i len s =
     (case take_inq (nat len) [] (ttys s i) of (bs, t) \<Rightarrow>
        (Got bs, upd_tty i (\<lambda>_. if canon \<and> inq_count t = 0 then t\<lparr>canon_ready := False\<rparr> else t) s))"

text \<open>One unit of fuel per byte the console holds: \<open>Suc (length (rx s))\<close> units are enough.\<close>

primrec tty_wait :: "nat \<Rightarrow> bool \<Rightarrow> nat \<Rightarrow> int \<Rightarrow> tsys \<Rightarrow> tread \<times> tsys" where
  "tty_wait 0 canon i len s = (Polling, s)"
| "tty_wait (Suc fuel) canon i len s =
     (if read_ready canon (ttys s i) then finish_read canon i len s
      else case rx s of
        c # cs \<Rightarrow> tty_wait fuel canon i len (tty_inproc i c (s\<lparr>rx := cs\<rparr>))
      | [] \<Rightarrow>
          if sig_pending (cur (pt s)) \<noteq> 0 then (Failed EINTR, s)
          else if nproc (pt s) > 1
          then (Asleep, (upd_tty i (\<lambda>t. t\<lparr>waiting := of_nat (pid (cur (pt s)) + 1)\<rparr>) s)
                  \<lparr>pt := sleep_cur (pt s)\<rparr>)
          else (Polling, s))"

definition tty_read :: "nat \<Rightarrow> int \<Rightarrow> tsys \<Rightarrow> tread \<times> tsys" where
  "tty_read i len s =
     (if i \<ge> NTTY then (Failed ENODEV, s)
      else if len \<le> 0 then (Got [], s)
      else tty_wait (Suc (length (rx s))) (c_lflag (termios (ttys s i)) AND ICANON \<noteq> 0) i len s)"

text \<open>After \<open>schedule\<close> has returned, in the branch that the read took on entry.\<close>

definition tty_read_resume :: "bool \<Rightarrow> nat \<Rightarrow> int \<Rightarrow> tsys \<Rightarrow> tread \<times> tsys" where
  "tty_read_resume canon i len s =
     (let s1 = upd_tty i (\<lambda>t. t\<lparr>waiting := 0\<rparr>) s
      in if sig_pending (cur (pt s1)) \<noteq> 0 then (Failed EINTR, s1)
         else tty_wait (Suc (length (rx s1))) canon i len s1)"

section \<open>Writing\<close>

definition pal_console_putc :: "u8 \<Rightarrow> tsys \<Rightarrow> tsys" where
  "pal_console_putc c s = s\<lparr>tx := tx s @ [c]\<rparr>"

definition tty_write :: "nat \<Rightarrow> (nat \<Rightarrow> u8) \<Rightarrow> int \<Rightarrow> tsys \<Rightarrow> int \<times> tsys" where
  "tty_write i src len s =
     (if i \<ge> NTTY then (- ENODEV, s)
      else let oflag = c_oflag (termios (ttys s i))
      in (len, fold (\<lambda>j s. pal_console_putc (src j)
                 (if oflag AND OPOST \<noteq> 0 \<and> src j = 10 \<and> oflag AND ONLCR \<noteq> 0
                  then pal_console_putc 13 s else s)) [0..<nat len] s))"

section \<open>ioctl\<close>

text \<open>\<open>struct kernel_termios\<close> and \<open>struct winsize\<close> in user memory: 20 and 8 bytes.\<close>

definition termios_bytes :: "kernel_termios \<Rightarrow> bytes" where
  "termios_bytes t = concat (map (\<lambda>w. [ucast (drop_bit 8 w), ucast w])
     [c_iflag t, c_oflag t, c_cflag t, c_lflag t]) @ map (c_cc t) [0..<NCCS]"

definition termios_at :: "memory \<Rightarrow> u32 \<Rightarrow> kernel_termios" where
  "termios_at m a = \<lparr>c_iflag = get16 m a, c_oflag = get16 m (a + 2), c_cflag = get16 m (a + 4),
     c_lflag = get16 m (a + 6), c_cc = (\<lambda>i. if i < NCCS then m (a + 8 + of_nat i) else 0)\<rparr>"

definition winsize_bytes :: "winsize \<Rightarrow> bytes" where
  "winsize_bytes w = concat (map (\<lambda>w. [ucast (drop_bit 8 w), ucast w])
     [ws_row w, ws_col w, ws_xpixel w, ws_ypixel w])"

definition winsize_at :: "memory \<Rightarrow> u32 \<Rightarrow> winsize" where
  "winsize_at m a = \<lparr>ws_row = get16 m a, ws_col = get16 m (a + 2), ws_xpixel = get16 m (a + 4),
     ws_ypixel = get16 m (a + 6)\<rparr>"

definition tty_ioctl :: "nat \<Rightarrow> u32 \<Rightarrow> u32 \<Rightarrow> memory \<times> tsys \<Rightarrow> int \<times> memory \<times> tsys" where
  "tty_ioctl i cmd arg ms =
     (case ms of (m, s) \<Rightarrow>
      let t = ttys s i
      in if i \<ge> NTTY then (- ENODEV, m, s)
         else if cmd = TCGETS then (0, store_bytes arg (termios_bytes (termios t)) m, s)
         else if cmd = TCSETS \<or> cmd = TCSETSW \<or> cmd = TCSETSF
         then (0, m, upd_tty i (\<lambda>t. let t' = t\<lparr>termios := termios_at m arg\<rparr>
                 in if cmd = TCSETSF then inq_flush t' else t') s)
         else if cmd = TIOCGWINSZ then (0, store_bytes arg (winsize_bytes (winsz t)) m, s)
         else if cmd = TIOCSWINSZ then (0, m, upd_tty i (\<lambda>t. t\<lparr>winsz := winsize_at m arg\<rparr>) s)
         else if cmd = TIOCGPGRP then (0, put32 m arg (ucast (fg_pgrp t)), s)
         else if cmd = TIOCSPGRP then (0, m, upd_tty i (\<lambda>t. t\<lparr>fg_pgrp := ucast (get32 m arg)\<rparr>) s)
         else (- EINVAL, m, s))"

end
