(* ===== verification/Kern.thy ===== *)
theory Kern
  imports Tty Fs_Dir Umem KHeap
begin

text \<open>
  The whole kernel state, made of the states of the components, and what the loader and the
  system calls share: access to the current process, C strings in user memory, and the test for
  files that can be executed in place (\<open>pal_rom_file_addr\<close> of both platforms).
\<close>

record kern =
  kt :: tsys
  kf :: fsys
  kheap :: kheap
  kpool :: upool
  ram :: memory
  rom_start :: u32
  exec_active :: bool
  exec_exit_code :: int
  exec_user_a5 :: u32

abbreviation kpt :: "kern \<Rightarrow> ptab" where
  "kpt k \<equiv> pt (kt k)"

abbreviation kcur :: "kern \<Rightarrow> proc" where
  "kcur k \<equiv> cur (pt (kt k))"

definition on_pt :: "(ptab \<Rightarrow> ptab) \<Rightarrow> kern \<Rightarrow> kern" where
  "on_pt f k = k\<lparr>kt := (kt k)\<lparr>pt := f (pt (kt k))\<rparr>\<rparr>"

definition upd_cur :: "(proc \<Rightarrow> proc) \<Rightarrow> kern \<Rightarrow> kern" where
  "upd_cur f k = on_pt (upd_proc (curproc (kpt k)) f) k"

definition on_fs :: "(fsys \<Rightarrow> fsys) \<Rightarrow> kern \<Rightarrow> kern" where
  "on_fs f k = k\<lparr>kf := f (kf k)\<rparr>"

lemma on_pt_sel [simp]:
  "kpt (on_pt f k) = f (kpt k)" "kf (on_pt f k) = kf k" "ram (on_pt f k) = ram k"
  "kpool (on_pt f k) = kpool k" "ttys (kt (on_pt f k)) = ttys (kt k)" "rom_start (on_pt f k) = rom_start k"
  "exec_active (on_pt f k) = exec_active k"
  by (simp_all add: on_pt_def)

lemma upd_cur_sel [simp]:
  "kpt (upd_cur f k) = upd_proc (curproc (kpt k)) f (kpt k)" "kf (upd_cur f k) = kf k"
  "ram (upd_cur f k) = ram k" "kpool (upd_cur f k) = kpool k" "rom_start (upd_cur f k) = rom_start k"
  "exec_active (upd_cur f k) = exec_active k"
  by (simp_all add: upd_cur_def)

lemma on_fs_sel [simp]:
  "kt (on_fs f k) = kt k" "kf (on_fs f k) = f (kf k)" "ram (on_fs f k) = ram k" "kpool (on_fs f k) = kpool k"
  "rom_start (on_fs f k) = rom_start k" "exec_active (on_fs f k) = exec_active k"
  by (simp_all add: on_fs_def)

section \<open>Strings in user memory\<close>

text \<open>The string at \<open>p\<close>; \<open>None\<close> when memory holds no NUL, where C reads on for ever.\<close>

partial_function (option) user_string :: "memory \<Rightarrow> u32 \<Rightarrow> bytes option" where
  "user_string m p =
     (if m p = 0 then Some [] else Option.bind (user_string m (p + 1)) (\<lambda>s. Some (m p # s)))"

section \<open>Execution in place\<close>

text \<open>
  \<open>pal_rom_file_addr\<close>: 0 on the workbench; on the Mega Drive the address of the file in the
  cartridge ROM if its blocks follow one another and need no indirect block.
\<close>

definition pal_rom_file_addr :: "u32 \<Rightarrow> disk \<Rightarrow> inode \<Rightarrow> u32" where
  "pal_rom_file_addr rom d ip =
     (case d of
        Workbench _ \<Rightarrow> 0
      | MegaDrive _ _ \<Rightarrow>
          let first_block = direct ip 0;
              nblocks = drop_bit 10 (isize ip + 1023);
              check = (if nblocks < 12 then nblocks else 12)
          in if isize ip = 0 \<or> first_block = 0 then 0
             else if \<exists>i \<in> set [1..<unat check]. (ucast (direct ip i) :: u32) \<noteq> ucast first_block + of_nat i then 0
             else if nblocks > 12 then 0
             else rom + push_bit 10 (ucast first_block))"

end
