(* ===== verification/Exec.thy ===== *)
theory Exec
  imports Kern
begin

text \<open>
  The program loader, kernel/exec.c: header checks, relocation, the initial user stack, the two
  loaders and \<open>do_exec\<close>. Path and arguments are byte lists. All sizes and addresses are 32-bit
  and wrap as the code's do. Console messages are left out.
\<close>

abbreviation (input) GENIX_MAGIC :: u32 where "GENIX_MAGIC \<equiv> 0x47454E58"
abbreviation (input) GENIX_HDR_SIZE :: nat where "GENIX_HDR_SIZE \<equiv> 32"
abbreviation (input) GENIX_FLAG_XIP :: u32 where "GENIX_FLAG_XIP \<equiv> 1"
abbreviation (input) USER_HEAP_DEFAULT :: u32 where "USER_HEAP_DEFAULT \<equiv> 4096"

section \<open>The header\<close>

record genix_header =
  h_magic :: u32
  h_load_size :: u32
  h_bss_size :: u32
  h_entry :: u32
  h_stack_size :: u32
  h_flags :: u32
  h_text_size :: u32
  h_reloc_count :: u32

definition header_of :: "bytes \<Rightarrow> genix_header" where
  "header_of bs = (let m = (\<lambda>i. bs ! i) in
     \<lparr>h_magic = get32 m 0, h_load_size = get32 m 4, h_bss_size = get32 m 8, h_entry = get32 m 12,
      h_stack_size = get32 m 16, h_flags = get32 m 20, h_text_size = get32 m 24,
      h_reloc_count = get32 m 28\<rparr>)"

definition HDR_STACK_SIZE :: "genix_header \<Rightarrow> u32" where
  "HDR_STACK_SIZE h = h_stack_size h AND 0xFFFF"

definition HDR_HAS_GOT :: "genix_header \<Rightarrow> bool" where
  "HDR_HAS_GOT h \<longleftrightarrow> drop_bit 16 (h_stack_size h) \<noteq> 0"

definition HDR_GOT_OFFSET :: "genix_header \<Rightarrow> u32" where
  "HDR_GOT_OFFSET h = drop_bit 16 (h_stack_size h) - 1"

definition stack_need :: "genix_header \<Rightarrow> u32" where
  "stack_need h = (if HDR_STACK_SIZE h = 0 then USER_STACK_DEFAULT else HDR_STACK_SIZE h)"

text \<open>The larger of the BSS and the relocation table that is loaded there.\<close>

definition effective_bss :: "genix_header \<Rightarrow> u32" where
  "effective_bss h =
     (let reloc_bytes = h_reloc_count h * 4
      in if reloc_bytes > h_bss_size h then reloc_bytes else h_bss_size h)"

definition exec_mem_need :: "genix_header \<Rightarrow> u32" where
  "exec_mem_need h = h_load_size h + effective_bss h + USER_HEAP_DEFAULT + stack_need h"

definition exec_mem_need_xip :: "genix_header \<Rightarrow> u32" where
  "exec_mem_need_xip h =
     (h_load_size h - h_text_size h) + h_bss_size h + USER_HEAP_DEFAULT + stack_need h"

definition exec_validate_header :: "genix_header \<Rightarrow> u32 \<Rightarrow> int" where
  "exec_validate_header h region_size =
     (if h_magic h \<noteq> GENIX_MAGIC then - ENOEXEC
      else if h_load_size h = 0 then - ENOEXEC
      else if h_entry h \<ge> h_load_size h then - ENOEXEC
      else if h_text_size h > h_load_size h then - ENOEXEC
      else if exec_mem_need h > region_size then - ENOMEM
      else 0)"

definition exec_validate_header_xip :: "genix_header \<Rightarrow> u32 \<Rightarrow> int" where
  "exec_validate_header_xip h region_size =
     (if h_magic h \<noteq> GENIX_MAGIC then - ENOEXEC
      else if h_load_size h = 0 then - ENOEXEC
      else if h_entry h \<ge> h_load_size h then - ENOEXEC
      else if h_text_size h = 0 \<or> h_text_size h > h_load_size h then - ENOEXEC
      else if h_flags h AND GENIX_FLAG_XIP = 0 then - ENOEXEC
      else if exec_mem_need_xip h > region_size then - ENOMEM
      else 0)"

section \<open>Relocation\<close>

text \<open>The test of an offset: its sum wraps at 32 bits.\<close>

definition reloc_bad :: "u32 \<Rightarrow> u32 \<Rightarrow> bool" where
  "reloc_bad load_size off \<longleftrightarrow> off AND 1 \<noteq> 0 \<or> off + 4 > load_size"

definition upd32 :: "u32 \<Rightarrow> (u32 \<Rightarrow> u32) \<Rightarrow> memory \<Rightarrow> memory" where
  "upd32 p f m = put32 m p (f (get32 m p))"

text \<open>What a word refers to: text below \<open>tsize\<close>, data from there on.\<close>

definition split_value :: "u32 \<Rightarrow> u32 \<Rightarrow> u32 \<Rightarrow> u32 \<Rightarrow> u32" where
  "split_value tsize text_base data_base val =
     (if val < tsize then val + text_base else (val - tsize) + data_base)"

text \<open>The table is in memory at \<open>relocs\<close> and is read entry by entry.\<close>

definition apply_relocations :: "u32 \<Rightarrow> u32 \<Rightarrow> u32 \<Rightarrow> u32 \<Rightarrow> u32 \<Rightarrow> nat \<Rightarrow> memory \<Rightarrow> memory" where
  "apply_relocations base load_addr tsize load_size relocs nrelocs m =
     fold (\<lambda>i m. let off = get32 m (relocs + 4 * of_nat i)
                 in if reloc_bad load_size off then m
                    else if tsize = 0 then upd32 (base + off) (\<lambda>v. v + load_addr) m
                    else upd32 (base + off) (split_value tsize load_addr (load_addr + tsize)) m)
       [0..<nrelocs] m"

definition apply_relocations_xip :: "u32 \<Rightarrow> u32 \<Rightarrow> u32 \<Rightarrow> u32 \<Rightarrow> u32 \<Rightarrow> u32 \<Rightarrow> u32 \<Rightarrow> nat \<Rightarrow> memory \<Rightarrow> memory" where
  "apply_relocations_xip text_mem text_base data_mem data_base tsize load_size relocs nrelocs m =
     fold (\<lambda>i m. let off = get32 m (relocs + 4 * of_nat i)
                 in if reloc_bad load_size off then m
                    else upd32 (if off < tsize then text_mem + off else data_mem + (off - tsize))
                           (split_value tsize text_base data_base) m)
       [0..<nrelocs] m"

text \<open>The loop in \<open>load_binary_xip\<close>, which patches only words of the data segment.\<close>

definition relocate_data :: "u32 \<Rightarrow> u32 \<Rightarrow> u32 \<Rightarrow> u32 \<Rightarrow> u32 \<Rightarrow> nat \<Rightarrow> memory \<Rightarrow> memory" where
  "relocate_data text_addr data_addr tsize load_size relocs nrelocs m =
     fold (\<lambda>i m. let off = get32 m (relocs + 4 * of_nat i)
                 in if off < tsize then m
                    else if reloc_bad load_size off then m
                    else upd32 (data_addr + (off - tsize)) (split_value tsize text_addr data_addr) m)
       [0..<nrelocs] m"

section \<open>The user stack\<close>

text \<open>
  The strings of the stack: the path as \<open>argv[0]\<close>, then \<open>argv[1..]\<close>. An absent or empty
  argument vector counts as one argument.
\<close>

definition stack_args :: "bytes \<Rightarrow> bytes list option \<Rightarrow> bytes list" where
  "stack_args path argv = path # (case argv of None \<Rightarrow> [] | Some as \<Rightarrow> drop 1 as)"

definition string_space :: "bytes list \<Rightarrow> u32" where
  "string_space ss = fold (\<lambda>s n. n + of_nat (length s) + 1) ss 0"

text \<open>The copying loop: pointers from \<open>slot\<close> on, strings from \<open>pos\<close> on.\<close>

primrec push_args :: "bytes list \<Rightarrow> u32 \<Rightarrow> u32 \<Rightarrow> memory \<Rightarrow> memory" where
  "push_args [] slot pos m = m"
| "push_args (s # ss) slot pos m =
     push_args ss (slot + 4) (pos + of_nat (length s) + 1) (store_bytes pos (s @ [0]) (put32 m slot pos))"

definition exec_setup_stack :: "u32 \<Rightarrow> bytes \<Rightarrow> bytes list option \<Rightarrow> memory \<Rightarrow> u32 \<times> memory" where
  "exec_setup_stack stack_top path argv m =
     (let ss = stack_args path argv;
          argc = of_nat (length ss);
          str_size = (string_space ss + 3) AND NOT 3;
          setup_size = str_size + (argc + 1) * 4 + 4 + 4;
          sp = (stack_top - setup_size) AND NOT 3;
          str_base = sp + 4 + (argc + 1) * 4 + 4;
          m1 = push_args ss (sp + 4) str_base (put32 m sp argc)
      in (sp, put32 (put32 m1 (sp + 4 * (1 + argc)) 0) (sp + 4 * (2 + argc)) 0))"

section \<open>Loading\<close>

text \<open>\<open>fs_read\<close> into user memory: the number of bytes it read is part of the result.\<close>

definition read_into :: "nat \<Rightarrow> u32 \<Rightarrow> nat \<Rightarrow> nat \<Rightarrow> kern \<Rightarrow> nat \<times> kern" where
  "read_into i addr off n k =
     (case fs_read i off n (kf k) of (bs, s) \<Rightarrow> (length bs, k\<lparr>kf := s, ram := store_bytes addr bs (ram k)\<rparr>))"

text \<open>The start of both loaders, of \<open>do_exec\<close> and of \<open>do_spawn\<close>: open the file, read the header.\<close>

definition open_program :: "bytes \<Rightarrow> kern \<Rightarrow> (int + nat \<times> genix_header) \<times> kern" where
  "open_program path k =
     (case fs_namei (Some (cwd (kcur k))) path (kf k) of
        (None, s) \<Rightarrow> (Inl (- ENOENT), k\<lparr>kf := s\<rparr>)
      | (Some ip, s) \<Rightarrow>
          if itype (icache s ip) \<noteq> FT_FILE then (Inl (- ENOEXEC), k\<lparr>kf := fs_iput ip s\<rparr>)
          else (case fs_read ip 0 GENIX_HDR_SIZE s of (bs, s1) \<Rightarrow>
            if length bs \<noteq> GENIX_HDR_SIZE then (Inl (- ENOEXEC), k\<lparr>kf := fs_iput ip s1\<rparr>)
            else (Inr (ip, header_of bs), k\<lparr>kf := s1\<rparr>)))"

text \<open>\<open>memset(addr, 0, n)\<close> on user memory.\<close>

definition zero_mem :: "u32 \<Rightarrow> u32 \<Rightarrow> memory \<Rightarrow> memory" where
  "zero_mem addr n m = store_bytes addr (replicate (unat n) 0) m"

text \<open>\<open>load_binary\<close> after the header check, up to the release of the inode: image and relocations.\<close>

definition load_image :: "nat \<Rightarrow> genix_header \<Rightarrow> u32 \<Rightarrow> kern \<Rightarrow> int \<times> kern" where
  "load_image ip h load_addr k =
     (case read_into ip load_addr GENIX_HDR_SIZE (unat (h_load_size h)) k of (n, k1) \<Rightarrow>
        if n \<noteq> unat (h_load_size h) then (- EIO, on_fs (fs_iput ip) k1)
        else if h_reloc_count h > 0
        then (let reloc_bytes = h_reloc_count h * 4;
                  reloc_buf = load_addr + h_load_size h;
                  reloc_off = of_nat GENIX_HDR_SIZE + h_load_size h
              in case read_into ip reloc_buf (unat reloc_off) (unat reloc_bytes) k1 of (n2, k2) \<Rightarrow>
                   if n2 \<noteq> unat reloc_bytes then (- EIO, on_fs (fs_iput ip) k2)
                   else (0, on_fs (fs_iput ip) (k2\<lparr>ram := apply_relocations load_addr load_addr
                          (h_text_size h) (h_load_size h) reloc_buf (unat (h_reloc_count h)) (ram k2)\<rparr>)))
        else (0, on_fs (fs_iput ip) k1))"

definition load_binary :: "bytes \<Rightarrow> bytes list option \<Rightarrow> u32 \<Rightarrow> kern \<Rightarrow> (int + u32 \<times> u32) \<times> kern" where
  "load_binary path argv load_addr k =
     (case open_program path k of
        (Inl e, k1) \<Rightarrow> (Inl e, k1)
      | (Inr (ip, h), k1) \<Rightarrow>
          let err = exec_validate_header h (mem_size (kcur k1))
          in if err < 0 then (Inl err, on_fs (fs_iput ip) k1)
             else (case load_image ip h load_addr k1 of (rc, k2) \<Rightarrow>
               if rc < 0 then (Inl rc, k2)
               else let k3 = (if effective_bss h > 0
                              then k2\<lparr>ram := zero_mem (load_addr + h_load_size h) (effective_bss h) (ram k2)\<rparr>
                              else k2)
                    in case exec_setup_stack (load_addr + mem_size (kcur k3)) path argv (ram k3) of (sp, m) \<Rightarrow>
                      (Inr (load_addr + h_entry h, sp),
                       upd_cur (\<lambda>p. p\<lparr>brk := load_addr + h_load_size h + h_bss_size h, text_size := 0,
                         data_bss := h_load_size h + h_bss_size h,
                         data_a5 := (if HDR_HAS_GOT h then load_addr + h_text_size h + HDR_GOT_OFFSET h else 0)\<rparr>)
                         (k3\<lparr>ram := m\<rparr>))))"

text \<open>The data segment and its relocations; a short read of the table is ignored.\<close>

definition load_data :: "nat \<Rightarrow> genix_header \<Rightarrow> u32 \<Rightarrow> u32 \<Rightarrow> kern \<Rightarrow> int \<times> kern" where
  "load_data ip h text_addr data_addr k =
     (let data_size = h_load_size h - h_text_size h
      in case (if data_size > 0
               then read_into ip data_addr (unat (of_nat GENIX_HDR_SIZE + h_text_size h)) (unat data_size) k
               else (0, k)) of (n, k1) \<Rightarrow>
        if n \<noteq> unat data_size then (- EIO, on_fs (fs_iput ip) k1)
        else if HDR_HAS_GOT h \<and> h_reloc_count h > 0
        then (let reloc_bytes = h_reloc_count h * 4;
                  reloc_buf = data_addr + data_size
              in case read_into ip reloc_buf (unat (of_nat GENIX_HDR_SIZE + h_load_size h)) (unat reloc_bytes) k1 of (n2, k2) \<Rightarrow>
                (0, on_fs (fs_iput ip)
                   (if n2 = unat reloc_bytes
                    then k2\<lparr>ram := relocate_data text_addr data_addr (h_text_size h) (h_load_size h) reloc_buf
                           (unat (h_reloc_count h)) (ram k2)\<rparr>
                    else k2)))
        else (0, on_fs (fs_iput ip) k1))"

definition load_binary_xip :: "bytes \<Rightarrow> bytes list option \<Rightarrow> u32 \<Rightarrow> u32 \<Rightarrow> kern \<Rightarrow> (int + u32 \<times> u32) \<times> kern" where
  "load_binary_xip path argv text_addr data_addr k =
     (case open_program path k of
        (Inl e, k1) \<Rightarrow> (Inl e, k1)
      | (Inr (ip, h), k1) \<Rightarrow>
          let err = exec_validate_header_xip h (mem_size (kcur k1)); data_size = h_load_size h - h_text_size h
          in if err < 0 then (Inl err, on_fs (fs_iput ip) k1)
             else (case load_data ip h text_addr data_addr k1 of (rc, k2) \<Rightarrow>
               if rc < 0 then (Inl rc, k2)
               else let k3 = (if h_bss_size h > 0
                              then k2\<lparr>ram := zero_mem (data_addr + data_size) (h_bss_size h) (ram k2)\<rparr>
                              else k2)
                    in case exec_setup_stack (data_addr + mem_size (kcur k3)) path argv (ram k3) of (sp, m) \<Rightarrow>
                      (Inr (text_addr + h_entry h, sp),
                       upd_cur (\<lambda>p. p\<lparr>brk := data_addr + data_size + h_bss_size h, text_size := h_text_size h,
                         data_bss := data_size + h_bss_size h,
                         data_a5 := (if HDR_HAS_GOT h then data_addr + HDR_GOT_OFFSET h else 0)\<rparr>)
                         (k3\<lparr>ram := m\<rparr>))))"

end
