(* ===== verification/Tty_Discipline.thy ===== *)
theory Tty_Discipline
  imports Tty
begin

text \<open>
  What the terminals of kernel/tty.c do. The input queue is the second provider of the bounded
  queue of theory Byte_Queue. \<open>ld_step\<close> gives the line discipline on lists, and every input
  byte is shown to act on the terminal as it says; the reading loop is then described by it.
  The last section has the properties.
\<close>


section \<open>The queue as a bounded queue\<close>

definition inq_list :: "tty \<Rightarrow> bytes" where
  "inq_list t = map (\<lambda>k. inq t (inq_tail t + of_nat k)) [0..<unat (inq_count t)]"

definition canon_line :: "tty \<Rightarrow> bytes" where
  "canon_line t = map (canon_buf t) [0..<unat (canon_len t)]"

lemma length_inq_list [simp]: "length (inq_list t) = unat (inq_count t)"
  by (simp add: inq_list_def)

lemma length_canon_line [simp]: "length (canon_line t) = unat (canon_len t)"
  by (simp add: canon_line_def)

lemma inq_full_iff: "inq_full t \<longleftrightarrow> length (inq_list t) = 255"
  by (simp add: inq_full_def word_unat_eq_iff)

lemma unat_inc8: "unat (x :: u8) \<noteq> 255 \<Longrightarrow> unat (x + 1) = Suc (unat x)"
  using u8_bound [of x] by (simp add: unat_word_ariths)

lemma unat_dec8: "x \<noteq> 0 \<Longrightarrow> unat (x :: u8) = Suc (unat (x - 1))"
  using unat_minus_one [of x] by (simp add: unat_gt_0)

lemma inq_put_list:
  assumes "\<not> inq_full t"
  shows "inq_list (inq_put c t) = inq_list t @ [c]"
proof -
  let ?n = "unat (inq_count t)"
  have n: "?n < 255" using assms u8_bound [of "inq_count t"] by (simp add: inq_full_iff)
  have cnt: "inq_count (inq_put c t) = inq_count t + 1" by (simp add: inq_count_def inq_put_def)
  have "unat (inq_count t + 1) = Suc ?n" by (rule unat_inc8) (use n in simp)
  moreover have "inq_tail t + of_nat k \<noteq> inq_head t" if "k < ?n" for k
  proof
    assume "inq_tail t + of_nat k = inq_head t"
    then have "of_nat k = inq_count t" by (simp add: inq_count_def algebra_simps)
    then have "unat (of_nat k :: u8) = ?n" by simp
    with that n show False by (simp add: unat_of_nat)
  qed
  moreover have "inq_tail t + of_nat ?n = inq_head t" by (simp add: inq_count_def)
  ultimately show ?thesis unfolding inq_list_def cnt by (simp add: inq_put_def)
qed

lemma inq_get_list:
  assumes "inq_count t \<noteq> 0"
  shows "inq_list t = fst (inq_get t) # inq_list (snd (inq_get t))"
proof -
  have s: "unat (inq_count t) = Suc (unat (inq_count (snd (inq_get t))))"
  proof -
    have "inq_count (snd (inq_get t)) = inq_count t - 1" by (simp add: inq_count_def inq_get_def)
    then show ?thesis using unat_dec8 [OF assms] by simp
  qed
  show ?thesis unfolding inq_list_def s
    by (simp add: inq_get_def map_upt_Suc add.assoc comp_def del: upt_Suc)
qed


text \<open>Storing bytes until the queue is full, which is what \<open>move_line\<close> does with the line.\<close>

primrec put_all :: "bytes \<Rightarrow> tty \<Rightarrow> nat \<times> tty" where
  "put_all [] t = (0, t)"
| "put_all (c # cs) t =
     (if inq_full t then (0, t) else case put_all cs (inq_put c t) of (n, t') \<Rightarrow> (Suc n, t'))"

lemma move_line_put_all: "move_line k i t = snd (put_all (map (canon_buf t) [i..<i + k]) t)"
proof (induction k arbitrary: i t)
  case (Suc k)
  have "[i..<i + Suc k] = i # [Suc i..<Suc i + k]" by (simp add: upt_rec)
  with Suc.IH [of "Suc i" "inq_put (canon_buf t i) t"] show ?case
    by (simp add: inq_put_def split: prod.split)
qed simp

lemma put_all_spec:
  "inq_list (snd (put_all cs t)) = take 255 (inq_list t @ cs) \<and>
     fst (put_all cs t) = min (length cs) (255 - length (inq_list t))"
proof (induction cs arbitrary: t)
  case Nil
  have "unat (inq_count t) \<le> 255" using u8_bound [of "inq_count t"] by simp
  then show ?case by simp
next
  case (Cons c cs)
  show ?case
  proof (cases "inq_full t")
    case True
    then show ?thesis by (simp add: inq_full_iff)
  next
    case False
    then have "length (inq_list t) < 255" using u8_bound [of "inq_count t"] by (simp add: inq_full_iff)
    moreover have "inq_list (snd (put_all cs (inq_put c t))) = take 255 ((inq_list t @ [c]) @ cs)"
      "fst (put_all cs (inq_put c t)) = min (length cs) (255 - length (inq_list t @ [c]))"
      using Cons.IH [of "inq_put c t"] unfolding inq_put_list [OF False] by blast+
    ultimately show ?thesis using False by (simp add: case_prod_beta del: length_inq_list)
  qed
qed

lemma take_inq_spec:
  "fst (take_inq k dst t) = dst @ take k (inq_list t) \<and> inq_list (snd (take_inq k dst t)) = drop k (inq_list t)"
proof (induction k arbitrary: dst t)
  case (Suc k)
  show ?case
  proof (cases "inq_count t = 0")
    case True
    then show ?thesis by (simp add: inq_list_def)
  next
    case False
    then have "0 < inq_count t" by (simp add: word_gt_0)
    with Suc.IH [of "dst @ [fst (inq_get t)]" "snd (inq_get t)"] inq_get_list [OF False] show ?thesis
      by (simp add: case_prod_beta)
  qed
qed simp

interpretation lq: bounded_queue inq_list "\<lambda>_. True" 255 put_all "\<lambda>n. take_inq n []"
proof
  fix t :: tty and bs :: bytes and n :: nat
  show "length (inq_list t) \<le> 255" using u8_bound [of "inq_count t"] by simp
  show "fst (put_all bs t) = min (length bs) (255 - length (inq_list t))" using put_all_spec by blast
  show "inq_list (snd (put_all bs t)) = inq_list t @ take (fst (put_all bs t)) bs"
    using put_all_spec [of bs t] u8_bound [of "inq_count t"] by (simp add: min_def)
  show "fst (take_inq n [] t) = take n (inq_list t)" "inq_list (snd (take_inq n [] t)) = drop n (inq_list t)"
    using take_inq_spec [of n "[]" t] by simp_all
qed simp_all

section \<open>The line discipline\<close>

text \<open>
  What input does, on lists: the line being edited, the bytes that readers can have, and the
  flag that a line is complete.
\<close>

type_synonym discipline = "bytes \<times> bytes \<times> bool"

definition ld_step :: "kernel_termios \<Rightarrow> u8 \<Rightarrow> discipline \<Rightarrow> discipline" where
  "ld_step tm c0 d =
     (case (d, map_input (c_iflag tm) c0) of
        (_, None) \<Rightarrow> d
      | ((line, q, ready), Some c) \<Rightarrow>
         if c_lflag tm AND ISIG \<noteq> 0 \<and> c \<in> {c_cc tm VINTR, c_cc tm VQUIT, c_cc tm VSUSP}
         then (if c_lflag tm AND NOFLSH = 0 then ([], [], False) else d)
         else if c_lflag tm AND ICANON = 0 then (line, take 255 (q @ [c]), ready)
         else if c = c_cc tm VERASE \<or> c = 0x7F then (butlast line, q, ready)
         else if c = c_cc tm VKILL then ([], q, ready)
         else if c = c_cc tm VEOF then ([], take 255 (q @ line), True)
         else if c = 10 then ([], take 255 (q @ take 255 (line @ [c])), True)
         else (take 255 (line @ [c]), q, ready))"

definition ld_view :: "tty \<Rightarrow> discipline" where
  "ld_view t = (canon_line t, inq_list t, canon_ready t)"

lemma ld_view_io [simp]:
  "ttys (kputc c s) = ttys s" "ttys (tty_echo c s) = ttys s" "ttys (echo_erased c s) = ttys s"
  "ttys (tty_signal g s) = ttys s"
  by (simp_all add: kputc_def tty_echo_def echo_erased_def tty_echo_erase_ctrl_def tty_echo_erase_def tty_signal_def)

lemma view_waiting [simp]:
  "inq_list (t\<lparr>waiting := w\<rparr>) = inq_list t" "canon_line (t\<lparr>waiting := w\<rparr>) = canon_line t"
  "inq_count (t\<lparr>waiting := w\<rparr>) = inq_count t"
  by (simp_all add: inq_list_def canon_line_def inq_count_def)

lemma wake_reader_view [simp]:
  "ld_view (ttys (tty_wake_reader i s) j) = ld_view (ttys s j)"
  "termios (ttys (tty_wake_reader i s) j) = termios (ttys s j)"
  by (simp_all add: tty_wake_reader_def Let_def ld_view_def)

lemma view_canon [simp]:
  "inq_list (t\<lparr>canon_len := n\<rparr>) = inq_list t" "inq_list (t\<lparr>canon_ready := r\<rparr>) = inq_list t"
  "inq_list (t\<lparr>canon_buf := b\<rparr>) = inq_list t"
  "canon_line (t\<lparr>canon_ready := r\<rparr>) = canon_line t" "canon_line (t\<lparr>canon_len := 0\<rparr>) = []"
  by (simp_all add: inq_list_def canon_line_def inq_count_def)

lemma inq_flush_view [simp]: "ld_view (inq_flush t) = ([], [], False)" "termios (inq_flush t) = termios t"
  by (simp_all add: ld_view_def inq_flush_def canon_line_def inq_list_def inq_count_def)

lemma inq_put_sel [simp]:
  "canon_line (inq_put c t) = canon_line t" "canon_ready (inq_put c t) = canon_ready t"
  "termios (inq_put c t) = termios t" "waiting (inq_put c t) = waiting t"
  by (simp_all add: inq_put_def canon_line_def)

lemma put_all_termios [simp]: "termios (snd (put_all cs t)) = termios t"
  by (induction cs arbitrary: t) (auto simp: case_prod_beta)

lemma end_line_view:
  "ld_view (end_line t) = ([], take 255 (inq_list t @ canon_line t), True)" "termios (end_line t) = termios t"
proof -
  have m: "move_line (unat (canon_len t)) 0 t = snd (put_all (canon_line t) t)"
    by (simp add: move_line_put_all canon_line_def)
  show "ld_view (end_line t) = ([], take 255 (inq_list t @ canon_line t), True)"
    unfolding ld_view_def end_line_def m by (simp add: put_all_spec)
  show "termios (end_line t) = termios t" unfolding end_line_def m by simp
qed

lemma canon_pop:
  assumes "canon_len t > 0"
  shows "canon_line (t\<lparr>canon_len := canon_len t - 1\<rparr>) = butlast (canon_line t)"
proof -
  have "unat (canon_len t) = Suc (unat (canon_len t - 1))"
    by (rule unat_dec8) (use assms in \<open>simp add: word_gt_0\<close>)
  then show ?thesis by (simp add: canon_line_def)
qed

lemma canon_push:
  assumes "unat (canon_len t) < 255"
  shows "canon_line (t\<lparr>canon_buf := (canon_buf t)(unat (canon_len t) := c), canon_len := canon_len t + 1\<rparr>)
    = canon_line t @ [c]"
proof -
  have "unat (canon_len t + 1) = Suc (unat (canon_len t))" using assms by (intro unat_inc8) simp
  then show ?thesis by (simp add: canon_line_def)
qed

lemma kill_line_view:
  "unat (canon_len (ttys s i)) = k \<Longrightarrow> inq_list (ttys (kill_line k i l s) i) = inq_list (ttys s i) \<and>
     canon_ready (ttys (kill_line k i l s) i) = canon_ready (ttys s i) \<and>
     termios (ttys (kill_line k i l s) i) = termios (ttys s i) \<and>
     (j \<noteq> i \<longrightarrow> ttys (kill_line k i l s) j = ttys s j)"
proof (induction k arbitrary: s)
  case (Suc k)
  let ?s = "upd_tty i (\<lambda>t. t\<lparr>canon_len := canon_len t - 1\<rparr>) s"
  have "canon_len (ttys s i) \<noteq> 0" using Suc.prems by auto
  then have "unat (canon_len (ttys s i) - 1) = k" using Suc.prems unat_dec8 by fastforce
  with Suc.IH [of ?s] Suc.IH [of "echo_erased (canon_buf (ttys s i) k) ?s"] show ?case by (simp add: Let_def)
qed simp


lemma canon_input_view:
  assumes "c_lflag (termios (ttys s i)) = l"
  shows "ld_view (ttys (canon_input i c l s) i) =
     (if c = c_cc (termios (ttys s i)) VERASE \<or> c = 0x7F
      then (butlast (canon_line (ttys s i)), inq_list (ttys s i), canon_ready (ttys s i))
      else if c = c_cc (termios (ttys s i)) VKILL then ([], inq_list (ttys s i), canon_ready (ttys s i))
      else if c = c_cc (termios (ttys s i)) VEOF
      then ([], take 255 (inq_list (ttys s i) @ canon_line (ttys s i)), True)
      else if c = 10
      then ([], take 255 (inq_list (ttys s i) @ take 255 (canon_line (ttys s i) @ [c])), True)
      else (take 255 (canon_line (ttys s i) @ [c]), inq_list (ttys s i), canon_ready (ttys s i)))"
    (is "_ = ?rhs")
    and "termios (ttys (canon_input i c l s) i) = termios (ttys s i)"
proof -
  let ?t = "ttys s i" and ?push = "\<lambda>t. t\<lparr>canon_buf := (canon_buf t)(unat (canon_len t) := c), canon_len := canon_len t + 1\<rparr>"
  define L where "L = take 255 (canon_line ?t @ [c])"
  define p where "p = (if unat (canon_len ?t) < 255 then upd_tty i ?push s else s)"
  define e where "e = (if l AND ECHO \<noteq> 0 then tty_echo c p else if l AND ECHONL \<noteq> 0 \<and> c = 10 then kputc 10 p else p)"
  have e: "ttys e = ttys p" by (simp add: e_def)
  have p: "canon_line (ttys p i) = L" "inq_list (ttys p i) = inq_list ?t"
    "canon_ready (ttys p i) = canon_ready ?t" "termios (ttys p i) = termios ?t"
    using u8_bound [of "canon_len ?t"] canon_push [of ?t c] by (auto simp: p_def L_def)
  have k: "inq_list (ttys (kill_line (unat (canon_len ?t)) i l s) i) = inq_list ?t"
    "canon_ready (ttys (kill_line (unat (canon_len ?t)) i l s) i) = canon_ready ?t"
    "termios (ttys (kill_line (unat (canon_len ?t)) i l s) i) = termios ?t"
    using kill_line_view [OF refl] by blast+
  have z: "canon_line ?t = []" if "\<not> 0 < canon_len ?t" using that by (simp add: canon_line_def word_gt_0)
  have ce: "canon_input i c l s =
    (if c = c_cc (termios ?t) VERASE \<or> c = 0x7F
     then (if canon_len ?t > 0
           then let s1 = upd_tty i (\<lambda>t. t\<lparr>canon_len := canon_len t - 1\<rparr>) s
                in if l AND ECHO \<noteq> 0 \<and> l AND ECHOE \<noteq> 0 then echo_erased (canon_buf ?t (unat (canon_len ?t) - 1)) s1 else s1
           else s)
     else if c = c_cc (termios ?t) VKILL
     then upd_tty i (\<lambda>t. t\<lparr>canon_len := 0\<rparr>)
       (if l AND ECHO \<noteq> 0 then let s' = kill_line (unat (canon_len ?t)) i l s in if l AND ECHOK \<noteq> 0 then kputc 10 s' else s' else s)
     else if c = c_cc (termios ?t) VEOF then tty_wake_reader i (upd_tty i end_line s)
     else if c = 10 then tty_wake_reader i (upd_tty i end_line e) else e)"
    unfolding canon_input_def Let_def e_def p_def by simp
  consider (erase) "c = c_cc (termios ?t) VERASE \<or> c = 0x7F"
    | (kill) "\<not> (c = c_cc (termios ?t) VERASE \<or> c = 0x7F)" "c = c_cc (termios ?t) VKILL"
    | (eof) "\<not> (c = c_cc (termios ?t) VERASE \<or> c = 0x7F)" "c \<noteq> c_cc (termios ?t) VKILL" "c = c_cc (termios ?t) VEOF"
    | (nl) "\<not> (c = c_cc (termios ?t) VERASE \<or> c = 0x7F)" "c \<noteq> c_cc (termios ?t) VKILL" "c \<noteq> c_cc (termios ?t) VEOF" "c = 10"
    | (other) "\<not> (c = c_cc (termios ?t) VERASE \<or> c = 0x7F)" "c \<noteq> c_cc (termios ?t) VKILL" "c \<noteq> c_cc (termios ?t) VEOF" "c \<noteq> 10"
    by blast
  then have "ld_view (ttys (canon_input i c l s) i) = ?rhs \<and> termios (ttys (canon_input i c l s) i) = termios ?t"
  proof cases
    case erase
    then show ?thesis using z canon_pop [of ?t] by (auto simp: ce Let_def ld_view_def)
  next
    case kill
    then show ?thesis unfolding ce by (simp add: Let_def ld_view_def k)
  next
    case eof
    then show ?thesis unfolding ce by (simp add: end_line_view)
  next
    case nl
    then show ?thesis unfolding ce L_def [symmetric] by (simp add: end_line_view e p)
  next
    case other
    then show ?thesis unfolding ce L_def [symmetric] by (simp add: ld_view_def e p)
  qed
  then show "ld_view (ttys (canon_input i c l s) i) = ?rhs"
    "termios (ttys (canon_input i c l s) i) = termios ?t" by simp_all
qed

lemma sig_input_view:
  "ld_view (ttys (sig_input i g sh l s) i) = (if l AND NOFLSH = 0 then ([], [], False) else ld_view (ttys s i))"
  "termios (ttys (sig_input i g sh l s) i) = termios (ttys s i)"
  by (simp_all add: sig_input_def Let_def)

lemma tty_inproc_step:
  assumes "i < NTTY"
  shows "ld_view (ttys (tty_inproc i c s) i) = ld_step (termios (ttys s i)) c (ld_view (ttys s i))"
    and "termios (ttys (tty_inproc i c s) i) = termios (ttys s i)"
proof -
  let ?t = "ttys s i"
  have "ld_view (ttys (tty_inproc i c s) i) = ld_step (termios ?t) c (ld_view ?t) \<and>
    termios (ttys (tty_inproc i c s) i) = termios ?t"
  proof (cases "map_input (c_iflag (termios ?t)) c")
    case None
    then show ?thesis using assms by (simp add: tty_inproc_def ld_step_def ld_view_def)
  next
    case (Some d)
    define Q where "Q = take 255 (inq_list ?t @ [d])"
    have q: "inq_list (inq_put d ?t) = Q" if "\<not> inq_full ?t"
      using that u8_bound [of "inq_count ?t"] by (auto simp: inq_put_list inq_full_iff Q_def)
    have f: "Q = inq_list ?t" if "inq_full ?t"
      using that by (simp add: inq_full_iff Q_def)
    let ?l = "c_lflag (termios ?t)" and ?c = "c_cc (termios ?t)"
    define r where "r = (if \<not> inq_full ?t
      then tty_wake_reader i (if ?l AND ECHO \<noteq> 0 then tty_echo d (upd_tty i (inq_put d) s) else upd_tty i (inq_put d) s)
      else s)"
    have r: "ld_view (ttys r i) = (canon_line ?t, Q, canon_ready ?t)"
      "termios (ttys r i) = termios ?t"
    proof -
      have "ld_view (ttys r i) = (if inq_full ?t then ld_view ?t else ld_view (inq_put d ?t))" by (simp add: r_def)
      then show "ld_view (ttys r i) = (canon_line ?t, Q, canon_ready ?t)" by (auto simp: ld_view_def q f)
      show "termios (ttys r i) = termios ?t" by (simp add: r_def)
    qed
    have "tty_inproc i c s =
      (if ?l AND ISIG \<noteq> 0 \<and> d = ?c VINTR then sig_input i SIGINT 67 ?l s
       else if ?l AND ISIG \<noteq> 0 \<and> d = ?c VQUIT then sig_input i SIGQUIT 92 ?l s
       else if ?l AND ISIG \<noteq> 0 \<and> d = ?c VSUSP then sig_input i SIGTSTP 90 ?l s
       else if ?l AND ICANON \<noteq> 0 then canon_input i d ?l s else r)"
      unfolding tty_inproc_def Let_def Some r_def using assms by simp
    then consider g sh where "?l AND ISIG \<noteq> 0 \<and> d \<in> {?c VINTR, ?c VQUIT, ?c VSUSP}" "tty_inproc i c s = sig_input i g sh ?l s"
      | "\<not> (?l AND ISIG \<noteq> 0 \<and> d \<in> {?c VINTR, ?c VQUIT, ?c VSUSP})" "?l AND ICANON \<noteq> 0" "tty_inproc i c s = canon_input i d ?l s"
      | "\<not> (?l AND ISIG \<noteq> 0 \<and> d \<in> {?c VINTR, ?c VQUIT, ?c VSUSP})" "?l AND ICANON = 0" "tty_inproc i c s = r"
      by (metis insert_iff empty_iff)
    then show ?thesis
    proof cases
      case 1
      then show ?thesis unfolding ld_step_def Some ld_view_def [of ?t] prod.case option.case
        by (simp add: sig_input_view ld_view_def [of ?t])
    next
      case 2
      then show ?thesis unfolding ld_step_def ld_view_def [of ?t] Some prod.case option.case
        by (simp only: canon_input_view [OF refl] if_False)
    next
      case 3
      then show ?thesis unfolding ld_step_def ld_view_def [of ?t] Some prod.case option.case
        by (simp only: r if_False Q_def) simp
    qed
  qed
  then show "ld_view (ttys (tty_inproc i c s) i) = ld_step (termios ?t) c (ld_view ?t)"
    "termios (ttys (tty_inproc i c s) i) = termios ?t" by simp_all
qed


lemma fold_inproc:
  assumes "i < NTTY"
  shows "ld_view (ttys (fold (tty_inproc i) cs s) i) = fold (ld_step (termios (ttys s i))) cs (ld_view (ttys s i)) \<and>
    termios (ttys (fold (tty_inproc i) cs s) i) = termios (ttys s i)"
  by (induction cs arbitrary: s) (simp_all add: tty_inproc_step [OF assms])

section \<open>What input leaves alone\<close>

lemma io_sel [simp]:
  "rx (kputc c s) = rx s" "pt (kputc c s) = pt s" "rx (tty_echo c s) = rx s" "pt (tty_echo c s) = pt s"
  "rx (echo_erased c s) = rx s" "pt (echo_erased c s) = pt s" "rx (tty_wake_reader i s) = rx s"
  "rx (tty_signal g s) = rx s"
  by (simp_all add: kputc_def tty_echo_def echo_erased_def tty_echo_erase_ctrl_def tty_echo_erase_def
    tty_wake_reader_def tty_signal_def Let_def)

lemma kill_line_sel [simp]: "rx (kill_line k i l s) = rx s" "pt (kill_line k i l s) = pt s"
  by (induction k arbitrary: s) (simp_all add: Let_def)

lemma canon_input_rx [simp]: "rx (canon_input i c l s) = rx s"
  by (simp add: canon_input_def Let_def if_distrib [of rx] cong: if_cong)

lemma inproc_rx [simp]: "rx (tty_inproc i c s) = rx s"
  by (simp add: tty_inproc_def sig_input_def Let_def if_distrib [of rx] cong: if_cong split: option.split)

lemma fold_inproc_rx [simp]: "rx (fold (tty_inproc i) cs s) = rx s"
  by (induction cs arbitrary: s) simp_all

section \<open>Reading\<close>

text \<open>
  A read that returns bytes has fed some prefix of what the console held to the line
  discipline, and got what was then available, up to the requested length.
\<close>

text \<open>The line discipline after the input \<open>ins\<close>.\<close>

definition ld_after :: "nat \<Rightarrow> bytes \<Rightarrow> tsys \<Rightarrow> discipline" where
  "ld_after i ins s = fold (ld_step (termios (ttys s i))) ins (ld_view (ttys s i))"

lemma ld_after_Cons:
  assumes "i < NTTY" and "rx s = c # cs"
  shows "ld_after i (c # ins) s = ld_after i ins (tty_inproc i c (s\<lparr>rx := cs\<rparr>))"
  by (simp add: ld_after_def tty_inproc_step [OF assms(1)])

lemma finish_read_spec:
  "finish_read canon i len s = (r, t) \<Longrightarrow>
     r = Got (take (nat len) (inq_list (ttys s i))) \<and> inq_list (ttys t i) = drop (nat len) (inq_list (ttys s i)) \<and>
     rx t = rx s"
  using take_inq_spec [of "nat len" "[]" "ttys s i"] by (auto simp: finish_read_def split: prod.splits)

lemma read_ready_view:
  "ld_view (ttys s i) = (line, q, r) \<Longrightarrow> read_ready canon (ttys s i) \<longleftrightarrow> (canon \<longrightarrow> r) \<and> q \<noteq> []"
  by (auto simp: read_ready_def ld_view_def inq_list_def word_gt_0 unat_eq_0)

text \<open>A read can return: there are bytes, and in canonical mode the flag of a line is set.\<close>

definition readable :: "bool \<Rightarrow> discipline \<Rightarrow> bool" where
  "readable canon d \<longleftrightarrow> (canon \<longrightarrow> snd (snd d)) \<and> fst (snd d) \<noteq> []"

lemma readable_view: "read_ready canon (ttys s i) \<longleftrightarrow> readable canon (ld_view (ttys s i))"
  by (cases "ld_view (ttys s i)") (auto simp: readable_def read_ready_view)

lemma tty_wait_spec:
  assumes "i < NTTY"
  shows "length (rx s) < fuel \<Longrightarrow> tty_wait fuel canon i len s = (Got bs, t) \<Longrightarrow>
     \<exists>ins line q r. rx s = ins @ rx t \<and> ld_after i ins s = (line, q, r) \<and> (canon \<longrightarrow> r) \<and> q \<noteq> [] \<and>
       bs = take (nat len) q \<and> inq_list (ttys t i) = drop (nat len) q \<and>
       (\<forall>pre post. ins = pre @ post \<longrightarrow> post \<noteq> [] \<longrightarrow> \<not> readable canon (ld_after i pre s))"
proof (induction fuel arbitrary: s)
  case (Suc fuel)
  show ?case
  proof (cases "read_ready canon (ttys s i)")
    case True
    then have "finish_read canon i len s = (Got bs, t)" using Suc.prems(2) by simp
    with finish_read_spec [OF this] True show ?thesis
      using read_ready_view [of s i "canon_line (ttys s i)" "inq_list (ttys s i)" "canon_ready (ttys s i)" canon]
      by (intro exI [of _ "[]"] exI [of _ "canon_line (ttys s i)"] exI [of _ "inq_list (ttys s i)"] exI [of _ "canon_ready (ttys s i)"])
         (simp add: ld_after_def ld_view_def)
  next
    case False
    then obtain c cs where rx: "rx s = c # cs" and w: "tty_wait fuel canon i len (tty_inproc i c (s\<lparr>rx := cs\<rparr>)) = (Got bs, t)"
      using Suc.prems(2) by (auto split: list.splits if_splits)
    have "length (rx (tty_inproc i c (s\<lparr>rx := cs\<rparr>))) < fuel" using Suc.prems(1) rx by simp
    from Suc.IH [OF this w] obtain ins line q r where IH: "cs = ins @ rx t" "ld_after i ins (tty_inproc i c (s\<lparr>rx := cs\<rparr>)) = (line, q, r)"
      "canon \<longrightarrow> r" "q \<noteq> []" "bs = take (nat len) q" "inq_list (ttys t i) = drop (nat len) q"
      "\<forall>pre post. ins = pre @ post \<longrightarrow> post \<noteq> [] \<longrightarrow> \<not> readable canon (ld_after i pre (tty_inproc i c (s\<lparr>rx := cs\<rparr>)))"
      by auto
    have "\<not> readable canon (ld_after i pre s)" if "c # ins = pre @ post" "post \<noteq> []" for pre post
    proof (cases pre)
      case Nil
      then show ?thesis using False by (simp add: ld_after_def readable_view)
    next
      case (Cons d pre1)
      then show ?thesis using that IH(7) ld_after_Cons [OF assms rx] by auto
    qed
    then show ?thesis using rx ld_after_Cons [OF assms rx] IH
      by (intro exI [of _ "c # ins"] exI [of _ line] exI [of _ q] exI [of _ r]) auto
  qed
qed simp

text \<open>
  One line at a time: nothing or one line to read, marked as complete, and no newline in the line
  being edited. Input that finds the queue empty keeps this, as long as \<open>^D\<close> is not typed on an
  empty line.
\<close>

definition one_line :: "discipline \<Rightarrow> bool" where
  "one_line d \<longleftrightarrow> (case d of (line, q, r) \<Rightarrow> 10 \<notin> set line \<and> 10 \<notin> set (butlast q) \<and> r = (q \<noteq> []))"

definition is_eof :: "kernel_termios \<Rightarrow> u8 \<Rightarrow> bool" where
  "is_eof tm c \<longleftrightarrow> map_input (c_iflag tm) c = Some (c_cc tm VEOF)"

definition eof_after_text :: "nat \<Rightarrow> tsys \<Rightarrow> bool" where
  "eof_after_text i s \<longleftrightarrow> (\<forall>pre c post. rx s = pre @ c # post \<longrightarrow> is_eof (termios (ttys s i)) c \<longrightarrow>
     fst (ld_after i pre s) \<noteq> [])"

lemma set_butlast_take: "x \<in> set (butlast (take n xs)) \<Longrightarrow> x \<in> set (butlast xs)"
proof (cases "n < length xs")
  case True
  assume "x \<in> set (butlast (take n xs))"
  then have "x \<in> set (take (n - 1) xs)" using True by (simp add: butlast_take)
  then have "x \<in> set (take (length xs - 1) xs)" using set_take_subset_set_take [of "n - 1" "length xs - 1" xs] True by (auto dest: less_imp_le diff_le_mono)
  then show ?thesis by (simp add: butlast_conv_take)
qed simp

lemma not_in_butlast: "x \<notin> set xs \<Longrightarrow> (x \<in> set (butlast xs)) = False"
  by (auto dest: in_set_butlastD)

lemma one_line_step:
  assumes "one_line (line, [], r)" and "c_lflag tm AND ICANON \<noteq> 0" and "is_eof tm c \<Longrightarrow> line \<noteq> []"
  shows "one_line (ld_step tm c (line, [], r))"
  using assms by (auto simp: one_line_def ld_step_def is_eof_def not_in_butlast dest!: set_butlast_take dest: in_set_takeD
      simp del: take_append split: option.split)

lemma one_line_after:
  assumes "one_line (ld_view (ttys s i))" and "c_lflag (termios (ttys s i)) AND ICANON \<noteq> 0" and "eof_after_text i s"
  shows "rx s = ins @ rest \<Longrightarrow> \<forall>pre post. ins = pre @ post \<longrightarrow> post \<noteq> [] \<longrightarrow> \<not> readable True (ld_after i pre s) \<Longrightarrow>
    one_line (ld_after i ins s)"
proof (induction ins arbitrary: rest rule: rev_induct)
  case Nil
  then show ?case using assms(1) by (simp add: ld_after_def)
next
  case (snoc c ins)
  obtain line q r where d: "ld_after i ins s = (line, q, r)" by (cases "ld_after i ins s") auto
  have "\<forall>pre post. ins = pre @ post \<longrightarrow> post \<noteq> [] \<longrightarrow> \<not> readable True (ld_after i pre s)"
    using snoc.prems(2) by (metis append_assoc append_is_Nil_conv)
  then have o: "one_line (line, q, r)" using snoc.IH [of "c # rest"] snoc.prems(1) d by simp
  moreover have "\<not> readable True (line, q, r)" using snoc.prems(2) d by (metis not_Cons_self2)
  ultimately have q: "q = []" by (auto simp: one_line_def readable_def)
  have "rx s = ins @ c # rest" using snoc.prems(1) by simp
  then have "is_eof (termios (ttys s i)) c \<Longrightarrow> line \<noteq> []"
    using assms(3) d unfolding eof_after_text_def by (metis fst_conv)
  from one_line_step [OF o [unfolded q] assms(2) this] show ?case using d q by (simp add: ld_after_def)
qed

section \<open>Waking\<close>

lemma data_ready_iff:
  "i < NTTY \<Longrightarrow> tty_data_ready i s \<longleftrightarrow> read_ready (c_lflag (termios (ttys s i)) AND ICANON \<noteq> 0) (ttys s i)"
  by (auto simp: tty_data_ready_def read_ready_def Let_def word_gt_0)

lemma data_ready_view:
  assumes "i < NTTY" and "ld_view (ttys s i) = ld_view (ttys t i)" and "termios (ttys s i) = termios (ttys t i)"
  shows "tty_data_ready i s = tty_data_ready i t"
  using assms(2,3) read_ready_view [of s i "canon_line (ttys s i)" "inq_list (ttys s i)" "canon_ready (ttys s i)"]
    read_ready_view [of t i "canon_line (ttys t i)" "inq_list (ttys t i)" "canon_ready (ttys t i)"]
  unfolding data_ready_iff [OF assms(1)] by (simp add: ld_view_def)

lemma pt_sel [simp]:
  "curproc (pt (tty_wake_reader i s)) = curproc (pt s)" "nproc (pt (tty_wake_reader i s)) = nproc (pt s)"
  "pid (proctab (pt (tty_wake_reader i s)) j) = pid (proctab (pt s) j)"
  "curproc (pt (tty_signal g s)) = curproc (pt s)" "nproc (pt (tty_signal g s)) = nproc (pt s)"
  "pid (proctab (pt (tty_signal g s)) j) = pid (proctab (pt s) j)"
  by (simp_all add: tty_wake_reader_def tty_signal_def wake_proc_def raise_sig_def Let_def)

lemma canon_input_pt [simp]:
  "curproc (pt (canon_input i c l s)) = curproc (pt s)" "nproc (pt (canon_input i c l s)) = nproc (pt s)"
  "pid (proctab (pt (canon_input i c l s)) j) = pid (proctab (pt s) j)"
  by (simp_all add: canon_input_def Let_def if_distrib [of pt] if_distrib [of curproc] if_distrib [of nproc]
    if_distrib [of proctab] cong: if_cong)

lemma inproc_pt [simp]:
  "curproc (pt (tty_inproc i c s)) = curproc (pt s)" "pid (proctab (pt (tty_inproc i c s)) j) = pid (proctab (pt s) j)"
  "nproc (pt (tty_inproc i c s)) = nproc (pt s)"
  by (simp_all add: tty_inproc_def sig_input_def Let_def split: option.split)

text \<open>The process registered on the terminal.\<close>

definition registered :: "nat \<Rightarrow> nat \<Rightarrow> tsys \<Rightarrow> bool" where
  "registered i k s \<longleftrightarrow> unat (waiting (ttys s i)) = Suc k \<and> k < MAXPROC \<and> pstate (proctab (pt s) k) = P_SLEEPING"

lemma wake_registered:
  "registered i k s \<Longrightarrow> pstate (proctab (pt (tty_wake_reader i s)) k) = P_READY"
  by (simp add: registered_def tty_wake_reader_def wake_proc_def)

lemma data_ready_case:
  assumes "i < NTTY"
  shows "tty_data_ready i s =
    (case ld_view (ttys s i) of (line, q, r) \<Rightarrow> (c_lflag (termios (ttys s i)) AND ICANON \<noteq> 0 \<longrightarrow> r) \<and> q \<noteq> [])"
  unfolding data_ready_iff [OF assms] ld_view_def prod.case by (rule read_ready_view) (simp add: ld_view_def)

lemma canon_input_wakes:
  assumes "registered i k s" and "i < NTTY" and l: "c_lflag (termios (ttys s i)) = l"
    and n: "\<not> tty_data_ready i s" and y: "tty_data_ready i (canon_input i c l s)"
  shows "pstate (proctab (pt (canon_input i c l s)) k) = P_READY"
proof -
  let ?cc = "c_cc (termios (ttys s i))"
  have e: "c \<noteq> ?cc VERASE \<and> c \<noteq> 0x7F \<and> c \<noteq> ?cc VKILL \<and> (c = ?cc VEOF \<or> c = 10)"
  proof (rule ccontr)
    assume "\<not> ?thesis"
    then have "snd (ld_view (ttys (canon_input i c l s) i)) = snd (ld_view (ttys s i))"
      unfolding canon_input_view(1) [OF l] by (auto simp: ld_view_def)
    then show False using n y
      unfolding data_ready_case [OF assms(2)] canon_input_view(2) [OF l] by (simp add: case_prod_beta)
  qed
  define p where "p = (if unat (canon_len (ttys s i)) < 255
    then upd_tty i (\<lambda>t. t\<lparr>canon_buf := (canon_buf t)(unat (canon_len t) := c), canon_len := canon_len t + 1\<rparr>) s else s)"
  define q where "q = (if c = ?cc VEOF then upd_tty i end_line s
    else upd_tty i end_line (if l AND ECHO \<noteq> 0 then tty_echo c p else if l AND ECHONL \<noteq> 0 \<and> c = 10 then kputc 10 p else p))"
  have w: "waiting (end_line t) = waiting t" for t
  proof -
    have "waiting (snd (put_all cs u)) = waiting u" for cs u by (induction cs arbitrary: u) (auto simp: case_prod_beta)
    then show ?thesis by (simp add: end_line_def move_line_put_all)
  qed
  have "canon_input i c l s = tty_wake_reader i q"
    using e unfolding canon_input_def Let_def q_def p_def by auto
  moreover have "registered i k q" using assms(1) by (simp add: registered_def q_def p_def w)
  ultimately show ?thesis by (simp add: wake_registered)
qed

lemma inproc_wakes:
  assumes "registered i k s" and "i < NTTY" and n: "\<not> tty_data_ready i s" and y: "tty_data_ready i (tty_inproc i c s)"
  shows "pstate (proctab (pt (tty_inproc i c s)) k) = P_READY"
proof -
  let ?t = "ttys s i" and ?l = "c_lflag (termios (ttys s i))"
  obtain d where d: "map_input (c_iflag (termios ?t)) c = Some d"
    using n y assms(2) by (cases "map_input (c_iflag (termios ?t)) c") (auto simp: tty_inproc_def)
  have sig: "pstate (proctab (pt (sig_input i g sh ?l s)) k) = P_READY" for g sh
  proof -
    define z where "z = (if ?l AND ECHO \<noteq> 0 then kputc 10 (kputc sh (kputc 94 (tty_signal g s))) else tty_signal g s)"
    have "registered i k (if ?l AND NOFLSH = 0 then upd_tty i inq_flush z else z)"
      using assms(1) by (auto simp: registered_def z_def tty_signal_def raise_sig_def inq_flush_def)
    then show ?thesis unfolding sig_input_def Let_def z_def [symmetric] by (rule wake_registered)
  qed
  define r where "r = (if ?l AND ECHO \<noteq> 0 then tty_echo d (upd_tty i (inq_put d) s) else upd_tty i (inq_put d) s)"
  have r: "registered i k r" using assms(1) by (simp add: registered_def r_def)
  have "tty_inproc i c s \<noteq> s" using n y by auto
  then have "(\<exists>g sh. tty_inproc i c s = sig_input i g sh ?l s) \<or> tty_inproc i c s = canon_input i d ?l s \<or>
      tty_inproc i c s = tty_wake_reader i r"
    unfolding tty_inproc_def Let_def d option.case r_def by (auto split del: if_split split: if_split_asm)
  then consider g sh where "tty_inproc i c s = sig_input i g sh ?l s" | "tty_inproc i c s = canon_input i d ?l s"
    | "tty_inproc i c s = tty_wake_reader i r" by blast
  then show ?thesis
  proof cases
    case 1
    then show ?thesis by (simp add: sig)
  next
    case 2
    then show ?thesis using canon_input_wakes [OF assms(1,2) refl n, of d] y by simp
  next
    case 3
    then show ?thesis using wake_registered [OF r] by simp
  qed
qed

lemma tty_wait_asleep:
  assumes "i < NTTY"
  shows "length (rx s) < fuel \<Longrightarrow> tty_wait fuel canon i len s = (Asleep, t) \<Longrightarrow>
    curproc (pt t) = curproc (pt s) \<and> pid (cur (pt t)) = pid (cur (pt s)) \<and>
    waiting (ttys t i) = of_nat (pid (cur (pt t)) + 1) \<and> pstate (cur (pt t)) = P_SLEEPING \<and>
    termios (ttys t i) = termios (ttys s i) \<and> \<not> read_ready canon (ttys t i) \<and> rx t = [] \<and>
    ld_view (ttys t i) = ld_after i (rx s) s"
proof (induction fuel arbitrary: s)
  case (Suc fuel)
  have nr: "\<not> read_ready canon (ttys s i)"
    using Suc.prems(2) by (auto simp: finish_read_def split: prod.splits)
  show ?case
  proof (cases "rx s")
    case Nil
    with nr Suc.prems(2) have "t = (upd_tty i (\<lambda>t. t\<lparr>waiting := of_nat (pid (cur (pt s)) + 1)\<rparr>) s)\<lparr>pt := sleep_cur (pt s)\<rparr>"
      by (auto split: if_splits)
    then show ?thesis using nr Nil by (simp add: sleep_cur_def read_ready_def ld_after_def ld_view_def)
  next
    case (Cons c cs)
    let ?u = "tty_inproc i c (s\<lparr>rx := cs\<rparr>)"
    have "length (rx ?u) < fuel" "tty_wait fuel canon i len ?u = (Asleep, t)"
      using Suc.prems Cons nr by simp_all
    from Suc.IH [OF this] show ?thesis
      using ld_after_Cons [OF assms Cons, of cs] tty_inproc_step(2) [OF assms, of c "s\<lparr>rx := cs\<rparr>"] Cons by auto
  qed
qed simp


section \<open>A concrete console\<close>

text \<open>A booted console that has received the given bytes, with one other process.\<close>

definition console_with :: "bytes \<Rightarrow> tsys" where
  "console_with bs = tty_init 24 80 \<lparr>pt = (proc_init boot_ptab)\<lparr>nproc := 2\<rparr>,
     ttys = (\<lambda>_. \<lparr>termios = default_termios, winsz = \<lparr>ws_row = 0, ws_col = 0, ws_xpixel = 0, ws_ypixel = 0\<rparr>,
       inq = (\<lambda>_. 0), inq_head = 0, inq_tail = 0, canon_buf = (\<lambda>_. 0), canon_len = 0, canon_ready = False,
       fg_pgrp = 0, tminor = 0, tflags = 0, waiting = 0\<rparr>), rx = bs, tx = []\<rparr>"

section \<open>Saving and restoring the settings\<close>

lemma get16_stored:
  assumes "Suc k < length bs" and "length bs \<le> 4294967296"
  shows "get16 (store_bytes a bs m) (a + of_nat k) = push_bit 8 (ucast (bs ! k)) OR ucast (bs ! Suc k)"
proof -
  have "store_bytes a bs m (a + of_nat k) = bs ! k" "store_bytes a bs m (a + of_nat (Suc k)) = bs ! Suc k"
    by (rule store_bytes_nth; use assms in simp)+
  then show ?thesis by (simp add: get16_def ac_simps)
qed

lemma length_termios_bytes: "length (termios_bytes t) = 20"
  by (simp add: termios_bytes_def)

lemma termios_stored:
  assumes "\<forall>k \<ge> NCCS. c_cc t k = 0"
  shows "termios_at (store_bytes a (termios_bytes t) m) a = (t :: kernel_termios)"
proof -
  let ?bs = "termios_bytes t" and ?m = "store_bytes a (termios_bytes t) m"
  have b: "?bs = [ucast (drop_bit 8 (c_iflag t)), ucast (c_iflag t), ucast (drop_bit 8 (c_oflag t)), ucast (c_oflag t),
      ucast (drop_bit 8 (c_cflag t)), ucast (c_cflag t), ucast (drop_bit 8 (c_lflag t)), ucast (c_lflag t)] @ map (c_cc t) [0..<NCCS]"
    by (simp add: termios_bytes_def)
  have g: "get16 ?m (a + of_nat k) = push_bit 8 (ucast (?bs ! k)) OR ucast (?bs ! Suc k)" if "k < 8" for k
    by (rule get16_stored) (use that in \<open>simp_all add: length_termios_bytes\<close>)
  have w: "get16 ?m a = c_iflag t" "get16 ?m (a + 2) = c_oflag t" "get16 ?m (a + 4) = c_cflag t" "get16 ?m (a + 6) = c_lflag t"
    using g [of 0] g [of 2] g [of 4] g [of 6] unfolding b by (simp_all add: join16)
  have "(if i < NCCS then ?m (a + 8 + of_nat i) else 0) = c_cc t i" for i
  proof (cases "i < NCCS")
    case True
    then have "?m (a + of_nat (8 + i)) = ?bs ! (8 + i)" by (intro store_bytes_nth) (simp_all add: length_termios_bytes)
    also have "?bs ! (8 + i) = c_cc t i" using True unfolding b by (simp add: nth_append)
    finally show ?thesis using True by (simp add: add.assoc)
  qed (use assms in simp)
  then show ?thesis unfolding termios_at_def w by simp
qed

section \<open>Properties\<close>

text \<open>
  C20. A program that saves a terminal's settings with \<open>TCGETS\<close> and later restores them with any
  of the three setting calls, from a buffer that still holds the same 20 bytes, gets exactly the
  saved settings back, whatever happened to the terminal, to the rest of memory and to the rest
  of the system in between.
\<close>

theorem termios_restored:
  assumes "i < NTTY" and "\<forall>k \<ge> NCCS. c_cc (termios (ttys s i)) k = 0"
    and "tty_ioctl i TCGETS arg (m, s) = (r, m1, s1)"
    and "load_bytes m2 arg 20 = load_bytes m1 arg 20" and "cmd \<in> {TCSETS, TCSETSW, TCSETSF}"
  shows "\<exists>s3. tty_ioctl i cmd arg (m2, s2) = (0, m2, s3) \<and> r = 0 \<and> s1 = s \<and>
    termios (ttys s3 i) = termios (ttys s i)"
proof -
  have m1: "m1 = store_bytes arg (termios_bytes (termios (ttys s i))) m" "r = 0" "s1 = s"
    using assms(1,3) by (auto simp: tty_ioctl_def)
  have e: "m2 (arg + of_nat k) = m1 (arg + of_nat k)" if "k < 20" for k
    using arg_cong [OF assms(4), of "\<lambda>bs. bs ! k"] that by (simp add: load_bytes_def)
  have c: "m2 (arg + 8 + of_nat k) = m1 (arg + 8 + of_nat k)" if "k < NCCS" for k
    using e [of "8 + k"] that by (simp add: add.assoc)
  have g: "get16 m2 (arg + of_nat k) = get16 m1 (arg + of_nat k)" if "k < 8" for k
    using e [of k] e [of "Suc k"] that by (intro get16_cong) (simp_all add: ac_simps)
  have "termios_at m2 arg = termios_at m1 arg"
    using g [of 0] g [of 2] g [of 4] g [of 6] c by (auto simp: termios_at_def)
  then have "termios_at m2 arg = termios (ttys s i)" unfolding m1 termios_stored [OF assms(2)] .
  then show ?thesis using assms(1,5) m1(2,3) by (auto simp: tty_ioctl_def Let_def inq_flush_def)
qed


lemma console_termios: "termios (ttys (console_with bs) 0) = default_termios\<lparr>c_cc := default_cc\<rparr>"
  by (simp add: console_with_def tty_init_def eval_nat_numeral)

lemma termios_restored_witness:
  "\<exists>s3. tty_ioctl 0 TCSETSF 64 (store_bytes 64 (termios_bytes (termios (ttys (console_with []) 0))) (\<lambda>_. 0), console_with [65]) =
      (0, store_bytes 64 (termios_bytes (termios (ttys (console_with []) 0))) (\<lambda>_. 0), s3) \<and>
    (0 :: int) = 0 \<and> console_with [] = console_with [] \<and>
    termios (ttys s3 0) = termios (ttys (console_with []) 0)"
proof (rule termios_restored [of 0 "console_with []" 64 "\<lambda>_. 0"])
  show "\<forall>k \<ge> NCCS. c_cc (termios (ttys (console_with []) 0)) k = 0"
    by (simp add: console_termios default_cc_def)
qed (simp_all add: tty_ioctl_def Let_def)

text \<open>
  C18. However many bytes the console delivers, in whatever order of text, editing and signal
  characters, the line being edited, the bytes readers can get and the completed-line flag are
  those of the list model: the 8-bit head and tail indices, their wrap-around and the separate
  canonical buffer lose and reorder nothing, and what does not fit in 255 bytes is cut.
\<close>

theorem tty_input_refines:
  assumes "i < NTTY"
  shows "ld_view (ttys (fold (tty_inproc i) cs s) i) = fold (ld_step (termios (ttys s i))) cs (ld_view (ttys s i))"
  using fold_inproc [OF assms] by blast

lemma tty_input_refines_witness:
  "ld_view (ttys (fold (tty_inproc 0) [104, 105, 8, 13] (console_with [])) 0) =
     fold (ld_step (termios (ttys (console_with []) 0))) [104, 105, 8, 13] (ld_view (ttys (console_with []) 0))"
  by (rule tty_input_refines) simp

text \<open>
  C19. A read that returns bytes has fed a prefix of what the console held through the line
  discipline, has stopped at the first point where a line (in raw mode, a byte) was there, and
  returns what was then available, in order and cut at the requested length; the rest stays for
  the next read. In canonical mode this is at most one line. There it is assumed that no more than
  one line was waiting when the read began (of several it returns all, see \<open>lines_together\<close>) and
  that \<open>^D\<close> is not typed on an empty line (which does not end the read, see \<open>tty_never_eof\<close>).
\<close>

theorem tty_read_delivers:
  assumes "i < NTTY" and "0 < len" and "tty_read i len s = (Got bs, t)"
    and "canon = (c_lflag (termios (ttys s i)) AND ICANON \<noteq> 0)"
    and "canon \<longrightarrow> one_line (ld_view (ttys s i)) \<and> eof_after_text i s"
  shows "\<exists>ins line q r. rx s = ins @ rx t \<and> ld_after i ins s = (line, q, r) \<and> q \<noteq> [] \<and>
    bs = take (nat len) q \<and> inq_list (ttys t i) = drop (nat len) q \<and>
    (canon \<longrightarrow> r \<and> 10 \<notin> set (butlast q)) \<and>
    (\<forall>pre post. ins = pre @ post \<longrightarrow> post \<noteq> [] \<longrightarrow>
       (if canon then \<not> snd (snd (ld_after i pre s)) else fst (snd (ld_after i pre s)) = []))"
proof -
  have "tty_wait (Suc (length (rx s))) canon i len s = (Got bs, t)"
    using assms(1-4) by (simp add: tty_read_def)
  from tty_wait_spec [OF assms(1) _ this] obtain ins line q r where w: "rx s = ins @ rx t" "ld_after i ins s = (line, q, r)"
    "canon \<longrightarrow> r" "q \<noteq> []" "bs = take (nat len) q" "inq_list (ttys t i) = drop (nat len) q"
    and before: "\<forall>pre post. ins = pre @ post \<longrightarrow> post \<noteq> [] \<longrightarrow> \<not> readable canon (ld_after i pre s)" by auto
  have line: "one_line (ld_after i pre s)" if "canon" "ins = pre @ post" for pre post
  proof (rule one_line_after)
    show "rx s = pre @ (post @ rx t)" using w(1) that(2) by simp
    show "\<forall>pre1 post1. pre = pre1 @ post1 \<longrightarrow> post1 \<noteq> [] \<longrightarrow> \<not> readable True (ld_after i pre1 s)"
    proof (intro allI impI)
      fix pre1 post1 :: bytes assume "pre = pre1 @ post1" "post1 \<noteq> []"
      then have "ins = pre1 @ (post1 @ post)" "post1 @ post \<noteq> []" using that(2) by simp_all
      from before [rule_format, OF this] show "\<not> readable True (ld_after i pre1 s)" using that(1) by simp
    qed
  qed (use assms(4,5) that(1) in auto)
  have "canon \<longrightarrow> 10 \<notin> set (butlast q)" using line [of ins "[]"] w(2) by (simp add: one_line_def)
  moreover have "if canon then \<not> snd (snd (ld_after i pre s)) else fst (snd (ld_after i pre s)) = []"
    if "ins = pre @ post" "post \<noteq> []" for pre post
    using before [rule_format, OF that] line [OF _ that(1)] by (cases "ld_after i pre s") (auto simp: readable_def one_line_def)
  ultimately show ?thesis using w by (intro exI [of _ ins] exI [of _ line] exI [of _ q] exI [of _ r]) auto
qed

lemma typed_line: "fst (tty_read 0 16 (console_with [104, 105, 106, 8, 13, 111])) = Got [104, 105, 10]"
  by code_simp

lemma typed_ready:
  "c_lflag (termios (ttys (console_with bs) 0)) AND ICANON \<noteq> 0" "one_line (ld_view (ttys (console_with bs) 0))"
  "is_eof (termios (ttys (console_with bs) 0)) c \<longleftrightarrow> c = 4"
proof -
  show "c_lflag (termios (ttys (console_with bs) 0)) AND ICANON \<noteq> 0"
    "is_eof (termios (ttys (console_with bs) 0)) c \<longleftrightarrow> c = 4"
    by (simp_all add: console_termios default_termios_def is_eof_def map_input_def default_cc_def)
  show "one_line (ld_view (ttys (console_with bs) 0))"
    by (simp add: one_line_def ld_view_def console_with_def tty_init_def canon_line_def inq_list_def inq_count_def
        eval_nat_numeral)
qed

lemma tty_read_delivers_witness:
  "\<exists>ins line q r. rx (console_with [104, 105, 106, 8, 13, 111]) =
      ins @ rx (snd (tty_read 0 16 (console_with [104, 105, 106, 8, 13, 111]))) \<and>
    ld_after 0 ins (console_with [104, 105, 106, 8, 13, 111]) = (line, q, r) \<and> q \<noteq> [] \<and>
    [104, 105, 10] = take (nat 16) q \<and>
    inq_list (ttys (snd (tty_read 0 16 (console_with [104, 105, 106, 8, 13, 111]))) 0) = drop (nat 16) q \<and>
    (True \<longrightarrow> r \<and> 10 \<notin> set (butlast q)) \<and>
    (\<forall>pre post. ins = pre @ post \<longrightarrow> post \<noteq> [] \<longrightarrow>
       (if True then \<not> snd (snd (ld_after 0 pre (console_with [104, 105, 106, 8, 13, 111])))
        else fst (snd (ld_after 0 pre (console_with [104, 105, 106, 8, 13, 111]))) = []))"
proof (rule tty_read_delivers)
  let ?s = "console_with [104, 105, 106, 8, 13, 111]"
  have "rx ?s = [104, 105, 106, 8, 13, 111]" by (simp add: console_with_def tty_init_def eval_nat_numeral)
  then have no: "4 \<notin> set (rx ?s)" by simp
  have "c \<noteq> 4" if "rx ?s = pre @ c # post" for pre c post
    using no unfolding that by auto
  then have "eof_after_text 0 ?s" by (auto simp: eof_after_text_def typed_ready)
  then show "True \<longrightarrow> one_line (ld_view (ttys ?s 0)) \<and> eof_after_text 0 ?s" by (simp add: typed_ready)
qed (simp_all add: prod_eq_iff typed_line typed_ready)

text \<open>
  Two lines that are typed before the read are returned together, although the comments of the
  code promise one.
\<close>

lemma lines_together:
  "fst (tty_read 0 16 (fold (tty_inproc 0) [97, 13, 98, 13] (console_with []))) = Got [97, 10, 98, 10]"
proof -
  let ?s = "fold (tty_inproc 0) [97, 13, 98, 13] (console_with [])"
  have f: "ld_view (ttys ?s 0) = fold (ld_step (termios (ttys (console_with []) 0))) [97, 13, 98, 13] (ld_view (ttys (console_with []) 0))"
    "termios (ttys ?s 0) = termios (ttys (console_with []) 0)"
    using fold_inproc [of 0 "[97, 13, 98, 13]" "console_with []"] by auto
  have "ld_view (ttys (console_with []) 0) = ([], [], False)"
    by (simp add: ld_view_def console_with_def tty_init_def canon_line_def inq_list_def inq_count_def eval_nat_numeral)
  then have v: "ld_view (ttys ?s 0) = ([], [97, 10, 98, 10], True)"
    unfolding f(1) console_termios
    by (simp add: ld_step_def map_input_def default_termios_def default_cc_def)
  then have "read_ready c (ttys ?s 0)" for c by (simp add: readable_view readable_def)
  moreover have "inq_list (ttys ?s 0) = [97, 10, 98, 10]" using v by (simp add: ld_view_def)
  ultimately show ?thesis using finish_read_spec [of _ 0 16 ?s]
    by (simp add: tty_read_def prod_eq_iff del: fold_simps)
qed

text \<open>
  A read of a positive length never returns zero bytes, whatever was typed: ^D on an empty
  line completes an empty line, but the read goes on waiting for a byte, so a program that reads
  the terminal never sees the end of file.
\<close>

theorem tty_never_eof:
  assumes "0 < len"
  shows "fst (tty_read i len s) \<noteq> Got []"
proof
  assume g: "fst (tty_read i len s) = Got []"
  have i: "i < NTTY" using g by (rule contrapos_pp) (simp add: tty_read_def)
  obtain t where "tty_read i len s = (Got [], t)" using g by (cases "tty_read i len s") simp
  then have "tty_wait (Suc (length (rx s))) (c_lflag (termios (ttys s i)) AND ICANON \<noteq> 0) i len s = (Got [], t)"
    using assms i by (simp add: tty_read_def)
  from tty_wait_spec [OF i _ this] assms show False by auto
qed

lemma tty_never_eof_witness: "fst (tty_read 0 16 (console_with [4])) \<noteq> Got []"
  by (rule tty_never_eof) simp

text \<open>
  No wake-up is lost on a terminal: when a read went to sleep and the next input makes data
  ready for it, the line discipline has made the sleeping process ready to run.
\<close>

theorem tty_reader_woken:
  assumes "i < NTTY" and "tty_read i len s = (Asleep, t)"
    and "pid (cur (pt s)) = curproc (pt s)" and "curproc (pt s) < MAXPROC"
    and "tty_data_ready i (tty_inproc i c t)"
  shows "pstate (proctab (pt (tty_inproc i c t)) (curproc (pt s))) = P_READY"
proof -
  have "tty_wait (Suc (length (rx s))) (c_lflag (termios (ttys s i)) AND ICANON \<noteq> 0) i len s = (Asleep, t)"
    using assms(1,2) by (simp add: tty_read_def split: if_splits)
  note a = tty_wait_asleep [OF assms(1) _ this, simplified]
  have "waiting (ttys t i) = of_nat (Suc (curproc (pt s)))" using a assms(3) by auto
  then have "unat (waiting (ttys t i)) = Suc (curproc (pt s))"
    using assms(4) by (simp add: unat_of_nat del: of_nat_Suc)
  then have "registered i (curproc (pt s)) t" using a assms(4) by (auto simp: registered_def)
  moreover have "\<not> tty_data_ready i t" using a assms(1) by (auto simp: data_ready_iff)
  ultimately show ?thesis using inproc_wakes assms(1,5) by blast
qed

lemma reader_asleep:
  "fst (tty_read 0 16 (console_with [104])) = Asleep" 
  "tty_data_ready 0 (tty_inproc 0 13 (snd (tty_read 0 16 (console_with [104]))))"
  by code_simp+

lemma tty_reader_woken_witness:
  "pstate (proctab (pt (tty_inproc 0 13 (snd (tty_read 0 16 (console_with [104]))))) (curproc (pt (console_with [104])))) = P_READY"
proof (rule tty_reader_woken [of 0 16])
  have "curproc (pt (console_with [104])) = 0 \<and> pid (proctab (pt (console_with [104])) 0) = 0" by code_simp
  then show "pid (cur (pt (console_with [104]))) = curproc (pt (console_with [104]))" "curproc (pt (console_with [104])) < 16"
    by simp_all
qed (simp_all add: prod_eq_iff reader_asleep)

end
