(* ===== verification/Exec_Correct.thy ===== *)
theory Exec_Correct
  imports Exec Fs_Content Tty_Discipline
begin

text \<open>
  What the loader of kernel/exec.c does: the relocators agree where their layouts do, a sound
  relocation table adds the load address to exactly the words it names, the initial stack holds
  the arguments, and a successful \<open>load_binary\<close> has put the relocated image, the cleared BSS
  and the stack into the region of the process and touched no other memory. Positions in an
  image are taken relative to its base, where the 32-bit sums of the code do not wrap.
\<close>

section \<open>Relocation\<close>

lemma split_value_contiguous: "split_value ts la (la + ts) v = v + la"
  by (simp add: split_value_def algebra_simps)

lemma apply_relocations_simple:
  "apply_relocations base la ts ls relocs n m =
     fold (\<lambda>i m. let off = get32 m (relocs + 4 * of_nat i)
                 in if reloc_bad ls off then m else upd32 (base + off) (\<lambda>v. v + la) m) [0..<n] m"
  unfolding apply_relocations_def Let_def split_value_contiguous by (simp add: if_distrib cong: if_cong)

lemma xip_contiguous:
  "apply_relocations_xip base la (base + ts) (la + ts) ts ls relocs n m = apply_relocations base la ts ls relocs n m"
proof -
  have e: "(if off < ts then base + off else base + ts + (off - ts)) = base + off" for off :: u32 by simp
  show ?thesis unfolding apply_relocations_simple apply_relocations_xip_def Let_def split_value_contiguous e ..
qed

text \<open>Positions relative to the base of the image, where nothing wraps.\<close>

lemma rel_unat:
  assumes "unat off + 4 \<le> 4294967296" and "j < 4"
  shows "unat (B + off + of_nat j - B :: u32) = unat off + j"
proof -
  have "B + off + of_nat j - B = off + of_nat j" by simp
  then show ?thesis using unat_plus_small [of off j] assms by simp
qed

lemma put32_rel:
  assumes "unat off + 4 \<le> 4294967296" and "unat (x - B) < unat off \<or> unat off + 4 \<le> unat (x - B)"
  shows "put32 m (B + off) v x = m (x :: u32)"
proof -
  have "x \<noteq> B + off + of_nat j" if "j < 4" for j using rel_unat [OF assms(1) that, of B] assms(2) that by auto
  from this [of 0] this [of 1] this [of 2] this [of 3] show ?thesis by (intro put32_other) (simp_all add: add.assoc)
qed

lemma get32_eqI:
  assumes "\<And>j. j < 4 \<Longrightarrow> m (a + of_nat j) = n (a + of_nat j)"
  shows "get32 m (a :: u32) = get32 n a"
  using assms [of 0] assms [of 1] assms [of 2] assms [of 3] by (simp add: get32_def get16_def add.assoc)

lemma get32_put32_rel:
  assumes "unat a + 4 \<le> 4294967296" and "unat b + 4 \<le> 4294967296" and "unat a + 4 \<le> unat b \<or> unat b + 4 \<le> unat a"
  shows "get32 (put32 m (B + a) v) (B + b) = get32 m (B + b :: u32)"
proof (rule get32_eqI)
  fix j :: nat assume "j < 4"
  then show "put32 m (B + a) v (B + b + of_nat j) = m (B + b + of_nat j)"
    using assms rel_unat [OF assms(2), of j B] by (intro put32_rel) auto
qed

text \<open>The offsets of a table, as the loader reads them, and what patching them does.\<close>

definition reloc_offsets :: "memory \<Rightarrow> u32 \<Rightarrow> nat \<Rightarrow> u32 list" where
  "reloc_offsets m relocs n = map (\<lambda>i. get32 m (relocs + 4 * of_nat i)) [0..<n]"

definition patch_all :: "u32 \<Rightarrow> u32 \<Rightarrow> u32 \<Rightarrow> u32 list \<Rightarrow> memory \<Rightarrow> memory" where
  "patch_all base la ls os m = fold (\<lambda>off m. if reloc_bad ls off then m else upd32 (base + off) (\<lambda>v. v + la) m) os m"

text \<open>An entry is sound if it is rejected or its word is inside the image.\<close>

definition reloc_sound :: "u32 \<Rightarrow> u32 \<Rightarrow> bool" where
  "reloc_sound ls off \<longleftrightarrow> reloc_bad ls off \<or> unat off + 4 \<le> unat ls"

lemma reloc_sound_iff: "reloc_sound ls off \<longleftrightarrow> reloc_bad ls off \<or> off < 0xFFFFFFFC"
proof -
  have "unat off + 4 \<le> unat ls" if "\<not> reloc_bad ls off" "off < 0xFFFFFFFC"
  proof -
    have "unat off < 4294967292" using that(2) by (simp add: word_less_nat_alt)
    then have "unat (off + 4) = unat off + 4" using unat_plus_small [of off 4] by simp
    then show ?thesis using that(1) by (simp add: reloc_bad_def not_less word_le_nat_alt)
  qed
  moreover have "off < 0xFFFFFFFC" if "unat off + 4 \<le> unat ls"
    using that u32_bound [of ls] by (simp add: word_less_nat_alt)
  ultimately show ?thesis by (auto simp: reloc_sound_def)
qed

lemma upd32_image:
  assumes "\<not> reloc_bad ls off" and "reloc_sound ls off" and "unat ls \<le> unat (x - base)"
  shows "upd32 (base + off) f m x = m x"
  unfolding upd32_def by (rule put32_rel) (use assms u32_bound [of ls] in \<open>auto simp: reloc_sound_def\<close>)

lemma patch_all_outside:
  "\<forall>off \<in> set os. reloc_sound ls off \<Longrightarrow> unat ls \<le> unat (x - base) \<Longrightarrow> patch_all base la ls os m x = m x"
  by (induction os arbitrary: m) (simp_all add: patch_all_def upd32_image)

lemma table_entry_outside:
  assumes "i < n" and "unat ls + 4 * n \<le> 4294967296" and "j < 4"
  shows "unat ls \<le> unat (base + ls + 4 * of_nat i + of_nat j - base :: u32)"
proof -
  have "base + ls + 4 * of_nat i + of_nat j - base = ls + of_nat (4 * i + j)" by simp
  moreover have "unat (ls + of_nat (4 * i + j) :: u32) = unat ls + (4 * i + j)"
    by (rule unat_plus_small) (use assms in linarith)
  ultimately show ?thesis by simp
qed

lemma apply_relocations_patch_all:
  assumes "unat ls + 4 * n \<le> 4294967296" and "\<forall>off \<in> set (reloc_offsets m (base + ls) n). reloc_sound ls off"
  shows "apply_relocations base la ts ls (base + ls) n m = patch_all base la ls (reloc_offsets m (base + ls) n) m"
proof -
  let ?os = "reloc_offsets m (base + ls) n"
  have "fold (\<lambda>i m. let off = get32 m (base + ls + 4 * of_nat i) in if reloc_bad ls off then m
      else upd32 (base + off) (\<lambda>v. v + la) m) [0..<k] m = patch_all base la ls (take k ?os) m" if "k \<le> n" for k
    using that
  proof (induction k)
    case (Suc k)
    let ?m = "patch_all base la ls (take k ?os) m"
    have "get32 ?m (base + ls + 4 * of_nat k) = get32 m (base + ls + 4 * of_nat k)"
    proof (rule get32_eqI)
      fix j :: nat assume "j < 4"
      then show "?m (base + ls + 4 * of_nat k + of_nat j) = m (base + ls + 4 * of_nat k + of_nat j)"
        using table_entry_outside [of k n ls j base] assms Suc.prems
        by (intro patch_all_outside) (auto dest: in_set_takeD)
    qed
    moreover have "take (Suc k) ?os = take k ?os @ [get32 m (base + ls + 4 * of_nat k)]"
      using Suc.prems by (simp add: take_Suc_conv_app_nth reloc_offsets_def)
    ultimately show ?case using Suc by (simp add: patch_all_def)
  qed (simp add: patch_all_def)
  from this [of n] show ?thesis unfolding apply_relocations_simple by (simp add: reloc_offsets_def)
qed

definition good_offsets :: "u32 \<Rightarrow> u32 list \<Rightarrow> u32 list" where
  "good_offsets ls os = filter (\<lambda>off. \<not> reloc_bad ls off) os"

text \<open>Accepted entries do not overlap.\<close>

definition words_apart :: "u32 list \<Rightarrow> bool" where
  "words_apart os \<longleftrightarrow> sorted_wrt (\<lambda>a b. unat a + 4 \<le> unat b \<or> unat b + 4 \<le> unat a) os"

lemma patch_all_good: "patch_all base la ls os m = fold (\<lambda>off. upd32 (base + off) (\<lambda>v. v + la)) (good_offsets ls os) m"
  by (induction os arbitrary: m) (simp_all add: patch_all_def good_offsets_def)

lemma fold_upd32_word:
  "\<forall>off \<in> set os. unat off + 4 \<le> 4294967296 \<and> (unat off + 4 \<le> unat a \<or> unat a + 4 \<le> unat off) \<Longrightarrow> unat a + 4 \<le> 4294967296 \<Longrightarrow>
     get32 (fold (\<lambda>off. upd32 (base + off) f) os m) (base + a) = get32 m (base + a)"
  by (induction os arbitrary: m) (simp_all add: upd32_def get32_put32_rel)

lemma fold_upd32_words:
  "words_apart os \<Longrightarrow> \<forall>off \<in> set os. unat off + 4 \<le> 4294967296 \<Longrightarrow> a \<in> set os \<Longrightarrow>
     get32 (fold (\<lambda>off. upd32 (base + off) f) os m) (base + a) = f (get32 m (base + a))"
proof (induction os arbitrary: m)
  case (Cons o1 os)
  show ?case
  proof (cases "a = o1")
    case True
    then have "get32 (fold (\<lambda>off. upd32 (base + off) f) os (upd32 (base + a) f m)) (base + a) = get32 (upd32 (base + a) f m) (base + a)"
      using Cons.prems by (intro fold_upd32_word) (auto simp: words_apart_def)
    moreover have "get32 (upd32 (base + a) f m) (base + a) = f (get32 m (base + a))" by (simp add: upd32_def)
    ultimately show ?thesis using True by simp
  next
    case False
    then have a: "a \<in> set os" using Cons.prems by simp
    then have "unat o1 + 4 \<le> unat a \<or> unat a + 4 \<le> unat o1" using Cons.prems(1) by (auto simp: words_apart_def)
    then have "get32 (upd32 (base + o1) f m) (base + a) = get32 m (base + a)"
      unfolding upd32_def by (intro get32_put32_rel) (use Cons.prems a in auto)
    then show ?thesis using Cons.IH [of "upd32 (base + o1) f m"] Cons.prems a by (simp add: words_apart_def)
  qed
qed simp

lemma fold_upd32_byte:
  "\<forall>off \<in> set os. unat off + 4 \<le> 4294967296 \<and> (unat (x - base) < unat off \<or> unat off + 4 \<le> unat (x - base)) \<Longrightarrow>
     fold (\<lambda>off. upd32 (base + off) f) os m x = m x"
  by (induction os arbitrary: m) (simp_all add: upd32_def put32_rel)


section \<open>The user stack\<close>

text \<open>The bytes of the strings with their terminators, and where each string starts.\<close>

definition bytes_of_args :: "bytes list \<Rightarrow> nat" where
  "bytes_of_args ss = sum_list (map (\<lambda>s. Suc (length s)) ss)"

lemma bytes_of_args_simps [simp]:
  "bytes_of_args [] = 0" "bytes_of_args (s # ss) = Suc (length s) + bytes_of_args ss"
  by (simp_all add: bytes_of_args_def)

lemma string_space_bytes: "string_space ss = of_nat (bytes_of_args ss)"
proof -
  have "fold (\<lambda>s n. n + of_nat (length s) + 1) ss n = n + (of_nat (bytes_of_args ss) :: u32)" for n
    by (induction ss arbitrary: n) (simp_all add: algebra_simps)
  then show ?thesis by (simp add: string_space_def)
qed

lemma bytes_of_args_nth: "i < length ss \<Longrightarrow> bytes_of_args (take i ss) + Suc (length (ss ! i)) \<le> bytes_of_args ss"
proof (induction ss arbitrary: i)
  case (Cons s ss)
  then show ?case by (cases i) auto
qed simp

lemma store_bytes_outside:
  assumes "unat p + length bs \<le> 4294967296" and "unat x < unat p \<or> unat p + length bs \<le> unat x"
  shows "store_bytes p bs m x = m x"
proof (rule store_bytes_other)
  have "unat (x - p) = (if p \<le> x then unat x - unat p else unat x + 4294967296 - unat p)"
    by (simp add: unat_sub_if' word_le_nat_alt)
  then show "length bs \<le> unat (x - p)" using assms u32_bound [of x] by (auto simp: word_le_nat_alt split: if_splits)
qed

lemma put32_outside:
  assumes "unat p + 4 \<le> 4294967296" and "unat x < unat p \<or> unat p + 4 \<le> unat x"
  shows "put32 m p v x = m (x :: u32)"
  using put32_rel [of p x 0 m v] assms by simp

lemma push_args_outside:
  "unat slot + 4 * length ss \<le> unat pos \<Longrightarrow> unat pos + bytes_of_args ss < 4294967296 \<Longrightarrow>
     (unat x < unat slot \<or> unat slot + 4 * length ss \<le> unat x) \<Longrightarrow> (unat x < unat pos \<or> unat pos + bytes_of_args ss \<le> unat x) \<Longrightarrow>
     push_args ss slot pos m x = m x"
proof (induction ss arbitrary: slot pos m)
  case (Cons s ss)
  have s: "unat (slot + 4) = unat slot + 4" using unat_plus_small [of slot 4] Cons.prems(1,2) by simp
  have p: "unat (pos + of_nat (length s) + 1) = unat pos + Suc (length s)"
    using unat_plus_small [of pos "Suc (length s)"] Cons.prems(2) by (simp add: ac_simps)
  have "store_bytes pos (s @ [0]) (put32 m slot pos) x = m x"
    using Cons.prems by (subst store_bytes_outside) (auto intro!: put32_outside)
  moreover have "push_args ss (slot + 4) (pos + of_nat (length s) + 1) (store_bytes pos (s @ [0]) (put32 m slot pos)) x =
    store_bytes pos (s @ [0]) (put32 m slot pos) x"
    by (rule Cons.IH) (use Cons.prems s p in auto)
  ultimately show ?case by simp
qed simp

lemma load_bytes_eqI:
  "(\<And>j. j < n \<Longrightarrow> m (p + of_nat j) = m' (p + of_nat j)) \<Longrightarrow> load_bytes m p n = load_bytes m' p n"
  by (simp add: load_bytes_def)

lemma push_args_spec:
  "unat slot + 4 * length ss \<le> unat pos \<Longrightarrow> unat pos + bytes_of_args ss < 4294967296 \<Longrightarrow> i < length ss \<Longrightarrow>
     get32 (push_args ss slot pos m) (slot + 4 * of_nat i) = pos + of_nat (bytes_of_args (take i ss)) \<and>
     load_bytes (push_args ss slot pos m) (pos + of_nat (bytes_of_args (take i ss))) (Suc (length (ss ! i))) = ss ! i @ [0]"
proof (induction ss arbitrary: slot pos m i)
  case (Cons s ss)
  let ?m = "store_bytes pos (s @ [0]) (put32 m slot pos)" and ?pos = "pos + of_nat (length s) + 1"
  have s: "unat (slot + 4) = unat slot + 4" using unat_plus_small [of slot 4] Cons.prems(1,2) by simp
  have p: "unat ?pos = unat pos + Suc (length s)"
    using unat_plus_small [of pos "Suc (length s)"] Cons.prems(2) by (simp add: ac_simps)
  have pre: "unat (slot + 4) + 4 * length ss \<le> unat ?pos" "unat ?pos + bytes_of_args ss < 4294967296"
    using Cons.prems(1,2) s p by auto
  show ?case
  proof (cases i)
    case 0
    have out: "push_args ss (slot + 4) ?pos ?m x = ?m x" if "unat x < unat slot + 4 \<or> unat pos \<le> unat x \<and> unat x < unat ?pos" for x
      by (rule push_args_outside [OF pre]) (use that s p Cons.prems(1) in auto)
    have w: "get32 (push_args ss (slot + 4) ?pos ?m) slot = get32 (put32 m slot pos) slot"
    proof (rule get32_eqI)
      fix j :: nat assume "j < 4"
      then have "unat (slot + of_nat j) = unat slot + j" using unat_plus_small [of slot j] Cons.prems(1,2) by simp
      then show "push_args ss (slot + 4) ?pos ?m (slot + of_nat j) = put32 m slot pos (slot + of_nat j)"
        using \<open>j < 4\<close> Cons.prems(1,2) by (subst out) (auto intro!: store_bytes_outside)
    qed
    have "load_bytes (push_args ss (slot + 4) ?pos ?m) pos (Suc (length s)) = load_bytes ?m pos (length (s @ [0]))"
      unfolding length_append list.size
    proof (rule trans [OF load_bytes_eqI])
      fix j assume "j < Suc (length s)"
      then have "unat (pos + of_nat j) = unat pos + j" using unat_plus_small [of pos j] Cons.prems(2) by simp
      then show "push_args ss (slot + 4) ?pos ?m (pos + of_nat j) = ?m (pos + of_nat j)"
        using \<open>j < Suc (length s)\<close> p by (intro out) auto
    qed simp
    also have "\<dots> = s @ [0]" by (rule load_store_bytes) (use Cons.prems(2) in simp)
    finally show ?thesis using 0 w by simp
  next
    case (Suc i')
    have e: "slot + 4 * of_nat (Suc i') = slot + 4 + 4 * of_nat i'"
      "pos + of_nat (bytes_of_args (take (Suc i') (s # ss))) = ?pos + of_nat (bytes_of_args (take i' ss))"
      by (simp_all add: algebra_simps)
    show ?thesis unfolding Suc e push_args.simps nth_Cons_Suc
      by (rule Cons.IH [OF pre]) (use Cons.prems(3) Suc in simp)
  qed
qed simp


text \<open>
  The sizes as natural numbers: \<open>stack_space\<close> is what the code calls \<open>setup_size\<close>.
\<close>

definition stack_space :: "bytes list \<Rightarrow> nat" where
  "stack_space ss = (bytes_of_args ss + 3) div 4 * 4 + 4 * (length ss + 1) + 8"

lemma setup_stack_addresses:
  assumes "stack_space ss \<le> unat stp"
  defines "sp \<equiv> (stp - (((string_space ss + 3) AND NOT 3) + (of_nat (length ss) + 1) * 4 + 4 + 4)) AND NOT 3"
  shows "unat sp + stack_space ss \<le> unat stp" and "4 dvd unat sp" and "unat stp \<le> unat sp + stack_space ss + 3"
proof -
  have t: "unat stp < 4294967296" by (rule u32_bound)
  have b: "bytes_of_args ss + 3 < 4294967296" using assms(1) t unfolding stack_space_def by linarith
  then have u: "unat (string_space ss + 3) = bytes_of_args ss + 3"
    unfolding string_space_bytes by (simp add: unat_of_nat unat_word_ariths)
  have a: "((string_space ss + 3) AND NOT 3) = of_nat ((bytes_of_args ss + 3) div 4 * 4)"
  proof (rule word_unat_eq_iff [THEN iffD2])
    define d where "d = (bytes_of_args ss + 3) div 4 * 4"
    have "d < 4294967296" using b unfolding d_def by linarith
    then have "unat (of_nat d :: u32) = d" by (simp add: unat_of_nat)
    then show "unat ((string_space ss + 3) AND NOT 3) = unat (of_nat ((bytes_of_args ss + 3) div 4 * 4) :: u32)"
      unfolding d_def [symmetric] unat_and_not_3 u by simp
  qed
  have "((string_space ss + 3) AND NOT 3) + (of_nat (length ss) + 1) * 4 + 4 + 4 = (of_nat (stack_space ss) :: u32)"
    unfolding a stack_space_def by (simp add: algebra_simps)
  then have sp: "sp = (stp - of_nat (stack_space ss)) AND NOT 3" unfolding sp_def by simp
  have "unat (stp - of_nat (stack_space ss)) = unat stp - stack_space ss"
    using assms(1) t by (subst unat_sub) (simp_all add: word_le_nat_alt unat_of_nat)
  then show "unat sp + stack_space ss \<le> unat stp" "4 dvd unat sp" "unat stp \<le> unat sp + stack_space ss + 3"
    using assms(1) div_times_less_eq_dividend [of "unat stp - stack_space ss" 4] unfolding sp unat_and_not_3 by auto
qed


lemma length_stack_args [simp]: "0 < length (stack_args path argv)"
  by (simp add: stack_args_def)

lemma exec_setup_stack_spec:
  assumes "stack_space (stack_args path argv) \<le> unat stp" and "exec_setup_stack stp path argv m = (sp, m')"
  shows "unat sp + stack_space (stack_args path argv) \<le> unat stp" and "4 dvd unat sp"
    and "get32 m' sp = of_nat (length (stack_args path argv))"
    and "i < length (stack_args path argv) \<Longrightarrow>
      load_bytes m' (get32 m' (sp + 4 + 4 * of_nat i)) (Suc (length (stack_args path argv ! i))) = stack_args path argv ! i @ [0] \<and>
      unat sp < unat (get32 m' (sp + 4 + 4 * of_nat i)) \<and>
      unat (get32 m' (sp + 4 + 4 * of_nat i)) + Suc (length (stack_args path argv ! i)) \<le> unat stp"
    and "get32 m' (sp + 4 + 4 * of_nat (length (stack_args path argv))) = 0"
    and "get32 m' (sp + 8 + 4 * of_nat (length (stack_args path argv))) = 0"
    and "unat x < unat sp \<or> unat stp \<le> unat x \<Longrightarrow> m' x = m x"
    and "unat stp \<le> unat sp + stack_space (stack_args path argv) + 3"
proof -
  define ss where "ss = stack_args path argv"
  define n where "n = length ss"
  define spv :: u32 where "spv = (stp - (((string_space ss + 3) AND NOT 3) + (of_nat n + 1) * 4 + 4 + 4)) AND NOT 3"
  define sb :: u32 where "sb = spv + 4 + (of_nat n + 1) * 4 + 4"
  define m1 where "m1 = push_args ss (spv + 4) sb (put32 m spv (of_nat n))"
  have e: "sp = spv" "m' = put32 (put32 m1 (spv + 4 * (1 + of_nat n)) 0) (spv + 4 * (2 + of_nat n)) 0"
    using assms(2) unfolding exec_setup_stack_def Let_def ss_def [symmetric] n_def [symmetric] spv_def [symmetric] sb_def [symmetric] m1_def [symmetric]
    by auto
  have a: "unat spv + stack_space ss \<le> unat stp" "4 dvd unat spv" "unat stp \<le> unat spv + stack_space ss + 3"
    using setup_stack_addresses [of ss stp] assms(1) unfolding spv_def n_def ss_def by simp_all
  have t: "unat stp < 4294967296" by (rule u32_bound)
  have sz: "bytes_of_args ss \<le> (bytes_of_args ss + 3) div 4 * 4" by linarith
  have sum: "unat spv + 4 * n + 12 + bytes_of_args ss \<le> unat stp"
  proof -
    define d where "d = (bytes_of_args ss + 3) div 4 * 4"
    show ?thesis using a(1) sz unfolding stack_space_def n_def d_def [symmetric] by simp
  qed
  have u: "unat (spv + of_nat k) = unat spv + k" if "k \<le> 4 * n + 12" for k
    using unat_plus_small [of spv k] that sum t by simp
  have sb: "unat sb = unat spv + 4 * n + 12"
    using u [of "4 * n + 12"] by (simp add: sb_def algebra_simps)
  have s4: "unat (spv + 4) = unat spv + 4" using u [of 4] by simp
  have z: "spv + 4 * (1 + of_nat n) = spv + of_nat (4 * n + 4)" "spv + 4 * (2 + of_nat n) = spv + of_nat (4 * n + 8)"
    by (simp_all add: algebra_simps)
  have pre: "unat (spv + 4) + 4 * length ss \<le> unat sb" "unat sb + bytes_of_args ss < 4294967296"
    using sum sb s4 t unfolding n_def by linarith+
  have out1: "m1 x = put32 m spv (of_nat n) x" if "unat x < unat spv + 4 \<or> unat spv + 4 + 4 * n \<le> unat x \<and> unat x < unat sb \<or> unat stp \<le> unat x" for x
    unfolding m1_def by (rule push_args_outside [OF pre]) (use that sum sb s4 n_def in auto)
  have out2: "m' x = m1 x" if "unat x < unat spv + 4 * n + 4 \<or> unat sb \<le> unat x" for x
    unfolding e z by (subst put32_outside; (subst put32_outside)?; use that u [of "4 * n + 4"] u [of "4 * n + 8"] sb sum t in auto)
  show "unat sp + stack_space (stack_args path argv) \<le> unat stp" "4 dvd unat sp"
    "unat stp \<le> unat sp + stack_space (stack_args path argv) + 3"
    using a unfolding e ss_def by simp_all
  show "get32 m' sp = of_nat (length (stack_args path argv))"
  proof -
    have "get32 m' spv = get32 (put32 m spv (of_nat n)) spv"
      by (rule get32_eqI) (use u sb in \<open>simp add: out1 out2\<close>)
    then show ?thesis unfolding e by (simp add: n_def ss_def)
  qed
  show "get32 m' (sp + 8 + 4 * of_nat (length (stack_args path argv))) = 0"
  proof -
    have q: "sp + 8 + 4 * of_nat (length (stack_args path argv)) = spv + 4 * (2 + of_nat n)"
      by (simp add: e n_def ss_def algebra_simps)
    show ?thesis unfolding q e(2) by (rule get32_put32_u32)
  qed
  show "get32 m' (sp + 4 + 4 * of_nat (length (stack_args path argv))) = 0"
  proof -
    have q: "sp + 4 + 4 * of_nat (length (stack_args path argv)) = spv + of_nat (4 * n + 4)"
      by (simp add: e n_def ss_def algebra_simps)
    have "get32 m' (spv + of_nat (4 * n + 4)) = get32 (put32 m1 (spv + of_nat (4 * n + 4)) 0) (spv + of_nat (4 * n + 4))"
      unfolding e z
    proof (rule get32_eqI)
      fix j :: nat assume "j < 4"
      then have "unat (spv + of_nat (4 * n + 4) + of_nat j) = unat spv + 4 * n + 4 + j"
        using u [of "4 * n + 4 + j"] by (simp add: add.assoc)
      then show "put32 (put32 m1 (spv + of_nat (4 * n + 4)) 0) (spv + of_nat (4 * n + 8)) 0 (spv + of_nat (4 * n + 4) + of_nat j) =
        put32 m1 (spv + of_nat (4 * n + 4)) 0 (spv + of_nat (4 * n + 4) + of_nat j)"
        using \<open>j < 4\<close> u [of "4 * n + 8"] sum t by (intro put32_outside) auto
    qed
    then show ?thesis unfolding q by (simp only: get32_put32_u32)
  qed
  show "m' x = m x" if "unat x < unat sp \<or> unat stp \<le> unat x"
  proof -
    have "m' x = m1 x" using that sum sb unfolding e(1) by (intro out2) auto
    also have "\<dots> = put32 m spv (of_nat n) x" using that unfolding e(1) by (intro out1) auto
    also have "\<dots> = m x" using that sum t unfolding e(1) by (intro put32_outside) auto
    finally show ?thesis .
  qed
  show "load_bytes m' (get32 m' (sp + 4 + 4 * of_nat i)) (Suc (length (stack_args path argv ! i))) = stack_args path argv ! i @ [0] \<and>
      unat sp < unat (get32 m' (sp + 4 + 4 * of_nat i)) \<and>
      unat (get32 m' (sp + 4 + 4 * of_nat i)) + Suc (length (stack_args path argv ! i)) \<le> unat stp"
    if "i < length (stack_args path argv)"
  proof -
    have i: "i < length ss" using that by (simp add: ss_def)
    let ?p = "sb + of_nat (bytes_of_args (take i ss))"
    note sp = push_args_spec [OF pre i, of "put32 m spv (of_nat n)", folded m1_def]
    have bi: "bytes_of_args (take i ss) + Suc (length (ss ! i)) \<le> bytes_of_args ss" by (rule bytes_of_args_nth [OF i])
    have p: "unat ?p = unat sb + bytes_of_args (take i ss)" using unat_plus_small [of sb] pre(2) bi by simp
    have "get32 m' (spv + 4 + 4 * of_nat i) = get32 m1 (spv + 4 + 4 * of_nat i)"
    proof (rule get32_eqI)
      fix j :: nat assume "j < 4"
      then have "unat (spv + 4 + 4 * of_nat i + of_nat j) = unat spv + 4 + 4 * i + j"
        using u [of "4 + 4 * i + j"] i unfolding n_def by (simp add: add.assoc)
      then show "m' (spv + 4 + 4 * of_nat i + of_nat j) = m1 (spv + 4 + 4 * of_nat i + of_nat j)"
        using \<open>j < 4\<close> i n_def by (intro out2) auto
    qed
    then have g: "get32 m' (spv + 4 + 4 * of_nat i) = ?p" using sp by simp
    have "load_bytes m' ?p (Suc (length (ss ! i))) = load_bytes m1 ?p (Suc (length (ss ! i)))"
    proof (rule load_bytes_eqI)
      fix j assume "j < Suc (length (ss ! i))"
      then have "unat (?p + of_nat j) = unat ?p + j" using unat_plus_small [of ?p j] p bi pre(2) by simp
      then show "m' (?p + of_nat j) = m1 (?p + of_nat j)" using p by (intro out2) simp
    qed
    then show ?thesis using sp g p bi sum sb unfolding e(1) ss_def [symmetric] by simp
  qed
qed


section \<open>Loading\<close>

lemma open_program_same:
  assumes "open_program path k = (r, k1)"
  shows "kt k1 = kt k" and "ram k1 = ram k" and "kpool k1 = kpool k" and "coh (kf k) (kf k1)"
proof -
  show "kt k1 = kt k" "ram k1 = ram k" "kpool k1 = kpool k"
    using assms by (auto simp: open_program_def split: option.splits prod.splits if_splits)
  show "coh (kf k) (kf k1)"
    using assms by (auto simp: open_program_def split: option.splits prod.splits if_splits
      dest!: fs_namei_coh fs_read_coh intro: coh_trans coh_iput(1) coh_iput(1) [OF coh_trans])
qed

abbreviation fbyte :: "kern \<Rightarrow> nat \<Rightarrow> nat \<Rightarrow> u8" where
  "fbyte k ip \<equiv> file_byte (view (bc (kf k))) (icache (kf k) ip)"

lemma read_into_spec:
  assumes "read_into ip addr off n k = (n, k1)" and "cache_ok (bc (kf k))"
  shows "ram k1 = store_bytes addr (map (fbyte k ip) [off..<off + n]) (ram k)" and "quiet (kf k) (kf k1)" and "kt k1 = kt k"
proof -
  obtain m t where r: "fs_read ip off n (kf k) = (map (fbyte k ip) [off..<off + m], t)" "quiet (kf k) t"
    using fs_read_spec [OF assms(2)] by blast
  then show "ram k1 = store_bytes addr (map (fbyte k ip) [off..<off + n]) (ram k)" "quiet (kf k) (kf k1)" "kt k1 = kt k"
    using assms(1) by (auto simp: read_into_def)
qed

lemma quiet_fbyte: "quiet (kf k) (kf k1) \<Longrightarrow> fbyte k1 ip = fbyte k ip"
  by (simp add: quiet_def)

lemma get32_stored:
  assumes "k + 4 \<le> n" and "n \<le> 4294967296"
  shows "get32 (store_bytes a (map F [b..<b + n]) m) (a + of_nat k :: u32) = get32 F (b + k)"
proof -
  have "store_bytes a (map F [b..<b + n]) m (a + of_nat (k + j)) = F (b + k + j)" if "j < 4" for j
    using assms that by (subst store_bytes_nth) (simp_all add: add.assoc)
  from this [of 0] this [of 1] this [of 2] this [of 3] show ?thesis
    by (simp add: get32_def get16_def ac_simps numeral_3_eq_3)
qed

lemma unat_diff_if: "unat (a - b :: u32) = (if unat b \<le> unat a then unat a - unat b else unat a + 4294967296 - unat b)"
  by (simp add: unat_sub_if' word_le_nat_alt)

lemma sub_sub: "x - (a + b) = x - a - (b :: u32)"
  by simp

text \<open>The relocation table of the file, and the sizes of a header that no sum of the loader wraps.\<close>

definition file_offsets :: "(nat \<Rightarrow> u8) \<Rightarrow> genix_header \<Rightarrow> u32 list" where
  "file_offsets F h = map (\<lambda>i. get32 F (32 + unat (h_load_size h) + 4 * i)) [0..<unat (h_reloc_count h)]"

definition bss_or_table :: "genix_header \<Rightarrow> nat" where
  "bss_or_table h = max (unat (h_bss_size h)) (4 * unat (h_reloc_count h))"

definition header_fits :: "genix_header \<Rightarrow> bool" where
  "header_fits h \<longleftrightarrow> unat (h_load_size h) + bss_or_table h + 4096 + unat (stack_need h) < 4294967296"

lemma header_sizes:
  assumes "header_fits h"
  shows "unat (h_reloc_count h * 4) = 4 * unat (h_reloc_count h)" and "unat (effective_bss h) = bss_or_table h"
    and "unat (exec_mem_need h) = unat (h_load_size h) + bss_or_table h + 4096 + unat (stack_need h)"
    and "unat (of_nat GENIX_HDR_SIZE + h_load_size h) = 32 + unat (h_load_size h)"
    and "unat (h_load_size h) + 4 * unat (h_reloc_count h) < 4294967296"
proof -
  show r: "unat (h_reloc_count h * 4) = 4 * unat (h_reloc_count h)"
    using assms by (simp add: header_fits_def bss_or_table_def unat_word_ariths)
  show b: "unat (effective_bss h) = bss_or_table h"
    using r by (auto simp: effective_bss_def bss_or_table_def Let_def word_less_nat_alt max_def)
  show "unat (exec_mem_need h) = unat (h_load_size h) + bss_or_table h + 4096 + unat (stack_need h)"
    using assms b by (simp add: exec_mem_need_def header_fits_def unat_word_ariths)
  show "unat (of_nat GENIX_HDR_SIZE + h_load_size h) = 32 + unat (h_load_size h)"
    using assms by (simp add: header_fits_def unat_word_ariths)
  show "unat (h_load_size h) + 4 * unat (h_reloc_count h) < 4294967296"
    using assms by (simp add: header_fits_def bss_or_table_def)
qed

text \<open>The image in memory before the BSS is cleared.\<close>

lemma load_image_spec:
  fixes ip :: nat and h :: genix_header and k :: kern
  defines "F \<equiv> fbyte k ip" and "ls \<equiv> h_load_size h"
  assumes c: "cache_ok (bc (kf k))" and l: "load_image ip h la k = (0, k2)" and f: "header_fits h"
    and s: "\<forall>off \<in> set (file_offsets F h). reloc_sound ls off" and w: "words_apart (good_offsets ls (file_offsets F h))"
  shows "off \<in> set (good_offsets ls (file_offsets F h)) \<Longrightarrow> get32 (ram k2) (la + off) = get32 F (32 + unat off) + la"
    and "d < unat ls \<Longrightarrow> \<forall>off \<in> set (good_offsets ls (file_offsets F h)). d < unat off \<or> unat off + 4 \<le> d \<Longrightarrow>
      ram k2 (la + of_nat d) = F (32 + d)"
    and "unat ls + 4 * unat (h_reloc_count h) \<le> unat (x - la) \<Longrightarrow> ram k2 x = ram k x"
    and "kt k2 = kt k"
proof -
  note sz = header_sizes [OF f, folded ls_def]
  let ?n = "unat (h_reloc_count h)" and ?os = "file_offsets F h"
  obtain k1 where r1: "read_into ip la GENIX_HDR_SIZE (unat ls) k = (unat ls, k1)"
    using l unfolding load_image_def ls_def by (cases "read_into ip la GENIX_HDR_SIZE (unat (h_load_size h)) k") (auto split: if_splits)
  note q1 = read_into_spec [OF r1 c, folded F_def]
  define m0 where "m0 = store_bytes la (map F [32..<32 + unat ls]) (ram k)"
  have m0: "get32 m0 (la + off) = get32 F (32 + unat off)" if "unat off + 4 \<le> unat ls" for off
    using get32_stored [of "unat off" "unat ls" la F 32 "ram k"] that u32_bound [of ls] by (simp add: m0_def)
  have m0d: "m0 (la + of_nat d) = F (32 + d)" if "d < unat ls" for d
    unfolding m0_def using that u32_bound [of ls] by (subst store_bytes_nth) simp_all
  have m0x: "m0 x = ram k x" if "unat ls \<le> unat (x - la)" for x
    unfolding m0_def by (rule store_bytes_other) (use that in simp)
  have good: "unat off + 4 \<le> unat ls" if "off \<in> set (good_offsets ls ?os)" for off
    using that s by (auto simp: good_offsets_def reloc_sound_def)
  have "\<exists>m. ram k2 = patch_all la la ls ?os m \<and> (\<forall>x. unat (x - la) < unat ls \<longrightarrow> m x = m0 x) \<and>
    (\<forall>x. unat ls + 4 * ?n \<le> unat (x - la) \<longrightarrow> m x = ram k x) \<and> kt k2 = kt k"
  proof (cases "h_reloc_count h > 0")
    case False
    then have "?n = 0" by (simp add: word_gt_0)
    then have "?os = []" by (simp add: file_offsets_def)
    then have "ram k2 = patch_all la la ls ?os m0" "kt k2 = kt k"
      using l r1 q1 False unfolding load_image_def ls_def m0_def by (auto simp: patch_all_def)
    then show ?thesis using m0x \<open>?n = 0\<close> by auto
  next
    case True
    obtain k3 where r2: "read_into ip (la + ls) (32 + unat ls) (4 * ?n) k1 = (4 * ?n, k3)"
      and k2: "ram k2 = apply_relocations la la (h_text_size h) ls (la + ls) ?n (ram k3)" "kt k2 = kt k3"
      using l r1 True sz(1,4) unfolding load_image_def ls_def Let_def
      by (auto split: prod.splits if_splits)
    have c1: "cache_ok (bc (kf k1))" using q1(2) by (simp add: quiet_def)
    note q2 = read_into_spec [OF r2 c1, unfolded quiet_fbyte [OF q1(2)], folded F_def]
    have m: "ram k3 = store_bytes (la + ls) (map F [32 + unat ls..<32 + unat ls + 4 * ?n]) m0"
      using q2(1) q1(1) by (simp add: m0_def)
    have "get32 (ram k3) (la + ls + 4 * of_nat i) = get32 F (32 + unat ls + 4 * i)" if "i < ?n" for i
      using get32_stored [of "4 * i" "4 * ?n" "la + ls" F "32 + unat ls" m0] that sz(5) by (simp add: m add.assoc)
    then have os: "reloc_offsets (ram k3) (la + ls) ?n = ?os"
      by (simp add: reloc_offsets_def file_offsets_def ls_def)
    have "ram k2 = patch_all la la ls ?os (ram k3)"
      unfolding k2 by (subst apply_relocations_patch_all) (use sz(5) s in \<open>simp_all add: os\<close>)
    moreover have "ram k3 x = m0 x" if "unat (x - la) < unat ls" for x
    proof -
      have "unat (x - (la + ls)) = unat (x - la) + 4294967296 - unat ls"
        unfolding sub_sub unat_diff_if [of "x - la" ls] using that by simp
      then show ?thesis unfolding m using sz(5) that by (intro store_bytes_other) simp
    qed
    moreover have "ram k3 x = ram k x" if "unat ls + 4 * ?n \<le> unat (x - la)" for x
    proof -
      have "unat (x - (la + ls)) = unat (x - la) - unat ls"
        unfolding sub_sub unat_diff_if [of "x - la" ls] using that by simp
      then have "ram k3 x = m0 x" unfolding m using that by (intro store_bytes_other) simp
      then show ?thesis using m0x that by simp
    qed
    ultimately show ?thesis using k2(2) q1(3) q2(3) by auto
  qed
  then obtain m where m: "ram k2 = patch_all la la ls ?os m" "\<And>x. unat (x - la) < unat ls \<Longrightarrow> m x = m0 x"
    "\<And>x. unat ls + 4 * ?n \<le> unat (x - la) \<Longrightarrow> m x = ram k x" "kt k2 = kt k" by blast
  show "kt k2 = kt k" by (rule m(4))
  show "get32 (ram k2) (la + off) = get32 F (32 + unat off) + la" if "off \<in> set (good_offsets ls ?os)" for off
  proof -
    have "get32 (ram k2) (la + off) = get32 m (la + off) + la"
      unfolding m(1) patch_all_good using w good u32_bound [of ls] that
      by (intro fold_upd32_words) fastforce+
    moreover have "get32 m (la + off) = get32 m0 (la + off)"
    proof (rule get32_eqI)
      fix j :: nat assume "j < 4"
      then show "m (la + off + of_nat j) = m0 (la + off + of_nat j)"
        using good [OF that] u32_bound [of ls] by (intro m(2)) (subst rel_unat; simp)
    qed
    ultimately show ?thesis using m0 good [OF that] by simp
  qed
  show "ram k2 (la + of_nat d) = F (32 + d)"
    if "d < unat ls" "\<forall>off \<in> set (good_offsets ls ?os). d < unat off \<or> unat off + 4 \<le> d" for d
  proof -
    have u: "unat (la + of_nat d - la) = d" using that(1) u32_bound [of ls] by (simp add: unat_of_nat)
    have "ram k2 (la + of_nat d) = m (la + of_nat d)"
      unfolding m(1) patch_all_good using that(2) good u32_bound [of ls] u by (intro fold_upd32_byte) fastforce
    then show ?thesis using m(2) m0d that(1) u by simp
  qed
  show "ram k2 x = ram k x" if "unat ls + 4 * ?n \<le> unat (x - la)" for x
    unfolding m(1) using patch_all_outside [OF s, of x la la m] m(3) that by simp
qed


lemma exec_validate_header_0D:
  assumes "\<not> exec_validate_header h z < 0"
  shows "h_magic h = GENIX_MAGIC" "h_load_size h \<noteq> 0" "h_entry h < h_load_size h" "h_text_size h \<le> h_load_size h"
    "exec_mem_need h \<le> z"
  using assms by (auto simp: exec_validate_header_def not_le not_less split: if_splits)

text \<open>What a successful load has done, given the file it opened.\<close>

lemma load_binary_spec:
  fixes ip :: nat and h :: genix_header and k1 k :: kern
  defines "F \<equiv> fbyte k1 ip" and "ls \<equiv> h_load_size h" and "z \<equiv> mem_size (kcur k)"
  assumes o: "open_program path k = (Inr (ip, h), k1)" and l: "load_binary path argv la k = (Inr (entry, sp), k')"
    and c: "cache_ok (bc (kf k))" and f: "header_fits h" and r: "unat la + unat z < 4294967296"
    and s: "\<forall>off \<in> set (file_offsets F h). reloc_sound ls off" and w: "words_apart (good_offsets ls (file_offsets F h))"
    and a: "stack_space (stack_args path argv) + 3 \<le> 4096 + unat (stack_need h)"
  shows "off \<in> set (good_offsets ls (file_offsets F h)) \<Longrightarrow> get32 (ram k') (la + off) = get32 F (32 + unat off) + la"
    and "d < unat ls \<Longrightarrow> \<forall>off \<in> set (good_offsets ls (file_offsets F h)). d < unat off \<or> unat off + 4 \<le> d \<Longrightarrow>
      ram k' (la + of_nat d) = F (32 + d)"
    and "d < unat (h_bss_size h) \<Longrightarrow> ram k' (la + ls + of_nat d) = 0"
    and "unat x < unat la \<or> unat la + unat z \<le> unat x \<Longrightarrow> ram k' x = ram k x"
    and "h_entry h < ls" and "entry = la + h_entry h" and "unat la + unat ls + bss_or_table h \<le> unat sp"
    and "kcur k' = (kcur k)\<lparr>brk := la + ls + h_bss_size h, text_size := 0, data_bss := ls + h_bss_size h,
      data_a5 := (if HDR_HAS_GOT h then la + h_text_size h + HDR_GOT_OFFSET h else 0)\<rparr>"
    and "unat ls + bss_or_table h + 4096 + unat (stack_need h) \<le> unat z"
    and "curproc (kpt k') = curproc (kpt k)"
proof -
  note sz = header_sizes [OF f, folded ls_def]
  note op = open_program_same [OF o]
  have c1: "cache_ok (bc (kf k1))" using op(4) c by (simp add: coh_def)
  obtain k2 where li: "load_image ip h la k1 = (0, k2)" and v: "\<not> exec_validate_header h z < 0"
    and st: "exec_setup_stack (la + mem_size (kcur k2)) path argv (ram (if effective_bss h > 0
        then k2\<lparr>ram := zero_mem (la + ls) (effective_bss h) (ram k2)\<rparr> else k2)) = (sp, ram k')"
    and en: "entry = la + h_entry h"
    and kk: "kt k' = kt (upd_cur (\<lambda>p. p\<lparr>brk := la + ls + h_bss_size h, text_size := 0, data_bss := ls + h_bss_size h,
      data_a5 := (if HDR_HAS_GOT h then la + h_text_size h + HDR_GOT_OFFSET h else 0)\<rparr>) k2)"
  proof -
    obtain rc k2 where li: "load_image ip h la k1 = (rc, k2)" by (cases "load_image ip h la k1") auto
    have z: "mem_size (kcur k1) = z" using op(1) by (simp add: z_def)
    have v: "\<not> exec_validate_header h z < 0" and rc: "\<not> rc < 0"
      using l by (auto simp: load_binary_def o li z Let_def split: if_splits prod.splits)
    have "rc = 0" using li rc by (auto simp: load_image_def Let_def split: if_splits prod.splits)
    then show ?thesis using l v li that [of k2]
      by (auto simp: load_binary_def o z Let_def ls_def upd_cur_def on_pt_def split: if_splits prod.splits)
  qed
  note im = load_image_spec [OF c1 li f s [unfolded F_def ls_def] w [unfolded F_def ls_def], folded F_def ls_def]
  have cur: "kcur k2 = kcur k" "curproc (kpt k2) = curproc (kpt k)" using im(4) op(1) by simp_all
  note need = exec_validate_header_0D [OF v]
  show zz: "unat ls + bss_or_table h + 4096 + unat (stack_need h) \<le> unat z"
    using need(5) sz(3) by (simp add: word_le_nat_alt)
  have ms: "mem_size (kcur k2) = z" unfolding cur(1) z_def ..
  define m3 where "m3 = (if effective_bss h > 0 then zero_mem (la + ls) (effective_bss h) (ram k2) else ram k2)"
  have lz: "unat (la + z) = unat la + unat z" using r by (simp add: unat_word_ariths)
  have st': "exec_setup_stack (la + z) path argv m3 = (sp, ram k')"
    using st unfolding m3_def ms by (simp split: if_splits)
  have fits: "stack_space (stack_args path argv) \<le> unat (la + z)" using a zz lz by linarith
  note sk = exec_setup_stack_spec [OF fits st']
  show sp: "unat la + unat ls + bss_or_table h \<le> unat sp" using sk(8) lz zz a by linarith
  have lb: "unat ls + bss_or_table h < 4294967296" using f by (simp add: header_fits_def ls_def)
  have m3: "m3 x = ram k2 x" if "\<not> (unat ls \<le> unat (x - la) \<and> unat (x - la) < unat ls + bss_or_table h)" for x
  proof -
    have "bss_or_table h \<le> unat (x - (la + ls))"
      using that lb unfolding sub_sub unat_diff_if [of "x - la" ls] by auto
    then show ?thesis unfolding m3_def zero_mem_def using sz(2) by (simp add: store_bytes_other)
  qed
  have out: "ram k' x = m3 x" if "unat (x - la) < unat ls + bss_or_table h" for x
  proof (rule sk(7))
    have "unat x = unat la + unat (x - la)" using unat_diff_if [of x la] that zz r by (simp split: if_splits)
    then show "unat x < unat sp \<or> unat (la + z) \<le> unat x" using that sp by simp
  qed
  have image: "ram k' (la + of_nat d) = ram k2 (la + of_nat d)" if "d < unat ls" for d
  proof -
    have "unat (la + of_nat d - la) = d" using that u32_bound [of ls] by (simp add: unat_of_nat)
    then show ?thesis using out [of "la + of_nat d"] m3 [of "la + of_nat d"] that by simp
  qed
  show "get32 (ram k') (la + off) = get32 F (32 + unat off) + la" if "off \<in> set (good_offsets ls (file_offsets F h))"
  proof -
    have "unat off + 4 \<le> unat ls" using that s by (auto simp: good_offsets_def reloc_sound_def)
    then have "ram k' (la + off + of_nat j) = ram k2 (la + off + of_nat j)" if "j < 4" for j
      using image [of "unat off + j"] that by (simp add: add.assoc)
    then have "get32 (ram k') (la + off) = get32 (ram k2) (la + off)" by (rule get32_eqI)
    then show ?thesis using im(1) [OF that] by simp
  qed
  show "ram k' (la + of_nat d) = F (32 + d)"
    if "d < unat ls" "\<forall>off \<in> set (good_offsets ls (file_offsets F h)). d < unat off \<or> unat off + 4 \<le> d"
    using image [OF that(1)] im(2) [OF that] by simp
  show "ram k' (la + ls + of_nat d) = 0" if "d < unat (h_bss_size h)"
  proof -
    have d: "d < bss_or_table h" using that by (simp add: bss_or_table_def)
    have "unat (la + ls + of_nat d - la) = unat ls + d"
      using unat_plus_small [of ls d] d lb by (simp add: algebra_simps)
    then have "ram k' (la + ls + of_nat d) = m3 (la + ls + of_nat d)" using d by (intro out) simp
    also have "\<dots> = 0" using d sz(2) lb unfolding m3_def zero_mem_def by (auto simp: store_bytes_nth word_gt_0)
    finally show ?thesis .
  qed
  show "ram k' x = ram k x" if "unat x < unat la \<or> unat la + unat z \<le> unat x"
  proof -
    have "unat ls + bss_or_table h \<le> unat (x - la)"
      using that zz r unfolding unat_diff_if [of x la] by (auto split: if_splits)
    then have "m3 x = ram k x" using m3 [of x] im(3) [of x] op(2) by (simp add: bss_or_table_def)
    moreover have "ram k' x = m3 x" using that sp lz by (intro sk(7)) auto
    ultimately show ?thesis by simp
  qed
  show "h_entry h < ls" using need(3) by (simp add: ls_def)
  show "entry = la + h_entry h" by (rule en)
  show "kcur k' = (kcur k)\<lparr>brk := la + ls + h_bss_size h, text_size := 0, data_bss := ls + h_bss_size h,
      data_a5 := (if HDR_HAS_GOT h then la + h_text_size h + HDR_GOT_OFFSET h else 0)\<rparr>"
    "curproc (kpt k') = curproc (kpt k)" using kk cur by simp_all
qed

lemma read_into_full:
  assumes "cache_ok (bc (kf k))" and "mapped (view (bc (kf k))) (icache (kf k) ip) off (off + n)"
    and "off + n \<le> unat (isize (icache (kf k) ip))"
  shows "\<exists>k1. read_into ip addr off n k = (n, k1)"
proof -
  obtain m t where r: "fs_read ip off n (kf k) = (map (fbyte k ip) [off..<off + m], t)"
    and m: "m \<le> n" "m = n \<or> blk_of (view (bc (kf k))) (icache (kf k) ip) ((off + m) div BLOCK_SIZE) = 0"
    using fs_read_spec [OF assms(1), of ip off n] assms(3) by auto
  have "m = n"
  proof (rule ccontr)
    assume "m \<noteq> n"
    then have "blk_of (view (bc (kf k))) (icache (kf k) ip) ((off + m) div BLOCK_SIZE) \<noteq> 0"
      using assms(2) m(1) by (simp add: mapped_def)
    with m(2) \<open>m \<noteq> n\<close> show False by simp
  qed
  with r show ?thesis by (simp add: read_into_def)
qed

lemma quiet_file:
  "quiet s t \<Longrightarrow> view (bc t) = view (bc s) \<and> icache t = icache s \<and> cache_ok (bc t)"
  by (simp add: quiet_def)

lemma load_image_succeeds:
  assumes c: "cache_ok (bc (kf k))" and f: "header_fits h"
    and m: "mapped (view (bc (kf k))) (icache (kf k) ip) 32 (32 + unat (h_load_size h) + 4 * unat (h_reloc_count h))"
    and z: "32 + unat (h_load_size h) + 4 * unat (h_reloc_count h) \<le> unat (isize (icache (kf k) ip))"
  shows "\<exists>k2. load_image ip h la k = (0, k2)"
proof -
  note sz = header_sizes [OF f]
  obtain k1 where r1: "read_into ip la 32 (unat (h_load_size h)) k = (unat (h_load_size h), k1)"
    using read_into_full [of k ip 32 "unat (h_load_size h)" la] c m z by (auto simp: mapped_def)
  note q = quiet_file [OF read_into_spec(2) [OF r1 c]]
  have "\<exists>k3. read_into ip (la + h_load_size h) (32 + unat (h_load_size h)) (4 * unat (h_reloc_count h)) k1 =
      (4 * unat (h_reloc_count h), k3)"
    by (rule read_into_full) (use q m z in \<open>auto simp: mapped_def\<close>)
  then show ?thesis using r1 sz(1,4) by (auto simp: load_image_def Let_def split: prod.split)
qed

lemma load_binary_succeeds:
  assumes "open_program path k = (Inr (ip, h), k1)" and "cache_ok (bc (kf k))" and "header_fits h"
    and "exec_validate_header h (mem_size (kcur k)) = 0"
    and "mapped (view (bc (kf k1))) (icache (kf k1) ip) 32 (32 + unat (h_load_size h) + 4 * unat (h_reloc_count h))"
    and "32 + unat (h_load_size h) + 4 * unat (h_reloc_count h) \<le> unat (isize (icache (kf k1) ip))"
  shows "\<exists>sp k'. load_binary path argv la k = (Inr (la + h_entry h, sp), k')"
proof -
  note op = open_program_same [OF assms(1)]
  have c1: "cache_ok (bc (kf k1))" using op(4) assms(2) by (simp add: coh_def)
  obtain k2 where "load_image ip h la k1 = (0, k2)"
    using load_image_succeeds [OF c1 assms(3,5,6), of la] by blast
  then show ?thesis using assms(1,4) op(1) by (auto simp: load_binary_def Let_def split: prod.split)
qed

section \<open>Properties\<close>

text \<open>
  C16. The three relocators compute the same memory on a contiguous image: the one that tells
  text from data, the plain one it falls back to without a text size, and the one for text and
  data at separate addresses when data follows text. This holds for every table and image,
  32-bit wrap-around included.
\<close>

theorem relocators_agree:
  "apply_relocations_xip base la (base + ts) (la + ts) ts ls relocs n m = apply_relocations base la 0 ls relocs n m \<and>
     apply_relocations base la ts ls relocs n m = apply_relocations base la 0 ls relocs n m"
  using xip_contiguous [of base la ts ls relocs n m] by (simp add: apply_relocations_simple)

text \<open>
  C17. When the arguments fit below the stack top, the initial user stack starts at a multiple of
  four with \<open>argc\<close>; slot \<open>i\<close> of \<open>argv\<close> points to a terminated copy of argument \<open>i\<close> (the path
  for \<open>i\<close> = 0) that lies between the stack pointer and the stack top; \<open>argv\<close> and the
  environment end in NULL; and no byte below the stack pointer or above the top is written.
\<close>

theorem argv_on_stack:
  assumes "stack_space (stack_args path argv) \<le> unat stp" and "exec_setup_stack stp path argv m = (sp, m')"
  shows "4 dvd unat sp \<and> get32 m' sp = of_nat (length (stack_args path argv)) \<and>
    (\<forall>i < length (stack_args path argv). \<exists>p. get32 m' (sp + 4 + 4 * of_nat i) = p \<and>
       load_bytes m' p (Suc (length (stack_args path argv ! i))) = stack_args path argv ! i @ [0] \<and>
       unat sp < unat p \<and> unat p + Suc (length (stack_args path argv ! i)) \<le> unat stp) \<and>
    get32 m' (sp + 4 + 4 * of_nat (length (stack_args path argv))) = 0 \<and>
    get32 m' (sp + 8 + 4 * of_nat (length (stack_args path argv))) = 0 \<and>
    (\<forall>x. unat x < unat sp \<or> unat stp \<le> unat x \<longrightarrow> m' x = m x)"
  using exec_setup_stack_spec [OF assms] by blast

lemma argv_on_stack_witness:
  "4 dvd unat (fst (exec_setup_stack 65536 [47, 108, 115] (Some [[108, 115], [45, 108]]) (\<lambda>_. 0))) \<and>
   get32 (snd (exec_setup_stack 65536 [47, 108, 115] (Some [[108, 115], [45, 108]]) (\<lambda>_. 0)))
     (fst (exec_setup_stack 65536 [47, 108, 115] (Some [[108, 115], [45, 108]]) (\<lambda>_. 0))) = 2"
  using argv_on_stack [of "[47, 108, 115]" "Some [[108, 115], [45, 108]]" 65536 "\<lambda>_. 0", OF _ surjective_pairing]
  by (simp add: stack_args_def stack_space_def)

text \<open>
  C14. A successful \<open>load_binary\<close> of a file whose header sizes do not wrap, whose relocation
  entries are sound and do not overlap, and whose arguments fit the stack, has put into memory at
  the load address the text and data of the file, the load address added to each word the
  relocation table names and to no other, followed by a zero BSS; the entry point lies in the
  image, the stack above image and BSS, and not one byte outside the region of the process
  differs from before.
\<close>

theorem program_loaded:
  assumes "open_program path k = (Inr (ip, h), k1)" and "load_binary path argv la k = (Inr (entry, sp), k')"
    and "cache_ok (bc (kf k))" and "header_fits h" and "unat la + unat (mem_size (kcur k)) < 4294967296"
    and "\<forall>off \<in> set (file_offsets (fbyte k1 ip) h). reloc_sound (h_load_size h) off"
    and "words_apart (good_offsets (h_load_size h) (file_offsets (fbyte k1 ip) h))"
    and "stack_space (stack_args path argv) + 3 \<le> 4096 + unat (stack_need h)"
  shows "(\<forall>off \<in> set (good_offsets (h_load_size h) (file_offsets (fbyte k1 ip) h)).
       get32 (ram k') (la + off) = get32 (fbyte k1 ip) (32 + unat off) + la) \<and>
    (\<forall>d < unat (h_load_size h).
       (\<forall>off \<in> set (good_offsets (h_load_size h) (file_offsets (fbyte k1 ip) h)). d < unat off \<or> unat off + 4 \<le> d) \<longrightarrow>
       ram k' (la + of_nat d) = fbyte k1 ip (32 + d)) \<and>
    (\<forall>d < unat (h_bss_size h). ram k' (la + h_load_size h + of_nat d) = 0) \<and>
    entry = la + h_entry h \<and> h_entry h < h_load_size h \<and>
    unat la + unat (h_load_size h) + unat (h_bss_size h) \<le> unat sp \<and>
    (\<forall>x. unat x < unat la \<or> unat la + unat (mem_size (kcur k)) \<le> unat x \<longrightarrow> ram k' x = ram k x)"
  using load_binary_spec [OF assms] unfolding bss_or_table_def by (auto intro: order_trans)

lemma wrapped_numerals:
  "(4294967296 :: u32) = 0" "(4294967298 :: u32) = 2" "(4294967294 :: u32) = - 2"
  by code_simp+

text \<open>
  The bounds check of a relocation offset wraps: for an image of at least two bytes the
  offset 0xFFFFFFFE passes it, and the loader then adds the load address to the four bytes that
  start two bytes below the image, outside the region of the process.
\<close>

theorem reloc_writes_below:
  assumes "2 \<le> ls" and "get32 m (base + ls) = 0xFFFFFFFE"
  shows "apply_relocations base la ts ls (base + ls) 1 m = upd32 (base - 2) (\<lambda>v. v + la) m"
proof -
  have "\<not> reloc_bad ls 0xFFFFFFFE"
    using assms(1) by (simp add: reloc_bad_def wrapped_numerals not_less)
  then show ?thesis using assms(2) unfolding apply_relocations_simple by (simp add: wrapped_numerals)
qed

lemma reloc_writes_below_witness:
  "apply_relocations 64 64 0 8 (64 + 8) 1 (put32 (\<lambda>_. 0) (64 + 8) 0xFFFFFFFE) =
     upd32 (64 - 2) (\<lambda>v. v + 64) (put32 (\<lambda>_. 0) (64 + 8) 0xFFFFFFFE)"
  by (rule reloc_writes_below) (simp_all only: get32_put32_u32, simp)

text \<open>
  The header check adds the sizes at 32 bits: a header that claims a load size of almost 4
  gigabytes passes it for a region of any size, even an empty one.
\<close>

theorem header_check_wraps:
  "exec_validate_header \<lparr>h_magic = GENIX_MAGIC, h_load_size = 0xFFFFE000, h_bss_size = 0, h_entry = 0,
     h_stack_size = 0, h_flags = 0, h_text_size = 0, h_reloc_count = 0\<rparr> z = 0"
  by (simp add: exec_validate_header_def exec_mem_need_def effective_bss_def stack_need_def HDR_STACK_SIZE_def
      wrapped_numerals)

text \<open>
  C15. Loading a program succeeds whenever it can: a regular file whose header passes the check
  for the region of the process, whose sizes do not wrap, and whose header, image and relocation
  table are inside the file and allocated, is loaded, whatever the table and the arguments are.
\<close>

theorem program_loads:
  assumes "open_program path k = (Inr (ip, h), k1)" and "cache_ok (bc (kf k))" and "header_fits h"
    and "exec_validate_header h (mem_size (kcur k)) = 0"
    and "mapped (view (bc (kf k1))) (icache (kf k1) ip) 32 (32 + unat (h_load_size h) + 4 * unat (h_reloc_count h))"
    and "32 + unat (h_load_size h) + 4 * unat (h_reloc_count h) \<le> unat (isize (icache (kf k1) ip))"
  shows "\<exists>sp k'. load_binary path argv la k = (Inr (la + h_entry h, sp), k')"
  by (rule load_binary_succeeds [OF assms])

text \<open>
  A disk whose inode 2 is a program of 8 bytes with 16 bytes of BSS and one relocation, and a
  kernel whose current process has that inode as its working directory (so that the empty path
  names it) and a region for it.
\<close>

definition prog_bytes :: bytes where
  "prog_bytes = [0x47, 0x45, 0x4E, 0x58, 0, 0, 0, 8, 0, 0, 0, 16, 0, 0, 0, 0,
     0, 0, 0, 0, 0, 0, 0, 0, 0, 0, 0, 0, 0, 0, 0, 1, 0x4E, 0x71, 0x20, 0x79, 0, 0, 0, 2, 0, 0, 0, 4]"

definition prog_image :: "u32 \<Rightarrow> block" where
  "prog_image b =
     (if b = 0 then put_sb \<lparr>sb_magic = MINIFS_MAGIC, sb_block_size = 1024, sb_nblocks = 8,
        sb_ninodes = 21, sb_free_list = 2, sb_free_inodes = 19, sb_pad = 0, sb_mtime = 0\<rparr> (\<lambda>_. 0)
      else if b = 1 then put_dinode \<lparr>d_type = FT_FILE, d_nlink = 1, d_major = 0, d_minor = 0,
          d_size = 44, d_mtime = 0, d_direct = (\<lambda>n. if n = 0 then 7 else 0), d_indirect = 0\<rparr> 48
        (put_dinode \<lparr>d_type = FT_DIR, d_nlink = 2, d_major = 0, d_minor = 0,
          d_size = 0, d_mtime = 0, d_direct = (\<lambda>_. 0), d_indirect = 0\<rparr> 0 (\<lambda>_. 0))
      else if b = 7 then (\<lambda>j. if j < 44 then prog_bytes ! j else 0)
      else if b < 6 then put16 (\<lambda>_. 0) 0 (ucast b + 1) else (\<lambda>_. 0))"

definition prog_kern :: kern where
  "prog_kern = \<lparr>kt = (console_with [])\<lparr>pt := (proc_init boot_ptab)\<lparr>proctab := (\<lambda>_. zero_proc\<lparr>cwd := 2,
       mem_base := 0x40000, mem_size := 8224\<rparr>)\<rparr>\<rparr>, kf = booted (Workbench prog_image),
     kheap = \<lparr>hmem = (\<lambda>_. 0), free_head = 0, heap_start = 0, heap_end = 0\<rparr>, kpool = umem_init 0x40000 0xF0000,
     ram = (\<lambda>_. 0xAA), rom_start = 0, exec_active = False, exec_exit_code = 0, exec_user_a5 = 0\<rparr>"

lemma prog_run:
  "(case open_program [] prog_kern of (r, k1) \<Rightarrow>
      (r, file_offsets (fbyte k1 0) (header_of (take 32 prog_bytes)),
       get32 (fbyte k1 0) 36, blk_of (view (bc (kf k1))) (icache (kf k1) 0) 0, isize (icache (kf k1) 0))) =
    (Inr (0, \<lparr>h_magic = GENIX_MAGIC, h_load_size = 8, h_bss_size = 16, h_entry = 0, h_stack_size = 0, h_flags = 0,
       h_text_size = 0, h_reloc_count = 1\<rparr>), [4], 2, 7, 44)"
  by code_simp

lemma prog_header: "header_of (take 32 prog_bytes) = \<lparr>h_magic = GENIX_MAGIC, h_load_size = 8, h_bss_size = 16, h_entry = 0,
    h_stack_size = 0, h_flags = 0, h_text_size = 0, h_reloc_count = 1\<rparr>"
  by code_simp

definition prog_hdr :: genix_header where
  "prog_hdr = header_of (take 32 prog_bytes)"

definition prog_open :: kern where
  "prog_open = snd (open_program [] prog_kern)"

lemma prog_facts:
  "open_program [] prog_kern = (Inr (0, prog_hdr), prog_open)"
  "file_offsets (fbyte prog_open 0) prog_hdr = [4]"
  "get32 (fbyte prog_open 0) 36 = 2" "blk_of (view (bc (kf prog_open))) (icache (kf prog_open) 0) 0 = 7"
  "isize (icache (kf prog_open) 0) = 44"
  "header_fits prog_hdr" "cache_ok (bc (kf prog_kern))" "mem_size (kcur prog_kern) = 8224"
  "exec_validate_header prog_hdr 8224 = 0" "h_load_size prog_hdr = 8" "h_reloc_count prog_hdr = 1"
  "h_bss_size prog_hdr = 16" "h_entry prog_hdr = 0" "stack_need prog_hdr = 4096"
  using prog_run booted_ok [of prog_image] unfolding prog_hdr_def prog_header prog_open_def
  by (auto simp: case_prod_beta prod_eq_iff header_fits_def bss_or_table_def stack_need_def HDR_STACK_SIZE_def
    prog_kern_def proc_init_def zero_proc_def exec_validate_header_def exec_mem_need_def effective_bss_def)

lemma prog_mapped: "mapped (view (bc (kf prog_open))) (icache (kf prog_open) 0) 32 (32 + unat (h_load_size prog_hdr) + 4 * unat (h_reloc_count prog_hdr))"
  by (simp add: mapped_def prog_facts)

lemma program_loaded_witness:
  "\<exists>sp k'. load_binary [] None 0x40000 prog_kern = (Inr (0x40000, sp), k') \<and>
     get32 (ram k') 0x40004 = 0x40002 \<and> (\<forall>d < (16 :: nat). ram k' (0x40008 + of_nat d) = 0)"
proof -
  obtain sp k' where l: "load_binary [] None 0x40000 prog_kern = (Inr (0x40000 + h_entry prog_hdr, sp), k')"
    using load_binary_succeeds [OF prog_facts(1,7,6) _ prog_mapped, where argv = None and la = "0x40000"] by (auto simp: prog_facts)
  have g: "good_offsets 8 [4] = [4 :: u32]" by code_simp
  have "reloc_sound 8 4" by (simp add: reloc_sound_iff)
  then show ?thesis
    using program_loaded [OF prog_facts(1) l prog_facts(7,6)] l
    by (simp add: prog_facts g words_apart_def stack_args_def stack_space_def)
qed

lemma program_loads_witness:
  "\<exists>sp k'. load_binary [] None 0x40000 prog_kern = (Inr (0x40000 + h_entry prog_hdr, sp), k')"
  by (rule program_loads [OF prog_facts(1,7,6) _ prog_mapped]) (simp_all add: prog_facts)

end
