(* ===== verification/Dev.thy ===== *)
theory Dev
  imports Kern
begin

text \<open>
  The device table of kernel/dev.c: console (through the terminal layer), disk, VDP and null
  devices, and the creation of the device nodes. The VDP entries are the weak stubs of this
  file, as the workbench links them. Major numbers are those of \<open>devtab\<close>.
\<close>

abbreviation (input) DEV_CONSOLE :: nat where "DEV_CONSOLE \<equiv> 0"
abbreviation (input) DEV_DISK :: nat where "DEV_DISK \<equiv> 1"
abbreviation (input) DEV_VDP :: nat where "DEV_VDP \<equiv> 2"
abbreviation (input) DEV_NULL :: nat where "DEV_NULL \<equiv> 3"
abbreviation (input) NDEV :: nat where "NDEV \<equiv> 4"

section \<open>Console\<close>

definition con_open :: "nat \<Rightarrow> int" where "con_open minor = 0"
definition con_close :: "nat \<Rightarrow> int" where "con_close minor = 0"

definition con_read :: "nat \<Rightarrow> int \<Rightarrow> tsys \<Rightarrow> tread \<times> tsys" where
  "con_read minor len s = tty_read 0 len s"

definition con_write :: "nat \<Rightarrow> (nat \<Rightarrow> u8) \<Rightarrow> int \<Rightarrow> tsys \<Rightarrow> int \<times> tsys" where
  "con_write minor src len s = tty_write 0 src len s"

definition con_ioctl :: "nat \<Rightarrow> u32 \<Rightarrow> u32 \<Rightarrow> memory \<times> tsys \<Rightarrow> int \<times> memory \<times> tsys" where
  "con_ioctl minor cmd arg ms = tty_ioctl 0 cmd arg ms"

section \<open>VDP stubs, disk and null devices\<close>

definition vdp_open :: "nat \<Rightarrow> int" where "vdp_open minor = - ENODEV"
definition vdp_close :: "nat \<Rightarrow> int" where "vdp_close minor = - ENODEV"
definition vdp_read :: "nat \<Rightarrow> int \<Rightarrow> int" where "vdp_read minor len = - ENODEV"
definition vdp_write :: "nat \<Rightarrow> int \<Rightarrow> int" where "vdp_write minor len = - ENODEV"
definition vdp_ioctl :: "nat \<Rightarrow> u32 \<Rightarrow> u32 \<Rightarrow> int" where "vdp_ioctl minor cmd arg = - ENODEV"

definition disk_open :: "nat \<Rightarrow> int" where "disk_open minor = 0"
definition disk_close :: "nat \<Rightarrow> int" where "disk_close minor = 0"
definition disk_dev_read :: "nat \<Rightarrow> int \<Rightarrow> int" where "disk_dev_read minor len = - EIO"
definition disk_dev_write :: "nat \<Rightarrow> int \<Rightarrow> int" where "disk_dev_write minor len = - EIO"
definition disk_ioctl :: "nat \<Rightarrow> u32 \<Rightarrow> u32 \<Rightarrow> int" where "disk_ioctl minor cmd arg = - EINVAL"

definition null_open :: "nat \<Rightarrow> int" where "null_open minor = 0"
definition null_close :: "nat \<Rightarrow> int" where "null_close minor = 0"
definition null_read :: "nat \<Rightarrow> int \<Rightarrow> int" where "null_read minor len = 0"
definition null_write :: "nat \<Rightarrow> int \<Rightarrow> int" where "null_write minor len = len"
definition null_ioctl :: "nat \<Rightarrow> u32 \<Rightarrow> u32 \<Rightarrow> int" where "null_ioctl minor cmd arg = - EINVAL"

section \<open>The table\<close>

text \<open>A read that is not the console's returns at once, without data.\<close>

definition dev_open :: "nat \<Rightarrow> nat \<Rightarrow> int" where
  "dev_open major minor =
     (if major = DEV_CONSOLE then con_open minor else if major = DEV_DISK then disk_open minor
      else if major = DEV_VDP then vdp_open minor else null_open minor)"

definition dev_close :: "nat \<Rightarrow> nat \<Rightarrow> int" where
  "dev_close major minor =
     (if major = DEV_CONSOLE then con_close minor else if major = DEV_DISK then disk_close minor
      else if major = DEV_VDP then vdp_close minor else null_close minor)"

definition dev_read :: "nat \<Rightarrow> nat \<Rightarrow> int \<Rightarrow> tsys \<Rightarrow> tread \<times> tsys" where
  "dev_read major minor len s =
     (let ret = (\<lambda>n. (if n < 0 then Failed (- n) else Got [], s))
      in if major = DEV_CONSOLE then con_read minor len s
         else if major = DEV_DISK then ret (disk_dev_read minor len)
         else if major = DEV_VDP then ret (vdp_read minor len) else ret (null_read minor len))"

definition dev_write :: "nat \<Rightarrow> nat \<Rightarrow> (nat \<Rightarrow> u8) \<Rightarrow> int \<Rightarrow> tsys \<Rightarrow> int \<times> tsys" where
  "dev_write major minor src len s =
     (if major = DEV_CONSOLE then con_write minor src len s
      else if major = DEV_DISK then (disk_dev_write minor len, s)
      else if major = DEV_VDP then (vdp_write minor len, s) else (null_write minor len, s))"

definition dev_ioctl :: "nat \<Rightarrow> nat \<Rightarrow> u32 \<Rightarrow> u32 \<Rightarrow> memory \<times> tsys \<Rightarrow> int \<times> memory \<times> tsys" where
  "dev_ioctl major minor cmd arg ms =
     (if major = DEV_CONSOLE then con_ioctl minor cmd arg ms
      else (if major = DEV_DISK then disk_ioctl minor cmd arg
            else if major = DEV_VDP then vdp_ioctl minor cmd arg else null_ioctl minor cmd arg, ms))"

section \<open>Device nodes\<close>

text \<open>One node: nothing but the release of the inode if the path exists already.\<close>

definition make_node :: "bytes \<Rightarrow> u8 \<Rightarrow> u8 \<Rightarrow> fsys \<Rightarrow> fsys" where
  "make_node path major minor s =
     (case fs_namei None path s of
        (Some ip, s1) \<Rightarrow> fs_iput ip s1
      | (None, s1) \<Rightarrow>
          (case fs_create None path FT_DEV s1 of
             (None, s2) \<Rightarrow> s2
           | (Some ip, s2) \<Rightarrow> fs_iput ip (fs_iupdate ip
               (upd_inode ip (\<lambda>i. i\<lparr>dev_major := major, dev_minor := minor, idirty := True\<rparr>) s2))))"

definition ascii :: "string \<Rightarrow> bytes" where
  "ascii s = map (\<lambda>c. of_nat (of_char c)) s"

definition dev_create_nodes :: "fsys \<Rightarrow> fsys" where
  "dev_create_nodes s =
     (let s0 = (case fs_namei None (ascii ''/dev'') s of
                  (None, s1) \<Rightarrow> snd (fs_mkdir None (ascii ''/dev'') s1)
                | (Some ip, s1) \<Rightarrow> fs_iput ip s1);
          s1 = make_node (ascii ''/dev/null'') 3 0 s0;
          s2 = make_node (ascii ''/dev/tty'') 0 0 s1;
          s3 = make_node (ascii ''/dev/console'') 0 0 s2
      in fold (\<lambda>(path, minor). make_node path 0 minor)
           [(ascii ''/dev/tty1'', 1), (ascii ''/dev/tty2'', 2), (ascii ''/dev/tty3'', 3)] s3)"

definition dev_init :: "u16 \<Rightarrow> u16 \<Rightarrow> tsys \<Rightarrow> tsys" where
  "dev_init rows cols s = tty_init rows cols s"

end
