(* ===== verification/Lifecycle.thy ===== *)
theory Lifecycle
  imports Dev Exec
begin

text \<open>
  The life of a process, kernel/proc.c and the end of kernel/exec.c: the first kernel stack, exit,
  wait, vfork, spawn and exec. A call that does not simply return has one of the other outcomes
  below: it sleeps or polls and is to be resumed, it continues in the parent that called
  \<open>vfork\<close> (the \<open>longjmp\<close> of \<open>vfork_restore\<close>), it goes back to the caller of \<open>exec_enter\<close>,
  it enters a user program synchronously, it never returns (an exited process), or it follows an
  inode pointer that is none. Where C calls \<open>schedule\<close> the outcome says so and the scheduler
  of theory Proc_Table is applied by who runs the model.
\<close>

datatype wait =
  InPipeRead nat u32 int
| InPipeWrite nat u32 int
| InTtyRead bool nat u32 int
| InWaitpid int "u32" u32

datatype outcome =
  Ret int
| Sleeping wait
| Spinning wait
| Resumed int
| LeftExec int
| Entered u32 u32
| Exited
| Fault

section \<open>The first kernel stack\<close>

text \<open>
  \<open>kstack\<close> is the array of 512 bytes; the address of the trampoline \<open>proc_first_run\<close> is the
  linker's, an argument here. From the top: PC, SR, fifteen registers, USP, the return address
  for \<open>swtch\<close>, eleven registers.
\<close>

definition zero_range :: "nat \<Rightarrow> nat \<Rightarrow> (nat \<Rightarrow> u8) \<Rightarrow> nat \<Rightarrow> u8" where
  "zero_range a n b = (\<lambda>i. if a \<le> i \<and> i < a + n then 0 else b i)"

definition proc_setup_kstack :: "u32 \<Rightarrow> u32 \<Rightarrow> u32 \<Rightarrow> u32 \<Rightarrow> proc \<Rightarrow> proc" where
  "proc_setup_kstack first_run entry user_sp user_a5 p =
     (let b1 = put32 (kstack p) (KSTACK_SIZE - 4) entry;
          b2 = put16 b1 (KSTACK_SIZE - 6) 0;
          b3 = zero_range (KSTACK_SIZE - 66) 60 b2;
          b4 = (if user_a5 \<noteq> 0 then put32 b3 (KSTACK_SIZE - 66 + 52) user_a5 else b3);
          b5 = put32 b4 (KSTACK_SIZE - 70) user_sp;
          b6 = put32 b5 (KSTACK_SIZE - 74) first_run;
          b7 = zero_range (KSTACK_SIZE - 118) 44 b6
      in p\<lparr>ksp := KSTACK_SIZE - 118, kstack := put32 b7 0 KSTACK_CANARY\<rparr>)"

definition syscall_kstack_frame :: nat where
  "syscall_kstack_frame = KSTACK_SIZE - 70"

section \<open>Releasing an open file\<close>

text \<open>
  The block that \<open>sys_close\<close>, \<open>do_exit\<close> and \<open>do_spawn_fd\<close> repeat: one reference less, and at the
  last one the pipe end or the inode is released. The device's close handler is called by the
  first two only; the handlers of the workbench change nothing.
\<close>

definition drop_ofile :: "nat \<Rightarrow> kern \<Rightarrow> kern" where
  "drop_ofile i k =
     (let k1 = on_pt (upd_ofile i (\<lambda>f. f\<lparr>of_refcount := of_refcount f - 1\<rparr>)) k;
          f = ofile_table (kpt k1) i
      in if of_refcount f \<noteq> 0 then k1
         else (case ofile_pipe f of
            Some p \<Rightarrow>
              (let k2 = (if of_flags f AND OFILE_PIPE_READ \<noteq> 0 then on_pt (pipe_close_read p) k1 else k1);
                   k3 = (if of_flags f AND OFILE_PIPE_WRITE \<noteq> 0 then on_pt (pipe_close_write p) k2 else k2)
               in on_pt (upd_ofile i (\<lambda>f. f\<lparr>of_inode := INull\<rparr>)) k3)
          | None \<Rightarrow>
              (case of_inode f of
                 IPtr ip \<Rightarrow> on_pt (upd_ofile i (\<lambda>f. f\<lparr>of_inode := INull\<rparr>)) (on_fs (fs_iput ip) k1)
               | _ \<Rightarrow> k1)))"

definition clear_fd :: "nat \<Rightarrow> proc \<Rightarrow> proc" where
  "clear_fd n p = p\<lparr>fd := (fd p)(n := None)\<rparr>"

definition close_fd :: "nat \<Rightarrow> kern \<Rightarrow> kern" where
  "close_fd n k =
     (case fd (kcur k) n of None \<Rightarrow> k | Some i \<Rightarrow> drop_ofile i (upd_cur (clear_fd n) k))"

section \<open>Exit\<close>

text \<open>The reparenting loop.\<close>

definition reparent :: "nat \<Rightarrow> ptab \<Rightarrow> ptab" where
  "reparent parent s =
     s\<lparr>proctab := (\<lambda>i. let p = proctab s i
        in if i < MAXPROC \<and> pstate p \<noteq> P_FREE \<and> ppid p = parent then p\<lparr>ppid := 0\<rparr> else p)\<rparr>"

text \<open>An \<open>int8_t\<close> assignment.\<close>

definition to_int8 :: "int \<Rightarrow> int" where
  "to_int8 c = sint (word_of_int c :: u8)"

definition do_exit :: "int \<Rightarrow> kern \<Rightarrow> outcome \<times> kern" where
  "do_exit code k =
     (if exec_active k then (LeftExec code, k\<lparr>exec_exit_code := code\<rparr>)
      else let k1 = fold close_fd [0..<MAXFD] k;
               k2 = upd_cur (\<lambda>p. p\<lparr>mem_base := 0, mem_size := 0, exitcode := to_int8 code, pstate := P_ZOMBIE\<rparr>) k1;
               k3 = on_pt (reparent (pid (kcur k2))) k2;
               par = ppid (kcur k3)
           in if par < MAXPROC
              then (if pstate (proctab (kpt k3) par) = P_VFORK
                    then (Resumed (int (pid (kcur k3))),
                          on_pt (\<lambda>s. (upd_proc par (\<lambda>p. p\<lparr>pstate := P_RUNNING\<rparr>) s)\<lparr>curproc := par\<rparr>) k3)
                    else (Exited, on_pt (wake_proc par) k3))
              else (Exited, k3))"

section \<open>Wait\<close>

definition is_child :: "ptab \<Rightarrow> nat \<Rightarrow> bool" where
  "is_child s i \<longleftrightarrow> pstate (proctab s i) \<noteq> P_FREE \<and> ppid (proctab s i) = pid (cur s)"

text \<open>One round of the loop; \<open>status\<close> is the address of the result, 0 for NULL.\<close>

definition do_waitpid :: "int \<Rightarrow> u32 \<Rightarrow> u32 \<Rightarrow> kern \<Rightarrow> outcome \<times> kern" where
  "do_waitpid wpid status options k =
     (let s = kpt k
      in case first_idx (\<lambda>i. is_child s i \<and> \<not> (wpid > 0 \<and> int (pid (proctab s i)) \<noteq> wpid mod 256) \<and>
                pstate (proctab s i) = P_ZOMBIE) MAXPROC of
          Some i \<Rightarrow>
            (Ret (int (pid (proctab s i))),
             on_pt (\<lambda>s. (upd_proc i (\<lambda>p. p\<lparr>pstate := P_FREE\<rparr>) s)\<lparr>nproc := nproc s - 1\<rparr>)
               (if status \<noteq> 0
                then k\<lparr>ram := put32 (ram k) status (word_of_int (exitcode (proctab s i) mod 256 * 256))\<rparr>
                else k))
        | None \<Rightarrow>
            if \<forall>i \<in> set [0..<MAXPROC]. \<not> is_child s i then (Ret (- ECHILD), k)
            else if options AND 1 \<noteq> 0 then (Ret 0, k)
            else (Sleeping (InWaitpid wpid status options), on_pt sleep_cur k))"

section \<open>Creating processes\<close>

text \<open>\<open>alloc_pid\<close>: \<open>None\<close> is 0xFF. The counter is kept between 1 and 15.\<close>

primrec alloc_pid_loop :: "nat \<Rightarrow> ptab \<Rightarrow> nat option \<times> ptab" where
  "alloc_pid_loop 0 s = (None, s)"
| "alloc_pid_loop (Suc n) s =
     (let p = next_pid s; nx = (p + 1) mod MAXPROC; s1 = s\<lparr>next_pid := (if nx = 0 then 1 else nx)\<rparr>
      in if pstate (proctab s1 p) = P_FREE then (Some p, s1) else alloc_pid_loop n s1)"

definition alloc_pid :: "ptab \<Rightarrow> nat option \<times> ptab" where
  "alloc_pid s = alloc_pid_loop MAXPROC s"

text \<open>One more reference for every open file of a process.\<close>

definition share_files :: "(nat \<Rightarrow> nat option) \<Rightarrow> ptab \<Rightarrow> ptab" where
  "share_files fds s =
     fold (\<lambda>n s. case fds n of None \<Rightarrow> s | Some i \<Rightarrow> upd_ofile i (\<lambda>f. f\<lparr>of_refcount := of_refcount f + 1\<rparr>) s)
       [0..<MAXFD] s"

text \<open>\<open>regs\<close> is what \<open>vfork_save\<close> stores. The call returns 0 in the child.\<close>

definition do_vfork :: "(nat \<Rightarrow> u32) \<Rightarrow> kern \<Rightarrow> outcome \<times> kern" where
  "do_vfork regs k =
     (case alloc_pid (kpt k) of
        (None, s1) \<Rightarrow> (Ret (- EAGAIN), on_pt (\<lambda>_. s1) k)
      | (Some c, s1) \<Rightarrow>
          let par = curproc s1;
              s2 = upd_proc par (\<lambda>p. p\<lparr>vfork_ctx := regs\<rparr>) s1;
              s3 = upd_proc c (\<lambda>_. (proctab s2 par)\<lparr>pid := c, ppid := pid (proctab s2 par), pstate := P_RUNNING,
                     exitcode := 0, mem_base := 0, mem_size := 0\<rparr>) s2;
              s4 = share_files (fd (proctab s3 c)) s3;
              s5 = s4\<lparr>nproc := nproc s4 + 1\<rparr>
          in (Ret 0, on_pt (\<lambda>_. (upd_proc par (\<lambda>p. p\<lparr>pstate := P_VFORK\<rparr>) s5)\<lparr>curproc := c\<rparr>) k))"

text \<open>The child record of \<open>do_spawn\<close> before its program is loaded.\<close>

definition spawn_child :: "nat \<Rightarrow> u32 \<Rightarrow> u32 \<Rightarrow> proc \<Rightarrow> proc \<Rightarrow> proc" where
  "spawn_child c base sz parent p =
     p\<lparr>pstate := P_FREE, pid := c, ppid := pid parent, exitcode := 0, cwd := cwd parent, pgrp := c,
       mem_base := base, mem_size := sz, brk := 0, data_a5 := 0, sig_pending := 0,
       sig_handler := (\<lambda>i. if i < NSIG then SIG_DFL else sig_handler p i),
       fd := (\<lambda>i. if i < MAXFD then fd parent i else fd p i),
       fd_flags := (\<lambda>i. if i < MAXFD then fd_flags parent i else fd_flags p i)\<rparr>"

definition unshare_files :: "nat \<Rightarrow> ptab \<Rightarrow> ptab" where
  "unshare_files c s =
     fold (\<lambda>n s. case fd (proctab s c) n of None \<Rightarrow> s
                 | Some i \<Rightarrow> upd_proc c (clear_fd n) (upd_ofile i (\<lambda>f. f\<lparr>of_refcount := of_refcount f - 1\<rparr>) s))
       [0..<MAXFD] s"

text \<open>
  Loading into the region of the current process, with the XIP loader first and the ordinary one
  when that fails or was not asked for, in a larger region if it has to be: shared by \<open>do_spawn\<close>
  and \<open>do_exec\<close> (their \<open>exec_mem_need\<close> test compares with the size allocated).
\<close>

definition use_xip :: "u32 \<Rightarrow> genix_header \<Rightarrow> bool" where
  "use_xip rom h \<longleftrightarrow> rom \<noteq> 0 \<and> h_text_size h > 0 \<and> h_flags h AND GENIX_FLAG_XIP \<noteq> 0"

definition load_fallback :: "bytes \<Rightarrow> bytes list option \<Rightarrow> genix_header \<Rightarrow> kern \<Rightarrow> (int + u32 \<times> u32) \<times> kern" where
  "load_fallback path argv h k =
     (let need2 = exec_mem_need h
      in if need2 > mem_size (kcur k)
         then (let k1 = upd_cur (\<lambda>p. p\<lparr>mem_base := 0\<rparr>) k; a = umem_alloc (kpool k1) (kpt k1) need2
               in if a = 0 then (Inl (- ENOMEM), k1)
                  else load_binary path argv a (upd_cur (\<lambda>p. p\<lparr>mem_base := a, mem_size := need2\<rparr>) k1))
         else load_binary path argv (mem_base (kcur k)) k)"

definition load_program :: "bytes \<Rightarrow> bytes list option \<Rightarrow> u32 \<Rightarrow> genix_header \<Rightarrow> kern \<Rightarrow> (int + u32 \<times> u32) \<times> kern" where
  "load_program path argv rom h k =
     (if use_xip rom h
      then (case load_binary_xip path argv (rom + of_nat GENIX_HDR_SIZE) (mem_base (kcur k)) k of
              (Inr r, k1) \<Rightarrow> (Inr r, k1)
            | (Inl _, k1) \<Rightarrow> load_fallback path argv h k1)
      else load_fallback path argv h k)"

definition do_spawn :: "u32 \<Rightarrow> bytes \<Rightarrow> bytes list option \<Rightarrow> kern \<Rightarrow> int \<times> kern" where
  "do_spawn first_run path argv k =
     (case open_program path k of
        (Inl e, k1) \<Rightarrow> (e, k1)
      | (Inr (ip, h), k1) \<Rightarrow>
          let rom = pal_rom_file_addr (rom_start k1) (disk (bc (kf k1))) (icache (kf k1) ip);
              k2 = on_fs (fs_iput ip) k1;
              need = (if use_xip rom h then exec_mem_need_xip h else exec_mem_need h)
          in case alloc_pid (kpt k2) of
               (None, s) \<Rightarrow> (- EAGAIN, on_pt (\<lambda>_. s) k2)
             | (Some c, s) \<Rightarrow>
                 let k3 = on_pt (\<lambda>_. s) k2; a = umem_alloc (kpool k3) s need
                 in if a = 0 then (- ENOMEM, k3)
                    else let par = curproc s;
                             s1 = upd_proc c (spawn_child c a need (proctab s par)) s;
                             s2 = share_files (fd (proctab s1 c)) s1;
                             k4 = on_pt (\<lambda>_. s2\<lparr>nproc := nproc s2 + 1, curproc := c\<rparr>) k3
                         in case load_program path argv rom h k4 of
                              (Inl e, k5) \<Rightarrow>
                                (e, on_pt (\<lambda>s. let s' = upd_proc c (\<lambda>p. p\<lparr>mem_base := 0, mem_size := 0, pstate := P_FREE\<rparr>)
                                                 (unshare_files c s)
                                               in s'\<lparr>nproc := nproc s' - 1, curproc := par\<rparr>) k5)
                            | (Inr (entry, sp), k5) \<Rightarrow>
                                (int c, on_pt (\<lambda>s. (upd_proc c (\<lambda>p. (proc_setup_kstack first_run entry sp (data_a5 p) p)
                                                     \<lparr>pstate := P_READY\<rparr>) s)\<lparr>curproc := par\<rparr>) k5))"

text \<open>One of the three replacements of \<open>do_spawn_fd\<close>: descriptor \<open>n\<close> of the child from \<open>src\<close>.\<close>

definition replace_fd :: "nat \<Rightarrow> nat \<Rightarrow> int \<Rightarrow> kern \<Rightarrow> kern" where
  "replace_fd c n src k =
     (if src < 0 \<or> src \<ge> int MAXFD then k
      else case fd (kcur k) (nat src) of
        None \<Rightarrow> k
      | Some i \<Rightarrow>
          (let k1 = (case fd (proctab (kpt k) c) n of None \<Rightarrow> k | Some old \<Rightarrow> drop_ofile old k)
           in on_pt (\<lambda>s. upd_ofile i (\<lambda>f. f\<lparr>of_refcount := of_refcount f + 1\<rparr>)
                (upd_proc c (\<lambda>p. p\<lparr>fd := (fd p)(n := Some i)\<rparr>) s)) k1))"

definition do_spawn_fd :: "u32 \<Rightarrow> bytes \<Rightarrow> bytes list option \<Rightarrow> int \<Rightarrow> int \<Rightarrow> int \<Rightarrow> kern \<Rightarrow> int \<times> kern" where
  "do_spawn_fd first_run path argv fd0 fd1 fd2 k =
     (case do_spawn first_run path argv k of (r, k1) \<Rightarrow>
        if r < 0 then (r, k1)
        else if r \<ge> int MAXPROC then (- EAGAIN, k1)
        else (r, replace_fd (nat r) 2 fd2 (replace_fd (nat r) 1 fd1 (replace_fd (nat r) 0 fd0 k1))))"

section \<open>Exec\<close>

text \<open>
  The loop over the close-on-exec descriptors. It has no case for pipes: for the last reference to
  a pipe end it takes the pipe's number for an inode pointer.
\<close>

primrec close_on_exec :: "nat list \<Rightarrow> kern \<Rightarrow> kern option" where
  "close_on_exec [] k = Some k"
| "close_on_exec (n # ns) k =
     (if fd_flags (kcur k) n AND 1 = 0 then close_on_exec ns k
      else case fd (kcur k) n of
        None \<Rightarrow> close_on_exec ns k
      | Some i \<Rightarrow>
          (let k1 = upd_cur (\<lambda>p. (clear_fd n p)\<lparr>fd_flags := (fd_flags p)(n := 0)\<rparr>) k;
               k2 = on_pt (upd_ofile i (\<lambda>f. f\<lparr>of_refcount := of_refcount f - 1\<rparr>)) k1;
               f = ofile_table (kpt k2) i
           in if of_refcount f \<noteq> 0 then close_on_exec ns k2
              else case of_inode f of
                INull \<Rightarrow> close_on_exec ns k2
              | IPtr ip \<Rightarrow> close_on_exec ns (on_pt (upd_ofile i (\<lambda>f. f\<lparr>of_inode := INull\<rparr>)) (on_fs (fs_iput ip) k2))
              | IPipe _ \<Rightarrow> None))"

text \<open>
  \<open>do_exec\<close> up to the start of the program. For a child of \<open>vfork\<close> it continues in the parent,
  otherwise it enters the program; \<open>exec_return\<close> is the rest of the call when the program exits.
\<close>

definition do_exec :: "u32 \<Rightarrow> bytes \<Rightarrow> bytes list option \<Rightarrow> kern \<Rightarrow> outcome \<times> kern" where
  "do_exec first_run path argv k =
     (case open_program path k of
        (Inl e, k1) \<Rightarrow> (Ret e, k1)
      | (Inr (ip, h), k1) \<Rightarrow>
          let rom = pal_rom_file_addr (rom_start k1) (disk (bc (kf k1))) (icache (kf k1) ip);
              k2 = on_fs (fs_iput ip) k1;
              need = (if use_xip rom h then exec_mem_need_xip h else exec_mem_need h);
              a = umem_alloc (kpool k2) (kpt k2) need
          in if a = 0 then (Ret (- ENOMEM), k2)
             else case load_program path argv rom h (upd_cur (\<lambda>p. p\<lparr>mem_base := a, mem_size := need\<rparr>) k2) of
               (Inl e, k3) \<Rightarrow>
                 (Ret e, if mem_base (kcur k3) = 0 then k3 else upd_cur (\<lambda>p. p\<lparr>mem_base := 0, mem_size := 0\<rparr>) k3)
             | (Inr (entry, sp), k3) \<Rightarrow>
                 (case close_on_exec [0..<MAXFD] k3 of
                    None \<Rightarrow> (Fault, k3)
                  | Some k4 \<Rightarrow>
                      let par = ppid (kcur k4)
                      in if par < MAXPROC \<and> pstate (proctab (kpt k4) par) = P_VFORK
                         then (Resumed (int (pid (kcur k4))),
                               on_pt (\<lambda>s. (upd_proc par (\<lambda>p. p\<lparr>pstate := P_RUNNING\<rparr>) s)\<lparr>curproc := par\<rparr>)
                                 (upd_cur (\<lambda>p. (proc_setup_kstack first_run entry sp (data_a5 p) p)\<lparr>pstate := P_READY\<rparr>) k4))
                         else (Entered entry sp, k4\<lparr>exec_active := True, exec_user_a5 := data_a5 (kcur k4)\<rparr>)))"

definition exec_return :: "int \<Rightarrow> kern \<Rightarrow> outcome \<times> kern" where
  "exec_return code k = (Ret code, upd_cur (\<lambda>p. p\<lparr>mem_base := 0, mem_size := 0\<rparr>) (k\<lparr>exec_active := False\<rparr>))"

end
