(* ===== verification/Syscalls.thy ===== *)
theory Syscalls
  imports Lifecycle
begin

text \<open>
  The system calls of kernel/proc.c: descriptors, seeking, duplication, signals, the working
  directory, memory information and the dispatcher. User buffers are addresses in \<open>ram\<close>;
  a call returns an \<open>outcome\<close> of theory Lifecycle. A result of type \<open>option\<close> is \<open>None\<close> when a
  loop of the code does not end: a path without a NUL, or a cyclic list.
\<close>

abbreviation (input) O_CREAT :: u32 where "O_CREAT \<equiv> 0x40"
abbreviation (input) O_TRUNC :: u32 where "O_TRUNC \<equiv> 0x200"
abbreviation (input) O_APPEND :: u16 where "O_APPEND \<equiv> 0x400"
abbreviation (input) SIGKILL :: nat where "SIGKILL \<equiv> 9"
abbreviation (input) SIGCHLD :: nat where "SIGCHLD \<equiv> 17"
abbreviation (input) SIGCONT :: nat where "SIGCONT \<equiv> 18"
abbreviation (input) SIGSTOP :: nat where "SIGSTOP \<equiv> 19"

section \<open>Descriptors\<close>

text \<open>The open file of descriptor \<open>n\<close> of the caller, if \<open>n\<close> is one.\<close>

definition fd_file :: "u32 \<Rightarrow> kern \<Rightarrow> nat option" where
  "fd_file n k = (if n \<ge> of_nat MAXFD then None else fd (kcur k) (unat n))"

abbreviation kfile :: "kern \<Rightarrow> nat \<Rightarrow> ofile" where
  "kfile k j \<equiv> ofile_table (kpt k) j"

definition dev_node :: "kern \<Rightarrow> nat \<Rightarrow> bool" where
  "dev_node k ip \<longleftrightarrow> itype (icache (kf k) ip) = FT_DEV"

definition node_major :: "kern \<Rightarrow> nat \<Rightarrow> nat" where
  "node_major k ip = unat (dev_major (icache (kf k) ip))"

definition node_minor :: "kern \<Rightarrow> nat \<Rightarrow> nat" where
  "node_minor k ip = unat (dev_minor (icache (kf k) ip))"

text \<open>\<open>sys_open\<close> from the point where the inode is open.\<close>

definition install_file :: "nat \<Rightarrow> u32 \<Rightarrow> kern \<Rightarrow> int \<times> kern" where
  "install_file ip flags k =
     (case ofile_alloc (kpt k) of
        (None, _) \<Rightarrow> (- ENFILE, on_fs (fs_iput ip) k)
      | (Some j, s) \<Rightarrow>
          (case fd_alloc j (upd_ofile j (\<lambda>f. f\<lparr>of_inode := IPtr ip, of_offset := 0, of_flags := ucast flags\<rparr>) s) of
             (n, s1) \<Rightarrow>
               if n < 0 then (n, on_fs (fs_iput ip) (on_pt (\<lambda>_. upd_ofile j (\<lambda>f. f\<lparr>of_refcount := 0\<rparr>) s1) k))
               else (n, on_pt (\<lambda>_. s1) k)))"

definition sys_open :: "bytes \<Rightarrow> u32 \<Rightarrow> kern \<Rightarrow> int \<times> kern" where
  "sys_open path flags k =
     (case fs_namei (Some (cwd (kcur k))) path (kf k) of (found, s) \<Rightarrow>
      case (if found = None \<and> flags AND O_CREAT \<noteq> 0
            then fs_create (Some (cwd (kcur k))) path FT_FILE s else (found, s)) of
        (None, s1) \<Rightarrow> (if flags AND O_CREAT \<noteq> 0 then - EIO else - ENOENT, k\<lparr>kf := s1\<rparr>)
      | (Some ip, s1) \<Rightarrow>
          let k1 = k\<lparr>kf := s1\<rparr>;
              err = (if dev_node k1 ip \<and> node_major k1 ip < NDEV then dev_open (node_major k1 ip) (node_minor k1 ip) else 0)
          in if err < 0 then (err, on_fs (fs_iput ip) k1)
             else install_file ip flags
               (if flags AND O_TRUNC \<noteq> 0 \<and> itype (icache s1 ip) = FT_FILE
                then on_fs (\<lambda>s. fs_iupdate ip (upd_inode ip (\<lambda>i. i\<lparr>isize := 0, idirty := True\<rparr>) s)) k1
                else k1))"

definition sys_close :: "u32 \<Rightarrow> kern \<Rightarrow> int \<times> kern" where
  "sys_close n k = (case fd_file n k of None \<Rightarrow> (- EBADF, k) | Some _ \<Rightarrow> (0, close_fd (unat n) k))"

text \<open>How a read of a terminal, a device or a pipe goes on.\<close>

definition finish_tread :: "wait \<Rightarrow> u32 \<Rightarrow> tread \<times> tsys \<Rightarrow> kern \<Rightarrow> outcome \<times> kern" where
  "finish_tread w buf r k =
     (case r of (t, s) \<Rightarrow>
        let k1 = k\<lparr>kt := s\<rparr>
        in case t of
             Got bs \<Rightarrow> (Ret (int (length bs)), k1\<lparr>ram := store_bytes buf bs (ram k)\<rparr>)
           | Failed e \<Rightarrow> (Ret (- e), k1)
           | Asleep \<Rightarrow> (Sleeping w, k1)
           | Polling \<Rightarrow> (Spinning w, k1))"

definition tty_wait_point :: "u32 \<Rightarrow> int \<Rightarrow> kern \<Rightarrow> wait" where
  "tty_wait_point buf len k = InTtyRead (c_lflag (termios (ttys (kt k) 0)) AND ICANON \<noteq> 0) 0 buf len"

definition finish_pipe_read :: "nat \<Rightarrow> u32 \<Rightarrow> int \<Rightarrow> bytes option \<times> ptab \<Rightarrow> kern \<Rightarrow> outcome \<times> kern" where
  "finish_pipe_read p buf len r k =
     (case r of
        (None, s) \<Rightarrow> (Sleeping (InPipeRead p buf len), on_pt (\<lambda>_. s) k)
      | (Some bs, s) \<Rightarrow> (Ret (int (length bs)), on_pt (\<lambda>_. s) (k\<lparr>ram := store_bytes buf bs (ram k)\<rparr>)))"

definition finish_pipe_write :: "nat \<Rightarrow> u32 \<Rightarrow> int \<Rightarrow> int option \<times> ptab \<Rightarrow> kern \<Rightarrow> outcome \<times> kern" where
  "finish_pipe_write p buf len r k =
     (case r of
        (None, s) \<Rightarrow> (Sleeping (InPipeWrite p buf len), on_pt (\<lambda>_. s) k)
      | (Some n, s) \<Rightarrow> (Ret n, on_pt (\<lambda>_. s) k))"

definition user_src :: "kern \<Rightarrow> u32 \<Rightarrow> nat \<Rightarrow> u8" where
  "user_src k buf i = ram k (buf + of_nat i)"

definition sys_read :: "u32 \<Rightarrow> u32 \<Rightarrow> u32 \<Rightarrow> kern \<Rightarrow> outcome \<times> kern" where
  "sys_read n buf cnt k =
     (case fd_file n k of
        None \<Rightarrow> (Ret (- EBADF), k)
      | Some j \<Rightarrow>
          (case ofile_pipe (kfile k j) of
             Some p \<Rightarrow> finish_pipe_read p buf (sint cnt) (pipe_read p (sint cnt) (kpt k)) k
           | None \<Rightarrow>
               (case of_inode (kfile k j) of
                  INull \<Rightarrow>
                    if n < 3 then finish_tread (tty_wait_point buf (sint cnt) k) buf
                                    (dev_read DEV_CONSOLE 0 (sint cnt) (kt k)) k
                    else (Ret (- EBADF), k)
                | IPipe _ \<Rightarrow> (Fault, k)
                | IPtr ip \<Rightarrow>
                    if dev_node k ip
                    then (if node_major k ip < NDEV
                          then finish_tread (tty_wait_point buf (sint cnt) k) buf
                                 (dev_read (node_major k ip) (node_minor k ip) (sint cnt) (kt k)) k
                          else (Ret (- ENODEV), k))
                    else (case fs_read ip (unat (of_offset (kfile k j))) (unat cnt) (kf k) of (bs, s) \<Rightarrow>
                      (Ret (int (length bs)),
                       on_pt (upd_ofile j (\<lambda>f. f\<lparr>of_offset := of_offset f + of_nat (length bs)\<rparr>))
                         (k\<lparr>kf := s, ram := store_bytes buf bs (ram k)\<rparr>))))))"

text \<open>The file branch of \<open>sys_write\<close>.\<close>

definition write_file :: "nat \<Rightarrow> nat \<Rightarrow> u32 \<Rightarrow> u32 \<Rightarrow> kern \<Rightarrow> int \<times> kern" where
  "write_file j ip buf cnt k =
     (let k1 = (if of_flags (kfile k j) AND O_APPEND \<noteq> 0
                then on_pt (upd_ofile j (\<lambda>f. f\<lparr>of_offset := isize (icache (kf k) ip)\<rparr>)) k else k)
      in case fs_write ip (user_src k buf) (unat (of_offset (kfile k1 j))) (unat cnt) (kf k1) of (n, s) \<Rightarrow>
           (n, let k2 = k1\<lparr>kf := s\<rparr>
               in if n > 0 then on_pt (upd_ofile j (\<lambda>f. f\<lparr>of_offset := of_offset f + of_int n\<rparr>)) k2 else k2))"

definition sys_write :: "u32 \<Rightarrow> u32 \<Rightarrow> u32 \<Rightarrow> kern \<Rightarrow> outcome \<times> kern" where
  "sys_write n buf cnt k =
     (case fd_file n k of
        None \<Rightarrow> (Ret (- EBADF), k)
      | Some j \<Rightarrow>
          (case ofile_pipe (kfile k j) of
             Some p \<Rightarrow> finish_pipe_write p buf (sint cnt) (pipe_write p (user_src k buf) (sint cnt) (kpt k)) k
           | None \<Rightarrow>
               (case of_inode (kfile k j) of
                  INull \<Rightarrow>
                    if n < 3 then (case dev_write DEV_CONSOLE 0 (user_src k buf) (sint cnt) (kt k) of
                                     (r, s) \<Rightarrow> (Ret r, k\<lparr>kt := s\<rparr>))
                    else (Ret (- EBADF), k)
                | IPipe _ \<Rightarrow> (Fault, k)
                | IPtr ip \<Rightarrow>
                    if dev_node k ip
                    then (if node_major k ip < NDEV
                          then (case dev_write (node_major k ip) (node_minor k ip) (user_src k buf) (sint cnt) (kt k) of
                                  (r, s) \<Rightarrow> (Ret r, k\<lparr>kt := s\<rparr>))
                          else (Ret (- ENODEV), k))
                    else (case write_file j ip buf cnt k of (r, k1) \<Rightarrow> (Ret r, k1)))))"

text \<open>After \<open>schedule\<close> has come back to a sleeping or polling call.\<close>

definition resume_call :: "wait \<Rightarrow> kern \<Rightarrow> outcome \<times> kern" where
  "resume_call w k =
     (case w of
        InPipeRead p buf len \<Rightarrow> finish_pipe_read p buf len (pipe_read_resume p len (kpt k)) k
      | InPipeWrite p buf len \<Rightarrow> finish_pipe_write p buf len (pipe_write_resume p (user_src k buf) len (kpt k)) k
      | InTtyRead canon i buf len \<Rightarrow> finish_tread w buf (tty_read_resume canon i len (kt k)) k
      | InWaitpid wpid status options \<Rightarrow> do_waitpid wpid status options k)"

definition sys_lseek :: "u32 \<Rightarrow> u32 \<Rightarrow> u32 \<Rightarrow> kern \<Rightarrow> outcome \<times> kern" where
  "sys_lseek n offset whence k =
     (case fd_file n k of
        None \<Rightarrow> (Ret (- EBADF), k)
      | Some j \<Rightarrow>
          let f = kfile k j;
              seek = (\<lambda>new :: u32. if sint new < 0 then (Ret (- EINVAL), k)
                        else (Ret (sint new), on_pt (upd_ofile j (\<lambda>f. f\<lparr>of_offset := new\<rparr>)) k))
          in if whence = 0 then seek offset
             else if whence = 1 then seek (of_offset f + offset)
             else if whence = 2 then
               (case of_inode f of
                  INull \<Rightarrow> seek offset
                | IPtr ip \<Rightarrow> seek (isize (icache (kf k) ip) + offset)
                | IPipe _ \<Rightarrow> (Fault, k))
             else (Ret (- EINVAL), k))"

definition sys_dup :: "u32 \<Rightarrow> kern \<Rightarrow> int \<times> kern" where
  "sys_dup n k =
     (case fd_file n k of
        None \<Rightarrow> (- EBADF, k)
      | Some j \<Rightarrow> (case fd_alloc j (upd_ofile j (\<lambda>f. f\<lparr>of_refcount := of_refcount f + 1\<rparr>) (kpt k)) of
          (r, s) \<Rightarrow> (r, on_pt (\<lambda>_. s) k)))"

text \<open>With equal descriptors the open file has become NULL when it is read again.\<close>

definition sys_dup2 :: "u32 \<Rightarrow> u32 \<Rightarrow> kern \<Rightarrow> outcome \<times> kern" where
  "sys_dup2 oldfd newfd k =
     (if fd_file oldfd k = None \<or> newfd \<ge> of_nat MAXFD then (Ret (- EBADF), k)
      else let k1 = (if fd (kcur k) (unat newfd) \<noteq> None then snd (sys_close newfd k) else k)
           in case fd_file oldfd k1 of
                None \<Rightarrow> (Fault, k1)
              | Some j \<Rightarrow> (Ret (int (unat newfd)),
                  upd_cur (\<lambda>p. p\<lparr>fd := (fd p)(unat newfd := Some j)\<rparr>)
                    (on_pt (upd_ofile j (\<lambda>f. f\<lparr>of_refcount := of_refcount f + 1\<rparr>)) k1)))"

section \<open>Signals\<close>

text \<open>
  \<open>frame\<close> is the offset of the saved user state in the kernel stack of the current process:
  the user stack pointer, 15 registers, SR and PC, 70 bytes.
\<close>

abbreviation (input) SIG_FRAME_SIZE :: u32 where "SIG_FRAME_SIZE \<equiv> 84"
abbreviation (input) SIG_FRAME_SAVED :: u32 where "SIG_FRAME_SAVED \<equiv> 12"
abbreviation (input) KFRAME_SIZE :: nat where "KFRAME_SIZE \<equiv> 70"

datatype sigres = Delivered | StoppedBefore "nat list" | Ended outcome

definition frame_bytes :: "proc \<Rightarrow> nat \<Rightarrow> bytes" where
  "frame_bytes p frame = map (\<lambda>i. kstack p (frame + i)) [0..<KFRAME_SIZE]"

definition push_handler :: "nat \<Rightarrow> u32 \<Rightarrow> nat \<Rightarrow> kern \<Rightarrow> kern" where
  "push_handler sig handler frame k =
     (let usp = get32 (kstack (kcur k)) frame;
          sf = (usp - SIG_FRAME_SIZE) AND NOT 1;
          m1 = put32 (put32 (ram k) sf (sf + 8)) (sf + 4) (of_nat sig);
          m2 = put16 (put16 m1 (sf + 8) 0x7077) (sf + 10) 0x4E40;
          m3 = store_bytes (sf + SIG_FRAME_SAVED) (frame_bytes (kcur k) frame) m2
      in upd_cur (\<lambda>p. p\<lparr>kstack := put32 (put32 (kstack p) frame sf) (frame + 66) handler,
           sig_handler := (sig_handler p)(sig := SIG_DFL)\<rparr>) (k\<lparr>ram := m3\<rparr>))"

primrec sig_loop :: "nat list \<Rightarrow> nat \<Rightarrow> kern \<Rightarrow> sigres \<times> kern" where
  "sig_loop [] frame k = (Delivered, k)"
| "sig_loop (sig # sigs) frame k =
     (if sig_pending (kcur k) AND push_bit sig 1 = 0 then sig_loop sigs frame k
      else let k1 = upd_cur (\<lambda>p. p\<lparr>sig_pending := sig_pending p AND NOT (push_bit sig 1)\<rparr>) k;
               handler = sig_handler (kcur k1) sig;
               stop = (StoppedBefore sigs, upd_cur (\<lambda>p. p\<lparr>pstate := P_STOPPED\<rparr>) k1);
               end_it = (case do_exit (128 + int sig) k1 of (r, k2) \<Rightarrow> (Ended r, k2))
           in if sig = SIGKILL then end_it
              else if sig = SIGSTOP then stop
              else if handler = SIG_IGN then sig_loop sigs frame k1
              else if handler = SIG_DFL
              then (if sig = SIGCHLD \<or> sig = SIGCONT then sig_loop sigs frame k1
                    else if sig = SIGTSTP then stop else end_it)
              else (Delivered, push_handler sig handler frame k1))"

definition sig_deliver :: "nat \<Rightarrow> kern \<Rightarrow> sigres \<times> kern" where
  "sig_deliver frame k =
     (if sig_pending (kcur k) = 0 then (Delivered, k) else sig_loop [1..<NSIG] frame k)"

definition sys_sigreturn :: "nat \<Rightarrow> kern \<Rightarrow> kern" where
  "sys_sigreturn frame k =
     (let sf = get32 (kstack (kcur k)) frame - 4
      in upd_cur (\<lambda>p. p\<lparr>kstack := (\<lambda>i. if frame \<le> i \<and> i < frame + KFRAME_SIZE
              then ram k (sf + SIG_FRAME_SAVED + of_nat (i - frame)) else kstack p i)\<rparr>) k)"

definition sys_signal :: "u32 \<Rightarrow> u32 \<Rightarrow> kern \<Rightarrow> int \<times> kern" where
  "sys_signal signum handler k =
     (let n = sint signum
      in if n < 1 \<or> n \<ge> int NSIG then (- EINVAL, k)
         else if n = int SIGKILL \<or> n = int SIGSTOP then (- EINVAL, k)
         else (sint (sig_handler (kcur k) (nat n)), upd_cur (\<lambda>p. p\<lparr>sig_handler := (sig_handler p)(nat n := handler)\<rparr>) k))"

definition sys_kill :: "u32 \<Rightarrow> u32 \<Rightarrow> kern \<Rightarrow> int \<times> kern" where
  "sys_kill target sig k =
     (let n = sint sig
      in if n < 0 \<or> n \<ge> int NSIG then (- EINVAL, k)
         else if n = 0 then (0, k)
         else case first_idx (\<lambda>i. pstate (proctab (kpt k) i) \<noteq> P_FREE \<and>
                    pid (proctab (kpt k) i) = unat (ucast target :: u8)) MAXPROC of
           None \<Rightarrow> (- ESRCH, k)
         | Some i \<Rightarrow>
             let s1 = raise_sig i (nat n) (kpt k);
                 s2 = (if n = int SIGCONT \<and> pstate (proctab s1 i) = P_STOPPED
                       then upd_proc i (\<lambda>p. p\<lparr>pstate := P_READY, sig_pending :=
                              sig_pending p AND NOT (push_bit SIGSTOP 1 OR push_bit SIGTSTP 1)\<rparr>) s1
                       else s1)
             in (0, on_pt (\<lambda>_. wake_proc i s2) k))"

section \<open>The working directory\<close>

text \<open>
  \<open>getcwd\<close>: the names from the current directory upwards, at most eight. Walking from a
  directory to its parent need not find a name, so the loop has no bound of its own.
\<close>

definition parent_inum :: "nat \<Rightarrow> fsys \<Rightarrow> u16 \<times> fsys" where
  "parent_inum ip s =
     (case dir_scan (\<lambda>de. de_inode de \<noteq> 0 \<and> lstrcmp (cstring (de_name de)) [46, 46] = 0) ip 0 s of
        (Some (_, de), s1) \<Rightarrow> (de_inode de, s1)
      | (None, s1) \<Rightarrow> (1, s1))"

definition child_name :: "u16 \<Rightarrow> nat \<Rightarrow> fsys \<Rightarrow> bytes option \<times> fsys" where
  "child_name child ip s =
     (case dir_scan (\<lambda>de. de_inode de = child \<and> lstrcmp (cstring (de_name de)) [46] \<noteq> 0 \<and>
                lstrcmp (cstring (de_name de)) [46, 46] \<noteq> 0) ip 0 s of
        (Some (_, de), s1) \<Rightarrow> (Some (cstring (de_name de)), s1)
      | (None, s1) \<Rightarrow> (None, s1))"

partial_function (option) cwd_names :: "u16 \<Rightarrow> bytes list \<Rightarrow> fsys \<Rightarrow> (bytes list \<times> fsys) option" where
  "cwd_names child names s =
     (if child = 1 \<or> length names \<ge> 8 then Some (names, s)
      else case fs_iget child s of
        (None, s1) \<Rightarrow> Some (names, s1)
      | (Some ip, s1) \<Rightarrow>
          (case parent_inum ip s1 of (parent, s2) \<Rightarrow>
           let s3 = fs_iput ip s2
           in if parent = child then Some (names, s3)
              else case fs_iget parent s3 of
                (None, s4) \<Rightarrow> Some (names, s4)
              | (Some dp, s4) \<Rightarrow>
                  (case child_name child dp s4 of (nm, s5) \<Rightarrow>
                   cwd_names parent (case nm of None \<Rightarrow> names | Some n \<Rightarrow> n # names) (fs_iput dp s5))))"

primrec put_path :: "bytes list \<Rightarrow> u32 \<Rightarrow> u32 \<Rightarrow> u32 \<Rightarrow> memory \<Rightarrow> int \<times> memory" where
  "put_path [] buf bufsize pos m = (sint buf, m(buf + pos := 0))"
| "put_path (n # ns) buf bufsize pos m =
     (if pos + 1 \<ge> bufsize then (- ERANGE, m)
      else let m1 = m(buf + pos := SLASH); pos1 = pos + 1; nlen = of_nat (length n)
           in if pos1 + nlen \<ge> bufsize then (- ERANGE, m1)
              else put_path ns buf bufsize (pos1 + nlen) (store_bytes (buf + pos1) n m1))"

definition sys_getcwd :: "u32 \<Rightarrow> u32 \<Rightarrow> kern \<Rightarrow> (int \<times> kern) option" where
  "sys_getcwd buf bufsize k =
     (let root = (\<lambda>k. (sint buf, k\<lparr>ram := (ram k)(buf := SLASH, buf + 1 := 0)\<rparr>))
      in if buf = 0 \<or> bufsize < 2 then Some (- EINVAL, k)
         else if cwd (kcur k) = 1 then Some (root k)
         else Option.bind (cwd_names (cwd (kcur k)) [] (kf k)) (\<lambda>(names, s).
           let k1 = k\<lparr>kf := s\<rparr>
           in Some (if names = [] then root k1
                    else case put_path names buf bufsize 0 (ram k1) of (r, m) \<Rightarrow> (r, k1\<lparr>ram := m\<rparr>))))"

section \<open>Memory information\<close>

text \<open>A \<open>struct region_info\<close> of 24 bytes, and the table of 16 after seven words.\<close>

definition put_region :: "u32 \<Rightarrow> u8 \<times> nat \<times> u32 \<times> u32 \<times> u32 \<times> u32 \<times> u32 \<Rightarrow> memory \<Rightarrow> memory" where
  "put_region a r m =
     (case r of (used, owner, base, sz, text, data, brk1) \<Rightarrow>
        put32 (put32 (put32 (put32 (put32 (put16 (m(a := used, a + 1 := of_nat owner)) (a + 2) 0)
          (a + 4) base) (a + 8) sz) (a + 12) text) (a + 16) data) (a + 20) brk1)"

definition region_rows :: "ptab \<Rightarrow> (u8 \<times> nat \<times> u32 \<times> u32 \<times> u32 \<times> u32 \<times> u32) list" where
  "region_rows s =
     (let live = filter (\<lambda>p. \<not> (pstate p = P_FREE \<or> mem_base p = 0)) (map (proctab s) [0..<MAXPROC]);
          rows = map (\<lambda>p. (1, pid p, mem_base p, mem_size p, text_size p, data_bss p, brk p)) live
      in rows @ replicate (16 - length rows) (0, 0, 0, 0, 0, 0, 0))"

definition sys_meminfo :: "u32 \<Rightarrow> kern \<Rightarrow> (int \<times> kern) option" where
  "sys_meminfo info k =
     (if info = 0 then Some (- EINVAL, k)
      else Option.bind (kmem_stats (kheap k)) (\<lambda>(total, free, largest).
        case umem_stats (kpool k) (kpt k) of (ufree, ularg) \<Rightarrow>
        let words = [total, free, largest, umem_base (kpool k), umem_top (kpool k), ufree, ularg];
            m1 = fold (\<lambda>i m. put32 m (info + 4 * of_nat i) (words ! i)) [0..<7] (ram k);
            rows = region_rows (kpt k)
        in Some (0, k\<lparr>ram := fold (\<lambda>i m. put_region (info + 28 + 24 * of_nat i) (rows ! i) m) [0..<16] m1\<rparr>)))"

section \<open>The dispatcher\<close>

definition stat_bytes :: "posix_stat \<Rightarrow> bytes" where
  "stat_bytes st =
     concat (map (\<lambda>w. [ucast (drop_bit 8 w), ucast w])
       [st_dev st, st_ino st, st_mode st, st_nlink st, st_uid st, st_gid st, st_rdev st, st_pad st]) @
     concat (map (\<lambda>w. [ucast (drop_bit 24 w), ucast (drop_bit 16 w), ucast (drop_bit 8 w), ucast w])
       [st_size st, st_atime st, st_mtime st, st_ctime st])"

text \<open>A NULL-terminated array of pointers to strings.\<close>

partial_function (option) user_argv :: "memory \<Rightarrow> u32 \<Rightarrow> bytes list option" where
  "user_argv m a =
     (if get32 m a = 0 then Some []
      else Option.bind (user_string m (get32 m a)) (\<lambda>s. Option.bind (user_argv m (a + 4)) (\<lambda>ss. Some (s # ss))))"

definition sys_chdir :: "bytes \<Rightarrow> kern \<Rightarrow> int \<times> kern" where
  "sys_chdir path k =
     (case fs_namei (Some (cwd (kcur k))) path (kf k) of
        (None, s) \<Rightarrow> (- ENOENT, k\<lparr>kf := s\<rparr>)
      | (Some ip, s) \<Rightarrow>
          if itype (icache s ip) \<noteq> FT_DIR then (- ENOTDIR, k\<lparr>kf := fs_iput ip s\<rparr>)
          else (0, upd_cur (\<lambda>p. p\<lparr>cwd := inum (icache s ip)\<rparr>) (k\<lparr>kf := fs_iput ip s\<rparr>)))"

definition sys_stat :: "bytes \<Rightarrow> u32 \<Rightarrow> kern \<Rightarrow> int \<times> kern" where
  "sys_stat path buf k =
     (case fs_namei (Some (cwd (kcur k))) path (kf k) of
        (None, s) \<Rightarrow> (- ENOENT, k\<lparr>kf := s\<rparr>)
      | (Some ip, s) \<Rightarrow> (0, k\<lparr>kf := fs_iput ip s, ram := store_bytes buf (stat_bytes (fs_stat ip s)) (ram k)\<rparr>))"

definition sys_fstat :: "u32 \<Rightarrow> u32 \<Rightarrow> kern \<Rightarrow> outcome \<times> kern" where
  "sys_fstat n buf k =
     (case fd_file n k of
        None \<Rightarrow> (Ret (- EBADF), k)
      | Some j \<Rightarrow>
          (case of_inode (kfile k j) of
             INull \<Rightarrow> (Ret (- EBADF), k)
           | IPipe _ \<Rightarrow> (Fault, k)
           | IPtr ip \<Rightarrow> (Ret 0, k\<lparr>ram := store_bytes buf (stat_bytes (fs_stat ip (kf k))) (ram k)\<rparr>)))"

definition sys_ioctl :: "u32 \<Rightarrow> u32 \<Rightarrow> u32 \<Rightarrow> kern \<Rightarrow> outcome \<times> kern" where
  "sys_ioctl n cmd arg k =
     (let call = (\<lambda>major minor. case dev_ioctl major minor cmd arg (ram k, kt k) of
                     (r, m, s) \<Rightarrow> (Ret r, k\<lparr>ram := m, kt := s\<rparr>))
      in case fd_file n k of
           None \<Rightarrow> (Ret (- EBADF), k)
         | Some j \<Rightarrow>
             (case of_inode (kfile k j) of
                INull \<Rightarrow> if n < 3 then call DEV_CONSOLE 0 else (Ret (- ENOTTY), k)
              | IPipe _ \<Rightarrow> (Fault, k)
              | IPtr ip \<Rightarrow> if dev_node k ip \<and> node_major k ip < NDEV
                            then call (node_major k ip) (node_minor k ip) else (Ret (- ENOTTY), k)))"

definition sys_fcntl :: "u32 \<Rightarrow> u32 \<Rightarrow> u32 \<Rightarrow> kern \<Rightarrow> int \<times> kern" where
  "sys_fcntl n cmd arg k =
     (case fd_file n k of
        None \<Rightarrow> (- EBADF, k)
      | Some j \<Rightarrow>
          if cmd = 0
          then (if arg \<ge> of_nat MAXFD then (- EINVAL, k)
                else case fd_alloc_from j (unat arg) (upd_ofile j (\<lambda>f. f\<lparr>of_refcount := of_refcount f + 1\<rparr>) (kpt k)) of
                  (r, s) \<Rightarrow> (r, on_pt (\<lambda>_. if r < 0 then upd_ofile j (\<lambda>f. f\<lparr>of_refcount := of_refcount f - 1\<rparr>) s else s) k))
          else if cmd = 1 then (uint (fd_flags (kcur k) (unat n)), k)
          else if cmd = 2 then (0, upd_cur (\<lambda>p. p\<lparr>fd_flags := (fd_flags p)(unat n := ucast (arg AND 1))\<rparr>) k)
          else if cmd = 3 then (uint (of_flags (kfile k j) AND 0x0FFF), k)
          else if cmd = 4 then (0, k)
          else (- EINVAL, k))"

definition sys_getdents :: "u32 \<Rightarrow> u32 \<Rightarrow> u32 \<Rightarrow> kern \<Rightarrow> outcome \<times> kern" where
  "sys_getdents n buf cnt k =
     (case fd_file n k of
        None \<Rightarrow> (Ret (- EBADF), k)
      | Some j \<Rightarrow>
          (case of_inode (kfile k j) of
             INull \<Rightarrow> (Ret (- EBADF), k)
           | IPipe _ \<Rightarrow> (Fault, k)
           | IPtr ip \<Rightarrow>
               (case fs_getdents ip (unat (of_offset (kfile k j))) (unat cnt) (kf k) of
                  (Inl e, s) \<Rightarrow> (Ret e, k\<lparr>kf := s\<rparr>)
                | (Inr bs, s) \<Rightarrow>
                    (Ret (int (length bs)),
                     on_pt (upd_ofile j (\<lambda>f. f\<lparr>of_offset := of_offset f + of_nat (length bs)\<rparr>))
                       (k\<lparr>kf := s, ram := store_bytes buf bs (ram k)\<rparr>)))))"

text \<open>\<open>do_pipe\<close> with its result stored through \<open>fds\<close>.\<close>

definition sys_pipe :: "u32 \<Rightarrow> kern \<Rightarrow> int \<times> kern" where
  "sys_pipe fds k =
     (case do_pipe (kpt k) of
        (Inl e, s) \<Rightarrow> (e, on_pt (\<lambda>_. s) k)
      | (Inr (r, w), s) \<Rightarrow>
          (0, on_pt (\<lambda>_. s) (k\<lparr>ram := put32 (put32 (ram k) fds (of_int r)) (fds + 4) (of_int w)\<rparr>)))"

definition ret_of :: "int \<times> kern \<Rightarrow> outcome \<times> kern" where
  "ret_of r = (Ret (fst r), snd r)"

definition with_path :: "u32 \<Rightarrow> (bytes \<Rightarrow> kern \<Rightarrow> outcome \<times> kern) \<Rightarrow> kern \<Rightarrow> (outcome \<times> kern) option" where
  "with_path a f k = Option.bind (user_string (ram k) a) (\<lambda>path. Some (f path k))"

definition fs_call :: "(u16 option \<Rightarrow> bytes \<Rightarrow> fsys \<Rightarrow> int \<times> fsys) \<Rightarrow> bytes \<Rightarrow> kern \<Rightarrow> outcome \<times> kern" where
  "fs_call f path k = (case f (Some (cwd (kcur k))) path (kf k) of (r, s) \<Rightarrow> (Ret r, k\<lparr>kf := s\<rparr>))"

text \<open>The arguments of \<open>exec\<close>: a NULL vector is no vector.\<close>

definition sys_exec :: "u32 \<Rightarrow> u32 \<Rightarrow> u32 \<Rightarrow> kern \<Rightarrow> (outcome \<times> kern) option" where
  "sys_exec first_run path argv k =
     Option.bind (user_string (ram k) path) (\<lambda>p.
       if argv = 0 then Some (do_exec first_run p None k)
       else Option.bind (user_argv (ram k) argv) (\<lambda>as. Some (do_exec first_run p (Some as) k)))"

definition sys_rename :: "u32 \<Rightarrow> u32 \<Rightarrow> kern \<Rightarrow> (outcome \<times> kern) option" where
  "sys_rename a b k =
     Option.bind (user_string (ram k) a) (\<lambda>p. with_path b (\<lambda>q. fs_call (\<lambda>c p s. fs_rename c p q s) p) k)"

definition syscall_dispatch ::
    "u32 \<Rightarrow> (nat \<Rightarrow> u32) \<Rightarrow> u32 \<Rightarrow> u32 \<Rightarrow> u32 \<Rightarrow> u32 \<Rightarrow> u32 \<Rightarrow> kern \<Rightarrow> (outcome \<times> kern) option" where
  "syscall_dispatch first_run regs num a1 a2 a3 a4 k =
     (if num = 1 then Some (do_exit (sint a1) k)
      else if num = 3 then Some (sys_read a1 a2 a3 k)
      else if num = 4 then Some (sys_write a1 a2 a3 k)
      else if num = 5 then with_path a1 (\<lambda>p k. ret_of (sys_open p a2 k)) k
      else if num = 6 then Some (ret_of (sys_close a1 k))
      else if num = 19 then Some (sys_lseek a1 a2 a3 k)
      else if num = 20 then Some (Ret (int (pid (kcur k))), k)
      else if num = 45 \<or> num = 69
      then Some (case sbrk_proc a1 (kpt k) of (r, s) \<Rightarrow> (Ret (sint r), on_pt (\<lambda>_. s) k))
      else if num = 11 then sys_exec first_run a1 a2 k
      else if num = 7 then Some (do_waitpid (sint a1) a2 a3 k)
      else if num = 190 then Some (do_vfork regs k)
      else if num = 41 then Some (ret_of (sys_dup a1 k))
      else if num = 63 then Some (sys_dup2 a1 a2 k)
      else if num = 12 then with_path a1 (\<lambda>p k. ret_of (sys_chdir p k)) k
      else if num = 39 then with_path a1 (fs_call fs_mkdir) k
      else if num = 40 then with_path a1 (fs_call fs_rmdir) k
      else if num = 10 then with_path a1 (fs_call fs_unlink) k
      else if num = 38 then sys_rename a1 a2 k
      else if num = 106 then with_path a1 (\<lambda>p k. ret_of (sys_stat p a2 k)) k
      else if num = 108 then Some (sys_fstat a1 a2 k)
      else if num = 54 then Some (sys_ioctl a1 a2 a3 k)
      else if num = 48 then Some (ret_of (sys_signal a1 a2 k))
      else if num = 37 then Some (ret_of (sys_kill a1 a2 k))
      else if num = 55 then Some (ret_of (sys_fcntl a1 a2 a3 k))
      else if num = 141 then Some (sys_getdents a1 a2 a3 k)
      else if num = 79 then map_option ret_of (sys_getcwd a1 a2 k)
      else if num = 42 then Some (ret_of (sys_pipe a1 k))
      else if num = 13 then Some (Ret (sint (ticks (kf k))), k)
      else if num = 200 then map_option ret_of (sys_meminfo a1 k)
      else Some (Ret (- ENOSYS), k))"

end
