(* ===== verification/Fd_Refs.thy ===== *)
theory Fd_Refs
  imports Syscalls Tty_Discipline
begin

text \<open>
  Reference counts of open files. Every open file counts the descriptors, of all processes, that
  refer to it (modulo 256, the count is a byte). This theory defines the count and shows that the
  life of a process (exit, wait, vfork, spawn, exec) keeps it exact; Fd_Counts does it for the
  system calls and for whole runs.
\<close>

section \<open>Counting\<close>

definition fds_of :: "proc \<Rightarrow> nat \<Rightarrow> nat" where
  "fds_of p j = (\<Sum>n < MAXFD. of_bool (fd p n = Some j))"

definition refs :: "ptab \<Rightarrow> nat \<Rightarrow> nat" where
  "refs s j = (\<Sum>p < MAXPROC. fds_of (proctab s p) j)"

definition dead :: "proc \<Rightarrow> bool" where
  "dead p \<longleftrightarrow> pstate p = P_FREE \<or> pstate p = P_ZOMBIE"

definition fds_wf :: "ptab \<Rightarrow> bool" where
  "fds_wf s \<longleftrightarrow> pids_ok s \<and> next_pid s < MAXPROC \<and>
     (\<forall>p < MAXPROC. \<forall>n < MAXFD. dead (proctab s p) \<longrightarrow> fd (proctab s p) n = None)"

text \<open>
  The count of an open file is the number of descriptors that refer to it and of the references
  \<open>L\<close> that were counted for a descriptor that does not exist: a failing \<open>dup\<close> leaves such a one.
\<close>

definition count_ok_with :: "(nat \<Rightarrow> nat) \<Rightarrow> ptab \<Rightarrow> bool" where
  "count_ok_with L s \<longleftrightarrow> (\<forall>j. of_refcount (ofile_table s j) = of_nat (refs s j + L j))"

definition counted_with :: "(nat \<Rightarrow> nat) \<Rightarrow> ptab \<Rightarrow> bool" where
  "counted_with L s \<longleftrightarrow> fds_wf s \<and> count_ok_with L s"

text \<open>No reference lost: the counts are exact.\<close>

abbreviation counted :: "ptab \<Rightarrow> bool" where
  "counted \<equiv> counted_with (\<lambda>_. 0)"

lemma counted_exact: "counted s \<longleftrightarrow> fds_wf s \<and> (\<forall>j. of_refcount (ofile_table s j) = of_nat (refs s j))"
  by (simp add: counted_with_def count_ok_with_def)

lemma sum_swap_one:
  fixes f g :: "nat \<Rightarrow> nat"
  assumes "i < m" and "\<And>k. k \<noteq> i \<Longrightarrow> g k = f k"
  shows "(\<Sum>k < m. g k) + f i = (\<Sum>k < m. f k) + g i"
proof -
  have "sum g ({..<m} - {i}) = sum f ({..<m} - {i})" by (rule sum.cong) (auto simp: assms(2))
  then show ?thesis
    using sum.remove [of "{..<m}" i g] sum.remove [of "{..<m}" i f] assms(1) by simp
qed

lemma fds_of_cong: "(\<And>n. n < MAXFD \<Longrightarrow> fd p n = fd q n) \<Longrightarrow> fds_of p j = fds_of q j"
  by (simp add: fds_of_def cong: sum.cong_simp)

lemma fds_of_none: "(\<And>n. n < MAXFD \<Longrightarrow> fd p n = None) \<Longrightarrow> fds_of p j = 0"
  by (simp add: fds_of_def)

lemma fds_of_set:
  assumes "n < MAXFD" and "fd q = (fd p)(n := v)"
  shows "fds_of q j + of_bool (fd p n = Some j) = fds_of p j + of_bool (v = Some j)"
  using sum_swap_one [of n 16 "\<lambda>n. of_bool (fd q n = Some j)" "\<lambda>n. of_bool (fd p n = Some j)"] assms
  by (simp add: fds_of_def)

lemma refs_set:
  assumes "i < MAXPROC" and "proctab t = (proctab s)(i := q)"
  shows "refs t j + fds_of (proctab s i) j = refs s j + fds_of q j"
  using sum_swap_one [of i 16 "\<lambda>p. fds_of (proctab t p) j" "\<lambda>p. fds_of (proctab s p) j"] assms
  by (simp add: refs_def)

lemma refs_cong: "(\<And>p n. p < MAXPROC \<Longrightarrow> n < MAXFD \<Longrightarrow> fd (proctab s p) n = fd (proctab t p) n) \<Longrightarrow> refs s j = refs t j"
  unfolding refs_def by (rule sum.cong) (auto intro: fds_of_cong)

lemma refs_set_fd:
  assumes "i < MAXPROC" and "n < MAXFD" and "proctab t = (proctab s)(i := q)"
    and "fd q = (fd (proctab s i))(n := v)"
  shows "refs t j + of_bool (fd (proctab s i) n = Some j) = refs s j + of_bool (v = Some j)"
  using refs_set [OF assms(1,3), of j] fds_of_set [OF assms(2,4), of j] by simp

section \<open>Steps that change no descriptor\<close>

named_theorems same_files

definition files_same :: "ptab \<Rightarrow> ptab \<Rightarrow> bool" where
  "files_same s t \<longleftrightarrow>
     (\<forall>p. fd (proctab t p) = fd (proctab s p) \<and> pid (proctab t p) = pid (proctab s p) \<and>
        (dead (proctab t p) \<longrightarrow> dead (proctab s p))) \<and>
     (\<forall>j. of_refcount (ofile_table t j) = of_refcount (ofile_table s j)) \<and>
     curproc t = curproc s \<and> next_pid t = next_pid s"

lemma files_same_refl [same_files]: "files_same s s"
  by (simp add: files_same_def)

lemma files_same_refs: "files_same s t \<Longrightarrow> refs t j = refs s j"
  by (rule refs_cong) (simp add: files_same_def)

lemma files_same_count_ok: "files_same s t \<Longrightarrow> count_ok_with L s \<Longrightarrow> count_ok_with L t"
  by (simp add: count_ok_with_def files_same_refs) (simp add: files_same_def)

lemma files_same_counted: "files_same s t \<Longrightarrow> counted_with L s \<Longrightarrow> counted_with L t"
  using files_same_count_ok [of s t L] by (simp add: counted_with_def fds_wf_def pids_ok_def files_same_def)

lemma files_same_proc [same_files]:
  "files_same s t \<Longrightarrow> \<forall>p. fd (f p) = fd p \<and> pid (f p) = pid p \<and> (dead (f p) \<longrightarrow> dead p) \<Longrightarrow>
     files_same s (upd_proc i f t)"
  by (auto simp: files_same_def)

lemma files_same_ofile [same_files]:
  "files_same s t \<Longrightarrow> (\<And>x. of_refcount (f x) = of_refcount x) \<Longrightarrow> files_same s (upd_ofile i f t)"
  by (auto simp: files_same_def)

lemma files_same_pipe [same_files]: "files_same s t \<Longrightarrow> files_same s (upd_pipe i f t)"
  by (auto simp: files_same_def)

lemma files_same_wake [same_files]: "files_same s t \<Longrightarrow> files_same s (wake_proc i t)"
  by (auto simp: files_same_def wake_proc_def dead_def)

lemma files_same_wake_writer [same_files]: "files_same s t \<Longrightarrow> files_same s (wake_writer i t)"
  by (simp add: wake_writer_def Let_def same_files)

lemma files_same_wake_reader [same_files]: "files_same s t \<Longrightarrow> files_same s (wake_reader i t)"
  by (simp add: wake_reader_def Let_def same_files)

lemma files_same_sleep [same_files]: "files_same s t \<Longrightarrow> files_same s (sleep_cur t)"
  by (auto simp: files_same_def sleep_cur_def dead_def)

lemma files_same_raise [same_files]: "files_same s t \<Longrightarrow> files_same s (raise_sig i sig t)"
  by (simp add: raise_sig_def same_files dead_def)

lemma files_same_close_read [same_files]: "files_same s t \<Longrightarrow> files_same s (pipe_close_read i t)"
  by (simp add: pipe_close_read_def Let_def same_files)

lemma files_same_close_write [same_files]: "files_same s t \<Longrightarrow> files_same s (pipe_close_write i t)"
  by (simp add: pipe_close_write_def Let_def same_files)

lemma files_same_pipe_read [same_files]: "files_same s t \<Longrightarrow> files_same s (snd (pipe_read i len t))"
  by (simp add: pipe_read_def Let_def same_files split: prod.split)

lemma files_same_pipe_write_wait [same_files]: "files_same s t \<Longrightarrow> files_same s (snd (pipe_write_wait i src len t))"
  by (simp add: pipe_write_wait_def Let_def same_files split: prod.split)

lemma files_same_pipe_write [same_files]: "files_same s t \<Longrightarrow> files_same s (snd (pipe_write i src len t))"
  by (simp add: pipe_write_def same_files)

lemma files_same_sbrk [same_files]: "files_same s t \<Longrightarrow> files_same s (snd (sbrk_proc i t))"
  by (simp add: sbrk_proc_def Let_def same_files dead_def)

subsection \<open>Terminals\<close>

lemma files_same_tty_wake [same_files]: "files_same s (pt x) \<Longrightarrow> files_same s (pt (tty_wake_reader i x))"
  by (simp add: tty_wake_reader_def Let_def same_files)

lemma files_same_sig_input [same_files]: "files_same s (pt x) \<Longrightarrow> files_same s (pt (sig_input i sig c l x))"
  by (simp add: sig_input_def tty_signal_def Let_def same_files)

lemma files_same_canon_input [same_files]: "files_same s (pt x) \<Longrightarrow> files_same s (pt (canon_input i c l x))"
  by (simp add: canon_input_def Let_def same_files)

lemma files_same_inproc [same_files]: "files_same s (pt x) \<Longrightarrow> files_same s (pt (tty_inproc i c x))"
  by (simp add: tty_inproc_def Let_def same_files split: option.split)

lemma files_same_tty_wait: "files_same s (pt x) \<Longrightarrow> files_same s (pt (snd (tty_wait fuel canon i len x)))"
proof (induction fuel arbitrary: x)
  case (Suc fuel)
  then show ?case
    by (auto simp: finish_read_def same_files split: list.split prod.split)
qed simp

lemma files_same_tty_read [same_files]: "files_same s (pt x) \<Longrightarrow> files_same s (pt (snd (tty_read i len x)))"
  by (simp add: tty_read_def files_same_tty_wait del: tty_wait.simps)

lemma files_same_tty_resume [same_files]:
  "files_same s (pt x) \<Longrightarrow> files_same s (pt (snd (tty_read_resume canon i len x)))"
  by (simp add: tty_read_resume_def Let_def files_same_tty_wait del: tty_wait.simps)

lemma fold_pt: "(\<And>j s. pt (g j s) = pt s) \<Longrightarrow> pt (fold g js s) = pt s"
  by (induction js arbitrary: s) simp_all

lemma tty_write_pt [simp]: "pt (snd (tty_write i src len s)) = pt s"
  by (simp add: tty_write_def Let_def pal_console_putc_def fold_pt)

lemma tty_ioctl_pt [simp]: "pt (snd (snd (tty_ioctl i cmd arg (m, s)))) = pt s"
  by (simp add: tty_ioctl_def Let_def)

lemma files_same_dev_read [same_files]: "files_same s (pt x) \<Longrightarrow> files_same s (pt (snd (dev_read major minor len x)))"
  by (simp add: dev_read_def con_read_def Let_def same_files)

lemma dev_write_pt [simp]: "pt (snd (dev_write major minor src len s)) = pt s"
  by (simp add: dev_write_def con_write_def)

lemma dev_ioctl_pt [simp]: "pt (snd (snd (dev_ioctl major minor cmd arg (m, s)))) = pt s"
  by (simp add: dev_ioctl_def con_ioctl_def)

subsection \<open>Loading\<close>

lemma files_same_cur [same_files]:
  "files_same s (kpt k) \<Longrightarrow> \<forall>p. fd (f p) = fd p \<and> pid (f p) = pid p \<and> (dead (f p) \<longrightarrow> dead p) \<Longrightarrow>
     files_same s (kpt (upd_cur f k))"
  by (simp add: same_files)

lemma read_intoD: "read_into i a off n k = (r, k1) \<Longrightarrow> kt k1 = kt k"
  by (auto simp: read_into_def split: prod.splits)

lemma open_programD: "open_program path k = (r, k1) \<Longrightarrow> kt k1 = kt k"
  by (auto simp: open_program_def split: prod.splits option.splits if_splits)

lemma load_imageD: "load_image ip h a k = (r, k1) \<Longrightarrow> kt k1 = kt k"
  by (auto simp: load_image_def Let_def dest!: read_intoD split: prod.splits if_splits)

lemma load_dataD: "load_data ip h ta da k = (r, k1) \<Longrightarrow> kt k1 = kt k"
  by (auto simp: load_data_def Let_def dest!: read_intoD split: prod.splits if_splits)

text \<open>A loader changes the process table only in the memory fields of the current process.\<close>

definition loads :: "ptab \<Rightarrow> ptab \<Rightarrow> bool" where
  "loads s t \<longleftrightarrow> (\<exists>f. t = upd_proc (curproc s) f s \<and>
     (\<forall>p. fd (f p) = fd p \<and> pid (f p) = pid p \<and> ppid (f p) = ppid p \<and> pstate (f p) = pstate p))"

lemma loads_refl: "loads s s"
  unfolding loads_def by (rule exI [of _ "\<lambda>p. p"]) (simp add: upd_proc_def)

lemma loads_trans: "loads s t \<Longrightarrow> loads t u \<Longrightarrow> loads s u"
  unfolding loads_def
proof (elim exE conjE)
  fix f g
  assume "t = upd_proc (curproc s) f s" "u = upd_proc (curproc t) g t"
    "\<forall>p. fd (f p) = fd p \<and> pid (f p) = pid p \<and> ppid (f p) = ppid p \<and> pstate (f p) = pstate p"
    "\<forall>p. fd (g p) = fd p \<and> pid (g p) = pid p \<and> ppid (g p) = ppid p \<and> pstate (g p) = pstate p"
  then show "\<exists>f. u = upd_proc (curproc s) f s \<and>
     (\<forall>p. fd (f p) = fd p \<and> pid (f p) = pid p \<and> ppid (f p) = ppid p \<and> pstate (f p) = pstate p)"
    by (intro exI [of _ "\<lambda>p. g (f p)"]) (simp add: upd_proc_def)
qed

lemma loads_upd:
  "loads s (kpt k) \<Longrightarrow> \<forall>p. fd (f p) = fd p \<and> pid (f p) = pid p \<and> ppid (f p) = ppid p \<and> pstate (f p) = pstate p \<Longrightarrow>
     loads s (kpt (upd_cur f k))"
  by (rule loads_trans, assumption) (auto simp: loads_def)

lemma load_binary_loads: "load_binary path argv a k = (r, k1) \<Longrightarrow> loads (kpt k) (kpt k1)"
  by (auto simp: load_binary_def Let_def loads_refl split: prod.splits sum.splits if_splits
      dest!: open_programD load_imageD intro!: loads_upd)

lemma load_binary_xip_loads: "load_binary_xip path argv ta a k = (r, k1) \<Longrightarrow> loads (kpt k) (kpt k1)"
  by (auto simp: load_binary_xip_def Let_def loads_refl split: prod.splits sum.splits if_splits
      dest!: open_programD load_dataD intro!: loads_upd)

lemma load_fallback_loads: "load_fallback path argv h k = (r, k1) \<Longrightarrow> loads (kpt k) (kpt k1)"
  by (auto simp: load_fallback_def Let_def loads_refl split: if_splits dest!: load_binary_loads
      intro!: loads_upd elim!: loads_trans [rotated])

lemma load_program_loads: "load_program path argv rom h k = (r, k1) \<Longrightarrow> loads (kpt k) (kpt k1)"
  by (auto simp: load_program_def split: if_splits prod.splits sum.splits
      dest!: load_fallback_loads load_binary_xip_loads intro: loads_trans)

lemma loads_sel:
  assumes "loads s t"
  shows "fd (proctab t p) = fd (proctab s p)" "pid (proctab t p) = pid (proctab s p)"
    "ppid (proctab t p) = ppid (proctab s p)" "pstate (proctab t p) = pstate (proctab s p)"
    "ofile_table t = ofile_table s" "pipe_table t = pipe_table s" "curproc t = curproc s" "next_pid t = next_pid s"
    "nproc t = nproc s" "p \<noteq> curproc s \<Longrightarrow> proctab t p = proctab s p"
  using assms by (auto simp: loads_def)

lemma loads_files_same: "loads s t \<Longrightarrow> files_same s t"
  by (simp add: files_same_def loads_sel dead_def)

section \<open>Steps that move references\<close>

lemma count_ok_set_fd:
  assumes "count_ok_with L s" and "i < MAXPROC" and "n < MAXFD" and "proctab t = (proctab s)(i := q)"
    and "fd q = (fd (proctab s i))(n := v)"
    and "\<And>j. of_refcount (ofile_table t j) + of_bool (fd (proctab s i) n = Some j) =
      of_refcount (ofile_table s j) + of_bool (v = Some j)"
  shows "count_ok_with L t"
  unfolding count_ok_with_def
proof
  fix j
  have "of_nat (refs t j) + of_bool (fd (proctab s i) n = Some j) = (of_nat (refs s j) + of_bool (v = Some j) :: u8)"
    using arg_cong [OF refs_set_fd [OF assms(2-5), of j], of "of_nat :: nat \<Rightarrow> u8"] by simp
  moreover have "of_refcount (ofile_table s j) = of_nat (refs s j) + of_nat (L j)"
    using assms(1) by (simp add: count_ok_with_def)
  ultimately have "of_refcount (ofile_table t j) + of_bool (fd (proctab s i) n = Some j) =
      of_nat (refs t j + L j) + of_bool (fd (proctab s i) n = Some j)"
    using assms(6) [of j] by (simp add: ac_simps)
  then show "of_refcount (ofile_table t j) = of_nat (refs t j + L j)" by (rule add_right_imp_eq)
qed

lemma count_ok_copy:
  assumes "count_ok_with L s" and "i < MAXPROC" and "proctab t = (proctab s)(i := q)"
    and "\<And>n. n < MAXFD \<Longrightarrow> fd (proctab s i) n = None"
    and "\<And>j. of_refcount (ofile_table t j) = of_refcount (ofile_table s j) + of_nat (fds_of q j)"
  shows "count_ok_with L t"
  unfolding count_ok_with_def
proof
  fix j
  have "refs t j = refs s j + fds_of q j"
    using refs_set [OF assms(2,3), of j] fds_of_none [of "proctab s i" j, OF assms(4)] by simp
  then show "of_refcount (ofile_table t j) = of_nat (refs t j + L j)"
    using assms(1) assms(5) [of j] by (simp add: count_ok_with_def)
qed

lemma drop_ofile_files: "files_same (upd_ofile i (\<lambda>f. f\<lparr>of_refcount := of_refcount f - 1\<rparr>) (kpt k)) (kpt (drop_ofile i k))"
  by (auto simp: drop_ofile_def Let_def intro!: same_files split: option.split iptr.split)

lemma close_fd_some:
  assumes "fd (kcur k) n = Some i" and "n < MAXFD" and "counted_with L (kpt k)"
  shows "counted_with L (upd_ofile i (\<lambda>f. f\<lparr>of_refcount := of_refcount f - 1\<rparr>) (upd_proc (curproc (kpt k)) (clear_fd n) (kpt k)))"
    (is "counted_with L ?t")
proof -
  have c: "curproc (kpt k) < 16" using assms(3) by (simp add: counted_with_def fds_wf_def pids_ok_def)
  have "count_ok_with L ?t"
    by (rule count_ok_set_fd [of L "kpt k" "curproc (kpt k)" n ?t "clear_fd n (kcur k)" None])
       (use assms c in \<open>auto simp: counted_with_def clear_fd_def upd_proc_def\<close>)
  then show ?thesis using assms(3) by (auto simp: counted_with_def fds_wf_def pids_ok_def clear_fd_def dead_def)
qed

lemma close_fd_counted:
  assumes "counted_with L (kpt k)" and "n < MAXFD"
  shows "counted_with L (kpt (close_fd n k))"
proof (cases "fd (kcur k) n")
  case (Some i)
  have "counted_with L (kpt (drop_ofile i (upd_cur (clear_fd n) k)))"
    using files_same_counted [OF drop_ofile_files] close_fd_some [OF Some assms(2,1)] by simp
  then show ?thesis using Some by (simp add: close_fd_def)
qed (simp add: close_fd_def assms)

lemma share_files_sel [simp]:
  "proctab (share_files fds s) = proctab s" "curproc (share_files fds s) = curproc s"
  "next_pid (share_files fds s) = next_pid s" "nproc (share_files fds s) = nproc s"
  "pipe_table (share_files fds s) = pipe_table s"
proof -
  let ?g = "\<lambda>n s. case fds n of None \<Rightarrow> s | Some i \<Rightarrow> upd_ofile i (\<lambda>f. f\<lparr>of_refcount := of_refcount f + 1\<rparr>) s"
  have "proctab (fold ?g ns s) = proctab s \<and> curproc (fold ?g ns s) = curproc s \<and> next_pid (fold ?g ns s) = next_pid s \<and>
    nproc (fold ?g ns s) = nproc s \<and> pipe_table (fold ?g ns s) = pipe_table s" for ns
    by (induction ns arbitrary: s) (auto split: option.split)
  then show "proctab (share_files fds s) = proctab s" "curproc (share_files fds s) = curproc s"
    "next_pid (share_files fds s) = next_pid s" "nproc (share_files fds s) = nproc s"
    "pipe_table (share_files fds s) = pipe_table s"
    by (simp_all only: share_files_def)
qed

lemma share_files_refcount:
  "of_refcount (ofile_table (share_files fds s) j) =
     of_refcount (ofile_table s j) + of_nat (\<Sum>n < MAXFD. of_bool (fds n = Some j))"
proof -
  let ?g = "\<lambda>n s. case fds n of None \<Rightarrow> s | Some i \<Rightarrow> upd_ofile i (\<lambda>f. f\<lparr>of_refcount := of_refcount f + 1\<rparr>) s"
  have "of_refcount (ofile_table (fold ?g [0..<m] s) j) =
      of_refcount (ofile_table s j) + of_nat (\<Sum>n < m. of_bool (fds n = Some j))" for m
    by (induction m) (auto split: option.split)
  then show ?thesis unfolding share_files_def by blast
qed

lemma unshare_files_spec:
  assumes "c < MAXPROC" and "count_ok_with L s"
  shows "count_ok_with L (unshare_files c s) \<and> (\<forall>n < MAXFD. fd (proctab (unshare_files c s) c) n = None) \<and>
    (\<forall>p. p \<noteq> c \<longrightarrow> proctab (unshare_files c s) p = proctab s p) \<and>
    pid (proctab (unshare_files c s) c) = pid (proctab s c) \<and>
    curproc (unshare_files c s) = curproc s \<and> next_pid (unshare_files c s) = next_pid s"
proof -
  let ?g = "\<lambda>n s. case fd (proctab s c) n of None \<Rightarrow> s
                 | Some i \<Rightarrow> upd_proc c (clear_fd n) (upd_ofile i (\<lambda>f. f\<lparr>of_refcount := of_refcount f - 1\<rparr>) s)"
  have step: "count_ok_with L (?g n t)" if "count_ok_with L t" "n < 16" for n t
  proof (cases "fd (proctab t c) n")
    case (Some i)
    have "count_ok_with L (upd_proc c (clear_fd n) (upd_ofile i (\<lambda>f. f\<lparr>of_refcount := of_refcount f - 1\<rparr>) t))" (is "count_ok_with L ?u")
      by (rule count_ok_set_fd [of L t c n ?u "clear_fd n (proctab t c)" None])
         (use that assms(1) Some in \<open>auto simp: clear_fd_def upd_proc_def\<close>)
    then show ?thesis using Some by simp
  qed (use that in simp)
  have "m \<le> 16 \<Longrightarrow> count_ok_with L (fold ?g [0..<m] s) \<and> (\<forall>n < m. fd (proctab (fold ?g [0..<m] s) c) n = None) \<and>
    (\<forall>p. p \<noteq> c \<longrightarrow> proctab (fold ?g [0..<m] s) p = proctab s p) \<and>
    pid (proctab (fold ?g [0..<m] s) c) = pid (proctab s c) \<and>
    curproc (fold ?g [0..<m] s) = curproc s \<and> next_pid (fold ?g [0..<m] s) = next_pid s" for m
  proof (induction m)
    case (Suc m)
    then show ?case using step [of "fold ?g [0..<m] s" m]
      by (auto simp: clear_fd_def less_Suc_eq split: option.split)
  qed (use assms in simp)
  from this [of 16] show ?thesis unfolding unshare_files_def by blast
qed

section \<open>Lifecycle\<close>

lemma alloc_pidD:
  assumes "alloc_pid s = (r, t)" and "next_pid s < MAXPROC"
  shows "\<exists>x < MAXPROC. t = s\<lparr>next_pid := x\<rparr>" and "r = Some c \<Longrightarrow> c < MAXPROC \<and> pstate (proctab s c) = P_FREE"
proof -
  have "alloc_pid_loop m s = (r, t) \<Longrightarrow> next_pid s < 16 \<Longrightarrow>
      (\<exists>x < 16. t = s\<lparr>next_pid := x\<rparr>) \<and> (r = Some c \<longrightarrow> c < 16 \<and> pstate (proctab s c) = P_FREE)" for m
  proof (induction m arbitrary: s)
    case 0
    then have "t = s\<lparr>next_pid := next_pid s\<rparr>" "r = None" by auto
    then show ?case using 0(2) by blast
  next
    case (Suc m)
    let ?nx = "(next_pid s + 1) mod 16"
    let ?s = "s\<lparr>next_pid := (if ?nx = 0 then 1 else ?nx)\<rparr>"
    show ?case
    proof (cases "pstate (proctab s (next_pid s)) = P_FREE")
      case True
      then have "t = ?s" "r = Some (next_pid s)" using Suc.prems by (auto simp: Let_def)
      then show ?thesis using Suc.prems(2) True by (intro conjI exI [of _ "if ?nx = 0 then 1 else ?nx"]) auto
    next
      case False
      then have "alloc_pid_loop m ?s = (r, t)" "next_pid ?s < 16" using Suc.prems by (auto simp: Let_def)
      from Suc.IH [OF this] show ?thesis by auto
    qed
  qed
  then show "\<exists>x < MAXPROC. t = s\<lparr>next_pid := x\<rparr>" "r = Some c \<Longrightarrow> c < MAXPROC \<and> pstate (proctab s c) = P_FREE"
    using assms by (auto simp: alloc_pid_def)
qed

lemma refs_next_pid [simp]: "refs (s\<lparr>next_pid := x\<rparr>) j = refs s j"
  by (simp add: refs_def)

lemma counted_next_pid: "counted_with L s \<Longrightarrow> x < MAXPROC \<Longrightarrow> counted_with L (s\<lparr>next_pid := x\<rparr>)"
  by (simp add: counted_with_def count_ok_with_def fds_wf_def pids_ok_def)

lemma alloc_pid_counted: "alloc_pid s = (r, t) \<Longrightarrow> counted_with L s \<Longrightarrow> counted_with L t"
  using alloc_pidD(1) [of s r t] counted_next_pid [of L s] by (auto simp: counted_with_def fds_wf_def)

lemma alloc_pid_free:
  "alloc_pid s = (Some c, t) \<Longrightarrow> counted_with L s \<Longrightarrow>
     c < MAXPROC \<and> pstate (proctab t c) = P_FREE \<and> (\<forall>n < MAXFD. fd (proctab t c) n = None) \<and> proctab t = proctab s \<and>
     curproc t = curproc s \<and> ofile_table t = ofile_table s \<and> pipe_table t = pipe_table s"
  using alloc_pidD(1) [of s "Some c" t] alloc_pidD(2) [of s "Some c" t c] by (auto simp: counted_with_def fds_wf_def dead_def)

text \<open>A free slot filled with a process whose descriptors have been shared.\<close>

lemma share_counted:
  assumes "counted_with L s" and "c < MAXPROC" and "\<forall>n < MAXFD. fd (proctab s c) n = None"
    and "proctab t = (proctab s)(c := q)" and "pid q = c" and "curproc t < MAXPROC" and "next_pid t = next_pid s"
    and "ofile_table t = ofile_table (share_files (fd q) s)" and "\<not> dead q"
  shows "counted_with L t"
proof -
  have "count_ok_with L t"
    by (rule count_ok_copy [OF _ assms(2,4)])
       (use assms(1,3,8) in \<open>simp_all add: counted_with_def share_files_refcount fds_of_def\<close>)
  then show ?thesis using assms by (auto simp: counted_with_def fds_wf_def pids_ok_def)
qed

lemma share_files_cong:
  assumes "ofile_table s = ofile_table t"
  shows "ofile_table (share_files fds s) = ofile_table (share_files fds t)"
proof -
  let ?g = "\<lambda>n s. case fds n of None \<Rightarrow> s | Some i \<Rightarrow> upd_ofile i (\<lambda>f. f\<lparr>of_refcount := of_refcount f + 1\<rparr>) s"
  have "ofile_table (fold ?g ns s) = ofile_table (fold ?g ns t)" for ns
    using assms
  proof (induction ns arbitrary: s t)
    case (Cons n ns)
    have "ofile_table (?g n s) = ofile_table (?g n t)" using Cons.prems by (simp add: upd_ofile_def split: option.split)
    from Cons.IH [OF this] show ?case by (simp only: fold_simps)
  qed simp
  then show ?thesis by (simp add: share_files_def)
qed

lemma vfork_counted:
  assumes "do_vfork regs k = (r, k1)" and "counted_with L (kpt k)"
  shows "counted_with L (kpt k1)"
proof (cases "alloc_pid (kpt k)")
  case (Pair o1 s1)
  show ?thesis
  proof (cases o1)
    case None
    then show ?thesis using assms Pair alloc_pid_counted [OF _ assms(2)] by (auto simp: do_vfork_def)
  next
    case (Some c)
    note al = alloc_pid_free [OF Pair [unfolded Some] assms(2)] and co = alloc_pid_counted [OF Pair assms(2)]
    let ?par = "curproc s1"
    let ?q = "(proctab s1 ?par)\<lparr>vfork_ctx := regs, pid := c, ppid := pid (proctab s1 ?par), pstate := P_RUNNING,
                     exitcode := 0, mem_base := 0, mem_size := 0\<rparr>"
    let ?s2 = "upd_proc ?par (\<lambda>p. p\<lparr>vfork_ctx := regs\<rparr>) s1"
    let ?s5 = "let s3 = upd_proc c (\<lambda>_. ?q) ?s2; s4 = share_files (fd ?q) s3 in s4\<lparr>nproc := nproc s4 + 1\<rparr>"
    have c2: "counted_with L ?s2"
      by (rule files_same_counted [OF _ co]) (simp add: same_files dead_def)
    have "counted_with L (?s5\<lparr>curproc := c\<rparr>)"
      by (rule share_counted [OF c2, of c _ ?q])
         (use al in \<open>auto simp: upd_proc_def dead_def Let_def intro: share_files_cong\<close>)
    then have "counted_with L (upd_proc ?par (\<lambda>p. p\<lparr>pstate := P_VFORK\<rparr>) (?s5\<lparr>curproc := c\<rparr>))"
      by (rule files_same_counted [rotated]) (simp add: same_files dead_def)
    moreover have "kpt k1 = upd_proc ?par (\<lambda>p. p\<lparr>pstate := P_VFORK\<rparr>) (?s5\<lparr>curproc := c\<rparr>)"
      using assms(1) Pair Some by (auto simp: do_vfork_def Let_def upd_proc_def)
    ultimately show ?thesis by simp
  qed
qed

lemma close_fd_cur:
  "curproc (kpt (close_fd n k)) = curproc (kpt k)"
  "fd (proctab (kpt (close_fd n k)) (curproc (kpt k))) = (fd (kcur k))(n := None)"
proof -
  have "curproc (kpt (drop_ofile i k)) = curproc (kpt k)" "fd (proctab (kpt (drop_ofile i k)) p) = fd (proctab (kpt k) p)" for i k p
    using drop_ofile_files [of i k] by (simp_all add: files_same_def)
  then show "curproc (kpt (close_fd n k)) = curproc (kpt k)"
    "fd (proctab (kpt (close_fd n k)) (curproc (kpt k))) = (fd (kcur k))(n := None)"
    by (auto simp: close_fd_def clear_fd_def split: option.split)
qed

lemma close_all_counted:
  assumes "counted_with L (kpt k)"
  shows "m \<le> MAXFD \<Longrightarrow> counted_with L (kpt (fold close_fd [0..<m] k)) \<and> (\<forall>n < m. fd (kcur (fold close_fd [0..<m] k)) n = None)"
proof (induction m)
  case (Suc m)
  then show ?case by (auto simp: close_fd_cur close_fd_counted less_Suc_eq)
qed (use assms in simp)

lemma dead_cur_counted:
  assumes "counted_with L (kpt k)" and "\<forall>n < MAXFD. fd (kcur k) n = None"
    and "\<forall>p. fd (f p) = fd p \<and> pid (f p) = pid p"
  shows "counted_with L (kpt (upd_cur f k))"
proof -
  have "refs (kpt (upd_cur f k)) j = refs (kpt k) j" for j by (rule refs_cong) (simp add: assms(3))
  then show ?thesis using assms by (simp add: counted_with_def count_ok_with_def fds_wf_def pids_ok_def)
qed

lemma counted_curproc: "counted_with L s \<Longrightarrow> c < MAXPROC \<Longrightarrow> counted_with L (s\<lparr>curproc := c\<rparr>)"
proof -
  have "refs (s\<lparr>curproc := c\<rparr>) j = refs s j" for j by (simp add: refs_def)
  then show "counted_with L s \<Longrightarrow> c < MAXPROC \<Longrightarrow> counted_with L (s\<lparr>curproc := c\<rparr>)"
    by (simp add: counted_with_def count_ok_with_def fds_wf_def pids_ok_def)
qed

lemma files_same_reparent [same_files]: "files_same s t \<Longrightarrow> files_same s (reparent p t)"
  by (auto simp: files_same_def reparent_def Let_def dead_def)

lemma switch_counted:
  assumes "counted_with L s" and "c < MAXPROC"
  shows "counted_with L ((upd_proc c (\<lambda>p. p\<lparr>pstate := P_RUNNING\<rparr>) s)\<lparr>curproc := c\<rparr>)"
  by (rule counted_curproc [OF files_same_counted [OF _ assms(1)] assms(2)]) (simp add: same_files dead_def)

lemma exit_counted:
  assumes "do_exit code k = (r, k1)" and "counted_with L (kpt k)"
  shows "counted_with L (kpt k1)"
proof (cases "exec_active k")
  case False
  let ?k1 = "fold close_fd [0..<MAXFD] k"
  let ?k2 = "upd_cur (\<lambda>p. p\<lparr>mem_base := 0, mem_size := 0, exitcode := to_int8 code, pstate := P_ZOMBIE\<rparr>) ?k1"
  let ?k3 = "on_pt (reparent (pid (kcur ?k2))) ?k2"
  have "counted_with L (kpt ?k2)"
    using close_all_counted [OF assms(2), of 16] by (intro dead_cur_counted) auto
  then have c: "counted_with L (kpt ?k3)" by (rule files_same_counted [rotated]) (simp add: same_files)
  have "counted_with L (wake_proc p (kpt ?k3))" for p by (rule files_same_counted [OF _ c]) (simp add: same_files)
  then show ?thesis using assms(1) False c switch_counted [OF c]
    by (auto simp: do_exit_def Let_def simp del: upt_conv_Cons split: if_splits)
qed (use assms in \<open>auto simp: do_exit_def\<close>)

lemma waitpid_counted:
  assumes "do_waitpid wpid status options k = (r, k1)" and "counted_with L (kpt k)"
  shows "counted_with L (kpt k1)"
proof -
  have reap: "counted_with L ((upd_proc i (\<lambda>p. p\<lparr>pstate := P_FREE\<rparr>) (kpt k))\<lparr>nproc := x\<rparr>)" if "pstate (proctab (kpt k) i) = P_ZOMBIE" for i x
  proof -
    have "files_same (kpt k) ((upd_proc i (\<lambda>p. p\<lparr>pstate := P_FREE\<rparr>) (kpt k))\<lparr>nproc := x\<rparr>)"
      using that by (auto simp: files_same_def dead_def)
    then show ?thesis using assms(2) by (rule files_same_counted)
  qed
  have "counted_with L (sleep_cur (kpt k))" by (rule files_same_counted [OF _ assms(2)]) (simp add: same_files)
  with reap show ?thesis using assms
    by (auto simp: do_waitpid_def Let_def on_pt_def split: if_splits option.splits dest!: first_idx_SomeD)
qed

text \<open>The program's loader runs with the child as the current process.\<close>

lemma spawn_ok_counted:
  assumes "counted_with L s" and "c < MAXPROC" and "\<forall>n < MAXFD. fd (proctab s c) n = None" and "pid q = c" and "\<not> dead q"
    and "loads ((share_files (fd q) (upd_proc c (\<lambda>_. q') s))\<lparr>nproc := x, curproc := c\<rparr>) t"
    and "fd q' = fd q" and "par < MAXPROC" and "fd (g (proctab t c)) = fd (proctab t c)" "pid q' = c"
    and "pid (g (proctab t c)) = pid (proctab t c)" "\<not> dead (g (proctab t c))"
  shows "counted_with L ((upd_proc c g t)\<lparr>curproc := par\<rparr>)"
proof (rule share_counted [OF assms(1-3), where q = "g (proctab t c)"])
  note l = loads_sel [OF assms(6)]
  have "proctab t p = proctab s p" if "p \<noteq> c" for p using l(10) [of p] that by simp
  then show "proctab ((upd_proc c g t)\<lparr>curproc := par\<rparr>) = (proctab s)(c := g (proctab t c))" by auto
  show "pid (g (proctab t c)) = c" using l(2) [of c] assms(10,11) by simp
  show "curproc ((upd_proc c g t)\<lparr>curproc := par\<rparr>) < MAXPROC" using assms(8) by simp
  show "next_pid ((upd_proc c g t)\<lparr>curproc := par\<rparr>) = next_pid s" using l(8) by simp
  have "fd (g (proctab t c)) = fd q" using l(1) [of c] assms(7,9) by simp
  then show "ofile_table ((upd_proc c g t)\<lparr>curproc := par\<rparr>) = ofile_table (share_files (fd (g (proctab t c))) s)"
    using l(5) by (simp add: share_files_cong [of "upd_proc c (\<lambda>_. q') s" s])
qed (use assms(12) in simp)

lemma spawn_fail_counted:
  assumes "counted_with L s" and "c < MAXPROC" and "\<forall>n < MAXFD. fd (proctab s c) n = None" and "pid q' = c"
    and "loads ((share_files (fd q') (upd_proc c (\<lambda>_. q') s))\<lparr>nproc := x, curproc := c\<rparr>) t" and "par < MAXPROC"
  shows "counted_with L ((upd_proc c (\<lambda>p. p\<lparr>mem_base := 0, mem_size := 0, pstate := P_FREE\<rparr>) (unshare_files c t))\<lparr>nproc := y, curproc := par\<rparr>)"
    (is "counted_with L ?u")
proof -
  let ?s2 = "(share_files (fd q') (upd_proc c (\<lambda>_. q') s))\<lparr>nproc := x, curproc := c\<rparr>"
  note l = loads_sel [OF assms(5)]
  have "count_ok_with L ?s2"
    by (rule count_ok_copy [of L s c _ q'])
       (use assms(1-3) in \<open>auto simp: counted_with_def share_files_refcount fds_of_def upd_proc_def\<close>)
  then have "count_ok_with L t" by (rule files_same_count_ok [OF loads_files_same [OF assms(5)]])
  note u = unshare_files_spec [OF assms(2) this]
  have "refs ?u j = refs (unshare_files c t) j" for j by (rule refs_cong) auto
  then have "count_ok_with L ?u" using u by (simp add: count_ok_with_def)
  moreover have "proctab (unshare_files c t) p = proctab s p" if "p \<noteq> c" for p using u l(10) [of p] that by simp
  ultimately show ?thesis
    using assms(1,4,6) u l(2) [of c] l(8) by (auto simp: counted_with_def fds_wf_def pids_ok_def)
qed

lemma spawn_child_sel [simp]:
  "pid (spawn_child c base sz parent p) = c" "pstate (spawn_child c base sz parent p) = P_FREE"
  by (simp_all add: spawn_child_def)

lemma setup_kstack_sel [simp]:
  "fd (proc_setup_kstack fr e sp a5 p) = fd p" "pid (proc_setup_kstack fr e sp a5 p) = pid p"
  "mem_base (proc_setup_kstack fr e sp a5 p) = mem_base p" "mem_size (proc_setup_kstack fr e sp a5 p) = mem_size p"
  by (simp_all add: proc_setup_kstack_def Let_def)

lemma spawn_counted:
  assumes "do_spawn first_run path argv k = (r, k1)" and "counted_with L (kpt k)"
  shows "counted_with L (kpt k1)"
proof (cases "open_program path k")
  case (Pair o1 ko)
  note ko = open_programD [OF Pair]
  show ?thesis
  proof (cases o1)
    case (Inl e)
    then show ?thesis using assms Pair ko by (auto simp: do_spawn_def)
  next
    case (Inr a)
    obtain ip h where a: "a = (ip, h)" by (cases a)
    let ?rom = "pal_rom_file_addr (rom_start ko) (disk (bc (kf ko))) (icache (kf ko) ip)"
    let ?k2 = "on_fs (fs_iput ip) ko"
    let ?need = "if use_xip ?rom h then exec_mem_need_xip h else exec_mem_need h"
    obtain oc s where al: "alloc_pid (kpt ?k2) = (oc, s)" by fastforce
    have cs: "counted_with L s" using alloc_pid_counted [OF al] assms(2) ko by simp
    let ?k3 = "on_pt (\<lambda>_. s) ?k2" let ?a = "umem_alloc (kpool ?k3) s ?need"
    show ?thesis
    proof (cases "oc = None \<or> ?a = 0")
      case True
      then show ?thesis using assms(1) Pair Inr a al cs by (auto simp: do_spawn_def Let_def split: option.splits)
    next
      case False
      then obtain c where c: "oc = Some c" and base: "?a \<noteq> 0" by auto
      note fr = alloc_pid_free [OF al [unfolded c]]
      let ?par = "curproc s" let ?s1 = "upd_proc c (spawn_child c ?a ?need (proctab s ?par)) s"
      let ?s2 = "share_files (fd (proctab ?s1 c)) ?s1"
      let ?k4 = "on_pt (\<lambda>_. ?s2\<lparr>nproc := nproc ?s2 + 1, curproc := c\<rparr>) ?k3"
      obtain res k5 where lp: "load_program path argv ?rom h ?k4 = (res, k5)" by fastforce
      let ?q' = "proctab ?s1 c"
      have u: "upd_proc c (\<lambda>_. ?q') s = ?s1" by (simp add: upd_proc_def)
      have l: "loads ((share_files (fd ?q') (upd_proc c (\<lambda>_. ?q') s))\<lparr>nproc := nproc s + 1, curproc := c\<rparr>) (kpt k5)"
        using load_program_loads [OF lp] unfolding u by simp
      have "counted_with L (kpt ?k2)" using ko assms(2) by simp
      then have free: "c < 16" "\<forall>n < 16. fd (proctab s c) n = None" using fr by blast+
      have p: "?par < 16" using cs by (simp add: counted_with_def fds_wf_def pids_ok_def)
      show ?thesis
      proof (cases res)
        case (Inl e)
        then have "k1 = on_pt (\<lambda>s. let s' = upd_proc c (\<lambda>p. p\<lparr>mem_base := 0, mem_size := 0, pstate := P_FREE\<rparr>) (unshare_files c s)
                     in s'\<lparr>nproc := nproc s' - 1, curproc := ?par\<rparr>) k5"
          using assms(1) Pair \<open>o1 = Inr a\<close> a al c base lp by (simp add: do_spawn_def Let_def)
        then show ?thesis using spawn_fail_counted [OF cs free _ l p] by (simp add: Let_def)
      next
        case (Inr z)
        obtain entry sp where z: "z = (entry, sp)" by (cases z)
        let ?g = "\<lambda>p. (proc_setup_kstack first_run entry sp (data_a5 p) p)\<lparr>pstate := P_READY\<rparr>"
        have "k1 = on_pt (\<lambda>s. (upd_proc c ?g s)\<lparr>curproc := ?par\<rparr>) k5"
          using assms(1) Pair \<open>o1 = Inr a\<close> a al c base lp Inr z by (simp add: do_spawn_def Let_def)
        moreover have "counted_with L ((upd_proc c ?g (kpt k5))\<lparr>curproc := ?par\<rparr>)"
          by (rule spawn_ok_counted [OF cs free, where q = "?q'\<lparr>pstate := P_READY\<rparr>" and q' = ?q' and x = "nproc s + 1"])
             (use l p in \<open>simp_all add: dead_def\<close>)
        ultimately show ?thesis by simp
      qed
    qed
  qed
qed

lemma replace_fd_counted:
  assumes "counted_with L (kpt k)" and "c < MAXPROC" and "n < MAXFD" and "\<not> dead (proctab (kpt k) c)"
  shows "counted_with L (kpt (replace_fd c n src k)) \<and> \<not> dead (proctab (kpt (replace_fd c n src k)) c)"
proof (cases "src < 0 \<or> src \<ge> int MAXFD \<or> fd (kcur k) (nat src) = None")
  case True
  then show ?thesis using assms by (auto simp: replace_fd_def)
next
  case False
  then obtain i where i: "fd (kcur k) (nat src) = Some i" "\<not> (src < 0 \<or> src \<ge> int MAXFD)" by auto
  let ?old = "fd (proctab (kpt k) c) n"
  let ?d = "\<lambda>s. case ?old of None \<Rightarrow> s | Some old \<Rightarrow> upd_ofile old (\<lambda>f. f\<lparr>of_refcount := of_refcount f - 1\<rparr>) s"
  let ?k1 = "case ?old of None \<Rightarrow> k | Some old \<Rightarrow> drop_ofile old k"
  let ?set = "\<lambda>s. upd_ofile i (\<lambda>f. f\<lparr>of_refcount := of_refcount f + 1\<rparr>) (upd_proc c (\<lambda>p. p\<lparr>fd := (fd p)(n := Some i)\<rparr>) s)"
  have r: "kpt (replace_fd c n src k) = ?set (kpt ?k1)" using i by (simp add: replace_fd_def)
  have "files_same (?d (kpt k)) (kpt ?k1)"
    by (cases ?old) (simp_all add: drop_ofile_files files_same_refl)
  then have fs: "files_same (?set (?d (kpt k))) (?set (kpt ?k1))" by (auto simp: files_same_def dead_def)
  have "count_ok_with L (?set (?d (kpt k)))"
    by (rule count_ok_set_fd [of L "kpt k" c n _ "(proctab (kpt k) c)\<lparr>fd := (fd (proctab (kpt k) c))(n := Some i)\<rparr>" "Some i"])
       (use assms in \<open>auto simp: counted_with_def upd_proc_def split: option.split\<close>)
  then have "counted_with L (?set (?d (kpt k)))"
    using assms by (auto simp: counted_with_def fds_wf_def pids_ok_def dead_def split: option.split)
  then have "counted_with L (?set (kpt ?k1))" by (rule files_same_counted [OF fs])
  moreover have "\<not> dead (proctab (?set (?d (kpt k))) c)"
    using assms(4) by (cases ?old) (simp_all add: dead_def)
  then have "\<not> dead (proctab (?set (kpt ?k1)) c)" using fs unfolding files_same_def by blast
  ultimately show ?thesis using r by simp
qed

lemma close_on_exec_counted:
  "close_on_exec ns k = Some k1 \<Longrightarrow> counted_with L (kpt k) \<Longrightarrow> set ns \<subseteq> {..<MAXFD} \<Longrightarrow>
     counted_with L (kpt k1) \<and> curproc (kpt k1) = curproc (kpt k)"
proof (induction ns arbitrary: k)
  case (Cons n ns)
  show ?case
  proof (cases "fd_flags (kcur k) n AND 1 = 0 \<or> fd (kcur k) n = None")
    case True
    then have "close_on_exec ns k = Some k1" using Cons.prems(1) by (auto split: if_splits)
    then show ?thesis using Cons.IH Cons.prems(2,3) by simp
  next
    case False
    then obtain i where i: "fd (kcur k) n = Some i" "fd_flags (kcur k) n AND 1 \<noteq> 0" by auto
    let ?s1 = "upd_proc (curproc (kpt k)) (\<lambda>p. (clear_fd n p)\<lparr>fd_flags := (fd_flags p)(n := 0)\<rparr>) (kpt k)"
    let ?s2 = "upd_ofile i (\<lambda>f. f\<lparr>of_refcount := of_refcount f - 1\<rparr>) ?s1"
    let ?k2 = "on_pt (upd_ofile i (\<lambda>f. f\<lparr>of_refcount := of_refcount f - 1\<rparr>))
      (upd_cur (\<lambda>p. (clear_fd n p)\<lparr>fd_flags := (fd_flags p)(n := 0)\<rparr>) k)"
    have "files_same (upd_ofile i (\<lambda>f. f\<lparr>of_refcount := of_refcount f - 1\<rparr>) (upd_proc (curproc (kpt k)) (clear_fd n) (kpt k))) ?s2"
      by (auto simp: files_same_def dead_def clear_fd_def)
    moreover have "n < 16" using Cons.prems(3) by simp
    ultimately have c2: "counted_with L ?s2" using files_same_counted close_fd_some [OF i(1) _ Cons.prems(2)] by blast
    then have c3: "counted_with L (upd_ofile i (\<lambda>f. f\<lparr>of_inode := INull\<rparr>) ?s2)"
      by (rule files_same_counted [rotated]) (simp add: same_files)
    obtain k3 where "close_on_exec ns k3 = Some k1" "counted_with L (kpt k3)" "curproc (kpt k3) = curproc (kpt k)"
    proof (cases "of_refcount (kfile ?k2 i) \<noteq> 0 \<or> of_inode (kfile ?k2 i) = INull")
      case True
      then have "close_on_exec ns ?k2 = Some k1" using Cons.prems(1) i by (auto simp: Let_def split: if_splits)
      then show ?thesis using that [of ?k2] c2 by simp
    next
      case False
      then obtain ip where "of_inode (kfile ?k2 i) = IPtr ip"
        using Cons.prems(1) i by (auto simp: Let_def split: if_splits iptr.splits)
      then have "close_on_exec ns (on_pt (upd_ofile i (\<lambda>f. f\<lparr>of_inode := INull\<rparr>)) (on_fs (fs_iput ip) ?k2)) = Some k1"
        using Cons.prems(1) i False by (auto simp: Let_def split: if_splits)
      then show ?thesis using that c3 by simp
    qed
    then show ?thesis using Cons.IH Cons.prems(3) by auto
  qed
qed simp

lemma counted_cur: "counted_with L s \<Longrightarrow> curproc s < MAXPROC"
  by (simp add: counted_with_def fds_wf_def pids_ok_def)

lemma exec_counted:
  assumes "do_exec first_run path argv k = (r, k1)" and "counted_with L (kpt k)"
  shows "counted_with L (kpt k1)"
proof (cases "open_program path k")
  case (Pair o1 ko)
  note ko = open_programD [OF Pair]
  show ?thesis
  proof (cases o1)
    case (Inl e)
    then show ?thesis using assms Pair ko by (auto simp: do_exec_def)
  next
    case (Inr a)
    obtain ip h where a: "a = (ip, h)" by (cases a)
    let ?rom = "pal_rom_file_addr (rom_start ko) (disk (bc (kf ko))) (icache (kf ko) ip)"
    let ?k2 = "on_fs (fs_iput ip) ko"
    let ?need = "if use_xip ?rom h then exec_mem_need_xip h else exec_mem_need h"
    let ?a = "umem_alloc (kpool ?k2) (kpt ?k2) ?need"
    let ?k = "upd_cur (\<lambda>p. p\<lparr>mem_base := ?a, mem_size := ?need\<rparr>) ?k2"
    obtain res k3 where lp: "load_program path argv ?rom h ?k = (res, k3)" by fastforce
    have "counted_with L (kpt ?k2)" using assms(2) ko by simp
    then have "counted_with L (kpt ?k)" by (rule files_same_counted [rotated]) (rule files_same_cur, simp_all add: same_files dead_def)
    then have c3: "counted_with L (kpt k3)" by (rule files_same_counted [OF loads_files_same [OF load_program_loads [OF lp]]])
    then have zero: "counted_with L (kpt (upd_cur (\<lambda>p. p\<lparr>mem_base := 0, mem_size := 0\<rparr>) k3))"
      by (rule files_same_counted [rotated]) (simp add: same_files dead_def)
    consider (noroom) "?a = 0" | (fail) e where "?a \<noteq> 0" "res = Inl e" | (ok) entry sp where "?a \<noteq> 0" "res = Inr (entry, sp)"
      by (cases res) auto
    then show ?thesis
    proof cases
      case noroom
      then have "k1 = ?k2" using assms(1) Pair Inr a by (simp add: do_exec_def Let_def)
      then show ?thesis using assms(2) ko by simp
    next
      case fail
      then have "k1 = (if mem_base (kcur k3) = 0 then k3 else upd_cur (\<lambda>p. p\<lparr>mem_base := 0, mem_size := 0\<rparr>) k3)"
        using assms(1) Pair Inr a lp by (simp add: do_exec_def Let_def)
      then show ?thesis using c3 zero by simp
    next
      case ok
      show ?thesis
      proof (cases "close_on_exec [0..<MAXFD] k3")
        case None
        then have "k1 = k3" using assms(1) Pair Inr a lp ok by (simp add: do_exec_def Let_def del: upt_conv_Cons)
        then show ?thesis using c3 by simp
      next
        case (Some k4)
        then have c4: "counted_with L (kpt k4)" using close_on_exec_counted [OF Some c3] by (simp add: lessThan_atLeast0)
        let ?g = "\<lambda>p. (proc_setup_kstack first_run entry sp (data_a5 p) p)\<lparr>pstate := P_READY\<rparr>"
        have g: "counted_with L (kpt (upd_cur ?g k4))"
          by (rule files_same_counted [OF _ c4]) (simp add: same_files dead_def)
        have "kpt k1 = kpt k4 \<or> ppid (kcur k4) < MAXPROC \<and> kpt k1 =
            (upd_proc (ppid (kcur k4)) (\<lambda>p. p\<lparr>pstate := P_RUNNING\<rparr>) (kpt (upd_cur ?g k4)))\<lparr>curproc := ppid (kcur k4)\<rparr>"
          using assms(1) Pair Inr a lp ok Some by (auto simp: do_exec_def Let_def simp del: upt_conv_Cons split: if_splits)
        then show ?thesis using c4 switch_counted [OF g] by auto
      qed
    qed
  qed
qed

end
