(* ===== verification/Fd_Counts.thy ===== *)
theory Fd_Counts
  imports Fd_Refs Exec_Correct
begin

text \<open>
  System calls keep the reference counts of open files, in every run of the kernel: a count is
  the number of descriptors and of references lost by \<open>dup\<close> calls that found no free descriptor.
\<close>

section \<open>System calls\<close>

lemma fd_allocD:
  assumes "fd_alloc_from j m s = (r, t)"
  shows "r < 0 \<and> t = s \<or>
     (\<exists>n < MAXFD. r = int n \<and> fd (cur s) n = None \<and> t = upd_proc (curproc s) (\<lambda>p. p\<lparr>fd := (fd p)(n := Some j)\<rparr>) s)"
proof (cases "find (\<lambda>i. fd (cur s) i = None) [m..<MAXFD]")
  case (Some n)
  then have "n \<in> set [m..<MAXFD]" "fd (cur s) n = None" unfolding find_Some_iff by (metis nth_mem)+
  then show ?thesis using assms Some by (auto simp: fd_alloc_from_def)
qed (use assms in \<open>simp add: fd_alloc_from_def\<close>)

text \<open>A new reference in a free descriptor, whose count has been raised already.\<close>

lemma new_fd_counted:
  assumes "counted_with L s" and "n < MAXFD" and "fd (cur s) n = None" and "\<not> dead (cur s)"
    and "proctab t = (proctab s)(curproc s := (cur s)\<lparr>fd := (fd (cur s))(n := Some j)\<rparr>)"
    and "\<And>i. of_refcount (ofile_table t i) = of_refcount (ofile_table s i) + of_bool (i = j)"
    and "curproc t = curproc s" and "next_pid t = next_pid s"
  shows "counted_with L t"
proof -
  have "count_ok_with L t"
    by (rule count_ok_set_fd [of L s "curproc s" n t "(cur s)\<lparr>fd := (fd (cur s))(n := Some j)\<rparr>" "Some j"])
       (use assms counted_cur [OF assms(1)] in \<open>auto simp: counted_with_def\<close>)
  then show ?thesis using assms by (auto simp: counted_with_def fds_wf_def pids_ok_def dead_def)
qed

lemma ofile_allocD:
  assumes "ofile_alloc s = (r, t)"
  shows "r = None \<and> t = s \<or> (\<exists>j < MAXOPEN. r = Some j \<and> of_refcount (ofile_table s j) = 0 \<and>
    t = upd_ofile j (\<lambda>f. f\<lparr>of_refcount := 1\<rparr>) s)"
proof (cases "first_idx (\<lambda>i. of_refcount (ofile_table s i) = 0) MAXOPEN")
  case (Some j)
  have "(r, t) = (Some j, upd_ofile j (\<lambda>f. f\<lparr>of_refcount := 1\<rparr>) s)" using assms Some by (simp add: ofile_alloc_def)
  then show ?thesis using first_idx_SomeD(1,2) [OF Some] by blast
qed (use assms in \<open>simp add: ofile_alloc_def\<close>)

lemma install_file_counted:
  assumes "install_file ip flags k = (r, k1)" and "counted_with L (kpt k)" and "\<not> dead (kcur k)"
  shows "counted_with L (kpt k1)"
proof (cases "ofile_alloc (kpt k)")
  case (Pair oj s)
  show ?thesis
  proof (cases oj)
    case None
    then show ?thesis using assms Pair by (auto simp: install_file_def)
  next
    case (Some j)
    then have j: "of_refcount (kfile k j) = 0" "s = upd_ofile j (\<lambda>f. f\<lparr>of_refcount := 1\<rparr>) (kpt k)"
      using ofile_allocD [OF Pair] by auto
    let ?s = "upd_ofile j (\<lambda>f. f\<lparr>of_inode := IPtr ip, of_offset := 0, of_flags := ucast flags\<rparr>) s"
    obtain n t where f: "fd_alloc j ?s = (n, t)" by fastforce
    show ?thesis
    proof (cases "n < 0")
      case True
      then have "t = ?s" using fd_allocD [OF f [unfolded fd_alloc_def]] by auto
      then have "files_same (kpt k) (upd_ofile j (\<lambda>f. f\<lparr>of_refcount := 0\<rparr>) t)" using j by (auto simp: files_same_def)
      then have "counted_with L (upd_ofile j (\<lambda>f. f\<lparr>of_refcount := 0\<rparr>) t)" using assms(2) by (rule files_same_counted)
      then show ?thesis using assms(1) Pair Some f True by (auto simp: install_file_def)
    next
      case False
      then obtain m where m: "m < 16" "fd (kcur k) m = None" "t = upd_proc (curproc (kpt k)) (\<lambda>p. p\<lparr>fd := (fd p)(m := Some j)\<rparr>) ?s"
        using fd_allocD [OF f [unfolded fd_alloc_def]] j(2) by auto
      have "counted_with L t"
        by (rule new_fd_counted [OF assms(2) m(1,2) assms(3)]) (use m(3) j in \<open>auto simp: upd_proc_def\<close>)
      then show ?thesis using assms(1) Pair Some f False by (auto simp: install_file_def)
    qed
  qed
qed

lemma open_counted:
  assumes "sys_open path flags k = (r, k1)" and "counted_with L (kpt k)" and "\<not> dead (kcur k)"
  shows "counted_with L (kpt k1)"
proof -
  have inst: "install_file ip flags k2 = (r, k1) \<Longrightarrow> kpt k2 = kpt k \<Longrightarrow> counted_with L (kpt k1)" for ip k2
    using install_file_counted [of ip flags k2 r k1 L] assms(2,3) by simp
  obtain found s where f: "fs_namei (Some (cwd (kcur k))) path (kf k) = (found, s)" by fastforce
  obtain oip s1 where g: "(if found = None \<and> flags AND O_CREAT \<noteq> 0
      then fs_create (Some (cwd (kcur k))) path FT_FILE s else (found, s)) = (oip, s1)" by fastforce
  show ?thesis
  proof (cases oip)
    case None
    then show ?thesis using assms(1,2) f g by (auto simp: sys_open_def)
  next
    case (Some ip)
    let ?k1 = "k\<lparr>kf := s1\<rparr>"
    let ?err = "if dev_node ?k1 ip \<and> node_major ?k1 ip < NDEV then dev_open (node_major ?k1 ip) (node_minor ?k1 ip) else 0"
    let ?k2 = "if flags AND O_TRUNC \<noteq> 0 \<and> itype (icache s1 ip) = FT_FILE
                then on_fs (\<lambda>s. fs_iupdate ip (upd_inode ip (\<lambda>i. i\<lparr>isize := 0, idirty := True\<rparr>) s)) ?k1 else ?k1"
    have r: "(r, k1) = (if ?err < 0 then (?err, on_fs (fs_iput ip) ?k1) else install_file ip flags ?k2)"
      using assms(1) f g Some by (simp add: sys_open_def Let_def)
    show ?thesis
    proof (cases "?err < 0")
      case True
      then show ?thesis using r assms(2) by auto
    next
      case False
      then show ?thesis using inst [of ip ?k2] r by simp
    qed
  qed
qed

lemma close_counted: "sys_close n k = (r, k1) \<Longrightarrow> counted_with L (kpt k) \<Longrightarrow> counted_with L (kpt k1)"
  by (auto simp: sys_close_def fd_file_def word_le_nat_alt intro!: close_fd_counted split: option.splits if_splits)

text \<open>A \<open>dup\<close> that fails for want of a descriptor has raised the count.\<close>

lemma dup_counted:
  assumes "sys_dup n k = (r, k1)" and "counted_with L (kpt k)" and "\<not> dead (kcur k)"
  shows "r \<noteq> - EMFILE \<Longrightarrow> counted_with L (kpt k1)"
    and "r = - EMFILE \<Longrightarrow> \<exists>j. fd_file n k = Some j \<and> counted_with (L(j := Suc (L j))) (kpt k1)"
proof -
  have "r \<noteq> - EMFILE \<and> counted_with L (kpt k1) \<or>
    r = - EMFILE \<and> (\<exists>j. fd_file n k = Some j \<and> counted_with (L(j := Suc (L j))) (kpt k1))"
  proof (cases "fd_file n k")
    case (Some j)
    let ?s = "upd_ofile j (\<lambda>f. f\<lparr>of_refcount := of_refcount f + 1\<rparr>) (kpt k)"
    obtain q t where f: "fd_alloc j ?s = (q, t)" by fastforce
    have r: "r = q" "kpt k1 = t" using assms(1) Some f by (auto simp: sys_dup_def)
    show ?thesis
    proof (cases "q < 0")
      case True
      then have q: "q = - EMFILE" "t = ?s"
        using f by (auto simp: fd_alloc_def fd_alloc_from_def split: option.splits)
      have "refs ?s i = refs (kpt k) i" for i by (simp add: refs_def)
      then have "counted_with (L(j := Suc (L j))) ?s"
        using assms(2) by (simp add: counted_with_def count_ok_with_def fds_wf_def pids_ok_def)
      then show ?thesis using q r Some by simp
    next
      case False
      then obtain m where m: "m < 16" "fd (kcur k) m = None" "t = upd_proc (curproc (kpt k)) (\<lambda>p. p\<lparr>fd := (fd p)(m := Some j)\<rparr>) ?s"
        using fd_allocD [OF f [unfolded fd_alloc_def]] by auto
      have "counted_with L t"
        by (rule new_fd_counted [OF assms(2) m(1,2) assms(3)]) (use m(3) in \<open>auto simp: upd_proc_def\<close>)
      then show ?thesis using r False by simp
    qed
  qed (use assms in \<open>simp add: sys_dup_def\<close>)
  then show "r \<noteq> - EMFILE \<Longrightarrow> counted_with L (kpt k1)"
    "r = - EMFILE \<Longrightarrow> \<exists>j. fd_file n k = Some j \<and> counted_with (L(j := Suc (L j))) (kpt k1)" by blast+
qed

lemma fcntl_counted:
  assumes "sys_fcntl n cmd arg k = (r, k1)" and "counted_with L (kpt k)" and "\<not> dead (kcur k)"
  shows "counted_with L (kpt k1)"
proof (cases "fd_file n k")
  case (Some j)
  let ?inc = "upd_ofile j (\<lambda>f. f\<lparr>of_refcount := of_refcount f + 1\<rparr>) (kpt k)"
  obtain q t where f: "fd_alloc_from j (unat arg) ?inc = (q, t)" by fastforce
  have dup: "counted_with L (if q < 0 then upd_ofile j (\<lambda>f. f\<lparr>of_refcount := of_refcount f - 1\<rparr>) t else t)"
  proof (cases "q < 0")
    case True
    then have "files_same (kpt k) (upd_ofile j (\<lambda>f. f\<lparr>of_refcount := of_refcount f - 1\<rparr>) t)"
      using fd_allocD [OF f] by (auto simp: files_same_def)
    then show ?thesis using True files_same_counted assms(2) by auto
  next
    case False
    then obtain m where m: "m < 16" "fd (kcur k) m = None" "t = upd_proc (curproc (kpt k)) (\<lambda>p. p\<lparr>fd := (fd p)(m := Some j)\<rparr>) ?inc"
      using fd_allocD [OF f] by auto
    have "counted_with L t"
      by (rule new_fd_counted [OF assms(2) m(1,2) assms(3)]) (use m(3) in \<open>auto simp: upd_proc_def\<close>)
    then show ?thesis using False by simp
  qed
  have fl: "counted_with L (kpt (upd_cur (\<lambda>p. p\<lparr>fd_flags := g p\<rparr>) k))" for g
    by (rule files_same_counted [OF _ assms(2)], rule files_same_cur) (simp_all add: same_files dead_def)
  show ?thesis using assms(1,2) Some f dup fl by (auto simp: sys_fcntl_def Let_def split: if_splits)
qed (use assms in \<open>simp add: sys_fcntl_def\<close>)

lemma dup2_counted:
  assumes "sys_dup2 a b k = (r, k1)" and "counted_with L (kpt k)" and "\<not> dead (kcur k)"
  shows "counted_with L (kpt k1)"
proof (cases "fd_file a k = None \<or> b \<ge> of_nat MAXFD")
  case True
  then show ?thesis using assms by (auto simp: sys_dup2_def)
next
  case False
  let ?k1 = "if fd (kcur k) (unat b) \<noteq> None then snd (sys_close b k) else k"
  have b: "unat b < 16" using False by (simp add: word_le_nat_alt not_le)
  have sc: "snd (sys_close b k) = close_fd (unat b) k" if "fd (kcur k) (unat b) \<noteq> None"
    using that False by (auto simp: sys_close_def fd_file_def)
  have k1: "counted_with L (kpt ?k1)" "curproc (kpt ?k1) = curproc (kpt k)" "fd (kcur ?k1) (unat b) = None"
    using assms(2) close_fd_counted [OF assms(2) b] close_fd_cur [of "unat b" k] sc by auto
  have alive: "\<not> dead (kcur ?k1)"
  proof (cases "fd (kcur k) (unat b)")
    case (Some i)
    have "dead (kcur (close_fd (unat b) k)) \<Longrightarrow> dead (kcur k)"
      using drop_ofile_files [of i "upd_cur (clear_fd (unat b)) k"] Some
      by (auto simp: close_fd_def files_same_def clear_fd_def dead_def split: if_splits)
    then show ?thesis using assms(3) sc Some by auto
  qed (use assms(3) in simp)
  show ?thesis
  proof (cases "fd_file a ?k1")
    case None
    then show ?thesis using assms(1) False k1 by (auto simp: sys_dup2_def Let_def)
  next
    case (Some j)
    let ?t = "kpt (upd_cur (\<lambda>p. p\<lparr>fd := (fd p)(unat b := Some j)\<rparr>)
                    (on_pt (upd_ofile j (\<lambda>f. f\<lparr>of_refcount := of_refcount f + 1\<rparr>)) ?k1))"
    have "counted_with L ?t"
      by (rule new_fd_counted [OF k1(1) b k1(3) alive]) (auto simp: upd_proc_def)
    then show ?thesis using assms(1) False Some by (auto simp: sys_dup2_def Let_def)
  qed
qed

text \<open>An open file that has just been allocated, put into a descriptor.\<close>

lemma alloc_fd_counted:
  assumes "counted_with L s" and "\<not> dead (cur s)" and "ofile_alloc s = (Some j, s1)"
    and "\<And>f. of_refcount (g f) = of_refcount f" and "fd_alloc j (upd_ofile j g s1) = (n, t)"
  shows "n < 0 \<and> of_refcount (ofile_table s j) = 0 \<and> t = upd_ofile j g (upd_ofile j (\<lambda>f. f\<lparr>of_refcount := 1\<rparr>) s) \<or>
    counted_with L t \<and> \<not> dead (cur t) \<and> of_refcount (ofile_table s j) = 0 \<and>
    (\<exists>m < MAXFD. n = int m \<and> fd (cur s) m = None \<and> t = upd_proc (curproc s) (\<lambda>p. p\<lparr>fd := (fd p)(m := Some j)\<rparr>)
       (upd_ofile j g (upd_ofile j (\<lambda>f. f\<lparr>of_refcount := 1\<rparr>) s)))"
proof -
  have j: "of_refcount (ofile_table s j) = 0" "s1 = upd_ofile j (\<lambda>f. f\<lparr>of_refcount := 1\<rparr>) s"
    using ofile_allocD [OF assms(3)] by auto
  let ?s = "upd_ofile j g s1"
  show ?thesis
  proof (cases "n < 0")
    case True
    then show ?thesis using fd_allocD [OF assms(5) [unfolded fd_alloc_def]] j by auto
  next
    case False
    then obtain m where m: "m < 16" "n = int m" "fd (cur s) m = None" "t = upd_proc (curproc s) (\<lambda>p. p\<lparr>fd := (fd p)(m := Some j)\<rparr>) ?s"
      using fd_allocD [OF assms(5) [unfolded fd_alloc_def]] j(2) by auto
    have "counted_with L t"
      by (rule new_fd_counted [OF assms(1) m(1,3) assms(2)]) (use m(4) j assms(4) in \<open>auto simp: upd_proc_def\<close>)
    moreover have "\<not> dead (cur t)" using m(4) j(2) assms(2) by (simp add: dead_def)
    ultimately show ?thesis using m j by auto
  qed
qed

lemma pipe_counted:
  assumes "do_pipe s = (res, t)" and "counted_with L s" and "\<not> dead (cur s)"
  shows "counted_with L t"
proof (cases "first_idx (\<lambda>i. readers (pipe_table s i) = 0 \<and> writers (pipe_table s i) = 0) MAXPIPE")
  case None
  then show ?thesis using assms by (simp add: do_pipe_def)
next
  case (Some pi)
  let ?s1 = "upd_pipe pi new_pipe s"
  have c1: "counted_with L ?s1" and a1: "\<not> dead (cur ?s1)"
    using files_same_counted [OF _ assms(2)] assms(3) by (simp_all add: same_files)
  obtain or s2 where o1: "ofile_alloc ?s1 = (or, s2)" by fastforce
  show ?thesis
  proof (cases or)
    case None
    then have "t = shut_pipe pi ?s1" using assms(1) Some o1 ofile_allocD [OF o1] by (simp add: do_pipe_def Let_def)
    then show ?thesis using files_same_counted [OF _ assms(2)] by (simp add: shut_pipe_def same_files)
  next
    case r: (Some r)
    let ?g = "\<lambda>fl f. f\<lparr>of_inode := IPipe (pi + 1), of_offset := 0, of_flags := fl\<rparr>"
    obtain n1 s4 where f1: "fd_alloc r (upd_ofile r (?g OFILE_PIPE_READ) s2) = (n1, s4)" by fastforce
    note A = alloc_fd_counted [OF c1 a1 o1 [unfolded r] _ f1]
    show ?thesis
    proof (cases "n1 < 0")
      case True
      then have "t = shut_pipe pi (upd_ofile r (\<lambda>f. f\<lparr>of_refcount := 0\<rparr>) s4)"
        using assms(1) Some o1 r f1 by (simp add: do_pipe_def Let_def)
      then have "files_same s t" using A True by (auto simp: files_same_def shut_pipe_def)
      then show ?thesis using assms(2) by (rule files_same_counted)
    next
      case False
      then obtain m where m: "counted_with L s4" "\<not> dead (cur s4)" "of_refcount (ofile_table s r) = 0" "n1 = int m" "fd (cur s) m = None"
        "s4 = upd_proc (curproc s) (\<lambda>p. p\<lparr>fd := (fd p)(m := Some r)\<rparr>)
           (upd_ofile r (?g OFILE_PIPE_READ) (upd_ofile r (\<lambda>f. f\<lparr>of_refcount := 1\<rparr>) ?s1))"
        using A by auto
      obtain ow s5 where o2: "ofile_alloc s4 = (ow, s5)" by fastforce
      show ?thesis
      proof (cases ow)
        case None
        then have "t = shut_pipe pi (upd_ofile r (\<lambda>f. f\<lparr>of_refcount := 0\<rparr>)
            (upd_proc (curproc s4) (\<lambda>p. p\<lparr>fd := (fd p)(m := None)\<rparr>) s4))"
          using assms(1) Some o1 r f1 False m(4) o2 ofile_allocD [OF o2] by (simp add: do_pipe_def Let_def)
        then have "files_same s t" using m(3,5,6) by (auto simp: files_same_def shut_pipe_def dead_def fun_upd_idem)
        then show ?thesis using assms(2) by (rule files_same_counted)
      next
        case w: (Some w)
        obtain n2 s7 where f2: "fd_alloc w (upd_ofile w (?g (OFILE_PIPE_WRITE OR 1)) s5) = (n2, s7)" by fastforce
        note B = alloc_fd_counted [OF m(1,2) o2 [unfolded w] _ f2]
        show ?thesis
        proof (cases "n2 < 0")
          case True
          then have t: "t = shut_pipe pi (upd_ofile w (\<lambda>f. f\<lparr>of_refcount := 0\<rparr>) (upd_ofile r (\<lambda>f. f\<lparr>of_refcount := 0\<rparr>)
              (upd_proc (curproc s7) (\<lambda>p. p\<lparr>fd := (fd p)(m := None)\<rparr>) s7)))"
            using assms(1) Some o1 r f1 False m(4) o2 w f2 by (simp add: do_pipe_def Let_def)
          have s7: "s7 = upd_ofile w (?g (OFILE_PIPE_WRITE OR 1)) (upd_ofile w (\<lambda>f. f\<lparr>of_refcount := 1\<rparr>) s4)"
            "of_refcount (ofile_table s4 w) = 0" using B True by auto
          have "files_same s t" using m(3,5,6) s7(2) unfolding t s7(1)
            by (auto simp: files_same_def shut_pipe_def dead_def fun_upd_idem split: if_splits)
          then show ?thesis using assms(2) by (rule files_same_counted)
        next
          case n2: False
          then have "t = s7" using assms(1) Some o1 r f1 False m(4) o2 w f2 by (simp add: do_pipe_def Let_def)
          then show ?thesis using B n2 by auto
        qed
      qed
    qed
  qed
qed

lemma finish_sel [simp]:
  "kpt (snd (finish_pipe_read p buf len r k)) = snd r" "kpt (snd (finish_pipe_write p buf len r' k)) = snd r'"
  "kt (snd (finish_tread w buf r2 k)) = snd r2"
  by (auto simp: finish_pipe_read_def finish_pipe_write_def finish_tread_def Let_def split: prod.split option.split tread.split)

lemma read_same: "files_same (kpt k) (kpt (snd (sys_read n buf cnt k)))"
  by (simp add: sys_read_def same_files split: option.split iptr.split prod.split)

lemma write_file_same: "files_same (kpt k) (kpt (snd (write_file j ip buf cnt k)))"
  by (simp add: write_file_def Let_def same_files split: prod.split)

lemma dev_writeD: "dev_write ma mi src len s = (r, t) \<Longrightarrow> pt t = pt s"
  using dev_write_pt [of ma mi src len s] by (simp del: dev_write_pt)

lemma dev_ioctlD: "dev_ioctl ma mi cmd arg (m, s) = (r, m1, t) \<Longrightarrow> pt t = pt s"
  using dev_ioctl_pt [of ma mi cmd arg m s] by (simp del: dev_ioctl_pt)

lemma write_same: "files_same (kpt k) (kpt (snd (sys_write n buf cnt k)))"
proof (cases "fd_file n k")
  case (Some j)
  show ?thesis
  proof (cases "ofile_pipe (kfile k j)")
    case None
    have "files_same (kpt k) (kpt k1)" if "write_file j ip buf cnt k = (r, k1)" for ip r k1
      using write_file_same [of k j ip buf cnt] that by simp
    then show ?thesis
      using Some None by (auto simp: sys_write_def same_files split: iptr.split prod.split dest!: dev_writeD)
  qed (use Some in \<open>simp add: sys_write_def same_files\<close>)
qed (simp add: sys_write_def same_files)

lemma lseek_same: "files_same (kpt k) (kpt (snd (sys_lseek n off wh k)))"
  by (simp add: sys_lseek_def Let_def same_files split: option.split iptr.split)

lemma ioctl_same: "files_same (kpt k) (kpt (snd (sys_ioctl n cmd arg k)))"
  by (auto simp: sys_ioctl_def Let_def same_files split: option.split iptr.split prod.split dest!: dev_ioctlD)

lemma getdents_same: "files_same (kpt k) (kpt (snd (sys_getdents n buf cnt k)))"
  by (simp add: sys_getdents_def same_files split: option.split iptr.split prod.split sum.split)

lemma fstat_same: "files_same (kpt k) (kpt (snd (sys_fstat n buf k)))"
  by (simp add: sys_fstat_def same_files split: option.split iptr.split)

lemma signal_same: "files_same (kpt k) (kpt (snd (sys_signal n h k)))"
  by (simp add: sys_signal_def Let_def same_files dead_def)

lemma kill_same: "files_same (kpt k) (kpt (snd (sys_kill n h k)))"
  by (simp add: sys_kill_def Let_def same_files dead_def split: option.split)

lemma path_same:
  "files_same (kpt k) (kpt (snd (sys_chdir path k)))" "files_same (kpt k) (kpt (snd (sys_stat path buf k)))"
  "files_same (kpt k) (kpt (snd (fs_call f path k)))"
  by (simp_all add: sys_chdir_def sys_stat_def fs_call_def same_files dead_def split: option.split prod.split)

lemma getcwd_same: "sys_getcwd buf sz k = Some (r, k1) \<Longrightarrow> kpt k1 = kpt k"
  by (auto simp: sys_getcwd_def Let_def split: if_splits prod.splits Option.bind_splits)

lemma meminfo_same: "sys_meminfo info k = Some (r, k1) \<Longrightarrow> kpt k1 = kpt k"
  by (auto simp: sys_meminfo_def Let_def split: if_splits prod.splits Option.bind_splits)

lemma ret_of_sel [simp]: "snd (ret_of r) = snd r" "fst (ret_of r) = Ret (fst r)"
  by (simp_all add: ret_of_def)

lemma with_path_counted:
  "with_path a f k = Some R \<Longrightarrow> (\<And>p. counted_with L (kpt (snd (f p k)))) \<Longrightarrow> counted_with L (kpt (snd R))"
  by (auto simp: with_path_def split: Option.bind_splits)

lemma sig_loop_counted: "sig_loop sigs frame k = (r, k1) \<Longrightarrow> counted_with L (kpt k) \<Longrightarrow> counted_with L (kpt k1)"
proof (induction sigs arbitrary: k)
  case (Cons sig sigs)
  let ?k1 = "upd_cur (\<lambda>p. p\<lparr>sig_pending := sig_pending p AND NOT (push_bit sig 1)\<rparr>) k"
  have k1: "counted_with L (kpt ?k1)"
    by (rule files_same_counted [OF _ Cons.prems(2)], rule files_same_cur) (simp_all add: same_files dead_def)
  have stop: "counted_with L (kpt (upd_cur (\<lambda>p. p\<lparr>pstate := P_STOPPED\<rparr>) ?k1))"
    by (rule files_same_counted [OF _ k1], rule files_same_cur) (simp_all add: same_files dead_def)
  have push: "counted_with L (kpt (push_handler sig h frame ?k1))" for h
    unfolding push_handler_def Let_def
    by (rule files_same_counted [OF _ k1], rule files_same_cur) (simp_all add: same_files dead_def)
  show ?case
  proof (cases "sig_pending (kcur k) AND push_bit sig 1 = 0")
    case True
    then show ?thesis using Cons by simp
  next
    case False
    then have "sig_loop sigs frame ?k1 = (r, k1) \<or> k1 = upd_cur (\<lambda>p. p\<lparr>pstate := P_STOPPED\<rparr>) ?k1 \<or>
        (\<exists>q. do_exit (128 + int sig) ?k1 = (q, k1)) \<or> (\<exists>h. k1 = push_handler sig h frame ?k1)"
      using Cons.prems(1) by (auto simp: Let_def split: if_splits prod.splits)
    then show ?thesis using Cons.IH k1 stop push exit_counted [OF _ k1] by blast
  qed
qed simp

lemma resume_counted:
  assumes "counted_with L (kpt k)"
  shows "counted_with L (kpt (snd (resume_call w k)))"
proof (cases w)
  case (InWaitpid wpid status options)
  then show ?thesis using waitpid_counted [OF _ assms, of wpid status options]
    by (cases "do_waitpid wpid status options k") (simp add: resume_call_def)
qed (auto simp: resume_call_def pipe_read_resume_def pipe_write_resume_def same_files intro!: files_same_counted [OF _ assms])

text \<open>The results of the calls, one by one, in the form the dispatcher uses them.\<close>

lemma call_counted:
  assumes "counted_with L (kpt k)" and "\<not> dead (kcur k)"
  shows "counted_with L (kpt (snd (do_exit c k)))" "counted_with L (kpt (snd (sys_read n buf cnt k)))"
    "counted_with L (kpt (snd (sys_write n buf cnt k)))" "counted_with L (kpt (snd (sys_open path fl k)))"
    "counted_with L (kpt (snd (sys_close n k)))" "counted_with L (kpt (snd (sys_lseek n buf cnt k)))"
    "counted_with L (snd (sbrk_proc cnt (kpt k)))" "counted_with L (kpt (snd (do_waitpid w buf cnt k)))"
    "counted_with L (kpt (snd (do_vfork regs k)))" "counted_with L (kpt (snd (do_exec fr path argv k)))"
    "counted_with L (kpt (snd (sys_dup2 n buf k)))" "counted_with L (kpt (snd (sys_chdir path k)))"
    "counted_with L (kpt (snd (fs_call f path k)))" "counted_with L (kpt (snd (sys_stat path buf k)))"
    "counted_with L (kpt (snd (sys_fstat n buf k)))" "counted_with L (kpt (snd (sys_ioctl n buf cnt k)))"
    "counted_with L (kpt (snd (sys_signal n buf k)))" "counted_with L (kpt (snd (sys_kill n buf k)))"
    "counted_with L (kpt (snd (sys_fcntl n buf cnt k)))" "counted_with L (kpt (snd (sys_getdents n buf cnt k)))"
    "fst (sys_dup n k) \<noteq> - EMFILE \<Longrightarrow> counted_with L (kpt (snd (sys_dup n k)))"
    "counted_with L (kpt (snd (sys_pipe n k)))"
proof -
  note fs = files_same_counted [OF _ assms(1)]
  show "counted_with L (kpt (snd (sys_read n buf cnt k)))" "counted_with L (kpt (snd (sys_write n buf cnt k)))"
    "counted_with L (kpt (snd (sys_lseek n buf cnt k)))" "counted_with L (snd (sbrk_proc cnt (kpt k)))"
    "counted_with L (kpt (snd (sys_chdir path k)))" "counted_with L (kpt (snd (fs_call f path k)))"
    "counted_with L (kpt (snd (sys_stat path buf k)))" "counted_with L (kpt (snd (sys_fstat n buf k)))"
    "counted_with L (kpt (snd (sys_ioctl n buf cnt k)))" "counted_with L (kpt (snd (sys_signal n buf k)))"
    "counted_with L (kpt (snd (sys_kill n buf k)))" "counted_with L (kpt (snd (sys_getdents n buf cnt k)))"
    by (rule fs read_same write_same lseek_same files_same_sbrk path_same fstat_same ioctl_same signal_same
      kill_same getdents_same files_same_refl)+
  show "counted_with L (kpt (snd (do_exit c k)))" using exit_counted [OF prod.collapse [symmetric] assms(1)] .
  show "counted_with L (kpt (snd (sys_open path fl k)))" using open_counted [OF prod.collapse [symmetric] assms] .
  show "counted_with L (kpt (snd (sys_close n k)))" using close_counted [OF prod.collapse [symmetric] assms(1)] .
  show "counted_with L (kpt (snd (do_waitpid w buf cnt k)))" using waitpid_counted [OF prod.collapse [symmetric] assms(1)] .
  show "counted_with L (kpt (snd (do_vfork regs k)))" using vfork_counted [OF prod.collapse [symmetric] assms(1)] .
  show "counted_with L (kpt (snd (do_exec fr path argv k)))" using exec_counted [OF prod.collapse [symmetric] assms(1)] .
  show "counted_with L (kpt (snd (sys_dup2 n buf k)))" using dup2_counted [OF prod.collapse [symmetric] assms] .
  show "counted_with L (kpt (snd (sys_fcntl n buf cnt k)))" using fcntl_counted [OF prod.collapse [symmetric] assms] .
  show "fst (sys_dup n k) \<noteq> - EMFILE \<Longrightarrow> counted_with L (kpt (snd (sys_dup n k)))"
    using dup_counted(1) [OF prod.collapse [symmetric] assms] .
  have "counted_with L (snd (do_pipe (kpt k)))" using pipe_counted [OF prod.collapse [symmetric] assms] .
  then show "counted_with L (kpt (snd (sys_pipe n k)))" by (auto simp: sys_pipe_def split: prod.split sum.split)
qed

text \<open>
  The references lost, after a system call: a \<open>dup\<close> (call 41) that finds no free descriptor
  returns -EMFILE, but has already counted the new descriptor at its open file.
\<close>

definition lose_dup :: "u32 \<Rightarrow> u32 \<Rightarrow> outcome \<Rightarrow> kern \<Rightarrow> (nat \<Rightarrow> nat) \<Rightarrow> nat \<Rightarrow> nat" where
  "lose_dup num n r k L =
     (if num = 41 \<and> r = Ret (- EMFILE)
      then case fd_file n k of Some j \<Rightarrow> L(j := Suc (L j)) | None \<Rightarrow> L
      else L)"

lemma syscall_counted:
  assumes "syscall_dispatch fr regs num a1 a2 a3 a4 k = Some R" and "counted_with L (kpt k)" and "\<not> dead (kcur k)"
  shows "counted_with (lose_dup num a1 (fst R) k L) (kpt (snd R))"
proof (cases "num = 41 \<and> fst R = Ret (- EMFILE)")
  case True
  then have "sys_dup a1 k = (- EMFILE, snd R)"
    using assms(1) by (cases "sys_dup a1 k") (auto simp: syscall_dispatch_def ret_of_def)
  from dup_counted(2) [OF this assms(2,3) refl] True show ?thesis by (auto simp: lose_dup_def)
next
  case False
  then have lose: "lose_dup num a1 (fst R) k L = L" by (auto simp: lose_dup_def)
  have "counted_with L (kpt (snd R))"
  proof -
    note C = call_counted [OF assms(2,3)]
    note D = assms(1) [unfolded syscall_dispatch_def]
    have ex: "sys_exec fr a1 a2 k = Some R \<Longrightarrow> ?thesis"
      by (auto simp: sys_exec_def C split: if_splits Option.bind_splits)
    have rn: "sys_rename a1 a2 k = Some R \<Longrightarrow> ?thesis"
      by (auto simp: sys_rename_def C intro: with_path_counted split: Option.bind_splits)
    have gc: "map_option ret_of (sys_getcwd a1 a2 k) = Some R \<Longrightarrow> ?thesis"
      "map_option ret_of (sys_meminfo a1 k) = Some R \<Longrightarrow> ?thesis"
      using assms(2) by (auto dest!: getcwd_same meminfo_same)
    have wp: "with_path a1 f k = Some R \<Longrightarrow> (\<And>p. counted_with L (kpt (snd (f p k)))) \<Longrightarrow> ?thesis" for f
      by (rule with_path_counted)
    have dup: "num = 41 \<Longrightarrow> R = ret_of (sys_dup a1 k) \<Longrightarrow> ?thesis" using False C(21) by auto
    show ?thesis
      using D ex rn gc dup by (auto simp: C assms(2) split: if_splits prod.splits intro: wp dest!: arg_cong [of "sbrk_proc a1 (kpt k)" _ snd])
  qed
  with lose show ?thesis by simp
qed

lemma schedule_counted: "counted_with L s \<Longrightarrow> counted_with L (schedule s)"
proof (cases "pick_next s")
  case (Some n)
  let ?s1 = "if pstate (cur s) = P_RUNNING then upd_proc (curproc s) (\<lambda>p. p\<lparr>pstate := P_READY\<rparr>) s else s"
  assume c: "counted_with L s"
  have "counted_with L ?s1"
    by (rule files_same_counted [OF _ c]) (auto simp: files_same_def dead_def)
  then show ?thesis using switch_counted pick_next_SomeD(1) [OF Some] Some by (simp add: schedule_def Let_def)
qed (simp add: schedule_def)

lemma open_program_err: "open_program path k = (Inl e, k1) \<Longrightarrow> e < 0"
  by (auto simp: open_program_def split: prod.splits option.splits if_splits)

lemma load_program_err: "load_program path argv rom h k = (Inl e, k1) \<Longrightarrow> e < 0"
  by (auto simp: load_program_def load_fallback_def load_binary_def Let_def dest: open_program_err
      split: prod.splits sum.splits if_splits)

lemma spawn_alive:
  assumes "do_spawn first_run path argv k = (r, k1)" and "counted_with L (kpt k)" and "0 \<le> r"
  shows "nat r < MAXPROC \<and> pstate (proctab (kpt k1) (nat r)) = P_READY"
proof -
  obtain o1 ko where op: "open_program path k = (o1, ko)" by fastforce
  obtain ip h where a: "o1 = Inr (ip, h)"
    using assms(1,3) op open_program_err [of path k _ ko] by (cases o1) (auto simp: do_spawn_def)
  obtain oc s where al: "alloc_pid (kpt (on_fs (fs_iput ip) ko)) = (oc, s)" by fastforce
  obtain c where c: "oc = Some c" using assms(1,3) op a al by (cases oc) (auto simp: do_spawn_def Let_def)
  have n: "next_pid (kpt (on_fs (fs_iput ip) ko)) < 16"
    using assms(2) open_programD [OF op] by (simp add: counted_with_def fds_wf_def)
  have "c < 16" using alloc_pidD(2) [OF al n c] by simp
  then show ?thesis using assms(1,3) op a al c
    by (auto simp: do_spawn_def Let_def split: if_splits prod.splits sum.splits dest: load_program_err)
qed

lemma spawn_fd_counted:
  assumes "counted_with L (kpt k)"
  shows "counted_with L (kpt (snd (do_spawn_fd fr path argv a b c k)))"
proof -
  obtain r k1 where s: "do_spawn fr path argv k = (r, k1)" by fastforce
  note c1 = spawn_counted [OF s assms]
  show ?thesis
  proof (cases "r < 0 \<or> r \<ge> int MAXPROC")
    case False
    then have "nat r < 16" "\<not> dead (proctab (kpt k1) (nat r))" using spawn_alive [OF s assms] by (auto simp: dead_def)
    then show ?thesis using s False replace_fd_counted [where L = L] c1 by (simp add: do_spawn_fd_def)
  qed (use s c1 in \<open>auto simp: do_spawn_fd_def\<close>)
qed

section \<open>Runs\<close>

text \<open>
  What the kernel does between boot and any later moment, as far as processes can tell: system
  calls of the current process, their continuation after a sleep, signal delivery, context
  switches, spawns by the built-in shell, the end of a program entered by \<open>exec\<close>, and anything
  that leaves the process tables alone (user code, interrupts, the console). The run carries
  the references lost so far.
\<close>

inductive kernel_run :: "(nat \<Rightarrow> nat) \<Rightarrow> kern \<Rightarrow> bool" where
  boot: "kpt k = proc_init boot_ptab \<Longrightarrow> kernel_run (\<lambda>_. 0) k"
| elsewhere: "kernel_run L k \<Longrightarrow> kpt k1 = kpt k \<Longrightarrow> kernel_run L k1"
| call: "kernel_run L k \<Longrightarrow> \<not> dead (kcur k) \<Longrightarrow> syscall_dispatch fr regs num a1 a2 a3 a4 k = Some (r, k1) \<Longrightarrow>
    kernel_run (lose_dup num a1 r k L) k1"
| resume: "kernel_run L k \<Longrightarrow> resume_call w k = (r, k1) \<Longrightarrow> kernel_run L k1"
| signals: "kernel_run L k \<Longrightarrow> sig_loop sigs frame k = (q, k1) \<Longrightarrow> kernel_run L k1"
| switch: "kernel_run L k \<Longrightarrow> kernel_run L (on_pt schedule k)"
| spawn: "kernel_run L k \<Longrightarrow> do_spawn_fd fr path argv a b c k = (n, k1) \<Longrightarrow> kernel_run L k1"
| program_end: "kernel_run L k \<Longrightarrow> exec_return code k = (r, k1) \<Longrightarrow> kernel_run L k1"

lemma boot_fd:
  assumes "counted_with L s" and "\<not> dead (cur s)" and "f < MAXFD" and "fd (cur s) f = None"
  shows "counted_with L (init_fd f s) \<and> \<not> dead (cur (init_fd f s)) \<and>
    (\<forall>n. n \<noteq> f \<longrightarrow> fd (cur (init_fd f s)) n = fd (cur s) n)"
proof (cases "first_idx (\<lambda>i. of_refcount (ofile_table s i) = 0) MAXOPEN")
  case (Some j)
  then have "of_refcount (ofile_table s j) = 0" by (rule first_idx_SomeD)
  then have "counted_with L (init_fd f s)"
    using Some by (intro new_fd_counted [OF assms(1,3,4,2)]) (auto simp: init_fd_def upd_proc_def)
  then show ?thesis using Some assms(2) by (simp add: init_fd_def dead_def)
qed (use assms in \<open>simp add: init_fd_def\<close>)

lemma boot_counted: "counted (proc_init boot_ptab)"
proof -
  obtain s where s: "proc_init boot_ptab = init_fd 2 (init_fd 1 (init_fd 0 s))" "counted s" "\<not> dead (cur s)" "\<forall>n. fd (cur s) n = None"
  proof
    let ?s = "(upd_proc 0 (\<lambda>p. p\<lparr>pstate := P_RUNNING, pid := 0, ppid := 0, cwd := 1, pgrp := 0, mem_base := 0, data_a5 := 0,
        kstack := put32 (kstack p) 0 KSTACK_CANARY\<rparr>)
      (boot_ptab\<lparr>proctab := (\<lambda>i. if i < MAXPROC then (proctab boot_ptab i)\<lparr>pstate := P_FREE, pid := i\<rparr> else proctab boot_ptab i),
        ofile_table := (\<lambda>i. if i < MAXOPEN then (ofile_table boot_ptab i)\<lparr>of_refcount := 0\<rparr> else ofile_table boot_ptab i),
        curproc := 0\<rparr>))\<lparr>nproc := 1\<rparr>"
    show "proc_init boot_ptab = init_fd 2 (init_fd 1 (init_fd 0 ?s))" by (simp add: proc_init_def Let_def)
    have z: "refs ?s j = 0" for j by (simp add: refs_def fds_of_def boot_ptab_def zero_proc_def)
    then show "counted ?s"
      by (simp add: counted_with_def count_ok_with_def fds_wf_def pids_ok_def boot_ptab_def zero_ofile_def zero_proc_def)
    show "\<not> dead (cur ?s)" "\<forall>n. fd (cur ?s) n = None" by (simp_all add: dead_def boot_ptab_def zero_proc_def)
  qed
  have a: "counted (init_fd 0 s)" "\<not> dead (cur (init_fd 0 s))" "fd (cur (init_fd 0 s)) 1 = None" "fd (cur (init_fd 0 s)) 2 = None"
    using boot_fd [OF s(2,3), of 0] s(4) by simp_all
  have b: "counted (init_fd 1 (init_fd 0 s))" "\<not> dead (cur (init_fd 1 (init_fd 0 s)))" "fd (cur (init_fd 1 (init_fd 0 s))) 2 = None"
    using boot_fd [OF a(1,2), of 1] a(3,4) by simp_all
  show ?thesis using boot_fd [OF b(1,2), of 2] b(3) s(1) by simp
qed

lemma run_counted:
  "kernel_run L k \<Longrightarrow> counted_with L (kpt k)"
proof (induction rule: kernel_run.induct)
  case (call L k fr regs num a1 a2 a3 a4 r k1)
  then show ?case using syscall_counted [OF call(3) _ call(2)] by simp
next
  case (resume L k w r k1)
  then show ?case using resume_counted [of L k w] by simp
next
  case (spawn L k fr path argv a b c n k1)
  then show ?case using spawn_fd_counted [of L k fr path argv a b c] by simp
next
  case (program_end L k code r k1)
  have "files_same (kpt k) (kpt k1)" using program_end(2) by (auto simp: exec_return_def files_same_def dead_def on_pt_def upd_cur_def split: if_splits)
  then show ?case using program_end(3) by (rule files_same_counted)
qed (auto simp: boot_counted schedule_counted intro: sig_loop_counted)

text \<open>
  C21. In every run of the kernel, whatever the calls, their order, their failures and the
  interleaving of processes, each open file's count (a byte, so modulo 256) is the number of
  descriptors of all processes that refer to it and of the \<open>dup\<close> calls on it that failed for want
  of a descriptor, which are the only calls that lose a reference; free and exited processes hold
  no descriptor. So as long as no such \<open>dup\<close> has failed, an open file, its pipe end or its inode
  is released exactly when the last descriptor goes.
\<close>

theorem descriptors_counted: "kernel_run L k \<Longrightarrow> counted_with L (kpt k)"
  by (rule run_counted)

definition boot_kern :: kern where
  "boot_kern = prog_kern\<lparr>kt := (console_with [])\<lparr>pt := proc_init boot_ptab\<rparr>\<rparr>"

lemma descriptors_counted_witness:
  "counted (kpt (snd (the (syscall_dispatch 0 (\<lambda>_. 0) 42 0x1000 0 0 0 boot_kern))))"
proof (rule descriptors_counted)
  let ?R = "the (syscall_dispatch 0 (\<lambda>_. 0) 42 0x1000 0 0 0 boot_kern)"
  have b: "kernel_run (\<lambda>_. 0) boot_kern" by (rule kernel_run.boot) (simp add: boot_kern_def)
  have d: "\<not> dead (kcur boot_kern)"
    by (simp add: boot_kern_def dead_def) code_simp
  have "syscall_dispatch 0 (\<lambda>_. 0) 42 0x1000 0 0 0 boot_kern = Some (fst ?R, snd ?R)"
    by (simp add: syscall_dispatch_def ret_of_def)
  from kernel_run.call [OF b d this] show "kernel_run (\<lambda>_. 0) (snd ?R)" by (simp add: lose_dup_def)
qed

text \<open>
  The lost reference: a \<open>dup\<close> with no descriptor left returns -EMFILE but has already counted the
  new descriptor. From then on the open file's count is one more than its descriptors, so closing
  them all does not release it.
\<close>

theorem dup_leaks:
  assumes "counted (kpt k)" and "fd_file n k = Some j" and "\<forall>m < MAXFD. fd (kcur k) m \<noteq> None"
  shows "fst (sys_dup n k) = - EMFILE \<and>
    of_refcount (kfile (snd (sys_dup n k)) j) = of_nat (Suc (refs (kpt (snd (sys_dup n k))) j))"
proof -
  let ?s = "upd_ofile j (\<lambda>f. f\<lparr>of_refcount := of_refcount f + 1\<rparr>) (kpt k)"
  have "find (\<lambda>i. fd (cur ?s) i = None) [0..<16] = None" using assms(3) unfolding find_None_iff by auto
  then have "sys_dup n k = (- EMFILE, on_pt (\<lambda>_. ?s) k)"
    using assms(2) by (simp add: sys_dup_def fd_alloc_def fd_alloc_from_def del: upt_conv_Cons)
  moreover have "refs ?s j = refs (kpt k) j" by (simp add: refs_def)
  ultimately show ?thesis using assms(1) by (simp add: counted_with_def count_ok_with_def)
qed

text \<open>A process whose sixteen descriptors all are the console.\<close>

definition full_ptab :: ptab where
  "full_ptab = boot_ptab\<lparr>
     proctab := (\<lambda>i. zero_proc\<lparr>pid := i, pstate := (if i = 0 then P_RUNNING else P_FREE),
       fd := (\<lambda>n. if i = 0 \<and> n < MAXFD then Some 0 else None)\<rparr>),
     ofile_table := (\<lambda>j. zero_ofile\<lparr>of_refcount := (if j = 0 then 16 else 0)\<rparr>), nproc := 1\<rparr>"

definition full_kern :: kern where
  "full_kern = on_pt (\<lambda>_. full_ptab) boot_kern"

lemma full_refs: "refs full_ptab j = (if j = 0 then 16 else 0)"
proof -
  have "fds_of (proctab full_ptab p) j = (if p = 0 \<and> j = 0 then 16 else 0)" for p
    by (simp add: fds_of_def full_ptab_def zero_proc_def)
  then show ?thesis by (simp add: refs_def)
qed

lemma full_facts:
  "counted (kpt full_kern)" "\<forall>m < MAXFD. fd (kcur full_kern) m \<noteq> None" "fd_file 0 full_kern = Some 0"
  by (simp_all add: counted_with_def count_ok_with_def fds_wf_def pids_ok_def full_refs full_kern_def dead_def fd_file_def)
     (simp_all add: full_ptab_def boot_ptab_def zero_proc_def zero_ofile_def)

lemma dup_leaks_witness:
  "fst (sys_dup 0 full_kern) = - EMFILE \<and>
    of_refcount (kfile (snd (sys_dup 0 full_kern)) 0) = of_nat (Suc (refs (kpt (snd (sys_dup 0 full_kern))) 0))"
  by (rule dup_leaks [OF full_facts(1,3,2)])

end
