(* ===== verification/Lifecycle_Correct.thy ===== *)
theory Lifecycle_Correct
  imports Fd_Counts
begin

text \<open>
  What the process lifecycle guarantees: the first kernel stack is the frame the context switch and
  the return from a trap expect, the scheduler starves nobody, a signal handler leaves the
  interrupted program as it found it, and vfork, exit and wait fit together.
\<close>

section \<open>The first kernel stack\<close>

lemma get32_zero_range: "a \<le> p \<Longrightarrow> p + 4 \<le> a + n \<Longrightarrow> get32 (zero_range a n b) p = 0"
  by (simp add: get32_def get16_def zero_range_def)

lemma get32_zero_range_other: "p + 4 \<le> a \<or> a + n \<le> p \<Longrightarrow> get32 (zero_range a n b) p = get32 b p"
  by (auto simp: get32_def get16_def zero_range_def)

lemma get16_put32_other_nat: "p + 2 \<le> a \<or> a + 4 \<le> p \<Longrightarrow> get16 (put32 b a v) p = get16 b (p :: nat)"
  by (intro get16_cong put32_other_nat) auto

lemma get16_zero_range_other: "p + 2 \<le> a \<or> a + n \<le> p \<Longrightarrow> get16 (zero_range a n b) p = get16 b p"
  by (auto simp: get16_def zero_range_def)

lemmas byte_field_simps = get32_zero_range get32_zero_range_other get32_put32_other_nat get16_put32_other_nat
  get16_zero_range_other get32_put16_other_nat

lemma saved_registers:
  assumes "i < 15"
  shows "get32 (put32 (zero_range 446 60 b) 498 v) (446 + 4 * i) = (if i = 13 then v else 0)"
proof (cases "i = 13")
  case False
  then have "498 + 4 \<le> 446 + 4 * i \<or> 446 + 4 * i + 4 \<le> 498" by arith
  then show ?thesis using False assms by (simp add: get32_put32_other_nat get32_zero_range)
qed simp

lemma saved_registers_zero: "i < 15 \<Longrightarrow> get32 (zero_range 446 60 b) (446 + 4 * i) = 0"
  by (simp add: get32_zero_range)

text \<open>
  The kernel stack built for a new process is exactly what \<open>swtch\<close>, \<open>proc_first_run\<close> and the
  return from the trap pop: eleven zero registers and the trampoline's address for \<open>swtch\<close>, then at
  the offset \<open>syscall_kstack_frame\<close> the user stack pointer, fifteen registers that are zero but for A5,
  a zero SR and the entry as PC, up to the end of the stack, with the canary in place.
\<close>

theorem first_run_frame:
  "let p = proc_setup_kstack first_run entry user_sp user_a5 q; b = kstack p in
     (\<forall>i < 11. get32 b (ksp p + 4 * i) = 0) \<and> get32 b (ksp p + 44) = first_run \<and>
     ksp p + 48 = syscall_kstack_frame \<and> get32 b syscall_kstack_frame = user_sp \<and>
     (\<forall>i < 15. get32 b (syscall_kstack_frame + 4 + 4 * i) = (if i = 13 then user_a5 else 0)) \<and>
     get16 b (syscall_kstack_frame + 64) = 0 \<and> get32 b (syscall_kstack_frame + 66) = entry \<and>
     syscall_kstack_frame + 70 = KSTACK_SIZE \<and> canary_ok p"
  by (cases "user_a5 = 0")
     (simp_all add: proc_setup_kstack_def syscall_kstack_frame_def canary_ok_def Let_def byte_field_simps saved_registers
       saved_registers_zero)

lemma first_run_frame_witness:
  "let p = proc_setup_kstack 0x1000 0x40000 0x60000 0x50000 zero_proc; b = kstack p in
     (\<forall>i < 11. get32 b (ksp p + 4 * i) = 0) \<and> get32 b (ksp p + 44) = 0x1000 \<and>
     ksp p + 48 = syscall_kstack_frame \<and> get32 b syscall_kstack_frame = 0x60000 \<and>
     (\<forall>i < 15. get32 b (syscall_kstack_frame + 4 + 4 * i) = (if i = 13 then 0x50000 else 0)) \<and>
     get16 b (syscall_kstack_frame + 64) = 0 \<and> get32 b (syscall_kstack_frame + 66) = 0x40000 \<and>
     syscall_kstack_frame + 70 = KSTACK_SIZE \<and> canary_ok p"
  by (rule first_run_frame)

section \<open>The distance of a process in the round-robin\<close>

definition rr_dist :: "nat \<Rightarrow> nat \<Rightarrow> nat" where
  "rr_dist c p = (if c \<le> p then p - c else p + MAXPROC - c)"

lemma rr_dist_reach: "c < 16 \<Longrightarrow> p < 16 \<Longrightarrow> (c + rr_dist c p) mod 16 = p"
  by (auto simp: rr_dist_def)

lemma rr_dist_less: "c < 16 \<Longrightarrow> p < 16 \<Longrightarrow> p \<noteq> c \<Longrightarrow> 0 < rr_dist c p \<and> rr_dist c p < 16"
  by (auto simp: rr_dist_def)

lemma rr_dist_step: "c < 16 \<Longrightarrow> p < 16 \<Longrightarrow> i \<le> rr_dist c p \<Longrightarrow> rr_dist ((c + i) mod 16) p = rr_dist c p - i"
proof -
  assume c: "c < 16" and p: "p < 16" and i: "i \<le> rr_dist c p"
  show ?thesis
  proof (cases "c + i < 16")
    case True
    then show ?thesis using c p i by (auto simp: rr_dist_def)
  next
    case False
    then have "c > p" "(c + i) mod 16 = c + i - 16"
      using c p i by (auto simp: rr_dist_def le_mod_geq split: if_splits)
    then show ?thesis using c p i False by (auto simp: rr_dist_def)
  qed
qed

lemma pick_next_first:
  assumes "pids_ok s" and "p < MAXPROC" and "pstate (proctab s p) = P_READY" and "p \<noteq> curproc s"
  shows "\<exists>i. 0 < i \<and> i \<le> rr_dist (curproc s) p \<and> pick_next s = Some ((curproc s + i) mod MAXPROC)"
proof -
  let ?d = "rr_dist (curproc s) p" and ?P = "\<lambda>i. pstate (proctab s ((curproc s + i) mod 16)) = P_READY"
  have c: "curproc s < 16" "pid (cur s) = curproc s" using assms(1) by (auto simp: pids_ok_def)
  have d: "0 < ?d" "?d < 16" "?P ?d"
    using rr_dist_less [OF c(1) assms(2,4)] rr_dist_reach [OF c(1) assms(2)] assms(3) by auto
  have "find ?P [1..<16] \<noteq> None" using d unfolding find_None_iff by auto
  then obtain i where i: "find ?P [1..<16] = Some i" by blast
  then obtain n where n: "n < 15" "i = Suc n" "\<And>j. j < n \<Longrightarrow> \<not> ?P (Suc j)"
    by (auto simp: find_Some_iff)
  have "i \<le> ?d"
  proof (rule ccontr)
    assume "\<not> i \<le> ?d"
    then have "?d - 1 < n" "Suc (?d - 1) = ?d" using n(2) d(1) by auto
    then show False using n(3) [of "?d - 1"] d(3) by simp
  qed
  then show ?thesis using i n(2) c(2) by (auto simp: pick_next_def intro!: exI [of _ i])
qed

section \<open>Signals\<close>

lemma sig_loop_first:
  "sig \<in> set sigs \<Longrightarrow> sorted_wrt (<) sigs \<Longrightarrow> \<forall>s \<in> set sigs. s < sig \<longrightarrow> sig_pending (kcur k) AND push_bit s 1 = 0 \<Longrightarrow>
     \<exists>rest. sig_loop sigs frame k = sig_loop (sig # rest) frame k"
proof (induction sigs)
  case (Cons s sigs)
  show ?case
  proof (cases "s = sig")
    case True
    then show ?thesis by auto
  next
    case False
    then have "sig \<in> set sigs" "s < sig" using Cons.prems(1,2) by auto
    then have "sig_loop (s # sigs) frame k = sig_loop sigs frame k" using Cons.prems(3) by simp
    then show ?thesis using Cons.IH \<open>sig \<in> set sigs\<close> Cons.prems(2,3) by (simp del: sig_loop.simps)
  qed
qed simp

definition sig_frame :: "nat \<Rightarrow> kern \<Rightarrow> u32" where
  "sig_frame frame k = (get32 (kstack (kcur k)) frame - SIG_FRAME_SIZE) AND NOT 1"

lemma store_above:
  assumes "i < 12" and "length bs = 70"
  shows "store_bytes (sf + 12) bs m (sf + of_nat i) = m (sf + of_nat i)"
proof (rule store_bytes_other)
  have "sf + of_nat i - (sf + 12) = of_nat (4294967284 + i)" by simp
  then have "unat (sf + of_nat i - (sf + 12)) = 4294967284 + i" using assms(1) by (simp only: unat_of_nat) simp
  then show "length bs \<le> unat (sf + of_nat i - (sf + 12))" using assms(2) by simp
qed

text \<open>The signal frame in memory, wherever it lies (addresses may wrap).\<close>

lemma frame_memory:
  fixes sf a b :: u32 and c d :: u16 and m :: memory
  assumes "length bs = 70"
  defines "M \<equiv> store_bytes (sf + 12) bs (put16 (put16 (put32 (put32 m sf a) (sf + 4) b) (sf + 8) c) (sf + 10) d)"
  shows "get32 M sf = a" "get32 M (sf + 4) = b" "get16 M (sf + 8) = c" "get16 M (sf + 10) = d" "load_bytes M (sf + 12) 70 = bs"
proof -
  let ?N = "put16 (put16 (put32 (put32 m sf a) (sf + 4) b) (sf + 8) c) (sf + 10) d"
  have st: "M (sf + of_nat i) = ?N (sf + of_nat i)" if "i < 12" for i unfolding M_def by (rule store_above [OF that assms(1)])
  have k: "M sf = ?N sf" "M (sf + 1) = ?N (sf + 1)" "M (sf + 2) = ?N (sf + 2)" "M (sf + 3) = ?N (sf + 3)"
    "M (sf + 4) = ?N (sf + 4)" "M (sf + 5) = ?N (sf + 5)" "M (sf + 6) = ?N (sf + 6)" "M (sf + 7) = ?N (sf + 7)"
    "M (sf + 8) = ?N (sf + 8)" "M (sf + 9) = ?N (sf + 9)" "M (sf + 10) = ?N (sf + 10)" "M (sf + 11) = ?N (sf + 11)"
    using st [of 0] st [of 1] st [of 2] st [of 3] st [of 4] st [of 5] st [of 6] st [of 7] st [of 8] st [of 9] st [of 10] st [of 11]
    by simp_all
  have "get32 M sf = get32 (put32 m sf a) sf"
    by (simp add: get32_def get16_def put16_other put32_other add.assoc k)
  then show "get32 M sf = a" by simp
  have "get32 M (sf + 4) = get32 (put32 (put32 m sf a) (sf + 4) b) (sf + 4)"
    by (simp add: get32_def get16_def put16_other add.assoc k)
  then show "get32 M (sf + 4) = b" by simp
  have "get16 M (sf + 8) = get16 (put16 (put32 (put32 m sf a) (sf + 4) b) (sf + 8) c) (sf + 8)"
    by (simp add: get16_def put16_other add.assoc k)
  then show "get16 M (sf + 8) = c" by simp
  have "get16 M (sf + 10) = get16 ?N (sf + 10)" by (simp add: get16_def add.assoc k)
  then show "get16 M (sf + 10) = d" by simp
  show "load_bytes M (sf + 12) 70 = bs"
    using load_store_bytes [of bs "sf + 12" ?N] assms(1) unfolding M_def by simp
qed

lemma pushed:
  fixes k :: kern and sig :: nat and h :: u32
  assumes "frame + 70 \<le> KSTACK_SIZE"
  defines "k1 \<equiv> push_handler sig h frame k" and "sf \<equiv> sig_frame frame k"
  shows "get32 (kstack (kcur k1)) frame = sf" "get32 (kstack (kcur k1)) (frame + 66) = h"
    "get32 (ram k1) sf = sf + 8" "get32 (ram k1) (sf + 4) = of_nat sig" "get16 (ram k1) (sf + 8) = 0x7077"
    "get16 (ram k1) (sf + 10) = 0x4E40" "load_bytes (ram k1) (sf + 12) 70 = frame_bytes (kcur k) frame"
    "sig_handler (kcur k1) sig = SIG_DFL"
proof -
  have "length (frame_bytes p frame) = 70" for p by (simp add: frame_bytes_def)
  note M = frame_memory [OF this]
  have r: "ram k1 = store_bytes (sf + 12) (frame_bytes (kcur k) frame)
      (put16 (put16 (put32 (put32 (ram k) sf (sf + 8)) (sf + 4) (of_nat sig)) (sf + 8) 0x7077) (sf + 10) 0x4E40)"
    by (simp add: k1_def sf_def push_handler_def sig_frame_def Let_def)
  show "get32 (ram k1) sf = sf + 8" "get32 (ram k1) (sf + 4) = of_nat sig" "get16 (ram k1) (sf + 8) = 0x7077"
    "get16 (ram k1) (sf + 10) = 0x4E40" "load_bytes (ram k1) (sf + 12) 70 = frame_bytes (kcur k) frame"
    unfolding r by (rule M)+
  show "get32 (kstack (kcur k1)) frame = sf" "get32 (kstack (kcur k1)) (frame + 66) = h" "sig_handler (kcur k1) sig = SIG_DFL"
    by (simp_all add: k1_def sf_def push_handler_def sig_frame_def Let_def get32_put32_other_nat)
qed

lemma returned:
  "frame_bytes (kcur (sys_sigreturn frame k)) frame = load_bytes (ram k) (get32 (kstack (kcur k)) frame - 4 + 12) 70"
  by (simp add: sys_sigreturn_def Let_def frame_bytes_def load_bytes_def del: upt_conv_Cons)

text \<open>
  C24. A signal whose handler is a user function is delivered by entering the handler with the
  signal number as its argument and, as its return address, code that issues \<open>sigreturn\<close>; the
  handler is reset. If the handler returns with the stack as it found it and without having written
  to the saved state, \<open>sigreturn\<close> restores the user stack pointer, all registers, SR and PC to what
  they were, so the program continues as if nothing had happened.
\<close>

theorem signal_round_trip:
  assumes "sig \<in> set [1..<NSIG]" and "sig \<noteq> SIGKILL" and "sig \<noteq> SIGSTOP"
    and "sig_pending (kcur k) AND push_bit sig 1 \<noteq> 0"
    and "\<forall>s \<in> set [1..<sig]. sig_pending (kcur k) AND push_bit s 1 = 0"
    and "sig_handler (kcur k) sig = h" and "h \<noteq> SIG_DFL" and "h \<noteq> SIG_IGN" and "frame + 70 \<le> KSTACK_SIZE"
    and "sig_deliver frame k = (r, k1)" and "usp = get32 (kstack (kcur k1)) frame"
    and "get32 (kstack (kcur k2)) frame = usp + 4"
    and "load_bytes (ram k2) (usp + 12) 70 = load_bytes (ram k1) (usp + 12) 70"
  shows "r = Delivered \<and> get32 (kstack (kcur k1)) (frame + 66) = h \<and> sig_handler (kcur k1) sig = SIG_DFL \<and>
    get32 (ram k1) usp = usp + 8 \<and> get32 (ram k1) (usp + 4) = of_nat sig \<and>
    get16 (ram k1) (usp + 8) = 0x7077 \<and> get16 (ram k1) (usp + 10) = 0x4E40 \<and>
    frame_bytes (kcur (sys_sigreturn frame k2)) frame = frame_bytes (kcur k) frame"
proof -
  let ?k = "upd_cur (\<lambda>p. p\<lparr>sig_pending := sig_pending p AND NOT (push_bit sig 1)\<rparr>) k"
  have "sig_pending (kcur k) \<noteq> 0" using assms(4) by auto
  then have "sig_deliver frame k = sig_loop [1..<NSIG] frame k" by (simp add: sig_deliver_def del: upt_conv_Cons)
  moreover obtain rest where "sig_loop [1..<NSIG] frame k = sig_loop (sig # rest) frame k"
    using sig_loop_first [of sig "[1..<NSIG]" k frame] assms(1,5) by (auto simp del: upt_conv_Cons)
  moreover have "sig_loop (sig # rest) frame k = (Delivered, push_handler sig h frame ?k)"
    using assms(2-4,6-8) by (simp add: Let_def)
  ultimately have d: "r = Delivered" "k1 = push_handler sig h frame ?k" using assms(10) by auto
  note P = pushed [OF assms(9), of sig h ?k, folded d(2)]
  have u: "usp = sig_frame frame ?k" using P(1) assms(11) by simp
  have "get32 (kstack (kcur k2)) frame - 4 + 12 = usp + 12" using assms(12) by simp
  then have "frame_bytes (kcur (sys_sigreturn frame k2)) frame = frame_bytes (kcur ?k) frame"
    using returned [of frame k2] assms(13) P(7) u by simp
  then show ?thesis using P d(1) u by (simp add: frame_bytes_def)
qed

text \<open>A process interrupted with SIGINT pending and a handler installed.\<close>

definition sig_kern :: kern where
  "sig_kern = upd_cur (\<lambda>p. p\<lparr>sig_pending := 4, sig_handler := (\<lambda>_. 0)(SIGINT := 0x41000),
     kstack := put32 (\<lambda>_. 7) 442 0x50000\<rparr>) boot_kern"

definition in_handler :: kern where
  "in_handler = snd (sig_deliver 442 sig_kern)"

definition after_handler :: kern where
  "after_handler = upd_cur (\<lambda>p. p\<lparr>kstack := put32 (\<lambda>_. 3) 442 (get32 (kstack (kcur in_handler)) 442 + 4)\<rparr>) in_handler"

lemma signal_round_trip_witness:
  "Delivered = Delivered \<and> get32 (kstack (kcur in_handler)) (442 + 66) = 0x41000 \<and>
    sig_handler (kcur in_handler) SIGINT = SIG_DFL \<and>
    get32 (ram in_handler) (get32 (kstack (kcur in_handler)) 442) = get32 (kstack (kcur in_handler)) 442 + 8 \<and>
    get32 (ram in_handler) (get32 (kstack (kcur in_handler)) 442 + 4) = of_nat SIGINT \<and>
    get16 (ram in_handler) (get32 (kstack (kcur in_handler)) 442 + 8) = 0x7077 \<and>
    get16 (ram in_handler) (get32 (kstack (kcur in_handler)) 442 + 10) = 0x4E40 \<and>
    frame_bytes (kcur (sys_sigreturn 442 after_handler)) 442 = frame_bytes (kcur sig_kern) 442"
proof (rule signal_round_trip)
  have p: "sig_pending (kcur sig_kern) = 4" "sig_handler (kcur sig_kern) SIGINT = 0x41000" by (simp_all add: sig_kern_def)
  show "sig_pending (kcur sig_kern) AND push_bit SIGINT 1 \<noteq> 0" "\<forall>s \<in> set [1..<SIGINT]. sig_pending (kcur sig_kern) AND push_bit s 1 = 0"
    unfolding p by code_simp+
  show "sig_handler (kcur sig_kern) SIGINT = 0x41000" by (rule p)
  have "sig_deliver 442 sig_kern = (Delivered, in_handler)"
  proof -
    have "fst (sig_deliver 442 sig_kern) = Delivered"
    proof -
      have "sig_deliver 442 sig_kern = sig_loop [1..<NSIG] 442 sig_kern" using p by (simp add: sig_deliver_def del: upt_conv_Cons)
      moreover obtain rest where "sig_loop [1..<NSIG] 442 sig_kern = sig_loop (SIGINT # rest) 442 sig_kern"
      proof -
        have "\<forall>s \<in> set [1..<NSIG]. s < SIGINT \<longrightarrow> sig_pending (kcur sig_kern) AND push_bit s 1 = 0" unfolding p by code_simp
        then show ?thesis using sig_loop_first [of SIGINT "[1..<NSIG]" sig_kern 442] that by (auto simp del: upt_conv_Cons)
      qed
      moreover have "sig_pending (kcur sig_kern) AND push_bit SIGINT 1 \<noteq> 0" unfolding p by code_simp
      ultimately show ?thesis using p by (simp add: Let_def)
    qed
    then show ?thesis by (simp add: in_handler_def prod_eq_iff)
  qed
  then show "sig_deliver 442 sig_kern = (Delivered, in_handler)" .
qed (simp_all add: after_handler_def)

section \<open>Fairness\<close>

text \<open>
  What may happen between two calls of the scheduler, as seen by the waiting process \<open>p\<close>: anything
  that keeps the table's indices and leaves \<open>p\<close> ready. Most steps leave the processor with the
  process that runs: sleeping, waking others, raising signals. But \<open>vfork\<close> gives it to the child, and
  the exit or \<open>exec\<close> of that child back to the parent, without a call of the scheduler, which goes on
  counting from the new process.
\<close>

definition sched_ok :: "ptab \<Rightarrow> bool" where
  "sched_ok s \<longleftrightarrow> pids_ok s \<and> next_pid s < MAXPROC"

definition waits :: "nat \<Rightarrow> ptab \<Rightarrow> bool" where
  "waits p s \<longleftrightarrow> sched_ok s \<and> p \<noteq> curproc s \<and> pstate (proctab s p) = P_READY"

definition keeps_ready :: "nat \<Rightarrow> (ptab \<Rightarrow> ptab) \<Rightarrow> bool" where
  "keeps_ready p f \<longleftrightarrow> (\<forall>s. waits p s \<longrightarrow> waits p (f s))"

definition hands_over :: "nat \<Rightarrow> (ptab \<Rightarrow> ptab) \<Rightarrow> bool" where
  "hands_over p f \<longleftrightarrow> (\<exists>s. waits p s \<and> curproc (f s) \<noteq> curproc s)"

lemma keeps_ready_ops [intro]:
  "keeps_ready p sleep_cur" "keeps_ready p (wake_proc i)" "keeps_ready p (raise_sig i sig)"
  by (auto simp: keeps_ready_def waits_def sched_ok_def sleep_cur_def wake_proc_def raise_sig_def pids_ok_def)

lemma stays_ops [simp]:
  "\<not> hands_over p sleep_cur" "\<not> hands_over p (wake_proc i)" "\<not> hands_over p (raise_sig i sig)"
  by (auto simp: hands_over_def sleep_cur_def wake_proc_def raise_sig_def)

definition slices :: "(ptab \<Rightarrow> ptab) list \<Rightarrow> ptab \<Rightarrow> ptab" where
  "slices fs s = fold (\<lambda>f s. schedule (f s)) fs s"

text \<open>A slice brings \<open>p\<close> nearer, counted from the process that runs at its end.\<close>

lemma slice_nearer:
  assumes "waits p s" and "p < MAXPROC"
  shows "curproc (schedule s) = p \<and> pstate (proctab (schedule s) p) = P_RUNNING \<or>
    waits p (schedule s) \<and> rr_dist (curproc (schedule s)) p < rr_dist (curproc s) p"
proof -
  let ?t = "schedule s"
  have s: "pids_ok s" "next_pid s < 16" "p \<noteq> curproc s" "pstate (proctab s p) = P_READY"
    using assms(1) by (simp_all add: waits_def sched_ok_def)
  obtain i where i: "0 < i" "i \<le> rr_dist (curproc s) p" "pick_next s = Some ((curproc s + i) mod MAXPROC)"
    using pick_next_first [OF s(1) assms(2) s(4,3)] by blast
  have t: "curproc ?t = (curproc s + i) mod 16" using i(3) by (simp add: schedule_def Let_def)
  have st: "pstate (proctab ?t p) = (if p = curproc ?t then P_RUNNING else P_READY)"
    using s(3,4) i(3) t by (auto simp: schedule_state)
  have "rr_dist (curproc ?t) p = rr_dist (curproc s) p - i"
    using rr_dist_step [OF _ assms(2) i(2)] s(1) t by (simp add: pids_ok_def)
  with i(1,2) have "rr_dist (curproc ?t) p < rr_dist (curproc s) p" by linarith
  then show ?thesis using st s(1,2) by (auto simp: waits_def sched_ok_def)
qed

lemma slices_reach:
  "waits p s \<Longrightarrow> p < MAXPROC \<Longrightarrow> \<forall>f \<in> set fs. keeps_ready p f \<Longrightarrow>
     rr_dist (curproc s) p + 15 * length (filter (hands_over p) fs) \<le> length fs \<Longrightarrow>
     \<exists>n \<le> length fs. curproc (slices (take n fs) s) = p \<and> pstate (proctab (slices (take n fs) s) p) = P_RUNNING"
proof (induction fs arbitrary: s)
  case Nil
  then show ?case using rr_dist_less [of "curproc s" p] by (simp add: waits_def sched_ok_def pids_ok_def)
next
  case (Cons f fs)
  let ?s = "f s" let ?t = "schedule ?s"
  have w: "waits p ?s" using Cons.prems(1,3) by (simp add: keeps_ready_def)
  show ?case
  proof (cases "curproc ?t = p \<and> pstate (proctab ?t p) = P_RUNNING")
    case True
    then show ?thesis by (intro exI [of _ 1]) (simp add: slices_def)
  next
    case False
    then have t: "waits p ?t" "rr_dist (curproc ?t) p < rr_dist (curproc ?s) p"
      using slice_nearer [OF w Cons.prems(2)] by auto
    have d: "rr_dist (curproc ?s) p < 16" "0 < rr_dist (curproc s) p"
      using rr_dist_less [of "curproc ?s" p] rr_dist_less [of "curproc s" p] w Cons.prems(1,2)
      by (simp_all add: waits_def sched_ok_def pids_ok_def)
    have "rr_dist (curproc ?t) p + 15 * length (filter (hands_over p) fs) \<le> length fs"
    proof (cases "hands_over p f")
      case True
      then show ?thesis using t(2) d Cons.prems(4) by simp
    next
      case False
      then have "curproc ?s = curproc s" using Cons.prems(1) by (auto simp: hands_over_def)
      then show ?thesis using t(2) False Cons.prems(4) by simp
    qed
    then obtain n where "n \<le> length fs" "curproc (slices (take n fs) ?t) = p" "pstate (proctab (slices (take n fs) ?t) p) = P_RUNNING"
      using Cons.IH [OF t(1)] Cons.prems(2,3) by auto
    then show ?thesis by (intro exI [of _ "Suc n"]) (simp add: slices_def)
  qed
qed

text \<open>
  C23. The scheduler is fair up to \<open>vfork\<close>: a process that is ready runs after at most fifteen time
  slices, and fifteen more for every step among them that hands the processor over outside the
  scheduler, whatever the processes that run before it do, as long as none of them takes it out of
  the ready state.
\<close>

theorem ready_runs_soon:
  assumes "sched_ok s" and "p < MAXPROC" and "p \<noteq> curproc s" and "pstate (proctab s p) = P_READY"
    and "length fs = 15 * Suc h" and "\<forall>f \<in> set fs. keeps_ready p f"
    and "length (filter (hands_over p) fs) \<le> h"
  shows "\<exists>n \<le> 15 * Suc h. curproc (slices (take n fs) s) = p \<and> pstate (proctab (slices (take n fs) s) p) = P_RUNNING"
proof -
  have w: "waits p s" using assms(1,3,4) by (simp add: waits_def)
  have "rr_dist (curproc s) p \<le> 15"
    using rr_dist_less [of "curproc s" p] assms(1-3) by (simp add: sched_ok_def pids_ok_def)
  then have "rr_dist (curproc s) p + 15 * length (filter (hands_over p) fs) \<le> length fs"
    using assms(5,7) by simp
  from slices_reach [OF w assms(2,6) this] show ?thesis using assms(5) by simp
qed

definition ready_ptab :: ptab where
  "ready_ptab = boot_ptab\<lparr>proctab := (\<lambda>i. zero_proc\<lparr>pid := i,
     pstate := (if i = 3 then P_RUNNING else if i < 3 then P_READY else P_FREE)\<rparr>), curproc := 3, nproc := 4\<rparr>"

section \<open>A child's life\<close>

text \<open>Steps that change no identity, and a state only by waking a sleeper.\<close>

definition gentle :: "ptab \<Rightarrow> ptab \<Rightarrow> bool" where
  "gentle s t \<longleftrightarrow> curproc t = curproc s \<and> nproc t = nproc s \<and>
     (\<forall>p. pid (proctab t p) = pid (proctab s p) \<and> ppid (proctab t p) = ppid (proctab s p) \<and>
        (pstate (proctab t p) = pstate (proctab s p) \<or>
         pstate (proctab s p) = P_SLEEPING \<and> pstate (proctab t p) = P_READY))"

named_theorems gentle_steps

lemma gentle_refl [gentle_steps]: "gentle s s"
  by (simp add: gentle_def)

lemma gentle_trans: "gentle s t \<Longrightarrow> gentle t u \<Longrightarrow> gentle s u"
  unfolding gentle_def by (metis proc_state.distinct(15))

lemma gentle_pstate: "gentle s t \<Longrightarrow> pstate (proctab s p) \<noteq> P_SLEEPING \<Longrightarrow> pstate (proctab t p) = pstate (proctab s p)"
  by (auto simp: gentle_def)

lemma gentle_upd [gentle_steps]:
  "gentle s t \<Longrightarrow> \<forall>p. pid (f p) = pid p \<and> ppid (f p) = ppid p \<and> pstate (f p) = pstate p \<Longrightarrow> gentle s (upd_proc i f t)"
  "gentle s t \<Longrightarrow> gentle s (upd_ofile i g t)" "gentle s t \<Longrightarrow> gentle s (upd_pipe i h t)"
  by (auto simp: gentle_def)

lemma gentle_wake [gentle_steps]: "gentle s t \<Longrightarrow> gentle s (wake_proc i t)"
  by (erule gentle_trans) (auto simp: gentle_def wake_proc_def)

lemma gentle_close [gentle_steps]: "gentle s t \<Longrightarrow> gentle s (pipe_close_read i t)" "gentle s t \<Longrightarrow> gentle s (pipe_close_write i t)"
  by (simp_all add: pipe_close_read_def pipe_close_write_def wake_reader_def wake_writer_def Let_def gentle_steps)

lemma gentle_drop: "gentle (kpt k) (kpt (drop_ofile i k))"
  by (simp add: drop_ofile_def Let_def gentle_steps split: option.split iptr.split)

lemma gentle_close_fd: "gentle (kpt k) (kpt (close_fd n k))"
proof (cases "fd (kcur k) n")
  case (Some i)
  have "gentle (kpt k) (kpt (upd_cur (clear_fd n) k))" by (simp add: gentle_steps clear_fd_def)
  then show ?thesis using Some gentle_drop gentle_trans by (fastforce simp: close_fd_def)
qed (simp add: close_fd_def gentle_refl)

lemma gentle_close_all: "gentle (kpt k) (kpt (fold close_fd ns k))"
  by (induction ns arbitrary: k) (auto simp: gentle_refl intro: gentle_trans gentle_close_fd)

lemma close_fd_others: "p \<noteq> curproc (kpt k) \<Longrightarrow> fd (proctab (kpt (close_fd n k)) p) = fd (proctab (kpt k) p)"
proof (cases "fd (kcur k) n")
  case (Some i)
  moreover assume "p \<noteq> curproc (kpt k)"
  ultimately show ?thesis using drop_ofile_files [of i "upd_cur (clear_fd n) k"] by (simp add: close_fd_def files_same_def)
qed (simp add: close_fd_def)

lemma close_all_others: "p \<noteq> curproc (kpt k) \<Longrightarrow> fd (proctab (kpt (fold close_fd ns k)) p) = fd (proctab (kpt k) p)"
  by (induction ns arbitrary: k) (simp_all add: close_fd_others close_fd_cur)

lemma fs_only_ram: "ram (drop_ofile i k) = ram k" "ram (close_fd n k) = ram k" "exec_active (close_fd n k) = exec_active k"
  by (auto simp: drop_ofile_def close_fd_def Let_def split: option.split iptr.split)

lemma close_all_ram: "ram (fold close_fd ns k) = ram k"
  by (induction ns arbitrary: k) (simp_all add: fs_only_ram)

lemma alloc_pid_pos: "alloc_pid s = (Some c, t) \<Longrightarrow> 0 < next_pid s \<Longrightarrow> 0 < c"
proof -
  have "alloc_pid_loop m s = (Some c, t) \<Longrightarrow> 0 < next_pid s \<Longrightarrow> 0 < c" for m
    by (induction m arbitrary: s) (auto simp: Let_def split: if_splits)
  then show "alloc_pid s = (Some c, t) \<Longrightarrow> 0 < next_pid s \<Longrightarrow> 0 < c" by (simp add: alloc_pid_def)
qed

lemma vforkD:
  assumes "do_vfork regs k = (Ret 0, k1)" and "counted (kpt k)" and "0 < next_pid (kpt k)"
  obtains c where "0 < c" "c < MAXPROC" "pstate (proctab (kpt k) c) = P_FREE" "curproc (kpt k1) = c"
    "\<And>p. p \<noteq> c \<Longrightarrow> fd (proctab (kpt k1) p) = fd (proctab (kpt k) p)"
    "\<And>p. p \<noteq> c \<Longrightarrow> ppid (proctab (kpt k1) p) = ppid (proctab (kpt k) p)"
    "c \<noteq> curproc (kpt k) \<Longrightarrow> pstate (proctab (kpt k1) (curproc (kpt k))) = P_VFORK" "pid (kcur k1) = c"
    "ppid (kcur k1) = curproc (kpt k)" "nproc (kpt k1) = nproc (kpt k) + 1" "ram k1 = ram k" "exec_active k1 = exec_active k"
proof -
  obtain o1 s where al: "alloc_pid (kpt k) = (o1, s)" by fastforce
  then obtain c where c: "o1 = Some c" using assms(1) by (cases o1) (auto simp: do_vfork_def)
  note fr = alloc_pid_free [OF al [unfolded c] assms(2)]
  have pos: "0 < c" by (rule alloc_pid_pos [OF al [unfolded c] assms(3)])
  obtain x where s: "s = kpt k\<lparr>next_pid := x\<rparr>" using alloc_pidD(1) [OF al] assms(2) by (auto simp: counted_with_def fds_wf_def)
  have pp: "pid (proctab (kpt k) (curproc (kpt k))) = curproc (kpt k)" using assms(2) by (simp add: counted_with_def fds_wf_def pids_ok_def)
  show thesis
    by (rule that [of c]) (use assms(1) al c fr pos s pp in \<open>auto simp: do_vfork_def Let_def\<close>)
qed

text \<open>The child's exit: the parent goes on in \<open>vfork\<close> with the child's number.\<close>

lemma child_exit:
  assumes "do_exit code k = (r, k1)" and "counted (kpt k)" and "\<not> exec_active k"
    and "ppid (kcur k) = par" and "par < MAXPROC" and "par \<noteq> curproc (kpt k)" and "pstate (proctab (kpt k) par) = P_VFORK"
    and "pid (kcur k) = curproc (kpt k)"
  shows "r = Resumed (int (curproc (kpt k))) \<and> curproc (kpt k1) = par \<and> pstate (proctab (kpt k1) par) = P_RUNNING \<and>
    pstate (proctab (kpt k1) (curproc (kpt k))) = P_ZOMBIE \<and> ppid (proctab (kpt k1) (curproc (kpt k))) = par \<and>
    exitcode (proctab (kpt k1) (curproc (kpt k))) = to_int8 code \<and> nproc (kpt k1) = nproc (kpt k) \<and> ram k1 = ram k \<and>
    (\<forall>p. p \<noteq> curproc (kpt k) \<longrightarrow> fd (proctab (kpt k1) p) = fd (proctab (kpt k) p))"
proof -
  let ?c = "curproc (kpt k)" and ?k1 = "fold close_fd [0..<MAXFD] k"
  let ?z = "\<lambda>p. p\<lparr>mem_base := 0, mem_size := 0, exitcode := to_int8 code, pstate := P_ZOMBIE\<rparr>"
  have g: "gentle (kpt k) (kpt ?k1)" by (rule gentle_close_all)
  then have c: "curproc (kpt ?k1) = ?c" "nproc (kpt ?k1) = nproc (kpt k)" "pid (proctab (kpt ?k1) ?c) = ?c" "ppid (proctab (kpt ?k1) ?c) = par"
    "pstate (proctab (kpt ?k1) par) = P_VFORK"
    using assms(4,7,8) gentle_pstate [OF g, of par] by (simp_all add: gentle_def del: upt_conv_Cons)
  let ?k2 = "upd_cur ?z ?k1" let ?k3 = "on_pt (reparent (pid (kcur ?k2))) ?k2"
  have p3: "ppid (kcur ?k3) = par" "pid (kcur ?k3) = ?c" "pstate (proctab (kpt ?k3) par) = P_VFORK"
    "curproc (kpt ?k3) = ?c" "pstate (proctab (kpt ?k3) ?c) = P_ZOMBIE" "ppid (proctab (kpt ?k3) ?c) = par"
    "exitcode (proctab (kpt ?k3) ?c) = to_int8 code" "nproc (kpt ?k3) = nproc (kpt k)"
    "\<And>p. fd (proctab (kpt ?k3) p) = fd (proctab (kpt ?k1) p)"
    using c assms(6) by (simp_all add: reparent_def Let_def del: upt_conv_Cons)
  have "(r, k1) = (Resumed (int ?c), on_pt (\<lambda>s. (upd_proc par (\<lambda>p. p\<lparr>pstate := P_RUNNING\<rparr>) s)\<lparr>curproc := par\<rparr>) ?k3)"
    using assms(1,3,5) p3(1-3) by (simp add: do_exit_def Let_def del: upt_conv_Cons)
  then show ?thesis using p3 assms(6) close_all_others [of _ k "[0..<MAXFD]"] close_all_ram [of "[0..<MAXFD]" k]
    by (simp del: upt_conv_Cons)
qed

text \<open>
  \<open>vfork\<close> and exit as steps between two calls of the scheduler: they leave every waiting process
  ready.
\<close>

definition vfork_step :: "(nat \<Rightarrow> u32) \<Rightarrow> kern \<Rightarrow> ptab \<Rightarrow> ptab" where
  "vfork_step regs k s = kpt (snd (do_vfork regs (on_pt (\<lambda>_. s) k)))"

definition exit_step :: "int \<Rightarrow> kern \<Rightarrow> ptab \<Rightarrow> ptab" where
  "exit_step code k s = kpt (snd (do_exit code (on_pt (\<lambda>_. s) k)))"

lemma vfork_keeps_ready: "keeps_ready p (vfork_step regs k)"
  unfolding keeps_ready_def
proof (intro allI impI)
  fix s
  assume w: "waits p s"
  obtain o1 s1 where al: "alloc_pid s = (o1, s1)" by fastforce
  note D = alloc_pidD [OF al]
  obtain x where x: "x < 16" "s1 = s\<lparr>next_pid := x\<rparr>" using D(1) w by (auto simp: waits_def sched_ok_def)
  show "waits p (vfork_step regs k s)"
  proof (cases o1)
    case None
    then show ?thesis using al w x by (simp add: vfork_step_def do_vfork_def waits_def sched_ok_def pids_ok_def)
  next
    case (Some c)
    then have c: "c < 16" "pstate (proctab s c) = P_FREE" using D(2) [of c] w by (simp_all add: waits_def sched_ok_def)
    then have "p \<noteq> c" using w by (auto simp: waits_def)
    then show ?thesis using al Some w x c
      by (simp add: vfork_step_def do_vfork_def Let_def waits_def sched_ok_def pids_ok_def)
  qed
qed

lemma close_all_next_pid: "next_pid (kpt (fold close_fd ns k)) = next_pid (kpt k)"
proof -
  have "next_pid (kpt (drop_ofile i k)) = next_pid (kpt k)" for i k
    using drop_ofile_files [of i k] by (simp add: files_same_def)
  then have "next_pid (kpt (close_fd n k)) = next_pid (kpt k)" for n k
    by (auto simp: close_fd_def split: option.split)
  then show ?thesis by (induction ns arbitrary: k) simp_all
qed

lemma exit_keeps_ready: "keeps_ready p (exit_step code k)"
  unfolding keeps_ready_def
proof (intro allI impI)
  fix s
  assume w: "waits p s"
  let ?k = "on_pt (\<lambda>_. s) k" let ?k1 = "fold close_fd [0..<MAXFD] ?k"
  have g: "gentle s (kpt ?k1)" using gentle_close_all [of ?k] by simp
  have s1: "waits p (kpt ?k1)"
    using g gentle_pstate [OF g, of p] close_all_next_pid [of "[0..<MAXFD]" ?k] w
    by (simp add: waits_def sched_ok_def pids_ok_def gentle_def del: upt_conv_Cons)
  define s2 where "s2 = reparent (pid (cur (kpt ?k1)))
    (upd_proc (curproc (kpt ?k1)) (\<lambda>p. p\<lparr>mem_base := 0, mem_size := 0, exitcode := to_int8 code, pstate := P_ZOMBIE\<rparr>) (kpt ?k1))"
  have s2: "waits p s2"
    using s1 by (simp add: s2_def waits_def sched_ok_def pids_ok_def reparent_def Let_def)
  show "waits p (exit_step code k s)"
  proof (cases "exec_active k")
    case False
    let ?par = "ppid (cur s2)"
    have "exit_step code k s =
      (if ?par < MAXPROC
       then (if pstate (proctab s2 ?par) = P_VFORK
             then (upd_proc ?par (\<lambda>p. p\<lparr>pstate := P_RUNNING\<rparr>) s2)\<lparr>curproc := ?par\<rparr> else wake_proc ?par s2)
       else s2)"
      using False by (simp add: exit_step_def do_exit_def Let_def s2_def del: upt_conv_Cons)
    then show ?thesis using s2 by (auto simp: waits_def sched_ok_def pids_ok_def wake_proc_def)
  qed (use w in \<open>simp add: exit_step_def do_exit_def\<close>)
qed

text \<open>A run of thirty slices with one \<open>vfork\<close>.\<close>

lemma ready_runs_soon_witness:
  "\<exists>n \<le> 15 * Suc 1. curproc (slices (take n (vfork_step (\<lambda>_. 0) boot_kern # replicate 29 sleep_cur)) ready_ptab) = 2 \<and>
     pstate (proctab (slices (take n (vfork_step (\<lambda>_. 0) boot_kern # replicate 29 sleep_cur)) ready_ptab) 2) = P_RUNNING"
  by (rule ready_runs_soon)
     (auto simp: ready_ptab_def sched_ok_def pids_ok_def boot_ptab_def vfork_keeps_ready)

lemma to_int8_mod: "to_int8 c mod 256 = c mod 256"
proof -
  have "uint (word_of_int (to_int8 c) :: u8) = uint (word_of_int c :: u8)" by (simp add: to_int8_def)
  then show ?thesis by (simp add: uint_word_of_int)
qed

text \<open>
  C22. \<open>vfork\<close>, exit and \<open>waitpid\<close> fit together: when the child of a \<open>vfork\<close> exits, the parent
  returns from \<open>vfork\<close> with the child's number, and its \<open>waitpid\<close> for that child returns at once
  with the low byte of the exit code in the POSIX place. The slot is free again, the number of
  processes and every open file's count are what they were before the \<open>vfork\<close>.
\<close>

theorem vfork_exit_wait:
  assumes "counted (kpt k)" and "0 < next_pid (kpt k)" and "\<not> dead (kcur k)" and "\<not> exec_active k"
    and "do_vfork regs k = (Ret 0, k1)" and "curproc (kpt k1) = c"
    and "do_exit code k1 = (r2, k2)" and "do_waitpid (int c) status 0 k2 = (r3, k3)" and "status \<noteq> 0"
  shows "r2 = Resumed (int c) \<and> curproc (kpt k2) = curproc (kpt k) \<and> pstate (kcur k2) = P_RUNNING \<and>
    r3 = Ret (int c) \<and> get32 (ram k3) status = word_of_int (code mod 256 * 256) \<and>
    pstate (proctab (kpt k3) c) = P_FREE \<and> nproc (kpt k3) = nproc (kpt k) \<and>
    (\<forall>j. of_refcount (kfile k3 j) = of_refcount (kfile k j))"
proof -
  let ?par = "curproc (kpt k)"
  obtain c' where v: "0 < c'" "c' < MAXPROC" "pstate (proctab (kpt k) c') = P_FREE" "curproc (kpt k1) = c'"
    "\<And>p. p \<noteq> c' \<Longrightarrow> fd (proctab (kpt k1) p) = fd (proctab (kpt k) p)"
    "c' \<noteq> ?par \<Longrightarrow> pstate (proctab (kpt k1) ?par) = P_VFORK" "pid (kcur k1) = c'" "ppid (kcur k1) = ?par"
    "nproc (kpt k1) = nproc (kpt k) + 1" "exec_active k1 = exec_active k"
    by (rule vforkD [OF assms(5,1,2)]) blast
  have c: "c' = c" "c \<noteq> ?par" using v(3,4) assms(3,6) by (auto simp: dead_def)
  have c1: "counted (kpt k1)" by (rule vfork_counted [OF assms(5,1)])
  have par: "?par < 16" using assms(1) by (rule counted_cur)
  have e: "r2 = Resumed (int c)" "curproc (kpt k2) = ?par" "pstate (proctab (kpt k2) ?par) = P_RUNNING"
    "pstate (proctab (kpt k2) c) = P_ZOMBIE" "ppid (proctab (kpt k2) c) = ?par" "exitcode (proctab (kpt k2) c) = to_int8 code"
    "nproc (kpt k2) = nproc (kpt k1)" "\<And>p. p \<noteq> c \<Longrightarrow> fd (proctab (kpt k2) p) = fd (proctab (kpt k1) p)"
    using child_exit [OF assms(7) c1 _ v(8) par] v c assms(4,6) by auto
  have c2: "counted (kpt k2)" by (rule exit_counted [OF assms(7) c1])
  have pids: "pid (proctab (kpt k2) p) = p" if "p < 16" for p using c2 that by (simp add: counted_with_def fds_wf_def pids_ok_def)
  let ?P = "\<lambda>i. is_child (kpt k2) i \<and> \<not> (int c > 0 \<and> int (pid (proctab (kpt k2) i)) \<noteq> int c mod 256) \<and>
                pstate (proctab (kpt k2) i) = P_ZOMBIE"
  have f: "first_idx ?P MAXPROC = Some c"
    unfolding first_idx_Some_iff using e(2,4,5) pids v(1,2) c(1) par by (auto simp: is_child_def)
  let ?reap = "\<lambda>s. (upd_proc c (\<lambda>p. p\<lparr>pstate := P_FREE\<rparr>) s)\<lparr>nproc := nproc s - 1\<rparr>"
  let ?st = "word_of_int (to_int8 code mod 256 * 256) :: u32"
  have "(r3, k3) = (Ret (int c), on_pt ?reap (k2\<lparr>ram := put32 (ram k2) status ?st\<rparr>))"
    using assms(8,9) f e(6) pids [of c] v(2) c(1) by (simp add: do_waitpid_def Let_def)
  then have w: "r3 = Ret (int c)" "k3 = on_pt ?reap (k2\<lparr>ram := put32 (ram k2) status ?st\<rparr>)" by simp_all
  have c3: "counted (kpt k3)" by (rule waitpid_counted [OF assms(8) c2])
  have none: "fd (proctab (kpt k2) c) n = None" if "n < 16" for n
    using c2 e(4) v(2) c(1) that by (simp add: counted_with_def fds_wf_def dead_def)
  have none0: "fd (proctab (kpt k) c) n = None" if "n < 16" for n
    using assms(1) v(2,3) c(1) that by (simp add: counted_with_def fds_wf_def dead_def)
  have "refs (kpt k3) j = refs (kpt k) j" for j
    by (rule refs_cong) (use w(2) none none0 v(5) e(8) c(1) in auto)
  then have "of_refcount (kfile k3 j) = of_refcount (kfile k j)" for j
    using assms(1) c3 by (simp add: counted_with_def count_ok_with_def)
  then show ?thesis using e w v(9) c(1) by (simp add: to_int8_mod)
qed

definition one_proc :: ptab where
  "one_proc = boot_ptab\<lparr>proctab := (\<lambda>i. zero_proc\<lparr>pid := i, pstate := (if i = 0 then P_RUNNING else P_FREE)\<rparr>), nproc := 1\<rparr>"

definition one_kern :: kern where
  "one_kern = on_pt (\<lambda>_. one_proc) boot_kern"

definition vforked :: kern where
  "vforked = snd (do_vfork (\<lambda>_. 0) one_kern)"

definition exited :: kern where
  "exited = snd (do_exit 300 vforked)"

lemma one_kern_facts:
  "counted (kpt one_kern)" "next_pid (kpt one_kern) = 1" "\<not> dead (kcur one_kern)" "\<not> exec_active one_kern"
  "do_vfork (\<lambda>_. 0) one_kern = (Ret 0, vforked)" "curproc (kpt vforked) = 1"
proof -
  have z: "refs one_proc j = 0" for j by (simp add: refs_def fds_of_def one_proc_def zero_proc_def)
  show "counted (kpt one_kern)"
    by (simp add: one_kern_def counted_with_def count_ok_with_def z fds_wf_def pids_ok_def)
       (simp add: one_proc_def boot_ptab_def zero_ofile_def zero_proc_def)
  show "next_pid (kpt one_kern) = 1" "\<not> dead (kcur one_kern)" "\<not> exec_active one_kern"
    by (simp_all add: one_kern_def one_proc_def boot_ptab_def dead_def boot_kern_def prog_kern_def)
  have "alloc_pid (kpt one_kern) = (Some 1, (kpt one_kern)\<lparr>next_pid := 2\<rparr>)"
    using alloc_pid_loop.simps(2) [of 15 "kpt one_kern"]
    by (simp add: alloc_pid_def one_kern_def one_proc_def boot_ptab_def Let_def del: alloc_pid_loop.simps)
  then show "do_vfork (\<lambda>_. 0) one_kern = (Ret 0, vforked)" "curproc (kpt vforked) = 1"
    by (simp_all add: vforked_def do_vfork_def Let_def)
qed

lemma vfork_exit_wait_witness:
  "fst (do_exit 300 vforked) = Resumed (int 1) \<and> curproc (kpt exited) = curproc (kpt one_kern) \<and>
    pstate (kcur exited) = P_RUNNING \<and> fst (do_waitpid (int 1) 0x5000 0 exited) = Ret (int 1) \<and>
    get32 (ram (snd (do_waitpid (int 1) 0x5000 0 exited))) 0x5000 = word_of_int (300 mod 256 * 256) \<and>
    pstate (proctab (kpt (snd (do_waitpid (int 1) 0x5000 0 exited))) 1) = P_FREE \<and>
    nproc (kpt (snd (do_waitpid (int 1) 0x5000 0 exited))) = nproc (kpt one_kern) \<and>
    (\<forall>j. of_refcount (kfile (snd (do_waitpid (int 1) 0x5000 0 exited)) j) = of_refcount (kfile one_kern j))"
  by (rule vfork_exit_wait [OF one_kern_facts(1) _ one_kern_facts(3-6)])
     (simp_all add: one_kern_facts(2) exited_def prod_eq_iff)

end
