(* ===== verification/CText.thy ===== *)
theory CText
  imports Prelude
begin

text \<open>
  C strings read through pointers, and the character classes of libc/ctype.c.

  A \<open>const char *\<close> into a string is the list of the bytes from it up to the terminating NUL,
  which is not in the list: \<open>*p\<close> is \<open>peek p\<close>, \<open>p + 1\<close> is \<open>tl p\<close>, and two pointers into the
  same string are equal when their lists are.
\<close>

definition peek :: "bytes \<Rightarrow> u8" where
  "peek p = (case p of [] \<Rightarrow> 0 | c # _ \<Rightarrow> c)"

lemma peek_simps [simp]: "peek [] = 0" "peek (c # p) = c"
  by (simp_all add: peek_def)

text \<open>String literals.\<close>

definition lit :: "string \<Rightarrow> bytes" where
  "lit s = map (\<lambda>c. of_nat (of_char c)) s"

section \<open>Character classes\<close>

definition isspace :: "int \<Rightarrow> bool" where
  "isspace c = (c = 32 \<or> c = 9 \<or> c = 10 \<or> c = 13 \<or> c = 12 \<or> c = 11)"

definition isalpha :: "int \<Rightarrow> bool" where
  "isalpha c = ((97 \<le> c \<and> c \<le> 122) \<or> (65 \<le> c \<and> c \<le> 90))"

definition isdigit :: "int \<Rightarrow> bool" where
  "isdigit c = (48 \<le> c \<and> c \<le> 57)"

definition isalnum :: "int \<Rightarrow> bool" where
  "isalnum c = (isalpha c \<or> isdigit c)"

definition isupper :: "int \<Rightarrow> bool" where
  "isupper c = (65 \<le> c \<and> c \<le> 90)"

definition islower :: "int \<Rightarrow> bool" where
  "islower c = (97 \<le> c \<and> c \<le> 122)"

definition isprint :: "int \<Rightarrow> bool" where
  "isprint c = (32 \<le> c \<and> c \<le> 126)"

definition iscntrl :: "int \<Rightarrow> bool" where
  "iscntrl c = ((0 \<le> c \<and> c < 32) \<or> c = 127)"

definition isblank :: "int \<Rightarrow> bool" where
  "isblank c = (c = 32 \<or> c = 9)"

definition isgraph :: "int \<Rightarrow> bool" where
  "isgraph c = (32 < c \<and> c \<le> 126)"

definition ispunct :: "int \<Rightarrow> bool" where
  "ispunct c = (isgraph c \<and> \<not> isalnum c)"

definition isxdigit :: "int \<Rightarrow> bool" where
  "isxdigit c = (isdigit c \<or> (97 \<le> c \<and> c \<le> 102) \<or> (65 \<le> c \<and> c \<le> 70))"

definition toupper :: "int \<Rightarrow> int" where
  "toupper c = (if 97 \<le> c \<and> c \<le> 122 then c - 97 + 65 else c)"

definition tolower :: "int \<Rightarrow> int" where
  "tolower c = (if 65 \<le> c \<and> c \<le> 90 then c - 65 + 97 else c)"

lemmas ctype_defs = isspace_def isalpha_def isdigit_def isalnum_def isupper_def islower_def isprint_def
  iscntrl_def isblank_def isgraph_def ispunct_def isxdigit_def toupper_def tolower_def

text \<open>The classes fit together: every byte of the 7-bit set is exactly one of control
  character, blank, punctuation, letter or digit, and the case mappings are inverse on letters.\<close>

lemma ctype_partition:
  "0 \<le> c \<Longrightarrow> c < 128 \<Longrightarrow>
   (iscntrl c \<or> c = 32 \<or> ispunct c \<or> isupper c \<or> islower c \<or> isdigit c) \<and>
   (isprint c \<longleftrightarrow> c = 32 \<or> isgraph c) \<and> \<not> (iscntrl c \<and> isprint c) \<and> \<not> (ispunct c \<and> isalnum c)"
  by (auto simp: ctype_defs)

lemma case_inverse:
  "islower c \<Longrightarrow> isupper (toupper c) \<and> tolower (toupper c) = c"
  "isupper c \<Longrightarrow> islower (tolower c) \<and> toupper (tolower c) = c"
  "\<not> islower c \<Longrightarrow> toupper c = c" "\<not> isupper c \<Longrightarrow> tolower c = c"
  by (auto simp: ctype_defs)

end
