(* ===== verification/Regex.thy ===== *)
theory Regex
  imports CText
begin

text \<open>
  The pattern matcher of libc/regex.c, used by grep and levee.

  Pointers into a pattern or a text are byte lists, as \<open>CText\<close> explains. The two
  functions \<open>match_here\<close> and \<open>match_star\<close> call each other; their model takes the number of
  nested calls of \<open>match_here\<close> that the stack allows, \<open>None\<close> standing for a stack that is too
  small, so that the bound on the depth is a theorem. \<open>Regex_Correct\<close> gives the meaning
  of a pattern as a sequence of items, and proves the matcher equivalent to it.
\<close>

section \<open>Pattern elements\<close>

abbreviation (input) c_dollar :: u8 where "c_dollar \<equiv> 36"
abbreviation (input) c_star :: u8 where "c_star \<equiv> 42"
abbreviation (input) c_minus :: u8 where "c_minus \<equiv> 45"
abbreviation (input) c_dot :: u8 where "c_dot \<equiv> 46"
abbreviation (input) c_open :: u8 where "c_open \<equiv> 91"
abbreviation (input) c_backslash :: u8 where "c_backslash \<equiv> 92"
abbreviation (input) c_close :: u8 where "c_close \<equiv> 93"
abbreviation (input) c_caret :: u8 where "c_caret \<equiv> 94"

text \<open>The loop of \<open>match_class\<close>: whether \<open>c\<close> was found, and where the loop stopped.\<close>

fun class_loop :: "u8 \<Rightarrow> bytes \<Rightarrow> bool \<Rightarrow> bool \<times> bytes" where
  "class_loop c [] found = (found, [])"
| "class_loop c (p0 # p1 # p2 # ps) found =
     (if p0 = c_close then (found, p0 # p1 # p2 # ps)
      else if p1 = c_minus \<and> p2 \<noteq> c_close then class_loop c ps (found \<or> (p0 \<le> c \<and> c \<le> p2))
      else class_loop c (p1 # p2 # ps) (found \<or> c = p0))"
| "class_loop c (p0 # ps) found =
     (if p0 = c_close then (found, p0 # ps) else class_loop c ps (found \<or> c = p0))"

definition match_class :: "u8 \<Rightarrow> bytes \<Rightarrow> bool \<times> bytes" where
  "match_class c pat =
     (let negate = (peek pat = c_caret);
          (found, p) = class_loop c (if negate then tl pat else pat) False;
          class_end = (if peek p = c_close then tl p else p)
      in (if negate then \<not> found else found, class_end))"

definition pat_next :: "bytes \<Rightarrow> bytes" where
  "pat_next pat =
     (if peek pat = c_backslash \<and> peek (tl pat) \<noteq> 0 then tl (tl pat)
      else if peek pat = c_open then snd (match_class 0 (tl pat))
      else tl pat)"

definition match_one :: "bytes \<Rightarrow> u8 \<Rightarrow> bool" where
  "match_one pat c =
     (if c = 0 then False
      else if peek pat = c_dot then True
      else if peek pat = c_backslash \<and> peek (tl pat) \<noteq> 0 then c = peek (tl pat)
      else if peek pat = c_open then fst (match_class c (tl pat))
      else c = peek pat)"

section \<open>The matcher\<close>

text \<open>
  \<open>star_run\<close>: how far \<open>match_star\<close> advances; \<open>star_back\<close>: its loop back to the start, where
  \<open>m\<close> is \<open>match_here\<close> on the rest of the pattern.
\<close>

primrec star_run :: "u8 \<Rightarrow> bool \<Rightarrow> bytes \<Rightarrow> bytes \<Rightarrow> nat" where
  "star_run c is_class class_pat [] = 0"
| "star_run c is_class class_pat (t # ts) =
     (if (if is_class then fst (match_class t (tl class_pat)) else c = c_dot \<or> t = c)
      then Suc (star_run c is_class class_pat ts) else 0)"

primrec star_back :: "(bytes \<Rightarrow> bytes option option) \<Rightarrow> bytes \<Rightarrow> nat \<Rightarrow> bytes option option" where
  "star_back m text 0 = m text"
| "star_back m text (Suc n) =
     (case m (drop (Suc n) text) of
        None \<Rightarrow> None
      | Some (Some e) \<Rightarrow> Some (Some e)
      | Some None \<Rightarrow> star_back m text n)"

definition match_star ::
  "(bytes \<Rightarrow> bytes option option) \<Rightarrow> u8 \<Rightarrow> bool \<Rightarrow> bytes \<Rightarrow> bytes \<Rightarrow> bytes option option" where
  "match_star m c is_class class_pat text = star_back m text (star_run c is_class class_pat text)"

primrec match_here :: "nat \<Rightarrow> bytes \<Rightarrow> bytes \<Rightarrow> bytes option option" where
  "match_here 0 pat text = None"
| "match_here (Suc d) pat text =
     (if pat = [] then Some (Some text)
      else if pat = [c_dollar] then Some (if text = [] then Some [] else None)
      else if peek (pat_next pat) = c_star then
        (if peek pat = c_open
         then match_star (match_here d (tl (pat_next pat))) 0 True pat text
         else match_star (match_here d (tl (pat_next pat)))
                (if peek pat = c_backslash \<and> peek (tl pat) \<noteq> 0 then peek (tl pat) else peek pat)
                False pat text)
      else if match_one pat (peek text) then match_here d (pat_next pat) (tl text)
      else Some None)"

section \<open>Compiling and executing\<close>

abbreviation (input) RE_MAXPAT :: nat where "RE_MAXPAT \<equiv> 128"

record regex_t =
  pattern :: bytes
  valid :: bool

text \<open>The syntax check of \<open>regcomp\<close>; \<open>skip_class\<close> is its loop to the closing bracket.\<close>

definition skip_class :: "bytes \<Rightarrow> bytes" where
  "skip_class p =
     (let p1 = (if peek p = c_caret then tl p else p);
          p2 = (if peek p1 = c_close then tl p1 else p1)
      in dropWhile (\<lambda>b. b \<noteq> c_close) p2)"

lemma length_skip_class: "length (skip_class p) \<le> length p"
proof -
  have "length (tl q) \<le> length q" for q :: bytes by simp
  then have "length (if peek q = x then tl q else q) \<le> length q" for q x by simp
  moreover have "length (dropWhile (\<lambda>b. b \<noteq> c_close) q) \<le> length q" for q
    by (rule length_dropWhile_le)
  ultimately show ?thesis unfolding skip_class_def Let_def by (meson le_trans)
qed

function syntax_ok :: "bytes \<Rightarrow> bool" where
  "syntax_ok p =
     (if p = [] then True
      else if peek p = c_backslash then (if tl p = [] then False else syntax_ok (tl (tl p)))
      else if peek p = c_open then
        (if skip_class (tl p) = [] then False else syntax_ok (tl (skip_class (tl p))))
      else syntax_ok (tl p))"
  by pat_completeness auto
termination
proof (relation "measure length")
  fix p :: bytes
  assume p: "p \<noteq> []"
  then show "(tl p, p) \<in> measure length" by (cases p) auto
  show "(tl (tl p), p) \<in> measure length" using p by (cases p) auto
  show "(tl (skip_class (tl p)), p) \<in> measure length"
    using p length_skip_class [of "tl p"] by (cases p) auto
qed simp

declare syntax_ok.simps [simp del]

definition regcomp :: "regex_t \<Rightarrow> bytes \<Rightarrow> int \<times> regex_t" where
  "regcomp preg pat =
     (if RE_MAXPAT \<le> length pat then (-1, preg\<lparr>valid := False\<rparr>)
      else if \<not> syntax_ok pat then (-1, preg\<lparr>valid := False\<rparr>)
      else (0, preg\<lparr>pattern := pat, valid := True\<rparr>))"

text \<open>The unanchored search tries every position, the end of the text included.\<close>

primrec try_from :: "(bytes \<Rightarrow> bytes option option) \<Rightarrow> bytes \<Rightarrow> (bytes \<times> bytes) option option" where
  "try_from m [] = map_option (map_option (\<lambda>e. ([], e))) (m [])"
| "try_from m (t # ts) =
     (case m (t # ts) of
        None \<Rightarrow> None
      | Some (Some e) \<Rightarrow> Some (Some (t # ts, e))
      | Some None \<Rightarrow> try_from m ts)"

text \<open>\<open>Some (Some (s, e))\<close>: 0 with the match from \<open>s\<close> to \<open>e\<close>; \<open>Some None\<close>: -1.\<close>

definition regexec :: "nat \<Rightarrow> regex_t \<Rightarrow> bytes \<Rightarrow> (bytes \<times> bytes) option option" where
  "regexec d preg text =
     (if \<not> valid preg then Some None
      else if peek (pattern preg) = c_caret
      then map_option (map_option (\<lambda>e. (text, e))) (match_here d (tl (pattern preg)) text)
      else try_from (match_here d (pattern preg)) text)"

definition regfree :: "regex_t \<Rightarrow> regex_t" where
  "regfree preg = preg\<lparr>valid := False\<rparr>"

end
