(* ===== verification/Regex_Correct.thy ===== *)
theory Regex_Correct
  imports Regex
begin

text \<open>
  The meaning of a pattern, independent of the matcher: a pattern is a sequence of items,
  each a set of bytes to be matched once or any number of times, and a text matches when it
  can be cut up accordingly. The items are read off the pattern as the comments of the code
  describe the syntax, not with its functions: in particular a bracket right after the
  opening bracket of a class is a member of it. The matcher of \<open>Regex\<close> always returns within a
  stack depth bounded by the length of the pattern, and finds the leftmost match exactly when
  there is one, for all patterns but those with an escaped dot under a star or a class that
  starts with a bracket. Two lemmas at the end show what it does with these.
\<close>

section \<open>Patterns as items\<close>

datatype elem = Any | Lit u8 | Class bool "(u8 \<times> u8) list"

datatype item = One elem | Star elem | Eol

definition in_ranges :: "u8 \<Rightarrow> (u8 \<times> u8) list \<Rightarrow> bool" where
  "in_ranges c rs = list_ex (\<lambda>r. fst r \<le> c \<and> c \<le> snd r) rs"

fun accepts :: "elem \<Rightarrow> u8 \<Rightarrow> bool" where
  "accepts Any c = True"
| "accepts (Lit x) c = (c = x)"
| "accepts (Class negated rs) c = (in_ranges c rs \<noteq> negated)"

text \<open>The members of a class, from the text between its brackets: bytes, and ranges \<open>a-z\<close>.\<close>

fun members :: "bytes \<Rightarrow> (u8 \<times> u8) list" where
  "members [] = []"
| "members [a] = [(a, a)]"
| "members [a, b] = [(a, a), (b, b)]"
| "members (a # b # c # cs) =
     (if b = c_minus then (a, c) # members cs else (a, a) # members (b # c # cs))"

text \<open>
  The text of a class and what follows it: it runs to the closing bracket, where a bracket in
  the first place is a member and does not close it.
\<close>

definition class_text :: "bytes \<Rightarrow> bytes" where
  "class_text p =
     (if peek p = c_close then c_close # takeWhile (\<lambda>b. b \<noteq> c_close) (tl p)
      else takeWhile (\<lambda>b. b \<noteq> c_close) p)"

definition class_rest :: "bytes \<Rightarrow> bytes" where
  "class_rest p = tl (dropWhile (\<lambda>b. b \<noteq> c_close) (if peek p = c_close then tl p else p))"

text \<open>The first element of a pattern, and the pattern after it.\<close>

definition first_elem :: "bytes \<Rightarrow> elem \<times> bytes" where
  "first_elem pat =
     (if peek pat = c_dot then (Any, tl pat)
      else if peek pat = c_backslash \<and> peek (tl pat) \<noteq> 0 then (Lit (peek (tl pat)), tl (tl pat))
      else if peek pat = c_open then
        (let negated = (peek (tl pat) = c_caret); p = (if negated then tl (tl pat) else tl pat)
         in (Class negated (members (class_text p)), class_rest p))
      else (Lit (peek pat), tl pat))"

lemma length_class_rest: "length (class_rest p) \<le> length p"
  using length_dropWhile_le [of "\<lambda>b. b \<noteq> c_close" p] length_dropWhile_le [of "\<lambda>b. b \<noteq> c_close" "tl p"]
  by (auto simp: class_rest_def)

lemma first_elem_less: "pat \<noteq> [] \<Longrightarrow> length (snd (first_elem pat)) < length pat"
  using length_class_rest [of "tl pat"] length_class_rest [of "tl (tl pat)"]
  by (cases pat) (auto simp: first_elem_def Let_def)

function items :: "bytes \<Rightarrow> item list" where
  "items pat =
     (if pat = [] then []
      else if pat = [c_dollar] then [Eol]
      else if peek (snd (first_elem pat)) = c_star
      then Star (fst (first_elem pat)) # items (tl (snd (first_elem pat)))
      else One (fst (first_elem pat)) # items (snd (first_elem pat)))"
  by pat_completeness auto
termination
proof (relation "measure length")
  fix pat :: bytes
  assume p: "pat \<noteq> []"
  then show "(snd (first_elem pat), pat) \<in> measure length" by (simp add: first_elem_less)
  then show "(tl (snd (first_elem pat)), pat) \<in> measure length" by simp
qed simp

declare items.simps [simp del]

text \<open>
  The items the matcher reads as the comments say: no escaped dot under a star, and no class
  with a bracket among its members, which can only stand in the first place.
\<close>

fun plain_elem :: "elem \<Rightarrow> bool" where
  "plain_elem (Class negated rs) = list_all (\<lambda>r. fst r \<noteq> c_close) rs"
| "plain_elem e = True"

fun plain_item :: "item \<Rightarrow> bool" where
  "plain_item (One e) = plain_elem e"
| "plain_item (Star e) = (plain_elem e \<and> e \<noteq> Lit c_dot)"
| "plain_item Eol = True"

section \<open>The pattern as the code walks it\<close>

text \<open>The ranges the loop of \<open>match_class\<close> tries, and the text where it stops.\<close>

fun ranges :: "bytes \<Rightarrow> (u8 \<times> u8) list \<times> bytes" where
  "ranges [] = ([], [])"
| "ranges (p0 # p1 # p2 # ps) =
     (if p0 = c_close then ([], p0 # p1 # p2 # ps)
      else if p1 = c_minus \<and> p2 \<noteq> c_close then apfst (Cons (p0, p2)) (ranges ps)
      else apfst (Cons (p0, p0)) (ranges (p1 # p2 # ps)))"
| "ranges (p0 # ps) = (if p0 = c_close then ([], p0 # ps) else apfst (Cons (p0, p0)) (ranges ps))"

definition elem_of :: "bytes \<Rightarrow> elem" where
  "elem_of pat =
     (if peek pat = c_dot then Any
      else if peek pat = c_backslash \<and> peek (tl pat) \<noteq> 0 then Lit (peek (tl pat))
      else if peek pat = c_open then
        (if peek (tl pat) = c_caret then Class True (fst (ranges (tl (tl pat))))
         else Class False (fst (ranges (tl pat))))
      else Lit (peek pat))"

text \<open>The loop stops at the first bracket, and reads the members in front of it.\<close>

lemma ranges_members:
  "ranges p = (members (takeWhile (\<lambda>b. b \<noteq> c_close) p), dropWhile (\<lambda>b. b \<noteq> c_close) p)"
proof (induction p rule: ranges.induct)
  case (2 p0 p1 p2 ps)
  then show ?case by (cases ps) auto
qed auto

lemma length_class_loop: "length (snd (class_loop c p f)) \<le> length p"
  by (induction c p f rule: class_loop.induct) auto

lemma length_match_class: "length (snd (match_class c p)) \<le> length p"
proof -
  have tl: "length (if b then tl q else q) \<le> length q" for b and q :: bytes by simp
  obtain f q where q: "class_loop c (if peek p = c_caret then tl p else p) False = (f, q)"
    by fastforce
  then have "length q \<le> length p"
    using length_class_loop [of c "if peek p = c_caret then tl p else p" False]
      tl [of "peek p = c_caret" p] by (simp del: length_tl)
  with tl [of "peek q = c_close" q] have "length (if peek q = c_close then tl q else q) \<le> length p"
    by (rule le_trans)
  with q show ?thesis by (simp add: match_class_def Let_def del: length_tl)
qed

lemma pat_next_less: "pat \<noteq> [] \<Longrightarrow> length (pat_next pat) < length pat"
  using length_match_class [of 0 "tl pat"] by (cases pat) (auto simp: pat_next_def)

text \<open>\<open>rmatch is t e\<close>: the items match the front of \<open>t\<close> and leave \<open>e\<close>.\<close>

inductive rmatch :: "item list \<Rightarrow> bytes \<Rightarrow> bytes \<Rightarrow> bool" where
  rmatch_end: "rmatch [] t t"
| rmatch_eol: "rmatch [Eol] [] []"
| rmatch_one: "accepts e c \<Longrightarrow> rmatch is t r \<Longrightarrow> rmatch (One e # is) (c # t) r"
| rmatch_skip: "rmatch is t r \<Longrightarrow> rmatch (Star e # is) t r"
| rmatch_more: "accepts e c \<Longrightarrow> rmatch (Star e # is) t r \<Longrightarrow> rmatch (Star e # is) (c # t) r"

inductive_simps rmatch_Nil [simp]: "rmatch [] t r"
inductive_simps rmatch_Eol [simp]: "rmatch (Eol # is) t r"
inductive_simps rmatch_One: "rmatch (One e # is) t r"
inductive_cases rmatch_StarE: "rmatch (Star e # is) t r"

section \<open>Elements\<close>

lemma class_loop_ranges:
  "class_loop c p f = (f \<or> in_ranges c (fst (ranges p)), snd (ranges p))"
proof (induction c p f rule: class_loop.induct)
  case (2 c p0 p1 p2 ps found)
  then show ?case by (auto simp: in_ranges_def)
qed (auto simp: in_ranges_def)

lemma match_class_accepts:
  "fst (match_class c p) =
     accepts (if peek p = c_caret then Class True (fst (ranges (tl p))) else Class False (fst (ranges p))) c"
  by (simp add: match_class_def class_loop_ranges Let_def)

lemma match_one_accepts: "c \<noteq> 0 \<Longrightarrow> match_one pat c = accepts (elem_of pat) c"
  by (auto simp: match_one_def elem_of_def match_class_accepts)

lemma leading_bracket_not_plain [simp]: "\<not> list_all (\<lambda>r. fst r \<noteq> c_close) (members (c_close # cs))"
  by (cases "c_close # cs" rule: members.cases) auto

lemma class_end:
  "(if peek (dropWhile (\<lambda>b. b \<noteq> c_close) p) = c_close then tl (dropWhile (\<lambda>b. b \<noteq> c_close) p)
    else dropWhile (\<lambda>b. b \<noteq> c_close) p) = tl (dropWhile (\<lambda>b. b \<noteq> c_close) p)"
  by (induction p) auto

text \<open>On a plain element the walk of the code reads what the comments describe.\<close>

lemma first_elem_plain:
  assumes "plain_elem (fst (first_elem pat))"
  shows "first_elem pat = (elem_of pat, pat_next pat)"
  using assms
  by (auto simp: first_elem_def elem_of_def pat_next_def match_class_def class_loop_ranges
      ranges_members class_text_def class_rest_def class_end Let_def split: if_splits)

lemma match_one_nul [simp]: "\<not> match_one pat 0"
  by (simp add: match_one_def)

section \<open>Repetitions\<close>

lemma star_back_defined:
  "\<forall>k \<le> n. m (drop k t) \<noteq> None \<Longrightarrow> \<exists>r. star_back m t n = Some r"
proof (induction n)
  case (Suc n)
  then obtain r where "m (drop (Suc n) t) = Some r" by blast
  moreover obtain q where "star_back m t n = Some q" using Suc by fastforce
  ultimately show ?case by (cases r) auto
qed auto

lemma star_back_found:
  "star_back m t n = Some (Some e) \<Longrightarrow> \<exists>k \<le> n. m (drop k t) = Some (Some e)"
proof (induction n)
  case (Suc n)
  then consider "m (drop (Suc n) t) = Some (Some e)" | "star_back m t n = Some (Some e)"
    by (auto split: option.splits)
  then show ?case using Suc.IH by cases (blast intro: le_SucI)+
qed auto

lemma star_back_fails:
  "star_back m t n = Some None \<Longrightarrow> k \<le> n \<Longrightarrow> m (drop k t) = Some None"
proof (induction n)
  case (Suc n)
  then have "m (drop (Suc n) t) = Some None" "star_back m t n = Some None"
    by (auto split: option.splits)
  with Suc show ?case by (cases "k = Suc n") auto
qed auto

lemma star_run_length:
  assumes "\<And>x. x \<in> set t \<Longrightarrow>
    (if is_class then fst (match_class x (tl cp)) else c = c_dot \<or> x = c) = P x"
  shows "star_run c is_class cp t = length (takeWhile P t)"
  using assms by (induction t) auto

lemma rmatch_Star:
  "rmatch (Star e # is) t r \<longleftrightarrow> (\<exists>k \<le> length (takeWhile (accepts e) t). rmatch is (drop k t) r)"
    (is "?L t \<longleftrightarrow> ?R t")
proof
  assume "?L t"
  then show "?R t"
  proof (induction t)
    case Nil
    then show ?case by (auto elim: rmatch_StarE)
  next
    case (Cons c t)
    consider (skip) "rmatch is (c # t) r" | (more) "accepts e c" "rmatch (Star e # is) t r"
      using Cons.prems by (auto elim: rmatch_StarE)
    then show ?case
    proof cases
      case skip
      then show ?thesis by (intro exI [of _ 0]) simp
    next
      case more
      with Cons.IH obtain k where "k \<le> length (takeWhile (accepts e) t)" "rmatch is (drop k t) r"
        by auto
      with more show ?thesis by (intro exI [of _ "Suc k"]) simp
    qed
  qed
next
  assume "?R t"
  then obtain k where "k \<le> length (takeWhile (accepts e) t)" "rmatch is (drop k t) r" by blast
  then show "?L t"
  proof (induction k arbitrary: t)
    case 0
    then show ?case by (simp add: rmatch_skip)
  next
    case (Suc k)
    then show ?case by (cases t) (auto intro: rmatch_more split: if_splits)
  qed
qed

section \<open>The matcher is sound, complete and bounded\<close>

text \<open>What a call of \<open>match_here\<close> promises.\<close>

definition decides :: "item list \<Rightarrow> bytes \<Rightarrow> bytes option option \<Rightarrow> bool" where
  "decides is t res \<longleftrightarrow>
     (\<exists>r. res = Some r \<and> (case r of None \<Rightarrow> \<forall>e. \<not> rmatch is t e | Some e \<Rightarrow> rmatch is t e))"

lemma star_back_decides:
  assumes "\<forall>k \<le> n. decides is (drop k t) (m (drop k t))"
    and n: "n = length (takeWhile (accepts e) t)"
  shows "decides (Star e # is) t (star_back m t n)"
proof -
  have m: "decides is (drop k t) (m (drop k t))" if "k \<le> n" for k using assms(1) that by blast
  then have "\<forall>k \<le> n. m (drop k t) \<noteq> None" by (auto simp: decides_def)
  then obtain r where r: "star_back m t n = Some r" using star_back_defined by blast
  show ?thesis
  proof (cases r)
    case None
    with r have "m (drop k t) = Some None" if "k \<le> n" for k using that star_back_fails by blast
    with m have "\<not> rmatch is (drop k t) x" if "k \<le> n" for k x using that by (fastforce simp: decides_def)
    then show ?thesis using r None n by (auto simp: decides_def rmatch_Star)
  next
    case (Some x)
    with r obtain k where "k \<le> n" "m (drop k t) = Some (Some x)" using star_back_found by blast
    with m [of k] have "rmatch is (drop k t) x" by (simp add: decides_def)
    then show ?thesis using r Some n \<open>k \<le> n\<close> by (auto simp: decides_def rmatch_Star)
  qed
qed

lemma match_here_defined: "length pat < d \<Longrightarrow> \<exists>r. match_here d pat t = Some r"
proof (induction d arbitrary: pat t)
  case (Suc d)
  show ?case
  proof (cases "pat = []")
    case False
    then have "length (pat_next pat) < d" using pat_next_less [of pat] Suc.prems by simp
    then have rest: "\<exists>r. match_here d (pat_next pat) u = Some r"
      "\<exists>r. match_here d (tl (pat_next pat)) u = Some r" for u
      using Suc.IH by (auto simp: le_less_trans [rotated])
    then have "\<forall>k \<le> n. match_here d (tl (pat_next pat)) (drop k t) \<noteq> None" for n by fastforce
    then have "\<exists>r. match_star (match_here d (tl (pat_next pat))) c b cp t = Some r" for c b cp
      unfolding match_star_def by (rule star_back_defined)
    with rest show ?thesis by simp
  qed simp
qed simp

lemma elem_of_class:
  "peek pat = c_open \<Longrightarrow> fst (match_class x (tl pat)) = accepts (elem_of pat) x"
  by (simp add: elem_of_def match_class_accepts)

lemma elem_of_single:
  "peek pat \<noteq> c_open \<Longrightarrow> elem_of pat \<noteq> Lit c_dot \<Longrightarrow>
   (let c = if peek pat = c_backslash \<and> peek (tl pat) \<noteq> 0 then peek (tl pat) else peek pat
    in c = c_dot \<or> x = c) = accepts (elem_of pat) x"
  by (auto simp: elem_of_def Let_def)

lemma match_here_decides:
  "length pat < d \<Longrightarrow> 0 \<notin> set t \<Longrightarrow> \<forall>it \<in> set (items pat). plain_item it \<Longrightarrow>
   decides (items pat) t (match_here d pat t)"
proof (induction d arbitrary: pat t)
  case (Suc d)
  have fe: "pat \<noteq> [] \<Longrightarrow> pat \<noteq> [c_dollar] \<Longrightarrow> first_elem pat = (elem_of pat, pat_next pat)"
    using Suc.prems(3) by (intro first_elem_plain, subst (asm) items.simps) (auto split: if_splits)
  consider "pat = []" | "pat = [c_dollar]"
    | (star) "pat \<noteq> []" "pat \<noteq> [c_dollar]" "peek (pat_next pat) = c_star"
    | (one) "pat \<noteq> []" "pat \<noteq> [c_dollar]" "peek (pat_next pat) \<noteq> c_star" by blast
  then show ?case
  proof cases
    case 1
    then show ?thesis by (simp add: decides_def items.simps)
  next
    case 2
    then show ?thesis by (simp add: decides_def items.simps [of "[c_dollar]"])
  next
    case star
    let ?n = "pat_next pat" and ?e = "elem_of pat"
    have it: "items pat = Star ?e # items (tl ?n)" using star fe by (subst items.simps) simp
    have ne: "?e \<noteq> Lit c_dot" using Suc.prems(3) it by auto
    have less: "length (tl ?n) < d" using pat_next_less [of pat] star(1) Suc.prems(1) by simp
    have IH: "decides (items (tl ?n)) (drop k t) (match_here d (tl ?n) (drop k t))" for k
      using Suc.prems it by (intro Suc.IH less) (auto dest: in_set_dropD)
    have "star_run c b pat t = length (takeWhile (accepts ?e) t) \<Longrightarrow>
      decides (items pat) t (match_star (match_here d (tl ?n)) c b pat t)" for c b
      unfolding match_star_def it using IH by (intro star_back_decides) auto
    moreover have "star_run 0 True pat t = length (takeWhile (accepts ?e) t)" if "peek pat = c_open"
      using that by (intro star_run_length) (simp add: elem_of_class)
    moreover have "star_run (if peek pat = c_backslash \<and> peek (tl pat) \<noteq> 0 then peek (tl pat) else peek pat)
        False pat t = length (takeWhile (accepts ?e) t)" if "peek pat \<noteq> c_open"
      by (rule star_run_length)
        (simp only: if_False elem_of_single [OF that ne, unfolded Let_def])
    ultimately show ?thesis using star by simp
  next
    case one
    let ?n = "pat_next pat" and ?e = "elem_of pat"
    have it: "items pat = One ?e # items ?n" using one fe by (subst items.simps) simp
    have less: "length ?n < d" using pat_next_less [of pat] one(1) Suc.prems(1) by simp
    show ?thesis
    proof (cases t)
      case Nil
      then show ?thesis using one it by (simp add: decides_def rmatch_One)
    next
      case (Cons c u)
      then have "c \<noteq> 0" using Suc.prems(2) by auto
      have IH: "decides (items ?n) u (match_here d ?n u)"
        using Suc.prems it Cons by (intro Suc.IH less) auto
      then show ?thesis using one it Cons \<open>c \<noteq> 0\<close>
        by (auto simp: decides_def match_one_accepts rmatch_One split: option.splits)
    qed
  qed
qed simp

section \<open>Searching\<close>

text \<open>The positions a search tries, and the items it looks for there.\<close>

definition anchored :: "bytes \<Rightarrow> bool" where
  "anchored pat \<longleftrightarrow> peek pat = c_caret"

definition body :: "bytes \<Rightarrow> bytes" where
  "body pat = (if anchored pat then tl pat else pat)"

definition matches_at :: "bytes \<Rightarrow> bytes \<Rightarrow> bytes \<Rightarrow> bool" where
  "matches_at pat = rmatch (items (body pat))"

text \<open>The first match: the \<open>i\<close>-th position, and what is left after the match there.\<close>

definition first_match :: "bytes \<Rightarrow> bytes \<Rightarrow> bytes \<times> bytes \<Rightarrow> bool" where
  "first_match pat text = (\<lambda>(s, e). \<exists>i \<le> length text. s = drop i text \<and> (anchored pat \<longrightarrow> i = 0) \<and>
     matches_at pat s e \<and> (\<forall>j < i. \<forall>e'. \<not> matches_at pat (drop j text) e'))"

definition no_match :: "bytes \<Rightarrow> bytes \<Rightarrow> bool" where
  "no_match pat text \<longleftrightarrow>
     (\<forall>i \<le> length text. \<forall>e. (anchored pat \<longrightarrow> i = 0) \<longrightarrow> \<not> matches_at pat (drop i text) e)"

lemma try_from_defined: "\<forall>u. m u \<noteq> None \<Longrightarrow> \<exists>r. try_from m t = Some r"
proof (induction t)
  case (Cons x t)
  then show ?case by (auto split: option.splits)
qed auto

lemma try_from_none:
  "try_from m t = Some None \<Longrightarrow> i \<le> length t \<Longrightarrow> m (drop i t) = Some None"
proof (induction t arbitrary: i)
  case (Cons x t)
  then have "m (x # t) = Some None" "try_from m t = Some None" by (auto split: option.splits)
  with Cons show ?case by (cases i) auto
qed auto

lemma try_from_some:
  "try_from m t = Some (Some (s, e)) \<Longrightarrow>
   \<exists>i \<le> length t. s = drop i t \<and> m s = Some (Some e) \<and> (\<forall>j < i. m (drop j t) = Some None)"
proof (induction t)
  case (Cons x t)
  consider (here) "m (x # t) = Some (Some e)" "s = x # t"
    | (later) "m (x # t) = Some None" "try_from m t = Some (Some (s, e))"
    using Cons.prems by (auto split: option.splits)
  then show ?case
  proof cases
    case here
    then show ?thesis by (intro exI [of _ 0]) simp
  next
    case later
    then obtain i where "i \<le> length t" "s = drop i t" "m s = Some (Some e)"
      "\<forall>j < i. m (drop j t) = Some None" using Cons.IH by blast
    with later(1) have "m (drop j (x # t)) = Some None" if "j < Suc i" for j
      using that by (cases j) auto
    with \<open>i \<le> length t\<close> \<open>s = drop i t\<close> \<open>m s = Some (Some e)\<close> show ?thesis
      by (intro exI [of _ "Suc i"]) simp
  qed
qed auto

lemma regcomp_ok:
  "regcomp re0 pat = (0, re) \<Longrightarrow> pattern re = pat \<and> valid re \<and> length pat < RE_MAXPAT \<and> syntax_ok pat"
  by (auto simp: regcomp_def split: if_splits)

lemma length_body: "length (body pat) \<le> length pat"
  by (simp add: body_def)

lemma regexec_run:
  "valid re \<Longrightarrow> regexec d re text =
     (if anchored (pattern re)
      then map_option (map_option (\<lambda>e. (text, e))) (match_here d (body (pattern re)) text)
      else try_from (match_here d (body (pattern re))) text)"
  by (simp add: regexec_def anchored_def body_def)

lemma regexec_defined:
  assumes "regcomp re0 pat = (0, re)"
  shows "\<exists>r. regexec RE_MAXPAT re text = Some r"
proof -
  have "pattern re = pat" "valid re" "length (body pat) < RE_MAXPAT"
    using regcomp_ok [OF assms] length_body [of pat] by auto
  moreover from this have m: "\<exists>r. match_here RE_MAXPAT (body pat) u = Some r" for u
    by (intro match_here_defined) simp
  moreover from m have "\<exists>r. try_from (match_here RE_MAXPAT (body pat)) text = Some r"
    by (intro try_from_defined) fastforce
  ultimately show ?thesis by (auto simp: regexec_run)
qed

text \<open>
  C25. Executing a compiled pattern returns on every text, and never nests more than
  \<open>RE_MAXPAT\<close> calls of \<open>match_here\<close>: the stack a match needs is bounded by the pattern and
  does not depend on the text.
\<close>

theorem regexec_returns:
  assumes "regcomp re0 pat = (0, re)"
  shows "\<exists>r. regexec RE_MAXPAT re text = Some r"
  by (rule regexec_defined [OF assms])

text \<open>A compiled pattern for the witnesses: \<open>a[0-9]*b\<close>.\<close>

definition sample_re :: regex_t where
  "sample_re = \<lparr>pattern = [97, 91, 48, 45, 57, 93, 42, 98], valid = True\<rparr>"

lemma sample_compiles:
  "regcomp \<lparr>pattern = [], valid = False\<rparr> [97, 91, 48, 45, 57, 93, 42, 98] = (0, sample_re)"
  by (simp add: regcomp_def sample_re_def syntax_ok.simps skip_class_def)

lemma regexec_returns_witness: "\<exists>r. regexec RE_MAXPAT sample_re [120, 97, 49, 50, 98, 121] = Some r"
  by (rule regexec_returns [OF sample_compiles])

text \<open>
  C26. Executing a compiled pattern answers with the leftmost match of the pattern in the
  text when there is one, and with \<open>-1\<close> exactly when there is none, where matching is that
  of the items the comments describe, for plain patterns: those that neither repeat an escaped
  dot (see \<open>escaped_dot_star\<close>) nor have a class that starts with a bracket (see
  \<open>leading_bracket\<close>).
\<close>

theorem regexec_leftmost:
  assumes "regcomp re0 pat = (0, re)" and "0 \<notin> set text"
    and "\<forall>it \<in> set (items (body pat)). plain_item it"
  shows "(\<exists>m. regexec RE_MAXPAT re text = Some (Some m) \<and> first_match pat text m) \<or>
    (regexec RE_MAXPAT re text = Some None \<and> no_match pat text)"
proof -
  let ?m = "match_here RE_MAXPAT (body pat)" and ?is = "items (body pat)"
  have re: "pattern re = pat" "valid re" and "length (body pat) < RE_MAXPAT"
    using regcomp_ok [OF assms(1)] length_body [of pat] by auto
  then have dec: "decides ?is (drop i text) (?m (drop i text))" for i
    using assms(2,3) by (intro match_here_decides) (auto dest: in_set_dropD)
  show ?thesis
  proof (cases "anchored pat")
    case True
    obtain r where r: "?m text = Some r" "case r of None \<Rightarrow> \<forall>e. \<not> rmatch ?is text e | Some e \<Rightarrow> rmatch ?is text e"
      using dec [of 0] by (auto simp: decides_def)
    then show ?thesis using True re
      by (cases r) (auto simp: regexec_run first_match_def no_match_def matches_at_def)
  next
    case False
    have fail: "\<not> rmatch ?is (drop i text) e" if "?m (drop i text) = Some None" for i e
      using dec [of i] that by (simp add: decides_def)
    obtain r where r: "regexec RE_MAXPAT re text = Some r" using regexec_defined [OF assms(1)] by blast
    then have t: "try_from ?m text = Some r" using False re by (simp add: regexec_run)
    show ?thesis
    proof (cases r)
      case None
      with t fail try_from_none have "no_match pat text" unfolding no_match_def matches_at_def by blast
      with r None show ?thesis by simp
    next
      case (Some m)
      obtain s e where m: "m = (s, e)" by (cases m)
      with t Some obtain i where i: "i \<le> length text" "s = drop i text" "?m s = Some (Some e)"
        "\<forall>j < i. ?m (drop j text) = Some None" using try_from_some by blast
      moreover from i dec [of i] have "matches_at pat s e" by (simp add: decides_def matches_at_def)
      ultimately have "first_match pat text m"
        unfolding first_match_def m matches_at_def using fail False by auto
      with r Some show ?thesis by simp
    qed
  qed
qed

lemma regexec_leftmost_witness:
  "(\<exists>m. regexec RE_MAXPAT sample_re [120, 97, 49, 50, 98, 121] = Some (Some m) \<and>
      first_match [97, 91, 48, 45, 57, 93, 42, 98] [120, 97, 49, 50, 98, 121] m) \<or>
    (regexec RE_MAXPAT sample_re [120, 97, 49, 50, 98, 121] = Some None \<and>
      no_match [97, 91, 48, 45, 57, 93, 42, 98] [120, 97, 49, 50, 98, 121])"
  by (rule regexec_leftmost [OF sample_compiles])
    (simp_all add: body_def anchored_def items.simps first_elem_def class_text_def class_rest_def)

section \<open>Two deviations\<close>

text \<open>
  \<open>match_here\<close> hands the escaped character of a starred element to \<open>match_star\<close>, which takes
  a dot for any character: an escaped dot with a star repeats every byte, although an escaped
  dot alone matches a dot only.
\<close>

lemma escaped_dot_star:
  "match_here (Suc (Suc d)) [c_backslash, c_dot, c_star] t = Some (Some [])"
proof -
  have "star_run c_dot False cp u = length u" for cp u by (induction u) auto
  moreover have "star_back (match_here (Suc d) []) t (length t) = Some (Some [])"
    by (cases "length t") (auto simp del: drop_Suc)
  ultimately show ?thesis
    by (simp add: pat_next_def match_star_def)
qed

text \<open>
  The comment of \<open>match_class\<close> and the check of \<open>regcomp\<close> take a bracket right after the
  opening one for a member of the class; the loop of \<open>match_class\<close> ends there: the class is
  empty, and the rest of it is matched literally. The items of the pattern are one class with
  the two members.
\<close>

lemma leading_bracket:
  "syntax_ok [c_open, c_close, 97, c_close]"
  "items [c_open, c_close, 97, c_close] = [One (Class False [(c_close, c_close), (97, 97)])]"
  "match_here (Suc (Suc d)) [c_open, c_close, 97, c_close] (c # t) = Some None"
  by (simp_all add: syntax_ok.simps skip_class_def pat_next_def match_class_def match_one_def
      items.simps first_elem_def class_text_def class_rest_def)

end
