(* ===== verification/Line_Edit.thy ===== *)
theory Line_Edit
  imports Tty
begin

text \<open>
  The line editor of libc/lineedit.c, through which the shell reads commands.

  \<open>le_state\<close> is \<open>struct le_state\<close>; \<open>le_lib\<close> holds the file-scope variables (the history ring,
  the browsing position and the line saved while browsing, the saved terminal settings),
  together with what the system calls see: the settings of the terminal, the results that
  \<open>read\<close> of one byte is going to give, and the bytes written so far. Once the results are
  used up every further \<open>read\<close> gives 0, as on a terminal that has been closed.

  \<open>None\<close> stands for undefined behaviour of the C code: a NULL dereference, or a store beyond
  the end of \<open>char tmp[LE_LINE_MAX + 64]\<close> in the functions that update the display, or before
  the start of a caller's buffer of size 0.
\<close>

abbreviation (input) LE_LINE_MAX :: nat where "LE_LINE_MAX \<equiv> 256"
abbreviation (input) LE_HIST_MAX :: nat where "LE_HIST_MAX \<equiv> 16"
abbreviation (input) LE_HIST_LINE :: nat where "LE_HIST_LINE \<equiv> 128"

datatype le_key = LEK_CHAR | LEK_LEFT | LEK_RIGHT | LEK_HOME | LEK_END | LEK_BACKSPACE
  | LEK_DELETE | LEK_ENTER | LEK_EOF | LEK_KILL | LEK_UP | LEK_DOWN | LEK_NONE

record le_state =
  lbuf :: "nat \<Rightarrow> u8"
  llen :: nat
  lpos :: nat
  lcols :: int

text \<open>A \<open>read\<close> of one byte: the byte, nothing (0 or an error), or interrupted by a signal.\<close>

datatype rd = RByte u8 | RNone | RIntr

record le_lib =
  le_history :: "nat \<Rightarrow> nat \<Rightarrow> u8"
  le_hist_count :: nat
  le_hist_pos :: nat
  le_scratch :: "nat \<Rightarrow> u8"
  le_scratch_valid :: bool
  le_term_cols :: int
  le_saved_termios :: kernel_termios
  le_termios_saved :: bool
  le_tty :: "kernel_termios option"
  le_reads :: "rd list"
  le_wrote :: bytes

section \<open>Edit functions\<close>

text \<open>The loops that move the tail of the line by one: \<open>buf[i] = buf[i - 1]\<close> from \<open>i\<close> down to
  \<open>pos + 1\<close>, and \<open>buf[i] = buf[i + 1]\<close> for \<open>k\<close> indices from \<open>i\<close> on.\<close>

primrec shift_right :: "nat \<Rightarrow> nat \<Rightarrow> (nat \<Rightarrow> u8) \<Rightarrow> (nat \<Rightarrow> u8)" where
  "shift_right pos 0 b = b"
| "shift_right pos (Suc i) b = (if pos < Suc i then shift_right pos i (b(Suc i := b i)) else b)"

primrec shift_left :: "nat \<Rightarrow> nat \<Rightarrow> (nat \<Rightarrow> u8) \<Rightarrow> (nat \<Rightarrow> u8)" where
  "shift_left 0 i b = b"
| "shift_left (Suc k) i b = shift_left k (Suc i) (b(i := b (Suc i)))"

text \<open>Each function returns whether the display has to be refreshed.\<close>

definition le_insert :: "u8 \<Rightarrow> le_state \<Rightarrow> bool \<times> le_state" where
  "le_insert ch st =
     (if LE_LINE_MAX - 1 \<le> llen st then (False, st)
      else (True, st\<lparr>lbuf := ((shift_right (lpos st) (llen st) (lbuf st))(lpos st := ch))
                              (Suc (llen st) := 0),
                     llen := Suc (llen st), lpos := Suc (lpos st)\<rparr>))"

definition le_delete_back :: "le_state \<Rightarrow> bool \<times> le_state" where
  "le_delete_back st =
     (if lpos st = 0 then (False, st)
      else let pos = lpos st - 1; n = llen st - 1
           in (True, st\<lparr>lbuf := (shift_left (n - pos) pos (lbuf st))(n := 0),
                        llen := n, lpos := pos\<rparr>))"

definition le_delete_fwd :: "le_state \<Rightarrow> bool \<times> le_state" where
  "le_delete_fwd st =
     (if llen st \<le> lpos st then (False, st)
      else let n = llen st - 1
           in (True, st\<lparr>lbuf := (shift_left (n - lpos st) (lpos st) (lbuf st))(n := 0), llen := n\<rparr>))"

definition le_move_left :: "le_state \<Rightarrow> bool \<times> le_state" where
  "le_move_left st = (if lpos st = 0 then (False, st) else (True, st\<lparr>lpos := lpos st - 1\<rparr>))"

definition le_move_right :: "le_state \<Rightarrow> bool \<times> le_state" where
  "le_move_right st = (if llen st \<le> lpos st then (False, st) else (True, st\<lparr>lpos := Suc (lpos st)\<rparr>))"

definition le_move_home :: "le_state \<Rightarrow> bool \<times> le_state" where
  "le_move_home st = (if lpos st = 0 then (False, st) else (True, st\<lparr>lpos := 0\<rparr>))"

definition le_move_end :: "le_state \<Rightarrow> bool \<times> le_state" where
  "le_move_end st = (if lpos st = llen st then (False, st) else (True, st\<lparr>lpos := llen st\<rparr>))"

definition le_kill_line :: "le_state \<Rightarrow> bool \<times> le_state" where
  "le_kill_line st =
     (if llen st = 0 then (False, st)
      else (True, st\<lparr>llen := 0, lpos := 0, lbuf := (lbuf st)(0 := 0)\<rparr>))"

section \<open>History\<close>

definition le_hist_add :: "(nat \<Rightarrow> u8) \<Rightarrow> nat \<Rightarrow> le_lib \<Rightarrow> le_lib" where
  "le_hist_add line n0 lib =
     (let slot = le_hist_count lib mod LE_HIST_MAX;
          n = (if LE_HIST_LINE \<le> n0 then LE_HIST_LINE - 1 else n0);
          row = (\<lambda>i. if i < n then line i else if i = n then 0 else le_history lib slot i)
      in lib\<lparr>le_history := (le_history lib)(slot := row), le_hist_count := Suc (le_hist_count lib)\<rparr>)"

definition oldest :: "le_lib \<Rightarrow> nat" where
  "oldest lib = le_hist_count lib - LE_HIST_MAX"

definition le_hist_get :: "nat \<Rightarrow> le_lib \<Rightarrow> (nat \<Rightarrow> u8) option" where
  "le_hist_get pos lib =
     (if pos < oldest lib \<or> le_hist_count lib \<le> pos then None
      else Some (le_history lib (pos mod LE_HIST_MAX)))"

primrec copy_string :: "nat \<Rightarrow> nat \<Rightarrow> (nat \<Rightarrow> u8) \<Rightarrow> (nat \<Rightarrow> u8) \<Rightarrow> nat \<times> (nat \<Rightarrow> u8)" where
  "copy_string 0 i src b = (i, b)"
| "copy_string (Suc k) i src b =
     (if src i \<noteq> 0 then copy_string k (Suc i) src (b(i := src i)) else (i, b))"

definition le_hist_load :: "(nat \<Rightarrow> u8) \<Rightarrow> le_state \<Rightarrow> le_state" where
  "le_hist_load src st =
     (let (i, b) = copy_string (LE_LINE_MAX - 1) 0 src (lbuf st)
      in st\<lparr>lbuf := b(i := 0), llen := i, lpos := i\<rparr>)"

definition le_hist_up :: "le_state \<Rightarrow> le_lib \<Rightarrow> (bool \<times> le_state \<times> le_lib) option" where
  "le_hist_up st lib =
     (if le_hist_count lib = 0 \<or> le_hist_pos lib \<le> oldest lib then Some (False, st, lib)
      else
        let lib1 = (if le_scratch_valid lib then lib
                    else lib\<lparr>le_scratch := (\<lambda>i. if i \<le> llen st \<and> i < LE_LINE_MAX then lbuf st i
                                             else le_scratch lib i),
                             le_scratch_valid := True\<rparr>);
            lib2 = lib1\<lparr>le_hist_pos := le_hist_pos lib1 - 1\<rparr>
        in case le_hist_get (le_hist_pos lib2) lib2 of
             None \<Rightarrow> None
           | Some src \<Rightarrow> Some (True, le_hist_load src st, lib2))"

definition le_hist_down :: "le_state \<Rightarrow> le_lib \<Rightarrow> (bool \<times> le_state \<times> le_lib) option" where
  "le_hist_down st lib =
     (if le_hist_count lib \<le> le_hist_pos lib then Some (False, st, lib)
      else
        let lib1 = lib\<lparr>le_hist_pos := Suc (le_hist_pos lib)\<rparr>
        in if le_hist_pos lib1 = le_hist_count lib1
           then Some (True, if le_scratch_valid lib1 then le_hist_load (le_scratch lib1) st else st,
                      lib1\<lparr>le_scratch_valid := False\<rparr>)
           else case le_hist_get (le_hist_pos lib1) lib1 of
                  None \<Rightarrow> None
                | Some src \<Rightarrow> Some (True, le_hist_load src st, lib1))"

section \<open>Reading keys\<close>

fun le_read :: "rd list \<Rightarrow> rd \<times> rd list" where
  "le_read [] = (RNone, [])"
| "le_read (r # rs) = (r, rs)"

text \<open>The rest of an escape sequence; a failing \<open>read\<close> gives up the sequence.\<close>

definition escape_key :: "rd list \<Rightarrow> le_key \<times> rd list" where
  "escape_key rs =
     (case le_read rs of
        (RByte c0, rs1) \<Rightarrow>
          (if c0 \<noteq> 91 then (LEK_NONE, rs1)
           else case le_read rs1 of
             (RByte c1, rs2) \<Rightarrow>
               (if c1 = 65 then (LEK_UP, rs2) else if c1 = 66 then (LEK_DOWN, rs2)
                else if c1 = 67 then (LEK_RIGHT, rs2) else if c1 = 68 then (LEK_LEFT, rs2)
                else if c1 = 72 then (LEK_HOME, rs2) else if c1 = 70 then (LEK_END, rs2)
                else if c1 = 51 then
                  (case le_read rs2 of
                     (r, rs3) \<Rightarrow> (if r = RByte 126 then LEK_DELETE else LEK_NONE, rs3))
                else (LEK_NONE, rs2))
           | (_, rs2) \<Rightarrow> (LEK_NONE, rs2))
      | (_, rs1) \<Rightarrow> (LEK_NONE, rs1))"

text \<open>\<open>le_readkey\<close>: the key, the character of a \<open>LEK_CHAR\<close>, and the results still to come.\<close>

definition le_readkey :: "rd list \<Rightarrow> le_key \<times> u8 \<times> rd list" where
  "le_readkey rs =
     (case le_read rs of
        (RIntr, rs1) \<Rightarrow> (LEK_NONE, 0, rs1)
      | (RNone, rs1) \<Rightarrow> (LEK_EOF, 0, rs1)
      | (RByte c, rs1) \<Rightarrow>
          (if c = 0x91 then (LEK_HOME, 0, rs1) else if c = 0x92 then (LEK_END, 0, rs1)
           else if c = 0x95 then (LEK_UP, 0, rs1) else if c = 0x96 then (LEK_DOWN, 0, rs1)
           else if c = 0x97 then (LEK_RIGHT, 0, rs1) else if c = 0x98 then (LEK_LEFT, 0, rs1)
           else if c = 0x7F then (LEK_DELETE, 0, rs1)
           else if c = 13 \<or> c = 10 then (LEK_ENTER, 0, rs1)
           else if c = 8 then (LEK_BACKSPACE, 0, rs1)
           else if c = 1 then (LEK_HOME, 0, rs1) else if c = 2 then (LEK_LEFT, 0, rs1)
           else if c = 5 then (LEK_END, 0, rs1) else if c = 6 then (LEK_RIGHT, 0, rs1)
           else if c = 0x15 then (LEK_KILL, 0, rs1) else if c = 4 then (LEK_EOF, 0, rs1)
           else if c = 0x1B then (case escape_key rs1 of (k, rs2) \<Rightarrow> (k, 0, rs2))
           else if 0x20 \<le> c \<and> c \<le> 0x7E then (LEK_CHAR, c, rs1)
           else (LEK_NONE, 0, rs1)))"

section \<open>Display updates\<close>

definition le_write :: "bytes \<Rightarrow> le_lib \<Rightarrow> le_lib" where
  "le_write bs lib = lib\<lparr>le_wrote := le_wrote lib @ bs\<rparr>"

text \<open>What is collected in \<open>tmp\<close> has to fit there.\<close>

definition tmp_write :: "bytes \<Rightarrow> le_lib \<Rightarrow> le_lib option" where
  "tmp_write bs lib = (if length bs \<le> LE_LINE_MAX + 64 then Some (le_write bs lib) else None)"

abbreviation (input) backs :: "nat \<Rightarrow> bytes" where "backs n \<equiv> replicate n 8"
abbreviation (input) spaces :: "nat \<Rightarrow> bytes" where "spaces n \<equiv> replicate n 32"

definition part :: "nat \<Rightarrow> nat \<Rightarrow> le_state \<Rightarrow> bytes" where
  "part i j st = map (lbuf st) [i..<j]"

definition le_refresh :: "nat \<Rightarrow> nat \<Rightarrow> le_state \<Rightarrow> le_lib \<Rightarrow> le_lib option" where
  "le_refresh old_len old_pos st lib =
     (let extra = old_len - llen st
      in tmp_write (backs old_pos @ part 0 (llen st) st @ spaces extra
           @ backs (llen st + extra - lpos st)) lib)"

definition le_output_char :: "le_state \<Rightarrow> le_lib \<Rightarrow> le_lib option" where
  "le_output_char st lib = Some (le_write [lbuf st (lpos st - 1)] lib)"

definition le_output_insert :: "le_state \<Rightarrow> le_lib \<Rightarrow> le_lib option" where
  "le_output_insert st lib =
     tmp_write (part (lpos st - 1) (llen st) st @ backs (llen st - lpos st)) lib"

definition le_output_backspace :: "le_state \<Rightarrow> le_lib \<Rightarrow> le_lib option" where
  "le_output_backspace st lib =
     tmp_write (8 # part (lpos st) (llen st) st @ [32] @ backs (llen st - lpos st + 1)) lib"

definition le_output_delete :: "nat \<Rightarrow> le_state \<Rightarrow> le_lib \<Rightarrow> le_lib option" where
  "le_output_delete old_len st lib =
     (let extra = old_len - llen st
      in tmp_write (part (lpos st) (llen st) st @ spaces extra @ backs (llen st - lpos st + extra)) lib)"

section \<open>Reading a line\<close>

definition le_init :: "int \<Rightarrow> le_lib \<Rightarrow> le_lib" where
  "le_init cols lib = lib\<lparr>le_term_cols := (if 0 < cols then cols else 80)\<rparr>"

definition restore_termios :: "le_lib \<Rightarrow> le_lib" where
  "restore_termios lib =
     lib\<lparr>le_tty := map_option (\<lambda>_. le_saved_termios lib) (le_tty lib), le_termios_saved := False\<rparr>"

text \<open>The display part of a key: only if the edit function asks for it.\<close>

definition refreshed ::
  "bool \<times> le_state \<Rightarrow> (le_state \<Rightarrow> le_lib \<Rightarrow> le_lib option) \<Rightarrow> le_lib
     \<Rightarrow> ((le_state + bytes) \<times> le_lib) option" where
  "refreshed r out lib =
     (if fst r then map_option (Pair (Inl (snd r))) (out (snd r) lib) else Some (Inl (snd r), lib))"

text \<open>
  Return of a line: history, newline, settings, and the copy into the caller's buffer. With a
  buffer of size 0 the newline is stored at \<open>buf[-1]\<close>.
\<close>

definition le_enter :: "nat \<Rightarrow> le_state \<Rightarrow> le_lib \<Rightarrow> (bytes \<times> le_lib) option" where
  "le_enter bufsz st lib =
     (let lib1 = (if 0 < llen st then le_hist_add (lbuf st) (llen st) lib else lib);
          lib2 = restore_termios (le_write [10] lib1);
          n = (if bufsz < llen st + 1 then bufsz - 1 else llen st)
      in if bufsz = 0 then None else Some (part 0 n st @ [10], lib2))"

text \<open>One turn of the loop: \<open>Inl\<close> goes on, \<open>Inr\<close> returns the bytes put into the buffer.\<close>

definition le_on_key ::
  "nat \<Rightarrow> le_key \<Rightarrow> u8 \<Rightarrow> le_state \<Rightarrow> le_lib \<Rightarrow> ((le_state + bytes) \<times> le_lib) option" where
  "le_on_key bufsz key ch st lib =
     (case key of
        LEK_CHAR \<Rightarrow> refreshed (le_insert ch st)
          (\<lambda>st1. if lpos st1 = llen st1 then le_output_char st1 else le_output_insert st1) lib
      | LEK_BACKSPACE \<Rightarrow> refreshed (le_delete_back st) le_output_backspace lib
      | LEK_DELETE \<Rightarrow> refreshed (le_delete_fwd st) (le_output_delete (llen st)) lib
      | LEK_LEFT \<Rightarrow> refreshed (le_move_left st) (\<lambda>_ l. Some (le_write [8] l)) lib
      | LEK_RIGHT \<Rightarrow> refreshed (le_move_right st) (\<lambda>st1 l. Some (le_write [lbuf st1 (lpos st1 - 1)] l)) lib
      | LEK_HOME \<Rightarrow> refreshed (le_move_home st) (\<lambda>_ l. Some (le_write (backs (lpos st)) l)) lib
      | LEK_END \<Rightarrow> refreshed (le_move_end st) (\<lambda>st1 l. Some (le_write (part (lpos st) (llen st1) st1) l)) lib
      | LEK_KILL \<Rightarrow> refreshed (le_kill_line st) (le_refresh (llen st) (lpos st)) lib
      | LEK_UP \<Rightarrow> Option.bind (le_hist_up st lib)
          (\<lambda>(b, st1, lib1). refreshed (b, st1) (le_refresh (llen st) (lpos st)) lib1)
      | LEK_DOWN \<Rightarrow> Option.bind (le_hist_down st lib)
          (\<lambda>(b, st1, lib1). refreshed (b, st1) (le_refresh (llen st) (lpos st)) lib1)
      | LEK_EOF \<Rightarrow>
          (if llen st = 0 then Some (Inr [], restore_termios lib)
           else refreshed (le_delete_fwd st) (le_output_delete (llen st)) lib)
      | LEK_ENTER \<Rightarrow> map_option (apfst Inr) (le_enter bufsz st lib)
      | LEK_NONE \<Rightarrow> Some (Inl st, lib))"

definition le_turn :: "nat \<Rightarrow> le_state \<Rightarrow> le_lib \<Rightarrow> ((le_state + bytes) \<times> le_lib) option" where
  "le_turn bufsz st lib =
     (case le_readkey (le_reads lib) of
        (key, ch, rs) \<Rightarrow> le_on_key bufsz key ch st (lib\<lparr>le_reads := rs\<rparr>))"

text \<open>
  The loop for at most \<open>n\<close> turns: \<open>Inl\<close> the line being edited after \<open>n\<close> turns, \<open>Inr\<close> the result.
\<close>

primrec le_loop :: "nat \<Rightarrow> nat \<Rightarrow> le_state \<Rightarrow> le_lib \<Rightarrow> ((le_state + bytes) \<times> le_lib) option" where
  "le_loop 0 bufsz st lib = Some (Inl st, lib)"
| "le_loop (Suc n) bufsz st lib =
     (case le_turn bufsz st lib of
        None \<Rightarrow> None
      | Some (Inr line, lib1) \<Rightarrow> Some (Inr line, lib1)
      | Some (Inl st1, lib1) \<Rightarrow> le_loop n bufsz st1 lib1)"

definition raw_mode :: "kernel_termios \<Rightarrow> kernel_termios" where
  "raw_mode t = t\<lparr>c_lflag := c_lflag t AND NOT (ICANON OR ECHO), c_cc := (c_cc t)(6 := 1, 7 := 0)\<rparr>"

text \<open>
  The state in which the loop starts. \<open>None\<close>: the descriptor is no terminal, and \<open>le_readline\<close>
  returns what \<open>read\<close> of the whole buffer returns. \<open>junk\<close> is the uninitialised line buffer.
\<close>

definition le_start :: "(nat \<Rightarrow> u8) \<Rightarrow> le_lib \<Rightarrow> (le_state \<times> le_lib) option" where
  "le_start junk lib =
     (let lib0 = (if le_termios_saved lib then restore_termios lib else lib)
      in case le_tty lib0 of
           None \<Rightarrow> None
         | Some t \<Rightarrow> Some (\<lparr>lbuf = junk(0 := 0), llen = 0, lpos = 0, lcols = le_term_cols lib0\<rparr>,
             lib0\<lparr>le_saved_termios := t, le_termios_saved := True, le_tty := Some (raw_mode t),
                  le_hist_pos := le_hist_count lib0, le_scratch_valid := False\<rparr>))"

definition le_readline ::
  "(nat \<Rightarrow> u8) \<Rightarrow> nat \<Rightarrow> nat \<Rightarrow> le_lib \<Rightarrow> ((le_state + bytes) \<times> le_lib) option option" where
  "le_readline junk n bufsz lib =
     map_option (\<lambda>(st, lib1). le_loop n bufsz st lib1) (le_start junk lib)"

end
