(* ===== verification/Line_Edit_Correct.thy ===== *)
theory Line_Edit_Correct
  imports Line_Edit
begin

text \<open>
  The line editor of \<open>Line_Edit\<close> implements an abstract editor: the text before and after the
  cursor, the list of the lines entered so far, the entry shown while browsing, and the line
  saved meanwhile. \<open>tmp\<close> overflows for long lines: a section of its own shows that lines of up to
  106 characters never do, so below that bound the editor follows the abstract one to the end.
\<close>

section \<open>The abstract editor\<close>

record ed =
  ed_left :: bytes
  ed_right :: bytes
  ed_hist :: "bytes list"
  ed_at :: nat
  ed_save :: "bytes option"

abbreviation ed_text :: "ed \<Rightarrow> bytes" where "ed_text e \<equiv> ed_left e @ ed_right e"

definition ed_load :: "bytes \<Rightarrow> ed \<Rightarrow> ed" where
  "ed_load s e = e\<lparr>ed_left := s, ed_right := []\<rparr>"

definition ed_up :: "ed \<Rightarrow> ed" where
  "ed_up e =
     (if ed_at e \<le> length (ed_hist e) - LE_HIST_MAX then e
      else ed_load (ed_hist e ! (ed_at e - 1))
        (e\<lparr>ed_at := ed_at e - 1, ed_save := (case ed_save e of None \<Rightarrow> Some (ed_text e) | s \<Rightarrow> s)\<rparr>))"

definition ed_down :: "ed \<Rightarrow> ed" where
  "ed_down e =
     (if length (ed_hist e) \<le> ed_at e then e
      else if Suc (ed_at e) < length (ed_hist e)
      then ed_load (ed_hist e ! Suc (ed_at e)) (e\<lparr>ed_at := Suc (ed_at e)\<rparr>)
      else (case ed_save e of None \<Rightarrow> e | Some s \<Rightarrow> ed_load s e)
             \<lparr>ed_at := Suc (ed_at e), ed_save := None\<rparr>)"

fun ed_key :: "le_key \<Rightarrow> u8 \<Rightarrow> ed \<Rightarrow> ed" where
  "ed_key LEK_CHAR ch e =
     (if length (ed_text e) < LE_LINE_MAX - 1 then e\<lparr>ed_left := ed_left e @ [ch]\<rparr> else e)"
| "ed_key LEK_BACKSPACE ch e = e\<lparr>ed_left := butlast (ed_left e)\<rparr>"
| "ed_key LEK_DELETE ch e = e\<lparr>ed_right := tl (ed_right e)\<rparr>"
| "ed_key LEK_EOF ch e = e\<lparr>ed_right := tl (ed_right e)\<rparr>"
| "ed_key LEK_LEFT ch e =
     (if ed_left e = [] then e
      else e\<lparr>ed_left := butlast (ed_left e), ed_right := last (ed_left e) # ed_right e\<rparr>)"
| "ed_key LEK_RIGHT ch e =
     (case ed_right e of [] \<Rightarrow> e | c # r \<Rightarrow> e\<lparr>ed_left := ed_left e @ [c], ed_right := r\<rparr>)"
| "ed_key LEK_HOME ch e = e\<lparr>ed_left := [], ed_right := ed_text e\<rparr>"
| "ed_key LEK_END ch e = e\<lparr>ed_left := ed_text e, ed_right := []\<rparr>"
| "ed_key LEK_KILL ch e = e\<lparr>ed_left := [], ed_right := []\<rparr>"
| "ed_key LEK_UP ch e = ed_up e"
| "ed_key LEK_DOWN ch e = ed_down e"
| "ed_key LEK_ENTER ch e = e"
| "ed_key LEK_NONE ch e = e"

text \<open>At most \<open>n\<close> keys: \<open>Inl\<close> still editing, \<open>Inr\<close> what the caller gets.\<close>

primrec ed_loop :: "nat \<Rightarrow> nat \<Rightarrow> rd list \<Rightarrow> ed \<Rightarrow> ed + bytes \<times> ed" where
  "ed_loop 0 bufsz rs e = Inl e"
| "ed_loop (Suc n) bufsz rs e =
     (case le_readkey rs of (k, ch, rs1) \<Rightarrow>
        if k = LEK_ENTER then
          Inr (take (bufsz - 1) (ed_text e) @ [10],
               if ed_text e = [] then e else e\<lparr>ed_hist := ed_hist e @ [take (LE_HIST_LINE - 1) (ed_text e)]\<rparr>)
        else if k = LEK_EOF \<and> ed_text e = [] then Inr ([], e)
        else ed_loop n bufsz rs1 (ed_key k ch e))"

section \<open>The simulation relation\<close>

definition plain :: "bytes \<Rightarrow> bool" where
  "plain s \<longleftrightarrow> (\<forall>c \<in> set s. 32 \<le> c \<and> c \<le> 126)"

text \<open>An array that holds a string.\<close>

definition row_is :: "(nat \<Rightarrow> u8) \<Rightarrow> bytes \<Rightarrow> bool" where
  "row_is r s \<longleftrightarrow> (\<forall>j < length s. r j = s ! j) \<and> r (length s) = 0"

definition hist_ok :: "le_lib \<Rightarrow> bytes list \<Rightarrow> bool" where
  "hist_ok lib h \<longleftrightarrow> le_hist_count lib = length h \<and>
     (\<forall>k < length h. length h - LE_HIST_MAX \<le> k \<longrightarrow> row_is (le_history lib (k mod LE_HIST_MAX)) (h ! k)) \<and>
     (\<forall>s \<in> set h. plain s \<and> length s < LE_HIST_LINE)"

definition line_ok :: "le_state \<Rightarrow> ed \<Rightarrow> bool" where
  "line_ok st e \<longleftrightarrow> llen st = length (ed_text e) \<and> lpos st = length (ed_left e) \<and>
     row_is (lbuf st) (ed_text e) \<and> length (ed_text e) < LE_LINE_MAX \<and> plain (ed_text e)"

definition browse_ok :: "le_lib \<Rightarrow> ed \<Rightarrow> bool" where
  "browse_ok lib e \<longleftrightarrow> le_hist_pos lib = ed_at e \<and> length (ed_hist e) - LE_HIST_MAX \<le> ed_at e \<and>
     ed_at e \<le> length (ed_hist e) \<and> le_scratch_valid lib = (ed_save e \<noteq> None) \<and>
     (\<forall>s. ed_save e = Some s \<longrightarrow> row_is (le_scratch lib) s \<and> length s < LE_LINE_MAX \<and> plain s)"

definition le_sim :: "le_state \<Rightarrow> le_lib \<Rightarrow> ed \<Rightarrow> bool" where
  "le_sim st lib e \<longleftrightarrow> line_ok st e \<and> hist_ok lib (ed_hist e) \<and> browse_ok lib e"

lemma plain_simps [simp]:
  "plain []" "plain (c # s) \<longleftrightarrow> (32 \<le> c \<and> c \<le> 126) \<and> plain s"
  "plain (s @ t) \<longleftrightarrow> plain s \<and> plain t"
  by (auto simp: plain_def)

lemma plain_sub: "plain s \<Longrightarrow> set t \<subseteq> set s \<Longrightarrow> plain t"
  by (auto simp: plain_def)

lemma plain_take: "plain s \<Longrightarrow> plain (take n s)"
  by (auto simp: plain_def dest: in_set_takeD)

lemma plain_drop: "plain s \<Longrightarrow> plain (drop n s)"
  by (auto simp: plain_def dest: in_set_dropD)

lemma plain_nth: "plain s \<Longrightarrow> i < length s \<Longrightarrow> s ! i \<noteq> 0 \<and> s ! i \<noteq> 8"
  by (auto simp: plain_def dest!: nth_mem)

section \<open>Edit functions\<close>

lemma shift_right_nth: "shift_right p n b i = (if p < i \<and> i \<le> n then b (i - 1) else b i)"
  by (induction n arbitrary: b) auto

lemma shift_left_nth: "shift_left k i b j = (if i \<le> j \<and> j < i + k then b (Suc j) else b j)"
  by (induction k arbitrary: i b) auto

lemma copy_string_row:
  assumes "\<forall>j < length s. src (i + j) = s ! j" and "src (i + length s) = 0"
    and "plain s" and "length s \<le> k"
  shows "copy_string k i src b = (i + length s, \<lambda>j. if i \<le> j \<and> j < i + length s then s ! (j - i) else b j)"
  using assms
proof (induction s arbitrary: k i b)
  case Nil
  then show ?case by (cases k) (auto simp: fun_eq_iff)
next
  case (Cons c s)
  obtain k' where k: "k = Suc k'" using Cons.prems(4) by (cases k) auto
  have c: "src i = c" "c \<noteq> 0" using Cons.prems(1,3) by (auto dest: spec [of _ 0])
  have "copy_string k' (Suc i) src (b(i := c)) =
      (Suc i + length s, \<lambda>j. if Suc i \<le> j \<and> j < Suc i + length s then s ! (j - Suc i) else (b(i := c)) j)"
    using Cons.prems k by (intro Cons.IH) (auto dest: spec [of _ "Suc _"])
  with c k show ?case by (auto simp: fun_eq_iff nth_Cons' Suc_diff_le)
qed

lemma hist_load_ok:
  assumes "row_is src s" and "plain s" and "length s < LE_LINE_MAX"
  shows "line_ok (le_hist_load src st) (ed_load s e)"
proof -
  have "copy_string 255 0 src (lbuf st) = (length s, \<lambda>j. if j < length s then s ! j else lbuf st j)"
    using copy_string_row [of s src 0 255 "lbuf st"] assms by (auto simp: row_is_def)
  with assms show ?thesis by (simp add: le_hist_load_def line_ok_def ed_load_def row_is_def)
qed

lemma part_text: "row_is (lbuf st) t \<Longrightarrow> j \<le> length t \<Longrightarrow> part i j st = drop i (take j t)"
  by (auto simp: part_def row_is_def intro!: nth_equalityI)

lemma row_insert:
  assumes "row_is b (l @ r)"
  shows "row_is ((shift_right (length l) (length l + length r) b)
    (length l := ch, Suc (length l + length r) := 0)) (l @ ch # r)"
proof -
  have old: "b j = (l @ r) ! j" if "j < length l + length r" for j
    using assms that by (simp add: row_is_def)
  have "b (j - 1) = (l @ ch # r) ! j" if "length l < j" "j \<le> length l + length r" for j
  proof -
    have "\<exists>i. j = Suc (length l + i)" using that(1) by (auto dest: less_imp_Suc_add)
    then obtain i where "j = Suc (length l + i)" ..
    with old [of "length l + i"] that(2) show ?thesis by (simp add: nth_append)
  qed
  moreover have "b j = (l @ ch # r) ! j" if "j < length l" for j
    using old [of j] that by (simp add: nth_append)
  ultimately show ?thesis
    by (auto simp: row_is_def shift_right_nth)
qed

lemma row_delete:
  assumes "row_is b (l @ c # r)"
  shows "row_is ((shift_left (length r) (length l) b)(length l + length r := 0)) (l @ r)"
proof -
  have old: "b j = (l @ c # r) ! j" if "j < Suc (length l + length r)" for j
    using assms that by (simp add: row_is_def)
  have "b (Suc j) = (l @ r) ! j" if "length l \<le> j" "j < length l + length r" for j
    using old [of "Suc j"] that by (simp add: nth_append nth_Cons' Suc_diff_le)
  moreover have "b j = (l @ r) ! j" if "j < length l" for j
    using old [of j] that by (simp add: nth_append)
  ultimately show ?thesis by (auto simp: row_is_def shift_left_nth)
qed

lemma le_insert_ok:
  assumes "line_ok st e" and "32 \<le> ch" and "ch \<le> 126" and "le_insert ch st = (b, st1)"
  shows "line_ok st1 (ed_key LEK_CHAR ch e)" and "b \<longleftrightarrow> length (ed_text e) < LE_LINE_MAX - 1"
  using assms row_insert [of "lbuf st" "ed_left e" "ed_right e" ch]
  by (auto simp: le_insert_def line_ok_def split: if_splits)

lemma delete_back_ok:
  assumes "line_ok st e" and "le_delete_back st = (b, st1)"
  shows "line_ok st1 (ed_key LEK_BACKSPACE ch e)" and "b \<longleftrightarrow> ed_left e \<noteq> []"
proof -
  show b: "b \<longleftrightarrow> ed_left e \<noteq> []"
    using assms by (auto simp: le_delete_back_def line_ok_def Let_def split: if_splits)
  show "line_ok st1 (ed_key LEK_BACKSPACE ch e)"
  proof (cases "ed_left e" rule: rev_cases)
    case Nil
    with assms show ?thesis by (auto simp: le_delete_back_def line_ok_def Let_def)
  next
    case (snoc l c)
    with assms row_delete [of "lbuf st" l c "ed_right e"] show ?thesis
      by (auto simp: le_delete_back_def line_ok_def Let_def)
  qed
qed

lemma delete_fwd_ok:
  assumes "line_ok st e" and "le_delete_fwd st = (b, st1)"
  shows "line_ok st1 (ed_key LEK_DELETE ch e)" and "b \<longleftrightarrow> ed_right e \<noteq> []"
proof -
  show b: "b \<longleftrightarrow> ed_right e \<noteq> []"
    using assms by (auto simp: le_delete_fwd_def line_ok_def Let_def split: if_splits)
  show "line_ok st1 (ed_key LEK_DELETE ch e)"
  proof (cases "ed_right e")
    case Nil
    with assms show ?thesis by (auto simp: le_delete_fwd_def line_ok_def Let_def)
  next
    case (Cons c r)
    with assms row_delete [of "lbuf st" "ed_left e" c r] show ?thesis
      by (auto simp: le_delete_fwd_def line_ok_def Let_def)
  qed
qed

lemma move_left_ok:
  assumes "line_ok st e" and "le_move_left st = (b, st1)"
  shows "line_ok st1 (ed_key LEK_LEFT ch e)" and "b \<longleftrightarrow> ed_left e \<noteq> []"
  using assms by (cases "ed_left e" rule: rev_cases; auto simp: le_move_left_def line_ok_def)+

lemma move_right_ok:
  assumes "line_ok st e" and "le_move_right st = (b, st1)"
  shows "line_ok st1 (ed_key LEK_RIGHT ch e)" and "b \<longleftrightarrow> ed_right e \<noteq> []"
  using assms by (cases "ed_right e"; auto simp: le_move_right_def line_ok_def)+

lemma move_home_ok:
  assumes "line_ok st e" and "le_move_home st = (b, st1)"
  shows "line_ok st1 (ed_key LEK_HOME ch e)" and "b \<longleftrightarrow> ed_left e \<noteq> []"
  using assms by (auto simp: le_move_home_def line_ok_def split: if_splits)

lemma move_end_ok:
  assumes "line_ok st e" and "le_move_end st = (b, st1)"
  shows "line_ok st1 (ed_key LEK_END ch e)" and "b \<longleftrightarrow> ed_right e \<noteq> []"
  using assms by (auto simp: le_move_end_def line_ok_def split: if_splits)

lemma kill_line_ok:
  assumes "line_ok st e" and "le_kill_line st = (b, st1)"
  shows "line_ok st1 (ed_key LEK_KILL ch e)" and "b \<longleftrightarrow> ed_text e \<noteq> []"
  using assms by (auto simp: le_kill_line_def line_ok_def row_is_def split: if_splits)

section \<open>History\<close>

lemma hist_get_ok:
  assumes "hist_ok lib h" and "length h - LE_HIST_MAX \<le> k" and "k < length h"
  shows "\<exists>src. le_hist_get k lib = Some src \<and> row_is src (h ! k)"
    and "plain (h ! k)" and "length (h ! k) < LE_LINE_MAX"
proof -
  have "\<forall>s \<in> set h. plain s \<and> length s < LE_HIST_LINE" using assms(1) by (simp add: hist_ok_def)
  then have "plain (h ! k) \<and> length (h ! k) < LE_HIST_LINE" using assms(3) nth_mem by blast
  then show "plain (h ! k)" and "length (h ! k) < LE_LINE_MAX" by auto
  show "\<exists>src. le_hist_get k lib = Some src \<and> row_is src (h ! k)"
    using assms by (auto simp: hist_ok_def le_hist_get_def oldest_def)
qed

lemma hist_add_ok:
  assumes "hist_ok lib h" and "row_is line s" and "plain s"
  shows "hist_ok (le_hist_add line (length s) lib) (h @ [take (LE_HIST_LINE - 1) s])"
proof -
  let ?n = "min (length s) (LE_HIST_LINE - 1)" and ?slot = "length h mod LE_HIST_MAX"
  let ?row = "\<lambda>i. if i < ?n then line i else if i = ?n then 0 else le_history lib ?slot i"
  have clip: "(if LE_HIST_LINE \<le> n then LE_HIST_LINE - 1 else n) = min n (LE_HIST_LINE - 1)" for n
    by simp
  have count: "le_hist_count lib = length h" using assms(1) by (simp add: hist_ok_def)
  have add: "le_hist_add line (length s) lib =
      lib\<lparr>le_history := (le_history lib)(?slot := ?row), le_hist_count := Suc (length h)\<rparr>"
    unfolding le_hist_add_def Let_def clip count by (rule refl)
  have "row_is ?row (take (LE_HIST_LINE - 1) s)"
    using assms(2) by (auto simp: row_is_def min_def)
  moreover have "k mod LE_HIST_MAX \<noteq> ?slot" if "length h < k + LE_HIST_MAX" "k < length h" for k
    using that mod_eq_dvd_iff_nat [of k "length h" 16] dvd_imp_le [of 16 "length h - k"] by fastforce
  ultimately show ?thesis using assms(1,3) plain_take [of s 127]
    by (auto simp: add hist_ok_def nth_append less_Suc_eq)
qed

text \<open>What browsing leaves alone.\<close>

definition same_io :: "le_lib \<Rightarrow> le_lib \<Rightarrow> bool" where
  "same_io lib lib1 \<longleftrightarrow> le_wrote lib1 = le_wrote lib \<and> le_reads lib1 = le_reads lib \<and>
     le_tty lib1 = le_tty lib \<and> le_saved_termios lib1 = le_saved_termios lib \<and>
     le_termios_saved lib1 = le_termios_saved lib"

lemma hist_ok_cong:
  "hist_ok lib h \<Longrightarrow> le_hist_count lib1 = le_hist_count lib \<Longrightarrow> le_history lib1 = le_history lib \<Longrightarrow> hist_ok lib1 h"
  by (simp add: hist_ok_def)

lemma hist_up_ok:
  assumes sim: "le_sim st lib e"
  shows "\<exists>b st1 lib1. le_hist_up st lib = Some (b, st1, lib1) \<and> le_sim st1 lib1 (ed_up e) \<and>
    same_io lib lib1 \<and> (\<not> b \<longrightarrow> ed_up e = e \<and> st1 = st)"
proof (cases "ed_at e \<le> length (ed_hist e) - LE_HIST_MAX")
  case True
  with assms show ?thesis
    by (auto simp: le_hist_up_def ed_up_def le_sim_def browse_ok_def hist_ok_def oldest_def same_io_def)
next
  case False
  define lib1 where "lib1 = (if le_scratch_valid lib then lib
    else lib\<lparr>le_scratch := (\<lambda>i. if i \<le> llen st \<and> i < LE_LINE_MAX then lbuf st i else le_scratch lib i),
      le_scratch_valid := True\<rparr>)"
  let ?e = "e\<lparr>ed_at := ed_at e - 1, ed_save := (case ed_save e of None \<Rightarrow> Some (ed_text e) | s \<Rightarrow> s)\<rparr>"
  let ?lib = "lib1\<lparr>le_hist_pos := le_hist_pos lib1 - 1\<rparr>"
  have h: "hist_ok lib (ed_hist e)" and b: "browse_ok lib e" and l: "line_ok st e"
    using sim by (auto simp: le_sim_def)
  have h1: "hist_ok ?lib (ed_hist e)" using h by (rule hist_ok_cong) (simp_all add: lib1_def)
  have b1: "browse_ok ?lib ?e"
    using b l False by (auto simp: browse_ok_def lib1_def line_ok_def row_is_def split: option.splits)
  have at: "length (ed_hist e) - LE_HIST_MAX \<le> ed_at e - 1" "ed_at e - 1 < length (ed_hist e)"
    using b False by (auto simp: browse_ok_def)
  obtain src where src: "le_hist_get (ed_at e - 1) ?lib = Some src" "row_is src (ed_hist e ! (ed_at e - 1))"
    using hist_get_ok(1) [OF h1 at] by blast
  have up: "le_hist_up st lib = Some (True, le_hist_load src st, ?lib)"
    using False h b src(1) unfolding le_hist_up_def lib1_def [symmetric] Let_def
    by (auto simp: hist_ok_def browse_ok_def oldest_def lib1_def)
  have "line_ok (le_hist_load src st) (ed_up e)"
    using hist_load_ok [OF src(2) hist_get_ok(2,3) [OF h1 at]] False by (simp add: ed_up_def line_ok_def ed_load_def)
  moreover have "browse_ok ?lib (ed_up e)" "ed_hist (ed_up e) = ed_hist e"
    using b1 False by (auto simp: ed_up_def ed_load_def browse_ok_def)
  ultimately have "le_sim (le_hist_load src st) ?lib (ed_up e)" using h1 by (simp add: le_sim_def)
  moreover have "same_io lib ?lib" by (simp add: same_io_def lib1_def)
  ultimately show ?thesis using up by blast
qed

lemma hist_down_ok:
  assumes sim: "le_sim st lib e"
  shows "\<exists>b st1 lib1. le_hist_down st lib = Some (b, st1, lib1) \<and> le_sim st1 lib1 (ed_down e) \<and>
    same_io lib lib1 \<and> (\<not> b \<longrightarrow> ed_down e = e \<and> st1 = st)"
proof -
  have h: "hist_ok lib (ed_hist e)" and b: "browse_ok lib e" and l: "line_ok st e"
    using sim by (auto simp: le_sim_def)
  let ?lib = "lib\<lparr>le_hist_pos := Suc (le_hist_pos lib)\<rparr>"
  have h1: "hist_ok ?lib (ed_hist e)" using h by (rule hist_ok_cong) simp_all
  consider (no) "length (ed_hist e) \<le> ed_at e" | (entry) "Suc (ed_at e) < length (ed_hist e)"
    | (line) "Suc (ed_at e) = length (ed_hist e)" by linarith
  then show ?thesis
  proof cases
    case no
    with assms show ?thesis
      by (auto simp: le_hist_down_def ed_down_def le_sim_def browse_ok_def hist_ok_def same_io_def)
  next
    case entry
    have at: "length (ed_hist e) - LE_HIST_MAX \<le> Suc (ed_at e)" "Suc (ed_at e) < length (ed_hist e)"
      using b entry by (auto simp: browse_ok_def)
    obtain src where src: "le_hist_get (Suc (ed_at e)) ?lib = Some src" "row_is src (ed_hist e ! Suc (ed_at e))"
      using hist_get_ok(1) [OF h1 at] by blast
    have down: "le_hist_down st lib = Some (True, le_hist_load src st, ?lib)"
      using entry h b src(1) by (auto simp: le_hist_down_def hist_ok_def browse_ok_def Let_def)
    have "line_ok (le_hist_load src st) (ed_down e)"
      using hist_load_ok [OF src(2) hist_get_ok(2,3) [OF h1 at]] entry by (simp add: ed_down_def line_ok_def ed_load_def)
    moreover have "browse_ok ?lib (ed_down e)" "ed_hist (ed_down e) = ed_hist e"
      using b entry by (auto simp: ed_down_def ed_load_def browse_ok_def)
    ultimately have "le_sim (le_hist_load src st) ?lib (ed_down e)" using h1 by (simp add: le_sim_def)
    moreover have "same_io lib ?lib" by (simp add: same_io_def)
    ultimately show ?thesis using down by blast
  next
    case line
    let ?st = "if le_scratch_valid lib then le_hist_load (le_scratch lib) st else st"
    let ?lib1 = "?lib\<lparr>le_scratch_valid := False\<rparr>"
    have down: "le_hist_down st lib = Some (True, ?st, ?lib1)"
      using line h b by (simp add: le_hist_down_def hist_ok_def browse_ok_def Let_def)
    have "line_ok ?st (ed_down e)"
      using line b l hist_load_ok [of "le_scratch lib" _ st]
      by (auto simp: browse_ok_def ed_down_def line_ok_def ed_load_def split: option.splits)
    moreover have "browse_ok ?lib1 (ed_down e)" "ed_hist (ed_down e) = ed_hist e"
      using b line by (auto simp: ed_down_def ed_load_def browse_ok_def split: option.splits)
    moreover have "hist_ok ?lib1 (ed_hist e)" using h by (rule hist_ok_cong) simp_all
    ultimately have "le_sim ?st ?lib1 (ed_down e)" by (simp add: le_sim_def)
    moreover have "same_io lib ?lib1" by (simp add: same_io_def)
    ultimately show ?thesis using down by blast
  qed
qed

section \<open>One key\<close>

definition key_done :: "le_lib \<Rightarrow> ed \<Rightarrow> (le_state + bytes) \<Rightarrow> le_lib \<Rightarrow> bool" where
  "key_done lib e1 r lib' \<longleftrightarrow>
     (\<exists>st1. r = Inl st1 \<and> le_sim st1 lib' e1 \<and> le_reads lib' = le_reads lib \<and> le_tty lib' = le_tty lib \<and>
        le_saved_termios lib' = le_saved_termios lib)"

lemma le_write_sel [simp]:
  "le_wrote (le_write bs lib) = le_wrote lib @ bs" "le_reads (le_write bs lib) = le_reads lib"
  "le_tty (le_write bs lib) = le_tty lib" "le_saved_termios (le_write bs lib) = le_saved_termios lib"
  by (simp_all add: le_write_def)

lemma le_sim_write [simp]: "le_sim st (le_write bs lib) e = le_sim st lib e"
  by (simp add: le_sim_def hist_ok_def browse_ok_def le_write_def)

lemma le_sim_line: "le_sim st lib e \<Longrightarrow> line_ok st1 e1 \<Longrightarrow> ed_hist e1 = ed_hist e \<Longrightarrow>
    ed_at e1 = ed_at e \<Longrightarrow> ed_save e1 = ed_save e \<Longrightarrow> le_sim st1 lib e1"
  by (simp add: le_sim_def browse_ok_def)

text \<open>A display update only writes.\<close>

definition only_writes :: "(le_state \<Rightarrow> le_lib \<Rightarrow> le_lib option) \<Rightarrow> bool" where
  "only_writes out \<longleftrightarrow> (\<forall>st lib lib1. out st lib = Some lib1 \<longrightarrow> (\<exists>bs. lib1 = le_write bs lib))"

lemma only_writes_out [simp]:
  "only_writes (\<lambda>st1. if lpos st1 = llen st1 then le_output_char st1 else le_output_insert st1)"
  "only_writes le_output_backspace" "only_writes (le_output_delete n)" "only_writes (le_refresh i j)"
  "only_writes (\<lambda>st l. Some (le_write (w st) l))"
  by (auto simp: only_writes_def le_output_char_def le_output_insert_def le_output_backspace_def
      le_output_delete_def le_refresh_def tmp_write_def Let_def split: if_splits)

lemma refreshed_ok:
  assumes "refreshed (b, st1) out lib = Some (r, lib')" and "le_sim st1 lib e1" and "only_writes out"
  shows "key_done lib e1 r lib'"
proof (cases b)
  case True
  then have "r = Inl st1" "out st1 lib = Some lib'" using assms(1) by (auto simp: refreshed_def)
  moreover from this obtain bs where "lib' = le_write bs lib" using assms(3) unfolding only_writes_def by blast
  ultimately show ?thesis using assms(2) by (simp add: key_done_def)
next
  case False
  with assms show ?thesis by (auto simp: refreshed_def key_done_def)
qed

text \<open>The keys that edit the line without browsing.\<close>

lemma edit_ok:
  assumes sim: "le_sim st lib e" and r: "refreshed res out lib = Some (r, lib')" and "line_ok (snd res) e1"
    and "ed_hist e1 = ed_hist e" "ed_at e1 = ed_at e" "ed_save e1 = ed_save e" and "only_writes out"
  shows "key_done lib e1 r lib'"
proof (rule refreshed_ok)
  show "refreshed (fst res, snd res) out lib = Some (r, lib')" using r by simp
  show "le_sim (snd res) lib e1" using sim assms(3-6) by (rule le_sim_line)
qed (rule assms(7))

lemma edit_keys_ok:
  assumes "line_ok st e"
  shows "32 \<le> ch \<Longrightarrow> ch \<le> 126 \<Longrightarrow> line_ok (snd (le_insert ch st)) (ed_key LEK_CHAR ch e)"
    "line_ok (snd (le_delete_back st)) (ed_key LEK_BACKSPACE ch e)"
    "line_ok (snd (le_delete_fwd st)) (ed_key LEK_DELETE ch e)"
    "line_ok (snd (le_move_left st)) (ed_key LEK_LEFT ch e)"
    "line_ok (snd (le_move_right st)) (ed_key LEK_RIGHT ch e)"
    "line_ok (snd (le_move_home st)) (ed_key LEK_HOME ch e)"
    "line_ok (snd (le_move_end st)) (ed_key LEK_END ch e)"
    "line_ok (snd (le_kill_line st)) (ed_key LEK_KILL ch e)"
  using le_insert_ok(1) [OF assms] delete_back_ok(1) [OF assms] delete_fwd_ok(1) [OF assms]
    move_left_ok(1) [OF assms] move_right_ok(1) [OF assms] move_home_ok(1) [OF assms]
    move_end_ok(1) [OF assms] kill_line_ok(1) [OF assms]
  by (metis prod.collapse)+

lemma ed_key_keeps [simp]:
  "key \<notin> {LEK_UP, LEK_DOWN} \<Longrightarrow> ed_hist (ed_key key ch e) = ed_hist e"
  "key \<notin> {LEK_UP, LEK_DOWN} \<Longrightarrow> ed_at (ed_key key ch e) = ed_at e"
  "key \<notin> {LEK_UP, LEK_DOWN} \<Longrightarrow> ed_save (ed_key key ch e) = ed_save e"
  by (cases key; simp split: list.split)+

lemma key_done_io: "same_io lib lib1 \<Longrightarrow> key_done lib1 e1 r lib' \<Longrightarrow> key_done lib e1 r lib'"
  by (simp add: same_io_def key_done_def)

lemma key_browse:
  assumes "f st lib = Some (b, st1, lib1)" and "le_sim st1 lib1 e1" and "same_io lib lib1"
    and "Option.bind (f st lib) (\<lambda>(b, st1, lib1). refreshed (b, st1) (le_refresh (llen st) (lpos st)) lib1) = Some (r, lib')"
  shows "key_done lib e1 r lib'"
  using assms by (intro key_done_io [OF assms(3)] refreshed_ok [of b st1 "le_refresh (llen st) (lpos st)"]) simp_all

lemma on_key_ok:
  assumes sim: "le_sim st lib e" and ch: "key = LEK_CHAR \<Longrightarrow> 32 \<le> ch \<and> ch \<le> 126"
    and run: "le_on_key bufsz key ch st lib = Some (r, lib')"
    and on: "key \<noteq> LEK_ENTER" "\<not> (key = LEK_EOF \<and> ed_text e = [])"
  shows "key_done lib (ed_key key ch e) r lib'"
proof -
  have l: "line_ok st e" using sim by (simp add: le_sim_def)
  note L = edit_keys_ok [OF l, where ch = ch]
  note E = edit_ok [OF sim]
  show ?thesis
  proof (cases key)
    case LEK_UP
    obtain b st1 lib1 where "le_hist_up st lib = Some (b, st1, lib1)" "le_sim st1 lib1 (ed_up e)"
      "same_io lib lib1" using hist_up_ok [OF sim] by blast
    with run LEK_UP key_browse [of le_hist_up st lib b st1 lib1] show ?thesis by (simp add: le_on_key_def)
  next
    case LEK_DOWN
    obtain b st1 lib1 where "le_hist_down st lib = Some (b, st1, lib1)" "le_sim st1 lib1 (ed_down e)"
      "same_io lib lib1" using hist_down_ok [OF sim] by blast
    with run LEK_DOWN key_browse [of le_hist_down st lib b st1 lib1] show ?thesis by (simp add: le_on_key_def)
  next
    case LEK_EOF
    with on l have "llen st \<noteq> 0" by (auto simp: line_ok_def)
    then have "refreshed (le_delete_fwd st) (le_output_delete (llen st)) lib = Some (r, lib')"
      using run LEK_EOF by (simp add: le_on_key_def)
    then show ?thesis unfolding LEK_EOF by (rule E) (use L(3) in simp_all)
  next
    case LEK_NONE
    with run sim show ?thesis by (auto simp: le_on_key_def key_done_def)
  next
    case LEK_CHAR
    show ?thesis unfolding LEK_CHAR
      by (rule E [OF run [unfolded LEK_CHAR le_on_key_def, simplified]]) (use L(1) ch LEK_CHAR in \<open>simp_all del: ed_key.simps\<close>)
  next
    case LEK_BACKSPACE
    show ?thesis unfolding LEK_BACKSPACE
      by (rule E [OF run [unfolded LEK_BACKSPACE le_on_key_def, simplified]]) (use L(2) in \<open>simp_all del: ed_key.simps\<close>)
  next
    case LEK_DELETE
    show ?thesis unfolding LEK_DELETE
      by (rule E [OF run [unfolded LEK_DELETE le_on_key_def, simplified]]) (use L(3) in \<open>simp_all del: ed_key.simps\<close>)
  next
    case LEK_LEFT
    show ?thesis unfolding LEK_LEFT
      by (rule E [OF run [unfolded LEK_LEFT le_on_key_def, simplified]]) (use L(4) in \<open>simp_all del: ed_key.simps\<close>)
  next
    case LEK_RIGHT
    show ?thesis unfolding LEK_RIGHT
      by (rule E [OF run [unfolded LEK_RIGHT le_on_key_def, simplified]]) (use L(5) in \<open>simp_all del: ed_key.simps\<close>)
  next
    case LEK_HOME
    show ?thesis unfolding LEK_HOME
      by (rule E [OF run [unfolded LEK_HOME le_on_key_def, simplified]]) (use L(6) in \<open>simp_all del: ed_key.simps\<close>)
  next
    case LEK_END
    show ?thesis unfolding LEK_END
      by (rule E [OF run [unfolded LEK_END le_on_key_def, simplified]]) (use L(7) in \<open>simp_all del: ed_key.simps\<close>)
  next
    case LEK_KILL
    show ?thesis unfolding LEK_KILL
      by (rule E [OF run [unfolded LEK_KILL le_on_key_def, simplified]]) (use L(8) in \<open>simp_all del: ed_key.simps\<close>)
  qed (use on in simp)
qed

section \<open>Long lines\<close>

text \<open>The bytes a key needs in \<open>tmp\<close>.\<close>

lemma tmp_write_None: "tmp_write bs lib = None \<longleftrightarrow> 320 < length bs"
  by (auto simp: tmp_write_def)

lemma refreshed_None: "refreshed (b, st1) out lib = None \<longleftrightarrow> b \<and> out st1 lib = None"
  by (simp add: refreshed_def)

lemma kill_None:
  "line_ok st e \<Longrightarrow> le_on_key bufsz LEK_KILL ch st lib = None \<longleftrightarrow> 320 < lpos st + 2 * llen st"
  by (auto simp: le_on_key_def le_kill_line_def refreshed_None le_refresh_def tmp_write_None part_def Let_def
      line_ok_def)

lemma refresh_fits:
  "lpos st1 = llen st1 \<or> llen st1 = llen st \<Longrightarrow> lpos st + 2 * llen st \<le> 320 \<Longrightarrow>
   lpos st + llen st1 \<le> 320 \<Longrightarrow> le_refresh (llen st) (lpos st) st1 lib \<noteq> None"
  by (auto simp: le_refresh_def tmp_write_None part_def Let_def)

lemma up_fits:
  assumes sim: "le_sim st lib e" and short: "length (ed_text e) \<le> 106"
  shows "le_on_key bufsz LEK_UP ch st lib \<noteq> None"
proof -
  obtain b st1 lib1 where up: "le_hist_up st lib = Some (b, st1, lib1)" "le_sim st1 lib1 (ed_up e)"
    "\<not> b \<longrightarrow> ed_up e = e \<and> st1 = st" using hist_up_ok [OF sim] by blast
  have h: "\<forall>s \<in> set (ed_hist e). length s < LE_HIST_LINE" and b: "ed_at e \<le> length (ed_hist e)"
    using sim by (auto simp: le_sim_def hist_ok_def browse_ok_def)
  have "ed_up e = e \<or> ed_right (ed_up e) = [] \<and> length (ed_text (ed_up e)) \<le> 127"
  proof (cases "ed_at e \<le> length (ed_hist e) - LE_HIST_MAX")
    case False
    then have "ed_at e - 1 < length (ed_hist e)" using b by simp
    then have "length (ed_hist e ! (ed_at e - 1)) < LE_HIST_LINE" using h nth_mem by blast
    with False show ?thesis by (simp add: ed_up_def ed_load_def)
  qed (simp add: ed_up_def)
  moreover have "llen st1 = length (ed_text (ed_up e))" "lpos st1 = length (ed_left (ed_up e))"
    "llen st = length (ed_text e)" "lpos st \<le> length (ed_text e)"
    using sim up(2) by (auto simp: le_sim_def line_ok_def)
  ultimately have "le_refresh (llen st) (lpos st) st1 lib1 \<noteq> None"
    using short by (intro refresh_fits) auto
  with up(1) show ?thesis by (simp add: le_on_key_def refreshed_None)
qed

lemma down_fits:
  assumes sim: "le_sim st lib e" and short: "length (ed_text e) \<le> 106"
    and saved: "\<forall>s. ed_save e = Some s \<longrightarrow> length s \<le> 106"
  shows "le_on_key bufsz LEK_DOWN ch st lib \<noteq> None"
proof -
  obtain b st1 lib1 where down: "le_hist_down st lib = Some (b, st1, lib1)" "le_sim st1 lib1 (ed_down e)"
    "\<not> b \<longrightarrow> ed_down e = e \<and> st1 = st" using hist_down_ok [OF sim] by blast
  have h: "\<forall>s \<in> set (ed_hist e). length s < LE_HIST_LINE"
    using sim by (auto simp: le_sim_def hist_ok_def)
  have "length (ed_text (ed_down e)) = length (ed_text e) \<or>
      ed_right (ed_down e) = [] \<and> length (ed_text (ed_down e)) \<le> 127"
  proof (cases "Suc (ed_at e) < length (ed_hist e)")
    case True
    then have "length (ed_hist e ! Suc (ed_at e)) < LE_HIST_LINE" using h nth_mem by blast
    with True show ?thesis by (simp add: ed_down_def ed_load_def)
  next
    case False
    then show ?thesis using saved by (cases "ed_save e") (auto simp: ed_down_def ed_load_def)
  qed
  moreover have "llen st1 = length (ed_text (ed_down e))" "lpos st1 = length (ed_left (ed_down e))"
    "llen st = length (ed_text e)" "lpos st \<le> length (ed_text e)"
    using sim down(2) by (auto simp: le_sim_def line_ok_def)
  ultimately have "le_refresh (llen st) (lpos st) st1 lib1 \<noteq> None"
    using short by (intro refresh_fits) auto
  with down(1) show ?thesis by (simp add: le_on_key_def refreshed_None)
qed

text \<open>Every update fits while neither the line nor the saved one exceeds 106 characters.\<close>

definition fits :: "ed \<Rightarrow> bool" where
  "fits e \<longleftrightarrow> length (ed_text e) \<le> 106 \<and> (\<forall>s. ed_save e = Some s \<longrightarrow> length s \<le> 106)"

lemma short_fits:
  assumes sim: "le_sim st lib e" and "fits e" and "0 < bufsz"
  shows "le_on_key bufsz key ch st lib \<noteq> None"
proof -
  have short: "length (ed_text e) \<le> 106" and saved: "\<forall>s. ed_save e = Some s \<longrightarrow> length s \<le> 106"
    using assms(2) by (auto simp: fits_def)
  have l: "lpos st \<le> llen st" "llen st \<le> 106" using sim short by (auto simp: le_sim_def line_ok_def)
  show ?thesis
  proof (cases key)
    case LEK_UP
    then show ?thesis using up_fits [OF sim short] by simp
  next
    case LEK_DOWN
    then show ?thesis using down_fits [OF sim short saved] by simp
  next
    case LEK_ENTER
    then show ?thesis using assms(3) by (simp add: le_on_key_def le_enter_def Let_def)
  qed (use l in \<open>auto simp: le_on_key_def refreshed_def le_insert_def le_delete_back_def le_delete_fwd_def
      le_move_left_def le_move_right_def le_move_home_def le_move_end_def le_kill_line_def Let_def
      le_output_char_def le_output_insert_def le_output_backspace_def le_output_delete_def le_refresh_def
      tmp_write_def part_def split: prod.splits\<close>)
qed

section \<open>Reading a line\<close>

lemma escape_key_char: "fst (escape_key rs) \<noteq> LEK_CHAR"
  by (auto simp: escape_key_def split: rd.splits prod.splits)

lemma readkey_char: "le_readkey rs = (LEK_CHAR, ch, rs') \<Longrightarrow> 32 \<le> ch \<and> ch \<le> 126"
  using escape_key_char [of "snd (le_read rs)"]
  by (auto simp: le_readkey_def split: rd.splits prod.splits if_splits)

lemma le_sim_reads [simp]: "le_sim st (lib\<lparr>le_reads := rs\<rparr>) e = le_sim st lib e"
  by (simp add: le_sim_def hist_ok_def browse_ok_def)

text \<open>What the caller finds when the loop returns.\<close>

definition line_done :: "le_lib \<Rightarrow> ed \<Rightarrow> le_lib \<Rightarrow> bool" where
  "line_done lib e lib' \<longleftrightarrow> hist_ok lib' (ed_hist e) \<and> \<not> le_termios_saved lib' \<and>
     le_tty lib' = map_option (\<lambda>_. le_saved_termios lib) (le_tty lib)"

lemma enter_ok:
  assumes sim: "le_sim st lib e" and run: "le_on_key bufsz LEK_ENTER ch st lib = Some (r, lib')"
  shows "r = Inr (take (bufsz - 1) (ed_text e) @ [10])"
    and "line_done lib (if ed_text e = [] then e
      else e\<lparr>ed_hist := ed_hist e @ [take (LE_HIST_LINE - 1) (ed_text e)]\<rparr>) lib'"
proof -
  have l: "line_ok st e" and h: "hist_ok lib (ed_hist e)" using sim by (auto simp: le_sim_def)
  have "part 0 (if bufsz < llen st + 1 then bufsz - 1 else llen st) st = take (bufsz - 1) (ed_text e)"
    using part_text [of st "ed_text e" "if bufsz < llen st + 1 then bufsz - 1 else llen st" 0] l
    by (auto simp: line_ok_def simp del: take_append)
  with run show "r = Inr (take (bufsz - 1) (ed_text e) @ [10])"
    by (cases "bufsz = 0") (auto simp: le_on_key_def le_enter_def Let_def)
  define lib1 where "lib1 = (if 0 < llen st then le_hist_add (lbuf st) (llen st) lib else lib)"
  have lib': "lib' = restore_termios (le_write [10] lib1)"
    using run by (cases "bufsz = 0") (simp_all add: le_on_key_def le_enter_def Let_def lib1_def)
  have "hist_ok (le_hist_add (lbuf st) (llen st) lib) (ed_hist e @ [take (LE_HIST_LINE - 1) (ed_text e)])"
    using hist_add_ok [OF h, of "lbuf st" "ed_text e"] l by (simp add: line_ok_def)
  then have "hist_ok lib1 (ed_hist (if ed_text e = [] then e
        else e\<lparr>ed_hist := ed_hist e @ [take (LE_HIST_LINE - 1) (ed_text e)]\<rparr>))"
    using h l unfolding lib1_def by (auto simp: line_ok_def)
  moreover have "le_tty lib1 = le_tty lib" "le_saved_termios lib1 = le_saved_termios lib"
    by (simp_all add: lib1_def le_hist_add_def Let_def)
  ultimately show "line_done lib (if ed_text e = [] then e
      else e\<lparr>ed_hist := ed_hist e @ [take (LE_HIST_LINE - 1) (ed_text e)]\<rparr>) lib'"
    unfolding line_done_def lib' by (simp add: restore_termios_def le_write_def hist_ok_def)
qed

text \<open>
  Where the loop of the code stands after \<open>n\<close> keys, by the abstract editor. If \<open>tmp\<close> has overflown,
  the line or the saved one was too long before.
\<close>

definition follows :: "nat \<Rightarrow> nat \<Rightarrow> le_lib \<Rightarrow> ed \<Rightarrow> ((le_state + bytes) \<times> le_lib) option \<Rightarrow> bool" where
  "follows n bufsz lib e res \<longleftrightarrow>
     (case res of
        None \<Rightarrow> \<exists>k < n. \<exists>e'. ed_loop k bufsz (le_reads lib) e = Inl e' \<and> \<not> fits e'
      | Some (Inl st', lib') \<Rightarrow> \<exists>e'. ed_loop n bufsz (le_reads lib) e = Inl e' \<and> le_sim st' lib' e'
      | Some (Inr line, lib') \<Rightarrow> \<exists>e'. ed_loop n bufsz (le_reads lib) e = Inr (line, e') \<and> line_done lib e' lib')"

lemma follows_step:
  assumes "follows n bufsz lib1 e1 res"
    and "\<And>k. ed_loop (Suc k) bufsz (le_reads lib) e = ed_loop k bufsz (le_reads lib1) e1"
    and "le_tty lib1 = le_tty lib" and "le_saved_termios lib1 = le_saved_termios lib"
  shows "follows (Suc n) bufsz lib e res"
proof (cases res)
  case None
  then obtain k e' where "k < n" "ed_loop k bufsz (le_reads lib1) e1 = Inl e'" "\<not> fits e'"
    using assms(1) by (auto simp: follows_def)
  then show ?thesis unfolding follows_def None option.case using assms(2)
    by (intro exI [of _ "Suc k"] conjI exI [of _ e']) simp_all
next
  case (Some p)
  then show ?thesis using assms
    by (cases p; cases "fst p") (auto simp: follows_def line_done_def)
qed

lemma loop_ok:
  assumes "0 < bufsz"
  shows "le_sim st lib e \<Longrightarrow> follows n bufsz lib e (le_loop n bufsz st lib)"
proof (induction n arbitrary: st lib e)
  case 0
  then show ?case by (simp add: follows_def)
next
  case (Suc n)
  obtain k ch rs where k: "le_readkey (le_reads lib) = (k, ch, rs)" by (cases "le_readkey (le_reads lib)")
  let ?lib = "lib\<lparr>le_reads := rs\<rparr>"
  have sim: "le_sim st ?lib e" using Suc.prems by simp
  show ?case
  proof (cases "le_on_key bufsz k ch st ?lib")
    case None
    then have "\<not> fits e" using short_fits [OF sim _ assms] by blast
    then have "follows (Suc n) bufsz lib e None" unfolding follows_def option.case
      by (intro exI [of _ 0] conjI exI [of _ e]) simp_all
    then show ?thesis using None k by (simp add: le_turn_def)
  next
    case (Some p)
    obtain q lib1 where p: "p = (q, lib1)" by fastforce
    note turn = Some [unfolded p]
    consider (enter) "k = LEK_ENTER" | (eof) "k = LEK_EOF" "ed_text e = []"
      | (key) "k \<noteq> LEK_ENTER" "\<not> (k = LEK_EOF \<and> ed_text e = [])" by blast
    then show ?thesis
    proof cases
      case enter
      with enter_ok [OF sim turn [unfolded enter]] turn k show ?thesis
        by (auto simp: le_turn_def line_done_def follows_def)
    next
      case eof
      have "llen st = 0" "hist_ok ?lib (ed_hist e)" using sim eof by (auto simp: le_sim_def line_ok_def)
      with eof turn have q: "q = Inr []" "lib1 = restore_termios ?lib" by (auto simp: le_on_key_def)
      have "line_done lib e lib1"
        using \<open>hist_ok ?lib (ed_hist e)\<close> q(2) by (simp add: line_done_def restore_termios_def hist_ok_def)
      with eof q turn k show ?thesis by (auto simp: le_turn_def follows_def)
    next
      case key
      have "key_done ?lib (ed_key k ch e) q lib1"
        using on_key_ok [OF sim _ turn key] readkey_char k by blast
      then obtain st1 where st1: "q = Inl st1" "le_sim st1 lib1 (ed_key k ch e)" "le_reads lib1 = rs"
        "le_tty lib1 = le_tty lib" "le_saved_termios lib1 = le_saved_termios lib"
        by (auto simp: key_done_def)
      have "follows (Suc n) bufsz lib e (le_loop n bufsz st1 lib1)"
        by (rule follows_step [OF Suc.IH [OF st1(2)]]) (use key k st1(3-5) in auto)
      then show ?thesis using k turn st1(1) by (simp add: le_turn_def)
    qed
  qed
qed

text \<open>The editor at the start of a line, after the lines \<open>h\<close>.\<close>

definition ed_new :: "bytes list \<Rightarrow> ed" where
  "ed_new h = \<lparr>ed_left = [], ed_right = [], ed_hist = h, ed_at = length h, ed_save = None\<rparr>"

lemma start_ok:
  assumes "hist_ok lib h" and "le_start junk lib = Some (st, lib1)"
  shows "le_sim st lib1 (ed_new h)" and "le_reads lib1 = le_reads lib" and "le_wrote lib1 = le_wrote lib"
    and "le_tty lib1 \<noteq> None"
    and "Some (le_saved_termios lib1) = (if le_termios_saved lib then Some (le_saved_termios lib) else le_tty lib)"
  using assms
  by (auto simp: le_start_def Let_def restore_termios_def le_sim_def line_ok_def browse_ok_def hist_ok_def
      row_is_def ed_new_def split: option.splits if_splits)

text \<open>
  C27. Reading a line on a terminal, into a buffer that is not empty, refines the abstract editor.
  After any number of keys, whatever they are, either the line being edited, the history and the
  browsing state represent the editor's; or the line has been entered, the caller has got the
  editor's text cut to its buffer, the history has grown by that line, and the terminal has its
  settings back; or the update of the display has overflown its buffer \<open>tmp\<close> (\<open>None\<close>), which happens
  only when the line, or the one saved while browsing, was longer than 106 characters at some
  point. So while they stay below that bound, every key is handled.
\<close>

theorem line_editor_refines:
  assumes "hist_ok lib h" and "le_readline junk n bufsz lib = Some res" and "0 < bufsz"
  shows "case res of
      None \<Rightarrow> \<exists>k < n. \<exists>e. ed_loop k bufsz (le_reads lib) (ed_new h) = Inl e \<and> \<not> fits e
    | Some (Inl st', lib') \<Rightarrow> \<exists>e. ed_loop n bufsz (le_reads lib) (ed_new h) = Inl e \<and> le_sim st' lib' e
    | Some (Inr line, lib') \<Rightarrow>
        \<exists>e. ed_loop n bufsz (le_reads lib) (ed_new h) = Inr (line, e) \<and> hist_ok lib' (ed_hist e) \<and>
          le_tty lib' = (if le_termios_saved lib then Some (le_saved_termios lib) else le_tty lib) \<and>
          \<not> le_termios_saved lib'"
proof -
  obtain st lib1 where st: "le_start junk lib = Some (st, lib1)" "le_loop n bufsz st lib1 = res"
    using assms(2) by (auto simp: le_readline_def)
  note start = start_ok [OF assms(1) st(1)]
  from loop_ok [OF assms(3) start(1), of n] start show ?thesis
    unfolding st(2) follows_def
    by (auto simp: line_done_def split: option.splits sum.splits prod.splits)
qed

text \<open>An editing session for the witnesses: \<open>a\<close>, \<open>b\<close>, left, \<open>c\<close>, enter.\<close>

definition sample_lib :: le_lib where
  "sample_lib = \<lparr>le_history = (\<lambda>_ _. 0), le_hist_count = 0, le_hist_pos = 0, le_scratch = (\<lambda>_. 0),
     le_scratch_valid = False, le_term_cols = 80, le_saved_termios = default_termios,
     le_termios_saved = False, le_tty = Some default_termios,
     le_reads = map RByte [97, 98, 2, 99, 13], le_wrote = []\<rparr>"

lemma sample_hist: "hist_ok sample_lib []"
  by (simp add: hist_ok_def sample_lib_def)

lemmas le_run_defs = le_readline_def le_start_def le_turn_def le_readkey_def le_on_key_def refreshed_def
  le_insert_def le_move_left_def le_output_char_def le_output_insert_def tmp_write_def le_write_def
  part_def Let_def

lemma le_loop_numeral:
  "le_loop (numeral v) bufsz st lib =
     (case le_turn bufsz st lib of
        None \<Rightarrow> None
      | Some (Inr line, lib1) \<Rightarrow> Some (Inr line, lib1)
      | Some (Inl st1, lib1) \<Rightarrow> le_loop (pred_numeral v) bufsz st1 lib1)"
  by (simp add: numeral_eq_Suc)

lemma shift_right_fun: "shift_right p n b = (\<lambda>i. if p < i \<and> i \<le> n then b (i - 1) else b i)"
  by (rule ext) (rule shift_right_nth)

lemma sample_line:
  "\<exists>lib'. le_readline (\<lambda>_. 0) 5 80 sample_lib = Some (Some (Inr [97, 99, 98, 10], lib'))"
  by (simp add: le_run_defs sample_lib_def le_enter_def le_loop_numeral shift_right_fun)

lemma line_editor_refines_witness:
  "\<exists>lib' e. le_readline (\<lambda>_. 0) 5 80 sample_lib = Some (Some (Inr [97, 99, 98, 10], lib')) \<and>
     ed_loop 5 80 (le_reads sample_lib) (ed_new []) = Inr ([97, 99, 98, 10], e) \<and> hist_ok lib' (ed_hist e)"
proof -
  obtain lib' where lib': "le_readline (\<lambda>_. 0) 5 80 sample_lib = Some (Some (Inr [97, 99, 98, 10], lib'))"
    using sample_line by blast
  from line_editor_refines [OF sample_hist this] this show ?thesis by auto
qed

text \<open>
  C28. The display buffer holds the update of every key as long as neither the line nor the
  one saved while browsing is longer than 106 characters; killing the line writes beyond its
  end exactly when the cursor position and twice the length exceed 320, which a line of 107
  characters with the cursor at the end does. The caller's buffer is not empty.
\<close>

theorem display_buffer_bound:
  assumes "le_sim st lib e" and "0 < bufsz"
  shows "(length (ed_text e) \<le> 106 \<and> (\<forall>s. ed_save e = Some s \<longrightarrow> length s \<le> 106) \<longrightarrow>
      le_on_key bufsz key ch st lib \<noteq> None) \<and>
    (le_on_key bufsz LEK_KILL ch st lib = None \<longleftrightarrow> 320 < lpos st + 2 * llen st)"
  using short_fits [OF assms(1) _ assms(2)] kill_None [of st e] assms by (auto simp: le_sim_def fits_def)

text \<open>A line of 107 characters.\<close>

definition long_line :: le_state where
  "long_line = \<lparr>lbuf = (\<lambda>i. if i < 107 then 97 else 0), llen = 107, lpos = 107, lcols = 80\<rparr>"

lemma display_buffer_bound_witness: "le_on_key 256 LEK_KILL 0 long_line sample_lib = None"
proof -
  have "le_sim long_line sample_lib ((ed_new [])\<lparr>ed_left := replicate 107 97\<rparr>)"
    by (simp add: le_sim_def line_ok_def row_is_def browse_ok_def plain_def ed_new_def long_line_def
        hist_ok_def sample_lib_def)
  from display_buffer_bound [OF this] show ?thesis by (auto simp: long_line_def)
qed

text \<open>
  A terminal that is closed while the cursor stands at the end of a line that is not empty:
  \<open>read\<close> gives 0, which counts as control-D, which deletes nothing, forever.
\<close>

lemma closed_terminal_loops:
  assumes "le_reads lib = []" and "llen st \<noteq> 0" and "lpos st = llen st"
  shows "le_loop n bufsz st lib = Some (Inl st, lib)"
proof -
  have "le_turn bufsz st lib = Some (Inl st, lib\<lparr>le_reads := []\<rparr>)"
    using assms by (simp add: le_turn_def le_readkey_def le_on_key_def le_delete_fwd_def refreshed_def)
  also have "lib\<lparr>le_reads := []\<rparr> = lib" using assms(1) by simp
  finally have "le_turn bufsz st lib = Some (Inl st, lib)" .
  then show ?thesis by (induction n) simp_all
qed

end
