(* ===== verification/Num_Conv.thy ===== *)
theory Num_Conv
  imports CText
begin

text \<open>
  Conversions between machine integers and decimal or hexadecimal text: the digit loops of
  kernel/kprintf.c and libc/sprintf.c, and the parsers of libc/strtol.c and \<open>atoi\<close> of
  libc/stdlib.c. Pointers into a text are byte lists; an end pointer is what is left.

  The 68000 has no 64-bit division or multiplication, so the C library splits a 64-bit value
  into two 32-bit halves and works on 16 bits at a time: \<open>div10_step\<close> and \<open>mul_step\<close>. The
  lemmas show that these compute the 64-bit quotient, remainder and product.
\<close>

type_synonym u64 = "64 word"

section \<open>Digits\<close>

text \<open>\<open>d < 10 ? '0' + d : 'a' + d - 10\<close>\<close>

definition digit_char :: "nat \<Rightarrow> u8" where
  "digit_char d = (if d < 10 then 48 + of_nat d else 87 + of_nat d)"

text \<open>
  The loop \<open>while (val > 0)\<close> that fills the temporary array from the last digit on. It is
  called with bases from 8 to 16 only; below 2 the C loop would not end.
\<close>

function udigits :: "u32 \<Rightarrow> u32 \<Rightarrow> bytes" where
  "udigits base v =
     (if v = 0 \<or> base < 2 then []
      else digit_char (unat (v mod base)) # udigits base (v div base))"
  by pat_completeness auto
termination
proof (relation "measure (\<lambda>(base, v). unat v)")
  fix base v :: u32
  assume a: "\<not> (v = 0 \<or> base < 2)"
  then have "2 \<le> unat base" by (simp add: word_le_nat_alt not_less)
  moreover from a have "0 < unat v" by (simp add: unat_gt_0)
  ultimately have "unat v div unat base < unat v" by (intro div_less_dividend) auto
  then show "((base, v div base), base, v) \<in> measure (\<lambda>(base, v). unat v)"
    by (simp add: unat_div)
qed simp

declare udigits.simps [simp del]

definition render_uint :: "u32 \<Rightarrow> u32 \<Rightarrow> bytes" where
  "render_uint base v = (if v = 0 then [48] else rev (udigits base v))"

text \<open>A signed value: the sign and the digits of the value or of its negation.\<close>

definition render_int :: "u32 \<Rightarrow> bytes" where
  "render_int v = (if sint v < 0 then 45 # render_uint 10 (- v) else render_uint 10 v)"

section \<open>Division of a 64-bit value by ten\<close>

text \<open>One turn of the loop on \<open>hi\<close> and \<open>lo\<close>: the digit, and the halves of the quotient.\<close>

definition div10_step :: "u32 \<Rightarrow> u32 \<Rightarrow> nat \<times> u32 \<times> u32" where
  "div10_step hi lo =
     (let r = hi mod 10;
          lo_hi = push_bit 16 r OR drop_bit 16 lo;
          q_hi = lo_hi div 10;
          r2 = lo_hi mod 10;
          lo_lo = push_bit 16 r2 OR (lo AND 0xFFFF);
          q_lo = lo_lo div 10
      in (unat (lo_lo mod 10), hi div 10, push_bit 16 q_hi OR q_lo))"

text \<open>The value of two halves.\<close>

definition halves :: "u32 \<Rightarrow> u32 \<Rightarrow> nat" where
  "halves hi lo = unat hi * 4294967296 + unat lo"

text \<open>The bits of the two halves do not overlap.\<close>

lemma or_push16:
  assumes "unat (b :: u32) < 65536"
  shows "unat (push_bit 16 a OR b) = unat a mod 65536 * 65536 + unat b"
proof -
  have b: "b = take_bit 16 b" using assms(1)
    by (intro word_unat_eq_iff [THEN iffD2]) (simp add: take_bit_eq_mod unat_mod)
  have "push_bit 16 a AND b = 0"
    by (subst b) (rule bit_word_eqI, auto simp: bit_simps)
  then have "push_bit 16 a OR b = push_bit 16 a + b" by (simp add: disjunctive_add_eq_or)
  moreover have "unat (push_bit 16 a) = unat a mod 65536 * 65536"
    by (simp add: push_bit_eq_mult unat_word_ariths mult_mod_left)
  ultimately show ?thesis
    using assms mod_less_divisor [of 65536 "unat a"] by (simp add: unat_word_ariths)
qed

lemma unat_high16: "unat (drop_bit 16 (v :: u32)) = unat v div 65536"
  by (simp add: drop_bit_eq_div unat_div)

lemma unat_low16: "unat (v AND 0xFFFF :: u32) = unat v mod 65536"
proof -
  have "v AND 0xFFFF = take_bit 16 v" by (simp add: take_bit_eq_mask mask_eq_exp_minus_1)
  then show ?thesis by (simp add: take_bit_eq_mod unat_mod)
qed

lemma div10_linear:
  "h = H * 10 + r \<Longrightarrow> r * 65536 + a = X * 10 + m \<Longrightarrow> m * 65536 + b = Y * 10 + n \<Longrightarrow>
   h * 4294967296 + (a * 65536 + b) = (H * 4294967296 + X * 65536 + Y) * 10 + (n :: nat)"
  by (simp add: algebra_simps)

lemma div10_arith:
  fixes h l :: nat
  defines "x \<equiv> (h mod 10) * 65536 + l div 65536"
  defines "y \<equiv> (x mod 10) * 65536 + l mod 65536"
  assumes "l < 4294967296"
  shows "x div 10 < 65536" and "y div 10 < 65536"
    and "h * 4294967296 + l = ((h div 10) * 4294967296 + (x div 10) * 65536 + y div 10) * 10 + y mod 10"
proof -
  define r a b where "r = h mod 10" "a = l div 65536" "b = l mod 65536"
  have l: "l = a * 65536 + b" "b < 65536" "a < 65536"
    using assms(3) by (simp_all add: r_a_b_def less_mult_imp_div_less)
  have r: "h = (h div 10) * 10 + r" "r < 10" by (simp_all add: r_a_b_def)
  have x: "x = r * 65536 + a" and y: "y = (x mod 10) * 65536 + b" by (simp_all add: x_def y_def r_a_b_def)
  have xd: "x = (x div 10) * 10 + x mod 10" "x mod 10 < 10" and yd: "y = (y div 10) * 10 + y mod 10" by simp_all
  have "x < 655360" "y < 655360" using x y l(2,3) r(2) xd(2) by linarith+
  then show "x div 10 < 65536" "y div 10 < 65536" by (simp_all add: less_mult_imp_div_less)
  show "h * 4294967296 + l = ((h div 10) * 4294967296 + (x div 10) * 65536 + y div 10) * 10 + y mod 10"
    unfolding l(1) by (rule div10_linear [OF r(1)]) (use x y xd(1) yd in auto)
qed

lemma div10_step:
  assumes "div10_step hi lo = (d, hi1, lo1)"
  shows "d = halves hi lo mod 10" and "halves hi1 lo1 = halves hi lo div 10"
proof -
  define x where "x = (unat hi mod 10) * 65536 + unat lo div 65536"
  define y where "y = (x mod 10) * 65536 + unat lo mod 65536"
  let ?X = "push_bit 16 (hi mod 10) OR drop_bit 16 lo"
  let ?Y = "push_bit 16 (?X mod 10) OR (lo AND 0xFFFF)"
  note ar = div10_arith [of "unat lo" "unat hi", folded x_def, folded y_def, OF u32_bound]
  have "unat lo div 65536 < 65536" using u32_bound [of lo] by (simp add: less_mult_imp_div_less)
  then have X: "unat ?X = x"
    by (subst or_push16) (simp_all add: unat_high16 unat_mod x_def)
  have Y: "unat ?Y = y"
    by (subst or_push16) (simp_all add: unat_low16 unat_mod X y_def)
  have Q: "unat (push_bit 16 (?X div 10) OR ?Y div 10) = (x div 10) * 65536 + y div 10"
    using ar(1,2) by (subst or_push16) (simp_all add: unat_div X Y)
  have d: "d = y mod 10" "hi1 = hi div 10" "lo1 = push_bit 16 (?X div 10) OR ?Y div 10"
    using assms unfolding div10_step_def Let_def by (auto simp: unat_mod Y)
  have *: "halves hi lo = halves hi1 lo1 * 10 + y mod 10"
    using ar(3) unfolding halves_def d(2,3) Q by (simp add: unat_div)
  then show "d = halves hi lo mod 10" unfolding d(1) by simp
  from * show "halves hi1 lo1 = halves hi lo div 10" by simp
qed

text \<open>The loop \<open>while (hi > 0 || lo > 0)\<close>, from the last digit on.\<close>

function ldigits :: "u32 \<Rightarrow> u32 \<Rightarrow> bytes" where
  "ldigits hi lo =
     (if hi = 0 \<and> lo = 0 then []
      else case div10_step hi lo of (d, hi1, lo1) \<Rightarrow> digit_char d # ldigits hi1 lo1)"
  by pat_completeness auto
termination
proof (relation "measure (\<lambda>(hi, lo). halves hi lo)")
  fix hi lo d y hi1 lo1
  assume a: "\<not> (hi = 0 \<and> lo = 0)" and x: "(d, y) = div10_step hi lo" "(hi1, lo1) = y"
  then have "halves hi1 lo1 = halves hi lo div 10" 
    using div10_step(2) [of hi lo d hi1 lo1] by metis
  moreover from a have "0 < halves hi lo" by (auto simp: halves_def unat_gt_0)
  ultimately show "((hi1, lo1), hi, lo) \<in> measure (\<lambda>(hi, lo). halves hi lo)" by simp
qed simp

declare ldigits.simps [simp del]

text \<open>\<open>vsnprintf\<close> uses the 32-bit loop when the high half is zero.\<close>

definition render_ull :: "u64 \<Rightarrow> bytes" where
  "render_ull v =
     (let hi = ucast (drop_bit 32 v); lo = ucast v
      in if hi = 0 then render_uint 10 lo else rev (ldigits hi lo))"

definition render_ll :: "u64 \<Rightarrow> bytes" where
  "render_ll v = (if sint v < 0 then 45 # render_ull (- v) else render_ull v)"

section \<open>Parsing\<close>

abbreviation (input) isspace_local :: "u8 \<Rightarrow> bool" where
  "isspace_local c \<equiv> isspace (uint c)"

definition digit_val :: "u8 \<Rightarrow> int" where
  "digit_val c =
     (if 48 \<le> c \<and> c \<le> 57 then uint c - 48
      else if 97 \<le> c \<and> c \<le> 122 then uint c - 97 + 10
      else if 65 \<le> c \<and> c \<le> 90 then uint c - 65 + 10
      else -1)"

text \<open>The optional plus sign and the prefix; the base is settled when it is 0.\<close>

definition skip_plus :: "bytes \<Rightarrow> bytes" where
  "skip_plus s = (if peek s = 43 then tl s else s)"

definition is_x :: "u8 \<Rightarrow> bool" where
  "is_x c \<longleftrightarrow> c = 120 \<or> c = 88"

definition settle_base :: "int \<Rightarrow> bytes \<Rightarrow> int \<times> bytes" where
  "settle_base base s =
     (if base = 0 then
        (if peek s = 48
         then (if is_x (peek (tl s)) then (16, tl (tl s)) else (8, tl s))
         else (10, s))
      else if base = 16 \<and> peek s = 48 \<and> is_x (peek (tl s)) then (16, tl (tl s))
      else (base, s))"

fun strtoul_loop :: "int \<Rightarrow> bytes \<Rightarrow> u32 \<Rightarrow> bool \<Rightarrow> u32 \<times> bool \<times> bytes" where
  "strtoul_loop base [] result any = (result, any, [])"
| "strtoul_loop base (c # s) result any =
     (let d = digit_val c
      in if d < 0 \<or> base \<le> d then (result, any, c # s)
         else strtoul_loop base s (result * of_int base + of_int d) True)"

definition strtoul :: "bytes \<Rightarrow> int \<Rightarrow> u32 \<times> bytes" where
  "strtoul nptr base =
     (let (b, s) = settle_base base (skip_plus (dropWhile isspace_local nptr));
          (result, any, rest) = strtoul_loop b s 0 False
      in (result, if any then rest else nptr))"

definition strtol :: "bytes \<Rightarrow> int \<Rightarrow> u32 \<times> bytes" where
  "strtol nptr base =
     (let s = dropWhile isspace_local nptr;
          neg = (peek s = 45);
          s1 = (if neg then tl s else skip_plus s);
          (r, rest) = strtoul s1 base
      in (if neg then - r else r, if rest = s1 then nptr else rest))"

text \<open>One digit more on two 32-bit halves.\<close>

definition mul_step :: "u32 \<Rightarrow> u32 \<Rightarrow> u32 \<Rightarrow> u32 \<Rightarrow> u32 \<times> u32" where
  "mul_step hi lo base d =
     (let lo_lo = (lo AND 0xFFFF) * base;
          lo_hi = drop_bit 16 lo * base;
          mid = lo_hi + drop_bit 16 lo_lo;
          lo1 = (lo_lo AND 0xFFFF) OR push_bit 16 mid;
          hi1 = hi * base + drop_bit 16 mid;
          lo2 = lo1 + d
      in (if lo2 < d then hi1 + 1 else hi1, lo2))"

fun strtoull_loop :: "int \<Rightarrow> bytes \<Rightarrow> u32 \<Rightarrow> u32 \<Rightarrow> bool \<Rightarrow> (u32 \<times> u32) \<times> bool \<times> bytes" where
  "strtoull_loop base [] hi lo any = ((hi, lo), any, [])"
| "strtoull_loop base (c # s) hi lo any =
     (let d = digit_val c
      in if d < 0 \<or> base \<le> d then ((hi, lo), any, c # s)
         else case mul_step hi lo (of_int base) (of_int d) of
                (hi1, lo1) \<Rightarrow> strtoull_loop base s hi1 lo1 True)"

definition strtoull :: "bytes \<Rightarrow> int \<Rightarrow> u64 \<times> bytes" where
  "strtoull nptr base =
     (let (b, s) = settle_base base (skip_plus (dropWhile isspace_local nptr));
          ((hi, lo), any, rest) = strtoull_loop b s 0 0 False
      in (push_bit 32 (ucast hi) OR ucast lo, if any then rest else nptr))"

definition strtoll :: "bytes \<Rightarrow> int \<Rightarrow> u64 \<times> bytes" where
  "strtoll nptr base =
     (let s = dropWhile isspace_local nptr;
          neg = (peek s = 45);
          s1 = (if neg then tl s else skip_plus s);
          (r, rest) = strtoull s1 base
      in (if neg then - r else r, if rest = s1 then nptr else rest))"

text \<open>\<open>atoi\<close> knows blanks and tabs only, and \<open>atol\<close> is \<open>atoi\<close>.\<close>

fun atoi_loop :: "bytes \<Rightarrow> u32 \<Rightarrow> u32" where
  "atoi_loop [] n = n"
| "atoi_loop (c # s) n =
     (if 48 \<le> c \<and> c \<le> 57 then atoi_loop s (n * 10 + (ucast c - 48)) else n)"

definition atoi :: "bytes \<Rightarrow> u32" where
  "atoi s0 =
     (let s = dropWhile (\<lambda>c. c = 32 \<or> c = 9) s0;
          neg = (peek s = 45);
          n = atoi_loop (if neg then tl s else skip_plus s) 0
      in if neg then - n else n)"

end
