(* ===== verification/Printf.thy ===== *)
theory Printf
  imports Num_Conv Tty
begin

text \<open>
  Formatted output and input: \<open>kprintf\<close> of kernel/kprintf.c, \<open>snprintf\<close>, \<open>sprintf\<close>,
  \<open>vsnprintf\<close> and \<open>sscanf\<close> of libc/sprintf.c.

  A variable argument is a word (an \<open>int\<close>, \<open>long\<close> or pointer on the 68000), a 64-bit value or
  a string. \<open>None\<close> stands for what C leaves undefined: an argument that is missing or of the
  wrong kind, and a format that ends within a conversion, where the code steps over the
  terminating NUL and reads on.
\<close>

datatype varg = AWord u32 | ALong u64 | AStr "bytes option"

fun next_word :: "varg list \<Rightarrow> (u32 \<times> varg list) option" where
  "next_word (AWord w # as) = Some (w, as)"
| "next_word _ = None"

fun next_long :: "varg list \<Rightarrow> (u64 \<times> varg list) option" where
  "next_long (ALong w # as) = Some (w, as)"
| "next_long _ = None"

text \<open>A null pointer is printed as \<open>(null)\<close>.\<close>

fun next_str :: "varg list \<Rightarrow> (bytes \<times> varg list) option" where
  "next_str (AStr (Some s) # as) = Some (s, as)"
| "next_str (AStr None # as) = Some (lit ''(null)'', as)"
| "next_str _ = None"

section \<open>Output into a bounded buffer\<close>

definition emit_char :: "int \<Rightarrow> u8 \<Rightarrow> (nat \<Rightarrow> u8) \<times> nat \<Rightarrow> (nat \<Rightarrow> u8) \<times> nat" where
  "emit_char limit c = (\<lambda>(buf, pos). (if int pos < limit - 1 then buf(pos := c) else buf, pos + 1))"

definition emit_str :: "int \<Rightarrow> bytes \<Rightarrow> (nat \<Rightarrow> u8) \<times> nat \<Rightarrow> (nat \<Rightarrow> u8) \<times> nat" where
  "emit_str limit s = fold (emit_char limit) s"

definition emit_uint :: "int \<Rightarrow> u32 \<Rightarrow> u32 \<Rightarrow> (nat \<Rightarrow> u8) \<times> nat \<Rightarrow> (nat \<Rightarrow> u8) \<times> nat" where
  "emit_uint limit val base = emit_str limit (render_uint base val)"

definition terminate :: "int \<Rightarrow> (nat \<Rightarrow> u8) \<times> nat \<Rightarrow> (nat \<Rightarrow> u8) \<times> nat" where
  "terminate limit = (\<lambda>(buf, pos).
     (if 0 < limit then buf((if int pos < limit then pos else nat (limit - 1)) := 0) else buf, pos))"

section \<open>The simple formatters\<close>

text \<open>One conversion of \<open>kprintf\<close> and of \<open>do_vsnprintf\<close>, which has the same set: the bytes and the
  arguments left. An unknown letter is printed behind the percent sign.\<close>

definition simple_conv :: "u8 \<Rightarrow> varg list \<Rightarrow> (bytes \<times> varg list) option" where
  "simple_conv k as =
     (if k = 100 then map_option (apfst render_int) (next_word as)
      else if k = 117 then map_option (apfst (render_uint 10)) (next_word as)
      else if k = 120 then map_option (apfst (render_uint 16)) (next_word as)
      else if k = 115 then next_str as
      else if k = 99 then map_option (apfst (\<lambda>w. [ucast w])) (next_word as)
      else if k = 37 then Some ([37], as)
      else Some ([37, k], as))"

fun kformat :: "bytes \<Rightarrow> varg list \<Rightarrow> bytes option" where
  "kformat [] as = Some []"
| "kformat (c # fmt) as =
     (if c \<noteq> 37 then map_option (Cons c) (kformat fmt as)
      else case fmt of
             [] \<Rightarrow> None
           | k # fmt1 \<Rightarrow> (case simple_conv k as of
               None \<Rightarrow> None
             | Some (out, as1) \<Rightarrow> map_option ((@) out) (kformat fmt1 as1)))"

definition kputs :: "bytes \<Rightarrow> tsys \<Rightarrow> tsys" where
  "kputs s = fold kputc s"

definition kprintf :: "bytes \<Rightarrow> varg list \<Rightarrow> tsys \<Rightarrow> tsys option" where
  "kprintf fmt as s = map_option (\<lambda>out. kputs out s) (kformat fmt as)"

text \<open>\<open>do_vsnprintf\<close> steps over a modifier \<open>l\<close> first.\<close>

fun dformat :: "bytes \<Rightarrow> varg list \<Rightarrow> bytes option" where
  "dformat [] as = Some []"
| "dformat (c # fmt) as =
     (if c \<noteq> 37 then map_option (Cons c) (dformat fmt as)
      else case fmt of
             [] \<Rightarrow> None
           | m # fmt1 \<Rightarrow>
               (if m = 108
                then (case fmt1 of
                        [] \<Rightarrow> None
                      | k # fmt2 \<Rightarrow> (case simple_conv k as of
                          None \<Rightarrow> None
                        | Some (out, as1) \<Rightarrow> map_option ((@) out) (dformat fmt2 as1)))
                else (case simple_conv m as of
                        None \<Rightarrow> None
                      | Some (out, as1) \<Rightarrow> map_option ((@) out) (dformat fmt1 as1))))"

definition do_vsnprintf ::
  "(nat \<Rightarrow> u8) \<Rightarrow> int \<Rightarrow> bytes \<Rightarrow> varg list \<Rightarrow> ((nat \<Rightarrow> u8) \<times> nat) option" where
  "do_vsnprintf buf limit fmt as =
     map_option (\<lambda>out. terminate limit (emit_str limit out (buf, 0))) (dformat fmt as)"

definition snprintf :: "(nat \<Rightarrow> u8) \<Rightarrow> u32 \<Rightarrow> bytes \<Rightarrow> varg list \<Rightarrow> ((nat \<Rightarrow> u8) \<times> nat) option" where
  "snprintf buf limit fmt as = do_vsnprintf buf (sint limit) fmt as"

definition sprintf :: "(nat \<Rightarrow> u8) \<Rightarrow> bytes \<Rightarrow> varg list \<Rightarrow> ((nat \<Rightarrow> u8) \<times> nat) option" where
  "sprintf buf fmt as = do_vsnprintf buf 0x7FFFFFFF fmt as"

section \<open>\<open>vsnprintf\<close>\<close>

record fspec =
  left_align :: bool
  pad_zero :: bool
  width :: int
  precision :: int
  is_longlong :: bool

fun dec_field :: "int \<Rightarrow> bytes \<Rightarrow> int \<times> bytes" where
  "dec_field n [] = (n, [])"
| "dec_field n (c # s) = (if 48 \<le> c \<and> c \<le> 57 then dec_field (n * 10 + (uint c - 48)) s else (n, c # s))"

definition skip_char :: "u8 \<Rightarrow> bytes \<Rightarrow> bool \<times> bytes" where
  "skip_char c s = (if peek s = c then (True, tl s) else (False, s))"

text \<open>The precision: none (-1), an argument, or digits.\<close>

definition parse_precision :: "bytes \<Rightarrow> varg list \<Rightarrow> (int \<times> bytes \<times> varg list) option" where
  "parse_precision s as =
     (if peek s \<noteq> 46 then Some (-1, s, as)
      else if peek (tl s) = 42 then map_option (\<lambda>(w, as1). (sint w, tl (tl s), as1)) (next_word as)
      else case dec_field 0 (tl s) of (n, s1) \<Rightarrow> Some (n, s1, as))"

text \<open>The length modifiers \<open>l\<close>, \<open>ll\<close>, \<open>j\<close> and \<open>z\<close>.\<close>

definition parse_length :: "bytes \<Rightarrow> bool \<times> bytes" where
  "parse_length s =
     (let (l1, s1) = skip_char 108 s;
          (l2, s2) = (if l1 then skip_char 108 s1 else (False, s1));
          (j, s3) = skip_char 106 s2;
          (z, s4) = skip_char 122 s3
      in (l2 \<or> j, s4))"

definition parse_spec :: "bytes \<Rightarrow> varg list \<Rightarrow> (fspec \<times> bytes \<times> varg list) option" where
  "parse_spec s as =
     (let (left, s1) = skip_char 45 s;
          (zero, s2) = skip_char 48 s1;
          (w, s3) = dec_field 0 s2
      in case parse_precision s3 as of
           None \<Rightarrow> None
         | Some (p, s4, as1) \<Rightarrow>
             (case (if peek s4 = 42 then map_option (\<lambda>(v, as2). (sint v, tl s4, as2)) (next_word as1)
                    else Some (w, s4, as1)) of
                None \<Rightarrow> None
              | Some (w1, s5, as2) \<Rightarrow>
                  (case parse_length s5 of (ll, s6) \<Rightarrow>
                     Some (\<lparr>left_align = left, pad_zero = zero, width = w1, precision = p,
                            is_longlong = ll\<rparr>, s6, as2))))"

definition pad :: "fspec \<Rightarrow> nat \<Rightarrow> u8 \<Rightarrow> bytes" where
  "pad sp n c = replicate (nat (width sp - int n)) c"

text \<open>The layout of a decimal number: its sign, its digits and the padding.\<close>

definition layout_dec :: "fspec \<Rightarrow> bool \<Rightarrow> bytes \<Rightarrow> bytes" where
  "layout_dec sp neg digits =
     (let n = length digits + (if neg then 1 else 0)
      in (if \<not> left_align sp \<and> \<not> pad_zero sp then pad sp n 32 else [])
         @ (if neg then [45] else [])
         @ (if \<not> left_align sp \<and> pad_zero sp then pad sp n 48 else [])
         @ digits
         @ (if left_align sp then pad sp n 32 else []))"

definition layout_hex :: "fspec \<Rightarrow> bytes \<Rightarrow> bytes" where
  "layout_hex sp digits =
     (if left_align sp then digits @ pad sp (length digits) 32
      else pad sp (length digits) (if pad_zero sp then 48 else 32) @ digits)"

definition layout_str :: "fspec \<Rightarrow> bytes \<Rightarrow> bytes" where
  "layout_str sp s0 =
     (let s = (if 0 \<le> precision sp then take (nat (precision sp)) s0 else s0)
      in if left_align sp then s @ pad sp (length s) 32 else pad sp (length s) 32 @ s)"

text \<open>Octal and hexadecimal digits by shifting, from the last one on.\<close>

function sdigits :: "nat \<Rightarrow> (nat \<Rightarrow> u8) \<Rightarrow> u64 \<Rightarrow> bytes" where
  "sdigits k chr v =
     (if v = 0 \<or> k = 0 then [] else chr (unat (take_bit k v)) # sdigits k chr (drop_bit k v))"
  by pat_completeness auto
termination
proof (relation "measure (\<lambda>(k, chr, v). unat v)")
  fix k :: nat and chr :: "nat \<Rightarrow> u8" and v :: u64
  assume a: "\<not> (v = 0 \<or> k = 0)"
  then have "unat v div 2 ^ k < unat v"
    using one_less_power [of "2 :: nat" k] by (intro div_less_dividend) (auto simp: unat_gt_0)
  moreover have "unat (drop_bit k v) = unat v div 2 ^ k"
    unfolding unat_drop_bit_eq by (rule drop_bit_eq_div)
  ultimately show "((k, chr, drop_bit k v), k, chr, v) \<in> measure (\<lambda>(k, chr, v). unat v)" by simp
qed simp

declare sdigits.simps [simp del]

definition render_shift :: "nat \<Rightarrow> (nat \<Rightarrow> u8) \<Rightarrow> u64 \<Rightarrow> bytes" where
  "render_shift k chr v = (if v = 0 then [48] else rev (sdigits k chr v))"

definition upper_hex :: "nat \<Rightarrow> u8" where
  "upper_hex d = (if d < 10 then 48 + of_nat d else 55 + of_nat d)"

text \<open>The 64-bit or the widened 32-bit argument.\<close>

definition next_unsigned :: "fspec \<Rightarrow> varg list \<Rightarrow> (u64 \<times> varg list) option" where
  "next_unsigned sp as =
     (if is_longlong sp then next_long as else map_option (apfst ucast) (next_word as))"

definition convert :: "fspec \<Rightarrow> u8 \<Rightarrow> varg list \<Rightarrow> (bytes \<times> varg list) option" where
  "convert sp k as =
     (if k = 115 then map_option (apfst (layout_str sp)) (next_str as)
      else if k = 100 \<or> k = 105 then
        (if is_longlong sp
         then map_option (apfst (\<lambda>v. layout_dec sp (sint v < 0) (render_ull (if sint v < 0 then - v else v))))
                (next_long as)
         else map_option (apfst (\<lambda>v. layout_dec sp (sint v < 0) (render_uint 10 (if sint v < 0 then - v else v))))
                (next_word as))
      else if k = 117 then
        (if is_longlong sp then map_option (apfst (\<lambda>v. layout_dec sp False (render_ull v))) (next_long as)
         else map_option (apfst (\<lambda>v. layout_dec sp False (render_uint 10 v))) (next_word as))
      else if k = 111 then map_option (apfst (render_shift 3 digit_char)) (next_unsigned sp as)
      else if k = 120 then map_option (apfst (\<lambda>v. layout_hex sp (render_shift 4 digit_char v))) (next_unsigned sp as)
      else if k = 88 then map_option (apfst (\<lambda>v. layout_hex sp (render_shift 4 upper_hex v))) (next_unsigned sp as)
      else if k = 99 then map_option (apfst (\<lambda>w. [ucast w])) (next_word as)
      else if k = 112 then map_option (apfst (\<lambda>w. lit ''0x'' @ render_uint 16 w)) (next_word as)
      else if k = 37 then Some ([37], as)
      else Some ([37, k], as))"

lemma length_skip_char: "length (snd (skip_char c s)) \<le> length s"
  by (simp add: skip_char_def)

lemma length_dec_field: "length (snd (dec_field n s)) \<le> length s"
  by (induction n s rule: dec_field.induct) auto

lemma length_parse_length: "length (snd (parse_length s)) \<le> length s"
  by (auto simp: parse_length_def skip_char_def Let_def)

lemma length_parse_precision:
  "parse_precision s as = Some (p, s1, as1) \<Longrightarrow> length s1 \<le> length s"
proof -
  have "length (snd (dec_field 0 (tl s))) \<le> length s"
    using length_dec_field [of 0 "tl s"] by (simp add: le_trans)
  then show "parse_precision s as = Some (p, s1, as1) \<Longrightarrow> length s1 \<le> length s"
    by (auto simp: parse_precision_def split: if_splits prod.splits)
qed

lemma length_parse_spec:
  assumes "parse_spec s as = Some (sp, s1, as1)"
  shows "length s1 \<le> length s"
proof -
  obtain a sa where a: "skip_char 45 s = (a, sa)" by fastforce
  obtain b sb where b: "skip_char 48 sa = (b, sb)" by fastforce
  obtain w sc where c: "dec_field 0 sb = (w, sc)" by fastforce
  have "length sa \<le> length s" "length sb \<le> length sa" "length sc \<le> length sb"
    using length_skip_char [of 45 s] length_skip_char [of 48 sa] length_dec_field [of 0 sb] a b c by simp_all
  moreover obtain p sd as2 where d: "parse_precision sc as = Some (p, sd, as2)"
    using assms a b c by (auto simp: parse_spec_def split: option.splits)
  moreover from d have "length sd \<le> length sc" by (rule length_parse_precision)
  moreover have "length s1 \<le> length sd"
  proof (cases "peek sd = 42")
    case True
    with assms a b c d have "snd (parse_length (tl sd)) = s1"
      by (auto simp: parse_spec_def split: option.splits prod.splits)
    then show ?thesis using length_parse_length [of "tl sd"] by simp
  next
    case False
    with assms a b c d have "snd (parse_length sd) = s1"
      by (auto simp: parse_spec_def split: prod.splits)
    then show ?thesis using length_parse_length [of sd] by simp
  qed
  ultimately show ?thesis by linarith
qed

function vformat :: "bytes \<Rightarrow> varg list \<Rightarrow> bytes option" where
  "vformat [] as = Some []"
| "vformat (c # fmt) as =
     (if c \<noteq> 37 then map_option (Cons c) (vformat fmt as)
      else case parse_spec fmt as of
             None \<Rightarrow> None
           | Some (sp, [], as1) \<Rightarrow> None
           | Some (sp, k # fmt1, as1) \<Rightarrow> (case convert sp k as1 of
               None \<Rightarrow> None
             | Some (out, as2) \<Rightarrow> map_option ((@) out) (vformat fmt1 as2)))"
  by pat_completeness auto
termination
  by (relation "measure (\<lambda>(fmt, as). length fmt)") (auto dest: length_parse_spec)

definition vsnprintf ::
  "(nat \<Rightarrow> u8) \<Rightarrow> u32 \<Rightarrow> bytes \<Rightarrow> varg list \<Rightarrow> ((nat \<Rightarrow> u8) \<times> nat) option" where
  "vsnprintf buf sz fmt as =
     map_option (\<lambda>out. terminate (sint sz) (emit_str (sint sz) out (buf, 0))) (vformat fmt as)"

section \<open>\<open>sscanf\<close>\<close>

text \<open>The values stored through the pointers, in their order.\<close>

datatype sval = SWord u32 | SStr bytes | SChar u8

definition is_space :: "u8 \<Rightarrow> bool" where
  "is_space c \<longleftrightarrow> c = 32 \<or> c = 9 \<or> c = 10 \<or> c = 13"

definition is_dec :: "u8 \<Rightarrow> bool" where
  "is_dec c \<longleftrightarrow> 48 \<le> c \<and> c \<le> 57"

definition scan_dec :: "bytes \<Rightarrow> u32 \<times> bytes" where
  "scan_dec s = (foldl (\<lambda>v c. v * 10 + (ucast c - 48)) 0 (takeWhile is_dec s), dropWhile is_dec s)"

definition hex_val :: "u8 \<Rightarrow> u32 option" where
  "hex_val c =
     (if 48 \<le> c \<and> c \<le> 57 then Some (ucast c - 48)
      else if 97 \<le> c \<and> c \<le> 102 then Some (ucast c - 97 + 10)
      else if 65 \<le> c \<and> c \<le> 70 then Some (ucast c - 65 + 10)
      else None)"

fun scan_hex :: "bytes \<Rightarrow> u32 \<Rightarrow> u32 \<times> bytes" where
  "scan_hex [] v = (v, [])"
| "scan_hex (c # s) v =
     (case hex_val c of None \<Rightarrow> (v, c # s) | Some d \<Rightarrow> scan_hex s (push_bit 4 v OR d))"

text \<open>One conversion: \<open>None\<close> is \<open>goto done\<close>, otherwise the value and the input left.\<close>

definition scan_conv :: "u8 \<Rightarrow> bytes \<Rightarrow> (sval \<times> bytes) option" where
  "scan_conv k s0 =
     (let s = dropWhile is_space s0
      in if k = 100 then
           (let neg = (peek s = 45);
                s1 = (if neg then tl s else skip_plus s)
            in if \<not> is_dec (peek s1) then None
               else case scan_dec s1 of (v, s2) \<Rightarrow> Some (SWord (if neg then - v else v), s2))
         else if k = 117 then
           (if \<not> is_dec (peek s) then None
            else case scan_dec s of (v, s2) \<Rightarrow> Some (SWord v, s2))
         else if k = 120 then
           (let s1 = (if peek s = 48 \<and> is_x (peek (tl s)) then tl (tl s) else s)
            in if hex_val (peek s1) = None then None
               else case scan_hex s1 0 of (v, s2) \<Rightarrow> Some (SWord v, s2))
         else if k = 115 then
           Some (SStr (takeWhile (\<lambda>c. \<not> is_space c) s), dropWhile (\<lambda>c. \<not> is_space c) s)
         else if k = 99 then Some (SChar (peek s0), tl s0)
         else None)"

text \<open>
  The loop: \<open>len0\<close> is the length of the whole input, for \<open>%n\<close>. The result is the number of
  conversions and the stored values.
\<close>

function sscanf_loop :: "nat \<Rightarrow> bytes \<Rightarrow> bytes \<Rightarrow> int \<Rightarrow> sval list \<Rightarrow> int \<times> sval list" where
  "sscanf_loop len0 p s matched vals =
     (if p = [] \<or> s = [] then (matched, vals)
      else if is_space (peek p) then
        sscanf_loop len0 (dropWhile is_space p) (dropWhile is_space s) matched vals
      else if peek p \<noteq> 37 then
        (if peek s \<noteq> peek p then (matched, vals) else sscanf_loop len0 (tl p) (tl s) matched vals)
      else
        let p1 = (if peek (tl p) = 108 then tl (tl p) else tl p)
        in if peek p1 = 110 then
             sscanf_loop len0 (tl p1) s matched (vals @ [SWord (of_nat (len0 - length s))])
           else if peek p1 = 37 then
             (if peek s \<noteq> 37 then (matched, vals) else sscanf_loop len0 (tl p1) (tl s) matched vals)
           else case scan_conv (peek p1) s of
                  None \<Rightarrow> (matched, vals)
                | Some (v, s1) \<Rightarrow> sscanf_loop len0 (tl p1) s1 (matched + 1) (vals @ [v]))"
  by pat_completeness auto
termination
proof (relation "measure (\<lambda>(len0, p, s, matched, vals). length p)", goal_cases)
  case (2 len0 p s matched vals)
  then obtain c q where "p = c # q" by (cases p) auto
  with 2 show ?case using length_dropWhile_le [of is_space q] by (simp add: less_Suc_eq_le)
qed (auto simp: Let_def neq_Nil_conv split: if_splits)

declare sscanf_loop.simps [simp del]

definition sscanf :: "bytes \<Rightarrow> bytes \<Rightarrow> int \<times> sval list" where
  "sscanf str fmt = sscanf_loop (length str) fmt str 0 []"

end
