(* ===== verification/Num_Round.thy ===== *)
theory Num_Round
  imports Num_Conv
begin

text \<open>
  The conversions of \<open>Num_Conv\<close> against their meaning: a string of digits denotes a number,
  rendering gives a string that denotes the value, parsing gives the value that the digits
  denote modulo the word size, and so a parser undoes its renderer.
\<close>

section \<open>What digits denote\<close>

definition is_digit :: "int \<Rightarrow> u8 \<Rightarrow> bool" where
  "is_digit base c \<longleftrightarrow> 0 \<le> digit_val c \<and> digit_val c < base"

definition denotes :: "int \<Rightarrow> bytes \<Rightarrow> nat" where
  "denotes base ds = foldl (\<lambda>n c. n * nat base + nat (digit_val c)) 0 ds"

lemma denotes_snoc: "denotes base (ds @ [c]) = denotes base ds * nat base + nat (digit_val c)"
  by (simp add: denotes_def)

lemma of_nat_small8: "n < 256 \<Longrightarrow> uint (of_nat n :: u8) = int n"
  by (simp add: unsigned_of_nat take_bit_eq_mod)

lemma digit_val_char: "d < 36 \<Longrightarrow> digit_val (digit_char d) = int d"
  by (simp add: digit_val_def digit_char_def word_le_def uint_word_ariths of_nat_small8)

lemma is_digit_char: "d < n \<Longrightarrow> n \<le> 36 \<Longrightarrow> is_digit (int n) (digit_char d)"
  by (simp add: is_digit_def digit_val_char)

lemma udigits_denote:
  assumes "2 \<le> base" and "base \<le> 36"
  shows "denotes (uint base) (rev (udigits base v)) = unat v \<and> list_all (is_digit (uint base)) (udigits base v)"
proof (induction v rule: measure_induct_rule [of unat])
  case (less v)
  have b: "2 \<le> unat base" "unat base \<le> 36" using assms by (simp_all add: word_le_nat_alt)
  show ?case
  proof (cases "v = 0")
    case True
    then show ?thesis by (simp add: udigits.simps denotes_def)
  next
    case False
    then have "unat v div unat base < unat v" using b by (intro div_less_dividend) (auto simp: unat_gt_0)
    then have IH: "denotes (uint base) (rev (udigits base (v div base))) = unat v div unat base"
      "list_all (is_digit (uint base)) (udigits base (v div base))"
      using less [of "v div base"] by (auto simp: unat_div)
    have d: "unat v mod unat base < unat base" using b by simp
    have eq: "udigits base v = digit_char (unat v mod unat base) # udigits base (v div base)"
      using False assms by (subst udigits.simps) (auto simp: unat_mod)
    have "digit_val (digit_char (unat v mod unat base)) = int (unat v mod unat base)"
      using d b by (intro digit_val_char) linarith
    moreover have "is_digit (uint base) (digit_char (unat v mod unat base))"
      using is_digit_char [OF d b(2)] by simp
    moreover have "nat (uint base) = unat base" by simp
    ultimately show ?thesis using IH by (simp add: eq denotes_snoc)
  qed
qed

lemma ldigits_denote:
  "denotes 10 (rev (ldigits hi lo)) = halves hi lo \<and> list_all (is_digit 10) (ldigits hi lo)"
proof (induction hi lo rule: ldigits.induct)
  case (1 hi lo)
  obtain d hi1 lo1 where s: "div10_step hi lo = (d, hi1, lo1)" by (cases "div10_step hi lo")
  show ?case
  proof (cases "hi = 0 \<and> lo = 0")
    case True
    then show ?thesis by (simp add: ldigits.simps denotes_def halves_def)
  next
    case False
    then have IH: "denotes 10 (rev (ldigits hi1 lo1)) = halves hi lo div 10" "list_all (is_digit 10) (ldigits hi1 lo1)"
      using 1 [OF False s [symmetric] refl] div10_step(2) [OF s] by auto
    have d: "d < 10" "d = halves hi lo mod 10" using div10_step(1) [OF s] by auto
    have "ldigits hi lo = digit_char d # ldigits hi1 lo1" using False s by (subst ldigits.simps) auto
    moreover have "is_digit 10 (digit_char d)" using is_digit_char [OF d(1)] by simp
    moreover have "digit_val (digit_char d) = int d" using d(1) by (intro digit_val_char) simp
    ultimately show ?thesis using IH d(2) by (simp add: denotes_snoc)
  qed
qed

text \<open>A rendered number: digits, and not empty.\<close>

definition numeral_for :: "int \<Rightarrow> nat \<Rightarrow> bytes \<Rightarrow> bool" where
  "numeral_for base n ds \<longleftrightarrow> ds \<noteq> [] \<and> list_all (is_digit base) ds \<and> denotes base ds = n"

lemma render_uint_numeral:
  assumes "2 \<le> base" and "base \<le> 36"
  shows "numeral_for (uint base) (unat v) (render_uint base v)"
proof (cases "v = 0")
  case True
  have "2 \<le> uint base" using assms(1) by (simp add: word_le_def)
  with True show ?thesis
    by (simp add: numeral_for_def render_uint_def denotes_def is_digit_def digit_val_def)
next
  case False
  then have "udigits base v \<noteq> []" using assms by (subst udigits.simps) auto
  with False udigits_denote [OF assms, of v] show ?thesis
    by (simp add: numeral_for_def render_uint_def)
qed

lemma halves_split: "halves (ucast (drop_bit 32 v)) (ucast v) = unat (v :: u64)"
proof -
  have "unat v < 2 ^ 64" using unsigned_less [of v] by simp
  then have "unat (ucast (drop_bit 32 v) :: u32) = unat v div 4294967296"
    by (simp add: unsigned_ucast_eq take_bit_eq_mod drop_bit_eq_div unat_div less_mult_imp_div_less)
  moreover have "unat (ucast v :: u32) = unat v mod 4294967296"
    by (simp add: unsigned_ucast_eq take_bit_eq_mod)
  ultimately show ?thesis by (simp add: halves_def)
qed

lemma render_ull_numeral: "numeral_for 10 (unat v) (render_ull v)"
proof (cases "(ucast (drop_bit 32 v) :: u32) = 0")
  case True
  then show ?thesis using render_uint_numeral [of 10 "ucast v"] halves_split [of v]
    by (simp add: render_ull_def halves_def)
next
  case False
  then have "ldigits (ucast (drop_bit 32 v)) (ucast v) \<noteq> []"
    by (subst ldigits.simps) (auto split: prod.splits)
  with False ldigits_denote [of "ucast (drop_bit 32 v)" "ucast v"] halves_split [of v] show ?thesis
    by (simp add: numeral_for_def render_ull_def)
qed

section \<open>Parsing loops\<close>

text \<open>
  What the two digit loops share: an accumulator that stands for a natural number below a
  modulus, and a step that adds a digit to it modulo that number.
\<close>

definition stops :: "int \<Rightarrow> bytes \<Rightarrow> bool" where
  "stops base rest \<longleftrightarrow> rest = [] \<or> \<not> is_digit base (hd rest)"

abbreviation more :: "int \<Rightarrow> nat \<Rightarrow> u8 \<Rightarrow> nat" where
  "more base n c \<equiv> n * nat base + nat (digit_val c)"

locale digit_loop =
  fixes num :: "'a \<Rightarrow> nat" and modulus :: nat
    and step :: "int \<Rightarrow> u8 \<Rightarrow> 'a \<Rightarrow> 'a"
    and loop :: "int \<Rightarrow> bytes \<Rightarrow> 'a \<Rightarrow> bool \<Rightarrow> 'a \<times> bool \<times> bytes"
  assumes loop_Nil: "loop base [] a any = (a, any, [])"
    and loop_Cons: "loop base (c # s) a any =
      (if is_digit base c then loop base s (step base c a) True else (a, any, c # s))"
    and step_num: "base \<le> 36 \<Longrightarrow> is_digit base c \<Longrightarrow> num (step base c a) = more base (num a) c mod modulus"
    and num_bound: "num a < modulus"
begin

lemma fold_mod: "foldl (more base) (n mod modulus) ds mod modulus = foldl (more base) n ds mod modulus"
proof (induction ds arbitrary: n)
  case (Cons c ds)
  have "more base (n mod modulus) c mod modulus = more base n c mod modulus"
    by (metis mod_add_left_eq mod_mult_left_eq)
  then have "foldl (more base) (more base (n mod modulus) c) ds mod modulus
      = foldl (more base) (more base n c) ds mod modulus"
    by (metis Cons.IH)
  then show ?case by simp
qed simp

lemma loop_digits:
  assumes "base \<le> 36" and "list_all (is_digit base) ds" and "stops base rest"
  shows "\<exists>a'. loop base (ds @ rest) a any = (a', any \<or> ds \<noteq> [], rest) \<and>
    num a' = foldl (more base) (num a) ds mod modulus"
  using assms(2)
proof (induction ds arbitrary: a any)
  case Nil
  have "loop base rest a any = (a, any, rest)"
    using assms(3) by (cases rest) (auto simp: loop_Nil loop_Cons stops_def)
  then show ?case using num_bound [of a] by simp
next
  case (Cons c ds)
  then have c: "is_digit base c" by simp
  obtain a' where "loop base (ds @ rest) (step base c a) True = (a', True, rest)"
    "num a' = foldl (more base) (num (step base c a)) ds mod modulus"
    using Cons.IH [of "step base c a" True] Cons.prems by auto
  then show ?case using c by (simp add: loop_Cons step_num [OF assms(1) c] fold_mod)
qed

lemma loop_numeral:
  assumes "base \<le> 36" and "numeral_for base n ds" and "stops base rest" and "num a = 0"
  shows "\<exists>a'. loop base (ds @ rest) a False = (a', True, rest) \<and> num a' = n mod modulus"
  using loop_digits [OF assms(1) _ assms(3), of ds a False] assms(2,4)
  by (auto simp: numeral_for_def denotes_def)

end

lemma of_int_digit: "is_digit base c \<Longrightarrow> base \<le> 36 \<Longrightarrow>
    unat (of_int base :: u32) = nat base \<and> unat (of_int (digit_val c) :: u32) = nat (digit_val c)"
  by (auto simp: is_digit_def unsigned_of_int take_bit_eq_mod nat_mod_distrib)

interpretation ul: digit_loop unat 4294967296
  "\<lambda>base c r. r * of_int base + of_int (digit_val c)" strtoul_loop
proof
  fix base c and a :: u32
  assume "base \<le> 36" "is_digit base c"
  then show "unat (a * of_int base + of_int (digit_val c)) = more base (unat a) c mod 4294967296"
    using of_int_digit [of base c] by (simp add: unat_word_ariths mod_add_left_eq)
next
  fix a :: u32 show "unat a < 4294967296" by (rule u32_bound)
qed (auto simp: is_digit_def Let_def)

lemma mul_arith:
  fixes x y b :: nat
  assumes "x < 65536" and "y < 65536" and "b \<le> 36"
  defines "mid \<equiv> x * b + y * b div 65536"
  shows "(x * 65536 + y) * b = mid div 65536 * 4294967296 + (mid mod 65536 * 65536 + y * b mod 65536)"
    and "y * b < 4294967296" and "mid < 4294967296" and "x * b < 4294967296"
proof -
  have "x * b \<le> 65535 * 36" "y * b \<le> 65535 * 36" using assms by (intro mult_le_mono; simp)+
  moreover have "y * b div 65536 \<le> y * b" by simp
  ultimately show "y * b < 4294967296" "mid < 4294967296" "x * b < 4294967296"
    unfolding mid_def by linarith+
  have "(x * 65536 + y) * b = x * b * 65536 + (y * b div 65536 * 65536 + y * b mod 65536)"
    by (simp add: algebra_simps)
  also have "\<dots> = mid * 65536 + y * b mod 65536" by (simp add: mid_def algebra_simps)
  also have "\<dots> = (mid div 65536 * 65536 + mid mod 65536) * 65536 + y * b mod 65536" by simp
  also have "\<dots> = mid div 65536 * 4294967296 + (mid mod 65536 * 65536 + y * b mod 65536)"
    by (simp only: distrib_right mult.assoc add.assoc)
  finally show "(x * 65536 + y) * b = mid div 65536 * 4294967296 + (mid mod 65536 * 65536 + y * b mod 65536)" .
qed

lemma mod64_split:
  "(k * 4294967296 + t) mod 18446744073709551616
     = (k + t div 4294967296) mod 4294967296 * 4294967296 + t mod (4294967296 :: nat)"
  using mod_mult2_eq [of "k * 4294967296 + t" 4294967296 4294967296] by simp

lemma halves_carry:
  assumes "unat hi = k mod 4294967296"
  shows "halves (if lo + d < d then hi + 1 else hi) (lo + d)
    = (k * 4294967296 + (unat lo + unat d)) mod 18446744073709551616"
proof -
  let ?t = "unat lo + unat d"
  have t: "unat (lo + d) = ?t mod 4294967296" by (simp add: unat_word_ariths)
  show ?thesis
  proof (cases "?t < 4294967296")
    case True
    then have "\<not> lo + d < d" "?t div 4294967296 = 0" by (simp_all add: word_less_nat_alt t)
    then show ?thesis using assms True by (simp add: halves_def t mod64_split)
  next
    case False
    then have "?t = 4294967296 + (?t - 4294967296)" "?t - 4294967296 < 4294967296"
      using u32_bound [of lo] u32_bound [of d] by linarith+
    then have m: "?t mod 4294967296 = ?t - 4294967296" "?t div 4294967296 = 1"
      by (metis mod_add_self1 mod_less, metis div_add_self1 div_less add_0 One_nat_def zero_neq_numeral)
    then have "lo + d < d" using u32_bound [of lo] False by (simp add: word_less_nat_alt t)
    moreover have "unat (hi + 1) = (k + 1) mod 4294967296" using assms by (simp add: unat_word_ariths mod_Suc_eq)
    ultimately show ?thesis using m by (simp add: halves_def t mod64_split)
  qed
qed

lemma high_sum:
  "unat (hi * base + drop_bit 16 m) = (unat hi * unat base + unat m div 65536) mod 4294967296"
  for hi base m :: u32
  by (simp add: unat_word_ariths unat_high16 mod_add_left_eq)

lemma mul_step_halves:
  assumes "unat base \<le> 36" and "mul_step hi lo base d = (hi1, lo1)"
  shows "halves hi1 lo1 = (halves hi lo * unat base + unat d) mod 18446744073709551616"
proof -
  define x y b where "x = unat lo div 65536" "y = unat lo mod 65536" "b = unat base"
  note defs = this
  have xy: "x < 65536" "y < 65536" "b \<le> 36" "unat lo = x * 65536 + y"
    using assms(1) u32_bound [of lo] by (simp_all add: defs less_mult_imp_div_less)
  define mid where "mid = x * b + y * b div 65536"
  note ar = mul_arith [OF xy(1-3), folded mid_def]
  let ?lo_lo = "(lo AND 0xFFFF) * base"
  let ?mid = "drop_bit 16 lo * base + drop_bit 16 ?lo_lo"
  let ?lo1 = "(?lo_lo AND 0xFFFF) OR push_bit 16 ?mid" and ?hi1 = "hi * base + drop_bit 16 ?mid"
  have lo_lo: "unat ?lo_lo = y * b"
    using ar(2) by (simp add: unat_word_ariths unat_low16 defs)
  have mid: "unat ?mid = mid"
  proof -
    have "unat (drop_bit 16 lo * base) = x * b" using ar(4) by (simp add: unat_word_ariths unat_high16 defs)
    moreover have "unat (drop_bit 16 ?lo_lo) = y * b div 65536" by (simp only: unat_high16 lo_lo)
    ultimately show ?thesis using ar(3) by (simp only: unat_word_ariths(1)) (simp add: mid_def)
  qed
  have "unat ?lo1 = mid mod 65536 * 65536 + y * b mod 65536"
    by (subst or.commute, subst or_push16) (simp_all add: unat_low16 lo_lo mid)
  moreover have "unat ?hi1 = (unat hi * b + mid div 65536) mod 4294967296"
    using high_sum [of hi base ?mid] by (simp only: mid defs)
  moreover have "hi1 = (if ?lo1 + d < d then ?hi1 + 1 else ?hi1)" "lo1 = ?lo1 + d"
    using assms(2) by (auto simp: mul_step_def Let_def)
  ultimately have "halves hi1 lo1 = ((unat hi * b + mid div 65536) * 4294967296 +
      (mid mod 65536 * 65536 + y * b mod 65536 + unat d)) mod 18446744073709551616"
    using halves_carry by presburger
  also have "(unat hi * b + mid div 65536) * 4294967296 + (mid mod 65536 * 65536 + y * b mod 65536 + unat d)
      = unat hi * b * 4294967296 + (x * 65536 + y) * b + unat d"
    unfolding ar(1) by (simp only: distrib_right add.assoc)
  also have "\<dots> = halves hi lo * unat base + unat d"
    unfolding halves_def xy(4) defs(3) [symmetric] by (simp add: algebra_simps)
  finally show ?thesis .
qed

interpretation ull: digit_loop "\<lambda>(hi, lo). halves hi lo" 18446744073709551616
  "\<lambda>base c (hi, lo). mul_step hi lo (of_int base) (of_int (digit_val c))"
  "\<lambda>base s (hi, lo) any. strtoull_loop base s hi lo any"
proof
  fix base c and a :: "u32 \<times> u32"
  obtain hi lo where a: "a = (hi, lo)" by (cases a)
  obtain hi1 lo1 where m: "mul_step hi lo (of_int base) (of_int (digit_val c)) = (hi1, lo1)" by fastforce
  assume d: "base \<le> 36" "is_digit base c"
  then show "(case case a of (hi, lo) \<Rightarrow> mul_step hi lo (of_int base) (of_int (digit_val c)) of (hi, lo) \<Rightarrow> halves hi lo)
      = more base (case a of (hi, lo) \<Rightarrow> halves hi lo) c mod 18446744073709551616"
    using mul_step_halves [OF _ m] of_int_digit [OF d(2,1)] by (simp add: a m)
next
  fix a :: "u32 \<times> u32"
  obtain hi lo where a: "a = (hi, lo)" by (cases a)
  show "(case a of (hi, lo) \<Rightarrow> halves hi lo) < 18446744073709551616"
    using u32_bound [of hi] u32_bound [of lo] by (simp add: a halves_def)
qed (auto simp: is_digit_def Let_def split: prod.splits)

section \<open>Parsers on numerals\<close>

lemma digit_10: "is_digit 10 c \<Longrightarrow> 48 \<le> uint c \<and> uint c \<le> 57"
  by (auto simp: is_digit_def digit_val_def word_le_def split: if_splits)

lemma digit_10_first: "is_digit 10 c \<Longrightarrow> \<not> isspace (uint c) \<and> c \<noteq> 43 \<and> c \<noteq> 45"
  using digit_10 [of c] by (auto simp: isspace_def)

lemma numeral_front:
  assumes "numeral_for 10 n ds"
  shows "dropWhile (\<lambda>c. isspace (uint c)) (ds @ rest) = ds @ rest" and "skip_plus (ds @ rest) = ds @ rest"
    and "peek (ds @ rest) \<noteq> 45"
  using assms digit_10_first by (cases ds; fastforce simp: numeral_for_def skip_plus_def)+

lemma settle_10 [simp]: "settle_base 10 s = (10, s)"
  by (simp add: settle_base_def)

lemma strtoul_numeral:
  assumes "numeral_for 10 n ds" and "stops 10 rest"
  shows "strtoul (ds @ rest) 10 = (of_nat n, rest)"
proof -
  obtain a where "strtoul_loop 10 (ds @ rest) 0 False = (a, True, rest)" "unat a = n mod 4294967296"
    using ul.loop_numeral [OF _ assms, of 0] by auto
  moreover from this(2) have "a = of_nat n" 
    by (simp add: word_unat_eq_iff unsigned_of_nat take_bit_eq_mod)
  ultimately show ?thesis by (simp add: strtoul_def numeral_front [OF assms(1)])
qed

lemma join_halves: "unat (push_bit 32 (ucast hi) OR ucast lo :: u64) = halves hi lo" for hi lo :: u32
proof -
  have "push_bit 32 (ucast hi) AND (ucast lo :: u64) = 0"
    by (rule bit_word_eqI) (auto simp: bit_simps dest: bit_imp_le_length)
  then have "push_bit 32 (ucast hi) OR ucast lo = push_bit 32 (ucast hi) + (ucast lo :: u64)"
    by (simp add: disjunctive_add_eq_or)
  moreover have "unat (ucast hi :: u64) = unat hi" "unat (ucast lo :: u64) = unat lo"
    using less_trans [OF u32_bound, of 18446744073709551616] by (simp_all add: unsigned_ucast_eq take_bit_eq_mod)
  ultimately show ?thesis using u32_bound [of hi] u32_bound [of lo]
    by (simp add: halves_def push_bit_eq_mult unat_word_ariths)
qed

lemma strtoull_numeral:
  assumes "numeral_for 10 n ds" and "stops 10 rest"
  shows "strtoull (ds @ rest) 10 = (of_nat n, rest)"
proof -
  obtain a where "(case (0, 0) of (hi, lo) \<Rightarrow> strtoull_loop 10 (ds @ rest) hi lo False) = (a, True, rest)"
    "(case a of (hi, lo) \<Rightarrow> halves hi lo) = n mod 18446744073709551616"
    using ull.loop_numeral [OF _ assms, of "(0, 0)"] by (auto simp: halves_def)
  moreover obtain hi lo where "a = (hi, lo)" by (cases a)
  ultimately have "strtoull_loop 10 (ds @ rest) 0 0 False = ((hi, lo), True, rest)"
    "unat (push_bit 32 (ucast hi) OR ucast lo :: u64) = n mod 18446744073709551616"
    by (simp_all add: join_halves)
  moreover from this(2) have "push_bit 32 (ucast hi) OR ucast lo = (of_nat (n mod 18446744073709551616) :: u64)"
    by (simp only: word_unat_eq_iff) (simp add: unsigned_of_nat take_bit_eq_mod)
  moreover have "(of_nat n :: u64) = of_nat (n mod 18446744073709551616)"
    by (simp add: word_unat_eq_iff unsigned_of_nat take_bit_eq_mod)
  ultimately show ?thesis by (simp add: strtoull_def numeral_front [OF assms(1)])
qed

lemma strtol_numeral:
  assumes "numeral_for 10 n ds" and "stops 10 rest"
  shows "strtol (ds @ rest) 10 = (of_nat n, rest)" and "strtol (45 # ds @ rest) 10 = (- of_nat n, rest)"
proof -
  have "rest \<noteq> ds @ rest" using assms(1) by (simp add: numeral_for_def)
  moreover have "dropWhile (\<lambda>c. isspace (uint c)) (45 # ds @ rest) = 45 # ds @ rest" by (simp add: isspace_def)
  ultimately show "strtol (ds @ rest) 10 = (of_nat n, rest)" "strtol (45 # ds @ rest) 10 = (- of_nat n, rest)"
    using numeral_front [OF assms(1), of rest] strtoul_numeral [OF assms]
    by (auto simp: strtol_def Let_def)
qed

lemma strtoll_numeral:
  assumes "numeral_for 10 n ds" and "stops 10 rest"
  shows "strtoll (ds @ rest) 10 = (of_nat n, rest)" and "strtoll (45 # ds @ rest) 10 = (- of_nat n, rest)"
proof -
  have "rest \<noteq> ds @ rest" using assms(1) by (simp add: numeral_for_def)
  moreover have "dropWhile (\<lambda>c. isspace (uint c)) (45 # ds @ rest) = 45 # ds @ rest" by (simp add: isspace_def)
  ultimately show "strtoll (ds @ rest) 10 = (of_nat n, rest)" "strtoll (45 # ds @ rest) 10 = (- of_nat n, rest)"
    using numeral_front [OF assms(1), of rest] strtoull_numeral [OF assms]
    by (auto simp: strtoll_def Let_def)
qed

lemma atoi_loop_digits:
  "list_all (is_digit 10) ds \<Longrightarrow> stops 10 rest \<Longrightarrow>
   atoi_loop (ds @ rest) (of_nat n) = of_nat (foldl (more 10) n ds)"
proof (induction ds arbitrary: n)
  case Nil
  then show ?case by (cases rest) (auto simp: stops_def is_digit_def digit_val_def word_le_def)
next
  case (Cons c ds)
  then have c: "48 \<le> uint c" "uint c \<le> 57" using digit_10 [of c] by auto
  then have "ucast c - 48 = (of_nat (nat (digit_val c)) :: u32)"
    by (simp add: digit_val_def word_le_def word_of_int_nat word_uint_eq_iff uint_word_ariths unsigned_ucast_eq
        take_bit_eq_mod)
  moreover have "48 \<le> c" "c \<le> 57" using c by (simp_all add: word_le_def)
  ultimately show ?case using Cons.IH [of "more 10 n c"] Cons.prems by simp
qed

end
