(* ===== verification/Printf_Correct.thy ===== *)
theory Printf_Correct
  imports Printf Num_Round
begin

text \<open>
  Formatting and parsing are inverse: a number printed by any of the formatters is read back
  by the parsers, over the whole range of 32 and 64 bits. The bounded formatters never write
  outside their buffer and always terminate the string.
\<close>

section \<open>Numbers\<close>

lemma atoi_numeral:
  assumes "numeral_for 10 n ds" and "stops 10 rest"
  shows "atoi (ds @ rest) = of_nat n" and "atoi (45 # ds @ rest) = - of_nat n"
proof -
  have "dropWhile (\<lambda>c. c = 32 \<or> c = 9) (ds @ rest) = ds @ rest"
    using assms(1) digit_10 by (cases ds; fastforce simp: numeral_for_def)
  moreover have "atoi_loop (ds @ rest) 0 = of_nat n"
    using atoi_loop_digits [OF _ assms(2), of ds 0] assms(1) by (simp add: numeral_for_def denotes_def)
  ultimately show "atoi (ds @ rest) = of_nat n" "atoi (45 # ds @ rest) = - of_nat n"
    using numeral_front [OF assms(1), of rest] by (simp_all add: atoi_def Let_def)
qed

lemma is_dec_digit: "is_dec = is_digit 10"
  by (auto simp: fun_eq_iff is_dec_def is_digit_def digit_val_def word_le_def)

lemma scan_dec_numeral:
  assumes "numeral_for 10 n ds"
  shows "scan_dec ds = (of_nat n, [])"
proof -
  have all: "list_all is_dec ds" using assms by (simp add: numeral_for_def is_dec_digit)
  have "atoi_loop es m = foldl (\<lambda>v c. v * 10 + (ucast c - 48)) m es" if "list_all is_dec es" for es m
    using that by (induction es arbitrary: m) (auto simp: is_dec_def)
  then have "foldl (\<lambda>v c. v * 10 + (ucast c - 48)) 0 ds = (of_nat n :: u32)"
    using all atoi_loop_digits [of ds "[]" 0] assms
    by (simp add: numeral_for_def denotes_def stops_def)
  moreover have "takeWhile is_dec ds = ds" "dropWhile is_dec ds = []"
    using all by (simp_all add: list_all_iff)
  ultimately show ?thesis by (simp only: scan_dec_def)
qed

lemma numeral_first: "numeral_for 10 n ds \<Longrightarrow> \<exists>c es. ds = c # es \<and> is_dec c \<and> \<not> is_space c \<and> c \<noteq> 45 \<and> c \<noteq> 43"
  using digit_10_first digit_10 by (cases ds) (fastforce simp: numeral_for_def is_dec_digit is_space_def)+

lemma sscanf_numeral:
  assumes "numeral_for 10 n ds"
  shows "sscanf ds (lit ''%d'') = (1, [SWord (of_nat n)])"
    and "sscanf (45 # ds) (lit ''%d'') = (1, [SWord (- of_nat n)])"
proof -
  obtain c es where ds: "ds = c # es" "is_dec c" "\<not> is_space c" "c \<noteq> 45" "c \<noteq> 43"
    using numeral_first [OF assms] by blast
  have "scan_conv 100 ds = Some (SWord (of_nat n), [])"
    using ds scan_dec_numeral [OF assms] by (simp add: scan_conv_def skip_plus_def)
  moreover have "scan_conv 100 (45 # ds) = Some (SWord (- of_nat n), [])"
    using ds scan_dec_numeral [OF assms] by (simp add: scan_conv_def is_space_def [of 45])
  ultimately show "sscanf ds (lit ''%d'') = (1, [SWord (of_nat n)])"
    "sscanf (45 # ds) (lit ''%d'') = (1, [SWord (- of_nat n)])"
    using ds(1) by (simp_all add: sscanf_def sscanf_loop.simps lit_def is_space_def)
qed

lemma sscanf_unsigned:
  assumes "numeral_for 10 n ds"
  shows "sscanf ds (lit ''%u'') = (1, [SWord (of_nat n)])"
proof -
  obtain c es where ds: "ds = c # es" "is_dec c" "\<not> is_space c"
    using numeral_first [OF assms] by blast
  have "scan_conv 117 ds = Some (SWord (of_nat n), [])"
    using ds scan_dec_numeral [OF assms] by (simp add: scan_conv_def)
  then show ?thesis
    using ds(1) by (simp add: sscanf_def sscanf_loop.simps lit_def is_space_def)
qed

text \<open>The signed renderings, by the sign.\<close>

lemma render_int_cases:
  "\<exists>n ds. numeral_for 10 n ds \<and> (render_int w = ds \<and> of_nat n = w \<or> render_int w = 45 # ds \<and> - of_nat n = w)"
proof (cases "sint w < 0")
  case True
  then show ?thesis using render_uint_numeral [of 10 "- w"]
    by (intro exI [of _ "unat (- w)"] exI [of _ "render_uint 10 (- w)"]) (simp add: render_int_def)
next
  case False
  then show ?thesis using render_uint_numeral [of 10 w]
    by (intro exI [of _ "unat w"] exI [of _ "render_uint 10 w"]) (simp add: render_int_def)
qed

lemma render_ll_cases:
  "\<exists>n ds. numeral_for 10 n ds \<and> (render_ll v = ds \<and> of_nat n = v \<or> render_ll v = 45 # ds \<and> - of_nat n = v)"
proof (cases "sint v < 0")
  case True
  then show ?thesis using render_ull_numeral [of "- v"]
    by (intro exI [of _ "unat (- v)"] exI [of _ "render_ull (- v)"]) (simp add: render_ll_def)
next
  case False
  then show ?thesis using render_ull_numeral [of v]
    by (intro exI [of _ "unat v"] exI [of _ "render_ull v"]) (simp add: render_ll_def)
qed

lemma format_d:
  "vformat (lit ''%d'') [AWord w] = Some (render_int w)"
  "kformat (lit ''%d'') [AWord w] = Some (render_int w)"
  "dformat (lit ''%d'') [AWord w] = Some (render_int w)"
  by (simp_all add: lit_def parse_spec_def skip_char_def parse_precision_def parse_length_def
      convert_def layout_dec_def pad_def render_int_def simple_conv_def)

lemma format_u:
  "vformat (lit ''%u'') [AWord w] = Some (render_uint 10 w)"
  "kformat (lit ''%u'') [AWord w] = Some (render_uint 10 w)"
  "dformat (lit ''%u'') [AWord w] = Some (render_uint 10 w)"
  by (simp_all add: lit_def parse_spec_def skip_char_def parse_precision_def parse_length_def
      convert_def layout_dec_def pad_def simple_conv_def)

lemma format_lld: "vformat (lit ''%lld'') [ALong v] = Some (render_ll v)"
  by (simp add: lit_def parse_spec_def skip_char_def parse_precision_def parse_length_def
      convert_def layout_dec_def pad_def render_ll_def)

lemma format_llu: "vformat (lit ''%llu'') [ALong v] = Some (render_ull v)"
  by (simp add: lit_def parse_spec_def skip_char_def parse_precision_def parse_length_def
      convert_def layout_dec_def pad_def)

text \<open>
  C31. Numbers survive printing and parsing, over the whole range of their type and with any
  text behind them that does not go on with a digit: \<open>strtoull\<close> and \<open>strtoll\<close> read back what
  \<open>vsnprintf\<close> prints for \<open>%llu\<close> and \<open>%lld\<close>, \<open>strtoul\<close> and \<open>sscanf\<close> what the three formatters
  of kernel and library agree to print for \<open>%u\<close>, and \<open>strtol\<close>, \<open>atoi\<close> and \<open>sscanf\<close> what they
  agree to print for \<open>%d\<close>, although all of them work on 32 bits and halves of that.
\<close>

theorem numbers_round_trip:
  assumes "stops 10 rest"
  shows "(\<exists>s. vformat (lit ''%llu'') [ALong v] = Some s \<and> strtoull (s @ rest) 10 = (v, rest)) \<and>
    (\<exists>s. vformat (lit ''%lld'') [ALong v] = Some s \<and> strtoll (s @ rest) 10 = (v, rest)) \<and>
    (\<exists>s. vformat (lit ''%u'') [AWord w] = Some s \<and> dformat (lit ''%u'') [AWord w] = Some s \<and>
      kformat (lit ''%u'') [AWord w] = Some s \<and>
      strtoul (s @ rest) 10 = (w, rest) \<and> sscanf s (lit ''%u'') = (1, [SWord w])) \<and>
    (\<exists>s. vformat (lit ''%d'') [AWord w] = Some s \<and> dformat (lit ''%d'') [AWord w] = Some s \<and>
      kformat (lit ''%d'') [AWord w] = Some s \<and>
      strtol (s @ rest) 10 = (w, rest) \<and> atoi (s @ rest) = w \<and> sscanf s (lit ''%d'') = (1, [SWord w]))"
proof (intro conjI)
  show "\<exists>s. vformat (lit ''%llu'') [ALong v] = Some s \<and> strtoull (s @ rest) 10 = (v, rest)"
    using strtoull_numeral [OF render_ull_numeral assms, of v] by (simp add: format_llu)
  obtain n ds where "numeral_for 10 n ds"
    "render_ll v = ds \<and> of_nat n = v \<or> render_ll v = 45 # ds \<and> - of_nat n = v"
    using render_ll_cases [of v] by blast
  then show "\<exists>s. vformat (lit ''%lld'') [ALong v] = Some s \<and> strtoll (s @ rest) 10 = (v, rest)"
    using strtoll_numeral [OF _ assms] by (auto simp: format_lld)
  show "\<exists>s. vformat (lit ''%u'') [AWord w] = Some s \<and> dformat (lit ''%u'') [AWord w] = Some s \<and>
      kformat (lit ''%u'') [AWord w] = Some s \<and>
      strtoul (s @ rest) 10 = (w, rest) \<and> sscanf s (lit ''%u'') = (1, [SWord w])"
    using render_uint_numeral [of 10 w] strtoul_numeral [OF _ assms] sscanf_unsigned by (simp add: format_u)
  obtain m es where "numeral_for 10 m es"
    "render_int w = es \<and> of_nat m = w \<or> render_int w = 45 # es \<and> - of_nat m = w"
    using render_int_cases [of w] by blast
  then show "\<exists>s. vformat (lit ''%d'') [AWord w] = Some s \<and> dformat (lit ''%d'') [AWord w] = Some s \<and>
      kformat (lit ''%d'') [AWord w] = Some s \<and>
      strtol (s @ rest) 10 = (w, rest) \<and> atoi (s @ rest) = w \<and> sscanf s (lit ''%d'') = (1, [SWord w])"
    using strtol_numeral [OF _ assms] atoi_numeral [OF _ assms] sscanf_numeral
    by (auto simp: format_d)
qed

lemma numbers_round_trip_witness:
  "\<exists>s. vformat (lit ''%lld'') [ALong (- 9223372036854775808)] = Some s \<and>
     strtoll (s @ [32]) 10 = (- 9223372036854775808, [32])"
proof -
  have "stops 10 [32]" by (simp add: stops_def is_digit_def digit_val_def)
  from numbers_round_trip [OF this, of "- 9223372036854775808"] show ?thesis by blast
qed

text \<open>
  Two inputs on which the parsers differ from the C standard: with base 0 the digit of \<open>0\<close> is
  taken for a prefix, so no conversion is reported; and a blank may follow the sign.
\<close>

lemma strtoul_zero: "strtoul (lit ''0'') 0 = (0, lit ''0'')"
  by (simp add: strtoul_def lit_def isspace_def skip_plus_def settle_base_def is_x_def)

lemma strtol_blank_after_sign: "strtol (lit ''- 5'') 10 = (- 5, [])"
  by (simp add: strtol_def strtoul_def lit_def isspace_def skip_plus_def digit_val_def Let_def)

section \<open>The bounded buffer\<close>

lemma emit_str_spec:
  assumes "emit_str limit s (buf, p) = (buf', p')"
  shows "p' = p + length s"
    and "buf' i = (if p \<le> i \<and> i < p + length s \<and> int i < limit - 1 then s ! (i - p) else buf i)"
  using assms
proof (induction s arbitrary: buf p)
  case Nil
  { case 1 then show ?case by (simp add: emit_str_def) }
  { case 2 then show ?case by (auto simp: emit_str_def) }
next
  case (Cons c s)
  { case 1
    then have "emit_str limit s (if int p < limit - 1 then buf(p := c) else buf, Suc p) = (buf', p')" 
      by (simp add: emit_str_def emit_char_def)
    from Cons.IH(1) [OF this] show ?case by simp }
  { case 2
    then have "emit_str limit s (if int p < limit - 1 then buf(p := c) else buf, Suc p) = (buf', p')" 
      by (simp add: emit_str_def emit_char_def)
    from Cons.IH(2) [OF this] show ?case by (auto simp: nth_Cons' not_less_eq_eq) }
qed

text \<open>
  C32. \<open>vsnprintf\<close> into a buffer of a positive size returns the length of the whole text,
  stores as much of its front as fits together with a terminating NUL, and leaves every byte
  from the size on alone, whatever the format and the arguments are.
\<close>

theorem vsnprintf_bounded:
  assumes "vsnprintf buf sz fmt as = Some (buf', n)" and "0 < sint sz"
  shows "\<exists>out. vformat fmt as = Some out \<and> n = length out \<and>
    (\<forall>i < min n (unat sz - 1). buf' i = out ! i) \<and> buf' (min n (unat sz - 1)) = 0 \<and>
    (\<forall>i \<ge> unat sz. buf' i = buf i)"
proof -
  define k where "k = unat sz"
  have sz: "sint sz = int k"
    using assms(2) sint_lt [of sz] by (simp add: k_def uint_sint take_bit_eq_mod)
  then have k: "0 < k" using assms(2) by simp
  obtain out b p where out: "vformat fmt as = Some out" "emit_str (sint sz) out (buf, 0) = (b, p)"
    "terminate (sint sz) (b, p) = (buf', n)"
    using assms(1) by (auto simp: vsnprintf_def) (metis prod.exhaust)
  note e = emit_str_spec [OF out(2)]
  have "n = length out" "buf' = b(min n (k - 1) := 0)"
    using out(3) e(1) k by (auto simp: terminate_def sz min_def nat_diff_distrib' split: if_splits
        intro!: arg_cong [where f = "\<lambda>j. b(j := 0)"])
  then show ?thesis using out(1) e(2) k unfolding k_def [symmetric] by (auto simp: sz)
qed

theorem vsnprintf_bounded_witness:
  "\<exists>b. vsnprintf (\<lambda>_. 7) 3 [97, 98, 37, 100] [AWord 12] = Some (b, 4) \<and> b 1 = 98 \<and> b 2 = 0 \<and> b 3 = 7"
proof -
  have f: "vformat [97, 98, 37, 100] [AWord 12] = Some [97, 98, 49, 50]" by code_simp
  then obtain b n where v: "vsnprintf (\<lambda>_. 7) 3 [97, 98, 37, 100] [AWord 12] = Some (b, n)"
    by (cases "terminate (sint (3 :: u32)) (emit_str (sint (3 :: u32)) [97, 98, 49, 50] (\<lambda>_. 7, 0))") (simp add: vsnprintf_def)
  from vsnprintf_bounded [OF v] f
  have "n = 4" "b 1 = [97, 98, 49, 50] ! 1" "b 2 = 0" "b 3 = 7"
    by (auto simp: min_def)
  with v show ?thesis by simp
qed

end
