(* ===== verification/Mkfs.thy ===== *)
theory Mkfs
  imports Fs_Layout
begin

text \<open>
  The image builder tools/mkfs.c. The state is the image file, as blocks, and the file-scope
  counters; host files are pairs of a name and contents, and \<open>time(NULL)\<close> is a parameter.
  Inodes, directory entries and the superblock have the kernel's layout, which the tool
  repeats; its own records are taken from \<open>Fs\<close>.

  \<open>None\<close> stands for what C leaves undefined: the tool goes on with inode number 0 when the
  inodes are used up, and stores beyond the indirect block of a file of more than 524 blocks.
\<close>

section \<open>The image\<close>

record mk =
  mk_img :: "nat \<Rightarrow> block"
  mk_nblocks :: int
  mk_ninodes :: int
  next_free_blk :: u16
  next_inode :: u16

definition write_block :: "nat \<Rightarrow> block \<Rightarrow> mk \<Rightarrow> mk" where
  "write_block b d m = m\<lparr>mk_img := (mk_img m)(b := d)\<rparr>"

definition alloc_block :: "mk \<Rightarrow> u16 \<times> mk" where
  "alloc_block m =
     (if uint (next_free_blk m) \<ge> mk_nblocks m then (0, m)
      else (next_free_blk m, m\<lparr>next_free_blk := next_free_blk m + 1\<rparr>))"

definition alloc_inode :: "mk \<Rightarrow> u16 \<times> mk" where
  "alloc_inode m =
     (if uint (next_inode m) > mk_ninodes m then (0, m)
      else (next_inode m, m\<lparr>next_inode := next_inode m + 1\<rparr>))"

text \<open>The fields as the kernel lays them out, and ten zero bytes behind them.\<close>

definition write_inode :: "u16 \<Rightarrow> disk_inode \<Rightarrow> mk \<Rightarrow> mk option" where
  "write_inode n di m =
     (if n = 0 then None
      else let blk = 1 + (unat n - 1) div INODES_PER_BLK;
               off = ((unat n - 1) mod INODES_PER_BLK) * 48;
               b = put_dinode di off (mk_img m blk)
           in Some (write_block blk (\<lambda>i. if off + 38 \<le> i \<and> i < off + 48 then 0 else b i) m))"

definition reread_inode :: "u16 \<Rightarrow> mk \<Rightarrow> disk_inode" where
  "reread_inode n m =
     get_dinode (mk_img m (1 + (unat n - 1) div INODES_PER_BLK)) (((unat n - 1) mod INODES_PER_BLK) * 48)"

section \<open>Directories\<close>

text \<open>A block of bytes with a list stored at an offset.\<close>

definition store_at :: "nat \<Rightarrow> bytes \<Rightarrow> block \<Rightarrow> block" where
  "store_at off bs b = (\<lambda>i. if off \<le> i \<and> i < off + length bs then bs ! (i - off) else b i)"

text \<open>
  A directory entry; the directory's inode is passed along and written back. The block index
  is the kernel's, 32 entries to a block, and a directory has direct blocks only.
\<close>

definition add_dirent :: "u16 \<Rightarrow> disk_inode \<Rightarrow> bytes \<Rightarrow> u16 \<Rightarrow> mk \<Rightarrow> (disk_inode \<times> mk) option" where
  "add_dirent dir di name child m =
     (let entry_idx = unat (d_size di) div 32;
          blk_idx = entry_idx div 32
      in if blk_idx \<ge> 12 then Some (di, m)
         else
           let (di1, m1) =
                 (if d_direct di blk_idx = 0
                  then case alloc_block m of (b, m1) \<Rightarrow>
                         (di\<lparr>d_direct := (d_direct di)(blk_idx := b)\<rparr>, write_block (unat b) (\<lambda>_. 0) m1)
                  else (di, m));
               blk = unat (d_direct di1 blk_idx);
               m2 = write_block blk (store_at ((entry_idx mod 32) * 32)
                      (dirent_bytes \<lparr>de_inode = child, de_name = name_buf name\<rparr>) (mk_img m1 blk)) m1;
               di2 = di1\<lparr>d_size := d_size di1 + 32\<rparr>
           in map_option (Pair di2) (write_inode dir di2 m2))"

definition new_inode :: "u8 \<Rightarrow> u8 \<Rightarrow> u32 \<Rightarrow> disk_inode" where
  "new_inode t links now = \<lparr>d_type = t, d_nlink = links, d_major = 0, d_minor = 0, d_size = 0,
     d_mtime = now, d_direct = (\<lambda>_. 0), d_indirect = 0\<rparr>"

definition make_devnode ::
  "u32 \<Rightarrow> u16 \<Rightarrow> disk_inode \<Rightarrow> bytes \<Rightarrow> u8 \<Rightarrow> u8 \<Rightarrow> mk \<Rightarrow> (disk_inode \<times> mk) option" where
  "make_devnode now dir di name major minor m =
     (case alloc_inode m of (n, m1) \<Rightarrow>
        Option.bind (write_inode n ((new_inode FT_DEV 1 now)\<lparr>d_major := major, d_minor := minor\<rparr>) m1)
          (add_dirent dir di name n))"

definition make_subdir ::
  "u32 \<Rightarrow> u16 \<Rightarrow> disk_inode \<Rightarrow> bytes \<Rightarrow> mk \<Rightarrow> (u16 \<times> disk_inode \<times> mk) option" where
  "make_subdir now parent pdi name m =
     (case alloc_inode m of (n, m1) \<Rightarrow>
        Option.bind (write_inode n (new_inode FT_DIR 2 now) m1) (\<lambda>m2.
        Option.bind (add_dirent n (new_inode FT_DIR 2 now) [46] n m2) (\<lambda>(di1, m3).
        Option.bind (add_dirent n di1 [46, 46] parent m3) (\<lambda>(di2, m4).
        map_option (\<lambda>(pdi1, m5). (n, pdi1, m5)) (add_dirent parent pdi name n m4)))))"

section \<open>Files\<close>

text \<open>
  The loop over the contents, a block at a time. The number of a block from the twelfth on
  goes into the indirect block, which is read and written each time.
\<close>

function add_blocks :: "bytes \<Rightarrow> nat \<Rightarrow> disk_inode \<Rightarrow> mk \<Rightarrow> (disk_inode \<times> mk) option" where
  "add_blocks content k di m =
     (if content = [] then Some (di, m)
      else case alloc_block m of (b, m1) \<Rightarrow>
        let buf = store_at 0 (take BLOCK_SIZE content) (\<lambda>_. 0)
        in if k < 12
           then add_blocks (drop BLOCK_SIZE content) (Suc k) (di\<lparr>d_direct := (d_direct di)(k := b)\<rparr>)
                  (write_block (unat b) buf m1)
           else if k < 12 + 512
           then let ind = unat (d_indirect di);
                    m2 = write_block ind (put16 (mk_img m1 ind) ((k - 12) * 2) b) m1
                in add_blocks (drop BLOCK_SIZE content) (Suc k) di (write_block (unat b) buf m2)
           else None)"
  by pat_completeness auto
termination
  by (relation "measure (\<lambda>(content, k, di, m). length content)") auto

declare add_blocks.simps [simp del]

text \<open>The indirect block comes first, so that the data blocks are contiguous.\<close>

definition reserve_indirect :: "nat \<Rightarrow> disk_inode \<Rightarrow> mk \<Rightarrow> disk_inode \<times> mk" where
  "reserve_indirect needed di m =
     (if 12 < needed
      then case alloc_block m of (b, m1) \<Rightarrow> (di\<lparr>d_indirect := b\<rparr>, write_block (unat b) (\<lambda>_. 0) m1)
      else (di, m))"

definition add_file :: "u32 \<Rightarrow> u16 \<Rightarrow> disk_inode \<Rightarrow> bytes \<times> bytes \<Rightarrow> mk \<Rightarrow> (disk_inode \<times> mk) option" where
  "add_file now dir ddi file m =
     (case file of (name, content) \<Rightarrow> case alloc_inode m of (n, m1) \<Rightarrow>
      case reserve_indirect ((length content + BLOCK_SIZE - 1) div BLOCK_SIZE)
             ((new_inode FT_FILE 1 now)\<lparr>d_size := of_nat (length content)\<rparr>) m1 of (di1, m2) \<Rightarrow>
        Option.bind (add_blocks content 0 di1 m2) (\<lambda>(di2, m3).
        Option.bind (write_inode n di2 m3) (add_dirent dir ddi name n)))"

section \<open>The whole image\<close>

definition start_image :: "int \<Rightarrow> mk" where
  "start_image nblocks =
     (let ninodes = (let n = nblocks div 4 in if n < 16 then 16 else if 1024 < n then 1024 else n);
          inode_blks = (ninodes * 48 + 1023) div 1024
      in \<lparr>mk_img = (\<lambda>_ _. 0), mk_nblocks = nblocks, mk_ninodes = ninodes,
          next_free_blk = of_int (1 + inode_blks), next_inode = 1\<rparr>)"

text \<open>Each file is added to \<open>/bin\<close>, whose inode is read again from the image.\<close>

fun add_files :: "u32 \<Rightarrow> u16 \<Rightarrow> (bytes \<times> bytes) list \<Rightarrow> mk \<Rightarrow> mk option" where
  "add_files now bin [] m = Some m"
| "add_files now bin (f # fs) m =
     Option.bind (add_file now bin (reread_inode bin m) f m) (\<lambda>(_, m1). add_files now bin fs m1)"

text \<open>The tree: \<open>/\<close>, \<open>/bin\<close>, \<open>/dev\<close>, \<open>/tmp\<close>, \<open>/dev/vdp\<close> and the files.\<close>

definition fill_image :: "u32 \<Rightarrow> (bytes \<times> bytes) list \<Rightarrow> mk \<Rightarrow> mk option" where
  "fill_image now fs m =
     (case alloc_inode m of (root, m1) \<Rightarrow>
        Option.bind (write_inode root (new_inode FT_DIR 2 now) m1) (\<lambda>m2.
        Option.bind (add_dirent root (new_inode FT_DIR 2 now) [46] root m2) (\<lambda>(r1, m3).
        Option.bind (add_dirent root r1 [46, 46] root m3) (\<lambda>(r2, m4).
        Option.bind (make_subdir now root r2 [98, 105, 110] m4) (\<lambda>(bin, r3, m5).
        Option.bind (make_subdir now root r3 [100, 101, 118] m5) (\<lambda>(dev, r4, m6).
        Option.bind (make_subdir now root r4 [116, 109, 112] m6) (\<lambda>(_, r5, m7).
        Option.bind (make_devnode now dev (reread_inode dev m7) [118, 100, 112] 2 0 m7) (\<lambda>(_, m8).
        add_files now bin fs m8))))))))"

text \<open>The free list, from the last block down: \<open>k\<close> blocks from \<open>lo\<close> on.\<close>

primrec free_list :: "nat \<Rightarrow> nat \<Rightarrow> (nat \<Rightarrow> block) \<Rightarrow> u16 \<times> (nat \<Rightarrow> block)" where
  "free_list lo 0 img = (0, img)"
| "free_list lo (Suc k) img =
     (case free_list (Suc lo) k img of (head, img1) \<Rightarrow>
        (of_nat lo, img1(lo := put16 (\<lambda>_. 0) 0 head)))"

definition mkfs :: "int \<Rightarrow> u32 \<Rightarrow> (bytes \<times> bytes) list \<Rightarrow> (nat \<Rightarrow> block) option" where
  "mkfs nblocks now fs =
     (if nblocks < 16 then None
      else map_option (\<lambda>m.
        let lo = unat (next_free_blk m);
            (head, img1) = free_list lo (nat nblocks - lo) (mk_img m);
            s = \<lparr>sb_magic = MINIFS_MAGIC, sb_block_size = 1024, sb_nblocks = of_int nblocks,
                 sb_ninodes = of_int (mk_ninodes m), sb_free_list = head,
                 sb_free_inodes = of_int (mk_ninodes m) - (next_inode m - 1), sb_pad = 0, sb_mtime = now\<rparr>
        in img1(0 := put_sb s (\<lambda>_. 0))) (fill_image now fs (start_image nblocks)))"

end
