(* ===== verification/Mkfs_Correct.thy ===== *)
theory Mkfs_Correct
  imports Mkfs
begin

text \<open>
  What the image builder promises to the kernel and to romfix: an image that the kernel mounts,
  with every block that was not handed out on its free list, and files in contiguous blocks.
\<close>

section \<open>The free list\<close>

lemma free_list_chain:
  assumes "free_list lo k img = (h, img1)" and "0 < lo" and "lo + k \<le> 65536"
  shows "free_chain (\<lambda>b. img1 (unat b)) h (map of_nat [lo..<lo + k]) \<and>
    (\<forall>i. i < lo \<or> lo + k \<le> i \<longrightarrow> img1 i = img i)"
  using assms
proof (induction k arbitrary: lo h img1)
  case 0
  then show ?case by simp
next
  case (Suc k)
  obtain h0 img0 where f: "free_list (Suc lo) k img = (h0, img0)" by fastforce
  from Suc.prems f have h: "h = of_nat lo" and i1: "img1 = img0(lo := put16 (\<lambda>_. 0) 0 h0)" by auto
  have lo: "unat (of_nat lo :: u16) = lo"
    using Suc.prems by (simp add: unsigned_of_nat take_bit_eq_mod)
  have ne: "(of_nat lo :: u16) \<noteq> 0"
    using lo Suc.prems(2) by (metis less_irrefl unat_0)
  note IH = Suc.IH [OF f]
  have eq: "(\<lambda>b :: u16. img1 (unat b)) = (\<lambda>b. img0 (unat b))(of_nat lo := put16 (\<lambda>_. 0) 0 h0)"
    using lo by (auto simp: i1 fun_eq_iff)
  have notin: "(of_nat lo :: u16) \<notin> set (map of_nat [Suc lo..<Suc lo + k])"
  proof
    assume "(of_nat lo :: u16) \<in> set (map of_nat [Suc lo..<Suc lo + k])"
    then obtain j where j: "j \<in> set [Suc lo..<Suc lo + k]" "(of_nat lo :: u16) = of_nat j"
      by (simp only: set_map) blast
    then have lj: "lo < j" "j < 65536" using Suc.prems(3) by auto
    then have "unat (of_nat j :: u16) = j" by (simp add: unsigned_of_nat take_bit_eq_mod)
    with lo lj j(2) show False by simp
  qed
  have up: "[lo..<lo + Suc k] = lo # [Suc lo..<Suc lo + k]" by (simp add: upt_conv_Cons)
  show ?case
    unfolding up eq h using IH Suc.prems notin ne
    by (auto simp: free_chain_upd i1)
qed

section \<open>Allocation only moves forward\<close>

definition advances :: "mk \<Rightarrow> mk \<Rightarrow> bool" where
  "advances m m' \<longleftrightarrow> mk_nblocks m' = mk_nblocks m \<and> mk_ninodes m' = mk_ninodes m \<and>
     (mk_nblocks m \<le> 65535 \<longrightarrow> next_free_blk m \<le> next_free_blk m') \<and>
     (mk_ninodes m \<le> 1024 \<longrightarrow> uint (next_inode m) \<le> mk_ninodes m + 1 \<longrightarrow>
        uint (next_inode m') \<le> mk_ninodes m + 1)"

lemma advances_refl [simp]: "advances m m"
  by (simp add: advances_def)

lemma advances_trans [trans]: "advances m m1 \<Longrightarrow> advances m1 m2 \<Longrightarrow> advances m m2"
  by (auto simp: advances_def)

lemma write_block_advances [simp]: "advances m (write_block b d m') = advances m m'"
  "advances (write_block b d m) m' = advances m m'"
  by (simp_all add: advances_def write_block_def)

lemma word_succ_ge: "uint (w :: u16) < 65535 \<Longrightarrow> w \<le> w + 1"
  by (simp add: word_le_def uint_word_ariths)

lemma alloc_block_advances: "alloc_block m = (b, m') \<Longrightarrow> advances m m'"
  using word_succ_ge [of "next_free_blk m"]
  by (auto simp: alloc_block_def advances_def split: if_splits)

lemma alloc_inode_advances: "alloc_inode m = (n, m') \<Longrightarrow> advances m m'"
  by (auto simp: alloc_inode_def advances_def uint_word_ariths split: if_splits)

lemma write_inode_advances: "write_inode n di m = Some m' \<Longrightarrow> advances m m'"
  by (auto simp: write_inode_def Let_def split: if_splits)

lemma add_dirent_advances: "add_dirent dir di nm n m = Some (di', m') \<Longrightarrow> advances m m'"
  by (auto simp: add_dirent_def Let_def split: if_splits prod.splits
      dest!: write_inode_advances alloc_block_advances elim!: advances_trans)

lemma add_blocks_advances: "add_blocks c k di m = Some (di', m') \<Longrightarrow> advances m m'"
proof (induction c k di m rule: add_blocks.induct)
  case (1 c k di m)
  show ?case
  proof (cases "c = []")
    case True
    with 1(3) show ?thesis by (simp add: add_blocks.simps)
  next
    case False
    obtain b m1 where a: "alloc_block m = (b, m1)" by fastforce
    note IH = 1(1) [OF False a [symmetric] refl] and IH2 = 1(2) [OF False a [symmetric] refl _ _ refl refl]
    have "advances m1 m'"
      using 1(3) [unfolded add_blocks.simps [of c k di m]] IH IH2 a False
      by (auto simp: Let_def split: if_splits)
    with alloc_block_advances [OF a] show ?thesis by (rule advances_trans)
  qed
qed

lemma reserve_indirect_advances: "reserve_indirect k di m = (di', m') \<Longrightarrow> advances m m'"
  by (auto simp: reserve_indirect_def split: if_splits prod.splits dest!: alloc_block_advances)

lemma add_file_advances: "add_file now dir ddi f m = Some (d', m') \<Longrightarrow> advances m m'"
  by (auto simp: add_file_def Option.bind_eq_Some_conv split: prod.splits
      dest!: write_inode_advances reserve_indirect_advances alloc_inode_advances add_dirent_advances
        add_blocks_advances elim!: advances_trans)

lemma make_subdir_advances: "make_subdir now p pdi nm m = Some (n, pdi', m') \<Longrightarrow> advances m m'"
  by (auto simp: make_subdir_def Option.bind_eq_Some_conv split: prod.splits
      dest!: write_inode_advances alloc_inode_advances add_dirent_advances elim!: advances_trans)

lemma make_devnode_advances: "make_devnode now dir di nm ma mi m = Some (di', m') \<Longrightarrow> advances m m'"
  by (auto simp: make_devnode_def Option.bind_eq_Some_conv split: prod.splits
      dest!: write_inode_advances alloc_inode_advances add_dirent_advances elim!: advances_trans)

lemma add_files_advances: "add_files now bin fs m = Some m' \<Longrightarrow> advances m m'"
  by (induction fs arbitrary: m)
    (auto simp: Option.bind_eq_Some_conv dest!: add_file_advances elim: advances_trans)

lemma fill_image_advances: "fill_image now fs m = Some m' \<Longrightarrow> advances m m'"
  by (auto simp: fill_image_def Option.bind_eq_Some_conv split: prod.splits
      dest!: write_inode_advances alloc_inode_advances add_dirent_advances make_subdir_advances
        make_devnode_advances add_files_advances elim!: advances_trans)

section \<open>The builder succeeds\<close>

text \<open>\<open>k\<close> more inodes can be allocated.\<close>

definition inodes_left :: "mk \<Rightarrow> nat \<Rightarrow> bool" where
  "inodes_left m k \<longleftrightarrow> next_inode m \<noteq> 0 \<and> uint (next_inode m) + int k \<le> mk_ninodes m + 1 \<and> mk_ninodes m \<le> 1024"

lemma inodes_left_write [simp]: "inodes_left (write_block b d m) k = inodes_left m k"
  by (simp add: inodes_left_def write_block_def)

lemma alloc_block_left: "alloc_block m = (b, m1) \<Longrightarrow> inodes_left m1 k = inodes_left m k"
  by (auto simp: alloc_block_def inodes_left_def split: if_splits)

lemma alloc_inode_left:
  assumes "alloc_inode m = (n, m1)" and "inodes_left m (Suc k)"
  shows "n \<noteq> 0 \<and> inodes_left m1 k"
proof -
  have b: "uint (next_inode m) \<le> 1024" using assms(2) by (simp add: inodes_left_def)
  then have u: "uint (next_inode m + 1) = uint (next_inode m) + 1" by (simp add: uint_word_ariths)
  moreover have "next_inode m + 1 \<noteq> 0"
  proof
    assume "next_inode m + 1 = 0"
    then have "uint (next_inode m + 1) = 0" by simp
    with u uint_nonnegative [of "next_inode m"] show False by linarith
  qed
  ultimately show ?thesis using assms by (auto simp: alloc_inode_def inodes_left_def split: if_splits)
qed

lemma write_inode_left: "n \<noteq> 0 \<Longrightarrow> inodes_left m k \<Longrightarrow> \<exists>m'. write_inode n di m = Some m' \<and> inodes_left m' k"
  by (simp add: write_inode_def Let_def)

lemma add_dirent_left:
  assumes "dir \<noteq> 0" and "inodes_left m k"
  shows "\<exists>di' m'. add_dirent dir di nm n m = Some (di', m') \<and> inodes_left m' k"
proof -
  obtain b m1 where a: "alloc_block m = (b, m1)" by fastforce
  show ?thesis
    using assms(1) assms(2) alloc_block_left [OF a, of k]
    by (auto simp: add_dirent_def Let_def a write_inode_def)
qed

lemma add_blocks_left:
  "length c \<le> (524 - k) * 1024 \<Longrightarrow> inodes_left m j \<Longrightarrow>
     \<exists>di' m'. add_blocks c k di m = Some (di', m') \<and> inodes_left m' j"
proof (induction c k di m rule: add_blocks.induct)
  case (1 c k di m)
  show ?case
  proof (cases "c = []")
    case True
    with 1(4) show ?thesis by (simp add: add_blocks.simps)
  next
    case False
    obtain b m1 where a: "alloc_block m = (b, m1)" by fastforce
    note IH = 1(1) [OF False a [symmetric] refl] and IH2 = 1(2) [OF False a [symmetric] refl _ _ refl refl]
    have k: "k < 524" using 1(3) False by (cases "k < 524") auto
    have l: "length (drop 1024 c) \<le> (524 - Suc k) * 1024"
      using 1(3) by (simp add: diff_mult_distrib)
    show ?thesis
      unfolding add_blocks.simps [of c k di m]
      using False IH IH2 a k l 1(4) alloc_block_left [OF a, of j] by (auto simp: Let_def)
  qed
qed

lemma add_file_left:
  assumes "length (snd f) \<le> 524 * 1024" and "dir \<noteq> 0" and "inodes_left m (Suc k)"
  shows "\<exists>di' m'. add_file now dir ddi f m = Some (di', m') \<and> inodes_left m' k"
proof -
  obtain nm c where f: "f = (nm, c)" by fastforce
  obtain n m1 where n: "alloc_inode m = (n, m1)" by fastforce
  note n' = alloc_inode_left [OF n assms(3)]
  obtain di1 m2 where d: "reserve_indirect ((1023 + length c) div 1024)
      ((new_inode FT_FILE 1 now)\<lparr>d_size := of_nat (length c)\<rparr>) m1 = (di1, m2)" by fastforce
  have "inodes_left m2 k"
    using d n' by (auto simp: reserve_indirect_def alloc_block_left split: if_splits prod.splits)
  then obtain di2 m3 where b: "add_blocks c 0 di1 m2 = Some (di2, m3)" "inodes_left m3 k"
    using add_blocks_left [of c 0 m2 k di1] assms(1) f by auto
  obtain m4 where w: "write_inode n di2 m3 = Some m4" "inodes_left m4 k"
    using write_inode_left b(2) n' by blast
  obtain di' m' where "add_dirent dir ddi nm n m4 = Some (di', m')" "inodes_left m' k"
    using add_dirent_left [OF assms(2) w(2)] by blast
  then show ?thesis using n d b w by (simp add: add_file_def f)
qed

lemma add_files_left:
  "\<forall>f \<in> set fs. length (snd f) \<le> 524 * 1024 \<Longrightarrow> bin \<noteq> 0 \<Longrightarrow> inodes_left m (length fs) \<Longrightarrow>
     \<exists>m'. add_files now bin fs m = Some m'"
proof (induction fs arbitrary: m)
  case (Cons f fs)
  from Cons.prems have "\<exists>di' m'. add_file now bin (reread_inode bin m) f m = Some (di', m') \<and> inodes_left m' (length fs)"
    by (intro add_file_left) auto
  then show ?case using Cons by fastforce
qed simp

lemma make_subdir_left:
  assumes "p \<noteq> 0" and "inodes_left m (Suc k)"
  shows "\<exists>n pdi' m'. make_subdir now p pdi nm m = Some (n, pdi', m') \<and> n \<noteq> 0 \<and> inodes_left m' k"
proof -
  obtain n m1 where n: "alloc_inode m = (n, m1)" by fastforce
  note n' = alloc_inode_left [OF n assms(2)]
  obtain m2 where w: "write_inode n (new_inode FT_DIR 2 now) m1 = Some m2" "inodes_left m2 k"
    using write_inode_left n' by blast
  obtain d1 m3 where d1: "add_dirent n (new_inode FT_DIR 2 now) [46] n m2 = Some (d1, m3)" "inodes_left m3 k"
    using add_dirent_left w(2) n' by blast
  obtain d2 m4 where d2: "add_dirent n d1 [46, 46] p m3 = Some (d2, m4)" "inodes_left m4 k"
    using add_dirent_left d1(2) n' by blast
  obtain d3 m5 where d3: "add_dirent p pdi nm n m4 = Some (d3, m5)" "inodes_left m5 k"
    using add_dirent_left d2(2) assms(1) by blast
  show ?thesis using n n' w d1 d2 d3 by (simp add: make_subdir_def)
qed

text \<open>
  The builder returns an image for every list of files that leaves five inodes for the
  directories and the device and whose files fit the block map.
\<close>

lemma mkfs_succeeds:
  assumes "16 \<le> nblocks" and "int (length fs) + 5 \<le> mk_ninodes (start_image nblocks)"
    and "\<forall>f \<in> set fs. length (snd f) \<le> 524 * 1024"
  shows "\<exists>img. mkfs nblocks now fs = Some img"
proof -
  let ?k = "length fs"
  let ?m = "start_image nblocks"
  have l: "inodes_left ?m (Suc (Suc (Suc (Suc (Suc ?k)))))"
    using assms(2) by (auto simp: inodes_left_def start_image_def Let_def)
  obtain root m1 where r: "alloc_inode ?m = (root, m1)" by fastforce
  note r' = alloc_inode_left [OF r l]
  obtain m2 where w: "write_inode root (new_inode FT_DIR 2 now) m1 = Some m2" "inodes_left m2 (Suc (Suc (Suc (Suc ?k))))"
    using write_inode_left r' by blast
  obtain r1 m3 where d1: "add_dirent root (new_inode FT_DIR 2 now) [46] root m2 = Some (r1, m3)" "inodes_left m3 (Suc (Suc (Suc (Suc ?k))))"
    using add_dirent_left w(2) r' by blast
  obtain r2 m4 where d2: "add_dirent root r1 [46, 46] root m3 = Some (r2, m4)" "inodes_left m4 (Suc (Suc (Suc (Suc ?k))))"
    using add_dirent_left d1(2) r' by blast
  obtain bin r3 m5 where s1: "make_subdir now root r2 [98, 105, 110] m4 = Some (bin, r3, m5)" "bin \<noteq> 0" "inodes_left m5 (Suc (Suc (Suc ?k)))"
    using make_subdir_left [OF _ d2(2)] r' by blast
  obtain dev r4 m6 where s2: "make_subdir now root r3 [100, 101, 118] m5 = Some (dev, r4, m6)" "dev \<noteq> 0" "inodes_left m6 (Suc (Suc ?k))"
    using make_subdir_left [OF _ s1(3)] r' by blast
  obtain tmp r5 m7 where s3: "make_subdir now root r4 [116, 109, 112] m6 = Some (tmp, r5, m7)" "inodes_left m7 (Suc ?k)"
    using make_subdir_left [OF _ s2(3)] r' by blast
  obtain n m8 where n: "alloc_inode m7 = (n, m8)" by fastforce
  note n' = alloc_inode_left [OF n s3(2)]
  obtain m9 where w2: "write_inode n ((new_inode FT_DEV 1 now)\<lparr>d_major := 2, d_minor := 0\<rparr>) m8 = Some m9" "inodes_left m9 ?k"
    using write_inode_left n' by blast
  obtain d3 m10 where d3: "add_dirent dev (reread_inode dev m7) [118, 100, 112] n m9 = Some (d3, m10)" "inodes_left m10 ?k"
    using add_dirent_left [OF s2(2) w2(2)] by blast
  obtain m11 where a: "add_files now bin fs m10 = Some m11"
    using add_files_left [OF assms(3) s1(2) d3(2)] by blast
  have "fill_image now fs ?m = Some m11"
    using r w d1 d2 s1 s2 s3 n w2 d3 a by (simp add: fill_image_def make_devnode_def)
  then show ?thesis using assms(1) by (simp add: mkfs_def)
qed

section \<open>Mounting\<close>

lemma booted_sel:
  "cache_ok (bc (booted (Workbench img)))"
  "view (bc (booted (Workbench img))) = (\<lambda>b. img (ucast b))"
  "sb (booted (Workbench img)) = get_sb (img 0)"
  "fs_ready (booted (Workbench img)) \<longleftrightarrow> sb_magic (get_sb (img 0)) = MINIFS_MAGIC"
proof -
  define s0 where "s0 = \<lparr>sb = get_sb (\<lambda>_. 0), icache = (\<lambda>_. \<lparr>inum = 0, itype = 0, nlink = 0, dev_major = 0,
     dev_minor = 0, isize = 0, imtime = 0, direct = (\<lambda>_. 0), indirect = 0, irefcount = 0, idirty = False\<rparr>),
     fs_ready = False, bc = blank_cache (Workbench img), ticks = 0\<rparr>"
  have ok: "cache_ok (bc s0)"
    unfolding s0_def by (simp add: blank_cache_def, rule buf_init_ok) (simp add: on_workbench_def)
  have v: "view (bc s0) = (\<lambda>b. img (ucast b))"
    by (simp add: s0_def blank_cache_def buf_init_view) (simp add: view_def pal_disk_read_def fun_eq_iff)
  obtain d s1 where g: "fget 0 s0 = (d, s1)" by fastforce
  note c = fget_contents [OF ok g]
  have b: "booted (Workbench img) = fs_init s0" by (simp add: booted_def s0_def)
  show "cache_ok (bc (booted (Workbench img)))"
    "view (bc (booted (Workbench img))) = (\<lambda>b. img (ucast b))"
    "sb (booted (Workbench img)) = get_sb (img 0)"
    "fs_ready (booted (Workbench img)) \<longleftrightarrow> sb_magic (get_sb (img 0)) = MINIFS_MAGIC"
    using c v by (simp_all add: b fs_init_def g Let_def)
qed

lemma mkfs_mounted:
  assumes "mkfs nblocks now fs = Some img" and "nblocks \<le> 65535"
  shows "\<exists>m s. fill_image now fs (start_image nblocks) = Some m \<and>
    s = booted (Workbench (\<lambda>b. img (unat b))) \<and> fs_ready s \<and>
    uint (sb_nblocks (sb s)) = nblocks \<and>
    uint (sb_ninodes (sb s)) = mk_ninodes (start_image nblocks) \<and>
    sb_free_inodes (sb s) = of_int (mk_ninodes m) - (next_inode m - 1) \<and>
    next_free_blk (start_image nblocks) \<le> next_free_blk m \<and>
    free_blocks s (map of_nat [unat (next_free_blk m)..<nat nblocks]) \<and>
    (\<forall>b. 0 < b \<longrightarrow> b < unat (next_free_blk m) \<longrightarrow> img b = mk_img m b)"
proof -
  obtain m h img1 where n16: "16 \<le> nblocks" and m: "fill_image now fs (start_image nblocks) = Some m"
    and f: "free_list (unat (next_free_blk m)) (nat nblocks - unat (next_free_blk m)) (mk_img m) = (h, img1)"
    and img: "img = img1(0 := put_sb \<lparr>sb_magic = MINIFS_MAGIC, sb_block_size = 1024,
       sb_nblocks = of_int nblocks, sb_ninodes = of_int (mk_ninodes m), sb_free_list = h,
       sb_free_inodes = of_int (mk_ninodes m) - (next_inode m - 1), sb_pad = 0, sb_mtime = now\<rparr> (\<lambda>_. 0))"
    using assms(1) unfolding mkfs_def
    by (cases "fill_image now fs (start_image nblocks)") (auto simp: Let_def split: if_splits prod.splits)
  define lo where "lo = unat (next_free_blk m)"
  define s where "s = booted (Workbench (\<lambda>b. img (unat b)))"
  note bs = booted_sel [of "\<lambda>b. img (unat b)", folded s_def]
  have adv: "advances (start_image nblocks) m" by (rule fill_image_advances [OF m])
  have st: "mk_nblocks (start_image nblocks) = nblocks"
    "16 \<le> mk_ninodes (start_image nblocks) \<and> mk_ninodes (start_image nblocks) \<le> 1024"
    by (auto simp: start_image_def Let_def)
  have nf: "uint (next_free_blk (start_image nblocks)) \<ge> 1"
  proof -
    define k where "k = (mk_ninodes (start_image nblocks) * 48 + 1023) div 1024"
    have k: "0 \<le> k" "k < 100" using st(2) by (auto simp: k_def)
    have a: "next_free_blk (start_image nblocks) = of_int (1 + k)"
      by (simp add: start_image_def Let_def k_def)
    have b: "uint (of_int (1 + k) :: u16) = 1 + k"
      using k by (subst unsigned_of_int) (simp add: take_bit_eq_mod)
    show ?thesis unfolding a b using k(1) by linarith
  qed
  have lo0: "unat (next_free_blk (start_image nblocks)) \<le> lo"
    using adv assms(2) by (simp add: advances_def st lo_def word_le_nat_alt)
  have "next_free_blk (start_image nblocks) \<noteq> 0" using nf by auto
  then have "unat (next_free_blk (start_image nblocks)) \<noteq> 0" by (simp only: unat_eq_zero not_False_eq_True)
  then have lo: "0 < lo" "lo < 65536" using lo0 u16_bound [of "next_free_blk m"]
    unfolding lo_def by linarith+
  have cf: "free_chain (\<lambda>b. img1 (unat b)) h (map of_nat [lo..<lo + (nat nblocks - lo)]) \<and>
    (\<forall>i. i < lo \<or> lo + (nat nblocks - lo) \<le> i \<longrightarrow> img1 i = mk_img m i)"
  proof -
    have "lo + (nat nblocks - lo) \<le> 65536" using lo(2) assms(2) by linarith
    from free_list_chain [OF f [folded lo_def] lo(1) this] show ?thesis .
  qed
  then have ch: "free_chain (\<lambda>b. img1 (unat b)) h (map of_nat [lo..<lo + (nat nblocks - lo)])" by blast
  have kept: "img b = mk_img m b" if "0 < b" "b < lo" for b using that cf by (simp add: img)
  have up: "[lo..<lo + (nat nblocks - lo)] = [lo..<nat nblocks]" by (cases "lo \<le> nat nblocks") auto
  have ni: "mk_ninodes m = mk_ninodes (start_image nblocks)" using adv by (simp add: advances_def)
  have v: "view (bc s) = (\<lambda>b. img1 (unat b))(0 := img 0)"
    by (auto simp: bs img fun_eq_iff unat_eq_zero)
  have sbs: "sb s = \<lparr>sb_magic = MINIFS_MAGIC, sb_block_size = 1024,
       sb_nblocks = of_int nblocks, sb_ninodes = of_int (mk_ninodes m), sb_free_list = h,
       sb_free_inodes = of_int (mk_ninodes m) - (next_inode m - 1), sb_pad = 0, sb_mtime = now\<rparr>"
    by (simp add: bs img get_put_sb)
  have inj: "inj_on (of_nat :: nat \<Rightarrow> u16) {lo..<nat nblocks}"
  proof (rule inj_onI)
    fix i j assume "i \<in> {lo..<nat nblocks}" "j \<in> {lo..<nat nblocks}" "(of_nat i :: u16) = of_nat j"
    then have "unat (of_nat i :: u16) = unat (of_nat j :: u16)" "i < 65536" "j < 65536"
      using assms(2) by auto
    then show "i = j" by (simp add: unsigned_of_nat take_bit_eq_mod)
  qed
  have "free_blocks s (map of_nat [lo..<nat nblocks])"
    unfolding free_blocks_def
    using ch inj free_chain_nonzero [OF ch] by (simp add: up bs(1) v sbs distinct_map free_chain_upd)
  moreover have "fs_ready s" using bs(4) by (simp add: img get_put_sb)
  moreover have "uint (sb_nblocks (sb s)) = nblocks"
    using n16 assms(2) by (simp add: sbs take_bit_eq_mod unsigned_of_int)
  moreover have "uint (sb_ninodes (sb s)) = mk_ninodes (start_image nblocks)"
    using st(2) by (simp add: sbs ni take_bit_eq_mod unsigned_of_int)
  moreover have "sb_free_inodes (sb s) = of_int (mk_ninodes m) - (next_inode m - 1)" by (simp add: sbs)
  ultimately show ?thesis using lo0 kept m s_def
    by (intro exI [of _ m] exI [of _ s]) (simp add: lo_def word_le_nat_alt)
qed


text \<open>
  C30. The kernel mounts every image that mkfs builds for up to 65535 blocks, as the disk of the
  workbench: the superblock it
  reads has the geometry of the image and the number of inodes left over; where \<open>m\<close> is the
  state of mkfs after the last file, its free list is, in order, exactly the blocks from
  \<open>next_free_blk\<close> of \<open>m\<close>, the first one not handed out, to the last of the image, none of them in
  the inode table as mkfs counts it; and every block below but the superblock has the bytes it
  had in \<open>m\<close>.
\<close>

theorem mkfs_mounts:
  assumes "mkfs nblocks now fs = Some img" and "nblocks \<le> 65535"
  shows "\<exists>m s. fill_image now fs (start_image nblocks) = Some m \<and>
    s = booted (Workbench (\<lambda>b. img (unat b))) \<and> fs_ready s \<and>
    uint (sb_nblocks (sb s)) = nblocks \<and>
    uint (sb_ninodes (sb s)) = mk_ninodes (start_image nblocks) \<and>
    sb_free_inodes (sb s) = of_int (mk_ninodes m) - (next_inode m - 1) \<and>
    next_free_blk (start_image nblocks) \<le> next_free_blk m \<and>
    free_blocks s (map of_nat [unat (next_free_blk m)..<nat nblocks]) \<and>
    (\<forall>b. 0 < b \<longrightarrow> b < unat (next_free_blk m) \<longrightarrow> img b = mk_img m b)"
  by (rule mkfs_mounted [OF assms])

lemma mkfs_mounts_witness:
  "\<exists>img m s. mkfs 16 0 [([99], [1, 2, 3])] = Some img \<and> fs_ready s \<and> uint (sb_nblocks (sb s)) = 16 \<and>
     fill_image 0 [([99], [1, 2, 3])] (start_image 16) = Some m \<and>
     free_blocks s (map of_nat [unat (next_free_blk m)..<16])"
proof -
  have "\<exists>img. mkfs 16 0 [([99], [1, 2, 3])] = Some img"
    by (rule mkfs_succeeds) (auto simp: start_image_def)
  then obtain img where img: "mkfs 16 0 [([99], [1, 2, 3])] = Some img" ..
  from mkfs_mounts [OF img] show ?thesis using img by auto
qed

end
