(* ===== verification/Mkfs_Files.thy ===== *)
theory Mkfs_Files
  imports Mkfs_Correct Fs_Names
begin

text \<open>
  Files of a built image: where the blocks of a file are, that later files do not disturb it,
  and that the kernel reads it back.
\<close>

section \<open>Blocks left over\<close>

text \<open>
  Allocation fails only when the blocks are used up, so a state that has a block left at the
  end had one at every earlier moment.
\<close>

definition spare :: "mk \<Rightarrow> bool" where
  "spare m \<longleftrightarrow> unat (next_free_blk m) < nat (mk_nblocks m) \<and> mk_nblocks m \<le> 65535"

lemma uint_ge_iff: "k \<le> uint (x :: u16) \<longleftrightarrow> nat k \<le> unat x"
  by (simp add: nat_le_iff)

abbreviation (input) nf :: "mk \<Rightarrow> nat" where "nf m \<equiv> unat (next_free_blk m)"

lemma spare_before: "advances m m' \<Longrightarrow> spare m' \<Longrightarrow> spare m \<and> nf m \<le> nf m'"
  by (auto simp: spare_def advances_def word_le_nat_alt)

lemma alloc_block_spare:
  assumes "alloc_block m = (b, m1)" and "spare m1"
  shows "b = next_free_blk m \<and> m1 = m\<lparr>next_free_blk := next_free_blk m + 1\<rparr> \<and> nf m1 = nf m + 1"
proof -
  have s: "spare m" using spare_before [OF alloc_block_advances [OF assms(1)] assms(2)] by simp
  then have "nf m < 65535" unfolding spare_def by linarith
  then have "unat (next_free_blk m + 1) = nf m + 1" by (simp add: unat_word_ariths)
  with assms(1) s show ?thesis by (auto simp: alloc_block_def spare_def uint_ge_iff split: if_splits)
qed

lemma spare_write [simp]: "spare (write_block b d m) = spare m"
  "next_free_blk (write_block b d m) = next_free_blk m" "next_inode (write_block b d m) = next_inode m"
  "mk_img (write_block b d m) = (mk_img m)(b := d)"
  by (simp_all add: spare_def write_block_def)

lemma alloc_block_img: "alloc_block m = (b, m1) \<Longrightarrow> mk_img m1 = mk_img m \<and> next_inode m1 = next_inode m"
  by (auto simp: alloc_block_def split: if_splits)

section \<open>Inodes in the table\<close>

definition slot :: "u16 \<Rightarrow> nat" where
  "slot n = 1 + (unat n - 1) div INODES_PER_BLK"

lemma get_dinode_cong_fields:
  "(\<And>a. off \<le> a \<Longrightarrow> a < off + 38 \<Longrightarrow> b a = b' a) \<Longrightarrow> same_dinode (get_dinode b off) (get_dinode b' off)"
  by (simp add: same_dinode_def get_dinode_def get16_def get32_def)

lemma same_dinode_sym: "same_dinode x y \<Longrightarrow> same_dinode y x"
  by (simp add: same_dinode_def)

lemma reread_unchanged: "mk_img m' (slot n) = mk_img m (slot n) \<Longrightarrow> reread_inode n m' = reread_inode n m"
  by (simp add: reread_inode_def slot_def)

lemma write_inode_spec:
  assumes "write_inode n di m = Some m'"
  shows "same_dinode (reread_inode n m') di"
    and "k \<noteq> 0 \<Longrightarrow> k \<noteq> n \<Longrightarrow> same_dinode (reread_inode k m') (reread_inode k m)"
    and "b \<noteq> slot n \<Longrightarrow> mk_img m' b = mk_img m b"
    and "next_free_blk m' = next_free_blk m" and "next_inode m' = next_inode m" and "n \<noteq> 0"
proof -
  define off where "off = ((unat n - 1) mod INODES_PER_BLK) * 48"
  have n: "n \<noteq> 0" and m': "m' = write_block (slot n) (\<lambda>i. if off + 38 \<le> i \<and> i < off + 48 then 0
      else put_dinode di off (mk_img m (slot n)) i) m"
    using assms unfolding write_inode_def Let_def slot_def off_def by (auto split: if_splits)
  show "n \<noteq> 0" by (rule n)
  have "same_dinode (reread_inode n m') (get_dinode (put_dinode di off (mk_img m (slot n))) off)"
    unfolding reread_inode_def slot_def [symmetric] off_def [symmetric]
    by (rule get_dinode_cong_fields) (simp add: m')
  then show "same_dinode (reread_inode n m') di" by (rule same_dinode_trans) (rule get_put_dinode)
  show "b \<noteq> slot n \<Longrightarrow> mk_img m' b = mk_img m b" "next_free_blk m' = next_free_blk m"
    "next_inode m' = next_inode m"
    by (simp_all add: m')
  show "same_dinode (reread_inode k m') (reread_inode k m)" if k: "k \<noteq> 0" "k \<noteq> n"
  proof (cases "slot k = slot n")
    case True
    define ofk where "ofk = ((unat k - 1) mod INODES_PER_BLK) * 48"
    have "unat k \<noteq> 0" "unat n \<noteq> 0" using k n by (simp_all add: unat_eq_zero)
    moreover have "unat k \<noteq> unat n" using k(2) by (simp add: word_unat_eq_iff)
    ultimately have "unat k - 1 \<noteq> unat n - 1" by simp
    with True have "(unat k - 1) mod INODES_PER_BLK \<noteq> (unat n - 1) mod INODES_PER_BLK"
      unfolding slot_def by (metis add_left_cancel div_mult_mod_eq)
    then have d: "ofk + 48 \<le> off \<or> off + 48 \<le> ofk" by (auto simp: ofk_def off_def)
    have same: "mk_img m' (slot k) a = mk_img m (slot k) a" if "ofk \<le> a" "a < ofk + 48" for a
    proof -
      have "a < off \<or> off + 48 \<le> a" using d that by linarith
      then show ?thesis by (auto simp: True m' put_dinode_other)
    qed
    show ?thesis
      unfolding reread_inode_def slot_def [symmetric] ofk_def [symmetric]
      by (rule get_dinode_cong) (rule same)
  next
    case False
    then have "mk_img m' (slot k) = mk_img m (slot k)" by (simp add: m')
    from reread_unchanged [OF this] show ?thesis by simp
  qed
qed

lemma slot_bound: "n \<noteq> 0 \<Longrightarrow> unat n \<le> 21 * t \<Longrightarrow> slot n \<le> t \<and> 1 \<le> slot n"
proof -
  assume "n \<noteq> 0" and le: "unat n \<le> 21 * t"
  then have "unat n \<noteq> 0" by (simp add: unat_eq_zero)
  with le have "unat n - 1 < t * 21" by linarith
  then have "(unat n - 1) div 21 < t" by (rule less_mult_imp_div_less)
  then show ?thesis by (simp add: slot_def)
qed

section \<open>The contents of a file\<close>

definition nblks :: "bytes \<Rightarrow> nat" where
  "nblks c = (length c + 1023) div 1024"

definition chunk :: "bytes \<Rightarrow> nat \<Rightarrow> block" where
  "chunk c k = store_at 0 (take BLOCK_SIZE (drop (k * BLOCK_SIZE) c)) (\<lambda>_. 0)"

definition file_block :: "mk \<Rightarrow> disk_inode \<Rightarrow> nat \<Rightarrow> u16" where
  "file_block m di k = (if k < 12 then d_direct di k else get16 (mk_img m (unat (d_indirect di))) ((k - 12) * 2))"

lemma nblks_drop: "c \<noteq> [] \<Longrightarrow> nblks c = Suc (nblks (drop BLOCK_SIZE c))"
proof -
  assume "c \<noteq> []"
  then have l: "0 < length c" by simp
  show ?thesis
  proof (cases "length c \<le> 1024")
    case True
    with l have "1024 \<le> length c + 1023" "length c + 1023 < 2 * 1024" by linarith+
    then have "(length c + 1023) div 1024 = 1" by (simp add: div_nat_eqI)
    with True show ?thesis by (simp add: nblks_def)
  next
    case False
    then have "length c + 1023 = 1024 + (length c - 1024 + 1023)" by simp
    then have "(length c + 1023) div 1024 = Suc ((length c - 1024 + 1023) div 1024)" by simp
    then show ?thesis by (simp add: nblks_def)
  qed
qed

lemma nblks_empty [simp]: "nblks [] = 0"
  by (simp add: nblks_def)

lemma chunk_drop: "chunk (drop BLOCK_SIZE c) k = chunk c (Suc k)"
  by (simp add: chunk_def add.commute)

lemma unat_of_nat16: "x < 65536 \<Longrightarrow> unat (of_nat x :: u16) = x"
  by (simp add: unsigned_of_nat take_bit_eq_mod)

section \<open>Adding the blocks of a file\<close>

text \<open>\<open>laid k c di m di' m'\<close>: the contents \<open>c\<close> were added as the blocks from the \<open>k\<close>-th on.\<close>

definition laid :: "nat \<Rightarrow> bytes \<Rightarrow> disk_inode \<Rightarrow> mk \<Rightarrow> disk_inode \<Rightarrow> mk \<Rightarrow> bool" where
  "laid k c di m di' m' \<longleftrightarrow>
     nf m' = nf m + nblks c \<and> (c \<noteq> [] \<longrightarrow> k + nblks c \<le> 524) \<and> next_inode m' = next_inode m \<and>
     d_indirect di' = d_indirect di \<and> d_type di' = d_type di \<and> d_size di' = d_size di \<and>
     (\<forall>j < k. file_block m' di' j = file_block m di j) \<and>
     (\<forall>j < nblks c. file_block m' di' (k + j) = of_nat (nf m + j) \<and> mk_img m' (nf m + j) = chunk c j) \<and>
     (\<forall>b < nf m. b \<noteq> unat (d_indirect di) \<or> k + nblks c \<le> 12 \<longrightarrow> mk_img m' b = mk_img m b)"

lemma laid_step:
  assumes "c \<noteq> []" and l: "laid (Suc k) (drop BLOCK_SIZE c) di1 m1 di' m'" and "k < 524"
    and n: "nf m1 = nf m + 1" "next_inode m1 = next_inode m"
    and d: "d_indirect di1 = d_indirect di" "d_type di1 = d_type di" "d_size di1 = d_size di"
    and i: "unat (d_indirect di) < nf m"
    and f: "\<And>j. j < k \<Longrightarrow> file_block m1 di1 j = file_block m di j" "file_block m1 di1 k = next_free_blk m"
    and w: "mk_img m1 (nf m) = chunk c 0"
    and b: "\<And>b. b < nf m \<Longrightarrow> b \<noteq> unat (d_indirect di) \<or> k < 12 \<Longrightarrow> mk_img m1 b = mk_img m b"
  shows "laid k c di m di' m'"
proof -
  have nb: "nblks c = Suc (nblks (drop BLOCK_SIZE c))" by (rule nblks_drop [OF assms(1)])
  have at: "file_block m' di' (k + j) = of_nat (nf m + j) \<and> mk_img m' (nf m + j) = chunk c j" if "j < nblks c" for j
  proof (cases j)
    case 0
    with l n i d f(2) w show ?thesis by (simp add: laid_def)
  next
    case (Suc x)
    with that nb have "x < nblks (drop BLOCK_SIZE c)" by simp
    with l n have "file_block m' di' (Suc k + x) = of_nat (nf m + 1 + x) \<and>
      mk_img m' (nf m + 1 + x) = chunk (drop BLOCK_SIZE c) x" unfolding laid_def by metis
    then show ?thesis by (simp add: Suc chunk_drop add.assoc)
  qed
  have "drop BLOCK_SIZE c \<noteq> [] \<longrightarrow> k + nblks c \<le> 524" "drop BLOCK_SIZE c = [] \<longrightarrow> nblks c = 1"
    using l nb by (simp_all add: laid_def del: drop_eq_Nil)
  then have "k + nblks c \<le> 524" using assms(3) by (cases "drop BLOCK_SIZE c = []") auto
  moreover have "mk_img m' x = mk_img m x" if x: "x < nf m" "x \<noteq> unat (d_indirect di) \<or> k + nblks c \<le> 12" for x
  proof -
    have "mk_img m' x = mk_img m1 x" using l x by (auto simp: laid_def nb n d)
    with b [OF x(1)] x(2) nb show ?thesis by auto
  qed
  ultimately show ?thesis
    using l n d f(1) nb at by (auto simp: laid_def)
qed

lemma get16_entry: "j < k \<Longrightarrow> \<not> j < 12 \<Longrightarrow>
    get16 (put16 b ((k - 12) * 2) v) ((j - 12) * 2) = get16 b ((j - 12) * 2 :: nat)"
  by (rule get16_put16_other_nat) auto

lemma add_blocks_spec:
  "add_blocks c k di m = Some (di', m') \<Longrightarrow> spare m' \<Longrightarrow> unat (d_indirect di) < nf m \<Longrightarrow> laid k c di m di' m'"
proof (induction c k di m rule: add_blocks.induct)
  case (1 c k di m)
  show ?case
  proof (cases "c = []")
    case True
    with 1(3) show ?thesis by (simp add: add_blocks.simps laid_def)
  next
    case False
    obtain b m1 where a: "alloc_block m = (b, m1)" by fastforce
    define buf where "buf = store_at 0 (take BLOCK_SIZE c) (\<lambda>_. 0)"
    note IH = 1(1) [OF False a [symmetric] refl] and IH2 = 1(2) [OF False a [symmetric] refl _ _ refl refl]
    have k: "k < 524"
      using 1(3) False by (auto simp: add_blocks.simps [of c k di m] a Let_def split: if_splits)
    have r: "add_blocks (drop BLOCK_SIZE c) (Suc k)
        (if k < 12 then di\<lparr>d_direct := (d_direct di)(k := b)\<rparr> else di)
        (write_block (unat b) buf (if k < 12 then m1
          else write_block (unat (d_indirect di)) (put16 (mk_img m1 (unat (d_indirect di))) ((k - 12) * 2) b) m1)) =
        Some (di', m')" (is "add_blocks _ _ ?di ?m = _")
      using 1(3) False k by (auto simp: add_blocks.simps [of c k di m] a Let_def buf_def split: if_splits)
    have "spare ?m" using spare_before [OF add_blocks_advances [OF r] 1(4)] by simp
    then have "spare m1" by (auto split: if_splits)
    note al = alloc_block_spare [OF a this] alloc_block_img [OF a]
    have i1: "unat (d_indirect ?di) < nf ?m" using al 1(5) by auto
    have l: "laid (Suc k) (drop BLOCK_SIZE c) ?di ?m di' m'"
      using r IH IH2 k 1(4) i1 by (cases "k < 12") (simp_all add: buf_def)
    show ?thesis
      by (rule laid_step [OF False l k])
        (use al 1(5) in \<open>auto simp: file_block_def get16_entry chunk_def buf_def\<close>)
  qed
qed

section \<open>Adding a directory entry\<close>

definition dirblks :: "disk_inode \<Rightarrow> nat set" where
  "dirblks di = (\<lambda>i. unat (d_direct di i)) ` {..<12}"

lemma same_dinode_dirblks: "same_dinode x y \<Longrightarrow> dirblks x = dirblks y"
  by (auto simp: dirblks_def same_dinode_def image_iff)

lemma add_dirent_shape:
  assumes "add_dirent dir di nm ch m = Some (di', m')" and "spare m'"
  obtains "di' = di" and "m' = m"
  | i m2 where "i < 12" and "write_inode dir di' m2 = Some m'"
    and "\<And>j. j \<noteq> i \<Longrightarrow> d_direct di' j = d_direct di j"
    and "d_direct di' i = d_direct di i \<and> nf m2 = nf m \<or> unat (d_direct di' i) = nf m \<and> nf m2 = nf m + 1"
    and "\<And>b. b \<noteq> unat (d_direct di' i) \<Longrightarrow> mk_img m2 b = mk_img m b" and "next_inode m2 = next_inode m"
proof -
  define i where "i = unat (d_size di) div 32 div 32"
  define off where "off = (unat (d_size di) div 32 mod 32) * 32"
  define bs where "bs = dirent_bytes \<lparr>de_inode = ch, de_name = name_buf nm\<rparr>"
  consider "12 \<le> i" | "i < 12" "d_direct di i = 0" | "i < 12" "d_direct di i \<noteq> 0" by linarith
  then show thesis
  proof cases
    case 1
    with assms(1) have "di' = di" "m' = m" by (simp_all add: add_dirent_def Let_def i_def)
    with that(1) show thesis .
  next
    case 2
    obtain b m1 where a: "alloc_block m = (b, m1)" by fastforce
    define m2 where "m2 = write_block (unat b) (store_at off bs (\<lambda>_. 0)) (write_block (unat b) (\<lambda>_. 0) m1)"
    have w: "write_inode dir di' m2 = Some m'" and di': "di' = di\<lparr>d_direct := (d_direct di)(i := b), d_size := d_size di + 32\<rparr>"
      using assms(1) 2 by (auto simp: add_dirent_def Let_def i_def [symmetric] a m2_def off_def bs_def)
    have "spare m1" using spare_before [OF write_inode_advances [OF w] assms(2)] by (simp add: m2_def)
    note al = alloc_block_spare [OF a this] alloc_block_img [OF a]
    show thesis
      by (rule that(2) [OF 2(1) w]) (use al in \<open>auto simp: di' m2_def\<close>)
  next
    case 3
    define m2 where "m2 = write_block (unat (d_direct di i)) (store_at off bs (mk_img m (unat (d_direct di i)))) m"
    have w: "write_inode dir di' m2 = Some m'" and di': "di' = di\<lparr>d_size := d_size di + 32\<rparr>"
      using assms(1) 3 by (auto simp: add_dirent_def Let_def i_def [symmetric] m2_def off_def bs_def)
    show thesis
      by (rule that(2) [OF 3(1) w]) (auto simp: di' m2_def)
  qed
qed

lemma add_dirent_spec:
  assumes "add_dirent dir di nm ch m = Some (di', m')" and "spare m'"
    and "same_dinode (reread_inode dir m) di"
  shows "nf m \<le> nf m'" and "next_inode m' = next_inode m"
    and "dirblks di' \<subseteq> insert (nf m) (dirblks di)" and "nf m \<in> dirblks di' \<Longrightarrow> nf m \<in> dirblks di \<or> nf m < nf m'"
    and "same_dinode (reread_inode dir m') di'"
    and "k \<noteq> 0 \<Longrightarrow> k \<noteq> dir \<Longrightarrow> slot k < nf m \<Longrightarrow> slot k \<notin> dirblks di \<Longrightarrow>
      same_dinode (reread_inode k m') (reread_inode k m)"
    and "b \<noteq> slot dir \<Longrightarrow> b < nf m \<Longrightarrow> b \<notin> dirblks di \<Longrightarrow> mk_img m' b = mk_img m b"
proof -
  have "nf m \<le> nf m' \<and> next_inode m' = next_inode m \<and> dirblks di' \<subseteq> insert (nf m) (dirblks di) \<and>
    (nf m \<in> dirblks di' \<longrightarrow> nf m \<in> dirblks di \<or> nf m < nf m') \<and> same_dinode (reread_inode dir m') di' \<and>
    (\<forall>k. k \<noteq> 0 \<longrightarrow> k \<noteq> dir \<longrightarrow> slot k < nf m \<longrightarrow> slot k \<notin> dirblks di \<longrightarrow>
      same_dinode (reread_inode k m') (reread_inode k m)) \<and>
    (\<forall>b. b \<noteq> slot dir \<longrightarrow> b < nf m \<longrightarrow> b \<notin> dirblks di \<longrightarrow> mk_img m' b = mk_img m b)"
    using assms(1,2)
  proof (cases rule: add_dirent_shape)
    case 1
    with assms(3) show ?thesis by auto
  next
    case (2 i m2)
    note w = write_inode_spec [OF 2(2)]
    have sub: "dirblks di' \<subseteq> insert (nf m) (dirblks di)"
    proof
      fix x assume "x \<in> dirblks di'"
      then obtain j where "j < 12" "x = unat (d_direct di' j)" by (auto simp: dirblks_def)
      then show "x \<in> insert (nf m) (dirblks di)" using 2(3,4) by (cases "j = i") (auto simp: dirblks_def)
    qed
    have new: "nf m \<in> dirblks di \<or> nf m < nf m'" if x: "nf m \<in> dirblks di'"
    proof -
      obtain j where "j < 12" "nf m = unat (d_direct di' j)" using x by (auto simp: dirblks_def)
      then show ?thesis using 2(3,4) w(4) by (cases "j = i") (auto simp: dirblks_def)
    qed
    have keep: "mk_img m2 b = mk_img m b" if "b < nf m" "b \<notin> dirblks di" for b
    proof (rule 2(5))
      show "b \<noteq> unat (d_direct di' i)" using that 2(1,4) by (auto simp: dirblks_def)
    qed
    have "same_dinode (reread_inode k m') (reread_inode k m)"
      if "k \<noteq> 0" "k \<noteq> dir" "slot k < nf m" "slot k \<notin> dirblks di" for k
      using w(2) [OF that(1,2)] reread_unchanged [OF keep [OF that(3,4)]] by simp
    then show ?thesis using sub new keep w(1,3,4,5) 2(4,6) by auto
  qed
  then show "nf m \<le> nf m'" and "next_inode m' = next_inode m"
    and "dirblks di' \<subseteq> insert (nf m) (dirblks di)" and "nf m \<in> dirblks di' \<Longrightarrow> nf m \<in> dirblks di \<or> nf m < nf m'"
    and "same_dinode (reread_inode dir m') di'"
    and "k \<noteq> 0 \<Longrightarrow> k \<noteq> dir \<Longrightarrow> slot k < nf m \<Longrightarrow> slot k \<notin> dirblks di \<Longrightarrow>
      same_dinode (reread_inode k m') (reread_inode k m)"
    and "b \<noteq> slot dir \<Longrightarrow> b < nf m \<Longrightarrow> b \<notin> dirblks di \<Longrightarrow> mk_img m' b = mk_img m b"
    by simp_all
qed

section \<open>A file in the image\<close>

text \<open>\<open>stored m n c base\<close>: inode \<open>n\<close> is a file with contents \<open>c\<close> in the blocks from \<open>base\<close> on.\<close>

definition stored :: "mk \<Rightarrow> u16 \<Rightarrow> bytes \<Rightarrow> nat \<Rightarrow> bool" where
  "stored m n c base \<longleftrightarrow> (let di = reread_inode n m in
     d_type di = FT_FILE \<and> d_size di = of_nat (length c) \<and> nblks c \<le> 524 \<and>
     (12 < nblks c \<longrightarrow> unat (d_indirect di) = base - 1) \<and>
     (\<forall>j < nblks c. file_block m di j = of_nat (base + j) \<and> mk_img m (base + j) = chunk c j))"

definition foot :: "bytes \<Rightarrow> nat \<Rightarrow> nat set" where
  "foot c base = {(if 12 < nblks c then base - 1 else base)..<base + nblks c}"

lemma file_block_cong:
  "same_dinode d d' \<Longrightarrow> (\<not> k < 12 \<Longrightarrow> mk_img m (unat (d_indirect d)) = mk_img m' (unat (d_indirect d))) \<Longrightarrow>
     file_block m d k = file_block m' d' k"
  by (auto simp: file_block_def same_dinode_def)

lemma stored_keep:
  assumes "stored m n c base" and "same_dinode (reread_inode n m') (reread_inode n m)"
    and "\<And>b. b \<in> foot c base \<Longrightarrow> mk_img m' b = mk_img m b"
  shows "stored m' n c base"
proof -
  let ?d = "reread_inode n m" and ?d' = "reread_inode n m'"
  have "file_block m' ?d' j = file_block m ?d j \<and> mk_img m' (base + j) = mk_img m (base + j)" if "j < nblks c" for j
  proof
    have "base + j \<in> foot c base" using that by (auto simp: foot_def)
    then show "mk_img m' (base + j) = mk_img m (base + j)" by (rule assms(3))
    have "mk_img m' (unat (d_indirect ?d')) = mk_img m (unat (d_indirect ?d'))" if "\<not> j < 12"
    proof (rule assms(3))
      have "12 < nblks c" using that \<open>j < nblks c\<close> by simp
      then show "unat (d_indirect ?d') \<in> foot c base"
        using assms(1,2) by (auto simp: stored_def Let_def same_dinode_def foot_def)
    qed
    then show "file_block m' ?d' j = file_block m ?d j" by (rule file_block_cong [OF assms(2)])
  qed
  then show ?thesis using assms(1,2) by (auto simp: stored_def Let_def same_dinode_def)
qed

lemma stored_add:
  assumes "reserve_indirect (nblks c) ((new_inode FT_FILE 1 now)\<lparr>d_size := of_nat (length c)\<rparr>) m = (di1, m1)"
    and "add_blocks c 0 di1 m1 = Some (di2, m2)" and "write_inode n di2 m2 = Some m3"
    and "spare m3" and "slot n < nf m"
  obtains base where "stored m3 n c base" and "nf m \<le> base - (if 12 < nblks c then 1 else 0)"
    and "(if 12 < nblks c then 1 else 0) \<le> base"
    and "base + nblks c = nf m3" and "\<And>b. b < nf m \<Longrightarrow> b \<noteq> slot n \<Longrightarrow> mk_img m3 b = mk_img m b"
    and "\<And>k. k \<noteq> 0 \<Longrightarrow> k \<noteq> n \<Longrightarrow> slot k < nf m \<Longrightarrow> same_dinode (reread_inode k m3) (reread_inode k m)"
    and "next_inode m3 = next_inode m"
proof -
  let ?di = "(new_inode FT_FILE 1 now)\<lparr>d_size := of_nat (length c)\<rparr>"
  note w = write_inode_spec [OF assms(3)]
  have s2: "spare m2" using spare_before [OF write_inode_advances [OF assms(3)] assms(4)] by simp
  have s1: "spare m1" using spare_before [OF add_blocks_advances [OF assms(2)] s2] by simp
  have r: "nf m1 = nf m + (if 12 < nblks c then 1 else 0) \<and> next_inode m1 = next_inode m \<and>
    d_type di1 = FT_FILE \<and> d_size di1 = of_nat (length c) \<and>
    unat (d_indirect di1) = (if 12 < nblks c then nf m else 0) \<and> (\<forall>b < nf m. mk_img m1 b = mk_img m b)"
  proof (cases "12 < nblks c")
    case True
    obtain b m0 where a: "alloc_block m = (b, m0)" by fastforce
    have e: "di1 = ?di\<lparr>d_indirect := b\<rparr>" "m1 = write_block (unat b) (\<lambda>_. 0) m0"
      using assms(1) True a by (auto simp: reserve_indirect_def)
    have "spare m0" using s1 e by simp
    from alloc_block_spare [OF a this] alloc_block_img [OF a] e True show ?thesis
      by (auto simp: new_inode_def)
  next
    case False
    with assms(1) show ?thesis by (auto simp: reserve_indirect_def new_inode_def)
  qed
  have ind: "unat (d_indirect di1) < nf m1" using r assms(5) by (auto simp: slot_def)
  have l: "laid 0 c di1 m1 di2 m2" by (rule add_blocks_spec [OF assms(2) s2 ind])
  have b3: "mk_img m3 b = mk_img m2 b" if "nf m \<le> b" for b
    using that assms(5) by (intro w(3)) auto
  have le: "nblks c \<le> 524" using l by (cases "c = []") (auto simp: laid_def)
  have "file_block m3 (reread_inode n m3) j = of_nat (nf m1 + j) \<and> mk_img m3 (nf m1 + j) = chunk c j"
    if j: "j < nblks c" for j
  proof -
    have "file_block m3 (reread_inode n m3) j = file_block m2 di2 j"
    proof (rule file_block_cong [OF w(1)])
      assume "\<not> j < 12"
      then have "12 < nblks c" using j by simp
      with r l w(1) have "unat (d_indirect (reread_inode n m3)) = nf m" by (auto simp: laid_def same_dinode_def)
      then show "mk_img m3 (unat (d_indirect (reread_inode n m3))) = mk_img m2 (unat (d_indirect (reread_inode n m3)))"
        using b3 by simp
    qed
    moreover have "file_block m2 di2 j = of_nat (nf m1 + j) \<and> mk_img m2 (nf m1 + j) = chunk c j"
      using l j by (simp add: laid_def)
    moreover have "mk_img m3 (nf m1 + j) = mk_img m2 (nf m1 + j)" by (rule b3) (use r in simp)
    ultimately show ?thesis by simp
  qed
  then have st: "stored m3 n c (nf m1)"
    using w(1) l r le by (auto simp: stored_def Let_def laid_def same_dinode_def)
  have low: "mk_img m2 b = mk_img m b" if "b < nf m" for b
    using l r that by (auto simp: laid_def)
  have kk: "same_dinode (reread_inode k m3) (reread_inode k m)" if "k \<noteq> 0" "k \<noteq> n" "slot k < nf m" for k
    using w(2) [OF that(1,2)] reread_unchanged [OF low [OF that(3)]] by simp
  have fr: "mk_img m3 b = mk_img m b" if "b < nf m" "b \<noteq> slot n" for b
    using low [OF that(1)] w(3) [OF that(2)] by simp
  have sum: "nf m1 + nblks c = nf m3" "next_inode m3 = next_inode m" "nf m \<le> nf m1 - (if 12 < nblks c then 1 else 0)"
    "(if 12 < nblks c then 1 else 0) \<le> nf m1"
    using r l w(4,5) by (auto simp: laid_def)
  show thesis by (rule that [OF st sum(3,4,1) fr kk sum(2)])
qed

section \<open>Directories stay clear of the inode table\<close>

definition dir_sane :: "nat \<Rightarrow> mk \<Rightarrow> disk_inode \<Rightarrow> bool" where
  "dir_sane t m di \<longleftrightarrow> (\<forall>b \<in> dirblks di. b = 0 \<or> t < b \<and> b < nf m)"

text \<open>The state between two steps: \<open>t\<close> is the last block of the inode table.\<close>

definition tidy :: "nat \<Rightarrow> mk \<Rightarrow> bool" where
  "tidy t m \<longleftrightarrow> t < nf m \<and> mk_ninodes m \<le> 1024"

definition in_table :: "nat \<Rightarrow> u16 \<Rightarrow> bool" where
  "in_table t n \<longleftrightarrow> n \<noteq> 0 \<and> unat n \<le> 21 * t"

lemma in_table_slot: "in_table t n \<Longrightarrow> 1 \<le> slot n \<and> slot n \<le> t"
  using slot_bound by (auto simp: in_table_def)

lemma tidy_advances: "tidy t m \<Longrightarrow> advances m m' \<Longrightarrow> nf m \<le> nf m' \<Longrightarrow> tidy t m'"
  by (simp add: tidy_def advances_def)

lemma dir_sane_mono: "dir_sane t m di \<Longrightarrow> nf m \<le> nf m' \<Longrightarrow> dir_sane t m' di"
  by (force simp: dir_sane_def)

lemma dir_sane_new [simp]: "dir_sane t m (new_inode ty l now)"
  by (auto simp: dir_sane_def dirblks_def new_inode_def)

lemma dir_sane_slot: "dir_sane t m di \<Longrightarrow> in_table t n \<Longrightarrow> slot n \<notin> dirblks di"
  using in_table_slot by (fastforce simp: dir_sane_def)

text \<open>What a step may change of the inodes other than \<open>ns\<close>.\<close>

definition keeps :: "nat \<Rightarrow> u16 set \<Rightarrow> mk \<Rightarrow> mk \<Rightarrow> bool" where
  "keeps t ns m m' \<longleftrightarrow> tidy t m' \<and> nf m \<le> nf m' \<and>
     (\<forall>k. in_table t k \<longrightarrow> k \<notin> ns \<longrightarrow> same_dinode (reread_inode k m') (reread_inode k m))"

lemma keeps_trans: "keeps t xs m m1 \<Longrightarrow> keeps t ys m1 m2 \<Longrightarrow> keeps t (xs \<union> ys) m m2"
  by (fastforce simp: keeps_def elim: same_dinode_trans)

lemma alloc_inode_keeps:
  assumes "alloc_inode m = (n, m1)" and "n \<noteq> 0" and "tidy t m"
  shows "n = next_inode m" and "unat (next_inode m1) = unat n + 1" and "next_free_blk m1 = next_free_blk m"
    and "mk_img m1 = mk_img m" and "keeps t {} m m1" and "reread_inode k m1 = reread_inode k m"
proof -
  have le: "uint (next_inode m) \<le> mk_ninodes m" and e: "n = next_inode m" "m1 = m\<lparr>next_inode := n + 1\<rparr>"
    using assms(1,2) by (auto simp: alloc_inode_def split: if_splits)
  have "uint n < 65535" using le assms(3) e(1) by (simp add: tidy_def)
  then have "uint (n + 1) = uint n + 1" by (simp add: uint_word_ariths)
  then have "nat (uint (n + 1)) = nat (uint n) + 1" by (simp add: nat_add_distrib)
  then have "unat (n + 1) = unat n + 1" by simp
  with e show "unat (next_inode m1) = unat n + 1" by simp
  show "n = next_inode m" "next_free_blk m1 = next_free_blk m" "mk_img m1 = mk_img m"
    using e by simp_all
  then show r: "reread_inode k m1 = reread_inode k m" for k by (simp add: reread_inode_def)
  then show "keeps t {} m m1" using assms(3) e(2) by (simp add: keeps_def tidy_def)
qed

lemma write_inode_keeps:
  assumes "write_inode n di m = Some m'" and "tidy t m"
  shows "keeps t {n} m m'"
  using write_inode_spec [OF assms(1)] write_inode_advances [OF assms(1)] assms(2)
  by (auto simp: keeps_def in_table_def tidy_def advances_def)

lemma add_dirent_keeps:
  assumes "add_dirent dir di nm ch m = Some (di', m')" and "spare m'"
    and "same_dinode (reread_inode dir m) di" and "dir_sane t m di" and "tidy t m"
  shows "keeps t {dir} m m'" and "dir_sane t m' di'" and "same_dinode (reread_inode dir m') di'"
    and "next_inode m' = next_inode m"
proof -
  note a = add_dirent_spec [OF assms(1,2,3)]
  show "same_dinode (reread_inode dir m') di'" "next_inode m' = next_inode m" using a(2,5) by simp_all
  show "dir_sane t m' di'"
    unfolding dir_sane_def
  proof
    fix b assume b: "b \<in> dirblks di'"
    show "b = 0 \<or> t < b \<and> b < nf m'"
    proof (cases "b \<in> dirblks di")
      case True
      with assms(4) a(1) show ?thesis by (fastforce simp: dir_sane_def)
    next
      case False
      with b a(3) have "b = nf m" by blast
      with b False a(4) assms(5) show ?thesis by (simp add: tidy_def)
    qed
  qed
  have "same_dinode (reread_inode k m') (reread_inode k m)" if "in_table t k" "k \<noteq> dir" for k
  proof (rule a(6))
    show "slot k < nf m" using in_table_slot [OF that(1)] assms(5) by (simp add: tidy_def)
    show "slot k \<notin> dirblks di" by (rule dir_sane_slot [OF assms(4) that(1)])
  qed (use that in \<open>auto simp: in_table_def\<close>)
  then show "keeps t {dir} m m'"
    using a(1) tidy_advances [OF assms(5) add_dirent_advances [OF assms(1)] a(1)] by (simp add: keeps_def)
qed

lemma make_subdir_keeps:
  assumes "make_subdir now p pdi nm m = Some (n, pdi', m')" and "spare m'" and "tidy t m"
    and "same_dinode (reread_inode p m) pdi" and "dir_sane t m pdi"
    and "in_table t p" and "unat p < unat (next_inode m)" and "unat (next_inode m) \<le> 21 * t"
  shows "keeps t {p, n} m m'" and "same_dinode (reread_inode p m') pdi'" and "dir_sane t m' pdi'"
    and "n = next_inode m" and "in_table t n" and "unat (next_inode m') = unat n + 1"
    and "dir_sane t m' (reread_inode n m')"
proof -
  let ?new = "new_inode FT_DIR 2 now"
  obtain m1 m2 d1 m3 d2 m4 where a: "alloc_inode m = (n, m1)" and w: "write_inode n ?new m1 = Some m2"
    and e1: "add_dirent n ?new [46] n m2 = Some (d1, m3)"
    and e2: "add_dirent n d1 [46, 46] p m3 = Some (d2, m4)"
    and e3: "add_dirent p pdi nm n m4 = Some (pdi', m')"
    using assms(1) by (auto simp: make_subdir_def Option.bind_eq_Some_conv split: prod.splits)
  have s4: "spare m4" using spare_before [OF add_dirent_advances [OF e3] assms(2)] by simp
  have s3: "spare m3" using spare_before [OF add_dirent_advances [OF e2] s4] by simp
  have "n \<noteq> 0" using write_inode_spec(6) [OF w] .
  note al = alloc_inode_keeps [OF a this assms(3)]
  show n: "n = next_inode m" by (rule al(1))
  show nt: "in_table t n" using \<open>n \<noteq> 0\<close> assms(8) n by (simp add: in_table_def)
  have pn: "p \<noteq> n" using assms(7) n by auto
  have t1: "tidy t m1" using al(5) by (simp add: keeps_def)
  note k2 = write_inode_keeps [OF w t1]
  note w' = write_inode_spec [OF w]
  have t2: "tidy t m2" using k2 by (simp add: keeps_def)
  note k3 = add_dirent_keeps [OF e1 s3 w'(1) dir_sane_new t2]
  have t3: "tidy t m3" using k3(1) by (simp add: keeps_def)
  note k4 = add_dirent_keeps [OF e2 s4 k3(3,2) t3]
  have t4: "tidy t m4" using k4(1) by (simp add: keeps_def)
  have all: "keeps t {n} m m4"
    using keeps_trans [OF keeps_trans [OF keeps_trans [OF al(5) k2] k3(1)] k4(1)] by simp
  have "same_dinode (reread_inode p m4) pdi"
    using all assms(4,6) pn by (auto simp: keeps_def elim: same_dinode_trans)
  note k5 = add_dirent_keeps [OF e3 assms(2) this _ t4]
  have ps: "dir_sane t m4 pdi" using dir_sane_mono [OF assms(5)] all by (simp add: keeps_def)
  show "keeps t {p, n} m m'" using keeps_trans [OF all k5(1) [OF ps]] by simp
  show "same_dinode (reread_inode p m') pdi'" "dir_sane t m' pdi'" using k5(2,3) [OF ps] by simp_all
  show "unat (next_inode m') = unat n + 1" using al(2) w'(5) k3(4) k4(4) k5(4) [OF ps] by simp
  have "same_dinode (reread_inode n m') d2"
    using k5(1) [OF ps] k4(3) nt pn by (auto simp: keeps_def elim: same_dinode_trans)
  moreover have "dir_sane t m' d2" using dir_sane_mono [OF k4(2)] k5(1) [OF ps] by (simp add: keeps_def)
  ultimately show "dir_sane t m' (reread_inode n m')" by (simp add: dir_sane_def same_dinode_dirblks)
qed

section \<open>Adding the files\<close>

text \<open>The files added so far: inode, contents and first block of each.\<close>

definition in_place :: "nat \<Rightarrow> u16 \<Rightarrow> mk \<Rightarrow> u16 \<times> bytes \<times> nat \<Rightarrow> bool" where
  "in_place t bin m f \<longleftrightarrow> (case f of (n, c, base) \<Rightarrow>
     in_table t n \<and> n \<noteq> bin \<and> unat n < unat (next_inode m) \<and> stored m n c base \<and>
     foot c base \<subseteq> {t<..<nf m} \<and> foot c base \<inter> dirblks (reread_inode bin m) = {} \<and> t < base \<and>
     base + nblks c \<le> nf m)"

definition files_in :: "nat \<Rightarrow> u16 \<Rightarrow> mk \<Rightarrow> (u16 \<times> bytes \<times> nat) list \<Rightarrow> bool" where
  "files_in t bin m xs \<longleftrightarrow> tidy t m \<and> in_table t bin \<and> unat bin < unat (next_inode m) \<and>
     dir_sane t m (reread_inode bin m) \<and>
     (\<forall>f \<in> set xs. in_place t bin m f)"

lemma add_file_steps:
  assumes "add_file now bin bdi (nm, c) m = Some (d', m')"
  shows "\<exists>n m1 d1 m2 d2 m3 m4. alloc_inode m = (n, m1) \<and>
    reserve_indirect (nblks c) ((new_inode FT_FILE 1 now)\<lparr>d_size := of_nat (length c)\<rparr>) m1 = (d1, m2) \<and>
    add_blocks c 0 d1 m2 = Some (d2, m3) \<and> write_inode n d2 m3 = Some m4 \<and>
    add_dirent bin bdi nm n m4 = Some (d', m')"
proof -
  have nb: "(length c + BLOCK_SIZE - 1) div BLOCK_SIZE = nblks c" by (simp add: nblks_def)
  show ?thesis
    using assms unfolding add_file_def prod.case nb
    by (cases "alloc_inode m") (auto simp: Option.bind_eq_Some_conv split: prod.splits)
qed

lemma add_file_files_in:
  assumes "add_file now bin (reread_inode bin m) (nm, c) m = Some (d', m')" and "spare m'"
    and "files_in t bin m xs" and "unat (next_inode m) \<le> 21 * t"
  shows "\<exists>base. files_in t bin m' ((next_inode m, c, base) # xs) \<and> unat (next_inode m') = unat (next_inode m) + 1"
proof -
  let ?b = "reread_inode bin m"
  have bin: "in_table t bin" "unat bin < unat (next_inode m)" and bs: "dir_sane t m ?b" and t0: "tidy t m"
    using assms(3) by (simp_all add: files_in_def)
  obtain n m1 d1 m2 d2 m3 m4 where a: "alloc_inode m = (n, m1)"
    and r: "reserve_indirect (nblks c) ((new_inode FT_FILE 1 now)\<lparr>d_size := of_nat (length c)\<rparr>) m1 = (d1, m2)"
    and b: "add_blocks c 0 d1 m2 = Some (d2, m3)" and w: "write_inode n d2 m3 = Some m4"
    and e: "add_dirent bin ?b nm n m4 = Some (d', m')"
    using add_file_steps [OF assms(1)] by (elim exE conjE) (rule that)
  have s4: "spare m4" using spare_before [OF add_dirent_advances [OF e] assms(2)] by simp
  have n0: "n \<noteq> 0" using write_inode_spec(6) [OF w] .
  note al = alloc_inode_keeps [OF a n0 t0]
  have nt: "in_table t n" using n0 assms(4) al(1) by (simp add: in_table_def)
  note sl = in_table_slot [OF nt]
  have nbin: "n \<noteq> bin" using bin(2) al(1) by auto
  have sln: "slot n < nf m1" using sl t0 al(3) by (simp add: tidy_def)
  obtain base where
    st: "stored m4 n c base" and lo: "nf m1 \<le> base - (if 12 < nblks c then 1 else 0)"
    and "(if 12 < nblks c then 1 else 0) \<le> base"
    and up: "base + nblks c = nf m4" and fr: "\<And>x. x < nf m1 \<Longrightarrow> x \<noteq> slot n \<Longrightarrow> mk_img m4 x = mk_img m1 x"
    and kk: "\<And>k. k \<noteq> 0 \<Longrightarrow> k \<noteq> n \<Longrightarrow> slot k < nf m1 \<Longrightarrow> same_dinode (reread_inode k m4) (reread_inode k m1)"
    and ni: "next_inode m4 = next_inode m1"
    by (rule stored_add [OF r b w s4 sln]) (rule that)
  have tn: "t < nf m" using t0 by (simp add: tidy_def)
  have n4: "nf m \<le> nf m4" using lo up al(3) by (auto split: if_splits)
  have t4: "tidy t m4" using t0 tn n4 add_blocks_advances [OF b] reserve_indirect_advances [OF r] write_inode_advances [OF w]
    alloc_inode_advances [OF a] by (simp add: tidy_def advances_def)
  have k14: "same_dinode (reread_inode k m4) (reread_inode k m)" if "in_table t k" "k \<noteq> n" for k
    using kk [of k] that in_table_slot [OF that(1)] tn al(3,6) by (simp add: in_table_def)
  note d = add_dirent_keeps [OF e assms(2) k14 [OF bin(1) nbin [symmetric]] dir_sane_mono [OF bs n4] t4]
  note d2 = add_dirent_spec [OF e assms(2) k14 [OF bin(1) nbin [symmetric]]]
  have db: "dirblks (reread_inode bin m') = dirblks d'" by (rule same_dinode_dirblks [OF d(3)])
  have keep: "stored m' k x y \<and> foot x y \<inter> dirblks (reread_inode bin m') = {}"
    if "in_table t k" "k \<noteq> bin" "stored m4 k x y" "foot x y \<subseteq> {t<..<nf m4}" "foot x y \<inter> dirblks ?b = {}" for k x y
  proof
    show "stored m' k x y"
    proof (rule stored_keep [OF that(3)])
      show "same_dinode (reread_inode k m') (reread_inode k m4)"
        using d(1) that(1,2) by (simp add: keeps_def)
      show "mk_img m' z = mk_img m4 z" if "z \<in> foot x y" for z
        using that \<open>foot x y \<subseteq> _\<close> \<open>foot x y \<inter> _ = _\<close> in_table_slot [OF bin(1)] by (intro d2(7)) auto
    qed
    show "foot x y \<inter> dirblks (reread_inode bin m') = {}"
      unfolding db using d2(3) that(4,5) by fastforce
  qed
  have bound: "dirblks ?b \<subseteq> insert 0 {t<..<nf m}" using bs by (auto simp: dir_sane_def)
  have fn: "foot c base \<subseteq> {t<..<nf m4}" using lo up tn al(3) by (auto simp: foot_def split: if_splits)
  have "foot c base \<inter> dirblks ?b = {}" using bound lo tn al(3) by (fastforce simp: foot_def split: if_splits)
  note new = keep [OF nt nbin st fn this]
  have nf': "nf m4 \<le> nf m'" using d(1) by (simp add: keeps_def)
  have inn: "unat (next_inode m') = unat n + 1" using d(4) ni al(2) by simp
  have old: "in_place t bin m' (k, x, y)" if "(k, x, y) \<in> set xs" for k x y
  proof -
    have o: "in_table t k" "k \<noteq> bin" "unat k < unat (next_inode m)" "stored m k x y" "foot x y \<subseteq> {t<..<nf m}"
      "foot x y \<inter> dirblks ?b = {}" "t < y" "y + nblks x \<le> nf m"
      using assms(3) that by (auto simp: files_in_def in_place_def)
    have kn: "k \<noteq> n" using o(3) al(1) by auto
    have "stored m4 k x y"
    proof (rule stored_keep [OF o(4) k14 [OF o(1) kn]])
      show "mk_img m4 z = mk_img m z" if "z \<in> foot x y" for z
        using fr [of z] that o(5) sl al(3,4) by auto
    qed
    moreover have "foot x y \<subseteq> {t<..<nf m4}" using o(5) n4 by fastforce
    ultimately have "stored m' k x y \<and> foot x y \<inter> dirblks (reread_inode bin m') = {}"
      using keep [OF o(1,2) _ _ o(6)] by blast
    then show ?thesis using o n4 nf' inn al(1) by (fastforce simp: in_place_def)
  qed
  have "t < base" using lo tn al(3) by (auto split: if_splits)
  then have "in_place t bin m' (n, c, base)"
    using new fn nf' up nt nbin inn by (auto simp: in_place_def)
  moreover have "in_place t bin m' f" if "f \<in> set xs" for f
    using old that by (cases f) auto
  moreover have "tidy t m'" "dir_sane t m' (reread_inode bin m')" "unat bin < unat (next_inode m')"
    using d(1,2) db inn bin(2) al(1) by (simp_all add: keeps_def dir_sane_def)
  ultimately have "files_in t bin m' ((n, c, base) # xs)"
    using bin(1) by (simp add: files_in_def)
  then show ?thesis using inn al(1) by auto
qed

lemma add_files_files_in:
  "add_files now bin fs m = Some m' \<Longrightarrow> spare m' \<Longrightarrow> files_in t bin m xs \<Longrightarrow>
     unat (next_inode m) + length fs \<le> 21 * t + 1 \<Longrightarrow>
     \<exists>ys. files_in t bin m' (ys @ xs) \<and>
       (\<forall>i < length fs. \<exists>base. (of_nat (unat (next_inode m) + i), snd (fs ! i), base) \<in> set ys)"
proof (induction fs arbitrary: m xs)
  case Nil
  then show ?case by (intro exI [of _ "[]"]) simp
next
  case (Cons f fs)
  obtain nm c where f: "f = (nm, c)" by fastforce
  obtain d m1 where a: "add_file now bin (reread_inode bin m) (nm, c) m = Some (d, m1)"
    and r: "add_files now bin fs m1 = Some m'"
    using Cons.prems(1) by (auto simp: f Option.bind_eq_Some_conv)
  have s1: "spare m1" using spare_before [OF add_files_advances [OF r] Cons.prems(2)] by simp
  have le: "unat (next_inode m) \<le> 21 * t" using Cons.prems(4) by simp
  from add_file_files_in [OF a s1 Cons.prems(3) le] obtain base where
    b: "files_in t bin m1 ((next_inode m, c, base) # xs)" "unat (next_inode m1) = unat (next_inode m) + 1"
    by blast
  have le1: "unat (next_inode m1) + length fs \<le> 21 * t + 1" using Cons.prems(4) b(2) by simp
  from Cons.IH [OF r Cons.prems(2) b(1) le1] obtain ys where
    y: "files_in t bin m' (ys @ (next_inode m, c, base) # xs)"
    "\<forall>i < length fs. \<exists>base. (of_nat (unat (next_inode m1) + i), snd (fs ! i), base) \<in> set ys"
    by blast
  have "\<exists>base'. (of_nat (unat (next_inode m) + i), snd ((f # fs) ! i), base') \<in> set (ys @ [(next_inode m, c, base)])"
    if "i < length (f # fs)" for i
  proof (cases i)
    case 0
    then show ?thesis by (auto simp: f)
  next
    case (Suc j)
    with that have "j < length fs" by simp
    with y(2) obtain base' where "(of_nat (unat (next_inode m1) + j), snd (fs ! j), base') \<in> set ys" by blast
    then show ?thesis using b(2) by (auto simp: Suc)
  qed
  then show ?case using y(1) by (intro exI [of _ "ys @ [(next_inode m, c, base)]"]) simp
qed

section \<open>The whole image\<close>

lemma start_image_sel:
  assumes "16 \<le> nblocks"
  shows "mk_nblocks (start_image nblocks) = nblocks" and "mk_ninodes (start_image nblocks) \<le> 1024"
    and "1 \<le> nf (start_image nblocks) \<and> nf (start_image nblocks) \<le> 100" and "next_inode (start_image nblocks) = 1"
    and "16 \<le> mk_ninodes (start_image nblocks)"
proof -
  show "mk_nblocks (start_image nblocks) = nblocks" "mk_ninodes (start_image nblocks) \<le> 1024"
    "16 \<le> mk_ninodes (start_image nblocks)"
    "next_inode (start_image nblocks) = 1"
    by (auto simp: start_image_def Let_def)
  define k where "k = (mk_ninodes (start_image nblocks) * 48 + 1023) div 1024"
  have n: "16 \<le> mk_ninodes (start_image nblocks)" "mk_ninodes (start_image nblocks) \<le> 1024"
    by (auto simp: start_image_def Let_def)
  then have k: "0 \<le> k" "k < 99" by (auto simp: k_def)
  have a: "next_free_blk (start_image nblocks) = of_int (1 + k)"
    by (simp add: start_image_def Let_def k_def)
  have b: "uint (of_int (1 + k) :: u16) = 1 + k"
    using k by (subst unsigned_of_int) (simp add: take_bit_eq_mod)
  have "nf (start_image nblocks) = nat (1 + k)" unfolding a using b by (metis nat_uint_eq)
  then show "1 \<le> nf (start_image nblocks) \<and> nf (start_image nblocks) \<le> 100" using k by linarith
qed

lemma fill_image_files:
  assumes "fill_image now fs m0 = Some m'" and "spare m'" and "tidy t m0" and "next_inode m0 = 1"
    and "length fs + 5 \<le> 21 * t"
  shows "\<exists>bin ys. files_in t bin m' ys \<and>
    (\<forall>i < length fs. \<exists>base. (of_nat (6 + i), snd (fs ! i), base) \<in> set ys)"
proof -
  let ?new = "new_inode FT_DIR 2 now"
  obtain root m1 m2 r1 m3 r2 m4 bin r3 m5 dev r4 m6 tmp r5 m7 dd m8 where
    a: "alloc_inode m0 = (root, m1)" and w: "write_inode root ?new m1 = Some m2"
    and e1: "add_dirent root ?new [46] root m2 = Some (r1, m3)"
    and e2: "add_dirent root r1 [46, 46] root m3 = Some (r2, m4)"
    and s1: "make_subdir now root r2 [98, 105, 110] m4 = Some (bin, r3, m5)"
    and s2: "make_subdir now root r3 [100, 101, 118] m5 = Some (dev, r4, m6)"
    and s3: "make_subdir now root r4 [116, 109, 112] m6 = Some (tmp, r5, m7)"
    and d: "make_devnode now dev (reread_inode dev m7) [118, 100, 112] 2 0 m7 = Some (dd, m8)"
    and f: "add_files now bin fs m8 = Some m'"
    using assms(1) by (auto simp: fill_image_def Option.bind_eq_Some_conv split: prod.splits)
  obtain n m9 m10 where a2: "alloc_inode m7 = (n, m9)"
    and w2: "write_inode n ((new_inode FT_DEV 1 now)\<lparr>d_major := 2, d_minor := 0\<rparr>) m9 = Some m10"
    and e4: "add_dirent dev (reread_inode dev m7) [118, 100, 112] n m10 = Some (dd, m8)"
    using d by (auto simp: make_devnode_def Option.bind_eq_Some_conv split: prod.splits)
  have sp8: "spare m8" using spare_before [OF add_files_advances [OF f] assms(2)] by simp
  have sp10: "spare m10" using spare_before [OF add_dirent_advances [OF e4] sp8] by simp
  have sp7: "spare m7" using spare_before [OF advances_trans [OF alloc_inode_advances [OF a2] write_inode_advances [OF w2]] sp10] by simp
  have sp6: "spare m6" using spare_before [OF make_subdir_advances [OF s3] sp7] by simp
  have sp5: "spare m5" using spare_before [OF make_subdir_advances [OF s2] sp6] by simp
  have sp4: "spare m4" using spare_before [OF make_subdir_advances [OF s1] sp5] by simp
  have sp3: "spare m3" using spare_before [OF add_dirent_advances [OF e2] sp4] by simp
  note al = alloc_inode_keeps [OF a write_inode_spec(6) [OF w] assms(3)]
  have root: "root = 1" "in_table t root" using al(1) assms(4,5) by (simp_all add: in_table_def)
  note w' = write_inode_spec [OF w]
  have t1: "tidy t m1" using al(5) by (simp add: keeps_def)
  have t2: "tidy t m2" using write_inode_keeps [OF w t1] by (simp add: keeps_def)
  note k3 = add_dirent_keeps [OF e1 sp3 w'(1) dir_sane_new t2]
  have t3: "tidy t m3" using k3(1) by (simp add: keeps_def)
  note k4 = add_dirent_keeps [OF e2 sp4 k3(3,2) t3]
  have t4: "tidy t m4" using k4(1) by (simp add: keeps_def)
  have i4: "unat (next_inode m4) = 2" using k3(4) k4(4) w'(5) al(2) root(1) by simp
  have r4: "unat root < unat (next_inode m4)" "unat (next_inode m4) \<le> 21 * t" using i4 root assms(5) by simp_all
  note k5 = make_subdir_keeps [OF s1 sp5 t4 k4(3,2) root(2) r4]
  have t5: "tidy t m5" using k5(1) by (simp add: keeps_def)
  have bin: "unat bin = 2" "in_table t bin" "bin \<noteq> root" using k5(4,5) i4 root by auto
  have i5: "unat (next_inode m5) = 3" using k5(6) bin(1) by simp
  have r5: "unat root < unat (next_inode m5)" "unat (next_inode m5) \<le> 21 * t" using i5 root assms(5) by simp_all
  note k6 = make_subdir_keeps [OF s2 sp6 t5 k5(2,3) root(2) r5]
  have t6: "tidy t m6" using k6(1) by (simp add: keeps_def)
  have dev: "unat dev = 3" "in_table t dev" using k6(4,5) i5 by simp_all
  have i6: "unat (next_inode m6) = 4" using k6(6) dev(1) by simp
  have r6: "unat root < unat (next_inode m6)" "unat (next_inode m6) \<le> 21 * t" using i6 root assms(5) by simp_all
  note k7 = make_subdir_keeps [OF s3 sp7 t6 k6(2,3) root(2) r6]
  have t7: "tidy t m7" using k7(1) by (simp add: keeps_def)
  have tmp: "unat tmp = 4" using k7(4) i6 by simp
  have i7: "unat (next_inode m7) = 5" using k7(6) tmp by simp
  note al2 = alloc_inode_keeps [OF a2 write_inode_spec(6) [OF w2] t7]
  have n: "unat n = 5" using al2(1) i7 by simp
  have t9: "tidy t m9" using al2(5) by (simp add: keeps_def)
  note k10 = write_inode_keeps [OF w2 t9]
  have t10: "tidy t m10" using k10 by (simp add: keeps_def)
  have ne: "dev \<noteq> n" "dev \<noteq> root" "dev \<noteq> tmp" "bin \<noteq> n" "bin \<noteq> dev" "bin \<noteq> tmp"
    using n dev(1) bin(1) tmp root(1) by auto
  have dev10: "same_dinode (reread_inode dev m10) (reread_inode dev m7)"
    using k10 al2(6) dev(2) ne(1) by (simp add: keeps_def)
  have "same_dinode (reread_inode dev m7) (reread_inode dev m6)"
    using k7(1) dev(2) ne(2,3) by (simp add: keeps_def)
  then have "dir_sane t m7 (reread_inode dev m7)"
    using dir_sane_mono [OF k6(7)] k7(1) by (simp add: keeps_def dir_sane_def same_dinode_dirblks)
  then have dev7: "dir_sane t m10 (reread_inode dev m7)"
    using dir_sane_mono keeps_trans [OF al2(5) k10] by (simp add: keeps_def dir_sane_def)
  note k8 = add_dirent_keeps [OF e4 sp8 dev10 dev7 t10]
  have all: "keeps t ({root, dev} \<union> {root, tmp} \<union> {} \<union> {n} \<union> {dev}) m5 m8"
    using keeps_trans [OF keeps_trans [OF keeps_trans [OF keeps_trans [OF k6(1) k7(1)] al2(5)] k10] k8(1)] by simp
  then have "same_dinode (reread_inode bin m8) (reread_inode bin m5)"
    using bin ne by (simp add: keeps_def)
  then have "dir_sane t m8 (reread_inode bin m8)"
    using dir_sane_mono [OF k5(7)] all by (simp add: keeps_def dir_sane_def same_dinode_dirblks)
  moreover have i8: "unat (next_inode m8) = 6"
    using k8(4) write_inode_spec(5) [OF w2] al2(2) n by simp
  ultimately have "files_in t bin m8 []" using k8(1) bin by (simp add: files_in_def keeps_def)
  from add_files_files_in [OF f assms(2) this] i8 assms(5) show ?thesis by auto
qed

text \<open>The last step writes the free blocks and the superblock over the state of the allocator.\<close>

lemma mkfs_stored:
  assumes "mkfs nblocks now fs = Some img" and "nblocks \<le> 65535" and "sb_free_list (get_sb (img 0)) \<noteq> 0"
    and "length fs + 5 \<le> 21 * (unat (next_free_blk (start_image nblocks)) - 1)" and "i < length fs"
  shows "\<exists>base t. t = unat (next_free_blk (start_image nblocks)) - 1 \<and>
    stored ((start_image nblocks)\<lparr>mk_img := img\<rparr>) (of_nat (6 + i)) (snd (fs ! i)) base \<and> t < base \<and>
    base + nblks (snd (fs ! i)) \<le> nat nblocks \<and> in_table t (of_nat (6 + i)) \<and> t < 100 \<and>
    int (6 + i) \<le> mk_ninodes (start_image nblocks) \<and> (12 < nblks (snd (fs ! i)) \<longrightarrow> t < base - 1)"
proof -
  let ?m0 = "start_image nblocks"
  define t where "t = nf ?m0 - 1"
  obtain m h img1 where m: "fill_image now fs ?m0 = Some m"
    and f: "free_list (nf m) (nat nblocks - nf m) (mk_img m) = (h, img1)"
    and img: "img = img1(0 := put_sb \<lparr>sb_magic = MINIFS_MAGIC, sb_block_size = 1024,
       sb_nblocks = of_int nblocks, sb_ninodes = of_int (mk_ninodes m), sb_free_list = h,
       sb_free_inodes = of_int (mk_ninodes m) - (next_inode m - 1), sb_pad = 0, sb_mtime = now\<rparr> (\<lambda>_. 0))"
    using assms(1) unfolding mkfs_def
    by (cases "fill_image now fs ?m0") (auto simp: Let_def split: if_splits prod.splits)
  have n16: "16 \<le> nblocks" using assms(1) by (simp add: mkfs_def split: if_splits)
  note st = start_image_sel [OF n16]
  note adv = fill_image_advances [OF m]
  have "h \<noteq> 0" using assms(3) by (simp add: img get_put_sb)
  then have "nat nblocks - nf m \<noteq> 0" using f by auto
  then have sp: "spare m" using adv st(1) assms(2) by (simp add: spare_def advances_def)
  have nf0: "nf ?m0 \<le> nf m" using spare_before [OF adv sp] by simp
  have td: "tidy t ?m0" using st by (simp add: tidy_def t_def)
  have le: "length fs + 5 \<le> 21 * t" using assms(4) by (simp add: t_def)
  from fill_image_files [OF m sp td st(4) le] assms(5) obtain bin ys base where
    fi: "files_in t bin m ys" and b: "(of_nat (6 + i), snd (fs ! i), base) \<in> set ys"
    by blast
  let ?n = "of_nat (6 + i) :: u16" and ?c = "snd (fs ! i)"
  have o: "in_table t ?n" "stored m ?n ?c base" "foot ?c base \<subseteq> {t<..<nf m}" "t < base" "base + nblks ?c \<le> nf m"
    "unat ?n < unat (next_inode m)"
    using fi b by (auto simp: files_in_def in_place_def)
  have lo: "0 < nf m" "nf m + (nat nblocks - nf m) \<le> 65536"
    using nf0 st(3) assms(2) sp by (auto simp: spare_def)
  have same: "img x = mk_img m x" if "0 < x" "x < nf m" for x
    using free_list_chain [OF f lo] that by (simp add: img)
  note sl = in_table_slot [OF o(1)]
  have "tidy t m" using fi by (simp add: files_in_def)
  then have "img (slot ?n) = mk_img m (slot ?n)" using sl by (intro same) (auto simp: tidy_def)
  then have "reread_inode ?n (?m0\<lparr>mk_img := img\<rparr>) = reread_inode ?n m"
    by (intro reread_unchanged) simp
  then have "stored (?m0\<lparr>mk_img := img\<rparr>) ?n ?c base"
    by (intro stored_keep [OF o(2)]) (use o(3) same in auto)
  moreover have "nf m \<le> nat nblocks" using sp adv st(1) by (simp add: spare_def advances_def)
  moreover have "int (6 + i) \<le> mk_ninodes ?m0"
  proof -
    have "nf ?m0 - 1 \<le> 99" using st(3) by linarith
    then have "6 + i < 65536" using assms(4,5) by linarith
    then have "unat ?n = 6 + i" by (rule unat_of_nat16)
    moreover have "uint (next_inode m) \<le> mk_ninodes ?m0 + 1"
      using adv st(2,4,5) by (simp add: advances_def)
    ultimately show ?thesis using o(6) uint_nat [of "next_inode m"] by linarith
  qed
  moreover have "t < base - 1" if "12 < nblks ?c"
  proof -
    have "base - 1 \<in> foot ?c base" using that by (simp add: foot_def)
    with o(3) show ?thesis by auto
  qed
  moreover have "t < 100" using st(3) unfolding t_def by linarith
  ultimately show ?thesis using o(1,4,5) t_def by (intro exI [of _ base] exI [of _ t]) auto
qed

section \<open>The kernel reads the files\<close>

lemma div_lt_nblks: "k < length c \<Longrightarrow> k div BLOCK_SIZE < nblks c"
proof -
  assume "k < length c"
  moreover have "k div 1024 * 1024 \<le> k" by simp
  ultimately have "(k div 1024 + 1) * 1024 \<le> length c + 1023" unfolding add_mult_distrib by linarith
  then have "k div 1024 + 1 \<le> (length c + 1023) div 1024" by (simp add: less_eq_div_iff_mult_less_eq)
  then show ?thesis by (simp add: nblks_def)
qed

lemma chunk_byte: "k < length c \<Longrightarrow> chunk c (k div BLOCK_SIZE) (k mod BLOCK_SIZE) = c ! k"
proof -
  assume k: "k < length c"
  have e: "k div 1024 * 1024 + k mod 1024 = k" by simp
  then have "k mod 1024 < length c - k div 1024 * 1024" using k by linarith
  then show ?thesis by (simp add: chunk_def store_at_def e)
qed

lemma booted_unused: "irefcount (icache (booted (Workbench img)) j) = 0"
  by (auto simp: booted_def fs_init_def fget_def Let_def split: prod.splits)

text \<open>
  C29. Every file given to mkfs is read back by the kernel (with the image as the workbench disk): when the files fit, a block is left
  over and the inodes used lie in the table, inode \<open>6 + i\<close> of the mounted image is a regular
  file, \<open>fs_read\<close> of its length from offset 0 returns exactly the contents of the host file,
  and its blocks are contiguous, as execution from ROM needs.
\<close>

theorem mkfs_files_readable:
  assumes "mkfs nblocks now fs = Some img" and "nblocks \<le> 65535" and "sb_free_list (get_sb (img 0)) \<noteq> 0"
    and "length fs + 5 \<le> 21 * (unat (next_free_blk (start_image nblocks)) - 1)" and "i < length fs"
  shows "\<exists>j s t base. fs_iget (of_nat (6 + i)) (booted (Workbench (\<lambda>b. img (unat b)))) = (Some j, s) \<and>
    itype (icache s j) = FT_FILE \<and> fs_read j 0 (length (snd (fs ! i))) s = (snd (fs ! i), t) \<and>
    (\<forall>k < nblks (snd (fs ! i)). blk_of (view (bc s)) (icache s j) k = of_nat (base + k) \<and> 0 < base)"
proof -
  define n where "n = (of_nat (6 + i) :: u16)"
  let ?s = "booted (Workbench (\<lambda>b. img (unat b)))" and ?c = "snd (fs ! i)"
  let ?m = "(start_image nblocks)\<lparr>mk_img := img\<rparr>"
  note bs = booted_sel [of "\<lambda>b. img (unat b)"]
  from mkfs_stored [OF assms, folded n_def] obtain base t where
    st: "stored ?m n ?c base" and t: "t < base" "base + nblks ?c \<le> nat nblocks" "in_table t n" "t < 100"
    and ni: "int (6 + i) \<le> mk_ninodes (start_image nblocks)" and ind: "12 < nblks ?c \<longrightarrow> t < base - 1"
    by blast
  have n16: "16 \<le> nblocks" using assms(1) by (simp add: mkfs_def split: if_splits)
  obtain lo s0 where m: "s0 = ?s" "fs_ready s0" "uint (sb_ninodes (sb s0)) = mk_ninodes (start_image nblocks)"
    using mkfs_mounted [OF assms(1,2)] by blast
  have un: "unat n = 6 + i"
    unfolding n_def using ni start_image_sel(2) [OF n16] by (intro unat_of_nat16) linarith
  have le: "n \<le> sb_ninodes (sb ?s)"
    using ni m un uint_ge_iff [of "int (6 + i)" "sb_ninodes (sb s0)"] by (simp add: word_le_nat_alt)
  have nz: "n \<noteq> 0" using t(3) by (simp add: in_table_def)
  have free: "irefcount (icache ?s j) = 0" for j by (rule booted_unused)
  have nc: "\<not> cached n ?s" by (simp add: cached_def free)
  obtain j u where g: "fs_iget n ?s = (Some j, u)" and
    im: "inode_image (icache u j) = dinode_at (view (bc ?s)) n" and
    v: "view (bc u) = view (bc ?s)" and ok: "cache_ok (bc u)"
    using iget_miss [OF bs(1) m(2) [unfolded m(1)] nz le nc _ free [of 0]] by (metis zero_less_numeral)
  have sl: "slot n < 100" using in_table_slot [OF t(3)] t(4) by simp
  have "dinode_at (view (bc ?s)) n = reread_inode n ?m"
    using sl unat_of_nat16 [of "slot n"]
    by (simp add: dinode_at_def reread_inode_def bs(2) inode_blk_def inode_off_def slot_def)
  then have "reread_inode n ?m = inode_image (icache u j)" using im by simp
  then have same: "d_type (reread_inode n ?m) = itype (icache u j)" "d_size (reread_inode n ?m) = isize (icache u j)"
    "d_direct (reread_inode n ?m) = direct (icache u j)" "d_indirect (reread_inode n ?m) = indirect (icache u j)"
    by (simp_all add: inode_image_def)
  have c: "nblks ?c \<le> 524" "d_type (reread_inode n ?m) = FT_FILE" "d_size (reread_inode n ?m) = of_nat (length ?c)"
    using st by (simp_all add: stored_def Let_def)
  have len: "length ?c \<le> 524 * 1024" 
  proof (rule ccontr)
    assume "\<not> length ?c \<le> 524 * 1024"
    then have "524 * 1024 div BLOCK_SIZE < nblks ?c" by (intro div_lt_nblks) simp
    with c(1) show False by simp
  qed
  then have sz: "unat (isize (icache u j)) = length ?c"
    using c(3) by (simp add: same unsigned_of_nat take_bit_eq_mod)
  have "base + nblks ?c \<le> 65535" using t(2) assms(2) by linarith
  then have ub: "unat (of_nat (base + k) :: u16) = base + k" if "k < nblks ?c" for k
    using that by (intro unat_of_nat16) simp
  have blk: "blk_of (view (bc u)) (icache u j) k = of_nat (base + k) \<and> view (bc u) (of_nat (base + k)) = chunk ?c k"
    if k: "k < nblks ?c" for k
  proof
    have f: "file_block ?m (reread_inode n ?m) k = of_nat (base + k)" "img (base + k) = chunk ?c k"
      using st k by (simp_all add: stored_def Let_def)
    show "view (bc u) (of_nat (base + k)) = chunk ?c k"
      unfolding v bs(2) using f(2) ub [OF k] by simp
    show "blk_of (view (bc u)) (icache u j) k = of_nat (base + k)"
    proof (cases "k < 12")
      case True
      with f(1) same show ?thesis by (simp add: file_block_def blk_of_def)
    next
      case False
      with k have "12 < nblks ?c" by simp
      then have "unat (indirect (icache u j)) = base - 1" "0 < base - 1"
        using st ind by (simp_all add: stored_def Let_def same)
      then have "indirect (icache u j) \<noteq> 0" by (metis less_irrefl unat_0)
      moreover have "k - 12 < 512" using k c(1) by linarith
      ultimately show ?thesis using False f(1)
        by (simp add: file_block_def blk_of_def same v bs(2) mult.commute)
    qed
  qed
  have nzb: "of_nat (base + k) \<noteq> (0 :: u16)" if "k < nblks ?c" for k
    using ub [OF that] t(1) by (metis add_is_0 less_nat_zero_code unat_0)
  obtain k w where r: "fs_read j 0 (length ?c) u = (map (file_byte (view (bc u)) (icache u j)) [0..<k], w)"
    and k: "k \<le> length ?c" "k = length ?c \<or> blk_of (view (bc u)) (icache u j) (k div BLOCK_SIZE) = 0"
    using fs_read_spec [OF ok, of j 0 "length ?c"] sz by auto
  have "k = length ?c"
  proof (rule ccontr)
    assume "k \<noteq> length ?c"
    with k have "k div BLOCK_SIZE < nblks ?c" by (intro div_lt_nblks) simp
    with k \<open>k \<noteq> length ?c\<close> blk nzb show False by force
  qed
  moreover have "map (file_byte (view (bc u)) (icache u j)) [0..<length ?c] = ?c"
  proof (rule nth_equalityI)
    fix x assume "x < length (map (file_byte (view (bc u)) (icache u j)) [0..<length ?c])"
    then have x: "x < length ?c" by simp
    then show "map (file_byte (view (bc u)) (icache u j)) [0..<length ?c] ! x = ?c ! x"
      using blk [OF div_lt_nblks [OF x]] chunk_byte [OF x] by (simp add: file_byte_def)
  qed simp
  ultimately have "fs_read j 0 (length ?c) u = (?c, w)" using r by simp
  then show ?thesis using g same(1) c(2) blk t(1) unfolding n_def by auto
qed

section \<open>How many blocks the builder needs\<close>

definition costs :: "nat \<Rightarrow> mk \<Rightarrow> mk \<Rightarrow> bool" where
  "costs k m m' \<longleftrightarrow> nf m' \<le> nf m + k"

lemma costs_0: "next_free_blk m' = next_free_blk m \<Longrightarrow> costs 0 m m'"
  by (simp add: costs_def)

lemma costs_trans: "costs j m m1 \<Longrightarrow> costs k m1 m2 \<Longrightarrow> costs (j + k) m m2"
  by (simp add: costs_def)

lemma costs_mono: "costs j m m' \<Longrightarrow> j \<le> k \<Longrightarrow> costs k m m'"
  by (simp add: costs_def)

lemma alloc_block_costs: "alloc_block m = (b, m') \<Longrightarrow> costs 1 m m'"
  by (auto simp: alloc_block_def costs_def unat_word_ariths split: if_splits intro: order.trans [OF mod_less_eq_dividend])

lemma alloc_inode_costs: "alloc_inode m = (n, m') \<Longrightarrow> costs 0 m m'"
  by (auto simp: alloc_inode_def costs_def split: if_splits)

lemma write_inode_costs: "write_inode n di m = Some m' \<Longrightarrow> costs 0 m m'"
  by (rule costs_0) (rule write_inode_spec(4))

lemma add_dirent_costs: "add_dirent dir di nm n m = Some (di', m') \<Longrightarrow> costs 1 m m'"
  by (auto simp: add_dirent_def Let_def costs_def split: if_splits prod.splits
      dest!: write_inode_costs alloc_block_costs [unfolded costs_def])

lemma add_blocks_costs: "add_blocks c k di m = Some (di', m') \<Longrightarrow> costs (nblks c) m m'"
proof (induction c k di m rule: add_blocks.induct)
  case (1 c k di m)
  show ?case
  proof (cases "c = []")
    case True
    with 1(3) show ?thesis by (simp add: add_blocks.simps costs_def)
  next
    case False
    obtain b m1 where a: "alloc_block m = (b, m1)" by fastforce
    note IH = 1(1) [OF False a [symmetric] refl] and IH2 = 1(2) [OF False a [symmetric] refl _ _ refl refl]
    have "costs (nblks (drop BLOCK_SIZE c)) m1 m'"
      using 1(3) [unfolded add_blocks.simps [of c k di m]] IH IH2 a False
      by (auto simp: Let_def costs_def split: if_splits)
    with costs_trans [OF alloc_block_costs [OF a] this] nblks_drop [OF False] show ?thesis by simp
  qed
qed

lemma reserve_indirect_costs: "reserve_indirect k di m = (di', m') \<Longrightarrow> costs 1 m m'"
  by (auto simp: reserve_indirect_def costs_def split: if_splits prod.splits dest!: alloc_block_costs)

lemma add_file_costs:
  assumes "add_file now bin bdi f m = Some (d, m')"
  shows "costs (nblks (snd f) + 2) m m'"
proof -
  obtain nm c where f: "f = (nm, c)" by fastforce
  obtain n m1 d1 m2 d2 m3 m4 where "alloc_inode m = (n, m1)"
    "reserve_indirect (nblks c) ((new_inode FT_FILE 1 now)\<lparr>d_size := of_nat (length c)\<rparr>) m1 = (d1, m2)"
    "add_blocks c 0 d1 m2 = Some (d2, m3)" "write_inode n d2 m3 = Some m4" "add_dirent bin bdi nm n m4 = Some (d, m')"
    using add_file_steps [OF assms [unfolded f]] by blast
  from alloc_inode_costs [OF this(1)] reserve_indirect_costs [OF this(2)] add_blocks_costs [OF this(3)]
    write_inode_costs [OF this(4)] add_dirent_costs [OF this(5)]
  show ?thesis by (simp add: costs_def f)
qed

lemma add_files_costs:
  "add_files now bin fs m = Some m' \<Longrightarrow> costs (sum_list (map (\<lambda>f. nblks (snd f) + 2) fs)) m m'"
proof (induction fs arbitrary: m)
  case (Cons f fs)
  then obtain d m1 where a: "add_file now bin (reread_inode bin m) f m = Some (d, m1)" "add_files now bin fs m1 = Some m'"
    by (auto simp: Option.bind_eq_Some_conv)
  from costs_trans [OF add_file_costs [OF a(1)] Cons.IH [OF a(2)]] show ?case by simp
qed (simp add: costs_def)

lemma make_subdir_costs:
  assumes "make_subdir now p pdi nm m = Some (n, pdi', m')"
  shows "costs 3 m m'"
proof -
  obtain m1 m2 d1 m3 d2 m4 where "alloc_inode m = (n, m1)" "write_inode n (new_inode FT_DIR 2 now) m1 = Some m2"
    "add_dirent n (new_inode FT_DIR 2 now) [46] n m2 = Some (d1, m3)"
    "add_dirent n d1 [46, 46] p m3 = Some (d2, m4)" "add_dirent p pdi nm n m4 = Some (pdi', m')"
    using assms by (auto simp: make_subdir_def Option.bind_eq_Some_conv split: prod.splits)
  from alloc_inode_costs [OF this(1)] write_inode_costs [OF this(2)] add_dirent_costs [OF this(3)]
    add_dirent_costs [OF this(4)] add_dirent_costs [OF this(5)]
  show ?thesis by (simp add: costs_def)
qed

lemma make_devnode_costs:
  assumes "make_devnode now dir di nm ma mi m = Some (di', m')"
  shows "costs 1 m m'"
proof -
  obtain n m1 m2 where "alloc_inode m = (n, m1)"
    "write_inode n ((new_inode FT_DEV 1 now)\<lparr>d_major := ma, d_minor := mi\<rparr>) m1 = Some m2"
    "add_dirent dir di nm n m2 = Some (di', m')"
    using assms by (auto simp: make_devnode_def Option.bind_eq_Some_conv split: prod.splits)
  from alloc_inode_costs [OF this(1)] write_inode_costs [OF this(2)] add_dirent_costs [OF this(3)]
  show ?thesis by (simp add: costs_def)
qed

lemma fill_image_costs:
  assumes "fill_image now fs m0 = Some m'"
  shows "costs (12 + sum_list (map (\<lambda>f. nblks (snd f) + 2) fs)) m0 m'"
proof -
  let ?new = "new_inode FT_DIR 2 now"
  obtain root m1 m2 r1 m3 r2 m4 bin r3 m5 dev r4 m6 tmp r5 m7 dd m8 where
    "alloc_inode m0 = (root, m1)" "write_inode root ?new m1 = Some m2"
    "add_dirent root ?new [46] root m2 = Some (r1, m3)" "add_dirent root r1 [46, 46] root m3 = Some (r2, m4)"
    "make_subdir now root r2 [98, 105, 110] m4 = Some (bin, r3, m5)"
    "make_subdir now root r3 [100, 101, 118] m5 = Some (dev, r4, m6)"
    "make_subdir now root r4 [116, 109, 112] m6 = Some (tmp, r5, m7)"
    "make_devnode now dev (reread_inode dev m7) [118, 100, 112] 2 0 m7 = Some (dd, m8)"
    "add_files now bin fs m8 = Some m'"
    using assms(1) by (auto simp: fill_image_def Option.bind_eq_Some_conv split: prod.splits)
  from alloc_inode_costs [OF this(1)] write_inode_costs [OF this(2)] add_dirent_costs [OF this(3)]
    add_dirent_costs [OF this(4)] make_subdir_costs [OF this(5)] make_subdir_costs [OF this(6)]
    make_subdir_costs [OF this(7)] make_devnode_costs [OF this(8)] add_files_costs [OF this(9)]
  show ?thesis by (simp add: costs_def)
qed

lemma mkfs_free_left:
  assumes "mkfs nblocks now fs = Some img" and "nblocks \<le> 65535"
    and "nf (start_image nblocks) + 12 + sum_list (map (\<lambda>f. nblks (snd f) + 2) fs) < nat nblocks"
  shows "sb_free_list (get_sb (img 0)) \<noteq> 0"
proof -
  obtain m h img1 where n16: "16 \<le> nblocks" and m: "fill_image now fs (start_image nblocks) = Some m"
    and f: "free_list (nf m) (nat nblocks - nf m) (mk_img m) = (h, img1)"
    and img: "sb_free_list (get_sb (img 0)) = h"
    using assms(1) unfolding mkfs_def
    by (cases "fill_image now fs (start_image nblocks)") (auto simp: Let_def get_put_sb split: if_splits prod.splits)
  have lt: "nf m < nat nblocks" using fill_image_costs [OF m] assms(3) by (simp add: costs_def)
  then obtain k where k: "nat nblocks - nf m = Suc k" by (metis Suc_diff_Suc)
  have pos: "0 < nf m"
    using fill_image_advances [OF m] start_image_sel [OF n16] assms(2)
    by (simp add: advances_def word_le_nat_alt)
  have "h = of_nat (nf m)" using f by (simp add: k split: prod.splits)
  then have "unat h = nf m" using lt assms(2) by simp
  with pos show ?thesis unfolding img by (metis less_irrefl unat_0)
qed

lemma mkfs_files_readable_witness:
  "\<exists>img j s t. mkfs 64 0 [([99], [1, 2, 3])] = Some img \<and>
     fs_iget 6 (booted (Workbench (\<lambda>b. img (unat b)))) = (Some j, s) \<and> fs_read j 0 3 s = ([1, 2, 3], t)"
proof -
  have "\<exists>img. mkfs 64 0 [([99], [1, 2, 3])] = Some img"
    by (rule mkfs_succeeds) (auto simp: start_image_def)
  then obtain img where img: "mkfs 64 0 [([99], [1, 2, 3])] = Some img" ..
  have st: "unat (next_free_blk (start_image 64)) = 2" by (simp add: start_image_def Let_def)
  have free: "sb_free_list (get_sb (img 0)) \<noteq> 0"
    by (rule mkfs_free_left [OF img]) (simp_all add: st nblks_def)
  obtain j s t where "fs_iget 6 (booted (Workbench (\<lambda>b. img (unat b)))) = (Some j, s)" "fs_read j 0 3 s = ([1, 2, 3], t)"
    using mkfs_files_readable [OF img _ free, of 0] st by (auto simp: numeral_3_eq_3)
  with img show ?thesis by blast
qed

text \<open>
  The bound on the number of inodes in use is needed. mkfs reserves as many blocks as 48 bytes
  per inode fill, but a block holds 21 inodes and 16 bytes stay unused, so the kernel's table
  is longer: on the standard image of 512 blocks the last inodes lie in the first data block,
  which mkfs gives to the root directory.
\<close>

lemma inode_table_overlaps:
  "unat (next_free_blk (start_image 512)) = 7" "mk_ninodes (start_image 512) = 128"
  "slot 127 = 7" "slot 128 = 7"
  by (simp_all add: start_image_def Let_def slot_def)

end
