(* ===== verification/Romfix.thy ===== *)
theory Romfix
  imports Exec
begin

text \<open>
  The tool tools/romfix.c, which resolves the relocations of the programs in a ROM image at
  build time. The ROM is a function from host offsets to bytes with its size beside it. The
  tool checks only the first byte of most accesses; the bytes from the size on stand for
  whatever lies behind its buffer.
\<close>

record rom =
  rom_bytes :: "nat \<Rightarrow> u8"
  rom_size :: nat

text \<open>The arguments of the tool: the offset of the disk in the ROM and the address of user data.\<close>

record rom_args =
  romdisk_off :: u32
  user_base :: u32

definition rom_block :: "rom_args \<Rightarrow> rom \<Rightarrow> u16 \<Rightarrow> nat option" where
  "rom_block a r blkno =
     (let off = romdisk_off a + ucast blkno * 1024
      in if unat (off + 1024) > rom_size r then None else Some (unat off))"

definition read_inode :: "rom_args \<Rightarrow> rom \<Rightarrow> u16 \<Rightarrow> disk_inode option" where
  "read_inode a r n =
     map_option (\<lambda>p. get_dinode (rom_bytes r) (p + ((unat n - 1) mod INODES_PER_BLK) * 48))
       (rom_block a r (of_nat (1 + (unat n - 1) div INODES_PER_BLK)))"

section \<open>The place of a file\<close>

definition file_blocks :: "disk_inode \<Rightarrow> u32" where
  "file_blocks di = (d_size di + 1024 - 1) div 1024"

text \<open>The first block of a file in one piece, checked block by block.\<close>

definition contiguous_direct :: "disk_inode \<Rightarrow> bool" where
  "contiguous_direct di \<longleftrightarrow>
     (\<forall>i \<in> set [1..<min (unat (file_blocks di)) 12]. (ucast (d_direct di i) :: u32) = ucast (d_direct di 0) + of_nat i)"

definition contiguous_indirect :: "rom \<Rightarrow> nat \<Rightarrow> disk_inode \<Rightarrow> bool" where
  "contiguous_indirect r ind di \<longleftrightarrow>
     (\<forall>i \<in> set [12..<unat (file_blocks di)].
        (ucast (get16 (rom_bytes r) (ind + (i - 12) * 2)) :: u32) = ucast (d_direct di 0) + of_nat i)"

definition file_rom_addr :: "rom_args \<Rightarrow> rom \<Rightarrow> disk_inode \<Rightarrow> u32" where
  "file_rom_addr a r di =
     (if d_size di = 0 \<or> d_direct di 0 = 0 then 0
      else if \<not> contiguous_direct di then 0
      else let addr = romdisk_off a + ucast (d_direct di 0) * 1024
           in if file_blocks di > 12
              then (if d_indirect di = 0 then 0
                    else case rom_block a r (d_indirect di) of
                           None \<Rightarrow> 0
                         | Some ind \<Rightarrow> if contiguous_indirect r ind di then addr else 0)
              else addr)"

definition file_data_ptr :: "rom \<Rightarrow> u32 \<Rightarrow> u32 \<Rightarrow> nat option" where
  "file_data_ptr r rom_base file_off =
     (let addr = rom_base + file_off in if unat addr \<ge> rom_size r then None else Some (unat addr))"

section \<open>One program\<close>

definition rom_header :: "rom \<Rightarrow> nat \<Rightarrow> genix_header" where
  "rom_header r p = header_of (map (\<lambda>i. rom_bytes r (p + i)) [0..<GENIX_HDR_SIZE])"

definition put_rom32 :: "nat \<Rightarrow> u32 \<Rightarrow> rom \<Rightarrow> rom" where
  "put_rom32 p v r = r\<lparr>rom_bytes := put32 (rom_bytes r) p v\<rparr>"

text \<open>The body of the relocation loop: entry \<open>i\<close> of the table at \<open>reloc_ptr\<close>.\<close>

definition fix_entry :: "rom_args \<Rightarrow> genix_header \<Rightarrow> u32 \<Rightarrow> nat \<Rightarrow> nat \<Rightarrow> rom \<Rightarrow> rom" where
  "fix_entry a h rom_base reloc_ptr i r =
     (let off = get32 (rom_bytes r) (reloc_ptr + unat (of_nat i * 4 :: u32))
      in if off AND 1 \<noteq> 0 \<or> off + 4 > h_load_size h then r
         else if drop_bit 16 (h_stack_size h) > 0 \<and> off \<ge> h_text_size h then r
         else case file_data_ptr r rom_base (32 + off) of
                None \<Rightarrow> r
              | Some p \<Rightarrow>
                  let val = get32 (rom_bytes r) p
                  in put_rom32 p (if val < h_text_size h then val + (rom_base + 32)
                                  else (val - h_text_size h) + user_base a) r)"

definition process_binary :: "rom_args \<Rightarrow> disk_inode \<Rightarrow> rom \<Rightarrow> int \<times> rom" where
  "process_binary a di r =
     (let rom_base = file_rom_addr a r di
      in if rom_base = 0 then (0, r)
         else case file_data_ptr r rom_base 0 of
           None \<Rightarrow> (0, r)
         | Some hdr \<Rightarrow>
             if d_size di < 32 then (0, r)
             else let h = rom_header r hdr
                  in if h_magic h \<noteq> GENIX_MAGIC then (0, r)
                     else if h_flags h AND GENIX_FLAG_XIP \<noteq> 0 then (0, r)
                     else if h_text_size h = 0 then (0, r)
                     else if h_text_size h > h_load_size h then (0, r)
                     else if h_reloc_count h = 0
                     then (1, put_rom32 (hdr + 20) (h_flags h OR GENIX_FLAG_XIP) r)
                     else case file_data_ptr r rom_base (32 + h_load_size h) of
                            None \<Rightarrow> (- 1, r)
                          | Some rp \<Rightarrow>
                              (1, put_rom32 (hdr + 20) (h_flags h OR GENIX_FLAG_XIP)
                                    (fold (fix_entry a h rom_base rp) [0..<unat (h_reloc_count h)] r)))"

section \<open>The directory tree\<close>

text \<open>The block of a directory that holds the entry at an offset.\<close>

definition dir_block :: "rom_args \<Rightarrow> rom \<Rightarrow> disk_inode \<Rightarrow> nat \<Rightarrow> nat option" where
  "dir_block a r di blk_idx =
     (if blk_idx < 12 then rom_block a r (d_direct di blk_idx)
      else case rom_block a r (d_indirect di) of
             None \<Rightarrow> None
           | Some ind \<Rightarrow> rom_block a r (get16 (rom_bytes r) (ind + (blk_idx - 12) * 2)))"

definition dot_name :: "bytes \<Rightarrow> bool" where
  "dot_name nm \<longleftrightarrow> cstring nm = [46] \<or> cstring nm = [46, 46]"

text \<open>
  The loop over the entries of a directory from an offset on, with the count so far. A
  subdirectory is scanned by the same function, so a directory that contains itself is never
  finished: the result is \<open>None\<close> then.
\<close>

partial_function (option) scan_entries ::
  "rom_args \<Rightarrow> disk_inode \<Rightarrow> u32 \<Rightarrow> int \<Rightarrow> rom \<Rightarrow> (int \<times> rom) option" where
  "scan_entries a di off processed r =
     (if off \<ge> d_size di then Some (processed, r)
      else case dir_block a r di (unat (off div 1024)) of
        None \<Rightarrow> Some (processed, r)
      | Some blk \<Rightarrow>
          let de = blk + unat (off mod 1024);
              child = get16 (rom_bytes r) de;
              nm = map (\<lambda>i. rom_bytes r (de + 2 + i)) [0..<30]
          in if child = 0 \<or> dot_name nm then scan_entries a di (off + 32) processed r
             else case read_inode a r child of
               None \<Rightarrow> scan_entries a di (off + 32) processed r
             | Some cdi \<Rightarrow>
                 if d_type cdi = FT_DIR
                 then Option.bind (scan_entries a cdi 0 0 r)
                        (\<lambda>(n, r1). scan_entries a di (off + 32) (processed + n) r1)
                 else if d_type cdi = FT_FILE
                 then (case process_binary a cdi r of (rc, r1) \<Rightarrow>
                         scan_entries a di (off + 32) (if rc > 0 then processed + rc else processed) r1)
                 else scan_entries a di (off + 32) processed r)"

definition scan_directory :: "rom_args \<Rightarrow> u16 \<Rightarrow> rom \<Rightarrow> (int \<times> rom) option" where
  "scan_directory a n r =
     (case read_inode a r n of
        None \<Rightarrow> Some (- 1, r)
      | Some di \<Rightarrow> if d_type di \<noteq> FT_DIR then Some (- 1, r) else scan_entries a di 0 0 r)"

text \<open>
  The tool: \<open>Inl\<close> is a ROM it refuses, \<open>Inr\<close> the file afterwards, which is rewritten only when
  a program was processed.
\<close>

definition romfix :: "rom_args \<Rightarrow> rom \<Rightarrow> (unit + rom) option" where
  "romfix a r =
     (case rom_block a r 0 of
        None \<Rightarrow> Some (Inl ())
      | Some p \<Rightarrow>
          if get32 (rom_bytes r) p \<noteq> MINIFS_MAGIC then Some (Inl ())
          else map_option (\<lambda>(n, r1). Inr (if n > 0 then r1 else r)) (scan_directory a 1 r))"

end
