(* ===== verification/Romfix_Correct.thy ===== *)
theory Romfix_Correct
  imports Romfix Exec_Correct
begin

text \<open>
  What romfix does to a program, and that building with it and loading in place give what one
  relocation of the whole program gives.
\<close>

section \<open>Patching words\<close>

text \<open>Two words that do not overlap.\<close>

definition disjoint_words :: "u32 \<Rightarrow> u32 \<Rightarrow> bool" where
  "disjoint_words x y \<longleftrightarrow> unat x + 4 \<le> unat y \<or> unat y + 4 \<le> unat x"

lemma disjoint_words_sym: "disjoint_words x y \<Longrightarrow> disjoint_words y x"
  by (auto simp: disjoint_words_def)

text \<open>
  A store of words at offsets. Patching each word of a table of separate words once leaves in
  each the patched original, in whatever order the table lists them.
\<close>

locale patching =
  fixes rd :: "'m \<Rightarrow> u32 \<Rightarrow> u32" and wr :: "u32 \<Rightarrow> u32 \<Rightarrow> 'm \<Rightarrow> 'm" and valid :: "u32 \<Rightarrow> bool"
  assumes rd_wr: "valid x \<Longrightarrow> rd (wr x v m) x = v"
    and rd_apart: "valid x \<Longrightarrow> valid y \<Longrightarrow> disjoint_words x y \<Longrightarrow> rd (wr x v m) y = rd m y"
begin

lemma untouched:
  "\<forall>x \<in> set xs. valid x \<and> disjoint_words x y \<Longrightarrow> valid y \<Longrightarrow> rd (fold (\<lambda>x m. wr x (g (rd m x)) m) xs m) y = rd m y"
  by (induction xs arbitrary: m) (simp_all add: rd_apart)

lemma patched:
  "\<forall>x \<in> set xs. valid x \<Longrightarrow> sorted_wrt disjoint_words xs \<Longrightarrow> y \<in> set xs \<Longrightarrow>
     rd (fold (\<lambda>x m. wr x (g (rd m x)) m) xs m) y = g (rd m y)"
proof (induction xs arbitrary: m)
  case (Cons x xs)
  show ?case
  proof (cases "y = x")
    case True
    have "\<forall>z \<in> set xs. valid z \<and> disjoint_words z x" using Cons.prems(1,2) by (auto intro: disjoint_words_sym)
    with Cons.prems(1) True show ?thesis by (simp add: untouched rd_wr)
  next
    case False
    with Cons show ?thesis by (auto simp: rd_apart)
  qed
qed simp

end

lemma get32_cong_nat: "(\<And>i. a \<le> i \<Longrightarrow> m i = n i) \<Longrightarrow> get32 m a = get32 n (a :: nat)"
  by (simp add: get32_def get16_def)

lemma put_rom32_sel [simp]: "rom_bytes (put_rom32 p v r) = put32 (rom_bytes r) p v" "rom_size (put_rom32 p v r) = rom_size r"
  by (simp_all add: put_rom32_def)

interpretation rom_words: patching "\<lambda>r x. get32 (rom_bytes r) (b + unat x)"
    "\<lambda>x. put_rom32 (b + unat x)" "\<lambda>_. True" for b
  by unfold_locales (auto simp: put_rom32_def disjoint_words_def intro: get32_put32_other_nat)

text \<open>The data segment in memory: the word of offset \<open>x\<close> of the image, text excluded.\<close>

definition data_valid :: "u32 \<Rightarrow> u32 \<Rightarrow> bool" where
  "data_valid t x \<longleftrightarrow> t \<le> x \<and> unat x + 4 \<le> 4294967296"

lemma unat_minus_le: "t \<le> x \<Longrightarrow> unat (x - t :: u32) = unat x - unat t"
  by (simp add: unat_sub)

interpretation ram_words: patching "\<lambda>m x. get32 m (d + (x - t))" "\<lambda>x v m. put32 m (d + (x - t)) v" "data_valid t" for d t
proof unfold_locales
  fix x y v :: u32 and m :: memory
  show "get32 (put32 m (d + (x - t)) v) (d + (x - t)) = v" by (rule get32_put32_u32)
  assume "data_valid t x" "data_valid t y" "disjoint_words x y"
  then show "get32 (put32 m (d + (x - t)) v) (d + (y - t)) = get32 m (d + (y - t))"
    by (intro get32_put32_rel) (auto simp: data_valid_def disjoint_words_def unat_minus_le word_le_nat_alt)
qed

section \<open>The relocation table\<close>

definition rom_relocs :: "genix_header \<Rightarrow> nat \<Rightarrow> rom \<Rightarrow> u32 list" where
  "rom_relocs h b r = map (\<lambda>i. get32 (rom_bytes r) (b + 32 + unat (h_load_size h) + 4 * i)) [0..<unat (h_reloc_count h)]"

text \<open>A table as mkbin writes it: even offsets of separate words in the text or in the data.\<close>

definition table_ok :: "genix_header \<Rightarrow> u32 list \<Rightarrow> bool" where
  "table_ok h os \<longleftrightarrow> sorted_wrt disjoint_words os \<and>
     (\<forall>x \<in> set os. x AND 1 = 0 \<and> unat x + 4 \<le> unat (h_load_size h) \<and>
        (x < h_text_size h \<longrightarrow> unat x + 4 \<le> unat (h_text_size h)))"

lemma table_okD:
  assumes "table_ok h os" and "x \<in> set os"
  shows "\<not> reloc_bad (h_load_size h) x" and "unat x + 4 \<le> unat (h_load_size h)"
proof -
  show u: "unat x + 4 \<le> unat (h_load_size h)" using assms by (simp add: table_ok_def)
  then have "unat (x + 4) = unat x + 4" using unat_plus_small [of x 4] u32_bound [of "h_load_size h"] by simp
  with u assms show "\<not> reloc_bad (h_load_size h) x"
    by (auto simp: table_ok_def reloc_bad_def word_less_nat_alt)
qed

lemma sorted_wrt_disjoint:
  "sorted_wrt disjoint_words os \<Longrightarrow> x \<in> set os \<Longrightarrow> y \<in> set os \<Longrightarrow> x \<noteq> y \<Longrightarrow> disjoint_words x y"
  by (induction os) (auto intro: disjoint_words_sym)

lemma sorted_wrt_filter_disjoint: "table_ok h os \<Longrightarrow> sorted_wrt disjoint_words (filter P os)"
  by (simp add: table_ok_def sorted_wrt_filter)

text \<open>The value romfix gives a word, and the words it leaves to the loader.\<close>

definition deferred :: "genix_header \<Rightarrow> u32 \<Rightarrow> bool" where
  "deferred h x \<longleftrightarrow> HDR_HAS_GOT h \<and> h_text_size h \<le> x"

definition rom_value :: "rom_args \<Rightarrow> genix_header \<Rightarrow> u32 \<Rightarrow> u32 \<Rightarrow> u32" where
  "rom_value a h rb = split_value (h_text_size h) (rb + 32) (user_base a)"

lemma rom_header_eq:
  "rom_header r p = (let m = (\<lambda>k. get32 (rom_bytes r) (p + k)) in
     \<lparr>h_magic = get32 (rom_bytes r) p, h_load_size = m 4, h_bss_size = m 8, h_entry = m 12,
      h_stack_size = m 16, h_flags = m 20, h_text_size = m 24, h_reloc_count = m 28\<rparr>)"
  by (simp add: rom_header_def header_of_def Let_def get32_def get16_def add.commute)

section \<open>The loop over the table\<close>

lemma fold_rom_frame:
  "\<forall>x \<in> set xs. unat x + 4 \<le> n \<Longrightarrow> i < b \<or> b + n \<le> i \<Longrightarrow>
     rom_bytes (fold (\<lambda>x r. put_rom32 (b + unat x) (g (get32 (rom_bytes r) (b + unat x))) r) xs r) i = rom_bytes r i \<and>
     rom_size (fold (\<lambda>x r. put_rom32 (b + unat x) (g (get32 (rom_bytes r) (b + unat x))) r) xs r) = rom_size r"
  by (induction xs arbitrary: r) (auto simp: put_rom32_def put32_other_nat)

lemma rom_words_frame:
  "\<forall>x \<in> set xs. \<forall>j < 4. i \<noteq> b + unat x + j \<Longrightarrow>
     rom_bytes (fold (\<lambda>x r. put_rom32 (b + unat x) (g (get32 (rom_bytes r) (b + unat x))) r) xs r) i = rom_bytes r i"
proof (induction xs arbitrary: r)
  case (Cons x xs)
  have "\<forall>j < 4. i \<noteq> b + unat x + j" using Cons.prems by simp
  then have "i \<noteq> b + unat x" "i \<noteq> b + unat x + 1" "i \<noteq> b + unat x + 2" "i \<noteq> b + unat x + 2 + 1"
    by (auto dest: spec [of _ 0] spec [of _ 1] spec [of _ 2] spec [of _ 3])
  then have "put32 m (b + unat x) v i = m i" for m and v by (simp add: put32_other)
  then show ?case using Cons by (simp add: put_rom32_def)
qed simp

text \<open>The program in the ROM does not wrap around the address space and lies in the ROM.\<close>

definition fits_rom :: "genix_header \<Rightarrow> u32 \<Rightarrow> rom \<Rightarrow> bool" where
  "fits_rom h rb r \<longleftrightarrow> unat rb + 32 + unat (h_load_size h) + 4 * unat (h_reloc_count h) \<le> rom_size r \<and>
     rom_size r \<le> 4294967295"

lemma fix_entry_word:
  assumes "table_ok h os" and "x \<in> set os" and "fits_rom h rb r"
    and "get32 (rom_bytes r) (rp + unat (of_nat i * 4 :: u32)) = x"
  shows "fix_entry a h rb rp i r = (if deferred h x then r
     else put_rom32 (unat rb + 32 + unat x) (rom_value a h rb (get32 (rom_bytes r) (unat rb + 32 + unat x))) r)"
proof -
  note t = table_okD [OF assms(1,2)]
  have le: "unat rb + (32 + unat x) < 4294967296" using t(2) assms(3) by (simp add: fits_rom_def)
  have "unat (32 + x) = 32 + unat x" using unat_plus_small [of x 32] le by (simp add: add.commute)
  then have "unat (rb + (32 + x)) = unat rb + (32 + unat x)"
    using le by (simp add: unat_word_ariths)
  then have p: "file_data_ptr r rb (32 + x) = Some (unat rb + 32 + unat x)"
    using t(2) assms(3) by (simp add: file_data_ptr_def fits_rom_def Let_def)
  have b: "\<not> (x AND 1 \<noteq> 0 \<or> x + 4 > h_load_size h)" using t(1) by (simp add: reloc_bad_def)
  have g: "0 < drop_bit 16 (h_stack_size h) \<longleftrightarrow> HDR_HAS_GOT h" by (simp add: HDR_HAS_GOT_def word_gt_0)
  show ?thesis
    unfolding fix_entry_def Let_def assms(4) using b
    by (simp add: g p deferred_def rom_value_def split_value_def)
qed

lemma fix_entries:
  assumes t: "table_ok h os" and os: "os = rom_relocs h (unat rb) r" and f: "fits_rom h rb r"
    and rp: "rp = unat rb + 32 + unat (h_load_size h)"
  shows "fold (fix_entry a h rb rp) [0..<unat (h_reloc_count h)] r =
    fold (\<lambda>x r. put_rom32 (unat rb + 32 + unat x) (rom_value a h rb (get32 (rom_bytes r) (unat rb + 32 + unat x))) r)
      (filter (\<lambda>x. \<not> deferred h x) os) r"
proof -
  let ?b = "unat rb + 32"
  let ?w = "\<lambda>x r. put_rom32 (?b + unat x) (rom_value a h rb (get32 (rom_bytes r) (?b + unat x))) r"
  let ?n = "unat (h_reloc_count h)"
  have len: "length os = ?n" by (simp add: os rom_relocs_def)
  have "fold (fix_entry a h rb rp) [0..<k] r = fold ?w (filter (\<lambda>x. \<not> deferred h x) (take k os)) r" if "k \<le> ?n" for k
    using that
  proof (induction k)
    case (Suc k)
    let ?xs = "filter (\<lambda>x. \<not> deferred h x) (take k os)"
    let ?r = "fold ?w ?xs r"
    have kn: "k < ?n" using Suc.prems by simp
    have b: "\<forall>x \<in> set ?xs. unat x + 4 \<le> unat (h_load_size h)"
      using table_okD(2) [OF t] by (auto dest: in_set_takeD)
    have fr: "rom_bytes ?r i = rom_bytes r i" "rom_size ?r = rom_size r" if "rp \<le> i" for i
      using fold_rom_frame [OF b, of i ?b] that by (simp_all add: rp)
    have "4 * k < 4294967296" using kn f by (simp add: fits_rom_def)
    moreover have "of_nat k * 4 = (of_nat (4 * k) :: u32)" by simp
    ultimately have i4: "unat (of_nat k * 4 :: u32) = 4 * k"
      by (simp only: unsigned_of_nat take_bit_eq_mod) simp
    have "get32 (rom_bytes ?r) (rp + unat (of_nat k * 4 :: u32)) = get32 (rom_bytes r) (rp + 4 * k)"
      unfolding i4 by (intro get32_cong_nat fr) simp
    also have "\<dots> = os ! k" using kn by (simp add: os rom_relocs_def rp)
    finally have e: "get32 (rom_bytes ?r) (rp + unat (of_nat k * 4 :: u32)) = os ! k" .
    have m: "os ! k \<in> set os" using kn len by simp
    have f': "fits_rom h rb ?r" using f fr(2) [of rp] by (simp add: fits_rom_def)
    show ?case
      using Suc fix_entry_word [OF t m f' e] kn len by (simp add: take_Suc_conv_app_nth)
  qed simp
  from this [of ?n] len show ?thesis by simp
qed

section \<open>A program in the ROM\<close>

lemma process_binary_done:
  assumes "process_binary a di r = (1, r')" and rb: "rb = file_rom_addr a r di" and h: "h = rom_header r (unat rb)"
    and t: "table_ok h os" and os: "os = rom_relocs h (unat rb) r" and f: "fits_rom h rb r"
  shows "r' = put_rom32 (unat rb + 20) (h_flags h OR GENIX_FLAG_XIP)
      (fold (\<lambda>x r. put_rom32 (unat rb + 32 + unat x) (rom_value a h rb (get32 (rom_bytes r) (unat rb + 32 + unat x))) r)
        (filter (\<lambda>x. \<not> deferred h x) os) r)"
    and "h_text_size h \<le> h_load_size h" and "h_magic h = GENIX_MAGIC"
proof -
  have p0: "file_data_ptr r rb 0 = Some (unat rb)"
    using f by (simp add: file_data_ptr_def fits_rom_def Let_def)
  have g: "h_magic h = GENIX_MAGIC" "h_text_size h \<noteq> 0" "\<not> h_text_size h > h_load_size h"
    and d: "(if h_reloc_count h = 0 then (1 :: int, put_rom32 (unat rb + 20) (h_flags h OR GENIX_FLAG_XIP) r)
        else case file_data_ptr r rb (32 + h_load_size h) of
               None \<Rightarrow> (- 1, r)
             | Some rp \<Rightarrow> (1, put_rom32 (unat rb + 20) (h_flags h OR GENIX_FLAG_XIP)
                 (fold (fix_entry a h rb rp) [0..<unat (h_reloc_count h)] r))) = (1, r')"
    using assms(1) p0 by (auto simp: process_binary_def Let_def rb [symmetric] h [symmetric] split: if_splits)
  show "h_text_size h \<le> h_load_size h" "h_magic h = GENIX_MAGIC" using g by simp_all
  have le: "unat rb + (32 + unat (h_load_size h)) < 4294967296" using f by (simp add: fits_rom_def)
  have "unat (32 + h_load_size h) = 32 + unat (h_load_size h)"
    using unat_plus_small [of "h_load_size h" 32] le by (simp add: add.commute)
  then have u: "unat (rb + (32 + h_load_size h)) = unat rb + 32 + unat (h_load_size h)"
    using le by (simp add: unat_word_ariths)
  show "r' = put_rom32 (unat rb + 20) (h_flags h OR GENIX_FLAG_XIP)
      (fold (\<lambda>x r. put_rom32 (unat rb + 32 + unat x) (rom_value a h rb (get32 (rom_bytes r) (unat rb + 32 + unat x))) r)
        (filter (\<lambda>x. \<not> deferred h x) os) r)"
  proof (cases "h_reloc_count h = 0")
    case True
    with d show ?thesis by (simp add: os rom_relocs_def)
  next
    case False
    then have "0 < unat (h_reloc_count h)" by (simp add: unat_gt_0)
    then have "unat rb + 32 + unat (h_load_size h) < rom_size r" using f by (simp add: fits_rom_def)
    then have "file_data_ptr r rb (32 + h_load_size h) = Some (unat rb + 32 + unat (h_load_size h))"
      by (simp add: file_data_ptr_def Let_def u)
    with d False fix_entries [OF t os f refl, of a] show ?thesis by simp
  qed
qed

lemma process_binary_words:
  assumes "process_binary a di r = (1, r')" and rb: "rb = file_rom_addr a r di" and h: "h = rom_header r (unat rb)"
    and t: "table_ok h os" and os: "os = rom_relocs h (unat rb) r" and f: "fits_rom h rb r"
  shows "x \<in> set os \<Longrightarrow> get32 (rom_bytes r') (unat rb + 32 + unat x) =
      (if deferred h x then get32 (rom_bytes r) (unat rb + 32 + unat x)
       else rom_value a h rb (get32 (rom_bytes r) (unat rb + 32 + unat x)))"
    and "i < unat rb + 20 \<or> unat rb + 24 \<le> i \<Longrightarrow> \<forall>x \<in> set os. \<not> deferred h x \<longrightarrow> (\<forall>j < 4. i \<noteq> unat rb + 32 + unat x + j) \<Longrightarrow>
      rom_bytes r' i = rom_bytes r i"
    and "rom_header r' (unat rb) = h\<lparr>h_flags := h_flags h OR GENIX_FLAG_XIP\<rparr>"
proof -
  let ?b = "unat rb + 32" and ?xs = "filter (\<lambda>x. \<not> deferred h x) os"
  let ?r = "fold (\<lambda>x r. put_rom32 (?b + unat x) (rom_value a h rb (get32 (rom_bytes r) (?b + unat x))) r) ?xs r"
  have r': "r' = put_rom32 (unat rb + 20) (h_flags h OR GENIX_FLAG_XIP) ?r"
    using process_binary_done(1) [OF assms] .
  have "rom_bytes r' i = rom_bytes ?r i" if "i < unat rb + 20 \<or> unat rb + 24 \<le> i" for i
    unfolding r' put_rom32_sel using that by (intro put32_other_nat) auto
  then show fr: "i < unat rb + 20 \<or> unat rb + 24 \<le> i \<Longrightarrow>
      \<forall>x \<in> set os. \<not> deferred h x \<longrightarrow> (\<forall>j < 4. i \<noteq> unat rb + 32 + unat x + j) \<Longrightarrow> rom_bytes r' i = rom_bytes r i" for i
    by (subst rom_words_frame [symmetric, of ?xs i ?b]) auto
  show "get32 (rom_bytes r') (?b + unat x) =
      (if deferred h x then get32 (rom_bytes r) (?b + unat x)
       else rom_value a h rb (get32 (rom_bytes r) (?b + unat x)))" if x: "x \<in> set os"
  proof -
    have e: "get32 (rom_bytes r') (?b + unat x) = get32 (rom_bytes ?r) (?b + unat x)"
      by (simp add: r' put_rom32_def get32_put32_other_nat)
    have s: "sorted_wrt disjoint_words os" using t by (simp add: table_ok_def)
    show ?thesis
    proof (cases "deferred h x")
      case True
      have "disjoint_words y x" if "y \<in> set ?xs" for y
        using sorted_wrt_disjoint [OF s] that x True by auto
      then show ?thesis unfolding e using rom_words.untouched [of ?xs x ?b] True by simp
    next
      case False
      have "sorted_wrt disjoint_words ?xs" by (rule sorted_wrt_filter_disjoint [OF t])
      with rom_words.patched [of ?xs x ?b] x False show ?thesis unfolding e by simp
    qed
  qed
  have b32: "rom_bytes r' i = rom_bytes r i" if "unat rb \<le> i" "i < ?b" "i < unat rb + 20 \<or> unat rb + 24 \<le> i" for i
    using that by (intro fr) auto
  have "get32 (rom_bytes r') (unat rb + 20) = h_flags h OR GENIX_FLAG_XIP" by (simp add: r' put_rom32_def)
  moreover have "get32 (rom_bytes r') (unat rb + k) = get32 (rom_bytes r) (unat rb + k)"
    if "k + 4 \<le> 20 \<or> 24 \<le> k" "k + 4 \<le> 32" for k
    using that by (auto simp: get32_def get16_def b32)
  from this [of 0] this [of 4] this [of 8] this [of 12] this [of 16] this [of 24] this [of 28]
  have "get32 (rom_bytes r') (unat rb) = get32 (rom_bytes r) (unat rb)"
    "\<forall>k \<in> {4, 8, 12, 16, 24, 28}. get32 (rom_bytes r') (unat rb + k) = get32 (rom_bytes r) (unat rb + k)"
    by simp_all
  ultimately show "rom_header r' (unat rb) = h\<lparr>h_flags := h_flags h OR GENIX_FLAG_XIP\<rparr>"
    by (simp add: h rom_header_eq)
qed

section \<open>Relocation of the data segment at load time\<close>

lemma table_place:
  assumes "unat (ls - t :: u32) + 4 * n \<le> 4294967296" and "i < n"
  shows "unat (ls - t + 4 * of_nat i) = unat (ls - t) + 4 * i"
proof -
  have "ls - t + 4 * of_nat i = ls - t + of_nat (4 * i)" by simp
  moreover have "unat (ls - t + of_nat (4 * i) :: u32) = unat (ls - t) + 4 * i"
    by (rule unat_plus_small) (use assms in linarith)
  ultimately show ?thesis by simp
qed

lemma relocate_data_words:
  assumes t: "table_ok h os" and n: "n = length os" and tl: "h_text_size h \<le> h_load_size h"
    and fit: "unat (h_load_size h - h_text_size h) + 4 * n \<le> 4294967296"
    and tab: "\<forall>i < n. get32 m (da + (h_load_size h - h_text_size h) + 4 * of_nat i) = os ! i"
  shows "relocate_data ta da (h_text_size h) (h_load_size h) (da + (h_load_size h - h_text_size h)) n m =
    fold (\<lambda>x m. put32 m (da + (x - h_text_size h)) (split_value (h_text_size h) ta da (get32 m (da + (x - h_text_size h)))))
      (filter (\<lambda>x. h_text_size h \<le> x) os) m"
proof -
  let ?t = "h_text_size h" and ?ls = "h_load_size h"
  let ?w = "\<lambda>x m. put32 m (da + (x - ?t)) (split_value ?t ta da (get32 m (da + (x - ?t))))"
  let ?step = "\<lambda>i m. let off = get32 m (da + (?ls - ?t) + 4 * of_nat i)
                 in if off < ?t then m else if reloc_bad ?ls off then m
                    else upd32 (da + (off - ?t)) (split_value ?t ta da) m"
  have outside: "get32 (fold ?w xs m) (da + (?ls - ?t) + 4 * of_nat i) = get32 m (da + (?ls - ?t) + 4 * of_nat i)"
    if "\<forall>x \<in> set xs. ?t \<le> x \<and> unat x + 4 \<le> unat ?ls" "i < n" for xs i
    using that(1)
  proof (induction xs arbitrary: m)
    case (Cons x xs)
    have x: "?t \<le> x" "unat x + 4 \<le> unat ?ls" using Cons.prems by simp_all
    note p = table_place [OF fit that(2)]
    have d: "unat (x - ?t) + 4 \<le> unat (?ls - ?t)" using x tl by (simp add: unat_minus_le word_le_nat_alt)
    have "get32 (put32 m (da + (x - ?t)) v) (da + (?ls - ?t + 4 * of_nat i)) = get32 m (da + (?ls - ?t + 4 * of_nat i))"
      for m v
      by (rule get32_put32_rel) (use d p fit that(2) u32_bound [of "?ls - ?t"] in linarith)+
    then show ?case using Cons by (simp add: add.assoc)
  qed simp
  have "fold ?step [0..<k] m = fold ?w (filter (\<lambda>x. ?t \<le> x) (take k os)) m" if "k \<le> n" for k
    using that
  proof (induction k)
    case (Suc k)
    let ?xs = "filter (\<lambda>x. ?t \<le> x) (take k os)"
    have kn: "k < n" using Suc.prems by simp
    then have m: "os ! k \<in> set os" by (simp add: n)
    have "\<forall>x \<in> set ?xs. ?t \<le> x \<and> unat x + 4 \<le> unat ?ls" using table_okD(2) [OF t] by (auto dest: in_set_takeD)
    from outside [OF this kn] tab kn
    have e: "get32 (fold ?w ?xs m) (da + (?ls - ?t) + 4 * of_nat k) = os ! k" by simp
    show ?case
      using Suc kn n table_okD(1) [OF t m] by (auto simp: take_Suc_conv_app_nth Let_def e upd32_def not_less not_le)
  qed simp
  from this [of n] show ?thesis by (simp add: relocate_data_def n)
qed

lemma get32_loaded:
  assumes "\<forall>k < n. m (da + of_nat k) = f (b + k)" and "k + 4 \<le> n"
  shows "get32 m (da + of_nat k :: u32) = get32 f (b + k)"
proof -
  have "m (da + of_nat k + of_nat j) = f (b + k + j)" if "j < 4" for j
    using assms that by (metis add.assoc add_less_cancel_left less_le_trans of_nat_add)
  from this [of 0] this [of 1] this [of 2] this [of 3] show ?thesis
    by (simp add: get32_def get16_def add.assoc numeral_3_eq_3)
qed

text \<open>
  The comment of the tool says that the relocations are used up and their count set to 0; the
  code leaves the count as it is.
\<close>

lemma reloc_count_kept:
  assumes "process_binary a di r = (1, r')" and "rb = file_rom_addr a r di" and "h = rom_header r (unat rb)"
    and "table_ok h os" and "os = rom_relocs h (unat rb) r" and "fits_rom h rb r"
  shows "h_reloc_count (rom_header r' (unat rb)) = h_reloc_count h"
  using process_binary_words(3) [OF assms] by simp

section \<open>Properties\<close>

text \<open>
  C34. What romfix does to a program with a sound table: every word of the table that is not
  left to the loader gets its final value, text addresses in the ROM and data addresses at the
  user base; the flag word of the header says that the program runs in place; and every byte
  of the ROM but these words, the flag word and the count of relocations stays as it is, the
  rest of the header included.
\<close>

theorem romfix_resolves:
  assumes "process_binary a di r = (1, r')" and "rb = file_rom_addr a r di" and "h = rom_header r (unat rb)"
    and "table_ok h os" and "os = rom_relocs h (unat rb) r" and "fits_rom h rb r"
  shows "(\<forall>x \<in> set os. get32 (rom_bytes r') (unat rb + 32 + unat x) =
      (if deferred h x then get32 (rom_bytes r) (unat rb + 32 + unat x)
       else rom_value a h rb (get32 (rom_bytes r) (unat rb + 32 + unat x)))) \<and>
    (\<forall>i. i \<notin> {unat rb + 20..<unat rb + 24} \<union> {unat rb + 28..<unat rb + 32} \<longrightarrow>
       (\<forall>x \<in> set os. deferred h x \<or> i \<notin> {unat rb + 32 + unat x..<unat rb + 36 + unat x}) \<longrightarrow>
       rom_bytes r' i = rom_bytes r i) \<and>
    (\<exists>n. rom_header r' (unat rb) = h\<lparr>h_flags := h_flags h OR GENIX_FLAG_XIP, h_reloc_count := n\<rparr>)"
proof (intro conjI ballI allI impI)
  fix i
  assume i: "i \<notin> {unat rb + 20..<unat rb + 24} \<union> {unat rb + 28..<unat rb + 32}"
    and "\<forall>x \<in> set os. deferred h x \<or> i \<notin> {unat rb + 32 + unat x..<unat rb + 36 + unat x}"
  then have "\<forall>x \<in> set os. \<not> deferred h x \<longrightarrow> (\<forall>j < 4. i \<noteq> unat rb + 32 + unat x + j)" by auto
  then show "rom_bytes r' i = rom_bytes r i"
    using i by (intro process_binary_words(2) [OF assms]) auto
next
  have "h = h\<lparr>h_reloc_count := h_reloc_count h\<rparr>" by simp
  then show "\<exists>n. rom_header r' (unat rb) = h\<lparr>h_flags := h_flags h OR GENIX_FLAG_XIP, h_reloc_count := n\<rparr>"
    using process_binary_words(3) [OF assms] by (intro exI [of _ "h_reloc_count h"]) simp
qed (use process_binary_words(1) [OF assms] in simp)

text \<open>
  C33. Build time and load time together: when the data segment of a program that romfix has
  processed is loaded with its table behind it, and the loader relocates it when the program
  has an offset table, every word of the table has the value that one relocation of the whole
  program to its text and data addresses gives, whether it is in the ROM or in memory. Without
  an offset table the data must be loaded at the user base; with one the text refers to text
  only.
\<close>

theorem romfix_xip_agrees:
  assumes pb: "process_binary a di r = (1, r')" and rb: "rb = file_rom_addr a r di" and h: "h = rom_header r (unat rb)"
    and t: "table_ok h os" and os: "os = rom_relocs h (unat rb) r" and f: "fits_rom h rb r"
    and loaded: "\<forall>k < unat (h_load_size h - h_text_size h) + 4 * length os.
        m (da + of_nat k) = rom_bytes r' (unat rb + 32 + unat (h_text_size h) + k)"
    and place: "HDR_HAS_GOT h \<and> (\<forall>x \<in> set os. x < h_text_size h \<longrightarrow>
          get32 (rom_bytes r) (unat rb + 32 + unat x) < h_text_size h) \<or>
        \<not> HDR_HAS_GOT h \<and> da = user_base a"
    and m': "m' = (if HDR_HAS_GOT h then relocate_data (rb + 32) da (h_text_size h) (h_load_size h)
        (da + (h_load_size h - h_text_size h)) (length os) m else m)"
    and x: "x \<in> set os"
  shows "(if x < h_text_size h then get32 (rom_bytes r') (unat rb + 32 + unat x)
      else get32 m' (da + (x - h_text_size h))) =
    split_value (h_text_size h) (rb + 32) da (get32 (rom_bytes r) (unat rb + 32 + unat x))"
proof -
  let ?t = "h_text_size h" and ?ls = "h_load_size h" and ?n = "length os"
  note w = process_binary_words [OF pb rb h t os f]
  have tl: "?t \<le> ?ls" by (rule process_binary_done(2) [OF pb rb h t os f])
  have n: "?n = unat (h_reloc_count h)" by (simp add: os rom_relocs_def)
  have uls: "unat ?ls = unat ?t + unat (?ls - ?t)" using tl by (simp add: unat_minus_le word_le_nat_alt)
  have fit: "unat (?ls - ?t) + 4 * ?n \<le> 4294967296" using f uls by (simp add: fits_rom_def n)
  note tx = table_okD [OF t x]
  have word: "get32 m (da + (x - ?t)) = get32 (rom_bytes r') (unat rb + 32 + unat x)" if "?t \<le> x"
  proof -
    have u: "unat (x - ?t) = unat x - unat ?t" "unat ?t \<le> unat x" using that by (simp_all add: unat_minus_le word_le_nat_alt)
    have "x - ?t = of_nat (unat x - unat ?t)" by (simp flip: u(1))
    moreover have "unat x - unat ?t + 4 \<le> unat (?ls - ?t) + 4 * ?n" using tx(2) uls u(2) by linarith
    ultimately show ?thesis using get32_loaded [OF loaded, of "unat x - unat ?t"] u(2) by (simp add: add.assoc)
  qed
  show ?thesis
  proof (cases "x < ?t")
    case True
    then have "\<not> deferred h x" by (simp add: deferred_def not_le)
    with w(1) [OF x] True place x show ?thesis by (auto simp: rom_value_def split_value_def)
  next
    case False
    then have le: "?t \<le> x" by simp
    show ?thesis
    proof (cases "HDR_HAS_GOT h")
      case False
      with w(1) [OF x] word [OF le] place le m' show ?thesis by (auto simp: deferred_def rom_value_def not_less)
    next
      case True
      have tab: "\<forall>i < ?n. get32 m (da + (?ls - ?t) + 4 * of_nat i) = os ! i"
      proof (intro allI impI)
        fix i assume i: "i < ?n"
        let ?k = "unat (?ls - ?t) + 4 * i"
        have "da + (?ls - ?t) + 4 * of_nat i = da + of_nat ?k" by (simp add: add.assoc)
        moreover have "get32 m (da + of_nat ?k) = get32 (rom_bytes r') (unat rb + 32 + unat ?t + ?k)"
          by (rule get32_loaded [OF loaded]) (use i in linarith)
        moreover have "get32 (rom_bytes r') (unat rb + 32 + unat ?t + ?k) = get32 (rom_bytes r) (unat rb + 32 + unat ?t + ?k)"
        proof (rule get32_cong_nat)
          fix b assume b: "unat rb + 32 + unat ?t + ?k \<le> b"
          have "unat rb + 32 + unat y + j < b" if "y \<in> set os" "j < 4" for y j
            using table_okD(2) [OF t that(1)] that(2) b uls by linarith
          then show "rom_bytes r' b = rom_bytes r b" using b by (intro w(2)) auto
        qed
        moreover have "get32 (rom_bytes r) (unat rb + 32 + unat ?t + ?k) = os ! i"
          using i uls by (simp add: os rom_relocs_def add.assoc)
        ultimately show "get32 m (da + (?ls - ?t) + 4 * of_nat i) = os ! i" by (simp add: add.assoc)
      qed
      let ?xs = "filter (\<lambda>x. ?t \<le> x) os"
      have v: "\<forall>y \<in> set ?xs. data_valid ?t y"
        using table_okD(2) [OF t] u32_bound [of ?ls] by (force simp: data_valid_def)
      have "get32 m' (da + (x - ?t)) = split_value ?t (rb + 32) da (get32 m (da + (x - ?t)))"
        unfolding m' using True relocate_data_words [OF t refl tl fit tab, of "rb + 32"]
          ram_words.patched [OF v sorted_wrt_filter_disjoint [OF t], of x] x le by simp
      moreover have "get32 m (da + (x - ?t)) = get32 (rom_bytes r) (unat rb + 32 + unat x)"
        using word [OF le] w(1) [OF x] True le by (simp add: deferred_def)
      ultimately show ?thesis using False by simp
    qed
  qed
qed

text \<open>A ROM with one program in its second block: four bytes of text, four of data, two relocations.\<close>

definition small_rom :: rom where
  "small_rom = \<lparr>rom_bytes = (\<lambda>i. if 1024 \<le> i \<and> i < 1072
       then [0x47, 0x45, 0x4E, 0x58, 0, 0, 0, 8, 0, 0, 0, 0, 0, 0, 0, 0, 0, 1, 0, 0, 0, 0, 0, 0,
             0, 0, 0, 4, 0, 0, 0, 2, 0, 0, 0, 2, 0, 0, 0, 6, 0, 0, 0, 0, 0, 0, 0, 4] ! (i - 1024)
       else 0), rom_size = 2048\<rparr>"

definition small_inode :: disk_inode where
  "small_inode = \<lparr>d_type = FT_FILE, d_nlink = 1, d_major = 0, d_minor = 0, d_size = 48, d_mtime = 0,
     d_direct = (\<lambda>i. if i = 0 then 1 else 0), d_indirect = 0\<rparr>"

definition small_args :: rom_args where
  "small_args = \<lparr>romdisk_off = 0, user_base = 0x40000\<rparr>"

lemma small_facts:
  "fst (process_binary small_args small_inode small_rom) = 1"
  "file_rom_addr small_args small_rom small_inode = 1024"
  "rom_relocs (rom_header small_rom 1024) 1024 small_rom = [0, 4]"
  "rom_header small_rom 1024 = \<lparr>h_magic = GENIX_MAGIC, h_load_size = 8, h_bss_size = 0, h_entry = 0,
     h_stack_size = 0x10000, h_flags = 0, h_text_size = 4, h_reloc_count = 2\<rparr>"
  "get32 (rom_bytes small_rom) 1056 = 2" "get32 (rom_bytes small_rom) 1060 = 6" "rom_size small_rom = 2048"
  by code_simp+

lemma small_ready:
  assumes "h = rom_header small_rom (unat (1024 :: u32))"
  shows "table_ok h [0, 4]" and "fits_rom h 1024 small_rom" and "[0, 4] = rom_relocs h (unat (1024 :: u32)) small_rom"
    and "HDR_HAS_GOT h" and "h_text_size h = 4" and "h_load_size h = 8"
  using small_facts(3,4,7) by (simp_all add: assms table_ok_def disjoint_words_def fits_rom_def HDR_HAS_GOT_def)

theorem romfix_resolves_witness:
  "get32 (rom_bytes (snd (process_binary small_args small_inode small_rom))) 1056 = 2 + (1024 + 32) \<and>
   get32 (rom_bytes (snd (process_binary small_args small_inode small_rom))) 1060 = 6"
proof -
  define h where "h = rom_header small_rom (unat (1024 :: u32))"
  note s = small_ready [OF h_def]
  have pb: "process_binary small_args small_inode small_rom = (1, snd (process_binary small_args small_inode small_rom))"
    using small_facts(1) by (metis prod.collapse)
  from romfix_resolves [OF pb small_facts(2) [symmetric] h_def s(1,3,2)]
  show ?thesis
    using s(4,5) small_facts(5,6) by (simp add: deferred_def rom_value_def split_value_def)
qed

theorem romfix_xip_agrees_witness:
  "\<exists>m. get32 (relocate_data (1024 + 32) 0x50000 4 8 (0x50000 + (8 - 4)) 2 m) (0x50000 + (4 - 4)) = 6 - 4 + 0x50000"
proof -
  define h where "h = rom_header small_rom (unat (1024 :: u32))"
  define r' where "r' = snd (process_binary small_args small_inode small_rom)"
  define m :: memory where "m = (\<lambda>x. rom_bytes r' (1060 + unat (x - 0x50000)))"
  note s = small_ready [OF h_def]
  have pb: "process_binary small_args small_inode small_rom = (1, r')"
    using small_facts(1) by (metis prod.collapse r'_def)
  have loaded: "\<forall>k < unat (h_load_size h - h_text_size h) + 4 * length [0 :: u32, 4].
      m (0x50000 + of_nat k) = rom_bytes r' (unat (1024 :: u32) + 32 + unat (h_text_size h) + k)"
    using s(5,6) by (simp add: m_def unsigned_of_nat take_bit_eq_mod)
  have place: "HDR_HAS_GOT h \<and> (\<forall>x \<in> set [0, 4]. x < h_text_size h \<longrightarrow>
        get32 (rom_bytes small_rom) (unat (1024 :: u32) + 32 + unat x) < h_text_size h) \<or>
      \<not> HDR_HAS_GOT h \<and> (0x50000 :: u32) = user_base small_args"
    using s(4,5) small_facts(5) by simp
  from romfix_xip_agrees [OF pb small_facts(2) [symmetric] h_def s(1,3,2) loaded place refl, of 4]
  have "get32 (relocate_data (1024 + 32) 0x50000 4 8 (0x50000 + (8 - 4)) 2 m) (0x50000 + (4 - 4)) = 6 - 4 + 0x50000"
    using s(4,5,6) small_facts(6) by (simp add: split_value_def numeral_2_eq_2 [symmetric])
  then show ?thesis by blast
qed

section \<open>Programs of more than twelve blocks\<close>

text \<open>
  The tool resolves a program of any length in one piece, but the kernel runs only files of up to
  twelve blocks in place. A longer one is loaded into memory instead, where the flag is
  not looked at and the words that the tool has resolved are relocated once more.
\<close>

lemma long_program_not_in_place:
  assumes "file_blocks di > 12" and "isize ip = d_size di"
  shows "pal_rom_file_addr start d ip = 0"
proof -
  have "d_size di + 1024 - 1 = isize ip + 1023" using assms(2) by simp
  then have "drop_bit 10 (isize ip + 1023) = file_blocks di"
    by (simp add: file_blocks_def drop_bit_eq_div add.commute)
  with assms(1) show ?thesis by (simp add: pal_rom_file_addr_def Let_def split: disk.split)
qed

lemma flag_not_checked:
  "exec_validate_header (h\<lparr>h_flags := f\<rparr>) n = exec_validate_header h n"
  by (simp add: exec_validate_header_def exec_mem_need_def effective_bss_def stack_need_def HDR_STACK_SIZE_def Let_def)

end
