(* ===== verification/Mkbin.thy ===== *)
theory Mkbin
  imports Exec
begin

text \<open>
  The tool tools/mkbin.c, which turns a linked ELF file into a program for the loader. The ELF
  file is a function from offsets to bytes with its size beside it; the tool checks neither
  the tables nor the names against the size, so the bytes from there on stand for whatever
  lies behind its buffer. \<open>None\<close> is an exit with an error message.
\<close>

record elf =
  elf_bytes :: "nat \<Rightarrow> u8"
  elf_size :: nat

abbreviation (input) be16 :: "elf \<Rightarrow> nat \<Rightarrow> u16" where "be16 e p \<equiv> get16 (elf_bytes e) p"
abbreviation (input) be32 :: "elf \<Rightarrow> nat \<Rightarrow> u32" where "be32 e p \<equiv> get32 (elf_bytes e) p"

definition valid_elf :: "elf \<Rightarrow> bool" where
  "valid_elf e \<longleftrightarrow> 52 \<le> elf_size e \<and> map (elf_bytes e) [0..<4] = [127, 69, 76, 70] \<and>
     elf_bytes e 4 = 1 \<and> elf_bytes e 5 = 2 \<and> be16 e 18 = 4"

section \<open>Segments\<close>

definition prog_headers :: "elf \<Rightarrow> nat list" where
  "prog_headers e = map (\<lambda>i. unat (be32 e 28) + i * unat (be16 e 42)) [0..<unat (be16 e 44)]"

definition load_headers :: "elf \<Rightarrow> nat list" where
  "load_headers e = filter (\<lambda>ph. be32 e ph = 1) (prog_headers e)"

text \<open>The lowest address, and the ends of the file parts and of the memory parts.\<close>

definition scan_segment :: "elf \<Rightarrow> nat \<Rightarrow> u32 \<times> u32 \<times> u32 \<Rightarrow> u32 \<times> u32 \<times> u32" where
  "scan_segment e ph = (\<lambda>(load_base, end_file, end_mem).
     let p_vaddr = be32 e (ph + 8);
         ef = p_vaddr + be32 e (ph + 16);
         em = p_vaddr + be32 e (ph + 20)
     in (if p_vaddr < load_base then p_vaddr else load_base,
         if ef > end_file then ef else end_file, if em > end_mem then em else end_mem))"

definition load_range :: "elf \<Rightarrow> u32 \<times> u32 \<times> u32" where
  "load_range e = fold (scan_segment e) (load_headers e) (0xFFFFFFFF, 0, 0)"

definition copy_segment :: "elf \<Rightarrow> u32 \<Rightarrow> nat \<Rightarrow> (nat \<Rightarrow> u8) \<Rightarrow> nat \<Rightarrow> u8" where
  "copy_segment e load_base ph flat =
     (let p_offset = be32 e (ph + 4); p_filesz = be32 e (ph + 16);
          dst = unat (be32 e (ph + 8) - load_base)
      in if p_filesz > 0 \<and> unat (p_offset + p_filesz) \<le> elf_size e
         then (\<lambda>i. if dst \<le> i \<and> i < dst + unat p_filesz
                   then elf_bytes e (unat p_offset + (i - dst)) else flat i)
         else flat)"

definition flat_image :: "elf \<Rightarrow> u32 \<Rightarrow> nat \<Rightarrow> u8" where
  "flat_image e load_base = fold (copy_segment e load_base) (load_headers e) (\<lambda>_. 0)"

section \<open>Sections\<close>

definition sections :: "elf \<Rightarrow> nat list" where
  "sections e =
     (if be32 e 32 = 0 then []
      else map (\<lambda>i. unat (be32 e 32) + i * unat (be16 e 46)) [0..<unat (be16 e 48)])"

text \<open>The section names; the table is absent when its index is out of range.\<close>

definition shstrtab :: "elf \<Rightarrow> nat option" where
  "shstrtab e =
     (if be16 e 50 < be16 e 48
      then Some (unat (be32 e (unat (be32 e 32) + unat (be16 e 50) * unat (be16 e 46) + 16)))
      else None)"

definition is_got :: "elf \<Rightarrow> nat \<Rightarrow> bool" where
  "is_got e sh =
     (case shstrtab e of None \<Rightarrow> False
      | Some st \<Rightarrow> be32 e (sh + 20) > 0 \<and>
          map (\<lambda>j. elf_bytes e (st + unat (be32 e sh) + j)) [0..<5] = [46, 103, 111, 116, 0])"

text \<open>The end of the executable sections, and the address and size of the offset table.\<close>

definition scan_section :: "elf \<Rightarrow> u32 \<Rightarrow> nat \<Rightarrow> u32 \<times> u32 \<times> u32 \<Rightarrow> u32 \<times> u32 \<times> u32" where
  "scan_section e load_base sh = (\<lambda>(tsize, got_vma, got_size).
     let ends = be32 e (sh + 12) + be32 e (sh + 20) - load_base;
         tsize1 = (if be32 e (sh + 4) = 1 \<and> be32 e (sh + 8) AND 4 \<noteq> 0 \<and> ends > tsize then ends else tsize)
     in if is_got e sh then (tsize1, be32 e (sh + 12), be32 e (sh + 20)) else (tsize1, got_vma, got_size))"

definition section_info :: "elf \<Rightarrow> u32 \<Rightarrow> u32 \<times> u32 \<times> u32" where
  "section_info e load_base = fold (scan_section e load_base) (sections e) (0, 0, 0)"

section \<open>Relocations\<close>

text \<open>One entry of a relocation section: \<open>None\<close> is an error, otherwise the offsets it adds.\<close>

definition rela_entry :: "elf \<Rightarrow> u32 \<Rightarrow> u32 \<Rightarrow> nat \<Rightarrow> u32 list option" where
  "rela_entry e load_base load_size re =
     (let off = be32 e re - load_base; r_type = be32 e (re + 4) AND 0xFF
      in if r_type = 1
         then (if off + 4 > load_size then None else if off AND 1 \<noteq> 0 then None else Some [off])
         else if r_type = 2 then None else Some [])"

definition rela_wanted :: "elf \<Rightarrow> nat \<Rightarrow> bool" where
  "rela_wanted e sh \<longleftrightarrow> be32 e (sh + 4) = 4 \<and>
     (let info = be32 e (sh + 28)
      in info < ucast (be16 e 48) \<longrightarrow>
           be32 e (unat (be32 e 32) + unat info * unat (be16 e 46) + 8) AND 2 \<noteq> 0) \<and>
     be32 e (sh + 36) \<ge> 12"

definition rela_entries :: "elf \<Rightarrow> nat \<Rightarrow> nat list" where
  "rela_entries e sh =
     (if rela_wanted e sh
      then map (\<lambda>j. unat (be32 e (sh + 16)) + unat (of_nat j * be32 e (sh + 36)))
             [0..<unat (be32 e (sh + 20) div be32 e (sh + 36))]
      else [])"

primrec collect :: "('a \<Rightarrow> 'b list option) \<Rightarrow> 'a list \<Rightarrow> 'b list option" where
  "collect f [] = Some []"
| "collect f (x # xs) = Option.bind (f x) (\<lambda>ys. map_option ((@) ys) (collect f xs))"

definition rela_relocs :: "elf \<Rightarrow> u32 \<Rightarrow> u32 \<Rightarrow> u32 list option" where
  "rela_relocs e load_base load_size =
     collect (rela_entry e load_base load_size) (concat (map (rela_entries e) (sections e)))"

text \<open>The entries of the offset table: \<open>n\<close> more, up to the end of the image.\<close>

primrec got_loop :: "(nat \<Rightarrow> u8) \<Rightarrow> u32 \<Rightarrow> u32 \<Rightarrow> nat \<Rightarrow> u32 list" where
  "got_loop flat load_size off 0 = []"
| "got_loop flat load_size off (Suc n) =
     (if off + 4 > load_size then []
      else if get32 flat (unat off) = 0 then got_loop flat load_size (off + 4) n
      else off # got_loop flat load_size (off + 4) n)"

definition got_relocs :: "(nat \<Rightarrow> u8) \<Rightarrow> u32 \<Rightarrow> u32 \<Rightarrow> u32 \<Rightarrow> u32 \<Rightarrow> u32 list" where
  "got_relocs flat load_base load_size got_vma got_size =
     (if got_vma > 0 \<and> got_size \<ge> 4
      then got_loop flat load_size (got_vma - load_base) (unat (got_size div 4)) else [])"

text \<open>Duplicates are next to each other after the sort by \<open>cmp_u32\<close>.\<close>

fun uniq :: "u32 list \<Rightarrow> u32 list" where
  "uniq [] = []"
| "uniq [x] = [x]"
| "uniq (x # y # xs) = (if y \<noteq> x then x # uniq (y # xs) else uniq (x # xs))"

section \<open>The program file\<close>

definition be_bytes :: "u32 \<Rightarrow> bytes" where
  "be_bytes v = map (put32 (\<lambda>_. 0) 0 v) [0..<4]"

definition header_bytes :: "genix_header \<Rightarrow> bytes" where
  "header_bytes h = concat (map be_bytes [h_magic h, h_load_size h, h_bss_size h, h_entry h,
     h_stack_size h, h_flags h, h_text_size h, h_reloc_count h])"

definition mkbin :: "elf \<Rightarrow> bytes option" where
  "mkbin e =
     (if \<not> valid_elf e \<or> be16 e 44 = 0 then None
      else case load_range e of (load_base, end_file, end_mem) \<Rightarrow>
        if load_base = 0xFFFFFFFF then None
        else let load_size = end_file - load_base;
                 flat = flat_image e load_base
             in case section_info e load_base of (tsize, got_vma, got_size) \<Rightarrow>
               Option.bind (rela_relocs e load_base load_size) (\<lambda>rs.
                 let got_offset = (if got_vma > 0 \<and> got_vma \<ge> tsize then got_vma - tsize + 1 else 0);
                     relocs = uniq (sort (rs @ got_relocs flat load_base load_size got_vma got_size))
                 in Some (header_bytes \<lparr>h_magic = GENIX_MAGIC, h_load_size = load_size,
                        h_bss_size = end_mem - end_file, h_entry = be32 e 24,
                        h_stack_size = 4096 OR push_bit 16 got_offset, h_flags = 0,
                        h_text_size = tsize, h_reloc_count = of_nat (length relocs)\<rparr> @
                      map flat [0..<unat load_size] @ concat (map be_bytes relocs))))"

end
