(* ===== verification/Mkbin_Correct.thy ===== *)
theory Mkbin_Correct
  imports Mkbin Exec_Correct
begin

text \<open>
  The program file that mkbin writes: the loader reads its header, its image and its relocation
  table as they were computed, and the table is sorted, without duplicates and inside the
  image, but for offsets so high that the tool's own test wraps.
\<close>

section \<open>Bytes\<close>

lemma length_be_bytes [simp]: "length (be_bytes v) = 4"
  by (simp add: be_bytes_def)

lemma length_concat_be [simp]: "length (concat (map be_bytes vs)) = 4 * length vs"
  by (induction vs) simp_all

lemma length_header_bytes [simp]: "length (header_bytes h) = 32"
  by (simp add: header_bytes_def del: concat.simps list.map)

lemma get32_list_cong:
  "p + 4 \<le> length xs \<Longrightarrow> get32 (\<lambda>i. (pre @ xs @ post) ! i) (length pre + p) = get32 (\<lambda>i. xs ! i) (p :: nat)"
  by (simp add: get32_def get16_def nth_append numeral_3_eq_3)

lemma get32_be_bytes: "get32 (\<lambda>i. be_bytes v ! i) (0 :: nat) = v"
proof -
  have "be_bytes v ! i = put32 (\<lambda>_. 0) (0 :: nat) v i" if "i < 4" for i
    using that by (simp add: be_bytes_def)
  then have "get32 (\<lambda>i. be_bytes v ! i) (0 :: nat) = get32 (put32 (\<lambda>_. 0) (0 :: nat) v) 0"
    by (simp add: get32_def get16_def)
  then show ?thesis by simp
qed

lemma get32_word_list:
  "i < length vs \<Longrightarrow> get32 (\<lambda>k. (pre @ concat (map be_bytes vs) @ post) ! k) (length pre + 4 * i) = vs ! i"
proof (induction vs arbitrary: i pre)
  case (Cons v vs)
  show ?case
  proof (cases i)
    case 0
    then show ?thesis
      using get32_list_cong [of 0 "be_bytes v" pre "concat (map be_bytes vs) @ post"] get32_be_bytes [of v] by simp
  next
    case (Suc j)
    then show ?thesis using Cons.IH [of j "pre @ be_bytes v"] Cons.prems by (simp add: add.commute add.left_commute)
  qed
qed simp

lemma header_of_header_bytes: "header_of (header_bytes h) = h"
proof -
  let ?vs = "[h_magic h, h_load_size h, h_bss_size h, h_entry h, h_stack_size h, h_flags h, h_text_size h, h_reloc_count h]"
  have w: "get32 (\<lambda>k. header_bytes h ! k) (4 * i) = ?vs ! i" if "i < 8" for i
    using get32_word_list [of i ?vs "[]" "[]"] that by (simp add: header_bytes_def)
  show ?thesis
    using w [of 0] w [of 1] w [of 2] w [of 3] w [of 4] w [of 5] w [of 6] w [of 7]
    by (simp add: header_of_def Let_def)
qed

section \<open>The table\<close>

lemma set_uniq [simp]: "set (uniq xs) = set xs"
  by (induction xs rule: uniq.induct) auto

lemma uniq_strict: "sorted xs \<Longrightarrow> sorted_wrt (<) (uniq xs)"
proof (induction xs rule: uniq.induct)
  case (3 x y xs)
  show ?case
  proof (cases "y = x")
    case True
    with 3 show ?thesis by simp
  next
    case False
    with 3 show ?thesis by (auto simp: less_le)
  qed
qed simp_all

lemma length_uniq: "length (uniq xs) \<le> length xs"
  by (induction xs rule: uniq.induct) auto

lemma collect_all: "collect f xs = Some ys \<Longrightarrow> y \<in> set ys \<Longrightarrow> \<exists>x \<in> set xs. \<exists>zs. f x = Some zs \<and> y \<in> set zs"
  by (induction xs arbitrary: ys) (auto simp: Option.bind_eq_Some_conv)

lemma rela_sound: "rela_relocs e lb ls = Some rs \<Longrightarrow> off \<in> set rs \<Longrightarrow> \<not> reloc_bad ls off"
  unfolding rela_relocs_def
  by (drule (1) collect_all) (auto simp: rela_entry_def Let_def reloc_bad_def split: if_splits)

lemma got_sound: "off \<in> set (got_loop flat ls p n) \<Longrightarrow> \<not> off + 4 > ls \<and> get32 flat (unat off) \<noteq> 0"
  by (induction n arbitrary: p) (auto split: if_splits)

section \<open>Properties\<close>

text \<open>
  C35. The file that mkbin writes is the program the loader reads: every field of the header it
  finds is the one computed, the stack field with its 4096 bytes and the offset of the table of
  addresses in the upper half included; the image follows byte for byte; entry \<open>i\<close> of the table
  is read at the place where the loader looks for it; the table is strictly ascending, holds
  exactly the offsets collected, and no entry below 0xFFFFFFFC ends behind the image. An entry
  from there on gets through, as \<open>high_offset_accepted\<close> below shows.
\<close>

theorem mkbin_file_read_back:
  assumes "mkbin e = Some out" and "load_range e = (lb, ef, em)" and "section_info e lb = (ts, gv, gs)"
  shows "\<exists>h rs os. header_of (take 32 out) = h \<and> h_magic h = GENIX_MAGIC \<and> h_load_size h = ef - lb \<and>
    h_bss_size h = em - ef \<and> h_entry h = be32 e 24 \<and>
    h_stack_size h = 4096 OR push_bit 16 (if gv > 0 \<and> gv \<ge> ts then gv - ts + 1 else 0) \<and>
    h_flags h = 0 \<and> h_text_size h = ts \<and>
    h_reloc_count h = of_nat (length os) \<and>
    length out = 32 + unat (h_load_size h) + 4 * length os \<and>
    (\<forall>i < unat (h_load_size h). out ! (32 + i) = flat_image e lb i) \<and>
    (\<forall>i < length os. get32 (\<lambda>k. out ! k) (32 + unat (h_load_size h) + 4 * i) = os ! i) \<and>
    sorted_wrt (<) os \<and> rela_relocs e lb (ef - lb) = Some rs \<and>
    set os = set rs \<union> set (got_relocs (flat_image e lb) lb (ef - lb) gv gs) \<and>
    (\<forall>x \<in> set os. x < 0xFFFFFFFC \<longrightarrow> unat x + 4 \<le> unat (h_load_size h))"
proof -
  define flat where "flat = flat_image e lb"
  obtain rs where rs: "rela_relocs e lb (ef - lb) = Some rs"
    using assms by (auto simp: mkbin_def Let_def Option.bind_eq_Some_conv split: if_splits)
  define os where "os = uniq (sort (rs @ got_relocs flat lb (ef - lb) gv gs))"
  define h where "h = \<lparr>h_magic = GENIX_MAGIC, h_load_size = ef - lb, h_bss_size = em - ef, h_entry = be32 e 24,
     h_stack_size = 4096 OR push_bit 16 (if gv > 0 \<and> gv \<ge> ts then gv - ts + 1 else 0), h_flags = 0,
     h_text_size = ts, h_reloc_count = of_nat (length os)\<rparr>"
  let ?im = "map flat [0..<unat (ef - lb)]"
  have out: "out = header_bytes h @ ?im @ concat (map be_bytes os)"
    using assms rs by (auto simp: mkbin_def Let_def h_def os_def flat_def split: if_splits)
  have ls: "h_load_size h = ef - lb" by (simp add: h_def)
  have "header_of (take 32 out) = h" by (simp add: out header_of_header_bytes)
  moreover have "length out = 32 + unat (h_load_size h) + 4 * length os" by (simp add: out ls)
  moreover have "out ! (32 + i) = flat i" if "i < unat (h_load_size h)" for i
    using that by (simp add: out ls nth_append)
  moreover have "get32 (\<lambda>k. out ! k) (32 + unat (h_load_size h) + 4 * i) = os ! i" if "i < length os" for i
    using get32_word_list [OF that, of "header_bytes h @ ?im" "[]"] by (simp add: out ls)
  moreover have "sorted_wrt (<) os" by (simp add: os_def uniq_strict)
  moreover have "set os = set rs \<union> set (got_relocs flat lb (ef - lb) gv gs)" by (simp add: os_def)
  moreover have "unat x + 4 \<le> unat (h_load_size h)" if "x \<in> set os" "x < 0xFFFFFFFC" for x
  proof -
    have "x + 4 \<le> h_load_size h"
      using that(1) rela_sound [OF rs] got_sound
      by (fastforce simp: os_def got_relocs_def ls reloc_bad_def not_less split: if_splits)
    moreover have "unat (x + 4) = unat x + 4"
      using that(2) by (subst unat_add_lem [THEN iffD1]) (auto simp: word_less_nat_alt)
    ultimately show ?thesis by (simp add: word_le_nat_alt)
  qed
  ultimately show ?thesis using rs by (intro exI [of _ h] exI [of _ rs] exI [of _ os]) (simp add: h_def flat_def)
qed

text \<open>An ELF file with one segment, its executable section and one relocation.\<close>

definition small_elf :: elf where
  "small_elf = (let bs = concat (map be_bytes
      [0x7F454C46, 0x01020100, 0, 0, 0x00020004, 1, 0, 52, 92, 0, 0x00340020, 0x00010028, 0x00020005,
       1, 84, 0, 0, 8, 12, 5, 4,
       4, 0x4E750000,
       0, 1, 6, 0, 84, 8, 0, 0, 4, 0,
       0, 4, 0, 0, 172, 12, 0, 0, 4, 12,
       0, 1, 0])
     in \<lparr>elf_bytes = (\<lambda>i. if i < length bs then bs ! i else 0), elf_size = length bs\<rparr>)"

lemma small_elf_facts:
  "mkbin small_elf \<noteq> None" "load_range small_elf = (0, 8, 12)" "section_info small_elf 0 = (8, 0, 0)"
  "rela_relocs small_elf 0 8 = Some [0]"
  by code_simp+

theorem mkbin_file_read_back_witness:
  "\<exists>out h os. mkbin small_elf = Some out \<and> header_of (take 32 out) = h \<and> h_load_size h = 8 \<and> h_bss_size h = 4 \<and>
     set os = {0} \<and> (\<forall>i < length os. get32 (\<lambda>k. out ! k) (40 + 4 * i) = os ! i)"
proof -
  obtain out where out: "mkbin small_elf = Some out" using small_elf_facts(1) by blast
  obtain h rs os where "header_of (take 32 out) = h" "h_load_size h = 8 - 0" "h_bss_size h = 12 - 8"
    "\<forall>i < length os. get32 (\<lambda>k. out ! k) (32 + unat (h_load_size h) + 4 * i) = os ! i"
    "rela_relocs small_elf 0 (8 - 0) = Some rs"
    "set os = set rs \<union> set (got_relocs (flat_image small_elf 0) 0 (8 - 0) 0 0)"
    using mkbin_file_read_back [OF out small_elf_facts(2,3)] by metis
  then have "header_of (take 32 out) = h \<and> h_load_size h = 8 \<and> h_bss_size h = 4 \<and> set os = {0} \<and>
    (\<forall>i < length os. get32 (\<lambda>k. out ! k) (40 + 4 * i) = os ! i)"
    using small_elf_facts(4) by (auto simp: got_relocs_def)
  with out show ?thesis by blast
qed

text \<open>
  The test of an offset against the size of the image wraps in its last four values: the tool
  puts such an entry into the table.
\<close>

lemma high_offset_accepted:
  "be32 e re - lb = 0xFFFFFFFC \<Longrightarrow> be32 e (re + 4) AND 0xFF = 1 \<Longrightarrow> rela_entry e lb ls re = Some [0xFFFFFFFC]"
  by (simp add: rela_entry_def Let_def word_less_nat_alt)

text \<open>
  The offset of the table of addresses has 16 bits in the header and is not checked: a table
  65535 bytes behind the start of the data is stored as none at all.
\<close>

lemma got_offset_lost: "drop_bit 16 (4096 OR push_bit 16 (65535 + 1) :: u32) = 0"
  by simp

end
