(* ===== verification/Curses.thy ===== *)
theory Curses
  imports Tty
begin

text \<open>
  The curses library of libc/curses.c, which keeps a cursor and attributes and sends escape
  sequences to the terminal as it goes. The terminal is its settings, the bytes written to it and
  the bytes it still delivers; \<open>read\<close> returns 0 when there is none. Strings are their bytes,
  without the NUL.
\<close>

abbreviation (input) A_BOLD :: u32 where "A_BOLD \<equiv> 1"
abbreviation (input) A_REVERSE :: u32 where "A_REVERSE \<equiv> 2"
abbreviation (input) A_UNDERLINE :: u32 where "A_UNDERLINE \<equiv> 4"
abbreviation (input) A_DIM :: u32 where "A_DIM \<equiv> 8"
abbreviation (input) COLOR_PAIRS :: int where "COLOR_PAIRS \<equiv> 8"

record curses =
  cur_y :: int
  cur_x :: int
  max_y :: int
  max_x :: int
  attrs :: u32
  delay :: int
  keypad_on :: bool
  c_lines :: int
  c_cols :: int
  curses_saved :: kernel_termios
  curses_active :: bool
  color_pairs :: "nat \<Rightarrow> int \<times> int"
  c_tty :: kernel_termios
  c_winsz :: winsize
  c_out :: bytes
  c_in :: bytes

section \<open>Output\<close>

definition emit_bytes :: "bytes \<Rightarrow> curses \<Rightarrow> curses" where
  "emit_bytes bs s = s\<lparr>c_out := c_out s @ bs\<rparr>"

text \<open>C division truncates: the remainder has the sign of the number.\<close>

definition rem10 :: "int \<Rightarrow> int" where
  "rem10 n = (if n < 0 then - ((- n) mod 10) else n mod 10)"

definition itoa_small :: "int \<Rightarrow> bytes" where
  "itoa_small n =
     (if n \<ge> 100 then [48 + of_int (n div 100)] else []) @
     (if n \<ge> 10 then [48 + of_int ((n div 10) mod 10)] else []) @ [48 + of_int (rem10 n)]"

definition emit_csi_1 :: "int \<Rightarrow> u8 \<Rightarrow> curses \<Rightarrow> curses" where
  "emit_csi_1 n cmd = emit_bytes ([27, 91] @ itoa_small n @ [cmd])"

definition emit_csi_2 :: "int \<Rightarrow> int \<Rightarrow> u8 \<Rightarrow> curses \<Rightarrow> curses" where
  "emit_csi_2 n1 n2 cmd = emit_bytes ([27, 91] @ itoa_small n1 @ [59] @ itoa_small n2 @ [cmd])"

definition pair_number :: "u32 \<Rightarrow> nat" where
  "pair_number a = unat (drop_bit 8 a AND 7)"

text \<open>The bytes that set the attributes: each of the tests adds its parameter.\<close>

definition apply_attrs :: "curses \<Rightarrow> curses" where
  "apply_attrs s =
     (let a = attrs s; p = pair_number a; (fg, bg) = color_pairs s p
      in emit_bytes ([27, 91, 48] @
           (if a AND A_BOLD \<noteq> 0 then [59, 49] else []) @
           (if a AND A_REVERSE \<noteq> 0 then [59, 55] else []) @
           (if a AND A_UNDERLINE \<noteq> 0 then [59, 52] else []) @
           (if a AND A_DIM \<noteq> 0 then [59, 50] else []) @
           (if 0 < p \<and> int p < COLOR_PAIRS
            then [59] @ itoa_small (30 + fg) @ (if bg \<noteq> 0 then [59] @ itoa_small (40 + bg) else [])
            else []) @ [109]) s)"

section \<open>Initialisation\<close>

definition raw_termios :: "kernel_termios \<Rightarrow> kernel_termios" where
  "raw_termios t = t\<lparr>c_lflag := c_lflag t AND NOT (ICANON OR ECHO OR ISIG), c_iflag := c_iflag t AND NOT ICRNL\<rparr>"

text \<open>The ioctl that reads the window size succeeds on a terminal.\<close>

definition initscr :: "curses \<Rightarrow> curses" where
  "initscr s =
     (let s1 = (if ws_row (c_winsz s) > 0
                then s\<lparr>c_lines := uint (ws_row (c_winsz s)), c_cols := uint (ws_col (c_winsz s))\<rparr> else s);
          s2 = s1\<lparr>curses_saved := c_tty s1, c_tty := raw_termios (c_tty s1)\<rparr>;
          s3 = emit_bytes ([27, 91, 48, 109] @ [27, 91, 50, 74] @ [27, 91, 72]) s2
      in s3\<lparr>cur_y := 0, cur_x := 0, max_y := c_lines s3, max_x := c_cols s3, attrs := 0, delay := 0,
            keypad_on := False, color_pairs := (\<lambda>i. if i < 8 then (7, 0) else color_pairs s3 i),
            curses_active := True\<rparr>)"

definition endwin :: "curses \<Rightarrow> int \<times> curses" where
  "endwin s =
     (if \<not> curses_active s then (- 1, s)
      else let s1 = emit_bytes ([27, 91, 48, 109] @ [27, 91, 63, 50, 53, 104]) s;
               s2 = emit_bytes [13, 10] (emit_csi_1 (c_lines s) 72 s1)
           in (0, s2\<lparr>c_tty := curses_saved s2, curses_active := False\<rparr>))"

section \<open>Cursor and text\<close>

definition move :: "int \<Rightarrow> int \<Rightarrow> curses \<Rightarrow> int \<times> curses" where
  "move y x s =
     (if y < 0 \<or> y \<ge> c_lines s \<or> x < 0 \<or> x \<ge> c_cols s then (- 1, s)
      else (0, emit_csi_2 (y + 1) (x + 1) 72 (s\<lparr>cur_y := y, cur_x := x\<rparr>)))"

definition addch :: "u8 \<Rightarrow> curses \<Rightarrow> curses" where
  "addch c s =
     (let s1 = emit_bytes [c] s; x = cur_x s1 + 1
      in if x \<ge> c_cols s1
         then s1\<lparr>cur_x := 0, cur_y := (if cur_y s1 + 1 \<ge> c_lines s1 then c_lines s1 - 1 else cur_y s1 + 1)\<rparr>
         else s1\<lparr>cur_x := x\<rparr>)"

definition addstr :: "bytes \<Rightarrow> curses \<Rightarrow> curses" where
  "addstr bs s = fold addch bs s"

definition mvaddch :: "int \<Rightarrow> int \<Rightarrow> u8 \<Rightarrow> curses \<Rightarrow> int \<times> curses" where
  "mvaddch y x c s = (case move y x s of (r, s1) \<Rightarrow> if r = - 1 then (- 1, s1) else (0, addch c s1))"

definition mvaddstr :: "int \<Rightarrow> int \<Rightarrow> bytes \<Rightarrow> curses \<Rightarrow> int \<times> curses" where
  "mvaddstr y x bs s = (case move y x s of (r, s1) \<Rightarrow> if r = - 1 then (- 1, s1) else (0, addstr bs s1))"

text \<open>The format is written as it is.\<close>

definition printw :: "bytes \<Rightarrow> curses \<Rightarrow> curses" where
  "printw fmt s = addstr fmt s"

section \<open>Attributes and the screen\<close>

definition attrset :: "u32 \<Rightarrow> curses \<Rightarrow> curses" where
  "attrset a s = apply_attrs (s\<lparr>attrs := a\<rparr>)"

definition attron :: "u32 \<Rightarrow> curses \<Rightarrow> curses" where
  "attron a s = apply_attrs (s\<lparr>attrs := attrs s OR a\<rparr>)"

definition attroff :: "u32 \<Rightarrow> curses \<Rightarrow> curses" where
  "attroff a s = apply_attrs (s\<lparr>attrs := attrs s AND NOT a\<rparr>)"

definition init_pair :: "int \<Rightarrow> int \<Rightarrow> int \<Rightarrow> curses \<Rightarrow> int \<times> curses" where
  "init_pair pair fg bg s =
     (if pair < 0 \<or> pair \<ge> COLOR_PAIRS then (- 1, s)
      else (0, s\<lparr>color_pairs := (color_pairs s)(nat pair := (fg, bg))\<rparr>))"

definition clear_screen :: "curses \<Rightarrow> curses" where
  "clear_screen s = (emit_bytes ([27, 91, 50, 74] @ [27, 91, 72]) s)\<lparr>cur_y := 0, cur_x := 0\<rparr>"

definition clrtoeol :: "curses \<Rightarrow> curses" where
  "clrtoeol = emit_bytes [27, 91, 75]"

definition clrtobot :: "curses \<Rightarrow> curses" where
  "clrtobot = emit_bytes [27, 91, 74]"

definition curs_set :: "bool \<Rightarrow> curses \<Rightarrow> curses" where
  "curs_set visible = emit_bytes [27, 91, 63, 50, 53, if visible then 104 else 108]"

section \<open>Input\<close>

definition read_key :: "curses \<Rightarrow> u8 option \<times> curses" where
  "read_key s = (case c_in s of [] \<Rightarrow> (None, s) | c # cs \<Rightarrow> (Some c, s\<lparr>c_in := cs\<rparr>))"

definition csi_key :: "u8 \<Rightarrow> int option" where
  "csi_key c = (if c = 65 then Some 0x101 else if c = 66 then Some 0x102 else if c = 67 then Some 0x104
     else if c = 68 then Some 0x103 else if c = 72 then Some 0x105 else if c = 70 then Some 0x106 else None)"

definition tilde_key :: "u8 \<Rightarrow> int" where
  "tilde_key c = (if c = 49 then 0x105 else if c = 51 then 0x107 else if c = 52 then 0x106
     else if c = 53 then 0x10A else if c = 54 then 0x109 else 27)"

definition getch :: "curses \<Rightarrow> int \<times> curses" where
  "getch s =
     (case read_key s of
        (None, s1) \<Rightarrow> (- 1, s1)
      | (Some c, s1) \<Rightarrow>
          if c \<noteq> 27 \<or> \<not> keypad_on s1 then (uint c, s1)
          else case read_key s1 of
            (None, s2) \<Rightarrow> (27, s2)
          | (Some c0, s2) \<Rightarrow>
              if c0 \<noteq> 91 then (27, s2)
              else case read_key s2 of
                (None, s3) \<Rightarrow> (27, s3)
              | (Some c1, s3) \<Rightarrow>
                  case csi_key c1 of
                    Some k \<Rightarrow> (k, s3)
                  | None \<Rightarrow>
                      if 48 \<le> c1 \<and> c1 \<le> 57
                      then (case read_key s3 of
                              (Some c2, s4) \<Rightarrow> (if c2 = 126 then tilde_key c1 else 27, s4)
                            | (None, s4) \<Rightarrow> (27, s4))
                      else (27, s3))"

definition keypad :: "bool \<Rightarrow> curses \<Rightarrow> curses" where
  "keypad bf s = s\<lparr>keypad_on := bf\<rparr>"

definition nodelay :: "int \<Rightarrow> curses \<Rightarrow> curses" where
  "nodelay bf s = s\<lparr>delay := bf\<rparr>"

section \<open>Modes\<close>

definition on_lflag :: "(u16 \<Rightarrow> u16) \<Rightarrow> curses \<Rightarrow> curses" where
  "on_lflag f s = s\<lparr>c_tty := (c_tty s)\<lparr>c_lflag := f (c_lflag (c_tty s))\<rparr>\<rparr>"

definition raw :: "curses \<Rightarrow> curses" where
  "raw s = s\<lparr>c_tty := raw_termios (c_tty s)\<rparr>"

definition noraw :: "curses \<Rightarrow> curses" where
  "noraw s = s\<lparr>c_tty := (c_tty s)\<lparr>c_lflag := c_lflag (c_tty s) OR (ICANON OR ECHO OR ISIG),
     c_iflag := c_iflag (c_tty s) OR ICRNL\<rparr>\<rparr>"

definition cbreak :: "curses \<Rightarrow> curses" where
  "cbreak = on_lflag (\<lambda>f. f AND NOT ICANON)"

definition nocbreak :: "curses \<Rightarrow> curses" where
  "nocbreak = on_lflag (\<lambda>f. f OR ICANON)"

definition noecho :: "curses \<Rightarrow> curses" where
  "noecho = on_lflag (\<lambda>f. f AND NOT ECHO)"

definition echo_curses :: "curses \<Rightarrow> curses" where
  "echo_curses = on_lflag (\<lambda>f. f OR ECHO)"

end
