(* ===== verification/Console.thy ===== *)
theory Console
  imports Tty
begin

text \<open>
  The console of the Mega Drive: the escape sequence parser and cursor of
  pal/megadrive/platform.c, and the operations of pal/megadrive/devvt.S on the name table of the
  video processor. The parser keeps the display calls it makes in their order; their effect on
  the screen is \<open>draw\<close>. A status report is fed to the terminal, whose echo comes back to the
  console while the report is still being made.
\<close>

abbreviation (input) COLS :: int where "COLS \<equiv> 40"
abbreviation (input) ROWS :: int where "ROWS \<equiv> 28"

section \<open>The display\<close>

text \<open>The arguments of the assembly routines: row, column, tile or count.\<close>

datatype draw_call =
  Plot int int u16
| Clear_across int int int
| Clear_lines int int
| Scroll_up
| Cursor_on int int
| Cursor_off

text \<open>Plane A has 32 rows of 64 tiles; the scroll amount is in pixels, 8 per row.\<close>

record vdp =
  nametable :: "nat \<Rightarrow> nat \<Rightarrow> u16"
  vt_scroll_amount :: u16
  sprite :: "int \<times> int \<times> u8"

definition vt_row :: "vdp \<Rightarrow> int \<Rightarrow> nat" where
  "vt_row v y = unat ((drop_bit 3 (vt_scroll_amount v) + of_int y) AND 0x1F)"

definition clear_row :: "nat \<Rightarrow> nat \<Rightarrow> nat \<Rightarrow> vdp \<Rightarrow> vdp" where
  "clear_row r x n v = v\<lparr>nametable := (nametable v)(r := (\<lambda>c. if x \<le> c \<and> c < x + n then 0 else nametable v r c))\<rparr>"

primrec draw :: "draw_call \<Rightarrow> vdp \<Rightarrow> vdp" where
  "draw (Plot y x c) v =
     v\<lparr>nametable := (nametable v)(vt_row v y := (nametable v (vt_row v y))(nat x := c))\<rparr>"
| "draw (Clear_across y x n) v = clear_row (vt_row v y) (nat x) (nat n) v"
| "draw (Clear_lines y n) v = fold (\<lambda>i. clear_row (vt_row v (y + int i)) 0 40) [0..<nat n] v"
| "draw Scroll_up v = v\<lparr>vt_scroll_amount := vt_scroll_amount v + 8\<rparr>"
| "draw (Cursor_on y x) v = v\<lparr>sprite := (y, x, ucast (nametable v (vt_row v y) (nat x)))\<rparr>"
| "draw Cursor_off v = v"

section \<open>The state of the console\<close>

datatype esc_mode = ESC_NORMAL | ESC_SEEN | ESC_CSI | ESC_CSI_Q

text \<open>
  \<open>esc_params\<close> has four entries; indices from 4 on stand for the bytes behind it, which
  \<open>handle_sgr\<close> reads when a sequence has more parameters.
\<close>

record con =
  cursor_x :: int
  cursor_y :: int
  vdp_graphics_mode :: bool
  esc_state :: esc_mode
  esc_params :: "nat \<Rightarrow> u8"
  esc_nparam :: u8
  esc_partial :: u8
  esc_has_digit :: bool
  current_attr :: u16
  saved_x :: u8
  saved_y :: u8
  cursor_visible :: bool
  drawn :: "draw_call list"

definition emit :: "draw_call \<Rightarrow> con \<Rightarrow> con" where
  "emit d s = s\<lparr>drawn := drawn s @ [d]\<rparr>"

definition esc_param :: "nat \<Rightarrow> int \<Rightarrow> con \<Rightarrow> int" where
  "esc_param idx dflt s =
     (if idx < unat (esc_nparam s) \<and> esc_params s idx > 0 then uint (esc_params s idx) else dflt)"

definition esc_reset :: "con \<Rightarrow> con" where
  "esc_reset s = s\<lparr>esc_state := ESC_NORMAL, esc_nparam := 0, esc_partial := 0, esc_has_digit := False\<rparr>"

definition clamp :: "int \<Rightarrow> int \<Rightarrow> int" where
  "clamp n v = (let v1 = (if v < 0 then 0 else v) in if v1 \<ge> n then n - 1 else v1)"

definition cursor_clamp :: "con \<Rightarrow> con" where
  "cursor_clamp s = s\<lparr>cursor_x := clamp COLS (cursor_x s), cursor_y := clamp ROWS (cursor_y s)\<rparr>"

section \<open>Control sequences\<close>

definition sgr_code :: "u8 \<Rightarrow> u16 \<Rightarrow> u16" where
  "sgr_code p attr =
     (if p = 0 \<or> p = 22 \<or> p = 39 then 0
      else if p = 1 \<or> (90 \<le> p \<and> p \<le> 97) then push_bit 13 3
      else attr)"

definition handle_sgr :: "con \<Rightarrow> con" where
  "handle_sgr s =
     s\<lparr>current_attr := (if esc_nparam s = 0 then 0
        else fold (\<lambda>i. sgr_code (esc_params s i)) [0..<unat (esc_nparam s)] (current_attr s))\<rparr>"

definition move_by :: "int \<Rightarrow> int \<Rightarrow> con \<Rightarrow> con" where
  "move_by dy dx s = cursor_clamp (s\<lparr>cursor_x := cursor_x s + dx, cursor_y := cursor_y s + dy\<rparr>)"

definition move_to :: "int \<Rightarrow> int \<Rightarrow> con \<Rightarrow> con" where
  "move_to y x s = cursor_clamp (s\<lparr>cursor_x := x, cursor_y := y\<rparr>)"

definition erase_display :: "int \<Rightarrow> con \<Rightarrow> con" where
  "erase_display p s =
     (let x = cursor_x s; y = cursor_y s
      in if p = 0
         then let s1 = emit (Clear_across y x (COLS - x)) s
              in if y + 1 < ROWS then emit (Clear_lines (y + 1) (ROWS - y - 1)) s1 else s1
         else if p = 1
         then emit (Clear_across y 0 (x + 1)) (if y > 0 then emit (Clear_lines 0 y) s else s)
         else if p = 2 then (emit (Clear_lines 0 ROWS) s)\<lparr>cursor_x := 0, cursor_y := 0\<rparr>
         else s)"

definition erase_line :: "int \<Rightarrow> con \<Rightarrow> con" where
  "erase_line p s =
     (let x = cursor_x s; y = cursor_y s
      in if p = 0 then emit (Clear_across y x (COLS - x)) s
         else if p = 1 then emit (Clear_across y 0 (x + 1)) s
         else if p = 2 then emit (Clear_across y 0 COLS) s
         else s)"

text \<open>The final characters that concern the console alone, by their codes: A B C D H f J K m s u.\<close>

definition handle_csi :: "u8 \<Rightarrow> con \<Rightarrow> con" where
  "handle_csi cmd s =
     (let n = esc_param 0 1 s
      in if cmd = 65 then move_by (- n) 0 s
         else if cmd = 66 then move_by n 0 s
         else if cmd = 67 then move_by 0 n s
         else if cmd = 68 then move_by 0 (- n) s
         else if cmd = 72 \<or> cmd = 102 then move_to (n - 1) (esc_param 1 1 s - 1) s
         else if cmd = 74 then erase_display (esc_param 0 0 s) s
         else if cmd = 75 then erase_line (esc_param 0 0 s) s
         else if cmd = 109 then handle_sgr s
         else if cmd = 115 then s\<lparr>saved_x := of_int (cursor_x s), saved_y := of_int (cursor_y s)\<rparr>
         else if cmd = 117 then move_to (uint (saved_y s)) (uint (saved_x s)) s
         else s)"

definition handle_csi_private :: "u8 \<Rightarrow> con \<Rightarrow> con" where
  "handle_csi_private cmd s =
     (if (cmd = 104 \<or> cmd = 108) \<and> esc_param 0 0 s = 25
      then let s1 = s\<lparr>cursor_visible := (cmd = 104)\<rparr>
           in emit (if cmd = 104 then Cursor_on (cursor_y s) (cursor_x s) else Cursor_off) s1
      else s)"

section \<open>Characters\<close>

definition newline_if :: "con \<Rightarrow> con" where
  "newline_if s =
     (let s1 = (if cursor_x s \<ge> COLS then s\<lparr>cursor_x := 0, cursor_y := cursor_y s + 1\<rparr> else s)
      in if cursor_y s1 \<ge> ROWS
         then (emit (Clear_lines (ROWS - 1) 1) (emit Scroll_up s1))\<lparr>cursor_y := ROWS - 1\<rparr> else s1)"

definition putc_normal :: "u8 \<Rightarrow> con \<Rightarrow> con" where
  "putc_normal c s = newline_if
     (if c = 10 then s\<lparr>cursor_x := 0, cursor_y := cursor_y s + 1\<rparr>
      else if c = 13 then s\<lparr>cursor_x := 0\<rparr>
      else if c = 9 then s\<lparr>cursor_x := (cursor_x s + 8) AND NOT 7\<rparr>
      else if c = 8
      then (if cursor_x s > 0
            then emit (Plot (cursor_y s) (cursor_x s - 1) 0) (s\<lparr>cursor_x := cursor_x s - 1\<rparr>) else s)
      else (emit (Plot (cursor_y s) (cursor_x s) (ucast c OR current_attr s)) s)\<lparr>cursor_x := cursor_x s + 1\<rparr>)"

definition is_final :: "u8 \<Rightarrow> bool" where
  "is_final c \<longleftrightarrow> 0x40 \<le> c \<and> c \<le> 0x7E"

definition add_digit :: "u8 \<Rightarrow> con \<Rightarrow> con" where
  "add_digit c s = s\<lparr>esc_partial := esc_partial s * 10 + (c - 48), esc_has_digit := True\<rparr>"

definition store_param :: "con \<Rightarrow> con" where
  "store_param s =
     (if unat (esc_nparam s) < 4 then s\<lparr>esc_params := (esc_params s)(unat (esc_nparam s) := esc_partial s)\<rparr> else s)
        \<lparr>esc_nparam := esc_nparam s + 1\<rparr>"

definition start_csi :: "con \<Rightarrow> con" where
  "start_csi s = s\<lparr>esc_state := ESC_CSI, esc_nparam := 0, esc_partial := 0, esc_has_digit := False,
     esc_params := (\<lambda>i. if i < 4 then 0 else esc_params s i)\<rparr>"

text \<open>
  One character, apart from the status report: the new state, and whether the character ended
  a sequence that asks for the cursor position, whose \<open>esc_reset\<close> is then still to come.
\<close>

definition con_step :: "u8 \<Rightarrow> con \<Rightarrow> con \<times> bool" where
  "con_step c s =
     (if vdp_graphics_mode s then (s, False)
      else case esc_state s of
        ESC_NORMAL \<Rightarrow> (if c = 27 then s\<lparr>esc_state := ESC_SEEN\<rparr> else putc_normal c s, False)
      | ESC_SEEN \<Rightarrow> (if c = 91 then start_csi s else putc_normal c (s\<lparr>esc_state := ESC_NORMAL\<rparr>), False)
      | ESC_CSI \<Rightarrow>
          if c = 63 then (s\<lparr>esc_state := ESC_CSI_Q\<rparr>, False)
          else if 48 \<le> c \<and> c \<le> 57 then (add_digit c s, False)
          else if c = 59 then ((store_param s)\<lparr>esc_partial := 0, esc_has_digit := False\<rparr>, False)
          else if is_final c
          then let s1 = (if esc_has_digit s \<or> esc_nparam s > 0 then store_param s else s)
               in if c = 110 \<and> esc_param 0 0 s1 = 6 then (s1, True)
                  else (esc_reset (handle_csi c s1), False)
          else (esc_reset s, False)
      | ESC_CSI_Q \<Rightarrow>
          (if 48 \<le> c \<and> c \<le> 57 then add_digit c s
           else if is_final c
           then let s1 = (if esc_has_digit s then store_param s else s)
                in esc_reset (handle_csi_private c s1)
           else esc_reset s, False))"

section \<open>The status report\<close>

type_synonym cons = "con \<times> tsys"

definition send_num :: "(u8 \<Rightarrow> cons \<Rightarrow> cons) \<Rightarrow> int \<Rightarrow> cons \<Rightarrow> cons" where
  "send_num inp n s =
     (let s1 = (if n \<ge> 10 then inp (48 + of_int (n div 10)) s else s) in inp (48 + of_int (n mod 10)) s1)"

text \<open>\<open>inp\<close> is \<open>tty_inproc(0, _)\<close>; the position is read after the first two calls.\<close>

definition report_position :: "(u8 \<Rightarrow> cons \<Rightarrow> cons) \<Rightarrow> cons \<Rightarrow> cons" where
  "report_position inp s =
     (let s1 = inp 91 (inp 27 s);
          row = cursor_y (fst s1) + 1;
          col = cursor_x (fst s1) + 1
      in inp 82 (send_num inp col (inp 59 (send_num inp row s1))))"

definition putc_with :: "(u8 \<Rightarrow> cons \<Rightarrow> cons) \<Rightarrow> u8 \<Rightarrow> cons \<Rightarrow> cons" where
  "putc_with inp c s =
     (case con_step c (fst s) of (s1, report) \<Rightarrow>
        if report then (case report_position inp (s1, snd s) of (s2, t) \<Rightarrow> (esc_reset s2, t))
        else (s1, snd s))"

text \<open>A character fed to the terminal, with its echo sent to the console by \<open>putc\<close>.\<close>

definition feed_tty :: "(u8 \<Rightarrow> cons \<Rightarrow> cons) \<Rightarrow> u8 \<Rightarrow> cons \<Rightarrow> cons" where
  "feed_tty putc c s =
     (let t = tty_inproc 0 c ((snd s)\<lparr>tx := []\<rparr>)
      in fold putc (tx t) (fst s, t\<lparr>tx := tx (snd s)\<rparr>))"

text \<open>
  \<open>pal_console_putc\<close> with reports nested \<open>n\<close> deep. One level is enough, because the echo of a
  report holds no character that asks for another one.
\<close>

primrec con_putc :: "nat \<Rightarrow> u8 \<Rightarrow> cons \<Rightarrow> cons" where
  "con_putc 0 = putc_with (\<lambda>_. id)"
| "con_putc (Suc n) = putc_with (feed_tty (con_putc n))"

definition con_puts :: "bytes \<Rightarrow> cons \<Rightarrow> cons" where
  "con_puts bs s = fold (con_putc 1) bs s"

text \<open>The state after \<open>pal_init\<close>: the static initialisers, with the cursor in the corner.\<close>

definition con_init :: con where
  "con_init = \<lparr>cursor_x = 0, cursor_y = 0, vdp_graphics_mode = False, esc_state = ESC_NORMAL,
     esc_params = (\<lambda>_. 0), esc_nparam = 0, esc_partial = 0, esc_has_digit = False, current_attr = 0,
     saved_x = 0, saved_y = 0, cursor_visible = True, drawn = []\<rparr>"

definition pal_vdp_set_graphics_mode :: "bool \<Rightarrow> con \<Rightarrow> con" where
  "pal_vdp_set_graphics_mode on s = s\<lparr>vdp_graphics_mode := on\<rparr>"

end
