(* ===== verification/Console_Correct.thy ===== *)
theory Console_Correct
  imports Console
begin

text \<open>
  The Mega Drive console: whatever is written, the parser keeps its state in range and draws on
  the screen only; and what the control sequences and printed characters do to the screen.
\<close>

section \<open>The well-formed states\<close>

text \<open>The arguments with which the assembly routines stay in the visible 28 rows of 40 tiles.\<close>

primrec on_screen :: "draw_call \<Rightarrow> bool" where
  "on_screen (Plot y x c) \<longleftrightarrow> 0 \<le> y \<and> y < ROWS \<and> 0 \<le> x \<and> x < COLS \<and> c AND 0x1FFF < 256"
| "on_screen (Clear_across y x n) \<longleftrightarrow> 0 \<le> y \<and> y < ROWS \<and> 0 \<le> x \<and> 0 < n \<and> x + n \<le> COLS"
| "on_screen (Clear_lines y n) \<longleftrightarrow> 0 \<le> y \<and> 0 < n \<and> y + n \<le> ROWS"
| "on_screen Scroll_up \<longleftrightarrow> True"
| "on_screen (Cursor_on y x) \<longleftrightarrow> 0 \<le> y \<and> y < ROWS \<and> 0 \<le> x \<and> x < COLS"
| "on_screen Cursor_off \<longleftrightarrow> True"

definition in_range :: "con \<Rightarrow> bool" where
  "in_range s \<longleftrightarrow> 0 \<le> cursor_x s \<and> cursor_x s < COLS \<and> 0 \<le> cursor_y s \<and> cursor_y s < ROWS \<and>
     saved_x s < 40 \<and> saved_y s < 28 \<and> current_attr s \<in> {0, 0x6000} \<and> (\<forall>d \<in> set (drawn s). on_screen d)"

definition parser_idle :: "con \<Rightarrow> bool" where
  "parser_idle s \<longleftrightarrow> esc_nparam s = 0 \<and> esc_partial s = 0 \<and> \<not> esc_has_digit s"

definition con_ok :: "con \<Rightarrow> bool" where
  "con_ok s \<longleftrightarrow> in_range s \<and> (esc_state s \<in> {ESC_NORMAL, ESC_SEEN} \<longrightarrow> parser_idle s)"

lemma emit_sel [simp]:
  "cursor_x (emit d s) = cursor_x s" "cursor_y (emit d s) = cursor_y s" "saved_x (emit d s) = saved_x s"
  "saved_y (emit d s) = saved_y s" "current_attr (emit d s) = current_attr s" "drawn (emit d s) = drawn s @ [d]"
  "esc_state (emit d s) = esc_state s" "esc_nparam (emit d s) = esc_nparam s" "esc_partial (emit d s) = esc_partial s"
  "esc_has_digit (emit d s) = esc_has_digit s" "vdp_graphics_mode (emit d s) = vdp_graphics_mode s"
  by (simp_all add: emit_def)

lemma in_range_emit: "in_range (emit d s) \<longleftrightarrow> in_range s \<and> on_screen d"
  by (auto simp: in_range_def)

lemma clamp_range: "0 < n \<Longrightarrow> 0 \<le> clamp n v \<and> clamp n v < n"
  by (simp add: clamp_def Let_def)

lemma clamp_id: "0 \<le> v \<Longrightarrow> v < n \<Longrightarrow> clamp n v = v"
  by (simp add: clamp_def)

lemma in_range_moves:
  assumes "in_range s"
  shows "in_range (move_by dy dx s)" and "in_range (move_to y x s)"
  using assms clamp_range [of COLS] clamp_range [of ROWS]
  by (simp_all add: in_range_def move_by_def move_to_def cursor_clamp_def)

lemma in_range_sgr: "in_range s \<Longrightarrow> in_range (handle_sgr s)"
proof -
  assume "in_range s"
  moreover have "fold (\<lambda>i. sgr_code (f i)) xs a \<in> {0, 0x6000}" if "a \<in> {0, 0x6000}" for f :: "nat \<Rightarrow> u8" and xs and a
    using that by (induction xs arbitrary: a) (auto simp: sgr_code_def)
  ultimately show ?thesis by (simp add: in_range_def handle_sgr_def)
qed

lemma in_range_erase:
  assumes "in_range s"
  shows "in_range (erase_display p s)" and "in_range (erase_line p s)"
  using assms by (auto simp: erase_display_def erase_line_def Let_def in_range_def)

lemma saved_word: "0 \<le> v \<Longrightarrow> v < 40 \<Longrightarrow> uint (of_int v :: u8) = v"
  by (simp add: uint_word_of_int_eq take_bit_int_eq_self)

lemma in_range_csi: "in_range s \<Longrightarrow> in_range (handle_csi cmd s)"
proof -
  assume s: "in_range s"
  have "of_int (cursor_x s) < (40 :: u8)" "of_int (cursor_y s) < (28 :: u8)"
    using s saved_word [of "cursor_x s"] saved_word [of "cursor_y s"]
    by (simp_all add: in_range_def word_less_def)
  with s have "in_range (s\<lparr>saved_x := of_int (cursor_x s), saved_y := of_int (cursor_y s)\<rparr>)"
    by (simp add: in_range_def)
  with s show ?thesis
    by (simp add: handle_csi_def Let_def in_range_moves in_range_erase in_range_sgr)
qed

lemma in_range_csi_private: "in_range s \<Longrightarrow> in_range (handle_csi_private cmd s)"
  by (auto simp: handle_csi_private_def Let_def in_range_emit) (auto simp: in_range_def)

section \<open>Characters\<close>

lemma tab_stop: "0 \<le> x \<Longrightarrow> x < (40 :: int) \<Longrightarrow> (x + 8) AND - 8 = (x div 8 + 1) * 8"
proof -
  have "\<forall>x \<in> set [0..39 :: int]. (x + 8) AND - 8 = (x div 8 + 1) * 8" by code_simp
  then show "0 \<le> x \<Longrightarrow> x < 40 \<Longrightarrow> (x + 8) AND - 8 = (x div 8 + 1) * 8" by simp
qed

lemma glyph_attr: "a \<in> {0, 0x6000} \<Longrightarrow> (ucast (c :: u8) OR a) AND 0x1FFF < (256 :: u16)"
proof -
  have "unat (ucast c :: u16) = unat c" by (simp add: unsigned_ucast_eq take_bit_nat_eq_self u8_bound [THEN less_trans])
  then have "(ucast c :: u16) < 256" using u8_bound [of c] by (simp add: word_less_nat_alt)
  then have "ucast c AND 0x1FFF < (256 :: u16)" by (rule le_less_trans [OF word_and_le2])
  then show "a \<in> {0, 0x6000} \<Longrightarrow> (ucast c OR a) AND 0x1FFF < (256 :: u16)"
    by (auto simp: bit.conj_disj_distrib2)
qed

lemma in_range_newline:
  assumes "0 \<le> cursor_x s" "cursor_x s \<le> COLS" "0 \<le> cursor_y s" "cursor_y s \<le> ROWS"
    and "cursor_x s = COLS \<longrightarrow> cursor_y s < ROWS"
    and "saved_x s < 40" "saved_y s < 28" "current_attr s \<in> {0, 0x6000}" "\<forall>d \<in> set (drawn s). on_screen d"
  shows "in_range (newline_if s)"
  using assms by (auto simp: newline_if_def Let_def in_range_def)

lemma in_range_putc: "in_range s \<Longrightarrow> in_range (putc_normal c s)"
  unfolding putc_normal_def
  by (rule in_range_newline) (auto simp: in_range_def tab_stop glyph_attr)

lemma in_range_parser [simp]:
  "in_range (s\<lparr>esc_state := m\<rparr>) = in_range s" "in_range (add_digit c s) = in_range s"
  "in_range (store_param s) = in_range s" "in_range (start_csi s) = in_range s" "in_range (esc_reset s) = in_range s"
  "in_range (s\<lparr>esc_partial := n, esc_has_digit := b\<rparr>) = in_range s"
  by (simp_all add: in_range_def add_digit_def store_param_def start_csi_def esc_reset_def)

lemma parser_idle_parser [simp]:
  "parser_idle (s\<lparr>esc_state := m\<rparr>) = parser_idle s" "parser_idle (esc_reset s)"
  by (simp_all add: parser_idle_def esc_reset_def)

lemma putc_keeps_parser [simp]:
  "parser_idle (putc_normal c s) = parser_idle s" "esc_state (putc_normal c s) = esc_state s"
  by (simp_all add: parser_idle_def putc_normal_def newline_if_def Let_def)

lemma con_ok_reset: "in_range s \<Longrightarrow> con_ok (esc_reset s)"
  by (simp add: con_ok_def)

lemma con_step_ok:
  assumes "con_ok s" and "con_step c s = (s', rep)"
  shows "con_ok s'" and "rep \<Longrightarrow> c = 110 \<and> esc_state s' = ESC_CSI"
proof -
  have r: "in_range s" using assms(1) by (simp add: con_ok_def)
  have st: "esc_state (store_param s) = esc_state s" by (simp add: store_param_def)
  show "rep \<Longrightarrow> c = 110 \<and> esc_state s' = ESC_CSI"
    using assms(2) st by (auto simp: con_step_def Let_def split: if_splits esc_mode.splits)
  show "con_ok s'"
  proof (cases "vdp_graphics_mode s")
    case True
    then show ?thesis using assms by (simp add: con_step_def)
  next
    case False
    show ?thesis
    proof (cases "esc_state s")
      case ESC_NORMAL
      with assms False r show ?thesis by (auto simp: con_step_def con_ok_def in_range_putc)
    next
      case ESC_SEEN
      with assms False r show ?thesis
        by (auto simp: con_step_def con_ok_def in_range_putc) (simp_all add: start_csi_def)
    next
      case ESC_CSI
      have "esc_state (add_digit c s) = ESC_CSI" using ESC_CSI by (simp add: add_digit_def)
      with ESC_CSI assms False r st show ?thesis
        by (auto simp: con_step_def con_ok_def in_range_csi Let_def split: if_splits)
    next
      case ESC_CSI_Q
      have "esc_state (add_digit c s) = ESC_CSI_Q" using ESC_CSI_Q by (simp add: add_digit_def)
      with ESC_CSI_Q assms False r show ?thesis
        by (auto simp: con_step_def con_ok_def in_range_csi_private Let_def split: if_splits)
    qed
  qed
qed

section \<open>Nested output\<close>

lemma send_num_ok:
  "(\<And>c s. con_ok (fst s) \<Longrightarrow> con_ok (fst (inp c s))) \<Longrightarrow> con_ok (fst s) \<Longrightarrow> con_ok (fst (send_num inp n s))"
  by (simp add: send_num_def Let_def)

lemma report_ok:
  "(\<And>c s. con_ok (fst s) \<Longrightarrow> con_ok (fst (inp c s))) \<Longrightarrow> con_ok (fst s) \<Longrightarrow> con_ok (fst (report_position inp s))"
  by (simp add: report_position_def Let_def send_num_ok)

lemma putc_with_ok:
  assumes "\<And>c s. con_ok (fst s) \<Longrightarrow> con_ok (fst (inp c s))" and "con_ok (fst s)"
  shows "con_ok (fst (putc_with inp c s))"
proof -
  obtain s1 rep where s1: "con_step c (fst s) = (s1, rep)" by fastforce
  have "con_ok s1" by (rule con_step_ok [OF assms(2) s1])
  then have "con_ok (fst (report_position inp (s1, snd s)))" by (simp add: report_ok [OF assms(1)])
  then have "con_ok (esc_reset (fst (report_position inp (s1, snd s))))" by (intro con_ok_reset) (simp add: con_ok_def)
  with \<open>con_ok s1\<close> show ?thesis by (cases "report_position inp (s1, snd s)") (simp add: putc_with_def s1)
qed

lemma fold_ok: "(\<And>c s. P (fst s) \<Longrightarrow> P (fst (f c s))) \<Longrightarrow> P (fst s) \<Longrightarrow> P (fst (fold f bs s))"
  by (induction bs arbitrary: s) simp_all

lemma con_putc_ok: "con_ok (fst s) \<Longrightarrow> con_ok (fst (con_putc n c s))"
proof (induction n arbitrary: c s)
  case 0
  then show ?case by (simp add: putc_with_ok)
next
  case (Suc n)
  have "con_ok (fst (feed_tty (con_putc n) c s))" if "con_ok (fst s)" for c s
    unfolding feed_tty_def Let_def by (rule fold_ok [where P = con_ok, OF Suc.IH]) (simp_all add: that)
  then show ?case using Suc.prems by (simp add: putc_with_ok)
qed

lemma con_puts_ok: "con_ok (fst s) \<Longrightarrow> con_ok (fst (con_puts bs s))"
  unfolding con_puts_def by (rule fold_ok [where P = con_ok, OF con_putc_ok])

lemma con_init_ok: "con_ok con_init"
  by (simp add: con_ok_def con_init_def in_range_def parser_idle_def)

section \<open>The echo of a report\<close>

text \<open>Everything sent to the console so far is among \<open>C\<close>.\<close>

definition sent_in :: "u8 set \<Rightarrow> tsys \<Rightarrow> bool" where
  "sent_in C s \<longleftrightarrow> set (tx s) \<subseteq> C"

lemma sent_in_upd [simp]:
  "sent_in C (upd_tty i f s) = sent_in C s" "sent_in C (tty_wake_reader i s) = sent_in C s"
  "sent_in C (tty_signal sig s) = sent_in C s"
  by (simp_all add: sent_in_def tty_wake_reader_def tty_signal_def Let_def)

lemma sent_in_kputc [simp]:
  "sent_in C (kputc c s) \<longleftrightarrow> sent_in C s \<and> c \<in> C \<and> (c = 10 \<longrightarrow> 13 \<in> C)"
  by (auto simp: sent_in_def kputc_def)

text \<open>The characters that may be shown when \<open>c\<close> comes in.\<close>

definition shows_of :: "u8 \<Rightarrow> u8 set" where
  "shows_of c = {8, 10, 13, 32, 94, 67, 92, 90} \<union> (if c < 0x20 \<and> c \<noteq> 10 \<and> c \<noteq> 9 \<and> c \<noteq> 8 then {c + 64} else {c})"

lemma shows_of_basic [simp]: "8 \<in> shows_of c" "10 \<in> shows_of c" "13 \<in> shows_of c" "32 \<in> shows_of c" "94 \<in> shows_of c"
  by (simp_all add: shows_of_def)

lemma sent_in_erased: "sent_in (shows_of c) s \<Longrightarrow> sent_in (shows_of c) (echo_erased d s)"
  by (simp add: echo_erased_def tty_echo_erase_ctrl_def tty_echo_erase_def)

lemma sent_in_kill: "sent_in (shows_of c) s \<Longrightarrow> sent_in (shows_of c) (kill_line k i lflag s)"
  by (induction k arbitrary: s) (simp_all add: Let_def sent_in_erased)

lemma sent_in_echo: "sent_in (shows_of c) s \<Longrightarrow> sent_in (shows_of c) (tty_echo c s)"
  by (simp add: tty_echo_def) (simp add: shows_of_def)

lemma sent_in_sig:
  "shown \<in> {67, 92, 90} \<Longrightarrow> sent_in (shows_of c) s \<Longrightarrow> sent_in (shows_of c) (sig_input i sig shown lflag s)"
  by (auto simp: sig_input_def Let_def) (auto simp: shows_of_def)

lemma sent_in_canon: "sent_in (shows_of c) s \<Longrightarrow> sent_in (shows_of c) (canon_input i c lflag s)"
proof -
  define C where "C = shows_of c"
  have r: "sent_in C (echo_erased d s)" "sent_in C (kill_line k i lflag s)" "sent_in C (tty_echo c s)"
    if "sent_in C s" for d k lflag s
    using that by (simp_all add: C_def sent_in_kill sent_in_echo sent_in_erased)
  have r10: "c = 10 \<Longrightarrow> sent_in C s \<Longrightarrow> sent_in C (tty_echo 10 s)" for s using r(3) by simp
  have b: "10 \<in> C" "13 \<in> C" by (simp_all add: C_def)
  assume "sent_in (shows_of c) s"
  then have "sent_in C s" by (simp add: C_def)
  then have "sent_in C (canon_input i c lflag s)"
    using r b r10 unfolding canon_input_def Let_def by (simp del: if_split add: if_distrib [of "sent_in C"] cong: if_cong)
  then show ?thesis by (simp add: C_def)
qed

lemma sent_in_inproc:
  assumes "map_input (c_iflag (termios (ttys s i))) c = Some d" and "sent_in (shows_of d) s"
  shows "sent_in (shows_of d) (tty_inproc i c s)"
proof -
  define C where "C = shows_of d"
  have "sent_in C s" "\<And>sig lflag. sent_in C (sig_input i sig 67 lflag s)" "\<And>sig lflag. sent_in C (sig_input i sig 92 lflag s)"
    "\<And>sig lflag. sent_in C (sig_input i sig 90 lflag s)" "\<And>lflag. sent_in C (canon_input i d lflag s)"
    "\<And>f. sent_in C (tty_echo d (upd_tty i f s))"
    using assms(2) by (simp_all add: C_def sent_in_sig sent_in_canon sent_in_echo)
  then have "sent_in C (tty_inproc i c s)"
    unfolding tty_inproc_def Let_def assms(1) option.case by (auto split: if_splits)
  then show ?thesis by (simp add: C_def)
qed

text \<open>No character of a report is shown as the final character of another status request.\<close>

definition report_chars :: "u8 set" where
  "report_chars = {27, 91, 59, 82} \<union> {48..57}"

lemma shows_of_report: "d \<in> report_chars \<union> {10, 13} \<Longrightarrow> 110 \<notin> shows_of d"
  by (auto simp: report_chars_def shows_of_def)

lemma report_echo:
  assumes "c \<in> report_chars"
  shows "110 \<notin> set (tx (tty_inproc 0 c (s\<lparr>tx := []\<rparr>)))"
proof (cases "map_input (c_iflag (termios (ttys s 0))) c")
  case None
  then show ?thesis by (simp add: tty_inproc_def Let_def)
next
  case (Some d)
  then have "d \<in> report_chars \<union> {10, 13}" using assms by (auto simp: map_input_def split: if_splits)
  moreover have "sent_in (shows_of d) (tty_inproc 0 c (s\<lparr>tx := []\<rparr>))"
    using Some by (intro sent_in_inproc) (simp_all add: sent_in_def)
  ultimately show ?thesis using shows_of_report [of d] by (auto simp: sent_in_def)
qed

text \<open>So one level of nesting is all there is.\<close>

lemma putc_with_plain: "c \<noteq> 110 \<Longrightarrow> putc_with inp c s = putc_with inp' c s"
proof -
  assume "c \<noteq> 110"
  then have "\<not> snd (con_step c (fst s))"
    by (simp add: con_step_def Let_def split: esc_mode.splits)
  then show ?thesis by (cases "con_step c (fst s)") (simp add: putc_with_def)
qed

lemma con_putc_plain: "c \<noteq> 110 \<Longrightarrow> con_putc n c s = con_putc 0 c s"
  by (cases n) (simp_all add: putc_with_plain)

lemma feed_tty_report:
  assumes "c \<in> report_chars"
  shows "feed_tty (con_putc n) c s = feed_tty (con_putc 0) c s"
proof -
  let ?t = "tty_inproc 0 c ((snd s)\<lparr>tx := []\<rparr>)"
  have "con_putc n b z = con_putc 0 b z" if "b \<in> set (tx ?t)" for b z
    using report_echo [OF assms, of "snd s"] that by (intro con_putc_plain) metis
  note e = this
  have "fold (con_putc n) (tx ?t) z = fold (con_putc 0) (tx ?t) z" for z
    by (intro fold_cong refl ext) (rule e)
  then show ?thesis by (simp add: feed_tty_def Let_def)
qed

lemma digit_report: "0 \<le> n \<Longrightarrow> n < 10 \<Longrightarrow> 48 + of_int n \<in> report_chars"
proof -
  assume "0 \<le> n" "n < 10"
  then have "n \<in> set [0..9]" by simp
  then have "n \<in> {0,1,2,3,4,5,6,7,8,9}" by (simp add: upto.simps)
  then show ?thesis by (auto simp: report_chars_def)
qed

lemma send_num_cong:
  assumes "\<And>c s. c \<in> report_chars \<Longrightarrow> inp c s = inp' c s" and "0 \<le> n" and "n < 100"
  shows "send_num inp n s = send_num inp' n s"
proof -
  have "48 + of_int (n div 10) \<in> report_chars" "48 + of_int (n mod 10) \<in> report_chars"
    using assms(2,3) by (auto intro!: digit_report)
  then show ?thesis by (simp add: send_num_def Let_def assms(1))
qed

lemma report_cong:
  assumes "\<And>c s. c \<in> report_chars \<Longrightarrow> inp c s = inp' c s" and "con_ok (fst s)"
    and ok: "\<And>c s. con_ok (fst s) \<Longrightarrow> con_ok (fst (inp' c s))"
  shows "report_position inp s = report_position inp' s"
proof -
  have m: "27 \<in> report_chars" "91 \<in> report_chars" "59 \<in> report_chars" "82 \<in> report_chars"
    by (simp_all add: report_chars_def)
  let ?z = "inp' 91 (inp' 27 s)"
  have "con_ok (fst ?z)" by (intro ok assms(2))
  then have r: "0 \<le> cursor_y (fst ?z) + 1" "cursor_y (fst ?z) + 1 < 100" "0 \<le> cursor_x (fst ?z) + 1" "cursor_x (fst ?z) + 1 < 100"
    by (simp_all add: con_ok_def in_range_def)
  note c = send_num_cong [of inp inp', OF assms(1)]
  show ?thesis
    by (simp add: report_position_def Let_def assms(1) m c [OF _ r(1,2)] c [OF _ r(3,4)])
qed

lemma feed_tty_ok: "con_ok (fst s) \<Longrightarrow> con_ok (fst (feed_tty (con_putc n) c s))"
  unfolding feed_tty_def Let_def by (rule fold_ok [where P = con_ok, OF con_putc_ok]) simp_all

lemma con_putc_depth:
  assumes "con_ok (fst s)"
  shows "con_putc (Suc n) c s = con_putc 1 c s"
proof -
  obtain s1 rep where s1: "con_step c (fst s) = (s1, rep)" by fastforce
  have "con_ok s1" by (rule con_step_ok [OF assms s1])
  then have "report_position (feed_tty (con_putc n)) (s1, snd s) = report_position (feed_tty (con_putc 0)) (s1, snd s)"
    by (intro report_cong feed_tty_ok feed_tty_report) simp_all
  then show ?thesis by (simp add: putc_with_def s1)
qed

section \<open>Every run\<close>

text \<open>
  What can happen to the console: something is written, a program takes or gives back the video
  processor, or the terminal changes for another reason.
\<close>

datatype console_event = Written bytes | Graphics_mode bool | Terminal tsys

primrec con_event :: "console_event \<Rightarrow> cons \<Rightarrow> cons" where
  "con_event (Written bs) s = con_puts bs s"
| "con_event (Graphics_mode on) s = (pal_vdp_set_graphics_mode on (fst s), snd s)"
| "con_event (Terminal t) s = (fst s, t)"

lemma con_ok_graphics [simp]: "con_ok (s\<lparr>vdp_graphics_mode := on\<rparr>) = con_ok s"
  by (simp add: con_ok_def in_range_def parser_idle_def)

lemma con_event_ok: "con_ok (fst s) \<Longrightarrow> con_ok (fst (con_event e s))"
  by (cases e) (simp_all add: con_puts_ok pal_vdp_set_graphics_mode_def)

lemma con_events_ok: "con_ok (fst s) \<Longrightarrow> con_ok (fst (fold con_event es s))"
  by (rule fold_ok [where P = con_ok, OF con_event_ok])

lemma typed_if_ok: "con_ok s \<Longrightarrow> 0 \<le> cursor_x s \<and> cursor_x s < COLS \<and> 0 \<le> cursor_y s \<and> cursor_y s < ROWS \<and>
    saved_x s < 40 \<and> saved_y s < 28 \<and> current_attr s \<in> {0, 0x6000} \<and>
    (esc_state s = ESC_CSI \<or> esc_state s = ESC_CSI_Q \<or> parser_idle s) \<and> list_all on_screen (drawn s)"
  by (cases "esc_state s") (auto simp: con_ok_def in_range_def list_all_iff)

text \<open>
  A backspace clears the cell it moves to. So a program that moves the cursor to the left with
  backspaces, as the line editor of the library does, wipes what it passes over.
\<close>

lemma backspace_clears:
  assumes "0 < cursor_x s" and "cursor_x s \<le> COLS" and "cursor_y s < ROWS"
  shows "drawn (putc_normal 8 s) = drawn (emit (Plot (cursor_y s) (cursor_x s - 1) 0) s)"
    and "cursor_x (putc_normal 8 s) = cursor_x s - 1"
  using assms by (simp_all add: putc_normal_def newline_if_def emit_def Let_def)

section \<open>Property\<close>

text \<open>
  C37. From boot on, whatever bytes are written to the console in whatever order, whatever
  the terminal that receives the status reports does, and whenever programs take over the video
  processor: the cursor and the saved cursor stay on the screen, the attribute is one of the two
  palettes, no half-parsed number is left outside a control sequence, every call of an assembly
  routine stays inside the visible 28 rows of 40 tiles and plots a glyph of the font; and the echo
  of a status report never starts another report, so one level of nesting is exact.
\<close>

theorem console_well_typed:
  "let z = fold con_event es (con_init, t); s = fst z in
     0 \<le> cursor_x s \<and> cursor_x s < COLS \<and> 0 \<le> cursor_y s \<and> cursor_y s < ROWS \<and>
     saved_x s < 40 \<and> saved_y s < 28 \<and> current_attr s \<in> {0, 0x6000} \<and>
     (esc_state s = ESC_CSI \<or> esc_state s = ESC_CSI_Q \<or> parser_idle s) \<and>
     list_all on_screen (drawn s) \<and> con_putc (Suc n) c z = con_putc 1 c z"
proof -
  have ok: "con_ok (fst (fold con_event es (con_init, t)))"
    by (intro con_events_ok) (simp add: con_init_ok)
  show ?thesis
    unfolding Let_def using typed_if_ok [OF ok] con_putc_depth [OF ok, of n c] by blast
qed

end
