(* ===== verification/Console_Screen.thy ===== *)
theory Console_Screen
  imports Console_Correct
begin

text \<open>
  What the Mega Drive screen shows: an abstract page of 28 rows of 40 tiles, and the lemmas
  that the control sequences and characters have their effect on it, through the scrolled name
  table of the video processor.
\<close>

section \<open>Rows of the name table\<close>

lemma numeral_dvd_8192: "(32 :: nat) dvd 8192"
  by simp

text \<open>The tile at a place of the screen.\<close>

definition shown :: "vdp \<Rightarrow> int \<Rightarrow> int \<Rightarrow> u16" where
  "shown v y x = nametable v (vt_row v y) (nat x)"

lemma vt_row_eq:
  assumes "0 \<le> y" and "y < 65536"
  shows "vt_row v y = (unat (drop_bit 3 (vt_scroll_amount v)) + nat y) mod 32"
proof -
  let ?a = "drop_bit 3 (vt_scroll_amount v)"
  have "(?a + of_int y) AND 0x1F = take_bit 5 (?a + of_int y)"
    by (simp add: take_bit_eq_mask mask_eq_exp_minus_1)
  then have "vt_row v y = unat (?a + of_int y) mod 32"
    by (simp add: vt_row_def take_bit_eq_mod unat_mod)
  moreover have "unat (of_int y :: u16) = nat y"
    using assms by (simp add: unat_eq_nat_uint uint_word_of_int_eq take_bit_int_eq_self)
  ultimately show ?thesis
    by (simp add: unat_word_ariths mod_mod_cancel)
qed

lemma mod32_le: "m \<le> n \<Longrightarrow> n < 28 \<Longrightarrow> (a + m) mod 32 = (a + n) mod 32 \<Longrightarrow> m = (n :: nat)"
proof -
  assume a: "m \<le> n" "n < 28" "(a + m) mod 32 = (a + n) mod 32"
  then have "32 dvd n - m" using mod_eq_dvd_iff_nat [of "a + m" "a + n" 32] by simp
  with a(1,2) show ?thesis by (cases "n - m = 0") (auto dest: dvd_imp_le)
qed

lemma mod32_inj: "m < 28 \<Longrightarrow> n < 28 \<Longrightarrow> (a + m) mod 32 = (a + n) mod 32 \<longleftrightarrow> m = (n :: nat)"
  by (metis mod32_le nat_le_linear)

lemma vt_row_inj:
  "0 \<le> y \<Longrightarrow> y < ROWS \<Longrightarrow> 0 \<le> y' \<Longrightarrow> y' < ROWS \<Longrightarrow> vt_row v y = vt_row v y' \<longleftrightarrow> y = y'"
  by (simp add: vt_row_eq mod32_inj eq_nat_nat_iff)

lemma vt_row_scrolled:
  assumes "0 \<le> y" and "y < ROWS"
  shows "vt_row (draw Scroll_up v) y = vt_row v (y + 1)"
proof -
  let ?a = "unat (vt_scroll_amount v)"
  have "x mod 65536 div 8 = x div 8 mod 8192" for x :: nat using mod_mult2_eq [of x 8 8192] by simp
  then have "((?a + 8) mod 65536 div 8 + nat y) mod 32 = ((?a + 8) div 8 + nat y) mod 32"
    by (metis (no_types, opaque_lifting) mod_add_left_eq mod_mod_cancel numeral_dvd_8192)
  moreover have "(?a + 8) div 8 = Suc (?a div 8)" by simp
  moreover have "?a div 8 mod 65536 = ?a div 8"
    using u16_bound [of "vt_scroll_amount v"] by (intro mod_less) simp
  moreover have "(?a + 8) mod 65536 div 8 mod 65536 = (?a + 8) mod 65536 div 8"
    by (intro mod_less) (simp add: less_mult_imp_div_less)
  ultimately show ?thesis
    using assms by (simp add: vt_row_eq unat_word_ariths drop_bit_eq_div unat_div nat_add_distrib unat_drop_bit_eq)
qed

lemma vt_row_updates [simp]:
  "vt_row (v\<lparr>nametable := nt\<rparr>) y = vt_row v y" "vt_row (v\<lparr>sprite := p\<rparr>) y = vt_row v y"
  "vt_row (clear_row r x n v) y = vt_row v y"
  by (simp_all add: vt_row_def clear_row_def)

section \<open>The calls\<close>

lemma shown_plot:
  assumes "0 \<le> y" "y < ROWS" "0 \<le> x" "0 \<le> y'" "y' < ROWS" "0 \<le> x'"
  shows "shown (draw (Plot y x c) v) y' x' = (if y' = y \<and> x' = x then c else shown v y' x')"
  using assms by (auto simp: shown_def vt_row_inj eq_nat_nat_iff)

lemma shown_across:
  assumes "0 \<le> y" "y < ROWS" "0 \<le> x" "0 \<le> n" "0 \<le> y'" "y' < ROWS" "0 \<le> x'"
  shows "shown (draw (Clear_across y x n) v) y' x' = (if y' = y \<and> x \<le> x' \<and> x' < x + n then 0 else shown v y' x')"
  using assms by (auto simp: shown_def clear_row_def vt_row_inj nat_le_iff nat_less_iff)

lemma shown_lines:
  assumes "0 \<le> y" "0 \<le> n" "y + n \<le> ROWS" "0 \<le> y'" "y' < ROWS" "0 \<le> x'" "x' < COLS"
  shows "shown (draw (Clear_lines y n) v) y' x' = (if y \<le> y' \<and> y' < y + n then 0 else shown v y' x')"
proof -
  have rows: "vt_row (fold (\<lambda>i. clear_row (vt_row v (y + int i)) 0 40) [0..<k] v) z = vt_row v z" for k z
    by (induction k) simp_all
  have "shown (fold (\<lambda>i. clear_row (vt_row v (y + int i)) 0 40) [0..<k] v) y' x' =
      (if y \<le> y' \<and> y' < y + int k then 0 else shown v y' x')" if "y + int k \<le> ROWS" for k
    using that
  proof (induction k)
    case (Suc k)
    let ?w = "fold (\<lambda>i. clear_row (vt_row v (y + int i)) 0 40) [0..<k] v"
    have "shown (clear_row (vt_row v (y + int k)) 0 40 ?w) y' x' = (if y' = y + int k then 0 else shown ?w y' x')"
      using assms Suc.prems vt_row_inj [of y' "y + int k" v]
      by (auto simp: shown_def rows) (auto simp: clear_row_def)
    with Suc show ?case by auto
  qed (use assms in auto)
  from this [of "nat n"] assms show ?thesis by simp
qed

lemma shown_scroll:
  "0 \<le> y \<Longrightarrow> y < ROWS \<Longrightarrow> shown (draw Scroll_up v) y x = shown v (y + 1) x"
  by (simp add: shown_def vt_row_scrolled del: draw.simps) simp

section \<open>Pages\<close>

text \<open>The abstract screen: 28 rows of 40 tiles, 0 elsewhere, and the cursor.\<close>

record page =
  cell :: "int \<Rightarrow> int \<Rightarrow> u16"
  prow :: int
  pcol :: int

definition on_page :: "int \<Rightarrow> int \<Rightarrow> bool" where
  "on_page y x \<longleftrightarrow> 0 \<le> y \<and> y < ROWS \<and> 0 \<le> x \<and> x < COLS"

definition tiles :: "vdp \<Rightarrow> int \<Rightarrow> int \<Rightarrow> u16" where
  "tiles v = (\<lambda>y x. if on_page y x then shown v y x else 0)"

definition page_of :: "vdp \<Rightarrow> con \<Rightarrow> page" where
  "page_of v s = \<lparr>cell = tiles (fold draw (drawn s) v), prow = cursor_y s, pcol = cursor_x s\<rparr>"

definition p_goto :: "int \<Rightarrow> int \<Rightarrow> page \<Rightarrow> page" where
  "p_goto y x p = p\<lparr>prow := y, pcol := x\<rparr>"

definition p_plot :: "u16 \<Rightarrow> page \<Rightarrow> page" where
  "p_plot g p = p\<lparr>cell := (cell p)(prow p := (cell p (prow p))(pcol p := g))\<rparr>"

definition p_scroll :: "page \<Rightarrow> page" where
  "p_scroll p = p\<lparr>cell := (\<lambda>y x. if 0 \<le> y \<and> y < ROWS - 1 then cell p (y + 1) x else 0)\<rparr>"

text \<open>Erase the places that satisfy \<open>P\<close>.\<close>

definition p_erase :: "(int \<Rightarrow> int \<Rightarrow> bool) \<Rightarrow> page \<Rightarrow> page" where
  "p_erase P p = p\<lparr>cell := (\<lambda>y x. if P y x then 0 else cell p y x)\<rparr>"

text \<open>A printed character, with the wrap at the end of a row and the scroll at the end of the page.\<close>

definition p_put :: "u16 \<Rightarrow> page \<Rightarrow> page" where
  "p_put g p =
     (let p1 = p_plot g p
      in if pcol p + 1 < COLS then p1\<lparr>pcol := pcol p + 1\<rparr>
         else if prow p + 1 < ROWS then p1\<lparr>pcol := 0, prow := prow p + 1\<rparr>
         else (p_scroll p1)\<lparr>pcol := 0\<rparr>)"

section \<open>Display calls on the page\<close>

lemma draw_emit: "fold draw (drawn (emit d s)) v = draw d (fold draw (drawn s) v)"
  by simp

lemma page_move [simp]:
  "page_of v (s\<lparr>cursor_x := x\<rparr>) = (page_of v s)\<lparr>pcol := x\<rparr>"
  "page_of v (s\<lparr>cursor_y := y\<rparr>) = (page_of v s)\<lparr>prow := y\<rparr>"
  "page_of v (s\<lparr>current_attr := a\<rparr>) = page_of v s" "page_of v (s\<lparr>esc_state := m\<rparr>) = page_of v s"
  "page_of v (s\<lparr>esc_params := ps\<rparr>) = page_of v s" "page_of v (s\<lparr>esc_nparam := n\<rparr>) = page_of v s"
  "page_of v (s\<lparr>esc_partial := n\<rparr>) = page_of v s" "page_of v (s\<lparr>esc_has_digit := b\<rparr>) = page_of v s"
  "page_of v (s\<lparr>cursor_visible := b\<rparr>) = page_of v s"
  by (simp_all add: page_of_def)

lemma page_sel [simp]: "prow (page_of v s) = cursor_y s" "pcol (page_of v s) = cursor_x s"
  by (simp_all add: page_of_def)

lemma page_plot:
  assumes "on_page y x"
  shows "page_of v (emit (Plot y x c) s) = (page_of v s)\<lparr>cell := (cell (page_of v s))(y := (cell (page_of v s) y)(x := c))\<rparr>"
  unfolding page_of_def draw_emit tiles_def using assms
  by (auto simp: on_page_def shown_plot simp del: draw.simps intro!: ext)

lemma page_across:
  assumes "0 \<le> y" "y < ROWS" "0 \<le> x" "0 \<le> n" "x + n \<le> COLS"
  shows "page_of v (emit (Clear_across y x n) s) = p_erase (\<lambda>y' x'. y' = y \<and> x \<le> x' \<and> x' < x + n) (page_of v s)"
  unfolding page_of_def draw_emit tiles_def p_erase_def using assms
  by (auto simp: on_page_def shown_across simp del: draw.simps intro!: ext)

lemma page_lines:
  assumes "0 \<le> y" "0 \<le> n" "y + n \<le> ROWS"
  shows "page_of v (emit (Clear_lines y n) s) = p_erase (\<lambda>y' x'. y \<le> y' \<and> y' < y + n) (page_of v s)"
  unfolding page_of_def draw_emit tiles_def p_erase_def using assms
  by (auto simp: on_page_def shown_lines simp del: draw.simps intro!: ext)

lemma page_scroll:
  "page_of v (emit (Clear_lines (ROWS - 1) 1) (emit Scroll_up s)) = p_scroll (page_of v s)"
  unfolding page_of_def draw_emit tiles_def p_scroll_def
  by (auto simp: on_page_def shown_lines shown_scroll simp del: draw.simps intro!: ext)

section \<open>Characters and sequences\<close>

lemma page_putc:
  assumes "in_range s" and "c \<notin> {8, 9, 10, 13}"
  shows "page_of v (putc_normal c s) = p_put (ucast c OR current_attr s) (page_of v s)"
proof -
  let ?g = "ucast c OR current_attr s"
  let ?e = "emit (Plot (cursor_y s) (cursor_x s) ?g) s"
  have on: "on_page (cursor_y s) (cursor_x s)" using assms(1) by (simp add: in_range_def on_page_def)
  have pc: "putc_normal c s = newline_if (?e\<lparr>cursor_x := cursor_x s + 1\<rparr>)"
    using assms(2) by (simp add: putc_normal_def)
  have e: "page_of v ?e = p_plot ?g (page_of v s)"
    by (subst page_plot [OF on]) (simp add: p_plot_def)
  obtain f where p: "page_of v s = \<lparr>cell = f, prow = cursor_y s, pcol = cursor_x s\<rparr>" by (simp add: page_of_def)
  have sc: "page_of v (emit (Clear_lines 27 1) (emit Scroll_up s')) = p_scroll (page_of v s')" for s'
    using page_scroll [of v s'] by simp
  have "cursor_x s < 40" "cursor_y s < 28" using assms(1) by (simp_all add: in_range_def)
  then show ?thesis
    unfolding pc newline_if_def Let_def p_put_def
    by (auto simp: sc e p p_plot_def p_scroll_def cong: if_cong)
qed

definition ready :: "con \<Rightarrow> bool" where
  "ready s \<longleftrightarrow> con_ok s \<and> esc_state s = ESC_NORMAL \<and> \<not> vdp_graphics_mode s"

lemma con_putc_step: "con_step c s = (s', False) \<Longrightarrow> con_putc n c (s, t) = (s', t)"
  by (cases n) (simp_all add: putc_with_def)

lemma con_puts_simps [simp]:
  "con_puts [] z = z" "con_puts (c # cs) z = con_puts cs (con_putc 1 c z)"
  "con_puts (bs @ cs) z = con_puts cs (con_puts bs z)"
  by (simp_all add: con_puts_def)

lemma ready_putc:
  assumes "ready s" and "c \<notin> {8, 9, 10, 13, 27}"
  shows "con_putc n c (s, t) = (putc_normal c s, t)" and "ready (putc_normal c s)"
    and "current_attr (putc_normal c s) = current_attr s"
proof -
  have "con_step c s = (putc_normal c s, False)" using assms by (simp add: con_step_def ready_def)
  then show "con_putc n c (s, t) = (putc_normal c s, t)" by (rule con_putc_step)
  have "vdp_graphics_mode (putc_normal c s) = vdp_graphics_mode s" "current_attr (putc_normal c s) = current_attr s"
    by (simp_all add: putc_normal_def newline_if_def Let_def)
  with assms(1) show "ready (putc_normal c s)" "current_attr (putc_normal c s) = current_attr s"
    by (simp_all add: ready_def con_ok_def in_range_putc)
qed

text \<open>A console inside a control sequence, with what it has collected.\<close>

definition in_csi :: "con \<Rightarrow> (nat \<Rightarrow> u8) \<Rightarrow> nat \<Rightarrow> u8 \<Rightarrow> bool \<Rightarrow> con" where
  "in_csi s ps n part dig = s\<lparr>esc_state := ESC_CSI, esc_params := ps, esc_nparam := of_nat n, esc_partial := part, esc_has_digit := dig\<rparr>"

lemma in_csi_sel [simp]:
  "esc_state (in_csi s ps n part dig) = ESC_CSI" "esc_params (in_csi s ps n part dig) = ps"
  "esc_nparam (in_csi s ps n part dig) = of_nat n" "esc_partial (in_csi s ps n part dig) = part"
  "esc_has_digit (in_csi s ps n part dig) = dig" "vdp_graphics_mode (in_csi s ps n part dig) = vdp_graphics_mode s"
  "current_attr (in_csi s ps n part dig) = current_attr s" "cursor_x (in_csi s ps n part dig) = cursor_x s"
  "cursor_y (in_csi s ps n part dig) = cursor_y s" "page_of v (in_csi s ps n part dig) = page_of v s"
  "in_range (in_csi s ps n part dig) = in_range s"
  by (simp_all add: in_csi_def in_range_def)

text \<open>The codes are written as numbers: ESC is 27, an opening bracket 91, a semicolon 59.\<close>

lemma csi_start: "ready s \<Longrightarrow> con_puts [27, 91] (s, t) = (in_csi s (\<lambda>i. if i < 4 then 0 else esc_params s i) 0 0 False, t)"
proof -
  assume r: "ready s"
  let ?s = "s\<lparr>esc_state := ESC_SEEN\<rparr>"
  have "con_step 27 s = (?s, False)" "con_step 91 ?s = (start_csi ?s, False)"
    using r by (simp_all add: con_step_def ready_def)
  note this [THEN con_putc_step, of 1 t]
  moreover have "start_csi ?s = in_csi s (\<lambda>i. if i < 4 then 0 else esc_params s i) 0 0 False"
    by (simp add: start_csi_def in_csi_def cong: if_cong)
  ultimately show ?thesis by (simp del: con_putc.simps One_nat_def)
qed

definition dec :: "u8 \<Rightarrow> bytes \<Rightarrow> u8" where
  "dec part ds = fold (\<lambda>c v. v * 10 + (c - 48)) ds part"

lemma csi_digits:
  "\<not> vdp_graphics_mode s \<Longrightarrow> list_all (\<lambda>c. 48 \<le> c \<and> c \<le> 57) ds \<Longrightarrow>
     con_puts ds (in_csi s ps n part dig, t) = (in_csi s ps n (dec part ds) (dig \<or> ds \<noteq> []), t)"
proof (induction ds arbitrary: part dig)
  case (Cons c ds)
  have "con_step c (in_csi s ps n part dig) = (in_csi s ps n (part * 10 + (c - 48)) True, False)"
    using Cons.prems by (auto simp: con_step_def add_digit_def) (simp add: in_csi_def)
  note con_putc_step [OF this, of 1 t]
  with Cons show ?case by (simp add: dec_def del: con_putc.simps One_nat_def)
qed (simp add: dec_def)

lemma csi_semicolon:
  assumes "\<not> vdp_graphics_mode s" and "n < 4"
  shows "con_puts [59] (in_csi s ps n part dig, t) = (in_csi s (ps(n := part)) (Suc n) 0 False, t)"
proof -
  have "unat (of_nat n :: u8) = n" using assms(2) by (simp add: unat_of_nat)
  then have "con_step 59 (in_csi s ps n part dig) = (in_csi s (ps(n := part)) (Suc n) 0 False, False)"
    using assms by (simp add: con_step_def store_param_def) (simp add: in_csi_def)
  note con_putc_step [OF this, of 1 t]
  then show ?thesis by (simp del: con_putc.simps One_nat_def)
qed

lemma csi_final:
  assumes "\<not> vdp_graphics_mode s" and "is_final c" and "c \<noteq> 110" and "n < 4"
  shows "con_puts [c] (in_csi s ps n part True, t) = (esc_reset (handle_csi c (in_csi s (ps(n := part)) (Suc n) part True)), t)"
    and "con_puts [c] (in_csi s ps 0 part False, t) = (esc_reset (handle_csi c (in_csi s ps 0 part False)), t)"
proof -
  have u: "unat (of_nat n :: u8) = n" using assms(4) by (simp add: unat_of_nat)
  have c: "c \<noteq> 63" "\<not> (48 \<le> c \<and> c \<le> 57)" "c \<noteq> 59"
    using assms(2) by (auto simp: is_final_def word_le_nat_alt)
  have "store_param (in_csi s ps n part True) = in_csi s (ps(n := part)) (Suc n) part True"
    by (simp add: store_param_def u assms(4)) (simp add: in_csi_def)
  then have "con_step c (in_csi s ps n part True) = (esc_reset (handle_csi c (in_csi s (ps(n := part)) (Suc n) part True)), False)"
    "con_step c (in_csi s ps 0 part False) = (esc_reset (handle_csi c (in_csi s ps 0 part False)), False)"
    using assms c by (auto simp: con_step_def)
  note this [THEN con_putc_step, of 1 t]
  then show "con_puts [c] (in_csi s ps n part True, t) = (esc_reset (handle_csi c (in_csi s (ps(n := part)) (Suc n) part True)), t)"
    "con_puts [c] (in_csi s ps 0 part False, t) = (esc_reset (handle_csi c (in_csi s ps 0 part False)), t)"
    by (simp_all del: con_putc.simps One_nat_def)
qed

section \<open>Writing as a step on pages\<close>

text \<open>A console that shows a page, with the attribute of the next character.\<close>

definition con_displays :: "vdp \<Rightarrow> con \<Rightarrow> u16 \<times> page \<Rightarrow> bool" where
  "con_displays v s p \<longleftrightarrow> ready s \<and> current_attr s = fst p \<and> page_of v s = snd p"

definition writes :: "vdp \<Rightarrow> bytes \<Rightarrow> u16 \<times> page \<Rightarrow> u16 \<times> page \<Rightarrow> bool" where
  "writes v bs p p' \<longleftrightarrow> (\<forall>s t. con_displays v s p \<longrightarrow> (\<exists>s'. con_puts bs (s, t) = (s', t) \<and> con_displays v s' p'))"

lemma writes_append: "writes v bs p p' \<Longrightarrow> writes v cs p' p'' \<Longrightarrow> writes v (bs @ cs) p p''"
  by (simp add: writes_def) (metis (no_types, lifting))

lemma writes_char:
  assumes "c \<notin> {8, 9, 10, 13, 27}"
  shows "writes v [c] (a, p) (a, p_put (ucast c OR a) p)"
  unfolding writes_def con_displays_def
proof (intro allI impI exI conjI)
  fix s t
  assume d: "ready s \<and> current_attr s = fst (a, p) \<and> page_of v s = snd (a, p)"
  then have r: "ready s" by simp
  note rp = ready_putc [OF r assms]
  show "con_puts [c] (s, t) = (putc_normal c s, t)" using rp(1) [of 1] by (simp del: con_putc.simps One_nat_def)
  show "ready (putc_normal c s)" by (rule rp(2))
  show "current_attr (putc_normal c s) = fst (a, p_put (ucast c OR a) p)" using rp(3) d by simp
  have "in_range s" using r by (simp add: ready_def con_ok_def)
  with assms d show "page_of v (putc_normal c s) = snd (a, p_put (ucast c OR a) p)" by (simp add: page_putc)
qed

lemma writes_text:
  "list_all (\<lambda>c. c \<notin> {8, 9, 10, 13, 27}) bs \<Longrightarrow> writes v bs (a, p) (a, fold (\<lambda>c. p_put (ucast c OR a)) bs p)"
proof (induction bs arbitrary: p)
  case (Cons c bs)
  then show ?case using writes_append [OF writes_char [of c v a p]] by simp
qed (simp add: writes_def)

text \<open>
  A control sequence: the parameters, if any, and the final character, which changes the
  console as \<open>handle_csi\<close> says and leaves it ready.
\<close>

lemma ready_after:
  assumes "ready s" and "s' = handle_csi c (in_csi s ps n part dig)"
  shows "ready (esc_reset s')" and "page_of v (esc_reset s') = page_of v s'" and "current_attr (esc_reset s') = current_attr s'"
proof -
  have r: "in_range s" using assms(1) by (simp add: ready_def con_ok_def)
  have "vdp_graphics_mode (handle_csi c z) = vdp_graphics_mode z" for z
    by (simp add: handle_csi_def Let_def move_by_def move_to_def cursor_clamp_def erase_display_def erase_line_def handle_sgr_def)
  with assms show "ready (esc_reset s')"
    by (simp add: ready_def con_ok_reset in_range_csi r) (simp add: esc_reset_def)
  show "page_of v (esc_reset s') = page_of v s'" "current_attr (esc_reset s') = current_attr s'"
    by (simp_all add: esc_reset_def)
qed

text \<open>The values of the parameters that a sequence has stored.\<close>

definition params_stored :: "(nat \<Rightarrow> u8) \<Rightarrow> u8 list \<Rightarrow> bool" where
  "params_stored ps vs \<longleftrightarrow> (\<forall>i < length vs. ps i = vs ! i)"

text \<open>Numbers between semicolons.\<close>

fun param_text :: "bytes list \<Rightarrow> bytes" where
  "param_text [] = []"
| "param_text [d] = d"
| "param_text (d # ds) = d @ 59 # param_text ds"

definition digits :: "bytes \<Rightarrow> bool" where
  "digits d \<longleftrightarrow> d \<noteq> [] \<and> list_all (\<lambda>c. 48 \<le> c \<and> c \<le> 57) d"

lemma csi_params:
  "ds \<noteq> [] \<Longrightarrow> list_all digits ds \<Longrightarrow> length vs + length ds \<le> 4 \<Longrightarrow> params_stored ps vs \<Longrightarrow> \<not> vdp_graphics_mode s \<Longrightarrow>
     \<exists>ps' part n. con_puts (param_text ds) (in_csi s ps (length vs) 0 False, t) = (in_csi s ps' n part True, t) \<and>
       Suc n = length vs + length ds \<and> params_stored (ps'(n := part)) (vs @ map (dec 0) ds)"
proof (induction ds arbitrary: ps vs rule: param_text.induct)
  case (2 d)
  then have "con_puts d (in_csi s ps (length vs) 0 False, t) = (in_csi s ps (length vs) (dec 0 d) True, t)"
    by (subst csi_digits) (simp_all add: digits_def)
  with 2 show ?case by (intro exI [of _ ps] exI [of _ "dec 0 d"] exI [of _ "length vs"])
      (auto simp: params_stored_def nth_append less_Suc_eq)
next
  case (3 d e ds)
  define qs where "qs = ps(length vs := dec 0 d)"
  have "params_stored qs (vs @ [dec 0 d])" using 3(5) by (auto simp: qs_def params_stored_def nth_append less_Suc_eq)
  with 3(1) [of "vs @ [dec 0 d]" qs] 3(3,4,6)
  have "\<exists>ps' part n. con_puts (param_text (e # ds)) (in_csi s qs (Suc (length vs)) 0 False, t) = (in_csi s ps' n part True, t) \<and>
      Suc n = length vs + length (d # e # ds) \<and> params_stored (ps'(n := part)) (vs @ map (dec 0) (d # e # ds))"
    by (simp del: fun_upd_apply)
  then obtain ps' part n where n: "Suc n = length vs + length (d # e # ds)"
    "params_stored (ps'(n := part)) (vs @ map (dec 0) (d # e # ds))"
    "con_puts (param_text (e # ds)) (in_csi s qs (Suc (length vs)) 0 False, t) = (in_csi s ps' n part True, t)"
    by blast
  have "con_puts d (in_csi s ps (length vs) 0 False, t) = (in_csi s ps (length vs) (dec 0 d) True, t)"
    using 3 by (subst csi_digits) (simp_all add: digits_def)
  moreover have "con_puts [59] (in_csi s ps (length vs) (dec 0 d) True, t) = (in_csi s qs (Suc (length vs)) 0 False, t)"
    using 3 unfolding qs_def by (intro csi_semicolon) simp_all
  ultimately have "con_puts (param_text (d # e # ds)) (in_csi s ps (length vs) 0 False, t) = (in_csi s ps' n part True, t)"
    using n(3) by simp
  with n(1,2) show ?case by blast
qed simp

lemma writes_csi:
  assumes "is_final c" and "c \<noteq> 110" and "list_all digits ds" and "length ds \<le> 4"
    and eff: "\<And>s ps part dig. in_range s \<Longrightarrow> current_attr s = a \<Longrightarrow> page_of v s = p \<Longrightarrow> params_stored ps (map (dec 0) ds) \<Longrightarrow>
        current_attr (handle_csi c (in_csi s ps (length ds) part dig)) = fst q \<and>
        page_of v (handle_csi c (in_csi s ps (length ds) part dig)) = snd q"
  shows "writes v (27 # 91 # param_text ds @ [c]) (a, p) q"
  unfolding writes_def
proof (intro allI impI)
  fix s t
  assume d: "con_displays v s (a, p)"
  then have r: "ready s" and i: "in_range s" and g: "\<not> vdp_graphics_mode s"
    and ap: "current_attr s = a" "page_of v s = p"
    by (simp_all add: con_displays_def ready_def con_ok_def)
  let ?ps = "\<lambda>i. if i < 4 then 0 else esc_params s i"
  obtain ps part dig where w: "con_puts (param_text ds @ [c]) (in_csi s ?ps 0 0 False, t) =
      (esc_reset (handle_csi c (in_csi s ps (length ds) part dig)), t)" and st: "params_stored ps (map (dec 0) ds)"
  proof (cases "ds = []")
    case True
    with csi_final(2) [OF g assms(1,2), where n = 0 and ps = ?ps and part = 0 and t = t] that [of ?ps 0 False] show ?thesis
      by (simp add: params_stored_def del: con_puts_simps(2))
  next
    case False
    obtain ps part n where n: "con_puts (param_text ds) (in_csi s ?ps 0 0 False, t) = (in_csi s ps n part True, t)"
      "Suc n = length ds" "params_stored (ps(n := part)) (map (dec 0) ds)"
      using csi_params [OF False assms(3), where vs = "[]" and ps = ?ps and s = s and t = t] assms(4) g by (auto simp: params_stored_def)
    then have "con_puts (param_text ds @ [c]) (in_csi s ?ps 0 0 False, t) =
        (esc_reset (handle_csi c (in_csi s (ps(n := part)) (Suc n) part True)), t)"
      using csi_final(1) [OF g assms(1,2), of n ps part t] assms(4) by (simp del: con_puts_simps(2))
    with n that [of "ps(n := part)" part True] show ?thesis by simp
  qed
  let ?s = "handle_csi c (in_csi s ps (length ds) part dig)"
  have "con_puts (27 # 91 # param_text ds @ [c]) (s, t) = con_puts (param_text ds @ [c]) (con_puts [27, 91] (s, t))" by simp
  then have "con_puts (27 # 91 # param_text ds @ [c]) (s, t) = (esc_reset ?s, t)"
    using csi_start [OF r, of t] w by (simp del: con_puts_simps)
  moreover have "con_displays v (esc_reset ?s) q"
    using eff [OF i ap st] by (simp add: con_displays_def ready_after [OF r refl])
  ultimately show "\<exists>s'. con_puts (27 # 91 # param_text ds @ [c]) (s, t) = (s', t) \<and> con_displays v s' q" by blast
qed

lemma esc_param_in_csi:
  "n < 256 \<Longrightarrow> esc_param i d (in_csi s ps n part dig) = (if i < n \<and> ps i > 0 then uint (ps i) else d)"
  by (simp add: esc_param_def unat_of_nat)

text \<open>The value a parameter stands for, with its default.\<close>

definition param_or :: "int \<Rightarrow> u8 \<Rightarrow> int" where
  "param_or d v = (if v > 0 then uint v else d)"

lemma writes_goto:
  assumes "digits d" and "digits e"
  shows "writes v (27 # 91 # param_text [d, e] @ [72]) (a, p)
    (a, p_goto (clamp ROWS (param_or 1 (dec 0 d) - 1)) (clamp COLS (param_or 1 (dec 0 e) - 1)) p)"
  by (rule writes_csi)
    (use assms in \<open>auto simp: is_final_def handle_csi_def Let_def move_to_def cursor_clamp_def p_goto_def
       esc_param_in_csi params_stored_def param_or_def nth_Cons'\<close>)

lemma writes_home: "writes v (27 # 91 # param_text [] @ [72]) (a, p) (a, p_goto 0 0 p)"
  by (rule writes_csi)
    (auto simp: is_final_def handle_csi_def Let_def move_to_def cursor_clamp_def p_goto_def esc_param_in_csi clamp_def)

lemma writes_clear:
  assumes "digits d" and "dec 0 d = 2"
  shows "writes v (27 # 91 # param_text [d] @ [74]) (a, p) (a, p_goto 0 0 (p_erase (\<lambda>y x. 0 \<le> y \<and> y < ROWS) p))"
  by (rule writes_csi)
    (use assms page_lines [of 0 ROWS] in \<open>auto simp: is_final_def handle_csi_def Let_def erase_display_def p_goto_def
       esc_param_in_csi params_stored_def\<close>)

lemma writes_clrtoeol:
  "writes v (27 # 91 # param_text [] @ [75]) (a, p) (a, p_erase (\<lambda>y x. y = prow p \<and> pcol p \<le> x \<and> x < COLS) p)"
  by (rule writes_csi)
    (auto simp: is_final_def handle_csi_def Let_def erase_line_def esc_param_in_csi page_across in_range_def)

lemma p_erase_erase: "p_erase P (p_erase Q p) = p_erase (\<lambda>y x. Q y x \<or> P y x) p"
  by (cases p) (auto simp: p_erase_def intro!: ext)

lemma writes_clrtobot:
  "writes v (27 # 91 # param_text [] @ [74]) (a, p)
     (a, p_erase (\<lambda>y x. y = prow p \<and> pcol p \<le> x \<and> x < COLS \<or> prow p < y \<and> y < ROWS) p)"
proof (rule writes_csi)
  fix s ps part dig
  assume r: "in_range s" and "current_attr s = a" and p: "page_of v s = p"
  let ?s = "in_csi s ps 0 part dig" and ?y = "cursor_y s" and ?x = "cursor_x s"
  have yx: "0 \<le> ?y" "?y < ROWS" "0 \<le> ?x" "?x < COLS" "prow p = ?y" "pcol p = ?x" using r p by (auto simp: in_range_def)
  have a: "page_of v (emit (Clear_across ?y ?x (COLS - ?x)) ?s) = p_erase (\<lambda>y x. y = ?y \<and> ?x \<le> x \<and> x < COLS) p"
    using yx p page_across [of ?y ?x "COLS - ?x" v ?s] by simp
  have "p_erase (\<lambda>y x. y = ?y \<and> ?x \<le> x \<and> x < COLS) p =
      p_erase (\<lambda>y x. y = ?y \<and> ?x \<le> x \<and> x < COLS \<or> ?y < y \<and> y < ROWS) p" if "\<not> ?y + 1 < ROWS"
    using that by (intro arg_cong [of _ _ "\<lambda>P. p_erase P p"] ext) auto
  moreover have "page_of v (emit (Clear_lines (?y + 1) (ROWS - ?y - 1)) (emit (Clear_across ?y ?x (COLS - ?x)) ?s)) =
      p_erase (\<lambda>y x. y = ?y \<and> ?x \<le> x \<and> x < COLS \<or> ?y < y \<and> y < ROWS) p" if "?y + 1 < ROWS"
    using that yx by (subst page_lines) (auto simp: a p_erase_erase zless_imp_add1_zle add1_zle_eq)
  ultimately show "current_attr (handle_csi 74 (in_csi s ps (length []) part dig)) = fst (a, p_erase (\<lambda>y x. y = prow p \<and> pcol p \<le> x \<and> x < COLS \<or> prow p < y \<and> y < ROWS) p) \<and>
      page_of v (handle_csi 74 (in_csi s ps (length []) part dig)) = snd (a, p_erase (\<lambda>y x. y = prow p \<and> pcol p \<le> x \<and> x < COLS \<or> prow p < y \<and> y < ROWS) p)"
    using \<open>current_attr s = a\<close> yx a by (auto simp: handle_csi_def Let_def erase_display_def esc_param_in_csi)
qed (simp_all add: is_final_def)

lemma writes_sgr:
  assumes "list_all digits ds" and "ds \<noteq> []" and "length ds \<le> 4"
  shows "writes v (27 # 91 # param_text ds @ [109]) (a, p) (fold sgr_code (map (dec 0) ds) a, p)"
proof (rule writes_csi)
  fix s ps part dig
  assume "current_attr s = a" "page_of v s = p" and st: "params_stored ps (map (dec 0) ds)"
  have u: "unat (of_nat (length ds) :: u8) = length ds" using assms(3) by (simp add: unat_of_nat)
  moreover have "(of_nat (length ds) :: u8) \<noteq> 0" using u assms(2) by (metis length_0_conv unat_0)
  moreover have "fold (\<lambda>i. sgr_code (ps i)) [0..<length ds] x = fold sgr_code (map (dec 0) ds) x" for x
  proof -
    have "map (dec 0) ds = map ps [0..<length ds]"
      using st by (intro nth_equalityI) (simp_all add: params_stored_def)
    then show ?thesis by (simp add: fold_map comp_def)
  qed
  ultimately show "current_attr (handle_csi 109 (in_csi s ps (length ds) part dig)) = fst (fold sgr_code (map (dec 0) ds) a, p) \<and>
      page_of v (handle_csi 109 (in_csi s ps (length ds) part dig)) = snd (fold sgr_code (map (dec 0) ds) a, p)"
    using \<open>current_attr s = a\<close> \<open>page_of v s = p\<close> by (simp add: handle_csi_def Let_def handle_sgr_def)
qed (use assms in \<open>simp_all add: is_final_def\<close>)

end
