(* ===== verification/Curses_Correct.thy ===== *)
theory Curses_Correct
  imports Curses Console_Screen
begin

text \<open>
  The curses library against the Mega Drive console: what a program draws with it is on the
  screen, and the cursor it believes in is the cursor of the console.
\<close>

section \<open>Numbers\<close>

lemma digit_range: "0 \<le> n \<Longrightarrow> n < 10 \<Longrightarrow> 48 \<le> (48 + of_int n :: u8) \<and> 48 + of_int n \<le> (57 :: u8)"
proof -
  assume "0 \<le> n" "n < 10"
  then have "n = 0 \<or> n = 1 \<or> n = 2 \<or> n = 3 \<or> n = 4 \<or> n = 5 \<or> n = 6 \<or> n = 7 \<or> n = 8 \<or> n = 9" by presburger
  then show ?thesis by (elim disjE) simp_all
qed

lemma digits_itoa: "0 \<le> n \<Longrightarrow> n < 1000 \<Longrightarrow> digits (itoa_small n)"
  by (auto simp: digits_def itoa_small_def rem10_def digit_range)

lemma dec_itoa: "0 \<le> n \<Longrightarrow> n < 1000 \<Longrightarrow> dec 0 (itoa_small n) = of_int n"
proof -
  assume n: "0 \<le> n" "n < 1000"
  have "(of_int (m div 10 * 10 + m mod 10) :: u8) = of_int m" for m by (simp only: div_mult_mod_eq)
  then have e: "(of_int (m div 10) * 10 + of_int (m mod 10) :: u8) = of_int m" for m
    by (simp only: of_int_add of_int_mult of_int_numeral)
  have "n div 10 div 10 = n div 100" by (simp add: zdiv_zmult2_eq [symmetric])
  with e [of "n div 10"] have e2: "(of_int (n div 100) * 10 + of_int (n div 10 mod 10) :: u8) = of_int (n div 10)" by simp
  consider "n < 10" | "10 \<le> n" "n < 100" | "100 \<le> n" by linarith
  then show ?thesis
  proof cases
    case 2
    then have "n div 10 mod 10 = n div 10" by (simp add: mod_pos_pos_trivial)
    with 2 e [of n] show ?thesis by (simp add: itoa_small_def rem10_def dec_def)
  next
    case 3
    with e [of n] e2 show ?thesis by (simp add: itoa_small_def rem10_def dec_def)
  qed (use n in \<open>simp add: itoa_small_def rem10_def dec_def\<close>)
qed

section \<open>What a program draws\<close>

datatype curses_call =
  Move int int
| Addch u8
| Addstr bytes
| Mvaddch int int u8
| Mvaddstr int int bytes
| Attrset u32
| Attron u32
| Attroff u32
| Init_pair int int int
| Clear
| Clrtoeol
| Clrtobot

primrec do_call :: "curses_call \<Rightarrow> curses \<Rightarrow> curses" where
  "do_call (Move y x) s = snd (move y x s)"
| "do_call (Addch c) s = addch c s"
| "do_call (Addstr bs) s = addstr bs s"
| "do_call (Mvaddch y x c) s = snd (mvaddch y x c s)"
| "do_call (Mvaddstr y x bs) s = snd (mvaddstr y x bs s)"
| "do_call (Attrset a) s = attrset a s"
| "do_call (Attron a) s = attron a s"
| "do_call (Attroff a) s = attroff a s"
| "do_call (Init_pair i fg bg) s = snd (init_pair i fg bg s)"
| "do_call Clear s = clear_screen s"
| "do_call Clrtoeol s = clrtoeol s"
| "do_call Clrtobot s = clrtobot s"

text \<open>The specification: the page, and the attributes, of which only bold is visible.\<close>

definition show_attr :: "u32 \<Rightarrow> u16" where
  "show_attr a = (if a AND A_BOLD \<noteq> 0 then 0x6000 else 0)"

definition print_on :: "bytes \<Rightarrow> u32 \<times> page \<Rightarrow> u32 \<times> page" where
  "print_on bs q = (fst q, fold (\<lambda>c. p_put (ucast c OR show_attr (fst q))) bs (snd q))"

definition blank :: page where
  "blank = \<lparr>cell = (\<lambda>_ _. 0), prow = 0, pcol = 0\<rparr>"

primrec sketch :: "curses_call \<Rightarrow> u32 \<times> page \<Rightarrow> u32 \<times> page" where
  "sketch (Move y x) q = (fst q, if on_page y x then p_goto y x (snd q) else snd q)"
| "sketch (Addch c) q = print_on [c] q"
| "sketch (Addstr bs) q = print_on bs q"
| "sketch (Mvaddch y x c) q = (if on_page y x then print_on [c] (fst q, p_goto y x (snd q)) else q)"
| "sketch (Mvaddstr y x bs) q = (if on_page y x then print_on bs (fst q, p_goto y x (snd q)) else q)"
| "sketch (Attrset a) q = (a, snd q)"
| "sketch (Attron a) q = (fst q OR a, snd q)"
| "sketch (Attroff a) q = (fst q AND NOT a, snd q)"
| "sketch (Init_pair i fg bg) q = q"
| "sketch Clear q = (fst q, p_goto 0 0 (p_erase (\<lambda>y x. 0 \<le> y \<and> y < ROWS) (snd q)))"
| "sketch Clrtoeol q = (fst q, p_erase (\<lambda>y x. y = prow (snd q) \<and> pcol (snd q) \<le> x \<and> x < COLS) (snd q))"
| "sketch Clrtobot q = (fst q, p_erase (\<lambda>y x. y = prow (snd q) \<and> pcol (snd q) \<le> x \<and> x < COLS \<or>
     prow (snd q) < y \<and> y < ROWS) (snd q))"

section \<open>Attributes\<close>

text \<open>The parameters of the sequence that \<open>apply_attrs\<close> sends.\<close>

definition attr_params :: "curses \<Rightarrow> bytes list" where
  "attr_params s =
     (let a = attrs s; p = pair_number a; (fg, bg) = color_pairs s p
      in [[48]] @ (if a AND A_BOLD \<noteq> 0 then [[49]] else []) @ (if a AND A_REVERSE \<noteq> 0 then [[55]] else []) @
         (if a AND A_UNDERLINE \<noteq> 0 then [[52]] else []) @ (if a AND A_DIM \<noteq> 0 then [[50]] else []) @
         (if 0 < p \<and> int p < COLOR_PAIRS
          then [itoa_small (30 + fg)] @ (if bg \<noteq> 0 then [itoa_small (40 + bg)] else []) else []))"

lemma param_text_concat: "param_text (d # ds) = d @ concat (map ((#) 59) ds)"
  by (induction ds arbitrary: d) simp_all

lemma apply_attrs_eq: "apply_attrs s = emit_bytes (27 # 91 # param_text (attr_params s) @ [109]) s"
  by (simp add: apply_attrs_def attr_params_def param_text_concat Let_def split: prod.split)

text \<open>The colours of a pair are those of the library.\<close>

definition colours_ok :: "curses \<Rightarrow> bool" where
  "colours_ok s \<longleftrightarrow> (\<forall>i < 8. fst (color_pairs s i) \<in> {0..7} \<and> snd (color_pairs s i) \<in> {0..7})"

lemma pair_number_less: "pair_number a < 8"
proof -
  have "drop_bit 8 a AND 7 \<le> (7 :: u32)" by (rule word_and_le1)
  then show ?thesis by (simp add: pair_number_def word_le_nat_alt)
qed

lemma attr_params_digits: "colours_ok s \<Longrightarrow> list_all digits (attr_params s)"
proof -
  assume "colours_ok s"
  then obtain fg bg where c: "color_pairs s (pair_number (attrs s)) = (fg, bg)" "0 \<le> fg" "fg \<le> 7" "0 \<le> bg" "bg \<le> 7"
    using pair_number_less [of "attrs s"] by (cases "color_pairs s (pair_number (attrs s))") (force simp: colours_ok_def)
  then have "digits (itoa_small (30 + fg))" "digits (itoa_small (40 + bg))" by (simp_all add: digits_itoa)
  with c(1) show ?thesis by (auto simp: attr_params_def Let_def digits_def)
qed

lemma sgr_colour: "0 \<le> n \<Longrightarrow> n \<le> 7 \<Longrightarrow> sgr_code (of_int (30 + n)) a = a \<and> sgr_code (of_int (40 + n)) a = a"
proof -
  assume "0 \<le> n" "n \<le> 7"
  then have "n = 0 \<or> n = 1 \<or> n = 2 \<or> n = 3 \<or> n = 4 \<or> n = 5 \<or> n = 6 \<or> n = 7" by presburger
  then show ?thesis by (elim disjE) (simp_all add: sgr_code_def)
qed

lemma attr_params_effect: "colours_ok s \<Longrightarrow> fold sgr_code (map (dec 0) (attr_params s)) x = show_attr (attrs s)"
proof -
  assume "colours_ok s"
  then obtain fg bg where c: "color_pairs s (pair_number (attrs s)) = (fg, bg)" "0 \<le> fg" "fg \<le> 7" "0 \<le> bg" "bg \<le> 7"
    using pair_number_less [of "attrs s"] by (cases "color_pairs s (pair_number (attrs s))") (force simp: colours_ok_def)
  let ?f = "\<lambda>ds a. fold sgr_code (map (dec 0) ds) a"
  have start: "?f [[48]] a = 0" for a by (simp add: dec_def sgr_code_def)
  have bold: "?f (if b then [[49]] else []) 0 = (if b then 0x6000 else 0)" for b by (simp add: dec_def sgr_code_def)
  have other: "?f (if b then [[55]] else []) a = a" "?f (if b then [[52]] else []) a = a" "?f (if b then [[50]] else []) a = a" for a b
    by (simp_all add: dec_def sgr_code_def)
  have "dec 0 (itoa_small (30 + fg)) = of_int (30 + fg)" "dec 0 (itoa_small (40 + bg)) = of_int (40 + bg)"
    using c(2-) by (intro dec_itoa; simp)+
  then have "?f [itoa_small (30 + fg)] a = a" "?f [itoa_small (40 + bg)] a = a" for a
    using sgr_colour [of fg a] sgr_colour [of bg a] c(2-) by (simp_all del: of_int_add)
  then have pair: "?f (if b then [itoa_small (30 + fg)] @ (if b' then [itoa_small (40 + bg)] else []) else []) a = a" for a b b'
    by (simp del: of_int_add)
  show ?thesis
    unfolding attr_params_def Let_def c(1) prod.case map_append fold_append comp_apply start bold other pair
    by (simp add: show_attr_def)
qed

section \<open>Simulation\<close>

text \<open>What the library believes agrees with the page it draws.\<close>

definition agrees :: "curses \<Rightarrow> u32 \<times> page \<Rightarrow> bool" where
  "agrees s q \<longleftrightarrow> attrs s = fst q \<and> cur_y s = prow (snd q) \<and> cur_x s = pcol (snd q) \<and>
     on_page (prow (snd q)) (pcol (snd q)) \<and> c_lines s = ROWS \<and> c_cols s = COLS \<and> colours_ok s"

text \<open>A call sends bytes that take the console from one page to the other.\<close>

definition drawn_by :: "vdp \<Rightarrow> curses \<Rightarrow> curses \<Rightarrow> u32 \<times> page \<Rightarrow> u32 \<times> page \<Rightarrow> bool" where
  "drawn_by v s s' q q' \<longleftrightarrow> agrees s' q' \<and>
     (\<exists>bs. c_out s' = c_out s @ bs \<and> writes v bs (show_attr (fst q), snd q) (show_attr (fst q'), snd q'))"

lemma drawn_by_emit:
  "writes v bs (show_attr (fst q), snd q) (show_attr (fst q'), snd q') \<Longrightarrow> c_out s' = c_out s @ bs \<Longrightarrow> agrees s' q' \<Longrightarrow>
     drawn_by v s s' q q'"
  by (auto simp: drawn_by_def)

lemma drawn_by_trans:
  assumes "drawn_by v s s' q q'" and "drawn_by v s' s'' q' q''"
  shows "drawn_by v s s'' q q''"
proof -
  obtain bs cs where "c_out s' = c_out s @ bs" "c_out s'' = c_out s' @ cs"
    and w: "writes v bs (show_attr (fst q), snd q) (show_attr (fst q'), snd q')"
      "writes v cs (show_attr (fst q'), snd q') (show_attr (fst q''), snd q'')"
    using assms by (auto simp: drawn_by_def)
  then have "c_out s'' = c_out s @ bs @ cs" by simp
  moreover have "agrees s'' q''" using assms(2) by (simp add: drawn_by_def)
  ultimately show ?thesis using writes_append [OF w] by (intro drawn_by_emit)
qed

lemma drawn_by_refl: "agrees s q \<Longrightarrow> drawn_by v s s q q"
  by (simp add: drawn_by_def writes_def)

text \<open>Text that moves the cursor by one place per byte.\<close>

definition printable :: "bytes \<Rightarrow> bool" where
  "printable bs \<longleftrightarrow> list_all (\<lambda>c. c \<notin> {8, 9, 10, 13, 27}) bs"

lemma drawn_by_addch:
  assumes "agrees s q" and "c \<notin> {8, 9, 10, 13, 27}"
  shows "drawn_by v s (addch c s) q (print_on [c] q)"
proof (rule drawn_by_emit)
  show "writes v [c] (show_attr (fst q), snd q) (show_attr (fst (print_on [c] q)), snd (print_on [c] q))"
    using writes_char [OF assms(2), of v "show_attr (fst q)" "snd q"] by (simp add: print_on_def)
  show "c_out (addch c s) = c_out s @ [c]" by (simp add: addch_def emit_bytes_def Let_def)
  show "agrees (addch c s) (print_on [c] q)"
    using assms(1)
    by (auto simp: agrees_def addch_def emit_bytes_def print_on_def p_put_def p_plot_def p_scroll_def Let_def
          on_page_def colours_ok_def)
qed

lemma drawn_by_addstr: "agrees s q \<Longrightarrow> printable bs \<Longrightarrow> drawn_by v s (addstr bs s) q (print_on bs q)"
proof (induction bs arbitrary: s q)
  case Nil
  then show ?case by (simp add: addstr_def print_on_def drawn_by_refl)
next
  case (Cons c bs)
  then have d: "drawn_by v s (addch c s) q (print_on [c] q)" by (intro drawn_by_addch) (simp_all add: printable_def)
  then have "drawn_by v (addch c s) (addstr bs (addch c s)) (print_on [c] q) (print_on bs (print_on [c] q))"
    using Cons.prems(2) by (intro Cons.IH) (simp_all add: drawn_by_def printable_def)
  from drawn_by_trans [OF d this] show ?case by (simp add: addstr_def print_on_def)
qed

lemma clamp_on_page: "on_page y x \<Longrightarrow> clamp ROWS y = y \<and> clamp COLS x = x"
  by (simp add: on_page_def clamp_id)

lemma drawn_by_move:
  assumes "agrees s q" and "on_page y x"
  shows "drawn_by v s (snd (move y x s)) q (fst q, p_goto y x (snd q))" and "fst (move y x s) = 0"
proof -
  have r: "0 \<le> y + 1" "y + 1 < 1000" "0 \<le> x + 1" "x + 1 < 1000" using assms(2) by (simp_all add: on_page_def)
  have p: "param_or 1 (of_int (z + 1)) - 1 = z" if "0 \<le> z" "z < 40" for z
  proof -
    have "uint (of_int (z + 1) :: u8) = z + 1" using that by (simp add: uint_word_of_int_eq take_bit_int_eq_self del: of_int_add)
    then show ?thesis using that by (auto simp: param_or_def word_gt_0 del: of_int_add)
  qed
  have yx: "param_or 1 (of_int (y + 1)) - 1 = y" "param_or 1 (of_int (x + 1)) - 1 = x"
    using assms(2) by (intro p; simp add: on_page_def)+
  have "writes v (27 # 91 # param_text [itoa_small (y + 1), itoa_small (x + 1)] @ [72])
      (show_attr (fst q), snd q) (show_attr (fst q), p_goto y x (snd q))"
    using writes_goto [OF digits_itoa [OF r(1,2)] digits_itoa [OF r(3,4)], of v "show_attr (fst q)" "snd q"]
    unfolding dec_itoa [OF r(1,2)] dec_itoa [OF r(3,4)] yx clamp_on_page [OF assms(2), THEN conjunct1]
      clamp_on_page [OF assms(2), THEN conjunct2] .
  then show "drawn_by v s (snd (move y x s)) q (fst q, p_goto y x (snd q))"
    using assms
    by (intro drawn_by_emit [where bs = "27 # 91 # param_text [itoa_small (y + 1), itoa_small (x + 1)] @ [72]"])
      (auto simp: move_def agrees_def on_page_def emit_csi_2_def emit_bytes_def p_goto_def colours_ok_def)
  show "fst (move y x s) = 0" using assms by (simp add: move_def agrees_def on_page_def)
qed

lemma move_off: "agrees s q \<Longrightarrow> \<not> on_page y x \<Longrightarrow> move y x s = (- 1, s)"
  by (auto simp: move_def agrees_def on_page_def)

text \<open>New attributes are drawn right when their sequence has at most four parameters.\<close>

lemma drawn_by_attrs:
  assumes "agrees s q" and "length (attr_params (s\<lparr>attrs := a\<rparr>)) \<le> 4"
  shows "drawn_by v s (apply_attrs (s\<lparr>attrs := a\<rparr>)) q (a, snd q)"
proof -
  let ?s = "s\<lparr>attrs := a\<rparr>"
  have c: "colours_ok ?s" using assms(1) by (simp add: agrees_def colours_ok_def)
  have "attr_params ?s \<noteq> []" by (simp add: attr_params_def Let_def split: prod.split)
  note w = writes_sgr [OF attr_params_digits [OF c] this assms(2), of v "show_attr (fst q)" "snd q"]
  show ?thesis
    using assms(1) w
    by (intro drawn_by_emit [where bs = "27 # 91 # param_text (attr_params ?s) @ [109]"])
      (auto simp: apply_attrs_eq emit_bytes_def agrees_def attr_params_effect [OF c] colours_ok_def)
qed

lemma cleared: "p_goto 0 0 (p_erase (\<lambda>y x. 0 \<le> y \<and> y < ROWS) (page_of v z)) = blank"
  by (auto simp: p_goto_def p_erase_def blank_def page_of_def tiles_def on_page_def intro!: ext)

text \<open>The calls with a specified effect.\<close>

primrec fine :: "curses_call \<Rightarrow> curses \<Rightarrow> bool" where
  "fine (Move y x) s \<longleftrightarrow> True"
| "fine (Addch c) s \<longleftrightarrow> printable [c]"
| "fine (Addstr bs) s \<longleftrightarrow> printable bs"
| "fine (Mvaddch y x c) s \<longleftrightarrow> printable [c]"
| "fine (Mvaddstr y x bs) s \<longleftrightarrow> printable bs"
| "fine (Attrset a) s \<longleftrightarrow> length (attr_params (s\<lparr>attrs := a\<rparr>)) \<le> 4"
| "fine (Attron a) s \<longleftrightarrow> length (attr_params (s\<lparr>attrs := attrs s OR a\<rparr>)) \<le> 4"
| "fine (Attroff a) s \<longleftrightarrow> length (attr_params (s\<lparr>attrs := attrs s AND NOT a\<rparr>)) \<le> 4"
| "fine (Init_pair i fg bg) s \<longleftrightarrow> 0 \<le> fg \<and> fg \<le> 7 \<and> 0 \<le> bg \<and> bg \<le> 7"
| "fine Clear s \<longleftrightarrow> True"
| "fine Clrtoeol s \<longleftrightarrow> True"
| "fine Clrtobot s \<longleftrightarrow> True"

primrec all_fine :: "curses_call list \<Rightarrow> curses \<Rightarrow> bool" where
  "all_fine [] s \<longleftrightarrow> True"
| "all_fine (c # cs) s \<longleftrightarrow> fine c s \<and> all_fine cs (do_call c s)"

lemma erased_sel [simp]:
  "prow (p_erase P p) = prow p" "pcol (p_erase P p) = pcol p" "prow (p_goto y x p) = y" "pcol (p_goto y x p) = x"
  by (simp_all add: p_erase_def p_goto_def)

lemma writes_clear_home:
  "writes v ([27, 91, 50, 74] @ [27, 91, 72]) (a, p) (a, p_goto 0 0 (p_erase (\<lambda>y x. 0 \<le> y \<and> y < ROWS) p))"
proof -
  have "digits [50]" "dec 0 [50] = 2" by (simp_all add: digits_def dec_def)
  from writes_append [OF writes_clear [OF this] writes_home]
  have "writes v ([27, 91, 50, 74] @ [27, 91, 72]) (a, p) (a, p_goto 0 0 (p_goto 0 0 (p_erase (\<lambda>y x. 0 \<le> y \<and> y < ROWS) p)))"
    by simp
  then show ?thesis by (simp add: p_goto_def)
qed

lemma drawn_by_clear:
  "agrees s q \<Longrightarrow> drawn_by v s (clear_screen s) q (fst q, p_goto 0 0 (p_erase (\<lambda>y x. 0 \<le> y \<and> y < ROWS) (snd q)))"
  by (rule drawn_by_emit [where bs = "[27, 91, 50, 74] @ [27, 91, 72]"])
    (use writes_clear_home in \<open>auto simp: clear_screen_def emit_bytes_def agrees_def on_page_def colours_ok_def\<close>)

lemma drawn_by_erase:
  assumes "agrees s q" and "writes v bs (show_attr (fst q), snd q) (show_attr (fst q), p_erase P (snd q))"
  shows "drawn_by v s (emit_bytes bs s) q (fst q, p_erase P (snd q))"
  by (rule drawn_by_emit [where bs = bs])
    (use assms in \<open>auto simp: emit_bytes_def agrees_def colours_ok_def\<close>)

lemma call_drawn:
  assumes a: "agrees s q" and f: "fine c s"
  shows "drawn_by v s (do_call c s) q (sketch c q)"
proof (cases c)
  case (Move y x)
  with drawn_by_move(1) [OF a, of y x v] drawn_by_refl [OF a] move_off [OF a, of y x] show ?thesis
    by (cases "on_page y x") simp_all
next
  case (Addch b)
  with f drawn_by_addch [OF a, of b v] show ?thesis by (simp add: printable_def)
next
  case (Addstr bs)
  with f drawn_by_addstr [OF a, of bs v] show ?thesis by simp
next
  case (Mvaddch y x b)
  show ?thesis
  proof (cases "on_page y x")
    case True
    note m = drawn_by_move(1) [OF a True, of v]
    then have "agrees (snd (move y x s)) (fst q, p_goto y x (snd q))" by (simp add: drawn_by_def)
    then have "drawn_by v (snd (move y x s)) (addch b (snd (move y x s))) (fst q, p_goto y x (snd q))
        (print_on [b] (fst q, p_goto y x (snd q)))"
      using f Mvaddch by (intro drawn_by_addch) (simp_all add: printable_def)
    from drawn_by_trans [OF m this] show ?thesis
      using Mvaddch True drawn_by_move(2) [OF a True] by (cases "move y x s") (simp add: mvaddch_def)
  next
    case False
    with Mvaddch drawn_by_refl [OF a] move_off [OF a False] show ?thesis by (simp add: mvaddch_def)
  qed
next
  case (Mvaddstr y x bs)
  show ?thesis
  proof (cases "on_page y x")
    case True
    note m = drawn_by_move(1) [OF a True, of v]
    then have "agrees (snd (move y x s)) (fst q, p_goto y x (snd q))" by (simp add: drawn_by_def)
    then have "drawn_by v (snd (move y x s)) (addstr bs (snd (move y x s))) (fst q, p_goto y x (snd q))
        (print_on bs (fst q, p_goto y x (snd q)))"
      using f Mvaddstr by (intro drawn_by_addstr) simp_all
    from drawn_by_trans [OF m this] show ?thesis
      using Mvaddstr True drawn_by_move(2) [OF a True] by (cases "move y x s") (simp add: mvaddstr_def)
  next
    case False
    with Mvaddstr drawn_by_refl [OF a] move_off [OF a False] show ?thesis by (simp add: mvaddstr_def)
  qed
next
  case (Attrset b)
  with f show ?thesis by (simp add: attrset_def drawn_by_attrs [OF a])
next
  case (Attron b)
  moreover have "attrs s = fst q" using a by (simp add: agrees_def)
  ultimately show ?thesis using f drawn_by_attrs [OF a, of "attrs s OR b" v] by (simp add: attron_def)
next
  case (Attroff b)
  moreover have "attrs s = fst q" using a by (simp add: agrees_def)
  ultimately show ?thesis using f drawn_by_attrs [OF a, of "attrs s AND NOT b" v] by (simp add: attroff_def)
next
  case (Init_pair i fg bg)
  have "agrees (snd (init_pair i fg bg s)) q"
    using a f Init_pair by (auto simp: agrees_def init_pair_def colours_ok_def)
  then show ?thesis
    using Init_pair by (intro drawn_by_emit [where bs = "[]"]) (auto simp: writes_def init_pair_def)
next
  case Clear
  then show ?thesis by (simp add: drawn_by_clear [OF a])
next
  case Clrtoeol
  with writes_clrtoeol [of v "show_attr (fst q)" "snd q"] show ?thesis
    by (simp add: clrtoeol_def drawn_by_erase [OF a])
next
  case Clrtobot
  with writes_clrtobot [of v "show_attr (fst q)" "snd q"] show ?thesis
    by (simp add: clrtobot_def drawn_by_erase [OF a])
qed

lemma calls_drawn:
  "agrees s q \<Longrightarrow> all_fine cs s \<Longrightarrow> drawn_by v s (fold do_call cs s) q (fold sketch cs q)"
proof (induction cs arbitrary: s q)
  case Nil
  then show ?case by (simp add: drawn_by_refl)
next
  case (Cons c cs)
  then have d: "drawn_by v s (do_call c s) q (sketch c q)" by (simp add: call_drawn)
  then have "drawn_by v (do_call c s) (fold do_call cs (do_call c s)) (sketch c q) (fold sketch cs (sketch c q))"
    using Cons by (simp add: drawn_by_def)
  from drawn_by_trans [OF d this] show ?case by simp
qed

section \<open>From the start\<close>

definition start_bytes :: bytes where
  "start_bytes = [27, 91, 48, 109] @ [27, 91, 50, 74] @ [27, 91, 72]"

lemma writes_start:
  assumes "con_displays v z (a, p)"
  shows "\<exists>z'. con_puts start_bytes (z, t) = (z', t) \<and> con_displays v z' (0, blank)"
proof -
  have p: "p = page_of v z" using assms by (simp add: con_displays_def)
  have "digits [48]" by (simp add: digits_def)
  with writes_sgr [of "[[48]]" v a p] have "writes v [27, 91, 48, 109] (a, p) (0, p)" by (simp add: dec_def sgr_code_def)
  from writes_append [OF this writes_clear_home] have "writes v start_bytes (a, p) (0, blank)"
    unfolding start_bytes_def p cleared .
  with assms show ?thesis unfolding writes_def by blast
qed

lemma initscr_agrees:
  "ws_row (c_winsz s) = 28 \<Longrightarrow> ws_col (c_winsz s) = 40 \<Longrightarrow> agrees (initscr s) (0, blank)"
  by (simp add: agrees_def initscr_def emit_bytes_def Let_def blank_def on_page_def colours_ok_def)

lemma initscr_out: "c_out (initscr s) = c_out s @ start_bytes"
  by (simp add: initscr_def emit_bytes_def Let_def start_bytes_def)

text \<open>
  C36. Drawing with curses on the Mega Drive: a program that starts with \<open>initscr\<close> on a console
  outside a control sequence and makes any calls that write printable text at any places, change
  attributes and colours, and erase, is refined by the console. The bytes the library sends
  take the console to the page that the calls describe, tile for tile, wrap and scroll at the
  edges included, with the palette of the attributes; the cursor the library keeps is the cursor of the
  console. A call that sets attributes must not need more than the four parameters that
  the console stores, and colours are the eight of the library.
\<close>

theorem curses_draws_page:
  assumes "ready z" and "ws_row (c_winsz s) = 28" and "ws_col (c_winsz s) = 40" and "all_fine cs (initscr s)"
    and "s' = fold do_call cs (initscr s)" and "q = fold sketch cs (0, blank)"
  shows "\<exists>z'. con_puts (drop (length (c_out s)) (c_out s')) (z, t) = (z', t) \<and> ready z' \<and>
    page_of v z' = snd q \<and> current_attr z' = show_attr (fst q) \<and>
    cur_y s' = cursor_y z' \<and> cur_x s' = cursor_x z' \<and> attrs s' = fst q"
proof -
  have "drawn_by v (initscr s) s' (0, blank) q"
    using calls_drawn [OF initscr_agrees [OF assms(2,3)] assms(4)] by (simp add: assms(5,6))
  then obtain bs where ag: "agrees s' q" and o: "c_out s' = c_out (initscr s) @ bs"
    and w: "writes v bs (show_attr 0, blank) (show_attr (fst q), snd q)"
    by (auto simp: drawn_by_def)
  have "con_displays v z (current_attr z, page_of v z)" using assms(1) by (simp add: con_displays_def)
  from writes_start [OF this, of t] obtain z1 where z1: "con_puts start_bytes (z, t) = (z1, t)" "con_displays v z1 (0, blank)"
    by blast
  have "show_attr 0 = 0" by (simp add: show_attr_def)
  with w z1(2) obtain z' where z': "con_puts bs (z1, t) = (z', t)" "con_displays v z' (show_attr (fst q), snd q)"
    unfolding writes_def by metis
  have "drop (length (c_out s)) (c_out s') = start_bytes @ bs" by (simp add: o initscr_out)
  then have "con_puts (drop (length (c_out s)) (c_out s')) (z, t) = (z', t)"
    using z1(1) z'(1) by simp
  moreover have "snd q = page_of v z'" using z'(2) by (simp add: con_displays_def)
  then have "prow (snd q) = cursor_y z'" "pcol (snd q) = cursor_x z'" by simp_all
  ultimately show ?thesis
    using z'(2) ag by (intro exI [of _ z']) (simp add: con_displays_def agrees_def)
qed

text \<open>Bold text into the corner of the page, where the line wraps and the page scrolls.\<close>

definition small_curses :: curses where
  "small_curses = \<lparr>cur_y = 0, cur_x = 0, max_y = 0, max_x = 0, attrs = 0, delay = 0, keypad_on = False,
     c_lines = 24, c_cols = 80, curses_saved = default_termios, curses_active = False, color_pairs = (\<lambda>_. (0, 0)),
     c_tty = default_termios, c_winsz = \<lparr>ws_row = 28, ws_col = 40, ws_xpixel = 0, ws_ypixel = 0\<rparr>,
     c_out = [], c_in = []\<rparr>"

definition corner_text :: "curses_call list" where
  "corner_text = [Attrset A_BOLD, Mvaddstr 27 38 [65, 66, 67]]"

lemma corner_fine: "all_fine corner_text (initscr small_curses)"
  by (simp add: corner_text_def attr_params_def pair_number_def initscr_def small_curses_def emit_bytes_def Let_def printable_def)

lemma con_init_ready: "ready con_init"
  using con_init_ok by (simp add: ready_def con_init_def)

theorem curses_draws_page_witness:
  "\<forall>v t. \<exists>z'. con_puts (c_out (fold do_call corner_text (initscr small_curses))) (con_init, t) = (z', t) \<and>
     cell (page_of v z') 26 38 = 0x6041 \<and> cell (page_of v z') 27 0 = 0x6043 \<and> cell (page_of v z') 27 38 = 0 \<and>
     cursor_y z' = 27 \<and> cursor_x z' = 1"
proof (intro allI)
  fix v t
  have w: "ws_row (c_winsz small_curses) = 28" "ws_col (c_winsz small_curses) = 40" "c_out small_curses = []"
    by (simp_all add: small_curses_def)
  from curses_draws_page [OF con_init_ready w(1,2) corner_fine refl refl, of t v]
  obtain z' where z': "con_puts (c_out (fold do_call corner_text (initscr small_curses))) (con_init, t) = (z', t)"
    "page_of v z' = snd (fold sketch corner_text (0, blank))"
    unfolding w(3) by auto
  then have p: "page_of v z' = p_put (0x6043) (p_put 0x6042 (p_put 0x6041 (p_goto 27 38 blank)))"
    by (simp add: corner_text_def print_on_def show_attr_def on_page_def)
  have "cell (page_of v z') 26 38 = 0x6041 \<and> cell (page_of v z') 27 0 = 0x6043 \<and> cell (page_of v z') 27 38 = 0 \<and>
      prow (page_of v z') = 27 \<and> pcol (page_of v z') = 1"
    unfolding p by (simp add: p_put_def p_plot_def p_scroll_def p_goto_def blank_def Let_def)
  with z'(1) show "\<exists>z'. con_puts (c_out (fold do_call corner_text (initscr small_curses))) (con_init, t) = (z', t) \<and>
     cell (page_of v z') 26 38 = 0x6041 \<and> cell (page_of v z') 27 0 = 0x6043 \<and> cell (page_of v z') 27 38 = 0 \<and>
     cursor_y z' = 27 \<and> cursor_x z' = 1" by auto
qed

section \<open>Further facts\<close>

text \<open>
  All four attributes and a colour pair with a background need seven parameters, more than the
  console stores, so \<open>handle_sgr\<close> reads behind its array: what lies there selects the palette.
\<close>

lemma too_many_params:
  "length (attr_params (snd (init_pair 1 1 2 (initscr small_curses))\<lparr>attrs := 0x10F\<rparr>)) = 7"
  by (simp add: attr_params_def pair_number_def init_pair_def initscr_def small_curses_def emit_bytes_def Let_def)

lemma sgr_reads_behind:
  "current_attr (handle_sgr (in_csi con_init ps 5 0 True)) = sgr_code (ps 4) (fold (\<lambda>i. sgr_code (ps i)) [0..<4] 0)"
proof -
  have "[0..<5] = [0..<4] @ [4 :: nat]" by code_simp
  then have "fold f [0..<5] a = f 4 (fold f [0..<4] a)" for f :: "nat \<Rightarrow> u16 \<Rightarrow> u16" and a by simp
  then show ?thesis by (simp add: handle_sgr_def con_init_def in_csi_def del: upt_rec_numeral)
qed

text \<open>\<open>cursor_off\<close> of the assembly does nothing: a program that hides the cursor leaves the sprite on.\<close>

lemma cursor_not_hidden: "draw Cursor_off v = v"
  by simp

text \<open>A key that arrives as an escape sequence is decoded; one that arrives as one byte is not.\<close>

lemma getch_arrow:
  "keypad_on s \<Longrightarrow> c_in s = [27, 91, c] @ rest \<Longrightarrow> csi_key c = Some k \<Longrightarrow> getch s = (k, s\<lparr>c_in := rest\<rparr>)"
  by (simp add: getch_def read_key_def)

lemma getch_byte: "c_in s = c # rest \<Longrightarrow> c \<noteq> 27 \<Longrightarrow> getch s = (uint c, s\<lparr>c_in := rest\<rparr>)"
  by (simp add: getch_def read_key_def)

end
