(* ===== verification/Keyboard.thy ===== *)
theory Keyboard
  imports Tty
begin

text \<open>
  The Saturn keyboard of the Mega Drive (pal/megadrive/keyboard.c) and its way to the terminal
  (\<open>pal_keyboard_poll\<close> of pal/megadrive/platform.c). What the assembly routine \<open>ReadKeyboard\<close>
  returns and the twelve nibbles it leaves in \<open>scancode_buffer\<close> are an argument.
\<close>

record kbd =
  shift_down :: bool
  ctrl_down :: bool
  alt_down :: bool
  caps_lock :: bool

definition keyboard_init :: kbd where
  "keyboard_init = \<lparr>shift_down = False, ctrl_down = False, alt_down = False, caps_lock = False\<rparr>"

text \<open>Whether the key was a modifier, and the modifiers afterwards.\<close>

definition update_modifiers :: "u8 \<Rightarrow> bool \<Rightarrow> kbd \<Rightarrow> bool \<times> kbd" where
  "update_modifiers scancode is_make k =
     (if scancode = 0x12 \<or> scancode = 0x59 then (True, k\<lparr>shift_down := is_make\<rparr>)
      else if scancode = 0x14 \<or> scancode = 0x18 then (True, k\<lparr>ctrl_down := is_make\<rparr>)
      else if scancode = 0x11 \<or> scancode = 0x17 then (True, k\<lparr>alt_down := is_make\<rparr>)
      else if scancode = 0x58 then (True, if is_make then k\<lparr>caps_lock := \<not> caps_lock k\<rparr> else k)
      else (False, k))"

definition apply_caps_lock :: "u8 \<Rightarrow> u8" where
  "apply_caps_lock c = (if 97 \<le> c \<and> c \<le> 122 then c - 32 else if 65 \<le> c \<and> c \<le> 90 then c + 32 else c)"

definition apply_ctrl :: "u8 \<Rightarrow> u8" where
  "apply_ctrl c =
     (if 97 \<le> c \<and> c \<le> 122 then c AND 0x1F
      else if 65 \<le> c \<and> c \<le> 90 then (c + 32) AND 0x1F
      else if c \<in> {64, 91, 92, 93, 94, 95} then c AND 0x1F
      else c)"

text \<open>The two parts of \<open>saturn_keymap\<close>, which is one array.\<close>

definition unshifted_keys :: bytes where
  "unshifted_keys =
    [0, 137, 0, 133, 131, 129, 130, 140, 0, 138, 136, 134, 132, 9, 96, 0, 0, 0, 0, 0, 0, 113, 49, 0,
     0, 13, 122, 115, 97, 119, 50, 0, 0, 99, 120, 100, 101, 52, 51, 0, 0, 32, 118, 102, 116, 114, 53, 0,
     0, 110, 98, 104, 103, 121, 54, 0, 0, 0, 109, 106, 117, 55, 56, 0, 0, 44, 107, 105, 111, 48, 57, 0,
     0, 46, 47, 108, 59, 112, 45, 0, 0, 0, 39, 0, 91, 61, 0, 0, 0, 0, 13, 93, 0, 92, 0, 0,
     0, 0, 0, 0, 0, 0, 8, 0, 0, 49, 0, 52, 55, 0, 0, 0, 48, 46, 50, 53, 54, 56, 27, 0,
     139, 43, 51, 45, 42, 57, 0, 0, 47, 144, 154, 135, 153, 127, 151, 145, 146, 149, 150, 147, 148, 152, 0, 0,
     0, 0, 0, 0, 0, 0, 0, 0, 0, 0, 0, 0, 0, 0, 0, 0, 0, 0, 0, 0, 0, 0, 0, 0,
     0, 0, 0, 0, 0, 0, 0, 0, 0, 0, 0, 0, 0, 0, 0, 0, 0, 0, 0, 0, 0, 0, 0, 0,
     0, 0, 0, 0, 0, 0, 0, 0, 0, 0, 0, 0, 0, 0, 0, 0, 0, 0, 0, 0, 0, 0, 0, 0,
     0, 0, 0, 0, 0, 0, 0, 0, 0, 0, 0, 0, 0, 0, 0, 0, 0, 0, 0, 0, 0, 0, 0, 0]"

definition shifted_keys :: bytes where
  "shifted_keys =
    [0, 137, 0, 133, 131, 129, 130, 140, 0, 138, 136, 134, 132, 9, 126, 0, 0, 0, 0, 0, 0, 81, 33, 0,
     0, 13, 90, 83, 65, 87, 64, 0, 0, 67, 88, 68, 69, 36, 35, 0, 0, 32, 86, 70, 84, 82, 37, 0,
     0, 78, 66, 72, 71, 89, 94, 0, 0, 0, 77, 74, 85, 38, 42, 0, 0, 60, 75, 73, 79, 41, 40, 0,
     0, 62, 63, 76, 58, 80, 95, 0, 0, 0, 34, 0, 123, 43, 0, 0, 0, 0, 13, 125, 0, 124, 0, 0,
     0, 0, 0, 0, 0, 0, 8, 0, 0, 49, 0, 52, 55, 0, 0, 0, 48, 46, 50, 53, 54, 56, 27, 0,
     139, 43, 51, 45, 42, 57, 0, 0, 47, 144, 154, 135, 153, 127, 151, 145, 146, 149, 150, 147, 148, 152, 0, 0,
     0, 0, 0, 0, 0, 0, 0, 0, 0, 0, 0, 0, 0, 0, 0, 0, 0, 0, 0, 0, 0, 0, 0, 0,
     0, 0, 0, 0, 0, 0, 0, 0, 0, 0, 0, 0, 0, 0, 0, 0, 0, 0, 0, 0, 0, 0, 0, 0,
     0, 0, 0, 0, 0, 0, 0, 0, 0, 0, 0, 0, 0, 0, 0, 0, 0, 0, 0, 0, 0, 0, 0, 0,
     0, 0, 0, 0, 0, 0, 0, 0, 0, 0, 0, 0, 0, 0, 0, 0, 0, 0, 0, 0, 0, 0, 0, 0]"

text \<open>The array, with \<open>behind\<close> for the bytes that follow it.\<close>

definition saturn_keymap :: "(nat \<Rightarrow> u8) \<Rightarrow> nat \<Rightarrow> u8" where
  "saturn_keymap behind i =
     (let keys = unshifted_keys @ shifted_keys in if i < length keys then keys ! i else behind (i - length keys))"

definition keyboard_read :: "(nat \<Rightarrow> u8) \<Rightarrow> int \<times> (nat \<Rightarrow> u8) \<Rightarrow> kbd \<Rightarrow> u8 \<times> kbd" where
  "keyboard_read behind = (\<lambda>(rc, buf) k.
     if rc \<noteq> 0 then (0, k)
     else let is_make = (buf 7 AND 8 \<noteq> 0);
              scancode = push_bit 4 (buf 8) OR buf 9
          in case update_modifiers scancode is_make k of (is_mod, k1) \<Rightarrow>
            if is_mod then (0, k1)
            else if \<not> is_make then (0, k1)
            else let c = saturn_keymap behind (if shift_down k1 then unat scancode + 256 else unat scancode);
                     c1 = (if caps_lock k1 then apply_caps_lock c else c)
                 in (if ctrl_down k1 then apply_ctrl c1 else c1, k1))"

definition keyboard_modifiers :: "kbd \<Rightarrow> u8" where
  "keyboard_modifiers k =
     (if shift_down k then 1 else 0) OR (if ctrl_down k then 2 else 0) OR
     (if alt_down k then 4 else 0) OR (if caps_lock k then 8 else 0)"

abbreviation (input) KEY_F12 :: u8 where "KEY_F12 \<equiv> 0x8C"

text \<open>\<open>dbg_toggle\<close> shows or hides the debug overlay, whose state is the first component.\<close>

definition pal_keyboard_poll :: "(nat \<Rightarrow> u8) \<Rightarrow> int \<times> (nat \<Rightarrow> u8) \<Rightarrow> bool \<times> kbd \<times> tsys \<Rightarrow> bool \<times> kbd \<times> tsys" where
  "pal_keyboard_poll behind ev = (\<lambda>(dbg, k, t).
     case keyboard_read behind ev k of (key, k1) \<Rightarrow>
       if key = 0 then (dbg, k1, t)
       else if key = KEY_F12 then (\<not> dbg, k1, t)
       else (dbg, k1, tty_inproc 0 key t))"

section \<open>Keys\<close>

text \<open>An event: a key with its scancode goes down or up.\<close>

definition key_event :: "u8 \<Rightarrow> bool \<Rightarrow> int \<times> (nat \<Rightarrow> u8)" where
  "key_event sc down = (0, (\<lambda>_. 0)(7 := if down then 8 else 0, 8 := drop_bit 4 sc, 9 := sc AND 15))"

lemma event_scancode: "push_bit 4 (drop_bit 4 sc) OR (sc AND 15) = (sc :: u8)"
proof -
  have "sc AND 15 = take_bit 4 sc" by (simp add: take_bit_eq_mask mask_eq_exp_minus_1)
  then show ?thesis by (auto intro!: bit_word_eqI simp: bit_simps)
qed

definition is_modifier :: "u8 \<Rightarrow> bool" where
  "is_modifier sc \<longleftrightarrow> sc \<in> {0x12, 0x59, 0x14, 0x18, 0x11, 0x17, 0x58}"

lemma keyboard_read_event:
  "keyboard_read behind (key_event sc down) k =
     (if is_modifier sc then (0, snd (update_modifiers sc down k))
      else if \<not> down then (0, k)
      else let c = saturn_keymap behind (if shift_down k then unat sc + 256 else unat sc);
               c1 = (if caps_lock k then apply_caps_lock c else c)
           in (if ctrl_down k then apply_ctrl c1 else c1, k))"
  by (simp add: keyboard_read_def key_event_def event_scancode update_modifiers_def is_modifier_def)

text \<open>
  The array has 240 unshifted entries, not 256, so with shift down the code of another key is
  taken: the shifted code of the key 16 scancodes further on.
\<close>

lemma keymap_lengths: "length unshifted_keys = 240" "length shifted_keys = 240"
  by (simp_all add: unshifted_keys_def shifted_keys_def)

lemma shift_takes_other_key:
  assumes "unat sc < 224" and "\<not> is_modifier sc" and "shift_down k" and "\<not> caps_lock k" and "\<not> ctrl_down k"
  shows "keyboard_read behind (key_event sc True) k = (shifted_keys ! (unat sc + 16), k)"
  using assms by (simp add: keyboard_read_event saturn_keymap_def keymap_lengths nth_append add.commute)

lemma shift_behind_array:
  assumes "224 \<le> unat sc" and "\<not> is_modifier sc" and "shift_down k" and "\<not> caps_lock k" and "\<not> ctrl_down k"
  shows "keyboard_read behind (key_event sc True) k = (behind (unat sc - 224), k)"
  using assms by (simp add: keyboard_read_event saturn_keymap_def keymap_lengths)

text \<open>So the Q key, unshifted q, types a dollar sign with shift; its shifted entry is 16 places before.\<close>

lemma shift_q_is_dollar:
  "keyboard_read behind (key_event 0x15 True) keyboard_init = (113, keyboard_init)"
  "keyboard_read behind (key_event 0x15 True) (keyboard_init\<lparr>shift_down := True\<rparr>) = (36, keyboard_init\<lparr>shift_down := True\<rparr>)"
  "shifted_keys ! 0x15 = 81"
proof -
  have u: "unshifted_keys ! 21 = 113" "shifted_keys ! 21 = 81" "shifted_keys ! 37 = 36" by code_simp+
  then show "keyboard_read behind (key_event 0x15 True) keyboard_init = (113, keyboard_init)" "shifted_keys ! 0x15 = 81"
    by (simp_all add: keyboard_read_event saturn_keymap_def keymap_lengths nth_append keyboard_init_def is_modifier_def)
  show "keyboard_read behind (key_event 0x15 True) (keyboard_init\<lparr>shift_down := True\<rparr>) = (36, keyboard_init\<lparr>shift_down := True\<rparr>)"
    by (subst shift_takes_other_key) (simp_all add: keyboard_init_def is_modifier_def u)
qed

text \<open>The cursor keys arrive as one byte each, from 0x95 to 0x98, not as escape sequences.\<close>

lemma cursor_keys_one_byte:
  "keyboard_read behind (key_event 0x89 True) keyboard_init = (0x95, keyboard_init)"
  "keyboard_read behind (key_event 0x8A True) keyboard_init = (0x96, keyboard_init)"
  "keyboard_read behind (key_event 0x86 True) keyboard_init = (0x97, keyboard_init)"
  "keyboard_read behind (key_event 0x8D True) keyboard_init = (0x98, keyboard_init)"
proof -
  have "unshifted_keys ! 137 = 0x95" "unshifted_keys ! 138 = 0x96" "unshifted_keys ! 134 = 0x97" "unshifted_keys ! 141 = 0x98"
    by code_simp+
  then show "keyboard_read behind (key_event 0x89 True) keyboard_init = (0x95, keyboard_init)"
    "keyboard_read behind (key_event 0x8A True) keyboard_init = (0x96, keyboard_init)"
    "keyboard_read behind (key_event 0x86 True) keyboard_init = (0x97, keyboard_init)"
    "keyboard_read behind (key_event 0x8D True) keyboard_init = (0x98, keyboard_init)"
    by (simp_all add: keyboard_read_event saturn_keymap_def keymap_lengths nth_append keyboard_init_def is_modifier_def)
qed

section \<open>Modifiers\<close>

text \<open>A key released changes nothing but the modifiers, and the overlay key never reaches the terminal.\<close>

lemma release_types_nothing: "fst (keyboard_read behind (key_event sc False) k) = 0"
  by (simp add: keyboard_read_event)

lemma f12_not_typed:
  "fst (keyboard_read behind ev k) = KEY_F12 \<Longrightarrow> pal_keyboard_poll behind ev (dbg, k, t) = (\<not> dbg, snd (keyboard_read behind ev k), t)"
  by (cases "keyboard_read behind ev k") (simp add: pal_keyboard_poll_def)

text \<open>Holding both shift keys and releasing one of them ends the shift.\<close>

lemma one_shift_released:
  "\<not> shift_down (snd (keyboard_read b (key_event 0x59 False)
      (snd (keyboard_read b (key_event 0x59 True) (snd (keyboard_read b (key_event 0x12 True) k))))))"
  by (simp add: keyboard_read_event is_modifier_def update_modifiers_def)

lemma caps_lock_twice: "apply_caps_lock (apply_caps_lock c) = c"
  unfolding apply_caps_lock_def by (auto simp: word_le_nat_alt unat_word_ariths unat_sub_if' split: if_splits)

text \<open>With control a letter gives its position in the alphabet, in either case.\<close>

lemma control_letter:
  "97 \<le> c \<Longrightarrow> c \<le> 122 \<Longrightarrow> apply_ctrl c = c - 96 \<and> apply_ctrl (c - 32) = c - 96"
proof -
  assume "97 \<le> c" "c \<le> 122"
  then have "unat c \<in> set [97..<123]" unfolding set_upt by (simp add: word_le_nat_alt)
  moreover have "\<forall>n \<in> set [97..<123]. apply_ctrl (of_nat n) = of_nat n - 96 \<and> apply_ctrl (of_nat n - 32) = of_nat n - 96"
    by code_simp
  ultimately show ?thesis by fastforce
qed

end
