(* ===== verification/Sort_Search.thy ===== *)
theory Sort_Search
  imports Prelude "HOL-Library.Multiset"
begin

text \<open>
  \<open>qsort\<close> and \<open>bsearch\<close> of libc/stdlib.c. The sort is a Shell sort on an array of
  elements of \<open>size\<close> bytes in memory; the comparison function is an argument that may look at
  the memory behind its two pointers. The loops are stated for any array with a swap and a
  comparison of two places, and \<open>qsort\<close> is their instance for bytes in memory.
\<close>

section \<open>The loops\<close>

text \<open>The innermost loop: the element at \<open>j\<close> sinks by steps of \<open>gap\<close>.\<close>

function sink :: "(nat \<Rightarrow> nat \<Rightarrow> 'm \<Rightarrow> 'm) \<Rightarrow> ('m \<Rightarrow> nat \<Rightarrow> nat \<Rightarrow> bool) \<Rightarrow> nat \<Rightarrow> nat \<Rightarrow> 'm \<Rightarrow> 'm" where
  "sink swap gt gap j m =
     (if gap = 0 \<or> j < gap then m
      else if \<not> gt m (j - gap) j then m
      else sink swap gt gap (j - gap) (swap (j - gap) j m))"
  by pat_completeness auto
termination by (relation "measure (\<lambda>(_, _, _, j, _). j)") auto

declare sink.simps [simp del]

definition gap_pass :: "(nat \<Rightarrow> nat \<Rightarrow> 'm \<Rightarrow> 'm) \<Rightarrow> ('m \<Rightarrow> nat \<Rightarrow> nat \<Rightarrow> bool) \<Rightarrow> nat \<Rightarrow> nat \<Rightarrow> 'm \<Rightarrow> 'm" where
  "gap_pass swap gt n gap m = fold (sink swap gt gap) [gap..<n] m"

function shell_loop :: "(nat \<Rightarrow> nat \<Rightarrow> 'm \<Rightarrow> 'm) \<Rightarrow> ('m \<Rightarrow> nat \<Rightarrow> nat \<Rightarrow> bool) \<Rightarrow> nat \<Rightarrow> nat \<Rightarrow> 'm \<Rightarrow> 'm" where
  "shell_loop swap gt n gap m =
     (if gap = 0 then m else shell_loop swap gt n (gap div 2) (gap_pass swap gt n gap m))"
  by pat_completeness auto
termination by (relation "measure (\<lambda>(_, _, _, gap, _). gap)") auto

declare shell_loop.simps [simp del]

section \<open>The sort in memory\<close>

definition swap_at :: "(nat \<Rightarrow> 'a) \<Rightarrow> (nat \<Rightarrow> 'a) \<Rightarrow> nat \<Rightarrow> ('a \<Rightarrow> u8) \<Rightarrow> ('a \<Rightarrow> u8)" where
  "swap_at f g i m = m(f i := m (g i), g i := m (f i))"

definition swap_bytes :: "u32 \<Rightarrow> u32 \<Rightarrow> u32 \<Rightarrow> memory \<Rightarrow> memory" where
  "swap_bytes a b sz m = fold (swap_at (\<lambda>i. a + of_nat i) (\<lambda>i. b + of_nat i)) [0..<unat sz] m"

type_synonym comparison = "memory \<Rightarrow> u32 \<Rightarrow> u32 \<Rightarrow> int"

definition qsort :: "comparison \<Rightarrow> u32 \<Rightarrow> u32 \<Rightarrow> u32 \<Rightarrow> memory \<Rightarrow> memory" where
  "qsort compar base nmemb sz m =
     (let elt = (\<lambda>i. base + of_nat i * sz)
      in if nmemb \<le> 1 then m
         else shell_loop (\<lambda>i j. swap_bytes (elt i) (elt j) sz) (\<lambda>m i j. compar m (elt i) (elt j) > 0)
                (unat nmemb) (unat (drop_bit 1 nmemb)) m)"

function search_loop :: "(nat \<Rightarrow> int) \<Rightarrow> nat \<Rightarrow> nat \<Rightarrow> nat option" where
  "search_loop cmp lo hi =
     (if lo < hi
      then let mid = lo + (hi - lo) div 2
           in if cmp mid = 0 then Some mid else if cmp mid < 0 then search_loop cmp lo mid
              else search_loop cmp (mid + 1) hi
      else None)"
  by pat_completeness auto
termination
proof (relation "measure (\<lambda>(_, lo, hi). hi - lo)")
  fix lo hi mid :: nat
  assume "lo < hi" "mid = lo + (hi - lo) div 2"
  then have "lo \<le> mid" "mid < hi" by (simp_all add: less_diff_conv2 [symmetric])
  then show "((c :: nat \<Rightarrow> int, lo, mid), c, lo, hi) \<in> measure (\<lambda>(_, lo, hi). hi - lo)"
    "((c :: nat \<Rightarrow> int, mid + 1, hi), c, lo, hi) \<in> measure (\<lambda>(_, lo, hi). hi - lo)" for c
    by auto
qed simp

declare search_loop.simps [simp del]

definition bsearch :: "comparison \<Rightarrow> u32 \<Rightarrow> u32 \<Rightarrow> u32 \<Rightarrow> u32 \<Rightarrow> memory \<Rightarrow> u32" where
  "bsearch compar key base nmemb sz m =
     (case search_loop (\<lambda>i. compar m key (base + of_nat i * sz)) 0 (unat nmemb) of
        None \<Rightarrow> 0 | Some i \<Rightarrow> base + of_nat i * sz)"

section \<open>Sorting an array\<close>

definition total_preorder :: "('e \<Rightarrow> 'e \<Rightarrow> bool) \<Rightarrow> bool" where
  "total_preorder le \<longleftrightarrow> (\<forall>x y. le x y \<or> le y x) \<and> (\<forall>x y z. le x y \<longrightarrow> le y z \<longrightarrow> le x z)"

text \<open>An array of \<open>n\<close> elements with a swap of two places and a comparison of two places.\<close>

locale shell_array =
  fixes n :: nat and get :: "'m \<Rightarrow> nat \<Rightarrow> 'e" and swap :: "nat \<Rightarrow> nat \<Rightarrow> 'm \<Rightarrow> 'm"
    and gt :: "'m \<Rightarrow> nat \<Rightarrow> nat \<Rightarrow> bool" and le :: "'e \<Rightarrow> 'e \<Rightarrow> bool"
  assumes get_swap: "i < n \<Longrightarrow> j < n \<Longrightarrow> i \<noteq> j \<Longrightarrow> k < n \<Longrightarrow>
      get (swap i j m) k = (if k = i then get m j else if k = j then get m i else get m k)"
    and gt_iff: "gt m i j \<longleftrightarrow> \<not> le (get m i) (get m j)"
begin

definition elems :: "'m \<Rightarrow> 'e list" where
  "elems m = map (get m) [0..<n]"

lemma length_elems [simp]: "length (elems m) = n"
  by (simp add: elems_def)

lemma mset_swapped: "i < n \<Longrightarrow> j < n \<Longrightarrow> i \<noteq> j \<Longrightarrow> mset (elems (swap i j m)) = mset (elems m)"
proof -
  assume a: "i < n" "j < n" "i \<noteq> j"
  then have "elems (swap i j m) = (elems m)[i := elems m ! j, j := elems m ! i]"
    by (intro nth_equalityI) (auto simp: elems_def nth_list_update get_swap)
  with a show ?thesis by (simp add: mset_swap)
qed

text \<open>What every swap of two places keeps, the loops keep.\<close>

lemma sink_keeps:
  "(\<And>i j m. i < n \<Longrightarrow> j < n \<Longrightarrow> i \<noteq> j \<Longrightarrow> P (swap i j m) = P m) \<Longrightarrow> j < n \<Longrightarrow> P (sink swap gt gap j m) = P m"
proof (induction j arbitrary: m rule: less_induct)
  case (less j)
  show ?case
  proof (cases "gap = 0 \<or> j < gap \<or> \<not> gt m (j - gap) j")
    case True
    then show ?thesis by (subst sink.simps) auto
  next
    case False
    then have "sink swap gt gap j m = sink swap gt gap (j - gap) (swap (j - gap) j m)" by (subst sink.simps) simp
    moreover have "P (sink swap gt gap (j - gap) (swap (j - gap) j m)) = P (swap (j - gap) j m)"
      using False less.prems by (intro less.IH) auto
    moreover have "P (swap (j - gap) j m) = P m"
      using False less.prems by (intro less.prems(1)) auto
    ultimately show ?thesis by simp
  qed
qed

lemma shell_keeps:
  assumes "\<And>i j m. i < n \<Longrightarrow> j < n \<Longrightarrow> i \<noteq> j \<Longrightarrow> P (swap i j m) = P m"
  shows "P (shell_loop swap gt n gap m) = P m"
proof (induction gap arbitrary: m rule: less_induct)
  case (less gap)
  have "P (fold (sink swap gt gap) xs m) = P m" if "\<forall>j \<in> set xs. j < n" for xs m
    using that by (induction xs arbitrary: m) (simp_all add: sink_keeps [of P, OF assms])
  then have "P (gap_pass swap gt n gap m) = P m" by (simp add: gap_pass_def)
  with less show ?case by (subst shell_loop.simps) simp
qed

text \<open>
  Before the element at \<open>j\<close> sinks by steps of 1, all pairs up to \<open>i\<close> are in order except those
  that end at \<open>j\<close>.
\<close>

definition nearly :: "'m \<Rightarrow> nat \<Rightarrow> nat \<Rightarrow> bool" where
  "nearly m i j \<longleftrightarrow> (\<forall>a b. a < b \<longrightarrow> b \<le> i \<longrightarrow> b \<noteq> j \<longrightarrow> le (get m a) (get m b))"

definition ordered :: "'m \<Rightarrow> nat \<Rightarrow> bool" where
  "ordered m i \<longleftrightarrow> (\<forall>a b. a < b \<longrightarrow> b < i \<longrightarrow> le (get m a) (get m b))"

lemma nearly_swap:
  assumes t: "total_preorder le" and "nearly m i (Suc j)" and "Suc j \<le> i" and "i < n" and "\<not> le (get m j) (get m (Suc j))"
  shows "nearly (swap j (Suc j) m) i j"
  unfolding nearly_def
proof (intro allI impI)
  fix a b assume ab: "a < b" "b \<le> i" "b \<noteq> j"
  have g: "get (swap j (Suc j) m) k = (if k = j then get m (Suc j) else if k = Suc j then get m j else get m k)" if "k \<le> i" for k
    using that assms(3,4) by (intro get_swap) auto
  have o: "le (get m x) (get m y)" if "x < y" "y \<le> i" "y \<noteq> Suc j" for x y
    using assms(2) that by (simp add: nearly_def)
  have "le (get m (Suc j)) (get m j)" using t assms(5) by (auto simp: total_preorder_def)
  then show "le (get (swap j (Suc j) m) a) (get (swap j (Suc j) m) b)"
    using ab g [of a] g [of b] o [of a b] o [of a j] o [of j b] o [of "Suc j" b] by (auto split: if_splits)
qed

lemma sink_orders:
  "total_preorder le \<Longrightarrow> nearly m i j \<Longrightarrow> j \<le> i \<Longrightarrow> i < n \<Longrightarrow> ordered (sink swap gt 1 j m) (Suc i)"
proof (induction j arbitrary: m)
  case 0
  then show ?case by (subst sink.simps) (auto simp: ordered_def nearly_def)
next
  case (Suc j)
  have g: "gt m j (Suc j) \<longleftrightarrow> \<not> le (get m j) (get m (Suc j))" by (rule gt_iff)
  show ?case
  proof (cases "le (get m j) (get m (Suc j))")
    case False
    then have "sink swap gt 1 (Suc j) m = sink swap gt 1 j (swap j (Suc j) m)"
      using g by (subst sink.simps) simp
    moreover have "ordered (sink swap gt 1 j (swap j (Suc j) m)) (Suc i)"
      using Suc.prems False by (intro Suc.IH nearly_swap) auto
    ultimately show ?thesis by simp
  next
    case True
    then have s: "sink swap gt 1 (Suc j) m = m" using g by (subst sink.simps) simp
    have "le (get m a) (get m b)" if "a < b" "b < Suc i" for a b
    proof (cases "b = Suc j")
      case False
      with that Suc.prems(2) show ?thesis by (simp add: nearly_def)
    next
      case b: True
      show ?thesis
      proof (cases "a = j")
        case True
        with b \<open>le (get m j) (get m (Suc j))\<close> show ?thesis by simp
      next
        case False
        with b that Suc.prems have "le (get m a) (get m j)" by (simp add: nearly_def)
        with True b Suc.prems(1) show ?thesis unfolding total_preorder_def by blast
      qed
    qed
    then show ?thesis unfolding s ordered_def by blast
  qed
qed

lemma sink_keeps_above: "j < k \<Longrightarrow> k < n \<Longrightarrow> get (sink swap gt 1 j m) k = get m k"
proof (induction j arbitrary: m)
  case 0
  then show ?case by (subst sink.simps) simp
next
  case (Suc j)
  have "get (sink swap gt 1 j (swap j (Suc j) m)) k = get (swap j (Suc j) m) k" using Suc by simp
  also have "\<dots> = get m k" using Suc.prems by (subst get_swap) auto
  finally show ?case by (subst sink.simps) simp
qed

lemma pass_orders: "total_preorder le \<Longrightarrow> ordered (gap_pass swap gt n 1 m) n"
proof -
  assume t: "total_preorder le"
  have "ordered (fold (sink swap gt 1) [1..<k] m) k" if "0 < k" "k \<le> n" for k
    using that
  proof (induction k)
    case (Suc k)
    show ?case
    proof (cases "k = 0")
      case True
      then show ?thesis by (simp add: ordered_def)
    next
      case False
      let ?m = "fold (sink swap gt 1) [1..<k] m"
      have "ordered ?m k" using False Suc by simp
      then have "nearly ?m k k" by (auto simp: ordered_def nearly_def)
      then have "ordered (sink swap gt 1 k ?m) (Suc k)" using Suc.prems t by (intro sink_orders) auto
      with False show ?thesis by simp
    qed
  qed simp
  then show ?thesis by (cases "n = 0") (simp_all add: gap_pass_def ordered_def)
qed

lemma shell_orders: "total_preorder le \<Longrightarrow> 0 < gap \<Longrightarrow> ordered (shell_loop swap gt n gap m) n"
proof (induction gap arbitrary: m rule: less_induct)
  case (less gap)
  show ?case
  proof (cases "gap = 1")
    case True
    have "shell_loop swap gt n 1 m = gap_pass swap gt n 1 m"
      by (subst shell_loop.simps, subst shell_loop.simps) simp
    then show ?thesis using True pass_orders [OF less.prems(1)] by simp
  next
    case False
    with less show ?thesis by (subst shell_loop.simps) simp
  qed
qed

lemma shell_sorts: "total_preorder le \<Longrightarrow> 0 < gap \<Longrightarrow> sorted_wrt le (elems (shell_loop swap gt n gap m))"
  using shell_orders [of gap m] by (auto simp: sorted_wrt_iff_nth_less ordered_def) (simp add: elems_def)

lemma shell_permutes: "mset (elems (shell_loop swap gt n gap m)) = mset (elems m)"
  by (rule shell_keeps [of "\<lambda>m. mset (elems m)"]) (rule mset_swapped)

end

section \<open>Elements in memory\<close>

definition bytes_at :: "memory \<Rightarrow> u32 \<Rightarrow> u32 \<Rightarrow> bytes" where
  "bytes_at m a sz = map (\<lambda>k. m (a + of_nat k)) [0..<unat sz]"

definition element :: "u32 \<Rightarrow> u32 \<Rightarrow> memory \<Rightarrow> nat \<Rightarrow> bytes" where
  "element base sz m i = bytes_at m (base + of_nat i * sz) sz"

definition swap_elements :: "u32 \<Rightarrow> u32 \<Rightarrow> nat \<Rightarrow> nat \<Rightarrow> memory \<Rightarrow> memory" where
  "swap_elements base sz i j = swap_bytes (base + of_nat i * sz) (base + of_nat j * sz) sz"

text \<open>A comparison that looks at its two elements only.\<close>

definition element_compare :: "(bytes \<Rightarrow> bytes \<Rightarrow> int) \<Rightarrow> u32 \<Rightarrow> comparison" where
  "element_compare c sz m a b = c (bytes_at m a sz) (bytes_at m b sz)"

text \<open>The number of elements, when they do not run over the end of the address space.\<close>

definition room :: "u32 \<Rightarrow> u32 \<Rightarrow> nat \<Rightarrow> nat" where
  "room base sz n = (if unat base + n * unat sz \<le> 4294967296 then n else 0)"

lemma room_address:
  assumes "i < room base sz n" and "k < unat sz"
  shows "unat (base + of_nat i * sz + of_nat k) = unat base + i * unat sz + k"
    and "i * unat sz + unat sz \<le> n * unat sz" and "unat base + n * unat sz \<le> 4294967296"
proof -
  have b: "unat base + n * unat sz \<le> 4294967296" "i < n" using assms(1) by (auto simp: room_def split: if_splits)
  have "Suc i * unat sz \<le> n * unat sz" using b(2) by (intro mult_le_mono1) simp
  then show le: "i * unat sz + unat sz \<le> n * unat sz" by simp
  show "unat base + n * unat sz \<le> 4294967296" by (rule b(1))
  have "unat base + i * unat sz + k < 4294967296" using le b(1) assms(2) by linarith
  moreover have "base + of_nat i * sz + of_nat k = of_nat (unat base + i * unat sz + k)" by simp
  ultimately show "unat (base + of_nat i * sz + of_nat k) = unat base + i * unat sz + k"
    by (simp only: unsigned_of_nat take_bit_eq_mod) simp
qed

lemma room_address_eq:
  assumes "i < room base sz n" "k < unat sz" "j < room base sz n" "l < unat sz"
  shows "base + of_nat i * sz + of_nat k = base + of_nat j * sz + of_nat l \<longleftrightarrow> i = j \<and> k = l"
proof
  assume "base + of_nat i * sz + of_nat k = base + of_nat j * sz + of_nat l"
  then have "unat (base + of_nat i * sz + of_nat k) = unat (base + of_nat j * sz + of_nat l)" by (rule arg_cong)
  then have e: "i * unat sz + k = j * unat sz + l"
    unfolding room_address(1) [OF assms(1,2)] room_address(1) [OF assms(3,4)] by simp
  have "(i * unat sz + k) div unat sz = i" "(j * unat sz + l) div unat sz = j" using assms(2,4) by simp_all
  then have "i = j" unfolding e by simp
  with e show "i = j \<and> k = l" by simp
qed simp

text \<open>The loop of \<open>swap_bytes\<close> on two ranges without a common address.\<close>

definition two_ranges :: "nat \<Rightarrow> (nat \<Rightarrow> 'a) \<Rightarrow> (nat \<Rightarrow> 'a) \<Rightarrow> bool" where
  "two_ranges n f g \<longleftrightarrow> (\<forall>k < n. \<forall>l < n. (f k = f l \<longleftrightarrow> k = l) \<and> (g k = g l \<longleftrightarrow> k = l) \<and> f k \<noteq> g l)"

lemma swap_fold:
  "two_ranges n f g \<Longrightarrow>
     (\<forall>k < n. fold (swap_at f g) [0..<n] m (f k) = m (g k)) \<and>
     (\<forall>k < n. fold (swap_at f g) [0..<n] m (g k) = m (f k)) \<and>
     (\<forall>x. (\<forall>k < n. x \<noteq> f k \<and> x \<noteq> g k) \<longrightarrow> fold (swap_at f g) [0..<n] m x = m x)"
proof (induction n)
  case (Suc n)
  let ?m = "fold (swap_at f g) [0..<n] m"
  have d: "f k = f l \<longleftrightarrow> k = l" "g k = g l \<longleftrightarrow> k = l" "f k \<noteq> g l" if "k < Suc n" "l < Suc n" for k l
    using Suc.prems that unfolding two_ranges_def by blast+
  note d = this this(3) [symmetric]
  have "two_ranges n f g" using d by (auto simp: two_ranges_def)
  note IH = Suc.IH [OF this]
  have last: "?m (f n) = m (f n)" "?m (g n) = m (g n)" using IH d by auto
  show ?case
    using IH d last by (auto simp: less_Suc_eq swap_at_def)
qed simp

lemma room_ranges:
  assumes "i < room base sz n" "j < room base sz n" "i \<noteq> j"
  shows "two_ranges (unat sz) (\<lambda>k. base + of_nat i * sz + of_nat k) (\<lambda>k. base + of_nat j * sz + of_nat k)"
  using room_address_eq [OF assms(1) _ assms(1)] room_address_eq [OF assms(2) _ assms(2)]
    room_address_eq [OF assms(1) _ assms(2)] assms(3)
  by (simp add: two_ranges_def)

lemma element_swap:
  assumes "i < room base sz n" "j < room base sz n" "i \<noteq> j" "k < room base sz n"
  shows "element base sz (swap_elements base sz i j m) k =
    (if k = i then element base sz m j else if k = j then element base sz m i else element base sz m k)"
proof -
  note sw = swap_fold [OF room_ranges [OF assms(1-3)], of m, folded swap_bytes_def swap_elements_def]
  have other: "base + of_nat k * sz + of_nat l \<noteq> base + of_nat z * sz + of_nat l'"
    if "k \<noteq> z" "z < room base sz n" "l < unat sz" "l' < unat sz" for z l l'
    using room_address_eq [OF assms(4) that(3) that(2,4)] that(1) by simp
  show ?thesis
    using sw assms other by (auto simp: element_def bytes_at_def)
qed

lemma swap_outside:
  assumes "i < room base sz n" "j < room base sz n" "i \<noteq> j"
    and "unat x < unat base \<or> unat base + n * unat sz \<le> unat x"
  shows "swap_elements base sz i j m x = m x"
proof -
  have "x \<noteq> base + of_nat z * sz + of_nat k" if "z < room base sz n" "k < unat sz" for z k
  proof
    assume "x = base + of_nat z * sz + of_nat k"
    then have "unat x = unat base + z * unat sz + k" using room_address(1) [OF that] by simp
    with room_address(2) [OF that] that(2) assms(4) show False by linarith
  qed
  with swap_fold [OF room_ranges [OF assms(1-3)], of m, folded swap_bytes_def swap_elements_def] assms(1,2)
  show ?thesis by blast
qed

interpretation mem_array: shell_array "room base sz n" "element base sz" "swap_elements base sz"
    "\<lambda>m i j. element_compare c sz m (base + of_nat i * sz) (base + of_nat j * sz) > 0" "\<lambda>x y. c x y \<le> 0"
  for base sz :: u32 and n :: nat and c :: "bytes \<Rightarrow> bytes \<Rightarrow> int"
  by unfold_locales (simp add: element_swap, simp add: element_compare_def element_def not_le)

text \<open>The array as a list of its elements.\<close>

definition elements :: "u32 \<Rightarrow> u32 \<Rightarrow> nat \<Rightarrow> memory \<Rightarrow> bytes list" where
  "elements base sz n m = map (element base sz m) [0..<n]"

lemma qsort_loop:
  assumes "unat base + unat nmemb * unat sz \<le> 4294967296" and "nmemb > 1"
  shows "qsort (element_compare c sz) base nmemb sz m =
    shell_loop (swap_elements base sz)
      (\<lambda>m i j. element_compare c sz m (base + of_nat i * sz) (base + of_nat j * sz) > 0)
      (room base sz (unat nmemb)) (unat (drop_bit 1 nmemb)) m"
proof -
  have "swap_elements base sz = (\<lambda>i j. swap_bytes (base + of_nat i * sz) (base + of_nat j * sz) sz)"
    by (intro ext) (simp add: swap_elements_def)
  with assms show ?thesis by (simp add: qsort_def Let_def room_def not_le [symmetric])
qed

text \<open>
  C38. \<open>qsort\<close> with a comparison that is a total preorder on elements sorts: the elements of the
  array afterwards are the elements before, each as often, in ascending order, and no
  byte outside the array has changed; whatever the number and the size of the elements, as long
  as the array does not run over the end of the address space.
\<close>

theorem qsort_sorts:
  assumes "unat base + unat nmemb * unat sz \<le> 4294967296" and "total_preorder (\<lambda>x y. c x y \<le> 0)"
    and "m' = qsort (element_compare c sz) base nmemb sz m"
  shows "sorted_wrt (\<lambda>x y. c x y \<le> 0) (elements base sz (unat nmemb) m') \<and>
    mset (elements base sz (unat nmemb) m') = mset (elements base sz (unat nmemb) m) \<and>
    (unat x < unat base \<or> unat base + unat nmemb * unat sz \<le> unat x \<longrightarrow> m' x = m x)"
proof (cases "nmemb > 1")
  case False
  then have "unat nmemb \<le> 1" by (simp add: word_less_nat_alt not_less)
  then have "sorted_wrt (\<lambda>x y. c x y \<le> 0) (elements base sz (unat nmemb) m)"
    by (cases "unat nmemb") (simp_all add: elements_def)
  moreover have "m' = m" using False assms(3) by (simp add: qsort_def not_less)
  ultimately show ?thesis by simp
next
  case True
  have r: "room base sz (unat nmemb) = unat nmemb" using assms(1) by (simp add: room_def)
  have g: "0 < unat (drop_bit 1 nmemb)"
    using True by (simp add: unat_drop_bit_eq drop_bit_eq_div word_less_nat_alt unat_div)
  have e: "mem_array.elems base sz (unat nmemb) = elements base sz (unat nmemb)"
    by (intro ext) (subst mem_array.elems_def, simp only: elements_def r)
  note q = assms(3) [unfolded qsort_loop [OF assms(1) True]]
  have "sorted_wrt (\<lambda>x y. c x y \<le> 0) (elements base sz (unat nmemb) m')"
    using mem_array.shell_sorts [OF assms(2) g, of base sz "unat nmemb"] by (simp add: q e)
  moreover have "mset (elements base sz (unat nmemb) m') = mset (elements base sz (unat nmemb) m)"
    using mem_array.shell_permutes [of base sz "unat nmemb" c] by (simp add: q e)
  moreover have "m' x = m x" if "unat x < unat base \<or> unat base + unat nmemb * unat sz \<le> unat x"
    unfolding q by (rule mem_array.shell_keeps [of base sz "unat nmemb" "\<lambda>m. m x"]) (rule swap_outside [OF _ _ _ that])
  ultimately show ?thesis by blast
qed

text \<open>Four words in memory in descending order.\<close>

definition word_compare :: "bytes \<Rightarrow> bytes \<Rightarrow> int" where
  "word_compare x y = (let a = get32 (\<lambda>i. x ! i) (0 :: nat); b = get32 (\<lambda>i. y ! i) (0 :: nat)
     in if a < b then - 1 else if a > b then 1 else 0)"

lemma word_compare_preorder: "total_preorder (\<lambda>x y. word_compare x y \<le> 0)"
  by (auto simp: total_preorder_def word_compare_def Let_def split: if_splits)

definition four_words :: memory where
  "four_words = (\<lambda>a. if a = 0x1003 then 9 else if a = 0x1007 then 7 else if a = 0x100B then 8 else if a = 0x100F then 1 else 0)"

theorem qsort_sorts_witness:
  "sorted_wrt (\<lambda>x y. word_compare x y \<le> 0) (elements 0x1000 4 4 (qsort (element_compare word_compare 4) 0x1000 4 4 four_words)) \<and>
   mset (elements 0x1000 4 4 (qsort (element_compare word_compare 4) 0x1000 4 4 four_words)) =
     {#[0, 0, 0, 9], [0, 0, 0, 7], [0, 0, 0, 8], [0, 0, 0, 1]#} \<and>
   qsort (element_compare word_compare 4) 0x1000 4 4 four_words 0x1010 = 0"
proof -
  have e: "elements 0x1000 4 4 four_words = [[0, 0, 0, 9], [0, 0, 0, 7], [0, 0, 0, 8], [0, 0, 0, 1]]"
    by code_simp
  have r: "unat (0x1000 :: u32) + unat (4 :: u32) * unat (4 :: u32) \<le> 4294967296" by simp
  from qsort_sorts [OF r word_compare_preorder refl, where m = four_words and x = "0x1010"] show ?thesis
    by (simp add: e) (simp add: four_words_def)
qed

section \<open>Searching\<close>

text \<open>The comparison with the elements falls from positive over zero to negative.\<close>

definition falling :: "(nat \<Rightarrow> int) \<Rightarrow> nat \<Rightarrow> bool" where
  "falling cmp n \<longleftrightarrow> (\<forall>i j. i < j \<longrightarrow> j < n \<longrightarrow> (cmp i < 0 \<longrightarrow> cmp j < 0) \<and> (cmp j > 0 \<longrightarrow> cmp i > 0))"

lemma falling_down: "falling cmp n \<Longrightarrow> cmp i < 0 \<Longrightarrow> i \<le> j \<Longrightarrow> j < n \<Longrightarrow> cmp j < 0"
  unfolding falling_def by (metis le_neq_implies_less)

lemma falling_up: "falling cmp n \<Longrightarrow> cmp j > 0 \<Longrightarrow> i \<le> j \<Longrightarrow> j < n \<Longrightarrow> cmp i > 0"
  unfolding falling_def by (metis le_neq_implies_less)

lemma search_loop_finds:
  "search_loop cmp lo hi = Some i \<Longrightarrow> lo \<le> i \<and> i < hi \<and> cmp i = 0"
proof (induction cmp lo hi rule: search_loop.induct)
  case (1 cmp lo hi)
  then have lt: "lo < hi" by (subst (asm) (3) search_loop.simps) (simp split: if_splits)
  let ?mid = "lo + (hi - lo) div 2"
  have "lo \<le> ?mid" "?mid < hi" using lt by simp_all
  then show ?case
    using 1 lt search_loop.simps [of cmp lo hi] by (fastforce simp: Let_def split: if_splits)
qed

lemma search_loop_none:
  "falling cmp n \<Longrightarrow> hi \<le> n \<Longrightarrow> search_loop cmp lo hi = None \<Longrightarrow> lo \<le> i \<Longrightarrow> i < hi \<Longrightarrow> cmp i \<noteq> 0"
proof (induction cmp lo hi rule: search_loop.induct)
  case (1 cmp lo hi)
  let ?mid = "lo + (hi - lo) div 2"
  have mid: "lo \<le> ?mid" "?mid < hi" "lo < hi" using 1(6,7) by simp_all
  have n0: "cmp ?mid \<noteq> 0" using 1(5) mid(3) by (subst (asm) search_loop.simps) (simp add: Let_def split: if_splits)
  show ?case
  proof (cases "cmp ?mid < 0")
    case True
    then have s: "search_loop cmp lo ?mid = None" using 1(5) mid(3) n0 by (subst (asm) search_loop.simps) (simp add: Let_def)
    show ?thesis
    proof (cases "i < ?mid")
      case lt: True
      from 1(1) [OF mid(3) refl n0 True 1(3)] 1(4,6) mid lt s show ?thesis by simp
    next
      case False
      then have "cmp i < 0" using falling_down [OF 1(3) True, of i] 1(4,7) by simp
      then show ?thesis by simp
    qed
  next
    case False
    then have s: "search_loop cmp (?mid + 1) hi = None" using 1(5) mid(3) n0 by (subst (asm) search_loop.simps) (simp add: Let_def)
    show ?thesis
    proof (cases "?mid < i")
      case lt: True
      from 1(2) [OF mid(3) refl n0 False 1(3,4) s] 1(7) lt show ?thesis by simp
    next
      case ge: False
      have "cmp ?mid > 0" using False n0 by linarith
      then have "cmp i > 0" using falling_up [OF 1(3), of ?mid i] ge 1(4) mid by simp
      then show ?thesis by simp
    qed
  qed
qed

text \<open>\<open>bsearch\<close> on an array that is sorted for the key: an element that compares equal, or none.\<close>

lemma bsearch_finds:
  assumes "falling (\<lambda>i. compar m key (base + of_nat i * sz)) (unat nmemb)" and "base \<noteq> 0"
    and "unat base + unat nmemb * unat sz \<le> 4294967296" and "sz \<noteq> 0"
  shows "if \<exists>i < unat nmemb. compar m key (base + of_nat i * sz) = 0
    then \<exists>i < unat nmemb. bsearch compar key base nmemb sz m = base + of_nat i * sz \<and> compar m key (base + of_nat i * sz) = 0
    else bsearch compar key base nmemb sz m = 0"
proof (cases "search_loop (\<lambda>i. compar m key (base + of_nat i * sz)) 0 (unat nmemb)")
  case None
  then have "compar m key (base + of_nat i * sz) \<noteq> 0" if "i < unat nmemb" for i
    using search_loop_none [OF assms(1) order_refl None, of i] that by simp
  with None show ?thesis by (auto simp: bsearch_def)
next
  case (Some i)
  with search_loop_finds [OF Some] show ?thesis by (auto simp: bsearch_def)
qed

end
