(* ===== verification/Umalloc.thy ===== *)
theory Umalloc
  imports KHeap Umem KString
begin

text \<open>
  The heap of user programs, libc/stdlib.c: \<open>malloc\<close>, \<open>free\<close>, \<open>calloc\<close>,
  \<open>realloc\<close> and \<open>strdup\<close> on the bytes of memory, growing by the \<open>sbrk\<close> of the kernel
  (theory \<open>Umem\<close>). A block header is a size and the next free block, as in the kernel heap, so
  the header accessors and the chains of theory \<open>KHeap\<close> are used; but the free list is in no
  order, blocks are neither split nor joined, and the first block that is large enough is taken.
\<close>

section \<open>The operations\<close>

record uheap =
  umem :: memory
  ufree :: u32
  uproc :: ptab

abbreviation (input) MHDR_SIZE :: u32 where "MHDR_SIZE \<equiv> 8"

text \<open>The search: the block before the first that fits, NULL at the head, and that block.\<close>

partial_function (option) find_fit :: "u32 \<Rightarrow> u32 \<Rightarrow> u32 \<Rightarrow> uheap \<Rightarrow> (u32 \<times> u32) option option" where
  "find_fit want prev p h =
     (if p = 0 then Some None
      else if blk_size (umem h) p \<ge> want then Some (Some (prev, p))
      else find_fit want p (blk_next (umem h) p) h)"

definition unlink_block :: "u32 \<Rightarrow> u32 \<Rightarrow> uheap \<Rightarrow> uheap" where
  "unlink_block prev p h =
     (if prev \<noteq> 0 then h\<lparr>umem := set_next prev (blk_next (umem h) p) (umem h)\<rparr>
      else h\<lparr>ufree := blk_next (umem h) p\<rparr>)"

definition grow_heap :: "u32 \<Rightarrow> uheap \<Rightarrow> u32 \<times> uheap" where
  "grow_heap want h =
     (let (p, s) = sbrk_proc want (uproc h); h1 = h\<lparr>uproc := s\<rparr>
      in if sint p < 0 \<or> p = 0xFFFFFFFF then (0, h1)
         else (p + MHDR_SIZE, h1\<lparr>umem := set_size p want (umem h1)\<rparr>))"

definition malloc :: "u32 \<Rightarrow> uheap \<Rightarrow> (u32 \<times> uheap) option" where
  "malloc sz h =
     (if sz = 0 then Some (0, h)
      else let want = align4 (sz + MHDR_SIZE)
           in case find_fit want 0 (ufree h) h of
                None \<Rightarrow> None
              | Some (Some (prev, p)) \<Rightarrow> Some (p + MHDR_SIZE, unlink_block prev p h)
              | Some None \<Rightarrow> Some (grow_heap (if want < 256 then 256 else want) h))"

definition free :: "u32 \<Rightarrow> uheap \<Rightarrow> uheap" where
  "free ptr h =
     (if ptr = 0 then h
      else let p = ptr - MHDR_SIZE in h\<lparr>umem := set_next p (ufree h) (umem h), ufree := p\<rparr>)"

definition calloc :: "u32 \<Rightarrow> u32 \<Rightarrow> uheap \<Rightarrow> (u32 \<times> uheap) option" where
  "calloc nmemb sz h =
     (let want = nmemb * sz
      in map_option (\<lambda>(p, h1). (p, if p \<noteq> 0 then h1\<lparr>umem := memset (unat want) (umem h1) p 0\<rparr> else h1)) (malloc want h))"

definition realloc :: "u32 \<Rightarrow> u32 \<Rightarrow> uheap \<Rightarrow> (u32 \<times> uheap) option" where
  "realloc ptr sz h =
     (if ptr = 0 then malloc sz h
      else if sz = 0 then Some (0, free ptr h)
      else let oldsize = blk_size (umem h) (ptr - MHDR_SIZE) - MHDR_SIZE
           in if oldsize \<ge> sz then Some (ptr, h)
              else map_option (\<lambda>(newp, h1).
                     (newp, if newp \<noteq> 0 then free ptr (h1\<lparr>umem := memcpy (unat oldsize) (umem h1) newp ptr\<rparr>) else h1))
                   (malloc sz h))"

definition strdup :: "u32 \<Rightarrow> uheap \<Rightarrow> (u32 \<times> uheap) option" where
  "strdup s h =
     (case strlen (umem h) s of None \<Rightarrow> None
      | Some l \<Rightarrow> case malloc (l + 1) h of None \<Rightarrow> None
      | Some (p, h1) \<Rightarrow> if p = 0 then Some (p, h1)
                          else map_option (\<lambda>m. (p, h1\<lparr>umem := m\<rparr>)) (strcpy (umem h1) p s))"

section \<open>Blocks of the heap\<close>

abbreviation owner :: "uheap \<Rightarrow> proc" where
  "owner h \<equiv> proctab (uproc h) (sbrk_target (uproc h))"

text \<open>Blocks that share no byte and lie between the start of the region and the break.\<close>

definition spread :: "proc \<Rightarrow> region list \<Rightarrow> bool" where
  "spread p rs \<longleftrightarrow> sorted_wrt apart rs \<and>
     (\<forall>r \<in> set rs. unat (mem_base p) \<le> rlo r \<and> rhi r \<le> unat (brk p) \<and> 8 \<le> unat (snd r))"

lemma apart_sym: "apart a b \<longleftrightarrow> apart b a"
  by (auto simp: apart_def)

lemma spread_Cons:
  "spread p (r # rs) \<longleftrightarrow> spread p rs \<and> (\<forall>x \<in> set rs. apart r x) \<and>
     unat (mem_base p) \<le> rlo r \<and> rhi r \<le> unat (brk p) \<and> 8 \<le> unat (snd r)"
  by (auto simp: spread_def)

lemma spread_append:
  "spread p (rs @ qs) \<longleftrightarrow> spread p rs \<and> spread p qs \<and> (\<forall>x \<in> set rs. \<forall>y \<in> set qs. apart x y)"
  by (auto simp: spread_def sorted_wrt_append)

lemma spread_single:
  "spread p [r] \<longleftrightarrow> unat (mem_base p) \<le> rlo r \<and> rhi r \<le> unat (brk p) \<and> 8 \<le> unat (snd r)"
  by (simp add: spread_def)

text \<open>The order of the blocks does not matter.\<close>

lemma spread_move:
  "spread p (as @ xs @ r # ys) \<longleftrightarrow> spread p (r # as @ xs @ ys)"
  by (auto simp: spread_Cons spread_append apart_sym)

lemma spread_hdr_apart:
  assumes "spread p [a]" and "spread p [b]" and "apart a b"
  shows "hdr_apart (fst a) (fst b)"
  using assms u32_bound [of "brk p"] by (auto simp: spread_single hdr_apart_def apart_def rlo_def rhi_def)

text \<open>What holds of the heap: the blocks held by the program and those on the free list.\<close>

definition uheap_ok :: "region list \<Rightarrow> region list \<Rightarrow> uheap \<Rightarrow> bool" where
  "uheap_ok held frees h \<longleftrightarrow> brk_ok (owner h) \<and> mem_base (owner h) \<noteq> 0 \<and> spread (owner h) (held @ frees) \<and>
     chain (umem h) (ufree h) frees 0 \<and> (\<forall>r \<in> set held. blk_size (umem h) (fst r) = snd r)"

lemma find_fit_chain:
  "chain (umem h) p rs 0 \<Longrightarrow>
     (\<forall>r \<in> set rs. snd r < want) \<and> find_fit want prev p h = Some None \<or>
     (\<exists>xs r ys. rs = xs @ r # ys \<and> want \<le> snd r \<and>
        find_fit want prev p h = Some (Some (last (prev # map fst xs), fst r)))"
proof (induction rs arbitrary: prev p)
  case Nil
  then show ?case by (simp add: find_fit.simps)
next
  case (Cons r rs)
  then have p: "p = fst r" "p \<noteq> 0" "blk_size (umem h) p = snd r" and c: "chain (umem h) (blk_next (umem h) p) rs 0" by auto
  show ?case
  proof (cases "want \<le> snd r")
    case True
    with p have "find_fit want prev p h = Some (Some (last (prev # map fst []), fst r))"
      by (subst find_fit.simps) simp
    with True show ?thesis by blast
  next
    case False
    with p have step: "find_fit want prev p h = find_fit want (fst r) (blk_next (umem h) p) h"
      by (subst find_fit.simps) simp
    from Cons.IH [OF c, of "fst r"] show ?thesis
    proof (elim disjE exE conjE)
      assume "\<forall>r \<in> set rs. snd r < want" "find_fit want (fst r) (blk_next (umem h) p) h = Some None"
      with False step show ?thesis by simp
    next
      fix xs q ys
      assume "rs = xs @ q # ys" "want \<le> snd q"
        "find_fit want (fst r) (blk_next (umem h) p) h = Some (Some (last (fst r # map fst xs), fst q))"
      with step have "r # rs = (r # xs) @ q # ys \<and> want \<le> snd q \<and>
          find_fit want prev p h = Some (Some (last (prev # map fst (r # xs)), fst q))" by simp
      then show ?thesis by blast
    qed
  qed
qed

text \<open>Bytes that a store to a header leaves alone.\<close>

lemma put32_off_word:
  assumes "unat a < unat p \<or> unat p + 4 \<le> unat a" and "unat p + 4 \<le> 4294967296"
  shows "put32 m p v a = m (a :: u32)"
proof -
  have k: "unat (p + 1) = unat p + 1" "unat (p + 2) = unat p + 2" "unat (p + 3) = unat p + 3"
    using assms(2) unat_plus_small [of p 1] unat_plus_small [of p 2] unat_plus_small [of p 3] by simp_all
  have "a \<noteq> p" "a \<noteq> p + 1" "a \<noteq> p + 2" "a \<noteq> p + 3" using assms(1) k by (auto simp: word_unat_eq_iff)
  then show ?thesis by (simp add: put32_other add.assoc)
qed

lemma header_outside:
  assumes "unat a < unat p \<or> unat p + 8 \<le> unat a" and "unat p + 8 \<le> 4294967296"
  shows "set_size p v m a = m a" "set_next p v m a = m a"
proof -
  have "unat (p + 4) = unat p + 4" using assms(2) unat_plus_small [of p 4] by simp
  then show "set_size p v m a = m a" "set_next p v m a = m a"
    using assms by (auto simp: set_size_def set_next_def intro!: put32_off_word)
qed

text \<open>The bytes of a block, its header apart.\<close>

definition within :: "region \<Rightarrow> u32 \<Rightarrow> bool" where
  "within r a \<longleftrightarrow> rlo r + 8 \<le> unat a \<and> unat a < rhi r"

lemma within_header:
  assumes "spread p [b]" and "spread p [r]" and "apart b r" and "within r a"
  shows "set_size (fst b) v m a = m a" "set_next (fst b) v m a = m a"
proof -
  have "unat a < unat (fst b) \<or> unat (fst b) + 8 \<le> unat a" "unat (fst b) + 8 \<le> 4294967296"
    using assms u32_bound [of "brk p"] by (auto simp: spread_single apart_def within_def rlo_def rhi_def)
  then show "set_size (fst b) v m a = m a" "set_next (fst b) v m a = m a" by (simp_all add: header_outside)
qed

section \<open>Taking a block off the list\<close>

lemma unlink_ok:
  assumes ok: "uheap_ok held (xs @ r # ys) h"
  shows "uheap_ok (r # held) (xs @ ys) (unlink_block (last (0 # map fst xs)) (fst r) h)"
    and "q \<in> set held \<Longrightarrow> within q a \<Longrightarrow> umem (unlink_block (last (0 # map fst xs)) (fst r) h) a = umem h a"
proof -
  define h1 where "h1 = unlink_block (last (0 # map fst xs)) (fst r) h"
  have sp: "spread (owner h) (held @ xs @ r # ys)" and ch: "chain (umem h) (ufree h) (xs @ r # ys) 0"
    and sz: "\<forall>r \<in> set held. blk_size (umem h) (fst r) = snd r" and b: "brk_ok (owner h)" "mem_base (owner h) \<noteq> 0"
    using ok by (simp_all add: uheap_ok_def)
  have one: "spread (owner h) [x]" if "x \<in> set held \<union> set xs \<union> set ys \<union> {r}" for x
    using sp that by (auto simp: spread_append spread_Cons spread_def)
  have pr: "uproc h1 = uproc h" by (simp add: h1_def unlink_block_def)
  have c: "chain (umem h) (ufree h) xs (fst r)" "fst r \<noteq> 0" "blk_size (umem h) (fst r) = snd r"
    "chain (umem h) (blk_next (umem h) (fst r)) ys 0" using ch by (auto simp: chain_append)
  have keep: "chain (umem h1) (ufree h1) (xs @ ys) 0 \<and> (\<forall>x \<in> set held \<union> {r}. blk_size (umem h1) (fst x) = blk_size (umem h) (fst x)) \<and>
      (\<forall>q \<in> set held. \<forall>a. within q a \<longrightarrow> umem h1 a = umem h a)"
  proof (cases xs rule: rev_cases)
    case Nil
    with c show ?thesis by (simp add: h1_def unlink_block_def)
  next
    case (snoc zs z)
    have z: "last (0 # map fst xs) = fst z" using snoc by simp
    have nz: "fst z \<noteq> 0" using c(1) snoc by (auto simp: chain_append)
    have h: "h1 = h\<lparr>umem := set_next (fst z) (blk_next (umem h) (fst r)) (umem h)\<rparr>"
      unfolding h1_def z using nz by (simp add: unlink_block_def)
    have ap: "apart z x" if "x \<in> set held \<union> set zs \<union> set ys \<union> {r}" for x
      using sp that snoc by (auto simp: spread_append spread_Cons apart_sym)
    have hd: "hdr_apart (fst z) (fst x)" if "x \<in> set held \<union> set zs \<union> set ys \<union> {r}" for x
      using that snoc by (intro spread_hdr_apart [OF one one ap]) auto
    have e: "hdr_eq (umem h) (umem h1) (fst x)" if "x \<in> set held \<union> set zs \<union> set ys \<union> {r}" for x
      unfolding h using hdr_other(2) [OF hd [OF that]] by simp
    have cz: "chain (umem h) (ufree h) zs (fst z)" "blk_size (umem h) (fst z) = snd z"
      using c(1) snoc by (auto simp: chain_append)
    have bound: "unat (fst z) + 8 \<le> 4294967296" using hd [of r] by (simp add: hdr_apart_def)
    have "chain (umem h1) (ufree h1) zs (fst z)"
      using chain_keep [OF cz(1), of "umem h1"] e by (simp add: h)
    moreover have "chain (umem h1) (blk_next (umem h1) (fst z)) ys 0"
      using chain_keep [OF c(4), of "umem h1"] e by (simp add: h hdr_fields)
    moreover have "blk_size (umem h1) (fst z) = snd z" using cz(2) bound by (simp add: h hdr_same)
    ultimately have "chain (umem h1) (ufree h1) (xs @ ys) 0" using nz unfolding snoc by (auto simp: chain_append)
    moreover have "\<forall>x \<in> set held \<union> {r}. blk_size (umem h1) (fst x) = blk_size (umem h) (fst x)"
      using e by (auto simp: hdr_eq_def)
    moreover have "umem h1 a = umem h a" if "q \<in> set held" "within q a" for q a
      using within_header(2) [OF one [of z] one [of q] ap [of q] that(2)] that(1) snoc by (simp add: h)
    ultimately show ?thesis by blast
  qed
  show "q \<in> set held \<Longrightarrow> within q a \<Longrightarrow> umem (unlink_block (last (0 # map fst xs)) (fst r) h) a = umem h a"
    using keep unfolding h1_def by blast
  have "spread (owner h) ((r # held) @ xs @ ys)" using sp by (simp add: spread_move)
  with keep b sz c(3) show "uheap_ok (r # held) (xs @ ys) (unlink_block (last (0 # map fst xs)) (fst r) h)"
    by (auto simp: uheap_ok_def pr h1_def [symmetric] simp del: last.simps)
qed


section \<open>Growing the heap\<close>

lemma sbrk_target_brk [simp]: "sbrk_target (upd_proc i (\<lambda>q. q\<lparr>brk := b\<rparr>) s) = sbrk_target s"
proof -
  let ?s = "upd_proc i (\<lambda>q. q\<lparr>brk := b\<rparr>) s"
  have "mem_base (proctab ?s k) = mem_base (proctab s k)" "ppid (proctab ?s k) = ppid (proctab s k)"
    "pstate (proctab ?s k) = pstate (proctab s k)" "curproc ?s = curproc s" for k by simp_all
  then show ?thesis unfolding sbrk_target_def by (simp only:)
qed

lemma spread_brk:
  assumes "spread p rs" and "mem_base p' = mem_base p" and "brk p \<le> brk p'"
  shows "spread p' rs"
proof -
  have "rhi r \<le> unat (brk p')" if "r \<in> set rs" for r
  proof -
    have "rhi r \<le> unat (brk p)" using assms(1) that by (simp add: spread_def)
    also have "\<dots> \<le> unat (brk p')" using assms(3) by (simp add: word_le_nat_alt)
    finally show ?thesis .
  qed
  with assms(1,2) show ?thesis by (simp add: spread_def)
qed

text \<open>The kernel may do anything that keeps the region of the program and does not lower its break.\<close>

definition keeps_region :: "ptab \<Rightarrow> ptab \<Rightarrow> bool" where
  "keeps_region s s' \<longleftrightarrow> brk_ok (proctab s' (sbrk_target s')) \<and>
     mem_base (proctab s' (sbrk_target s')) = mem_base (proctab s (sbrk_target s)) \<and>
     brk (proctab s (sbrk_target s)) \<le> brk (proctab s' (sbrk_target s'))"

lemma uheap_ok_kernel: "uheap_ok held frees h \<Longrightarrow> keeps_region (uproc h) s \<Longrightarrow> uheap_ok held frees (h\<lparr>uproc := s\<rparr>)"
  by (auto simp: uheap_ok_def keeps_region_def intro: spread_brk)

text \<open>A positive increment: the break moves up by it, or nothing changes.\<close>

lemma sint_small: "unat t < 2147483648 \<Longrightarrow> sint t = int (unat t)" for t :: u32
proof -
  assume "unat t < 2147483648"
  then have u: "uint t < 2147483648" unfolding uint_nat by linarith
  have m: "uint t = sint t mod 4294967296" using uint_add_sint [of 0 t] by simp
  have "0 \<le> sint t"
  proof (rule ccontr)
    assume "\<not> 0 \<le> sint t"
    then have "(sint t + 4294967296) mod 4294967296 = sint t + 4294967296"
      using sint32_range [of t] by (intro mod_pos_pos_trivial) linarith+
    then have "uint t = sint t + 4294967296" using m by simp
    with u sint32_range [of t] show False by linarith
  qed
  then have "uint t = sint t" using m sint32_range [of t] by (simp add: mod_pos_pos_trivial)
  then show ?thesis by simp
qed

lemma sbrk_up:
  assumes "brk_ok (proctab s (sbrk_target s))" and "mem_base (proctab s (sbrk_target s)) \<noteq> 0"
    and "unat t < 2147483648"
  shows "sbrk_proc t s = (0xFFFFFFFF, s) \<or>
    (\<exists>s'. sbrk_proc t s = (brk (proctab s (sbrk_target s)), s') \<and> keeps_region s s' \<and>
       unat (brk (proctab s' (sbrk_target s'))) = unat (brk (proctab s (sbrk_target s))) + unat t)"
proof -
  let ?i = "sbrk_target s" let ?p = "proctab s ?i"
  let ?new = "int (unat (brk ?p)) + sint t" let ?s' = "upd_proc ?i (\<lambda>q. q\<lparr>brk := of_int ?new\<rparr>) s"
  have st: "sint t = int (unat t)" using assms(3) by (rule sint_small)
  note x = sbrk_exact [OF assms(1,2), of t, unfolded Let_def]
  show ?thesis
  proof (cases "int (unat (mem_base ?p)) \<le> ?new \<and> ?new + 4096 \<le> int (rhi (mem_base ?p, mem_size ?p))")
    case True
    then have e: "sbrk_proc t s = (brk ?p, ?s')" and ok: "brk_ok (proctab ?s' ?i)"
      using x unfolding if_P [OF True] by (blast, metis snd_conv)
    have "rhi (mem_base ?p, mem_size ?p) < 4294967296" using assms(1) by (simp add: brk_ok_def)
    then have lt: "unat (brk ?p) + unat t < 4294967296" using True st by linarith
    have "of_int ?new = brk ?p + t" by (simp add: st)
    then have u: "unat (brk (proctab ?s' ?i)) = unat (brk ?p) + unat t"
      using lt by (simp add: unat_word_ariths)
    have "keeps_region s ?s'" using ok u by (simp add: keeps_region_def word_le_nat_alt)
    with e u show ?thesis by (intro disjI2 exI [of _ ?s']) simp
  next
    case False
    then show ?thesis using x unfolding if_not_P [OF False] by blast
  qed
qed

lemma grow_ok:
  assumes ok: "uheap_ok held frees h" and t: "8 \<le> unat t" "unat t < 2147483648"
  shows "grow_heap t h = (0, h\<lparr>uproc := uproc (snd (grow_heap t h))\<rparr>) \<and> uheap_ok held frees (snd (grow_heap t h)) \<or>
    (\<exists>p h'. grow_heap t h = (p + 8, h') \<and> p + 8 \<noteq> 0 \<and> uheap_ok ((p, t) # held) frees h' \<and>
       (\<forall>q \<in> set held. \<forall>a. within q a \<longrightarrow> umem h' a = umem h a))"
proof -
  have b: "brk_ok (owner h)" "mem_base (owner h) \<noteq> 0" using ok by (simp_all add: uheap_ok_def)
  consider (full) "sbrk_proc t (uproc h) = (0xFFFFFFFF, uproc h)"
    | (up) s where "sbrk_proc t (uproc h) = (brk (owner h), s)" "keeps_region (uproc h) s"
        "unat (brk (proctab s (sbrk_target s))) = unat (brk (owner h)) + unat t"
    using sbrk_up [OF b t(2)] by blast
  then show ?thesis
  proof cases
    case full
    then show ?thesis using ok by (simp add: grow_heap_def)
  next
    case (up s)
    let ?p = "brk (owner h)"
    have ok1: "uheap_ok held frees (h\<lparr>uproc := s\<rparr>)" by (rule uheap_ok_kernel [OF ok up(2)])
    show ?thesis
    proof (cases "sint ?p < 0 \<or> ?p = 0xFFFFFFFF")
      case True
      then show ?thesis using ok1 by (simp add: grow_heap_def up(1))
    next
      case False
      let ?h = "h\<lparr>uproc := s, umem := set_size ?p t (umem h)\<rparr>"
      have g: "grow_heap t h = (?p + 8, ?h)" using False by (simp add: grow_heap_def up(1))
      have lt: "unat ?p + unat t < 4294967296" using up(3) u32_bound [of "brk (proctab s (sbrk_target s))"] by simp
      have nz: "?p + 8 \<noteq> 0"
        using unat_plus_small [of ?p 8] lt t(1) by (auto simp: word_unat_eq_iff)
      have sp: "spread (owner h) (held @ frees)" using ok by (simp add: uheap_ok_def)
      have new: "spread (owner ?h) [(?p, t)]"
        using b(1) up(2,3) t(1) by (simp add: spread_single rlo_def rhi_def keeps_region_def brk_ok_def word_le_nat_alt)
      have ap: "apart (?p, t) x" if "x \<in> set (held @ frees)" for x
        using sp that by (fastforce simp: spread_def apart_def rlo_def rhi_def)
      have one: "spread (owner ?h) [x]" if "x \<in> set (held @ frees)" for x
        using ok1 that by (auto simp: uheap_ok_def spread_def)
      have e: "hdr_eq (umem h) (umem ?h) (fst x)" if "x \<in> set (held @ frees)" for x
        using hdr_other(1) [OF spread_hdr_apart [OF new one [OF that] ap [OF that]]] by simp
      have "chain (umem ?h) (ufree ?h) frees 0"
        using ok e by (auto simp: uheap_ok_def intro!: chain_keep [of "umem h"])
      moreover have "blk_size (umem ?h) (fst x) = snd x" if "x \<in> set ((?p, t) # held)" for x
        using that e [of x] ok by (auto simp: uheap_ok_def hdr_eq_def hdr_fields)
      moreover have "spread (owner ?h) ((?p, t) # held @ frees)"
        using ok1 new ap by (auto simp: uheap_ok_def spread_Cons spread_single)
      ultimately have "uheap_ok ((?p, t) # held) frees ?h" using ok1 by (simp add: uheap_ok_def)
      moreover have "umem ?h a = umem h a" if "q \<in> set held" "within q a" for q a
        using within_header(1) [OF new one [of q] ap [of q] that(2)] that(1) by simp
      ultimately show ?thesis using g nz by blast
    qed
  qed
qed

section \<open>The calls\<close>

lemma malloc_size:
  assumes "n \<le> 0x7FFFFF00"
  shows "unat (align4 (n + 8)) < 2147483648" and "unat n + 8 \<le> unat (align4 (n + 8))"
proof -
  have n: "unat n \<le> 2147483392" using assms by (simp add: word_le_nat_alt)
  then have u: "unat (n + 8) = unat n + 8" by (simp add: unat_word_ariths)
  then have "n + 8 \<le> 0xFFFFFFFC" using n by (simp add: word_le_nat_alt)
  from unat_align4 [OF this] u n show "unat (align4 (n + 8)) < 2147483648" and "unat n + 8 \<le> unat (align4 (n + 8))"
    by linarith+
qed

text \<open>
  \<open>malloc\<close> returns; when it gives no block the heap is as before, with at most the break of the
  process higher, and otherwise the block given is one more block held, with room for the
  bytes asked for behind its header. The bytes of the blocks held stay.
\<close>

lemma malloc_ok:
  assumes ok: "uheap_ok held frees h" and n: "n \<le> 0x7FFFFF00"
  shows "\<exists>ptr h'. malloc n h = Some (ptr, h') \<and>
    (\<forall>q \<in> set held. \<forall>a. within q a \<longrightarrow> umem h' a = umem h a) \<and>
    (if ptr = 0 then uheap_ok held frees h'
     else \<exists>r frees'. ptr = fst r + 8 \<and> unat n + 8 \<le> unat (snd r) \<and> uheap_ok (r # held) frees' h')"
proof (cases "n = 0")
  case True
  with ok show ?thesis by (simp add: malloc_def)
next
  case False
  let ?t = "align4 (n + 8)" let ?t' = "if ?t < 256 then 256 else ?t"
  have ch: "chain (umem h) (ufree h) frees 0" using ok by (simp add: uheap_ok_def)
  from find_fit_chain [OF ch, of ?t 0] show ?thesis
  proof (elim disjE exE conjE)
    assume "find_fit ?t 0 (ufree h) h = Some None"
    then have m: "malloc n h = Some (grow_heap ?t' h)" using False by (simp add: malloc_def Let_def)
    have t: "8 \<le> unat ?t'" "unat ?t' < 2147483648" "unat n + 8 \<le> unat ?t'"
      using malloc_size [OF n] by (auto simp: word_less_nat_alt)
    from grow_ok [OF ok t(1,2)] show ?thesis
    proof (elim disjE exE conjE)
      assume g: "grow_heap ?t' h = (0, h\<lparr>uproc := uproc (snd (grow_heap ?t' h))\<rparr>)" and u: "uheap_ok held frees (snd (grow_heap ?t' h))"
      have "umem (snd (grow_heap ?t' h)) = umem h" by (subst g) simp
      moreover have "grow_heap ?t' h = (0, snd (grow_heap ?t' h))" using arg_cong [OF g, of fst] by (simp add: prod_eq_iff)
      ultimately show ?thesis using m u by (intro exI [of _ 0] exI [of _ "snd (grow_heap ?t' h)"]) simp
    next
      fix p h'
      assume g: "grow_heap ?t' h = (p + 8, h')" "p + 8 \<noteq> 0" "uheap_ok ((p, ?t') # held) frees h'"
        "\<forall>q \<in> set held. \<forall>a. within q a \<longrightarrow> umem h' a = umem h a"
      have "\<exists>r frees'. p + 8 = fst r + 8 \<and> unat n + 8 \<le> unat (snd r) \<and> uheap_ok (r # held) frees' h'"
        using g(3) t(3) by (intro exI [of _ "(p, ?t')"] exI [of _ frees]) simp
      then show ?thesis unfolding m g(1) using g(2,4) by (intro exI [of _ "p + 8"] exI [of _ h']) simp
    qed
  next
    fix xs r ys
    assume f: "frees = xs @ r # ys" and le: "?t \<le> snd r"
      and r: "find_fit ?t 0 (ufree h) h = Some (Some (last (0 # map fst xs), fst r))"
    let ?h = "unlink_block (last (0 # map fst xs)) (fst r) h"
    have m: "malloc n h = Some (fst r + 8, ?h)" using False r by (simp add: malloc_def Let_def)
    note u = unlink_ok [OF ok [unfolded f]]
    have s: "rhi r \<le> unat (brk (owner h))" "8 \<le> unat (snd r)"
      using ok unfolding f by (auto simp: uheap_ok_def spread_append spread_Cons)
    then have "fst r + 8 \<noteq> 0"
      using unat_plus_small [of "fst r" 8] u32_bound [of "brk (owner h)"] by (auto simp: rhi_def word_unat_eq_iff)
    moreover have "unat n + 8 \<le> unat (snd r)" using malloc_size(2) [OF n] le by (simp add: word_le_nat_alt)
    ultimately have "\<exists>r' frees'. fst r + 8 = fst r' + 8 \<and> unat n + 8 \<le> unat (snd r') \<and> uheap_ok (r' # held) frees' ?h"
      using u(1) by (intro exI [of _ r] exI [of _ "xs @ ys"]) simp
    with \<open>fst r + 8 \<noteq> 0\<close> u(2) show ?thesis unfolding m by (intro exI [of _ "fst r + 8"] exI [of _ ?h]) simp
  qed
qed

lemma free_ok:
  assumes ok: "uheap_ok (xs @ r # ys) frees h"
  shows "uheap_ok (xs @ ys) (r # frees) (free (fst r + 8) h)"
    and "q \<in> set (xs @ ys) \<Longrightarrow> within q a \<Longrightarrow> umem (free (fst r + 8) h) a = umem h a"
proof -
  have sp: "spread (owner h) (r # (xs @ ys) @ frees)" using ok by (simp add: uheap_ok_def spread_move [of _ "[]", simplified])
  have one: "spread (owner h) [x]" if "x \<in> set (r # (xs @ ys) @ frees)" for x
    using sp that by (auto simp: spread_def)
  have ap: "apart r x" if "x \<in> set ((xs @ ys) @ frees)" for x using sp that by (auto simp: spread_Cons)
  have r: "unat (fst r) + 8 \<le> 4294967296" "unat (fst r) + 8 < 4294967296" "fst r \<noteq> 0"
    using one [of r] ok u32_bound [of "brk (owner h)"] by (auto simp: spread_single uheap_ok_def rlo_def rhi_def unat_eq_0)
  then have "fst r + 8 \<noteq> 0" using unat_plus_small [of "fst r" 8] by (auto simp: word_unat_eq_iff)
  then have f: "free (fst r + 8) h = h\<lparr>umem := set_next (fst r) (ufree h) (umem h), ufree := fst r\<rparr>"
    by (simp add: free_def Let_def)
  have e: "hdr_eq (umem h) (set_next (fst r) (ufree h) (umem h)) (fst x)" if "x \<in> set ((xs @ ys) @ frees)" for x
    using hdr_other(2) [OF spread_hdr_apart [OF one one ap]] that by simp
  have "chain (set_next (fst r) (ufree h) (umem h)) (ufree h) frees 0"
    using ok e by (auto simp: uheap_ok_def intro!: chain_keep [of "umem h"])
  moreover have "spread (owner h) ((xs @ ys) @ r # frees)" using sp spread_move [of "owner h" xs ys r frees] by simp
  moreover have "blk_size (set_next (fst r) (ufree h) (umem h)) (fst x) = snd x" if "x \<in> set (xs @ ys)" for x
    using e [of x] that ok by (auto simp: uheap_ok_def hdr_eq_def)
  ultimately show "uheap_ok (xs @ ys) (r # frees) (free (fst r + 8) h)"
    using ok r unfolding f by (simp add: uheap_ok_def hdr_fields hdr_same)
  show "q \<in> set (xs @ ys) \<Longrightarrow> within q a \<Longrightarrow> umem (free (fst r + 8) h) a = umem h a"
    using within_header(2) [OF one [of r] one [of q] ap [of q]] unfolding f by auto
qed


section \<open>A program and its heap\<close>

text \<open>
  What a program does with its heap: blocks are asked for and given back in any order, the bytes
  of blocks held are written, and in between the kernel runs. The program keeps the list of its
  blocks with their headers.
\<close>

inductive program_heap :: "uheap \<Rightarrow> region list \<Rightarrow> bool" where
  start: "brk_ok (owner h) \<Longrightarrow> mem_base (owner h) \<noteq> 0 \<Longrightarrow> ufree h = 0 \<Longrightarrow> program_heap h []"
| get: "program_heap h held \<Longrightarrow> n \<le> 0x7FFFFF00 \<Longrightarrow> malloc n h = Some (ptr, h') \<Longrightarrow> ptr \<noteq> 0 \<Longrightarrow>
    program_heap h' ((ptr - 8, blk_size (umem h') (ptr - 8)) # held)"
| full: "program_heap h held \<Longrightarrow> n \<le> 0x7FFFFF00 \<Longrightarrow> malloc n h = Some (0, h') \<Longrightarrow> program_heap h' held"
| release: "program_heap h (xs @ r # ys) \<Longrightarrow> program_heap (free (fst r + 8) h) (xs @ ys)"
| put: "program_heap h held \<Longrightarrow> r \<in> set held \<Longrightarrow> within r a \<Longrightarrow> program_heap (h\<lparr>umem := (umem h)(a := v)\<rparr>) held"
| kernel: "program_heap h held \<Longrightarrow> keeps_region (uproc h) s \<Longrightarrow> program_heap (h\<lparr>uproc := s\<rparr>) held"

text \<open>Stores behind the header of one block leave the headers of all blocks as they are.\<close>

definition only_within :: "region \<Rightarrow> memory \<Rightarrow> memory \<Rightarrow> bool" where
  "only_within r m m' \<longleftrightarrow> (\<forall>a. \<not> within r a \<longrightarrow> m' a = m a)"

lemma only_within_upd: "within r a \<Longrightarrow> only_within r m (m(a := v))"
  by (simp add: only_within_def)

lemma put_header_eq:
  assumes "spread p [r]" and "spread p [x]" and "apart r x \<or> r = x" and "only_within r m m'"
  shows "hdr_eq m m' (fst x)"
proof -
  have b: "unat (fst x) + 8 \<le> 4294967296"
    using assms(2) u32_bound [of "brk p"] by (auto simp: spread_single rlo_def rhi_def)
  have n: "m' (fst x + of_nat k) = m (fst x + of_nat k)" if "k < 8" for k
  proof -
    have "unat (fst x + of_nat k) = unat (fst x) + k" using unat_plus_small [of "fst x" k] b that by simp
    then have "\<not> within r (fst x + of_nat k)"
      using assms(1-3) that by (auto simp: spread_single within_def apart_def rlo_def rhi_def)
    then show ?thesis using assms(4) by (simp add: only_within_def)
  qed
  show ?thesis
    using n [of 1] n [of 2] n [of 3] n [of 4] n [of 5] n [of 6] n [of 7] n [of 0]
    by (simp add: hdr_eq_def blk_size_def blk_next_def get32_def get16_def add.assoc)
qed

lemma put_ok:
  assumes ok: "uheap_ok held frees h" and r: "r \<in> set held" "only_within r (umem h) m'"
  shows "uheap_ok held frees (h\<lparr>umem := m'\<rparr>)"
proof -
  have sp: "spread (owner h) (held @ frees)" using ok by (simp add: uheap_ok_def)
  then have one: "spread (owner h) [x]" if "x \<in> set (held @ frees)" for x using that by (auto simp: spread_def)
  have ap: "apart r x \<or> r = x" if "x \<in> set (held @ frees)" for x
  proof -
    obtain xs ys where d: "held = xs @ r # ys" using split_list [OF r(1)] by blast
    have "spread (owner h) (r # xs @ ys @ frees)" using sp spread_move [of "owner h" "[]" xs r "ys @ frees"] unfolding d by simp
    then show ?thesis using that unfolding d by (auto simp: spread_Cons)
  qed
  have e: "hdr_eq (umem h) m' (fst x)" if "x \<in> set (held @ frees)" for x
    using put_header_eq [OF one [of r] one [OF that] ap [OF that] r(2)] r(1) by simp
  have "chain m' (ufree h) frees 0"
    using ok e by (auto simp: uheap_ok_def intro!: chain_keep [of "umem h"])
  moreover have "blk_size m' (fst x) = snd x" if "x \<in> set held" for x
    using e [of x] that ok by (auto simp: uheap_ok_def hdr_eq_def)
  ultimately show ?thesis using ok by (simp add: uheap_ok_def)
qed

lemma uheap_ok_head: "uheap_ok (r # held) frees h \<Longrightarrow> (fst r, blk_size (umem h) (fst r)) = r"
  by (simp add: uheap_ok_def prod_eq_iff)

lemma program_heap_ok: "program_heap h held \<Longrightarrow> \<exists>frees. uheap_ok held frees h"
proof (induction rule: program_heap.induct)
  case (start h)
  then have "uheap_ok [] [] h" by (simp add: uheap_ok_def spread_def)
  then show ?case by blast
next
  case (get h held n ptr h')
  then obtain frees where ok: "uheap_ok held frees h" by blast
  then obtain r frees' where "ptr = fst r + 8" "uheap_ok (r # held) frees' h'"
    using malloc_ok [OF ok get(2)] get(3,4) by auto
  then show ?case using uheap_ok_head [of r held frees' h'] by auto
next
  case (full h held n h')
  then obtain frees where ok: "uheap_ok held frees h" by blast
  then show ?case using malloc_ok [OF ok full(2)] full(3) by auto
next
  case (release h xs r ys)
  then show ?case using free_ok(1) by blast
next
  case (put h held r a v)
  then show ?case using put_ok only_within_upd by blast
next
  case (kernel h held s)
  then show ?case using uheap_ok_kernel by blast
qed

text \<open>
  C39. The blocks that a program holds never overlap and lie in its region below the break,
  whatever sizes up to 0x7FFFFF00 bytes it asks for, whatever it gives back and in whatever order.
  In each such state the next \<open>malloc\<close> of a size up to that bound returns; a block it gives has room
  for the bytes asked for and shares none with the blocks held, and no byte of those changes.
\<close>

theorem malloc_blocks_apart:
  assumes "program_heap h held" and "n \<le> 0x7FFFFF00"
  shows "sorted_wrt apart held \<and>
    (\<forall>r \<in> set held. unat (mem_base (owner h)) \<le> rlo r \<and> rhi r \<le> unat (brk (owner h))) \<and>
    (\<exists>ptr h'. malloc n h = Some (ptr, h') \<and>
       (\<forall>q \<in> set held. \<forall>a. within q a \<longrightarrow> umem h' a = umem h a) \<and>
       (ptr \<noteq> 0 \<longrightarrow> unat n + 8 \<le> unat (blk_size (umem h') (ptr - 8)) \<and>
          (\<forall>q \<in> set held. apart q (ptr - 8, blk_size (umem h') (ptr - 8)))))"
proof -
  obtain frees where ok: "uheap_ok held frees h" using program_heap_ok [OF assms(1)] by blast
  then have sp: "spread (owner h) held" by (simp add: uheap_ok_def spread_append)
  obtain ptr h' where m: "malloc n h = Some (ptr, h')" "\<forall>q \<in> set held. \<forall>a. within q a \<longrightarrow> umem h' a = umem h a"
    and p: "if ptr = 0 then uheap_ok held frees h'
      else \<exists>r frees'. ptr = fst r + 8 \<and> unat n + 8 \<le> unat (snd r) \<and> uheap_ok (r # held) frees' h'"
    using malloc_ok [OF ok assms(2)] by blast
  have "unat n + 8 \<le> unat (blk_size (umem h') (ptr - 8)) \<and> (\<forall>q \<in> set held. apart q (ptr - 8, blk_size (umem h') (ptr - 8)))"
    if nz: "ptr \<noteq> 0"
  proof -
    obtain r frees' where r: "ptr = fst r + 8" "unat n + 8 \<le> unat (snd r)" "uheap_ok (r # held) frees' h'" using p nz by auto
    have "(ptr - 8, blk_size (umem h') (ptr - 8)) = r" using uheap_ok_head [OF r(3)] r(1) by simp
    moreover have "\<forall>q \<in> set held. apart q r" using r(3) by (auto simp: uheap_ok_def spread_Cons apart_sym)
    ultimately show ?thesis using r(2) by auto
  qed
  then show ?thesis using sp m by (auto simp: spread_def)
qed

definition fresh_program :: uheap where
  "fresh_program = \<lparr>umem = (\<lambda>_. 0), ufree = 0,
     uproc = upd_proc 0 (\<lambda>q. q\<lparr>mem_base := 0x1000, mem_size := 0x4000, brk := 0x1800\<rparr>) boot_ptab\<rparr>"

lemma fresh_program_heap: "program_heap fresh_program []"
  by (rule program_heap.start) (simp_all add: fresh_program_def sbrk_target_def boot_ptab_def zero_proc_def brk_ok_def rhi_def)

definition one_block :: uheap where
  "one_block = fresh_program\<lparr>umem := set_size 0x1800 256 (\<lambda>_. 0),
     uproc := upd_proc 0 (\<lambda>q. q\<lparr>brk := 0x1900\<rparr>) (uproc fresh_program)\<rparr>"

lemma one_block_heap: "program_heap one_block [(0x1800, 256)]"
proof -
  have s: "sbrk_target (uproc fresh_program) = 0"
    by (simp add: fresh_program_def sbrk_target_def boot_ptab_def zero_proc_def)
  have "sbrk_proc 256 (uproc fresh_program) = (0x1800, upd_proc 0 (\<lambda>q. q\<lparr>brk := 0x1900\<rparr>) (uproc fresh_program))"
    unfolding sbrk_proc_def s by (simp add: fresh_program_def Let_def)
  then have "grow_heap 256 fresh_program = (0x1808, one_block)"
    by (simp add: grow_heap_def one_block_def fresh_program_def)
  then have m: "malloc 100 fresh_program = Some (0x1808, one_block)"
    by (simp add: malloc_def Let_def align4_def find_fit.simps fresh_program_def)
  have "blk_size (umem one_block) (0x1808 - 8) = 256" by (simp add: one_block_def hdr_fields)
  with program_heap.get [OF fresh_program_heap _ m] show ?thesis by simp
qed

theorem malloc_blocks_apart_witness:
  "\<exists>ptr h'. malloc 300 one_block = Some (ptr, h') \<and> (\<forall>a. within (0x1800, 256) a \<longrightarrow> umem h' a = 0) \<and>
     (ptr \<noteq> 0 \<longrightarrow> 308 \<le> unat (blk_size (umem h') (ptr - 8)) \<and> apart (0x1800, 256) (ptr - 8, blk_size (umem h') (ptr - 8)))"
proof -
  have z: "umem one_block a = 0" if "within (0x1800, 256) a" for a
    using that header_outside(1) [of a "0x1800"] by (simp add: one_block_def within_def rlo_def)
  from malloc_blocks_apart [OF one_block_heap, of 300] z show ?thesis by fastforce
qed


section \<open>Blocks that change their size\<close>

lemma memcpy_apart:
  "unat d + n \<le> 4294967296 \<Longrightarrow> unat s + n \<le> 4294967296 \<Longrightarrow> unat d + n \<le> unat s \<or> unat s + n \<le> unat d \<Longrightarrow>
     memcpy n m d s a = (if unat d \<le> unat a \<and> unat a < unat d + n then m (s + (a - d)) else m a)"
proof (induction n arbitrary: m d s)
  case (Suc n)
  show ?case
  proof (cases "n = 0")
    case True
    moreover have "unat d \<le> unat a \<and> unat a < unat d + 1 \<longleftrightarrow> a = d" by (auto simp: word_unat_eq_iff)
    ultimately show ?thesis by simp
  next
    case False
    then have u: "unat (d + 1) = unat d + 1" "unat (s + 1) = unat s + 1"
      using Suc.prems unat_plus_small [of d 1] unat_plus_small [of s 1] by simp_all
    have ih: "memcpy n (m(d := m s)) (d + 1) (s + 1) a =
        (if unat (d + 1) \<le> unat a \<and> unat a < unat (d + 1) + n then (m(d := m s)) (s + 1 + (a - (d + 1))) else (m(d := m s)) a)"
      by (rule Suc.IH) (use Suc.prems u in linarith)+
    have e: "s + 1 + (a - (d + 1)) = s + (a - d)" by simp
    have "s + (a - d) \<noteq> d" if "unat (d + 1) \<le> unat a" "unat a < unat (d + 1) + n"
    proof -
      have "unat (a - d) = unat a - unat d" using that u by (intro unat_sub) (simp add: word_le_nat_alt)
      then have "unat (s + (a - d)) = unat s + (unat a - unat d)"
        using Suc.prems that u unat_plus_small [of s "unat (a - d)"] by simp
      then have "unat (s + (a - d)) \<noteq> unat d" using Suc.prems(3) that u by arith
      then show ?thesis by metis
    qed
    moreover have "unat a < unat d \<or> unat (d + 1) \<le> unat a" if "a \<noteq> d"
    proof -
      have "unat a \<noteq> unat d" using that by (simp add: word_unat_eq_iff)
      then show ?thesis using u by linarith
    qed
    ultimately show ?thesis unfolding memcpy.simps ih e using u by (cases "a = d") auto
  qed
qed auto

text \<open>
  \<open>realloc\<close> of a block held: the block that holds the bytes afterwards has room for the size asked
  for, and begins with the bytes the old one held; when there is no memory the old block stays.
\<close>

lemma realloc_ok:
  assumes ok: "uheap_ok (xs @ r # ys) frees h" and n: "n \<noteq> 0" "n \<le> 0x7FFFFF00"
  shows "\<exists>ptr h'. realloc (fst r + 8) n h = Some (ptr, h') \<and>
    (if ptr = 0 then uheap_ok (xs @ r # ys) frees h'
     else \<exists>r' frees'. ptr = fst r' + 8 \<and> unat n + 8 \<le> unat (snd r') \<and> uheap_ok (r' # xs @ ys) frees' h' \<and>
       (\<forall>i. i + 8 < unat (snd r) \<longrightarrow> umem h' (ptr + of_nat i) = umem h (fst r + 8 + of_nat i)))"
proof -
  have r: "rhi r \<le> unat (brk (owner h))" "8 \<le> unat (snd r)" "blk_size (umem h) (fst r) = snd r"
    using ok by (auto simp: uheap_ok_def spread_append spread_Cons)
  then have b: "rhi r < 4294967296" using u32_bound [of "brk (owner h)"] by linarith
  then have p8: "unat (fst r + 8) = unat (fst r) + 8" using unat_plus_small [of "fst r" 8] r(2) by (simp add: rhi_def)
  then have nz: "fst r + 8 \<noteq> 0" by (auto simp: word_unat_eq_iff)
  have os: "unat (snd r - 8) = unat (snd r) - 8" using r(2) by (subst unat_sub) (simp_all add: word_le_nat_alt)
  show ?thesis
  proof (cases "snd r - 8 \<ge> n")
    case True
    then have e: "realloc (fst r + 8) n h = Some (fst r + 8, h)" using nz n(1) r(3) by (simp add: realloc_def)
    have "uheap_ok (r # xs @ ys) frees h"
      using ok spread_move [of "owner h" "[]" xs r "ys @ frees"] by (auto simp: uheap_ok_def)
    moreover have "unat n + 8 \<le> unat (snd r)" using True os r(2) by (simp add: word_le_nat_alt)
    ultimately have "\<exists>r' frees'. fst r + 8 = fst r' + 8 \<and> unat n + 8 \<le> unat (snd r') \<and> uheap_ok (r' # xs @ ys) frees' h"
      by (intro exI [of _ r] exI [of _ frees]) simp
    then show ?thesis unfolding e using nz by (intro exI [of _ "fst r + 8"] exI [of _ h]) auto
  next
    case False
    let ?k = "unat (snd r - 8)"
    have e: "realloc (fst r + 8) n h = map_option (\<lambda>(newp, h1).
        (newp, if newp \<noteq> 0 then free (fst r + 8) (h1\<lparr>umem := memcpy ?k (umem h1) newp (fst r + 8)\<rparr>) else h1)) (malloc n h)"
      using nz n(1) r(3) False by (simp add: realloc_def)
    obtain ptr h1 where m: "malloc n h = Some (ptr, h1)" and keep: "\<forall>q \<in> set (xs @ r # ys). \<forall>a. within q a \<longrightarrow> umem h1 a = umem h a"
      and res: "if ptr = 0 then uheap_ok (xs @ r # ys) frees h1
        else \<exists>r' frees'. ptr = fst r' + 8 \<and> unat n + 8 \<le> unat (snd r') \<and> uheap_ok (r' # xs @ r # ys) frees' h1"
      using malloc_ok [OF ok n(2)] by blast
    show ?thesis
    proof (cases "ptr = 0")
      case True
      with res m show ?thesis unfolding e by simp
    next
      case False
      then obtain q frees' where q: "ptr = fst q + 8" "unat n + 8 \<le> unat (snd q)" "uheap_ok (q # xs @ r # ys) frees' h1"
        using res by auto
      let ?m = "memcpy ?k (umem h1) ptr (fst r + 8)" let ?h = "free (fst r + 8) (h1\<lparr>umem := ?m\<rparr>)"
      have qb: "rhi q \<le> unat (brk (owner h1))" "apart q r"
        using q(3) by (auto simp: uheap_ok_def spread_Cons)
      have qlt: "rhi q < 4294967296" using qb(1) u32_bound [of "brk (owner h1)"] by linarith
      then have q8: "unat ptr = unat (fst q) + 8" using unat_plus_small [of "fst q" 8] q(1,2) by (simp add: rhi_def)
      have kn: "?k < unat n" using \<open>\<not> snd r - 8 \<ge> n\<close> by (simp add: word_less_nat_alt not_le)
      have cp: "?m a = (if unat ptr \<le> unat a \<and> unat a < unat ptr + ?k then umem h1 (fst r + 8 + (a - ptr)) else umem h1 a)" for a
        using qb(2) q(2) qlt b p8 q8 os r(2) kn
        by (intro memcpy_apart) (auto simp: apart_def rlo_def rhi_def)
      have ow: "only_within q (umem h1) ?m"
        unfolding only_within_def cp using q8 q(2) kn by (auto simp: within_def rlo_def rhi_def)
      have ok2: "uheap_ok (q # xs @ r # ys) frees' (h1\<lparr>umem := ?m\<rparr>)" by (rule put_ok [OF q(3) _ ow]) simp
      note f = free_ok [of "q # xs" r ys, simplified, OF ok2]
      have bytes: "umem ?h (ptr + of_nat i) = umem h (fst r + 8 + of_nat i)" if i: "i + 8 < unat (snd r)" for i
      proof -
        have u: "unat (ptr + of_nat i) = unat ptr + i" "unat (fst r + 8 + of_nat i) = unat (fst r) + 8 + i"
          using unat_plus_small [of ptr i] unat_plus_small [of "fst r + 8" i] q8 q(2) qlt kn os i b p8
          by (simp_all add: rhi_def)
        have "within q (ptr + of_nat i)" using u q8 q(2) kn os i by (simp add: within_def rlo_def rhi_def)
        then have "umem ?h (ptr + of_nat i) = ?m (ptr + of_nat i)" using f(2) [of q] by simp
        also have "\<dots> = umem h1 (fst r + 8 + of_nat i)"
        proof -
          have "i < ?k" using i unfolding os by linarith
          then have "unat ptr \<le> unat (ptr + of_nat i) \<and> unat (ptr + of_nat i) < unat ptr + ?k" using u(1) by linarith
          then show ?thesis unfolding cp by simp
        qed
        also have "\<dots> = umem h (fst r + 8 + of_nat i)"
          using keep u i by (simp add: within_def rlo_def rhi_def)
        finally show ?thesis .
      qed
      have "\<exists>r' frees'. ptr = fst r' + 8 \<and> unat n + 8 \<le> unat (snd r') \<and> uheap_ok (r' # xs @ ys) frees' ?h \<and>
          (\<forall>i. i + 8 < unat (snd r) \<longrightarrow> umem ?h (ptr + of_nat i) = umem h (fst r + 8 + of_nat i))"
        using q(1,2) f(1) bytes by (intro exI [of _ q] exI [of _ "r # frees'"]) simp
      then show ?thesis unfolding e m using False by simp
    qed
  qed
qed

section \<open>Sizes near the end of the range\<close>

text \<open>
  The rounded sum of size and header wraps: with 0xFFFFFFF8 it is zero, and the caller is given a
  block of 256 bytes; with 0xFFFFFE00 it is negative as an increment, so the break moves down
  below blocks that are in use. \<open>calloc\<close> does not check its product either.
\<close>

lemma malloc_wraps_to_small:
  "\<exists>h. malloc 0xFFFFFFF8 fresh_program = Some (0x1808, h) \<and> blk_size (umem h) 0x1800 = 256"
proof -
  have "sbrk_target (uproc fresh_program) = 0"
    by (simp add: fresh_program_def sbrk_target_def boot_ptab_def zero_proc_def)
  then have "sbrk_proc 256 (uproc fresh_program) = (0x1800, upd_proc 0 (\<lambda>q. q\<lparr>brk := 0x1900\<rparr>) (uproc fresh_program))"
    unfolding sbrk_proc_def by (simp add: fresh_program_def Let_def)
  then have "grow_heap 256 fresh_program = (0x1808, one_block)"
    by (simp add: grow_heap_def one_block_def fresh_program_def)
  then have "malloc 0xFFFFFFF8 fresh_program = Some (0x1808, one_block)"
    by (simp add: malloc_def Let_def align4_def find_fit.simps fresh_program_def)
  then show ?thesis by (simp add: one_block_def hdr_fields)
qed

lemma malloc_lowers_break:
  "\<exists>h. malloc 0xFFFFFF00 one_block = Some (0x1908, h) \<and> brk (owner h) = 0x1808"
proof -
  have "sbrk_target (uproc one_block) = 0" "(0xFFFFFF00 + 8 :: u32) = 0xFFFFFF08" "align4 0xFFFFFF08 = 0xFFFFFF08"
    by (simp_all add: one_block_def fresh_program_def sbrk_target_def boot_ptab_def zero_proc_def align4_def)
  then show ?thesis
    by (simp add: malloc_def Let_def find_fit.simps grow_heap_def sbrk_proc_def one_block_def fresh_program_def
        sbrk_target_def boot_ptab_def zero_proc_def)
qed

lemma calloc_product_wraps: "calloc 0x10000 0x10001 h = calloc 1 0x10000 h"
proof -
  have "(0x10000 * 0x10001 :: u32) = 1 * 0x10000" by simp
  then show ?thesis by (simp only: calloc_def)
qed

end
