(* ===== verification/Environment.thy ===== *)
theory Environment
  imports KString
begin

text \<open>
  The environment of a program and the random numbers of libc/stdlib.c. \<open>env_array\<close> up to
  \<open>env_count\<close> is a list, its entries are the bytes of the strings NAME=VALUE; whether the call of
  \<open>malloc\<close> for a new entry gives memory is an argument. With names that hold no equals sign the
  environment is a map from names to values.
\<close>

abbreviation (input) ENV_MAX :: nat where "ENV_MAX \<equiv> 32"

section \<open>The operations\<close>

type_synonym environment = "bytes list"

definition env_match :: "bytes \<Rightarrow> bytes \<Rightarrow> bool" where
  "env_match name e \<longleftrightarrow> lstrncmp (length name) 0 e name = 0 \<and> char_at e (length name) = 61"

definition env_find :: "bytes \<Rightarrow> environment \<Rightarrow> nat option" where
  "env_find name env = first_idx (\<lambda>i. env_match name (env ! i)) (length env)"

definition getenv :: "bytes \<Rightarrow> environment \<Rightarrow> bytes option" where
  "getenv name env = map_option (\<lambda>i. drop (length name + 1) (env ! i)) (env_find name env)"

definition setenv :: "bool \<Rightarrow> bytes option \<Rightarrow> bytes \<Rightarrow> bool \<Rightarrow> environment \<Rightarrow> int \<times> environment" where
  "setenv memory_left name_ptr val overwrite env =
     (case name_ptr of
        None \<Rightarrow> (- 1, env)
      | Some name \<Rightarrow>
          if name = [] then (- 1, env)
          else if env_find name env \<noteq> None \<and> \<not> overwrite then (0, env)
          else if \<not> memory_left then (- 1, env)
          else let entry = name @ [61] @ val
               in case env_find name env of
                    Some i \<Rightarrow> (0, env[i := entry])
                  | None \<Rightarrow> if length env \<ge> ENV_MAX then (- 1, env) else (0, env @ [entry]))"

definition unsetenv :: "bytes \<Rightarrow> environment \<Rightarrow> int \<times> environment" where
  "unsetenv name env =
     (case env_find name env of None \<Rightarrow> (0, env) | Some i \<Rightarrow> (0, take i env @ drop (Suc i) env))"

text \<open>The generator of random numbers: the new seed and the number.\<close>

definition rand :: "u32 \<Rightarrow> u32 \<times> u32" where
  "rand seed = (let s = seed * 1103515245 + 12345 in (s, drop_bit 16 s AND 0x7FFF))"

section \<open>The environment as a map\<close>

definition entry_name :: "bytes \<Rightarrow> bytes" where "entry_name e = takeWhile (\<lambda>b. b \<noteq> 61) e"
definition entry_value :: "bytes \<Rightarrow> bytes" where "entry_value e = tl (dropWhile (\<lambda>b. b \<noteq> 61) e)"

definition env_map :: "environment \<Rightarrow> bytes \<rightharpoonup> bytes" where
  "env_map env = map_of (map (\<lambda>e. (entry_name e, entry_value e)) env)"

definition env_ok :: "environment \<Rightarrow> bool" where
  "env_ok env \<longleftrightarrow> distinct (map entry_name env) \<and> (\<forall>e \<in> set env. 61 \<in> set e \<and> 0 \<notin> set e) \<and> length env \<le> ENV_MAX"

definition name_ok :: "bytes \<Rightarrow> bool" where
  "name_ok name \<longleftrightarrow> name \<noteq> [] \<and> 61 \<notin> set name \<and> 0 \<notin> set name"

lemma env_prefix_iff:
  assumes "0 \<notin> set name"
  shows "lstrncmp (length name) 0 e name = 0 \<longleftrightarrow> (\<forall>k < length name. char_at e k = name ! k)"
  using lstrncmp_0_iff [OF assms, of 0 "length name" e] by (simp add: char_at_def)

lemma char_at_prefix:
  assumes "0 \<notin> set xs"
  shows "(\<forall>k < length xs. char_at e k = xs ! k) \<longleftrightarrow> take (length xs) e = xs"
proof
  assume c: "\<forall>k < length xs. char_at e k = xs ! k"
  have nz: "xs ! k \<noteq> 0" if "k < length xs" for k using assms that by (metis nth_mem)
  have l: "length xs \<le> length e"
  proof (rule ccontr)
    assume "\<not> length xs \<le> length e"
    then have "length e < length xs" by simp
    with c nz [of "length e"] show False by (auto simp: char_at_def)
  qed
  then show "take (length xs) e = xs" using c by (intro nth_equalityI) (auto simp: char_at_def)
next
  assume t: "take (length xs) e = xs"
  then have "length xs \<le> length e" by (metis length_take min_def nat_le_linear)
  then show "\<forall>k < length xs. char_at e k = xs ! k" using t by (auto simp: char_at_def) (metis nth_take)
qed

lemma entry_parts:
  "61 \<notin> set name \<Longrightarrow> entry_name (name @ 61 # v) = name \<and> entry_value (name @ 61 # v) = v"
  unfolding entry_name_def entry_value_def by (induction name) auto

lemma env_match_iff:
  assumes "name_ok name" and "61 \<in> set e" and "0 \<notin> set e"
  shows "env_match name e \<longleftrightarrow> entry_name e = name"
proof
  assume m: "env_match name e"
  then have t: "take (length name) e = name" and c: "char_at e (length name) = 61"
    using env_prefix_iff [of name e] char_at_prefix [of name e] assms by (simp_all add: env_match_def name_ok_def)
  have l: "length name < length e" using c by (simp add: char_at_def split: if_splits)
  have "e = name @ 61 # drop (Suc (length name)) e"
    using t c l id_take_nth_drop [OF l] by (simp add: char_at_def)
  then have "entry_name e = entry_name (name @ 61 # drop (Suc (length name)) e)" by simp
  also have "\<dots> = name" using assms(1) entry_parts by (simp add: name_ok_def)
  finally show "entry_name e = name" .
next
  assume n: "entry_name e = name"
  have e: "e = name @ dropWhile (\<lambda>b. b \<noteq> 61) e" unfolding n [symmetric] entry_name_def by simp
  have ne: "dropWhile (\<lambda>b. b \<noteq> 61) e \<noteq> []" using assms(2) by simp
  then have h: "hd (dropWhile (\<lambda>b. b \<noteq> 61) e) = 61" using hd_dropWhile by blast
  have "take (length name) e = name" by (subst e) simp
  moreover have "char_at e (length name) = 61"
    using ne h by (subst e) (simp add: char_at_def nth_append hd_conv_nth)
  ultimately show "env_match name e"
    using env_prefix_iff [of name e] char_at_prefix [of name e] assms by (simp add: env_match_def name_ok_def)
qed

text \<open>Where the search finds a name.\<close>

lemma env_find_Some:
  assumes "env_ok env" and "name_ok name" and "env_find name env = Some i"
  shows "i < length env" and "entry_name (env ! i) = name"
  using assms first_idx_SomeD [OF assms(3) [unfolded env_find_def]] env_match_iff [OF assms(2), of "env ! i"]
  by (auto simp: env_ok_def)

lemma env_find_None:
  assumes "env_ok env" and "name_ok name"
  shows "env_find name env = None \<longleftrightarrow> name \<notin> entry_name ` set env"
proof -
  have "env_match name e \<longleftrightarrow> entry_name e = name" if "e \<in> set env" for e
    using env_match_iff [OF assms(2), of e] assms(1) that by (simp add: env_ok_def)
  moreover have "env_find name env = None \<longleftrightarrow> (\<forall>e \<in> set env. \<not> env_match name e)"
    by (simp add: env_find_def first_idx_None_iff all_set_conv_all_nth)
  ultimately show ?thesis by (simp add: image_iff) metis
qed

lemma env_map_nth:
  assumes "env_ok env" and "i < length env"
  shows "env_map env (entry_name (env ! i)) = Some (entry_value (env ! i))"
  using assms unfolding env_map_def env_ok_def by (intro map_of_is_SomeI) (auto simp: comp_def)

lemma env_map_None: "env_map env name = None \<longleftrightarrow> name \<notin> entry_name ` set env"
  by (auto simp: env_map_def map_of_eq_None_iff image_iff)

lemma getenv_map:
  assumes "env_ok env" and "name_ok name"
  shows "getenv name env = env_map env name"
proof (cases "env_find name env")
  case None
  then show ?thesis using env_find_None [OF assms] env_map_None [of env name] by (simp add: getenv_def)
next
  case (Some i)
  note i = env_find_Some [OF assms Some]
  have "drop (length name + 1) (env ! i) = entry_value (env ! i)"
  proof -
    have "drop (length (takeWhile (\<lambda>b. b \<noteq> 61) e)) e = dropWhile (\<lambda>b. b \<noteq> 61) e" for e :: bytes
      by (induction e) auto
    from this [of "env ! i"] have "drop (length name) (env ! i) = dropWhile (\<lambda>b. b \<noteq> 61) (env ! i)"
      using i(2) by (simp add: entry_name_def)
    moreover have "drop (length name + 1) (env ! i) = tl (drop (length name) (env ! i))" by (simp add: drop_Suc tl_drop)
    ultimately show ?thesis by (simp add: entry_value_def)
  qed
  then show ?thesis using env_map_nth [OF assms(1) i(1)] i(2) Some by (simp add: getenv_def)
qed


lemma env_map_update:
  assumes "env_ok env" and "name_ok name" and "env_find name env = Some i"
  shows "env_map (env[i := name @ 61 # v]) = (env_map env)(name \<mapsto> v)"
proof -
  note i = env_find_Some [OF assms]
  have s: "env = take i env @ env ! i # drop (Suc i) env" using i(1) by (rule id_take_nth_drop)
  have u: "env[i := name @ 61 # v] = take i env @ (name @ 61 # v) # drop (Suc i) env"
    using i(1) by (rule upd_conv_take_nth_drop)
  have "distinct (map entry_name (take i env @ env ! i # drop (Suc i) env))"
    using assms(1) s by (simp add: env_ok_def)
  then have n: "name \<notin> entry_name ` set (take i env)" using i(2) by auto
  then have t: "map_of (map (\<lambda>e. (entry_name e, entry_value e)) (take i env)) name = None"
    by (auto simp: map_of_eq_None_iff image_iff)
  have p: "entry_name (name @ 61 # v) = name" "entry_value (name @ 61 # v) = v"
    using entry_parts [of name v] assms(2) by (simp_all add: name_ok_def)
  have "env_map (take i env @ e # drop (Suc i) env) x = (if x = entry_name e \<and> map_of (map (\<lambda>e. (entry_name e, entry_value e)) (take i env)) x = None
      then Some (entry_value e) else env_map (take i env @ drop (Suc i) env) x)" for e x
    by (auto simp: env_map_def map_add_def split: option.splits)
  then show ?thesis unfolding u using i(2) p t by (subst s) (auto simp: fun_eq_iff)
qed

lemma env_map_snoc:
  assumes "name_ok name" and "name \<notin> entry_name ` set env"
  shows "env_map (env @ [name @ 61 # v]) = (env_map env)(name \<mapsto> v)"
proof -
  have p: "entry_name (name @ 61 # v) = name" "entry_value (name @ 61 # v) = v"
    using entry_parts [of name v] assms(1) by (simp_all add: name_ok_def)
  have "env_map env name = None" using assms(2) by (simp add: env_map_None)
  then show ?thesis using p by (auto simp: env_map_def fun_eq_iff map_add_def split: option.splits)
qed

lemma env_map_delete:
  assumes "env_ok env" and "name_ok name" and "env_find name env = Some i"
  shows "env_map (take i env @ drop (Suc i) env) = (env_map env)(name := None)"
proof -
  note i = env_find_Some [OF assms]
  have s: "env = take i env @ env ! i # drop (Suc i) env" using i(1) by (rule id_take_nth_drop)
  have "distinct (map entry_name (take i env @ env ! i # drop (Suc i) env))"
    using assms(1) s by (simp add: env_ok_def)
  then have n: "name \<notin> entry_name ` set (take i env @ drop (Suc i) env)" using i(2) by auto
  then have z: "env_map (take i env @ drop (Suc i) env) name = None" by (simp only: env_map_None) simp
  have "env_map (take i env @ e # drop (Suc i) env) x = env_map (take i env @ drop (Suc i) env) x"
    if "x \<noteq> entry_name e" for e x
    using that by (auto simp: env_map_def map_add_def split: option.splits)
  from this [of _ "env ! i", folded s] z i(2) show ?thesis by (auto simp: fun_eq_iff)
qed

section \<open>The calls on the map\<close>

text \<open>
  \<open>setenv\<close> with a value for a name that is new, or to be overwritten, changes the map at this name,
  unless there is no memory or no room for a new name, which it reports; without overwriting a
  name that is there stays. \<open>unsetenv\<close> takes the name out. The environment stays well formed.
\<close>

lemma setenv_refines:
  assumes ok: "env_ok env" and n: "name_ok name" and v: "0 \<notin> set v"
    and call: "setenv room (Some name) v ow env = (r, env')"
  shows "env_ok env' \<and> (r = 0 \<or> r = - 1) \<and>
      env_map env' = (if r = 0 \<and> (env_map env name = None \<or> ow) then (env_map env)(name \<mapsto> v) else env_map env) \<and>
      (r = - 1 \<longleftrightarrow> (env_map env name = None \<or> ow) \<and> (\<not> room \<or> env_map env name = None \<and> length env = ENV_MAX))"
proof -
  have ne: "name \<noteq> []" using n by (simp add: name_ok_def)
  have p: "entry_name (name @ 61 # v) = name" "61 \<in> set (name @ 61 # v)" "0 \<notin> set (name @ 61 # v)"
    using entry_parts [of name v] n v by (simp_all add: name_ok_def)
  have len: "length env \<le> ENV_MAX" using ok by (simp add: env_ok_def)
  show ?thesis
  proof (cases "env_find name env")
    case None
    then have f: "name \<notin> entry_name ` set env" using env_find_None [OF ok n] by simp
    then have m: "env_map env name = None" by (simp add: env_map_None)
    show ?thesis
    proof (cases "room \<and> length env < ENV_MAX")
      case True
      then have "r = 0" "env' = env @ [name @ 61 # v]" using call None ne by (auto simp: setenv_def)
      moreover have "env_ok (env @ [name @ 61 # v])" using ok f p True by (simp add: env_ok_def)
      ultimately show ?thesis using env_map_snoc [OF n f] m True by simp
    next
      case False
      then have "r = - 1" "env' = env" using call None ne by (auto simp: setenv_def split: if_splits)
      then show ?thesis using ok m False len by auto
    qed
  next
    case (Some i)
    note i = env_find_Some [OF ok n Some]
    have m: "env_map env name \<noteq> None" using env_map_nth [OF ok i(1)] i(2) by simp
    show ?thesis
    proof (cases "ow \<and> room")
      case True
      then have e: "r = 0" "env' = env[i := name @ 61 # v]" using call Some ne by (auto simp: setenv_def)
      have "map entry_name (env[i := name @ 61 # v]) = map entry_name env"
        using i by (simp add: map_update p(1) list_update_same_conv)
      moreover have "61 \<in> set x \<and> 0 \<notin> set x" if "x \<in> set (env[i := name @ 61 # v])" for x
        using set_update_subset_insert [of env i "name @ 61 # v"] that ok p by (auto simp: env_ok_def)
      ultimately have "env_ok (env[i := name @ 61 # v])" using ok by (simp add: env_ok_def)
      then show ?thesis using e env_map_update [OF ok n Some] True m by simp
    next
      case False
      then have "env' = env" "r = (if ow then - 1 else 0)" using call Some ne by (auto simp: setenv_def split: if_splits)
      then show ?thesis using ok m False by auto
    qed
  qed
qed

lemma unsetenv_refines:
  assumes ok: "env_ok env" and n: "name_ok name"
  shows "fst (unsetenv name env) = 0" and "env_ok (snd (unsetenv name env))"
    and "env_map (snd (unsetenv name env)) = (env_map env)(name := None)"
proof -
  show "fst (unsetenv name env) = 0" by (simp add: unsetenv_def split: option.splits)
  show "env_map (snd (unsetenv name env)) = (env_map env)(name := None)"
  proof (cases "env_find name env")
    case None
    then have "env_map env name = None" using env_find_None [OF ok n] by (simp add: env_map_None)
    with None show ?thesis by (auto simp: unsetenv_def fun_eq_iff)
  next
    case (Some i)
    then show ?thesis using env_map_delete [OF ok n Some] by (simp add: unsetenv_def)
  qed
  show "env_ok (snd (unsetenv name env))"
  proof (cases "env_find name env")
    case None
    with ok show ?thesis by (simp add: unsetenv_def)
  next
    case (Some i)
    have i: "i < length env" by (rule env_find_Some(1) [OF ok n Some])
    have "map entry_name (take i env @ drop (Suc i) env) = take i (map entry_name env) @ drop (Suc i) (map entry_name env)"
      by (simp add: take_map drop_map)
    moreover have "distinct (take i (map entry_name env) @ drop (Suc i) (map entry_name env))"
      using ok by (auto simp: env_ok_def distinct_take distinct_drop intro: set_take_disj_set_drop_if_distinct [THEN subst])
        (meson Suc_n_not_le_n disjoint_iff nat_le_linear set_take_disj_set_drop_if_distinct)
    ultimately show ?thesis using ok Some i by (auto simp: unsetenv_def env_ok_def dest: in_set_takeD in_set_dropD)
  qed
qed

text \<open>An equals sign in the name is not refused, as it should be: the name then counts to the first of them.\<close>

lemma equals_in_name:
  "getenv [65] (snd (setenv True (Some [65, 61, 66]) [67] True [])) = Some [66, 61, 67]"
  by code_simp

text \<open>Random numbers are 0 to 32767.\<close>

lemma rand_range: "unat (snd (rand seed)) \<le> 32767"
proof -
  have "drop_bit 16 x AND 0x7FFF \<le> (0x7FFF :: u32)" for x by (rule word_and_le1)
  then show ?thesis by (simp add: rand_def Let_def word_le_nat_alt)
qed

end
