(* ===== verification/Vdp.thy ===== *)
theory Vdp
  imports Console
begin

text \<open>
  The graphics device of the Mega Drive, pal/megadrive/dev_vdp.c, with the wrappers of libc/gfx.c.
  What the driver does to the video processor is the sequence of its writes to the two ports: a
  longword on the control port selects a memory and an address, each word on the data port goes
  there and the address moves on by two, the increment that pal/megadrive/vdp.S loads into register
  15. The name table is 64 entries wide; only 40 by 28 of them are on the screen.
\<close>

section \<open>The ports\<close>

datatype port = Control u32 | Data u16 | Data32 u32 | Reinit

abbreviation (input) VDP_VRAM_WRITE :: u32 where "VDP_VRAM_WRITE \<equiv> 0x40000000"
abbreviation (input) VDP_CRAM_WRITE :: u32 where "VDP_CRAM_WRITE \<equiv> 0xC0000000"
abbreviation (input) VDP_VSRAM_WRITE :: u32 where "VDP_VSRAM_WRITE \<equiv> 0x40000010"
abbreviation (input) VRAM_PLANE_A :: u16 where "VRAM_PLANE_A \<equiv> 0xC000"
abbreviation (input) VRAM_SPRITES :: u16 where "VRAM_SPRITES \<equiv> 0xF000"
abbreviation (input) VRAM_USER_TILES :: u16 where "VRAM_USER_TILES \<equiv> 0x1000"
abbreviation (input) USER_TILE_OFFSET :: u16 where "USER_TILE_OFFSET \<equiv> 128"
abbreviation (input) EBUSY :: int where "EBUSY \<equiv> 16"

definition vdp_write_cmd :: "u32 \<Rightarrow> u16 \<Rightarrow> u32" where
  "vdp_write_cmd base off =
     (let addr = ucast off in base OR push_bit 16 (addr AND 0x3FFF) OR (drop_bit 14 addr AND 3))"

section \<open>The arguments in memory\<close>

record tiles_arg =
  t_start_id :: u16
  t_count :: u16
  t_data :: u32

record map_arg =
  m_x :: u16
  m_y :: u16
  m_w :: u16
  m_h :: u16
  m_tiles :: u32

record pal_arg =
  p_palette :: u16
  p_index :: u16
  p_count :: u16
  p_colors :: u32

record sprite_arg =
  s_id :: u16
  s_x :: u16
  s_y :: u16
  s_tile :: u16
  s_size :: u16
  s_link :: u16

record scroll_arg =
  c_plane :: u16
  c_x :: u16
  c_y :: u16

definition get_tiles_arg :: "memory \<Rightarrow> u32 \<Rightarrow> tiles_arg" where
  "get_tiles_arg m p = \<lparr>t_start_id = get16 m p, t_count = get16 m (p + 2), t_data = get32 m (p + 4)\<rparr>"

definition get_map_arg :: "memory \<Rightarrow> u32 \<Rightarrow> map_arg" where
  "get_map_arg m p = \<lparr>m_x = get16 m p, m_y = get16 m (p + 2), m_w = get16 m (p + 4), m_h = get16 m (p + 6), m_tiles = get32 m (p + 8)\<rparr>"

definition get_pal_arg :: "memory \<Rightarrow> u32 \<Rightarrow> pal_arg" where
  "get_pal_arg m p = \<lparr>p_palette = get16 m p, p_index = get16 m (p + 2), p_count = get16 m (p + 4), p_colors = get32 m (p + 8)\<rparr>"

definition get_sprite_arg :: "memory \<Rightarrow> u32 \<Rightarrow> sprite_arg" where
  "get_sprite_arg m p = \<lparr>s_id = get16 m p, s_x = get16 m (p + 2), s_y = get16 m (p + 4), s_tile = get16 m (p + 6), s_size = get16 m (p + 8), s_link = get16 m (p + 10)\<rparr>"

definition get_scroll_arg :: "memory \<Rightarrow> u32 \<Rightarrow> scroll_arg" where
  "get_scroll_arg m p = \<lparr>c_plane = get16 m p, c_x = get16 m (p + 2), c_y = get16 m (p + 4)\<rparr>"

section \<open>The device operations\<close>

text \<open>The owner, the console that is suppressed, and the writes to the ports so far.\<close>

record vdp_dev =
  vdp_owner :: u8
  vdp_con :: con
  port_log :: "port list"

abbreviation out_ports :: "port list \<Rightarrow> vdp_dev \<Rightarrow> vdp_dev" where
  "out_ports ps s \<equiv> s\<lparr>port_log := port_log s @ ps\<rparr>"

text \<open>The process identifier of the caller, or none before the first process.\<close>

definition md_vdp_open :: "u8 option \<Rightarrow> vdp_dev \<Rightarrow> int \<times> vdp_dev" where
  "md_vdp_open caller s =
     (if vdp_owner s \<noteq> 0 then (- EBUSY, s)
      else (0, s\<lparr>vdp_owner := (case caller of Some p \<Rightarrow> p | None \<Rightarrow> 1),
                 vdp_con := pal_vdp_set_graphics_mode True (vdp_con s)\<rparr>))"

definition md_vdp_close :: "vdp_dev \<Rightarrow> int \<times> vdp_dev" where
  "md_vdp_close s =
     (0, (out_ports [Reinit] (s\<lparr>vdp_con := pal_vdp_set_graphics_mode False (vdp_con s)\<rparr>))\<lparr>vdp_owner := 0\<rparr>)"

definition md_vdp_read :: "int \<Rightarrow> int" where "md_vdp_read len = - EINVAL"
definition md_vdp_write :: "int \<Rightarrow> int" where "md_vdp_write len = - EINVAL"

text \<open>Each command gives its result and its writes to the ports.\<close>

definition vdp_do_loadtiles :: "memory \<Rightarrow> tiles_arg \<Rightarrow> int \<times> port list" where
  "vdp_do_loadtiles m a =
     (if t_data a = 0 \<or> t_count a = 0 then (- EINVAL, [])
      else let vram_addr = VRAM_USER_TILES + t_start_id a * 32
           in (0, Control (vdp_write_cmd VDP_VRAM_WRITE vram_addr)
                  # map (\<lambda>i. Data32 (get32 m (t_data a + of_nat (4 * i)))) [0..<unat (t_count a) * 8]))"

definition map_row :: "memory \<Rightarrow> map_arg \<Rightarrow> nat \<Rightarrow> port list" where
  "map_row m a row =
     Control (vdp_write_cmd VDP_VRAM_WRITE (VRAM_PLANE_A + (m_y a + of_nat row) * 128 + m_x a * 2))
     # map (\<lambda>col. Data (get16 m (m_tiles a + of_nat (2 * (row * unat (m_w a) + col))) + USER_TILE_OFFSET)) [0..<unat (m_w a)]"

definition vdp_do_setmap :: "memory \<Rightarrow> map_arg \<Rightarrow> int \<times> port list" where
  "vdp_do_setmap m a =
     (if m_tiles a = 0 then (- EINVAL, [])
      else if unat (m_x a) + unat (m_w a) > 40 \<or> unat (m_y a) + unat (m_h a) > 28 then (- EINVAL, [])
      else (0, concat (map (map_row m a) [0..<unat (m_h a)])))"

definition vdp_do_setpal :: "memory \<Rightarrow> pal_arg \<Rightarrow> int \<times> port list" where
  "vdp_do_setpal m a =
     (if p_colors a = 0 then (- EINVAL, [])
      else if p_palette a \<ge> 4 \<or> unat (p_index a) + unat (p_count a) > 16 then (- EINVAL, [])
      else (0, Control (vdp_write_cmd VDP_CRAM_WRITE (p_palette a * 32 + p_index a * 2))
               # map (\<lambda>i. Data (get16 m (p_colors a + of_nat (2 * i)))) [0..<unat (p_count a)]))"

definition vdp_do_setsprite :: "sprite_arg \<Rightarrow> int \<times> port list" where
  "vdp_do_setsprite a =
     (if s_id a \<ge> 80 then (- EINVAL, [])
      else (0, [Control (vdp_write_cmd VDP_VRAM_WRITE (VRAM_SPRITES + s_id a * 8)),
                Data (s_y a + 128), Data (push_bit 8 (s_size a) OR (s_link a AND 0x7F)),
                Data (s_tile a), Data (s_x a + 128)]))"

definition vdp_do_scroll :: "scroll_arg \<Rightarrow> int \<times> port list" where
  "vdp_do_scroll a =
     (if c_plane a > 1 then (- EINVAL, [])
      else (0, [Control (vdp_write_cmd VDP_VSRAM_WRITE (c_plane a * 2)), Data (c_y a),
                Control (vdp_write_cmd VDP_VRAM_WRITE (0xFC00 + c_plane a * 2)), Data (- c_x a)]))"

definition vdp_do_clear :: "int \<times> port list" where
  "vdp_do_clear =
     (0, Control (vdp_write_cmd VDP_VRAM_WRITE VRAM_PLANE_A) # replicate (64 * 32) (Data 0)
       @ Control (vdp_write_cmd VDP_VRAM_WRITE VRAM_SPRITES) # replicate (80 * 4) (Data 0)
       @ [Control (vdp_write_cmd VDP_VSRAM_WRITE 0), Data 0, Data 0,
          Control (vdp_write_cmd VDP_VRAM_WRITE 0xFC00), Data 0, Data 0])"

text \<open>Polling: the status word read at the \<open>n\<close>-th time is \<open>status n\<close>; the count of reads is returned.\<close>

partial_function (option) wait_vblank :: "(nat \<Rightarrow> u16) \<Rightarrow> nat \<Rightarrow> nat option" where
  "wait_vblank status n = (if status n AND 8 = 0 then wait_vblank status (n + 1) else Some (n + 1))"

definition vdp_command :: "memory \<Rightarrow> u32 \<Rightarrow> u32 \<Rightarrow> int \<times> port list" where
  "vdp_command m cmd arg =
     (if cmd = 0x5600 then vdp_do_loadtiles m (get_tiles_arg m arg)
      else if cmd = 0x5601 then vdp_do_setmap m (get_map_arg m arg)
      else if cmd = 0x5602 then vdp_do_setpal m (get_pal_arg m arg)
      else if cmd = 0x5603 then vdp_do_setsprite (get_sprite_arg m arg)
      else if cmd = 0x5604 then vdp_do_scroll (get_scroll_arg m arg)
      else if cmd = 0x5606 then vdp_do_clear
      else (- EINVAL, []))"

definition md_vdp_ioctl :: "(nat \<Rightarrow> u16) \<Rightarrow> memory \<Rightarrow> u32 \<Rightarrow> u32 \<Rightarrow> vdp_dev \<Rightarrow> (int \<times> vdp_dev) option" where
  "md_vdp_ioctl status m cmd arg s =
     (if cmd = 0x5605 then map_option (\<lambda>_. (0, s)) (wait_vblank status 0)
      else let (r, ps) = vdp_command m cmd arg in Some (r, out_ports ps s))"

section \<open>Words on their way to the memories\<close>

datatype area = VRAM | CRAM | VSRAM

definition ctrl_target :: "u32 \<Rightarrow> area \<times> u16" where
  "ctrl_target c =
     (if bit c 4 then VSRAM else if bit c 31 then CRAM else VRAM,
      ucast (drop_bit 16 c AND 0x3FFF) OR push_bit 14 (ucast (c AND 3)))"

primrec vdp_words :: "area \<times> u16 \<Rightarrow> port list \<Rightarrow> (area \<times> u16 \<times> u16) list" where
  "vdp_words t [] = []"
| "vdp_words t (p # ps) =
     (case p of
        Control c \<Rightarrow> vdp_words (ctrl_target c) ps
      | Data w \<Rightarrow> (fst t, snd t, w) # vdp_words (fst t, snd t + 2) ps
      | Data32 v \<Rightarrow> (fst t, snd t, ucast (drop_bit 16 v)) # (fst t, snd t + 2, ucast v) # vdp_words (fst t, snd t + 4) ps
      | Reinit \<Rightarrow> vdp_words t ps)"

definition area_cmd :: "area \<Rightarrow> u32" where
  "area_cmd ar = (case ar of VRAM \<Rightarrow> VDP_VRAM_WRITE | CRAM \<Rightarrow> VDP_CRAM_WRITE | VSRAM \<Rightarrow> VDP_VSRAM_WRITE)"

text \<open>The driver's encoding of an address is the one the processor decodes.\<close>

lemma ctrl_target_cmd: "ctrl_target (vdp_write_cmd (area_cmd ar) a) = (ar, a)"
proof -
  have m14: "(0x3FFF :: 'a::len word) = mask 14" and m2: "(3 :: 'a::len word) = mask 2"
    by (simp_all add: mask_eq_exp_minus_1)
  let ?c = "vdp_write_cmd (area_cmd ar) a"
  have c: "?c = area_cmd ar OR push_bit 16 (ucast a AND mask 14) OR (drop_bit 14 (ucast a) AND mask 2)"
    unfolding vdp_write_cmd_def Let_def m14 m2 ..
  have b: "bit (area_cmd ar) n \<longleftrightarrow> n = 30 \<or> n = 31 \<and> ar = CRAM \<or> n = 4 \<and> ar = VSRAM" for n
  proof -
    have p: "bit (2 ^ k :: u32) n \<longleftrightarrow> n = k" "bit (if q then 2 ^ k else 0 :: u32) n \<longleftrightarrow> q \<and> n = k" if "k < 32" for k q
      using that by (auto simp: bit_exp_iff)
    have "area_cmd ar = 2 ^ 30 OR (if ar = CRAM then 2 ^ 31 else 0) OR (if ar = VSRAM then 2 ^ 4 else 0)"
      by (cases ar) (simp_all add: area_cmd_def)
    then have "bit (area_cmd ar) n \<longleftrightarrow> n = 30 \<or> (ar = CRAM \<and> n = 31) \<or> (ar = VSRAM \<and> n = 4)"
      by (simp only: bit_or_iff p)
    then show ?thesis by blast
  qed
  have cb: "bit ?c k \<longleftrightarrow> bit (area_cmd ar) k \<or> 16 \<le> k \<and> k < 30 \<and> bit a (k - 16) \<or> k < 2 \<and> bit a (14 + k)" if "k < 32" for k
    using that unfolding c by (simp add: bit_simps) (auto simp: not_less)
  have "bit ?c 4 \<longleftrightarrow> ar = VSRAM" "bit ?c 31 \<longleftrightarrow> ar = CRAM" by (simp_all add: cb b)
  moreover have "ucast (drop_bit 16 ?c AND mask 14) OR push_bit 14 (ucast (?c AND mask 2)) = a"
  proof (rule bit_word_eqI)
    fix n
    assume "n < LENGTH(16)"
    then consider "n < 14" | "n = 14" | "n = 15" by fastforce
    then show "bit (ucast (drop_bit 16 ?c AND mask 14) OR push_bit 14 (ucast (?c AND mask 2)) :: u16) n \<longleftrightarrow> bit a n"
      by cases (simp_all add: bit_simps cb b)
  qed
  ultimately show ?thesis unfolding ctrl_target_def m14 m2 by (cases ar) simp_all
qed

lemma ctrl_target_cmds [simp]:
  "ctrl_target (vdp_write_cmd VDP_VRAM_WRITE a) = (VRAM, a)" "ctrl_target (vdp_write_cmd VDP_CRAM_WRITE a) = (CRAM, a)"
  "ctrl_target (vdp_write_cmd VDP_VSRAM_WRITE a) = (VSRAM, a)"
  using ctrl_target_cmd [of VRAM a] ctrl_target_cmd [of CRAM a] ctrl_target_cmd [of VSRAM a]
  by (simp_all add: area_cmd_def)

lemma vdp_words_control:
  "vdp_words t (Control (vdp_write_cmd VDP_VRAM_WRITE a) # ps) = vdp_words (VRAM, a) ps"
  "vdp_words t (Control (vdp_write_cmd VDP_CRAM_WRITE a) # ps) = vdp_words (CRAM, a) ps"
  "vdp_words t (Control (vdp_write_cmd VDP_VSRAM_WRITE a) # ps) = vdp_words (VSRAM, a) ps"
  by simp_all

text \<open>A run of words from an address on, and what follows it.\<close>

lemma vdp_words_run:
  "vdp_words (ar, a) (map (\<lambda>i. Data (f i)) [j..<n] @ ps) =
     map (\<lambda>i. (ar, a + of_nat (2 * (i - j)), f i)) [j..<n] @ vdp_words (ar, a + of_nat (2 * (n - j))) ps"
proof (induction "n - j" arbitrary: a j)
  case (Suc k)
  then have j: "j < n" "k = n - Suc j" by simp_all
  have s: "of_nat (2 * (i - j)) = (2 + of_nat (2 * (i - Suc j)) :: u16)" if "j < i" for i
  proof -
    have "2 * (i - j) = 2 + 2 * (i - Suc j)" using that by simp
    then show ?thesis by (simp only: of_nat_add) simp
  qed
  have "map (\<lambda>i. (ar, a + 2 + of_nat (2 * (i - Suc j)), f i)) [Suc j..<n] = map (\<lambda>i. (ar, a + of_nat (2 * (i - j)), f i)) [Suc j..<n]"
    using s by (intro map_cong) (auto simp: add.assoc)
  with Suc.hyps(1) [OF j(2), of "a + 2"] s [OF j(1)] show ?case
    using j(1) by (simp add: upt_conv_Cons add.assoc)
qed simp

lemma vdp_words_append:
  "\<exists>t'. vdp_words t (ps @ qs) = vdp_words t ps @ vdp_words t' qs"
proof (induction ps arbitrary: t)
  case (Cons p ps)
  obtain t' where "vdp_words (case p of Control c \<Rightarrow> ctrl_target c | Data w \<Rightarrow> (fst t, snd t + 2) | Data32 v \<Rightarrow> (fst t, snd t + 4) | Reinit \<Rightarrow> t) (ps @ qs) =
      vdp_words (case p of Control c \<Rightarrow> ctrl_target c | Data w \<Rightarrow> (fst t, snd t + 2) | Data32 v \<Rightarrow> (fst t, snd t + 4) | Reinit \<Rightarrow> t) ps @ vdp_words t' qs"
    using Cons by blast
  then show ?case by (intro exI [of _ t']) (simp split: port.splits)
next
  case Nil
  then show ?case by (intro exI [of _ t]) simp
qed

section \<open>The name table\<close>

definition plane_cell :: "nat \<Rightarrow> nat \<Rightarrow> u16" where
  "plane_cell row col = 0xC000 + of_nat (row * 128 + col * 2)"

definition map_entry :: "memory \<Rightarrow> map_arg \<Rightarrow> nat \<Rightarrow> nat \<Rightarrow> u16" where
  "map_entry m a row col = get16 m (m_tiles a + of_nat (2 * (row * unat (m_w a) + col))) + 128"

lemma map_row_words:
  "vdp_words t (map_row m a row @ ps) =
     map (\<lambda>col. (VRAM, plane_cell (unat (m_y a) + row) (unat (m_x a) + col), map_entry m a row col)) [0..<unat (m_w a)] @
     vdp_words (VRAM, plane_cell (unat (m_y a) + row) (unat (m_x a) + unat (m_w a))) ps"
proof -
  have c: "0xC000 + (m_y a + of_nat row) * 128 + m_x a * 2 + of_nat (2 * k) = plane_cell (unat (m_y a) + row) (unat (m_x a) + k)" for k
    by (simp add: plane_cell_def algebra_simps)
  show ?thesis
    unfolding map_row_def append_Cons vdp_words_control vdp_words_run c [symmetric] map_entry_def by simp
qed

lemma map_rows_words:
  "vdp_words t (concat (map (map_row m a) rows)) =
     concat (map (\<lambda>row. map (\<lambda>col. (VRAM, plane_cell (unat (m_y a) + row) (unat (m_x a) + col), map_entry m a row col)) [0..<unat (m_w a)]) rows)"
  by (induction rows arbitrary: t) (simp_all add: map_row_words)

lemma setmap_words:
  "m_tiles a \<noteq> 0 \<Longrightarrow> unat (m_x a) + unat (m_w a) \<le> 40 \<Longrightarrow> unat (m_y a) + unat (m_h a) \<le> 28 \<Longrightarrow>
     vdp_words t (snd (vdp_do_setmap m a)) =
     concat (map (\<lambda>row. map (\<lambda>col. (VRAM, plane_cell (unat (m_y a) + row) (unat (m_x a) + col), map_entry m a row col))
       [0..<unat (m_w a)]) [0..<unat (m_h a)])"
  by (simp add: vdp_do_setmap_def map_rows_words)

text \<open>
  C40. A rectangle of tiles that lies on the screen is drawn as given: the words that reach the video
  processor are the entries of the name table of plane A at the places of the rectangle, row by
  row, each the tile of the program moved behind the 128 tiles of the font, and nothing else. A
  rectangle that reaches over the edge draws nothing.
\<close>

theorem setmap_draws_rectangle:
  "if m_tiles a \<noteq> 0 \<and> unat (m_x a) + unat (m_w a) \<le> 40 \<and> unat (m_y a) + unat (m_h a) \<le> 28
   then fst (vdp_do_setmap m a) = 0 \<and> vdp_words t (snd (vdp_do_setmap m a)) =
     concat (map (\<lambda>row. map (\<lambda>col. (VRAM, plane_cell (unat (m_y a) + row) (unat (m_x a) + col), map_entry m a row col))
       [0..<unat (m_w a)]) [0..<unat (m_h a)])
   else vdp_do_setmap m a = (- EINVAL, [])"
  using setmap_words [of a t m] by (auto simp: vdp_do_setmap_def)

section \<open>Where a command can write\<close>

definition graphics_area :: "area \<times> u16 \<times> u16 \<Rightarrow> bool" where
  "graphics_area w \<longleftrightarrow> (case w of
     (VRAM, a, _) \<Rightarrow> 0xC000 \<le> a \<and> a < 0xD000 \<or> 0xF000 \<le> a \<and> a < 0xF280 \<or> 0xFC00 \<le> a \<and> a < 0xFC04
   | (CRAM, a, _) \<Rightarrow> a < 128
   | (VSRAM, a, _) \<Rightarrow> a < 4)"

lemma unat_small16: "n < 65536 \<Longrightarrow> unat (of_nat n :: u16) = n"
  by (simp add: unat_of_nat)

lemma setmap_area: "list_all graphics_area (vdp_words t (snd (vdp_do_setmap m a)))"
proof (cases "m_tiles a \<noteq> 0 \<and> unat (m_x a) + unat (m_w a) \<le> 40 \<and> unat (m_y a) + unat (m_h a) \<le> 28")
  case True
  have "graphics_area (VRAM, plane_cell (unat (m_y a) + row) (unat (m_x a) + col), v)"
    if "row < unat (m_h a)" "col < unat (m_w a)" for row col v
  proof -
    let ?n = "(unat (m_y a) + row) * 128 + (unat (m_x a) + col) * 2"
    have n: "?n \<le> 27 * 128 + 39 * 2" using True that by (intro add_mono mult_right_mono) auto
    have "unat (0xC000 + of_nat ?n :: u16) = 0xC000 + ?n"
      using n by (simp only: unat_word_ariths unat_small16) simp
    with n show ?thesis by (simp add: graphics_area_def plane_cell_def word_le_nat_alt word_less_nat_alt del: of_nat_add of_nat_mult)
  qed
  with True show ?thesis
    using setmap_words [of a t m] by (auto simp: list_all_iff)
next
  case False
  then show ?thesis by (auto simp: vdp_do_setmap_def)
qed


lemma run_area:
  assumes "\<And>k. k < n \<Longrightarrow> graphics_area (ar, a + of_nat (2 * k), f k)"
  shows "list_all graphics_area (vdp_words (ar, a) (map (\<lambda>i. Data (f i)) [0..<n]))"
  using vdp_words_run [of ar a f 0 n "[]"] assms by (auto simp: list_all_iff)

lemma setpal_area: "list_all graphics_area (vdp_words t (snd (vdp_do_setpal m a)))"
proof (cases "p_colors a \<noteq> 0 \<and> \<not> p_palette a \<ge> 4 \<and> unat (p_index a) + unat (p_count a) \<le> 16")
  case True
  have "graphics_area (CRAM, p_palette a * 32 + p_index a * 2 + of_nat (2 * k), v)" if "k < unat (p_count a)" for k v
  proof -
    let ?n = "unat (p_palette a) * 32 + (unat (p_index a) + k) * 2"
    have "unat (p_palette a) \<le> 3" using True by (simp add: word_le_nat_alt)
    moreover have "unat (p_index a) + k < 16" using True that by linarith
    ultimately have n: "?n < 128" by auto
    have "p_palette a * 32 + p_index a * 2 + of_nat (2 * k) = of_nat ?n" by (simp add: algebra_simps)
    then have "unat (p_palette a * 32 + p_index a * 2 + of_nat (2 * k)) = ?n" using n by (simp only: unat_small16)
    with n show ?thesis by (simp add: graphics_area_def word_less_nat_alt del: of_nat_mult)
  qed
  with True show ?thesis by (auto simp: vdp_do_setpal_def intro!: run_area)
qed (auto simp: vdp_do_setpal_def)

lemma setsprite_area: "list_all graphics_area (vdp_words t (snd (vdp_do_setsprite a)))"
proof (cases "s_id a \<ge> 80")
  case False
  have "graphics_area (VRAM, 0xF000 + s_id a * 8 + of_nat k, v)" if "k < 8" for k v
  proof -
    have "unat (s_id a) < 80" using False by (simp add: word_le_nat_alt)
    then have n: "unat (s_id a) * 8 + k < 640" using that by linarith
    have "0xF000 + s_id a * 8 + of_nat k = (of_nat (0xF000 + (unat (s_id a) * 8 + k)) :: u16)" by simp
    then have "unat (0xF000 + s_id a * 8 + of_nat k) = 0xF000 + (unat (s_id a) * 8 + k)" using n by (simp only: unat_small16)
    with n show ?thesis by (simp add: graphics_area_def word_le_nat_alt word_less_nat_alt)
  qed
  from this [of 0] this [of 2] this [of 4] this [of 6] show ?thesis
    using False by (simp add: vdp_do_setsprite_def add.assoc)
qed (simp add: vdp_do_setsprite_def)

lemma scroll_area: "list_all graphics_area (vdp_words t (snd (vdp_do_scroll a)))"
proof (cases "c_plane a > 1")
  case False
  then have "unat (c_plane a) = 0 \<or> unat (c_plane a) = 1" by (auto simp: word_less_nat_alt)
  then have "c_plane a = 0 \<or> c_plane a = 1" by (metis unat_0 unat_1 word_unat_eq_iff)
  then show ?thesis by (auto simp: vdp_do_scroll_def graphics_area_def)
qed (simp add: vdp_do_scroll_def)

lemma clear_words:
  "vdp_words t (snd vdp_do_clear) =
     map (\<lambda>i. (VRAM, 0xC000 + of_nat (2 * i), 0)) [0..<2048] @ map (\<lambda>i. (VRAM, 0xF000 + of_nat (2 * i), 0)) [0..<320] @
     [(VSRAM, 0, 0), (VSRAM, 2, 0), (VRAM, 0xFC00, 0), (VRAM, 0xFC02, 0)]"
proof -
  have r: "replicate n (Data 0) = map (\<lambda>i. Data ((\<lambda>_. 0) i)) [0..<n]" for n
    by (simp add: map_replicate_trivial)
  show ?thesis
    unfolding vdp_do_clear_def r snd_conv append_Cons vdp_words_control vdp_words_run by simp
qed

lemma clear_area: "list_all graphics_area (vdp_words t (snd vdp_do_clear))"
proof -
  have "graphics_area (VRAM, b + of_nat (2 * i), v)"
    if "(b = 0xC000 \<and> i < 2048) \<or> (b = 0xF000 \<and> i < 320)" for b i v
  proof -
    have "b + of_nat (2 * i) = of_nat (unat b + 2 * i)" by simp
    moreover have "unat b + 2 * i < 65536" using that by auto
    ultimately have "unat (b + of_nat (2 * i)) = unat b + 2 * i" by (simp only: unat_small16)
    with that show ?thesis by (auto simp: graphics_area_def word_le_nat_alt word_less_nat_alt simp del: of_nat_mult)
  qed
  then show ?thesis by (auto simp: clear_words list_all_iff graphics_area_def simp del: of_nat_mult)
qed

text \<open>
  A command other than the loading of tiles writes only to plane A, the table of the 80 sprites,
  the scroll table, the palettes and the two scroll registers: whatever its arguments and wherever
  they point, the font, the tiles and plane B stay as they are.
\<close>

theorem commands_stay_in_graphics:
  assumes "cmd \<noteq> 0x5600"
  shows "list_all graphics_area (vdp_words t (snd (vdp_command m cmd arg)))"
  using assms setmap_area setpal_area setsprite_area scroll_area clear_area by (simp add: vdp_command_def)

theorem commands_stay_in_graphics_witness:
  "list_all graphics_area (vdp_words (VRAM, 0) (snd (vdp_command (\<lambda>_. 0) 0x5606 0)))"
  by (rule commands_stay_in_graphics) simp

text \<open>Tiles stay between the font and plane A as long as there are no more than 1408 of them.\<close>

definition long_at :: "area \<Rightarrow> u16 \<Rightarrow> u32 \<Rightarrow> (area \<times> u16 \<times> u16) list" where
  "long_at ar a v = [(ar, a, ucast (drop_bit 16 v)), (ar, a + 2, ucast v)]"

lemma vdp_words_longs:
  "vdp_words (ar, a) (map (\<lambda>i. Data32 (f i)) [j..<n]) =
     concat (map (\<lambda>i. long_at ar (a + of_nat (4 * (i - j))) (f i)) [j..<n])"
proof (induction "n - j" arbitrary: a j)
  case (Suc k)
  then have j: "j < n" "k = n - Suc j" by simp_all
  have s: "a + 4 + of_nat (4 * (i - Suc j)) = a + of_nat (4 * (i - j))" if "i \<in> set [Suc j..<n]" for i
  proof -
    have "4 * (i - j) = 4 + 4 * (i - Suc j)" using that by auto
    then show ?thesis by (simp only: of_nat_add) simp
  qed
  have e: "map (\<lambda>i. long_at ar (a + 4 + of_nat (4 * (i - Suc j))) (f i)) [Suc j..<n] =
      map (\<lambda>i. long_at ar (a + of_nat (4 * (i - j))) (f i)) [Suc j..<n]"
    using s by (intro map_cong refl) simp
  have ih: "vdp_words (ar, a + 4) (map (\<lambda>i. Data32 (f i)) [Suc j..<n]) =
      concat (map (\<lambda>i. long_at ar (a + of_nat (4 * (i - j))) (f i)) [Suc j..<n])"
    using Suc.hyps(1) [OF j(2), of "a + 4"] unfolding e .
  show ?case unfolding upt_conv_Cons [OF j(1)] by (simp add: ih) (simp add: long_at_def)
qed simp

lemma loadtiles_area:
  assumes "unat (t_start_id a) + unat (t_count a) \<le> 1408" and "(ar, x, w) \<in> set (vdp_words t (snd (vdp_do_loadtiles m a)))"
  shows "ar = VRAM \<and> 0x1000 \<le> x \<and> x < 0xC000"
proof -
  let ?b = "0x1000 + t_start_id a * 32 :: u16"
  have "vdp_words t (snd (vdp_do_loadtiles m a)) = (if t_data a = 0 \<or> t_count a = 0 then [] else
      vdp_words (VRAM, ?b) (map (\<lambda>i. Data32 (get32 m (t_data a + of_nat (4 * i)))) [0..<unat (t_count a) * 8]))"
    by (simp add: vdp_do_loadtiles_def)
  then obtain k where k: "k < unat (t_count a) * 8" "ar = VRAM" "x = ?b + of_nat (4 * k) \<or> x = ?b + of_nat (4 * k) + 2"
    using assms(2) by (auto simp: vdp_words_longs long_at_def split: if_splits)
  have "?b + of_nat (4 * k) = ?b + of_nat (4 * k + 0)" "?b + of_nat (4 * k) + 2 = ?b + of_nat (4 * k + 2)" by simp_all
  then obtain d :: nat where d: "x = ?b + of_nat (4 * k + d)" "d = 0 \<or> d = 2" using k(3) by metis
  have n: "4096 + (unat (t_start_id a) * 32 + (4 * k + d)) < 49152" using assms(1) k(1) d(2) by auto
  have "x = of_nat (4096 + (unat (t_start_id a) * 32 + (4 * k + d)))" unfolding d(1) by simp
  then have "unat x = 4096 + (unat (t_start_id a) * 32 + (4 * k + d))" using n by (simp only: unat_small16)
  with n k(2) show ?thesis by (simp add: word_le_nat_alt word_less_nat_alt)
qed

text \<open>There is no check: tile 1408 is the first row of plane A, and tile 1920 the font.\<close>

lemma tile_1408_on_plane:
  "(VRAM, 0xC000, ucast (drop_bit 16 (get32 m 0x100))) \<in>
     set (vdp_words t (snd (vdp_do_loadtiles m \<lparr>t_start_id = 1408, t_count = 1, t_data = 0x100\<rparr>)))"
  by (simp add: vdp_do_loadtiles_def upt_rec)

lemma tile_1920_on_font:
  "(VRAM, 0, ucast (drop_bit 16 (get32 m 0x100))) \<in>
     set (vdp_words t (snd (vdp_do_loadtiles m \<lparr>t_start_id = 1920, t_count = 1, t_data = 0x100\<rparr>)))"
  by (simp add: vdp_do_loadtiles_def upt_rec)

section \<open>Opening and waiting\<close>

text \<open>Only one process has the device: after an open by a process other than 0 the next is refused.\<close>

lemma open_is_exclusive:
  "vdp_owner s = 0 \<Longrightarrow> p \<noteq> 0 \<Longrightarrow> md_vdp_open (Some p) s = (0, s') \<Longrightarrow>
     md_vdp_open q s' = (- EBUSY, s') \<and> vdp_graphics_mode (vdp_con s')"
  by (auto simp: md_vdp_open_def pal_vdp_set_graphics_mode_def)

lemma close_restores_console:
  "md_vdp_close s = (r, s') \<Longrightarrow> vdp_owner s' = 0 \<and> \<not> vdp_graphics_mode (vdp_con s') \<and> last (port_log s') = Reinit"
  by (auto simp: md_vdp_close_def pal_vdp_set_graphics_mode_def)

text \<open>The wait ends with the first status that has the blanking bit.\<close>

lemma wait_vblank_ends:
  "status (n + k) AND 8 \<noteq> 0 \<Longrightarrow> (\<And>i. i < k \<Longrightarrow> status (n + i) AND 8 = 0) \<Longrightarrow> wait_vblank status n = Some (n + k + 1)"
proof (induction k arbitrary: n)
  case 0
  then show ?case by (subst wait_vblank.simps) simp
next
  case (Suc k)
  have "wait_vblank status (n + 1) = Some (n + 1 + k + 1)"
    using Suc.prems(1) Suc.prems(2) [of "Suc _"] by (intro Suc.IH) simp_all
  with Suc.prems(2) [of 0] show ?case by (subst wait_vblank.simps) simp
qed

section \<open>The graphics library\<close>

text \<open>The wrappers of libc/gfx.c build the argument from C integers, which are cut to 16 bits.\<close>

definition gfx_tiles :: "memory \<Rightarrow> u32 \<Rightarrow> u32 \<Rightarrow> u32 \<Rightarrow> int \<times> port list" where
  "gfx_tiles m start_id data count =
     vdp_do_loadtiles m \<lparr>t_start_id = ucast start_id, t_count = ucast count, t_data = data\<rparr>"

definition gfx_map :: "memory \<Rightarrow> u32 \<Rightarrow> u32 \<Rightarrow> u32 \<Rightarrow> u32 \<Rightarrow> u32 \<Rightarrow> int \<times> port list" where
  "gfx_map m x y w h tiles =
     vdp_do_setmap m \<lparr>m_x = ucast x, m_y = ucast y, m_w = ucast w, m_h = ucast h, m_tiles = tiles\<rparr>"

definition gfx_palette :: "memory \<Rightarrow> u32 \<Rightarrow> u32 \<Rightarrow> u32 \<Rightarrow> u32 \<Rightarrow> int \<times> port list" where
  "gfx_palette m pal idx colors count =
     vdp_do_setpal m \<lparr>p_palette = ucast pal, p_index = ucast idx, p_count = ucast count, p_colors = colors\<rparr>"

definition gfx_sprite :: "u32 \<Rightarrow> u32 \<Rightarrow> u32 \<Rightarrow> u16 \<Rightarrow> u32 \<Rightarrow> u32 \<Rightarrow> int \<times> port list" where
  "gfx_sprite sid x y tile sz link =
     vdp_do_setsprite \<lparr>s_id = ucast sid, s_x = ucast x, s_y = ucast y, s_tile = tile, s_size = ucast sz, s_link = ucast link\<rparr>"

definition gfx_scroll :: "u32 \<Rightarrow> u32 \<Rightarrow> u32 \<Rightarrow> int \<times> port list" where
  "gfx_scroll plane x y = vdp_do_scroll \<lparr>c_plane = ucast plane, c_x = ucast x, c_y = ucast y\<rparr>"

text \<open>The cut hides an argument that is too large: column 65536 is column 0.\<close>

lemma gfx_column_cut: "gfx_map m 0x10000 y w h tiles = gfx_map m 0 y w h tiles"
proof -
  have "(ucast (0x10000 :: u32) :: u16) = ucast (0 :: u32)" by simp
  then show ?thesis by (simp only: gfx_map_def)
qed

end
