(* ===== verification/Spec2Isabelle.thy ===== *)
theory Spec2Isabelle
  imports Pipe_System Fs_Names Umem KHeap Exec_Correct Lifecycle_Correct Fd_Counts
    Regex_Correct Line_Edit_Correct Printf_Correct Mkfs_Files Romfix_Correct Mkbin_Correct
    Curses_Correct Keyboard Sort_Search Umalloc Environment Vdp
begin

text \<open>
  A verification development of Genix, a small operating system for the 68000: its kernel, the parts
  of its C library that hold state or algorithms, the drivers of the Mega Drive, and the tools that
  build its disk and program images. Every definition is a translation of the C code under src/; the
  texts at the head of the theories say which file, and each operation has the name of its C function
  unless that is taken in HOL (\<open>md_vdp_open\<close>, \<open>lstrcmp\<close>, \<open>echo_curses\<close>).

  \<^bold>\<open>How the parts fit.\<close> A system call enters \<open>syscall_dispatch\<close> (kernel/proc.c, theory Syscalls) on the
  state of the whole kernel (\<open>kern\<close>, theory Kern): process and open-file tables, pipes, file system,
  terminals, user memory pool and kernel heap. It goes on to pipes, devices (Dev) and through them
  the terminals (Tty), files (Fs), which stand on the buffer cache (Buf_Cache) and that on a disk
  (Disk), to the life of processes (Lifecycle) and the program loader (Exec), which takes memory from
  the user pool (Umem). On the Mega Drive a terminal writes to the console (Console) and is fed by
  the keyboard (Keyboard). User programs meet the kernel through the C library. The tools write what
  the kernel reads: mkfs the file system (Mkfs), mkbin the program files (Mkbin), and romfix resolves
  programs that run in the ROM (Romfix).

  \<^bold>\<open>The kernel.\<close>
  \<^item> Proc_Table, kernel/proc.c and kernel.h: \<open>proc\<close>, \<open>ofile\<close>, the tables, descriptors, the scheduler.
  \<^item> Pipe, Pipe_System, kernel/proc.c: the ring buffer with blocking readers and writers; the processes
    around a pipe as a step relation. What is read is what was written, in order, in every
    interleaving, and no sleeping reader of a single-reader pipe is forgotten.
  \<^item> Byte_Queue: the contract of both ring buffers, of which pipe and terminal are interpretations.
  \<^item> Disk, Buf_Cache, Fs, Fs_File, Fs_Dir, kernel/buf.c and fs.c: 16 buffers, minifs. Fs_Coherence: the
    cache agrees with the disk after any sequence of calls. Fs_Layout: on-disk formats and the free
    list. Fs_Content: reads and writes as operations on the bytes of a file. Fs_Names: directories as
    lists of entries. All of this is for the disk of the workbench, which keeps what is written; on the
    Mega Drive the file system is in ROM and a write is dropped (\<open>rom_write_lost\<close>).
  \<^item> Regions, Umem, KHeap, kernel/mem.c: the pool of user memory and \<open>sbrk\<close>; the kernel heap, whose held
    and free blocks are the heap, each byte once, after any sequence of calls.
  \<^item> KString, kernel/string.c.
  \<^item> Tty, Tty_Discipline, kernel/tty.c: the line discipline, refined to an automaton on lists; reads
    deliver what was typed, a line at a time unless several are waiting.
  \<^item> Exec, Exec_Correct, kernel/exec.c: headers, relocation, the stack of a new program, loading.
  \<^item> Lifecycle, Lifecycle_Correct, kernel/proc.c and exec.c: exit, wait, vfork, spawn, exec, the first
    stack, signals; who is ready runs within fifteen time slices, and fifteen more for each step that
    hands the processor over outside the scheduler, as vfork does.
  \<^item> Dev, Kern, Syscalls, kernel/dev.c and proc.c: the device table and every system call. Fd_Refs,
    Fd_Counts: in every run the count of an open file is the number of its descriptors and of the
    references that failing calls of \<open>dup\<close> lose, which the run carries along.

  \<^bold>\<open>The C library.\<close>
  \<^item> CText, Num_Conv, Num_Round, Printf, Printf_Correct, libc/ctype.c, strtol.c, sprintf.c and
    kernel/kprintf.c: what is printed is read back, and the bounded formatters stay in their buffer.
  \<^item> Regex, Regex_Correct, libc/regex.c: matching against a denotation of patterns read off them
    as the comments describe; the patterns that the code treats otherwise are shown apart.
  \<^item> Line_Edit, Line_Edit_Correct, libc/lineedit.c: refinement of an abstract editor, and the
    bound of its display buffer. Its bytes for the terminal are in the model, their look on a screen is
    not: a backspace on the console erases (\<open>backspace_clears\<close> in Console_Correct).
  \<^item> Sort_Search, Umalloc, Environment, libc/stdlib.c: \<open>qsort\<close>, \<open>bsearch\<close>; the heap of a program over
    \<open>sbrk\<close>; the environment as a map.
  \<^item> Curses, Curses_Correct, libc/curses.c: drawing composed with the console.

  \<^bold>\<open>The Mega Drive.\<close>
  \<^item> Console, Console_Correct, Console_Screen, pal/megadrive/platform.c and devvt.S: the parser of escape
    sequences and the scrolled name table, abstracted to a page of 28 by 40 tiles.
  \<^item> Keyboard, pal/megadrive/keyboard.c; Vdp, pal/megadrive/dev_vdp.c and libc/gfx.c: the graphics
    device as its writes to the ports of the video processor, and where these go.

  \<^bold>\<open>The tools.\<close>
  \<^item> Mkfs, Mkfs_Correct, Mkfs_Files, tools/mkfs.c: the kernel mounts the image with the
    free list that mkfs has left and reads the files back.
  \<^item> Mkbin, Mkbin_Correct, tools/mkbin.c: the loader reads what was computed.
  \<^item> Romfix, Romfix_Correct, tools/romfix.c: resolving at build time and loading in place agree with one
    relocation of the whole program.

  \<^bold>\<open>Conventions.\<close> Machine integers are words of their width and wrap; block buffers and physical memory
  are functions from indices to bytes, the most significant byte of a word first. NULL is \<open>None\<close> or
  the word 0, as the code uses it. An error is the negative error number, or a value of a result type
  where the call also gives data. A call that sleeps is modelled as the attempt up to \<open>schedule\<close> and the
  resumption, so that other processes may run in between; the context switch is the change of
  \<open>curproc\<close>. A loop that follows pointers is a \<open>partial_function\<close>, with \<open>None\<close> for one that does not end.

  \<^bold>\<open>Fuel.\<close> The transfer loops of pipes have one unit per byte and one more (\<open>copy_out_contents\<close>,
  \<open>copy_in_contents\<close> show that to be enough), the waiting loop of a terminal one per byte received and
  one more. The bound of the regular expression matcher is the depth of its recursion:
  Regex_Correct shows that the constant \<open>RE_MAXPAT\<close> suffices, whatever the text. The scan of directories
  by romfix has no bound and is a partial function, because the tool does not stop on a cyclic tree.

  \<^bold>\<open>Interfaces.\<close> The locales \<open>bounded_queue\<close>, \<open>block_device\<close>, \<open>block_store\<close>, \<open>digit_loop\<close>, \<open>patching\<close> and
  \<open>shell_array\<close> state the contracts that several components share; each is interpreted on the definitions
  of the code that provides it, and the properties use the interpreted facts.

  \<^bold>\<open>Not modelled.\<close> Assembly other than devvt.S (start-up, vectors, context switch, system call stubs): the C
  code's assumptions about it are in the model, such as the layout of the first stack frame. The set-up
  of the video processor, the font and the serial protocol of the keyboard, which are constant tables
  and hardware timing. kernel/main.c, a fallback shell and self tests. Of the C library the unbuffered
  wrappers (stdio.c, dirent.c, getopt.c, termios.c and the like), the copies of the kernel's string routines
  and \<open>strtod\<close>. The 68000 emulator, the shell dash and the editor levee are third-party
  code kept in the repository; the small utilities are thin users of what is modelled. Console messages
  of the kernel are left out where they have no effect on its state.
\<close>

end
